(* ===== verification/Prelude.thy ===== *)
theory Prelude
  imports Main "HOL-Library.Word" "HOL-Library.Sublist" "HOL-Library.List_Lexorder"
begin

text \<open>
  What every component of the development shares: Rust's machine integers with the arithmetic the
  sources ask for written out (wrapping, saturating), strings as lists of Unicode scalar values with
  their UTF-8 encoding, results as sums, and small facts on lists.  Numbers are \<open>nat\<close> or \<open>int\<close>;
  a range is a hypothesis or a part of an invariant, and each operation says what it does at the
  ends of its range.
\<close>

named_theorems std_simps \<open>definitions of the modelled standard library, for evaluation\<close>

section \<open>Machine integers\<close>

abbreviation u32_max :: nat where "u32_max \<equiv> 4294967295"
abbreviation u64_max :: nat where "u64_max \<equiv> 18446744073709551615"
abbreviation i64_max :: int where "i64_max \<equiv> 9223372036854775807"
abbreviation i64_min :: int where "i64_min \<equiv> - 9223372036854775808"

text \<open>\<open>u64::saturating_add\<close>, \<open>saturating_mul\<close>, and the \<open>u32\<close> form of the first.\<close>

definition sat_add64 :: "nat \<Rightarrow> nat \<Rightarrow> nat" where
  [std_simps]: "sat_add64 a b = min (a + b) u64_max"

definition sat_mul64 :: "nat \<Rightarrow> nat \<Rightarrow> nat" where
  [std_simps]: "sat_mul64 a b = min (a * b) u64_max"

definition sat_add32 :: "nat \<Rightarrow> nat \<Rightarrow> nat" where
  [std_simps]: "sat_add32 a b = min (a + b) u32_max"

text \<open>Unsigned \<open>saturating_sub\<close> is the subtraction of \<open>nat\<close>.  A plain \<open>+= 1\<close> wraps in a release
  build (and panics in a debug one); the wrap-around is written out so that a bound has to be
  proved before it can be ignored.\<close>

definition wrap32 :: "nat \<Rightarrow> nat" where
  [std_simps]: "wrap32 n = n mod 4294967296"

definition wrap64 :: "nat \<Rightarrow> nat" where
  [std_simps]: "wrap64 n = n mod 18446744073709551616"

lemma wrap32_id: "n \<le> u32_max \<Longrightarrow> wrap32 n = n"
  by (simp add: wrap32_def)

lemma wrap64_id: "n \<le> u64_max \<Longrightarrow> wrap64 n = n"
  by (simp add: wrap64_def)

text \<open>Signed 64-bit: saturation at both ends, and the two's complement wrap.\<close>

definition sat_i64 :: "int \<Rightarrow> int" where
  [std_simps]: "sat_i64 x = max i64_min (min i64_max x)"

definition wrap_i64 :: "int \<Rightarrow> int" where
  [std_simps]: "wrap_i64 x = (x + 9223372036854775808) mod 18446744073709551616 - 9223372036854775808"

definition is_i64 :: "int \<Rightarrow> bool" where
  "is_i64 x \<longleftrightarrow> i64_min \<le> x \<and> x \<le> i64_max"

lemma is_i64_sat [simp]: "is_i64 (sat_i64 x)"
  by (simp add: is_i64_def sat_i64_def)

lemma sat_i64_id: "is_i64 x \<Longrightarrow> sat_i64 x = x"
  by (simp add: is_i64_def sat_i64_def)

lemma sat_i64_mono: "x \<le> y \<Longrightarrow> sat_i64 x \<le> sat_i64 y"
  by (auto simp: sat_i64_def)

lemma sat_i64_add_ge: "is_i64 now \<Longrightarrow> 0 \<le> d \<Longrightarrow> now \<le> sat_i64 (now + d)"
  by (simp add: is_i64_def sat_i64_def)

lemma sat_i64_add_gt:
  "is_i64 now \<Longrightarrow> 0 < d \<Longrightarrow> now < i64_max \<Longrightarrow> now < sat_i64 (now + d)"
  by (simp add: is_i64_def sat_i64_def)

lemma wrap_i64_id: "is_i64 x \<Longrightarrow> wrap_i64 x = x"
  by (simp add: is_i64_def wrap_i64_def)

section \<open>Lists\<close>

text \<open>A stable sort by a key, as \<open>slice::sort_by_key\<close>; \<open>sort_key\<close> of the library is stable.\<close>

lemma filter_drop_sorted:
  assumes "sorted_wrt (\<lambda>x y. P y \<longrightarrow> P x) xs"
  shows "takeWhile P xs = filter P xs"
  using assms by (induction xs) (auto simp: filter_empty_conv)

lemma dropWhile_filter_sorted:
  assumes "sorted_wrt (\<lambda>x y. P y \<longrightarrow> P x) xs"
  shows "dropWhile P xs = filter (\<lambda>x. \<not> P x) xs"
  using assms by (induction xs) (auto intro!: filter_True [symmetric])

lemma sorted_wrt_filter_imp: "sorted_wrt R xs \<Longrightarrow> sorted_wrt R (filter P xs)"
  by (rule sorted_wrt_filter)

section \<open>Characters and strings\<close>

text \<open>A \<open>char\<close> is a Unicode scalar value, a \<open>str\<close> or \<open>String\<close> the list of its characters; the bytes
  are its UTF-8 encoding.\<close>

type_synonym byte = "8 word"
type_synonym bytes = "byte list"
type_synonym rchar = nat
type_synonym str = "rchar list"

definition lit :: "string \<Rightarrow> str" where
  [std_simps]: "lit s = map of_char s"

definition valid_char :: "rchar \<Rightarrow> bool" where
  "valid_char c \<longleftrightarrow> c < 55296 \<or> (57344 \<le> c \<and> c < 1114112)"

definition valid_str :: "str \<Rightarrow> bool" where
  "valid_str s \<longleftrightarrow> (\<forall>c \<in> set s. valid_char c)"

lemma valid_str_simps [simp]:
  "valid_str []" "valid_str (c # s) \<longleftrightarrow> valid_char c \<and> valid_str s"
  "valid_str (s @ t) \<longleftrightarrow> valid_str s \<and> valid_str t"
  by (auto simp: valid_str_def)

text \<open>\<open>char::is_control\<close>: the general category Cc.\<close>

definition is_control :: "rchar \<Rightarrow> bool" where
  [std_simps]: "is_control c \<longleftrightarrow> c < 32 \<or> (127 \<le> c \<and> c < 160)"

text \<open>\<open>char::is_whitespace\<close>: the property White\_Space.\<close>

definition is_whitespace :: "rchar \<Rightarrow> bool" where
  [std_simps]: "is_whitespace c \<longleftrightarrow> (9 \<le> c \<and> c \<le> 13) \<or> c = 32 \<or> c = 133 \<or> c = 160 \<or> c = 5760
     \<or> (8192 \<le> c \<and> c \<le> 8202) \<or> c = 8232 \<or> c = 8233 \<or> c = 8239 \<or> c = 8287 \<or> c = 12288"

definition trim :: "str \<Rightarrow> str" where
  [std_simps]: "trim s = rev (dropWhile is_whitespace (rev (dropWhile is_whitespace s)))"

lemma set_trim: "set (trim s) \<subseteq> set s"
proof -
  have "set (trim s) \<subseteq> set (dropWhile is_whitespace s)"
    unfolding trim_def by (metis set_dropWhileD set_rev subsetI)
  then show ?thesis by (metis set_dropWhileD subset_iff)
qed

definition is_alnum :: "rchar \<Rightarrow> bool" where
  [std_simps]: "is_alnum c \<longleftrightarrow> (48 \<le> c \<and> c \<le> 57) \<or> (65 \<le> c \<and> c \<le> 90) \<or> (97 \<le> c \<and> c \<le> 122)"

section \<open>UTF-8\<close>

definition utf8_char :: "rchar \<Rightarrow> bytes" where
  [std_simps]: "utf8_char c =
    (if c < 128 then [of_nat c]
     else if c < 2048 then [of_nat (192 + c div 64), of_nat (128 + c mod 64)]
     else if c < 65536 then
       [of_nat (224 + c div 4096), of_nat (128 + c div 64 mod 64), of_nat (128 + c mod 64)]
     else [of_nat (240 + c div 262144), of_nat (128 + c div 4096 mod 64),
           of_nat (128 + c div 64 mod 64), of_nat (128 + c mod 64)])"

definition utf8 :: "str \<Rightarrow> bytes" where
  [std_simps]: "utf8 s = concat (map utf8_char s)"

text \<open>\<open>String::from\_utf8\<close>: overlong forms, surrogates, values past U+10FFFF and stray or missing
  continuation bytes are refused.\<close>

definition cont_byte :: "byte \<Rightarrow> nat option" where
  [std_simps]: "cont_byte b = (if 128 \<le> unat b \<and> unat b < 192 then Some (unat b - 128) else None)"

definition accept_char :: "nat \<Rightarrow> nat \<Rightarrow> nat option" where
  [std_simps]: "accept_char lo c = (if lo \<le> c \<and> valid_char c then Some c else None)"

definition utf8_next :: "bytes \<Rightarrow> (rchar \<times> bytes) option" where
  [std_simps]: "utf8_next bs = (case bs of [] \<Rightarrow> None | b # r \<Rightarrow>
     if unat b < 128 then Some (unat b, r)
     else if unat b < 192 then None
     else if unat b < 224 then (case r of
         b1 # r1 \<Rightarrow> (case cont_byte b1 of None \<Rightarrow> None | Some c1 \<Rightarrow>
           map_option (\<lambda>c. (c, r1)) (accept_char 128 ((unat b - 192) * 64 + c1)))
       | _ \<Rightarrow> None)
     else if unat b < 240 then (case r of
         b1 # b2 # r2 \<Rightarrow> (case (cont_byte b1, cont_byte b2) of
             (Some c1, Some c2) \<Rightarrow>
               map_option (\<lambda>c. (c, r2)) (accept_char 2048 ((unat b - 224) * 4096 + c1 * 64 + c2))
           | _ \<Rightarrow> None)
       | _ \<Rightarrow> None)
     else if unat b < 248 then (case r of
         b1 # b2 # b3 # r3 \<Rightarrow> (case (cont_byte b1, cont_byte b2, cont_byte b3) of
             (Some c1, Some c2, Some c3) \<Rightarrow>
               map_option (\<lambda>c. (c, r3))
                 (accept_char 65536 ((unat b - 240) * 262144 + c1 * 4096 + c2 * 64 + c3))
           | _ \<Rightarrow> None)
       | _ \<Rightarrow> None)
     else None)"

lemma utf8_next_shorter: "utf8_next bs = Some (c, r) \<Longrightarrow> length r < length bs"
  by (auto simp: utf8_next_def split: list.splits if_splits option.splits)

function from_utf8 :: "bytes \<Rightarrow> str option" where
  "from_utf8 bs = (if bs = [] then Some [] else
     (case utf8_next bs of None \<Rightarrow> None
      | Some (c, r) \<Rightarrow> map_option (Cons c) (from_utf8 r)))"
  by pat_completeness auto
termination
  by (relation "measure length") (auto dest: utf8_next_shorter)

declare from_utf8.simps [simp del]

lemma unat_byte: "n < 256 \<Longrightarrow> unat (of_nat n :: byte) = n"
  by (simp add: unat_of_nat take_bit_eq_mod)

lemma unat_byte_lt [simp]: "unat (b :: byte) < 256"
proof -
  have "unat b < 2 ^ LENGTH(8)" by (rule unsigned_less)
  then show ?thesis by simp
qed

lemma cont_byte_enc [simp]: "n < 64 \<Longrightarrow> cont_byte (of_nat (128 + n)) = Some n"
  unfolding cont_byte_def by (subst (1 2 3) unat_byte) auto

lemma utf8_next_char: "valid_char c \<Longrightarrow> utf8_next (utf8_char c @ r) = Some (c, r)"
proof -
  assume v: "valid_char c"
  then have lt: "c < 1114112" by (auto simp: valid_char_def)
  consider "c < 128" | "128 \<le> c" "c < 2048" | "2048 \<le> c" "c < 65536" | "65536 \<le> c"
    by linarith
  then show ?thesis
  proof cases
    case 1
    then show ?thesis by (simp add: utf8_char_def utf8_next_def unat_byte)
  next
    case 2
    then have "unat (of_nat (192 + c div 64) :: byte) = 192 + c div 64"
      by (intro unat_byte) linarith
    with 2 v show ?thesis
      by (simp add: utf8_char_def utf8_next_def accept_char_def del: of_nat_add) linarith
  next
    case 3
    then have "unat (of_nat (224 + c div 4096) :: byte) = 224 + c div 4096"
      by (intro unat_byte) linarith
    moreover have "c div 4096 * 4096 + c div 64 mod 64 * 64 + c mod 64 = c"
    proof -
      have "c div 4096 = c div 64 div 64" by (simp add: div_mult2_eq [symmetric])
      with div_mult_mod_eq [of "c div 64" 64] div_mult_mod_eq [of c 64] show ?thesis by linarith
    qed
    ultimately show ?thesis using 3 v
      by (simp add: utf8_char_def utf8_next_def accept_char_def del: of_nat_add)
  next
    case 4
    from lt have "c div 262144 < 8" by (simp add: div_less_iff_less_mult)
    then have "unat (of_nat (240 + c div 262144) :: byte) = 240 + c div 262144"
      by (intro unat_byte) simp
    moreover have "c div 262144 * 262144 + c div 4096 mod 64 * 4096 + c div 64 mod 64 * 64 + c mod 64 = c"
    proof -
      have "c div 4096 = c div 64 div 64" "c div 262144 = c div 4096 div 64"
        by (simp_all add: div_mult2_eq [symmetric])
      with div_mult_mod_eq [of "c div 64" 64] div_mult_mod_eq [of c 64]
        div_mult_mod_eq [of "c div 4096" 64] show ?thesis by linarith
    qed
    ultimately show ?thesis using 4 v \<open>c div 262144 < 8\<close>
      by (simp add: utf8_char_def utf8_next_def accept_char_def del: of_nat_add)
  qed
qed

lemma utf8_simps [simp]: "utf8 [] = []" "utf8 (c # s) = utf8_char c @ utf8 s" "utf8 (s @ t) = utf8 s @ utf8 t"
  by (simp_all add: utf8_def)

lemma utf8_char_nonempty [simp]: "utf8_char c \<noteq> []"
  by (simp add: utf8_char_def)

lemma from_utf8_utf8: "valid_str s \<Longrightarrow> from_utf8 (utf8 s) = Some s"
  by (induction s) (simp_all add: from_utf8.simps [of "[]"] from_utf8.simps [of "utf8_char c @ t" for c t] utf8_next_char)

lemma utf8_inj: "valid_str s \<Longrightarrow> valid_str t \<Longrightarrow> utf8 s = utf8 t \<Longrightarrow> s = t"
  by (metis from_utf8_utf8 option.inject)

lemma utf8_next_valid: "utf8_next bs = Some (c, r) \<Longrightarrow> valid_char c"
  by (auto simp: utf8_next_def accept_char_def valid_char_def split: list.splits if_splits option.splits)

lemma from_utf8_valid: "from_utf8 bs = Some s \<Longrightarrow> valid_str s"
proof (induction bs arbitrary: s rule: from_utf8.induct)
  case (1 bs)
  note eq = \<open>from_utf8 bs = Some s\<close>
  show ?case
  proof (cases "utf8_next bs")
    case None
    with eq show ?thesis by (subst (asm) from_utf8.simps) (auto split: if_splits)
  next
    case (Some cr)
    obtain c r where cr: "cr = (c, r)" by (cases cr)
    from Some have "bs \<noteq> []" by (auto simp: utf8_next_def)
    with eq Some cr obtain t where "from_utf8 r = Some t" "s = c # t"
      by (subst (asm) from_utf8.simps) auto
    with 1 Some cr \<open>bs \<noteq> []\<close> show ?thesis by (auto dest: utf8_next_valid)
  qed
qed

section \<open>Results\<close>

text \<open>A \<open>Result<T, E>\<close> is a sum with the error on the left.  \<open>res_bind\<close> is the question mark
  operator, \<open>try_all\<close> a loop whose body can return an error.\<close>

definition res_bind :: "'e + 'a \<Rightarrow> ('a \<Rightarrow> 'e + 'b) \<Rightarrow> 'e + 'b" where
  [std_simps]: "res_bind r f = (case r of Inl e \<Rightarrow> Inl e | Inr a \<Rightarrow> f a)"

lemma res_bind_simps [simp]: "res_bind (Inl e) f = Inl e" "res_bind (Inr a) f = f a"
  by (simp_all add: res_bind_def)

lemma res_bind_Inr: "res_bind r f = Inr b \<longleftrightarrow> (\<exists>a. r = Inr a \<and> f a = Inr b)"
  by (cases r) auto

fun try_all :: "('a \<Rightarrow> 'e + unit) \<Rightarrow> 'a list \<Rightarrow> 'e + unit" where
  "try_all f [] = Inr ()"
| "try_all f (x # xs) = res_bind (f x) (\<lambda>_. try_all f xs)"

lemma try_all_Inr: "try_all f xs = Inr () \<longleftrightarrow> (\<forall>x \<in> set xs. f x = Inr ())"
  by (induction xs) (auto simp: res_bind_Inr)

section \<open>Bounded buffers\<close>

text \<open>What a buffer that drops its oldest element when full holds: the last \<open>n\<close> of everything pushed.\<close>

definition keep_last :: "nat \<Rightarrow> 'a list \<Rightarrow> 'a list" where
  "keep_last n xs = drop (length xs - n) xs"

lemma keep_last_rev: "keep_last n xs = rev (take n (rev xs))"
  by (simp add: keep_last_def rev_take)

lemma keep_last_append: "keep_last n (keep_last n xs @ ys) = keep_last n (xs @ ys)"
  by (simp add: keep_last_rev)

lemma length_keep_last [simp]: "length (keep_last n xs) = min n (length xs)"
  by (simp add: keep_last_def)

lemma keep_last_all: "length xs \<le> n \<Longrightarrow> keep_last n xs = xs"
  by (simp add: keep_last_def)

section \<open>Separators\<close>

lemma append_sep_eq:
  "s \<notin> set xs \<Longrightarrow> s \<notin> set ys \<Longrightarrow> xs @ s # u = ys @ s # v \<longleftrightarrow> xs = ys \<and> u = v"
proof (induction xs arbitrary: ys)
  case Nil
  then show ?case by (cases ys) auto
next
  case (Cons x xs)
  then show ?case by (cases ys) auto
qed

lemma prefix_sep:
  "s \<notin> set xs \<Longrightarrow> s \<notin> set ys \<Longrightarrow> prefix (xs @ s # u) (ys @ s # v) \<longleftrightarrow> xs = ys \<and> prefix u v"
  by (auto simp: prefix_def append_sep_eq)

end
