(* ===== verification/BTree.thy ===== *)
theory BTree
  imports Prelude
begin

text \<open>
  The standard library's \<open>BTreeMap\<close>: a finite map kept in key order, here as the list of its entries
  in strictly ascending order.  \<open>bm_scan\<close> is the range-then-take-while walk the sources use to read
  every key under a prefix.  Keys are any linear order; byte strings and strings compare
  lexicographically.
\<close>

type_synonym ('k, 'v) btree = "('k \<times> 'v) list"

named_theorems btree_simps \<open>how each map operation reads\<close>

abbreviation bm_get :: "('k, 'v) btree \<Rightarrow> 'k \<Rightarrow> 'v option" where
  "bm_get \<equiv> map_of"

fun bm_insert :: "'k::linorder \<Rightarrow> 'v \<Rightarrow> ('k, 'v) btree \<Rightarrow> ('k, 'v) btree" where
  "bm_insert k v [] = [(k, v)]"
| "bm_insert k v ((a, b) # m) =
     (if k < a then (k, v) # (a, b) # m
      else if k = a then (k, v) # m
      else (a, b) # bm_insert k v m)"

definition bm_remove :: "'k \<Rightarrow> ('k, 'v) btree \<Rightarrow> ('k, 'v) btree" where
  "bm_remove k m = filter (\<lambda>e. fst e \<noteq> k) m"

definition bm_scan :: "'a::linorder list \<Rightarrow> ('a list, 'v) btree \<Rightarrow> ('a list, 'v) btree" where
  "bm_scan p m = takeWhile (\<lambda>e. prefix p (fst e)) (dropWhile (\<lambda>e. fst e < p) m)"

definition bm_wf :: "('k::linorder, 'v) btree \<Rightarrow> bool" where
  "bm_wf m \<longleftrightarrow> sorted_wrt (<) (map fst m)"

lemma bm_wf_simps [simp]:
  "bm_wf []" "bm_wf (e # m) \<longleftrightarrow> (\<forall>e' \<in> set m. fst e < fst e') \<and> bm_wf m"
  by (auto simp: bm_wf_def)

lemma bm_get_insert [simp, btree_simps]: "bm_get (bm_insert k v m) = (bm_get m)(k \<mapsto> v)"
  by (induction k v m rule: bm_insert.induct) auto

lemma bm_get_remove [simp, btree_simps]: "bm_get (bm_remove k m) = (bm_get m)(k := None)"
  by (induction m) (auto simp: bm_remove_def)

lemma set_bm_remove [simp]: "set (bm_remove k m) = {e \<in> set m. fst e \<noteq> k}"
  by (auto simp: bm_remove_def)

lemma keys_bm_insert [simp]: "fst ` set (bm_insert k v m) = insert k (fst ` set m)"
  by (induction k v m rule: bm_insert.induct) auto

lemma bm_insert_set_subset: "set (bm_insert k v m) \<subseteq> insert (k, v) (set m)"
  by (induction k v m rule: bm_insert.induct) auto

lemma bm_wf_insert [simp]: "bm_wf m \<Longrightarrow> bm_wf (bm_insert k v m)"
proof (induction k v m rule: bm_insert.induct)
  case (2 k v a b m)
  have "a < fst e'" if "e' \<in> set (bm_insert k v m)" "a < k" for e'
    using that 2 bm_insert_set_subset [of k v m] by auto
  with 2 show ?case by auto
qed simp

lemma bm_wf_filter [simp]: "bm_wf m \<Longrightarrow> bm_wf (filter P m)"
  by (induction m) auto

lemma bm_wf_remove [simp]: "bm_wf m \<Longrightarrow> bm_wf (bm_remove k m)"
  by (simp add: bm_remove_def)

lemma bm_wf_distinct: "bm_wf m \<Longrightarrow> distinct (map fst m)"
  by (induction m) auto

lemma bm_wf_map_snd [simp]: "bm_wf (map (\<lambda>(k, v). (k, f k v)) m) \<longleftrightarrow> bm_wf m"
  by (induction m) (auto split: prod.splits)

lemma bm_get_in: "bm_wf m \<Longrightarrow> bm_get m k = Some v \<longleftrightarrow> (k, v) \<in> set m"
  by (rule map_of_eq_Some_iff [OF bm_wf_distinct])

lemma set_bm_insert: "bm_wf m \<Longrightarrow> set (bm_insert k v m) = insert (k, v) {e \<in> set m. fst e \<noteq> k}"
  by (induction k v m rule: bm_insert.induct) auto

lemma bm_get_filter:
  "bm_wf m \<Longrightarrow> bm_get (filter P m) k = (case bm_get m k of None \<Rightarrow> None
     | Some v \<Rightarrow> if P (k, v) then Some v else None)"
proof (induction m)
  case (Cons e m)
  obtain a b where e: "e = (a, b)" by (cases e)
  from Cons.prems e have "bm_get m a = None" by (auto simp: map_of_eq_None_iff)
  with Cons e show ?case by (auto split: option.splits)
qed simp

text \<open>Two well-formed maps with the same lookups are the same list.\<close>

lemma bm_ext:
  assumes "bm_wf m" "bm_wf m'" "bm_get m = bm_get m'"
  shows "m = m'"
proof -
  have "set m = set m'"
    using assms by (auto simp: bm_get_in [symmetric] simp del: map_of_eq_Some_iff)
  moreover have "inj_on fst (set m)"
    using bm_wf_distinct [OF assms(1)] by (simp add: distinct_map)
  ultimately show ?thesis
    using assms(1,2) bm_wf_distinct
    by (intro map_sorted_distinct_set_unique [of fst])
       (auto simp: bm_wf_def strict_sorted_iff)
qed

text \<open>The prefix walk: under the byte order the keys with a given prefix are contiguous, so walking
  from the first key at or above the prefix until the prefix stops finds all of them, in order.\<close>

lemma prefix_le: "prefix p k \<Longrightarrow> p \<le> (k :: 'a::linorder list)"
proof (induction p arbitrary: k)
  case (Cons a p)
  then show ?case by (cases k) auto
qed simp

lemma prefix_between:
  "p \<le> k \<Longrightarrow> k \<le> k' \<Longrightarrow> prefix p k' \<Longrightarrow> prefix p (k :: 'a::linorder list)"
proof (induction p arbitrary: k k')
  case (Cons a p)
  then show ?case by (cases k; cases k') auto
qed simp

lemma bm_scan_filter:
  assumes "bm_wf m"
  shows "bm_scan p m = filter (\<lambda>e. prefix p (fst e)) m"
proof -
  have s: "sorted_wrt (\<lambda>x y. fst x < fst y) m"
    using assms by (simp add: bm_wf_def sorted_wrt_map)
  have drop: "dropWhile (\<lambda>e. fst e < p) m = filter (\<lambda>e. \<not> fst e < p) m"
    by (rule dropWhile_filter_sorted, rule sorted_wrt_mono_rel [OF _ s]) auto
  have "takeWhile (\<lambda>e. prefix p (fst e)) (filter (\<lambda>e. \<not> fst e < p) m)
      = filter (\<lambda>e. prefix p (fst e)) (filter (\<lambda>e. \<not> fst e < p) m)"
    by (rule filter_drop_sorted, rule sorted_wrt_mono_rel [OF _ sorted_wrt_filter [OF s]])
       (auto intro: prefix_between [OF _ less_imp_le] simp: not_less)
  with drop show ?thesis
    unfolding bm_scan_def
    by (simp add: conj_commute) (rule filter_cong, auto dest: prefix_le)
qed

lemma bm_scan_wf [simp]: "bm_wf m \<Longrightarrow> bm_wf (bm_scan p m)"
  by (simp add: bm_scan_filter)

lemma set_bm_scan: "bm_wf m \<Longrightarrow> set (bm_scan p m) = {e \<in> set m. prefix p (fst e)}"
  by (auto simp: bm_scan_filter)

lemma filter_bm_insert_out: "\<not> P k \<Longrightarrow> bm_wf m \<Longrightarrow>
   filter (\<lambda>e. P (fst e)) (bm_insert k v m) = filter (\<lambda>e. P (fst e)) m"
  by (induction k v m rule: bm_insert.induct) auto

lemma bm_scan_insert_out [btree_simps]:
  "bm_wf m \<Longrightarrow> \<not> prefix p k \<Longrightarrow> bm_scan p (bm_insert k v m) = bm_scan p m"
  by (simp add: bm_scan_filter filter_bm_insert_out [of "prefix p"])

lemma bm_scan_remove_out [btree_simps]:
  "bm_wf m \<Longrightarrow> \<not> prefix p k \<Longrightarrow> bm_scan p (bm_remove k m) = bm_scan p m"
  by (auto simp: bm_scan_filter bm_remove_def intro: filter_cong)

lemma length_bm_insert: "bm_wf m \<Longrightarrow>
    length (bm_insert k v m) = (if bm_get m k = None then Suc (length m) else length m)"
  by (induction k v m rule: bm_insert.induct) (auto simp: map_of_eq_None_iff)

text \<open>A condition on every key.\<close>

definition keys_all :: "('k \<Rightarrow> bool) \<Rightarrow> ('k, 'v) btree \<Rightarrow> bool" where
  "keys_all P m \<longleftrightarrow> (\<forall>k \<in> fst ` set m. P k)"

lemma keys_all_simps [simp]:
  "keys_all P []" "keys_all P (bm_insert k v m) \<longleftrightarrow> P k \<and> keys_all P m"
  by (simp_all only: keys_all_def keys_bm_insert, auto)

lemma keys_all_filter [simp]: "keys_all P m \<Longrightarrow> keys_all P (filter Q m)"
  by (auto simp: keys_all_def)

lemma keys_all_remove [simp]: "keys_all P m \<Longrightarrow> keys_all P (bm_remove k m)"
  by (simp add: bm_remove_def)

lemma keys_all_subset: "set m' \<subseteq> set m \<Longrightarrow> keys_all P m \<Longrightarrow> keys_all P m'"
  by (auto simp: keys_all_def)

lemma keys_allD: "keys_all P m \<Longrightarrow> x \<in> set m \<Longrightarrow> P (fst x)"
  by (auto simp: keys_all_def)

text \<open>Overwriting one entry changes a sum over the entries by that entry only.\<close>

lemma sum_bm_insert:
  "bm_wf m \<Longrightarrow> bm_get m k = Some a \<Longrightarrow>
     sum_list (map f (bm_insert k v m)) + f (k, a) = sum_list (map f m) + (f (k, v) :: nat)"
  by (induction k v m rule: bm_insert.induct) (auto dest!: map_of_SomeD split: if_splits)

lemma sum_filter_le: "sum_list (map f (filter P xs)) \<le> (sum_list (map f xs) :: nat)"
  by (induction xs) auto

end
