(* ===== verification/GrantPattern.thy ===== *)
theory GrantPattern
  imports Prelude
begin

text \<open>
  \<open>rust/wa-grant-policy/src/pattern.rs\<close>: the target patterns of grant rules.  A pattern is parsed
  once into an exact string, a prefix or a list of glob tokens, and matched by a loop that remembers
  only the last star.  The reference is \<open>star_match\<close>: every star stands for any run of characters.
\<close>

definition STAR :: rchar where
  [std_simps]: "STAR = 42"

definition MAX_PATTERN_LEN :: nat where
  [std_simps]: "MAX_PATTERN_LEN = 512"

datatype tok = Lit str | Star

datatype kind = Exact str | Prefix str | Glob "tok list"

record pattern =
  raw :: str
  pat_kind :: kind

text \<open>The three refusals of \<open>Pattern::new\<close> (its \<open>PatternError\<close> carries the text).\<close>

datatype pattern_error = EmptyPattern | PatternTooLong | PatternControlChar

text \<open>The loop of \<open>glob_tokens\<close> over the characters left, the literal being collected and the
  tokens already pushed.\<close>

fun glob_tokens_from :: "str \<Rightarrow> str \<Rightarrow> tok list \<Rightarrow> tok list" where
  "glob_tokens_from [] l tokens = (if l \<noteq> [] then tokens @ [Lit l] else tokens)"
| "glob_tokens_from (ch # cs) l tokens =
     (if ch = STAR then
        (let tokens = (if l \<noteq> [] then tokens @ [Lit l] else tokens);
             tokens = (if tokens \<noteq> [] \<and> last tokens = Star then tokens else tokens @ [Star])
         in glob_tokens_from cs [] tokens)
      else glob_tokens_from cs (l @ [ch]) tokens)"

definition glob_tokens :: "str \<Rightarrow> tok list" where
  "glob_tokens r = glob_tokens_from r [] []"

definition pattern_new :: "str \<Rightarrow> pattern_error + pattern" where
  "pattern_new r =
    (if r = [] then Inl EmptyPattern
     else if length r > MAX_PATTERN_LEN then Inl PatternTooLong
     else if list_ex is_control r then Inl PatternControlChar
     else
       (let stars = count_list r STAR;
            k = (if stars = 0 then Exact r
                 else if stars = 1 \<and> last r = STAR then Prefix (butlast r)
                 else Glob (glob_tokens r))
        in Inr \<lparr>raw = r, pat_kind = k\<rparr>))"

definition is_any :: "pattern \<Rightarrow> bool" where
  "is_any p \<longleftrightarrow> raw p = [STAR]"

definition tok_at :: "tok list \<Rightarrow> nat \<Rightarrow> tok option" where
  "tok_at tokens ti = (if ti < length tokens then Some (tokens ! ti) else None)"

text \<open>The length a literal token consumes at \<open>si\<close>, if it matches there.\<close>

definition lit_len :: "tok list \<Rightarrow> str \<Rightarrow> nat \<Rightarrow> nat \<Rightarrow> nat option" where
  "lit_len tokens s ti si =
    (case tok_at tokens ti of
       Some (Lit l) \<Rightarrow>
         if length l \<le> length s - si then
           (if list_all (\<lambda>k. s ! (si + k) = l ! k) [0..<length l] then Some (length l) else None)
         else None
     | _ \<Rightarrow> None)"

function skip_stars :: "tok list \<Rightarrow> nat \<Rightarrow> nat" where
  "skip_stars tokens ti = (if tok_at tokens ti = Some Star then skip_stars tokens (Suc ti) else ti)"
  by pat_completeness auto
termination
  by (relation "measure (\<lambda>(tokens, ti). length tokens - ti)") (auto simp: tok_at_def split: if_splits)

text \<open>The \<open>while si < text.len()\<close> loop, with its three variables.\<close>

function glob_loop :: "tok list \<Rightarrow> str \<Rightarrow> nat \<Rightarrow> nat \<Rightarrow> (nat \<times> nat) option \<Rightarrow> bool" where
  "glob_loop tokens s ti si star =
    (if si < length s then
       (case lit_len tokens s ti si of
          Some len \<Rightarrow> glob_loop tokens s (ti + 1) (si + len) star
        | None \<Rightarrow>
            if tok_at tokens ti = Some Star then glob_loop tokens s (ti + 1) si (Some (ti, si))
            else
              (case star of
                 Some (star_ti, star_si) \<Rightarrow>
                   if star_si \<ge> length s then False
                   else glob_loop tokens s (star_ti + 1) (star_si + 1) (Some (star_ti, star_si + 1))
               | None \<Rightarrow> False))
     else skip_stars tokens ti = length tokens)"
  by pat_completeness auto
termination
  by (relation "measures
      [\<lambda>(tokens, s, ti, si, star). (case star of Some (sti, _) \<Rightarrow> if sti < ti then 0 else 1 | None \<Rightarrow> 0),
       \<lambda>(tokens, s, ti, si, star). (case star of Some (sti, _) \<Rightarrow> length tokens - sti | None \<Rightarrow> Suc (length tokens)),
       \<lambda>(tokens, s, ti, si, star). (case star of Some (_, ssi) \<Rightarrow> length s - ssi | None \<Rightarrow> 0),
       \<lambda>(tokens, s, ti, si, star). length tokens - ti]")
     (auto simp: tok_at_def lit_len_def split: if_splits option.splits tok.splits)

declare skip_stars.simps [simp del] glob_loop.simps [simp del]

definition glob_match :: "tok list \<Rightarrow> str \<Rightarrow> bool" where
  "glob_match tokens s = glob_loop tokens s 0 0 None"

definition pattern_matches :: "pattern \<Rightarrow> str \<Rightarrow> bool" where
  "pattern_matches p target =
    (case pat_kind p of
       Exact want \<Rightarrow> want = target
     | Prefix p \<Rightarrow> prefix p target
     | Glob tokens \<Rightarrow> glob_match tokens target)"

section \<open>The reference semantics\<close>

fun star_match :: "str \<Rightarrow> str \<Rightarrow> bool" where
  "star_match [] s = (s = [])"
| "star_match (c # p) s =
     (if c = STAR then
        star_match p s \<or> (case s of [] \<Rightarrow> False | _ # s' \<Rightarrow> star_match (c # p) s')
      else (case s of [] \<Rightarrow> False | x # s' \<Rightarrow> x = c \<and> star_match p s'))"

fun toks_match :: "tok list \<Rightarrow> str \<Rightarrow> bool" where
  "toks_match [] s = (s = [])"
| "toks_match (Lit l # ts) s = (prefix l s \<and> toks_match ts (drop (length l) s))"
| "toks_match (Star # ts) s = (\<exists>k \<le> length s. toks_match ts (drop k s))"

definition good_toks :: "tok list \<Rightarrow> bool" where
  "good_toks ts \<longleftrightarrow> (\<forall>t \<in> set ts. case t of Lit l \<Rightarrow> l \<noteq> [] \<and> STAR \<notin> set l | Star \<Rightarrow> True)"

fun unglob :: "tok list \<Rightarrow> str" where
  "unglob [] = []"
| "unglob (Lit l # ts) = l @ unglob ts"
| "unglob (Star # ts) = STAR # unglob ts"

declare star_match.simps(2) [simp del]

lemma unglob_append [simp]: "unglob (ts @ us) = unglob ts @ unglob us"
  by (induction ts rule: unglob.induct) auto

lemma good_toks_simps [simp]:
  "good_toks []" "good_toks (Star # ts) \<longleftrightarrow> good_toks ts"
  "good_toks (Lit l # ts) \<longleftrightarrow> l \<noteq> [] \<and> STAR \<notin> set l \<and> good_toks ts"
  "good_toks (ts @ us) \<longleftrightarrow> good_toks ts \<and> good_toks us"
  by (auto simp: good_toks_def)

lemma star_match_star: "star_match (STAR # p) s \<longleftrightarrow> (\<exists>k \<le> length s. star_match p (drop k s))"
proof (induction s)
  case (Cons x s)
  have "(\<exists>k \<le> length (x # s). star_match p (drop k (x # s)))
      \<longleftrightarrow> star_match p (x # s) \<or> (\<exists>k \<le> length s. star_match p (drop k s))"
    by (metis Suc_le_mono drop_0 drop_Suc_Cons length_Cons not0_implies_Suc zero_le)
  with Cons show ?case by (simp add: star_match.simps)
qed (simp add: star_match.simps)

lemma star_match_lit:
  "STAR \<notin> set l \<Longrightarrow> star_match (l @ p) s \<longleftrightarrow> prefix l s \<and> star_match p (drop (length l) s)"
proof (induction l arbitrary: s)
  case (Cons c l)
  then show ?case by (cases s) (auto simp: star_match.simps)
qed simp

lemma star_match_plain: "STAR \<notin> set p \<Longrightarrow> star_match p s \<longleftrightarrow> p = s"
  using star_match_lit [of p "[]" s] by (auto simp: prefix_def)

lemma star_match_cong:
  "(\<And>s. star_match v s = star_match v' s) \<Longrightarrow> star_match (u @ v) s = star_match (u @ v') s"
proof (induction u arbitrary: s)
  case (Cons c u)
  have "star_match (u @ v) t = star_match (u @ v') t" for t
    using Cons by blast
  then show ?case
    by (cases "c = STAR") (simp_all add: star_match_star, simp add: star_match.simps split: list.splits)
qed simp

lemma star_match_dup: "star_match (STAR # STAR # v) s = star_match (STAR # v) s"
proof
  assume "star_match (STAR # STAR # v) s"
  then obtain j k where "j \<le> length s" "k \<le> length s - j" "star_match v (drop k (drop j s))"
    by (auto simp: star_match_star)
  then show "star_match (STAR # v) s"
    by (auto simp: star_match_star intro!: exI [of _ "k + j"])
next
  assume "star_match (STAR # v) s"
  then show "star_match (STAR # STAR # v) s"
    by (subst star_match_star) (auto intro!: exI [of _ 0])
qed

lemma toks_match_unglob: "good_toks ts \<Longrightarrow> toks_match ts s = star_match (unglob ts) s"
proof (induction ts s rule: toks_match.induct)
  case (2 l ts s)
  then show ?case by (simp add: star_match_lit)
next
  case (3 ts s)
  then show ?case by (simp add: star_match_star)
qed simp

lemma glob_tokens_from_match:
  "good_toks ts \<Longrightarrow> STAR \<notin> set l \<Longrightarrow>
     good_toks (glob_tokens_from r l ts) \<and>
     star_match (unglob (glob_tokens_from r l ts)) s = star_match (unglob ts @ l @ r) s"
proof (induction r l ts rule: glob_tokens_from.induct)
  case (2 ch cs l ts)
  show ?case
  proof (cases "ch = STAR")
    case False
    from 2(2) [OF False "2.prems"(1)] "2.prems" False show ?thesis by simp
  next
    case True
    define us where "us = (if l \<noteq> [] then ts @ [Lit l] else ts)"
    define vs where "vs = (if us \<noteq> [] \<and> last us = Star then us else us @ [Star])"
    have us: "good_toks us" "unglob us = unglob ts @ l"
      using "2.prems" by (auto simp: us_def)
    then have "good_toks vs" by (simp add: vs_def)
    have eq: "glob_tokens_from (ch # cs) l ts = glob_tokens_from cs [] vs"
      using True by (simp add: us_def vs_def Let_def)
    have "star_match (unglob vs @ cs) s = star_match (unglob us @ STAR # cs) s"
    proof (cases "us \<noteq> [] \<and> last us = Star")
      case True
      then obtain ws where "us = ws @ [Star]" by (metis append_butlast_last_id)
      then have "unglob vs @ cs = unglob ws @ STAR # cs"
          "unglob us @ STAR # cs = unglob ws @ STAR # STAR # cs"
        using True by (simp_all add: vs_def)
      then show ?thesis
        using star_match_cong [of "STAR # STAR # cs" "STAR # cs" "unglob ws" s, OF star_match_dup] by simp
    next
      case False
      then have "vs = us @ [Star]" by (auto simp: vs_def)
      then show ?thesis by simp
    qed
    with 2(1) [OF True us_def vs_def \<open>good_toks vs\<close>] us True show ?thesis
      unfolding eq by simp
  qed
qed simp

lemma glob_tokens_good: "good_toks (glob_tokens r)"
  by (simp add: glob_tokens_def glob_tokens_from_match)

lemma glob_tokens_match: "toks_match (glob_tokens r) s = star_match r s"
  using glob_tokens_from_match [of "[]" "[]" r s]
  by (simp add: glob_tokens_def toks_match_unglob)

section \<open>The loop agrees with the reference\<close>

lemma tok_at_drop: "tok_at ts i = Some t \<longleftrightarrow> (i < length ts \<and> drop i ts = t # drop (Suc i) ts)"
  by (auto simp: tok_at_def Cons_nth_drop_Suc [symmetric])

lemma tok_at_None: "tok_at ts i = None \<longleftrightarrow> drop i ts = []"
  by (simp add: tok_at_def)

lemma lit_len_Some:
  "lit_len ts s ti si = Some n \<longleftrightarrow>
     (\<exists>l. tok_at ts ti = Some (Lit l) \<and> n = length l \<and> prefix l (drop si s))"
proof -
  have "prefix l (drop si s) \<longleftrightarrow> length l \<le> length s - si \<and> (\<forall>k < length l. s ! (si + k) = l ! k)" for l
  proof -
    have "prefix l (drop si s) \<longleftrightarrow> take (length l) (drop si s) = l"
      by (metis append_eq_conv_conj prefix_def take_is_prefix)
    also have "\<dots> \<longleftrightarrow> length l \<le> length s - si \<and> (\<forall>k < length l. s ! (si + k) = l ! k)"
      by (auto simp: list_eq_iff_nth_eq)
    finally show ?thesis .
  qed
  then show ?thesis
    by (auto simp: lit_len_def list_all_iff split: option.splits tok.splits)
qed

lemma toks_match_length: "toks_match ts s \<Longrightarrow> (\<Sum>t\<leftarrow>ts. case t of Lit l \<Rightarrow> length l | Star \<Rightarrow> 0) \<le> length s"
proof (induction ts s rule: toks_match.induct)
  case (2 l ts s)
  then show ?case using prefix_length_le [of l s] by auto
next
  case (3 ts s)
  then show ?case by force
qed simp

lemma skip_stars_end: "good_toks ts \<Longrightarrow> ti \<le> length ts \<Longrightarrow>
    skip_stars ts ti = length ts \<longleftrightarrow> toks_match (drop ti ts) []"
proof (induction ts ti rule: skip_stars.induct)
  case (1 ts ti)
  show ?case
  proof (cases "tok_at ts ti")
    case None
    with 1 show ?thesis by (simp add: skip_stars.simps [of ts ti] tok_at_def split: if_splits)
  next
    case (Some t)
    then have t: "ti < length ts" "drop ti ts = t # drop (Suc ti) ts"
      by (simp_all add: tok_at_drop)
    then have "t \<in> set ts" by (metis in_set_dropD list.set_intros(1))
    with 1 t Some show ?thesis
      by (cases t) (auto simp: skip_stars.simps [of ts ti] good_toks_def)
  qed
qed

text \<open>The literals between the remembered star and the current token.\<close>

definition lits_between :: "tok list \<Rightarrow> nat \<Rightarrow> nat \<Rightarrow> str \<Rightarrow> bool" where
  "lits_between ts i j t \<longleftrightarrow> (\<exists>ls. take (j - i) (drop i ts) = map Lit ls \<and> concat ls = t \<and> i \<le> j \<and> j \<le> length ts)"

lemma toks_match_lits:
  "toks_match (map Lit ls @ us) s \<longleftrightarrow> prefix (concat ls) s \<and> toks_match us (drop (length (concat ls)) s)"
proof (induction ls arbitrary: s)
  case (Cons l ls)
  have "prefix (l @ t) s \<longleftrightarrow> prefix l s \<and> prefix t (drop (length l) s)" for t
    by (auto simp: prefix_def)
  with Cons show ?case by (auto simp: add.commute)
qed simp

lemma lits_between_match:
  assumes "lits_between ts i j t"
  shows "toks_match (drop i ts) s \<longleftrightarrow> prefix t s \<and> toks_match (drop j ts) (drop (length t) s)"
proof -
  from assms obtain ls where ls: "take (j - i) (drop i ts) = map Lit ls" "concat ls = t" "i \<le> j"
    by (auto simp: lits_between_def)
  then have "drop i ts = map Lit ls @ drop j ts"
    by (metis append_take_drop_id drop_drop le_add_diff_inverse2)
  with ls show ?thesis by (simp add: toks_match_lits)
qed

lemma lits_between_step:
  "lits_between ts i j t \<Longrightarrow> tok_at ts j = Some (Lit l) \<Longrightarrow> lits_between ts i (Suc j) (t @ l)"
proof -
  assume a: "lits_between ts i j t" and t: "tok_at ts j = Some (Lit l)"
  from a obtain ls where ls: "take (j - i) (drop i ts) = map Lit ls" "concat ls = t" "i \<le> j"
    by (auto simp: lits_between_def)
  have "take (Suc j - i) (drop i ts) = map Lit (ls @ [l])"
    using ls t by (simp add: Suc_diff_le take_Suc_conv_app_nth tok_at_def split: if_splits)
  with ls t show ?thesis
    unfolding lits_between_def by (intro exI [of _ "ls @ [l]"]) (auto simp: tok_at_def split: if_splits)
qed


text \<open>The loop, from any state it can reach: with no star seen the answer is the reference on the rest;
  after a star, the reference on the rest, or a match with the star taking more.\<close>

definition star_ok :: "tok list \<Rightarrow> str \<Rightarrow> nat \<Rightarrow> nat \<Rightarrow> (nat \<times> nat) option \<Rightarrow> bool" where
  "star_ok ts s ti si star \<longleftrightarrow> ti \<le> length ts \<and> si \<le> length s \<and>
     (case star of None \<Rightarrow> True
      | Some (sti, ssi) \<Rightarrow> tok_at ts sti = Some Star \<and> ssi \<le> si \<and>
          lits_between ts (Suc sti) ti (take (si - ssi) (drop ssi s)))"

definition star_more :: "tok list \<Rightarrow> str \<Rightarrow> (nat \<times> nat) option \<Rightarrow> bool" where
  "star_more ts s star \<longleftrightarrow> (case star of None \<Rightarrow> False
      | Some (sti, ssi) \<Rightarrow> \<exists>k. ssi < k \<and> k \<le> length s \<and> toks_match (drop (Suc sti) ts) (drop k s))"

lemma star_more_step: "star_more ts s (Some (sti, ssi)) \<longleftrightarrow> ssi < length s \<and>
     (toks_match (drop (Suc sti) ts) (drop (Suc ssi) s) \<or> star_more ts s (Some (sti, Suc ssi)))"
  by (auto simp: star_more_def Suc_le_eq) (metis Suc_lessI, metis Suc_lessD)

lemma star_more_later_star:
  assumes "star_ok ts s ti si star" "star_more ts s star" "tok_at ts ti = Some Star"
  shows "toks_match (drop ti ts) (drop si s)"
proof -
  from assms obtain sti ssi k t where st: "star = Some (sti, ssi)" "ssi < k" "k \<le> length s"
      "toks_match (drop (Suc sti) ts) (drop k s)" "ssi \<le> si"
      "lits_between ts (Suc sti) ti t" "length t = si - ssi" "si \<le> length s"
    by (auto simp: star_ok_def star_more_def split: option.splits)
  then have "toks_match (drop ti ts) (drop (length t) (drop k s))" "prefix t (drop k s)"
    by (simp_all add: lits_between_match)
  moreover from this(2) have "length t \<le> length s - k"
    using prefix_length_le by fastforce
  moreover obtain us where us: "drop ti ts = Star # us"
    using assms(3) by (auto simp: tok_at_drop)
  ultimately obtain j where j: "toks_match us (drop j (drop (length t + k) s))"
      "j \<le> length s - (length t + k)"
    by auto
  have "toks_match us (drop (j + (length t + k) - si) (drop si s))"
    using j st by (simp add: ac_simps)
  then show ?thesis
    unfolding us toks_match.simps using j st \<open>length t \<le> length s - k\<close>
    by (intro exI [of _ "j + (length t + k) - si"]) auto
qed

lemma star_more_end:
  assumes "star_ok ts s ti (length s) star"
  shows "\<not> star_more ts s star"
proof
  assume "star_more ts s star"
  with assms obtain sti ssi k t where st: "star = Some (sti, ssi)" "ssi < k" "k \<le> length s"
      "toks_match (drop (Suc sti) ts) (drop k s)"
      "lits_between ts (Suc sti) ti t" "length t = length s - ssi"
    by (auto simp: star_ok_def star_more_def split: option.splits)
  then have "prefix t (drop k s)" by (simp add: lits_between_match)
  then have "length t \<le> length s - k" using prefix_length_le by fastforce
  with st show False by linarith
qed

lemma glob_loop_correct:
  "good_toks ts \<Longrightarrow> star_ok ts s ti si star \<Longrightarrow>
     glob_loop ts s ti si star \<longleftrightarrow> toks_match (drop ti ts) (drop si s) \<or> star_more ts s star"
proof (induction ts s ti si star rule: glob_loop.induct)
  case (1 ts s ti si star)
  note good = "1.prems"(1) and ok = "1.prems"(2)
  show ?case
  proof (cases "si < length s")
    case False
    with ok have "si = length s" by (simp add: star_ok_def)
    with good ok show ?thesis
      using star_more_end [of ts s ti star] skip_stars_end [of ts ti]
      by (simp add: glob_loop.simps [of ts s ti "length s" star] star_ok_def)
  next
    case si: True
    show ?thesis
    proof (cases "lit_len ts s ti si")
      case (Some n)
      then obtain l where l: "tok_at ts ti = Some (Lit l)" "n = length l" "prefix l (drop si s)"
        by (auto simp: lit_len_Some)
      have n: "si + n \<le> length s" using l si prefix_length_le by fastforce
      have "star_ok ts s (ti + 1) (si + n) star"
      proof (cases star)
        case None
        with ok n l show ?thesis by (simp add: star_ok_def tok_at_def split: if_splits)
      next
        case (Some p)
        obtain sti ssi where p: "p = (sti, ssi)" by (cases p)
        have "take n (drop si s) = l"
          using l by (metis append_eq_conv_conj prefix_def)
        then have "take (si + n - ssi) (drop ssi s) = take (si - ssi) (drop ssi s) @ l"
          using ok Some p take_add [of "si - ssi" n "drop ssi s"] by (simp add: star_ok_def)
        with ok Some p n l show ?thesis
          by (simp add: star_ok_def lits_between_step) (auto simp: tok_at_def split: if_splits)
      qed
      with "1.IH"(3) [OF si Some good] have
        "glob_loop ts s (ti + 1) (si + n) star \<longleftrightarrow>
           toks_match (drop (ti + 1) ts) (drop (si + n) s) \<or> star_more ts s star" .
      moreover have "toks_match (drop ti ts) (drop si s) \<longleftrightarrow>
           toks_match (drop (ti + 1) ts) (drop (si + n) s)"
        using l by (auto simp: tok_at_drop add.commute)
      ultimately show ?thesis
        by (simp add: glob_loop.simps [of ts s ti si star] si Some)
    next
      case none: None
      show ?thesis
      proof (cases "tok_at ts ti = Some Star")
        case True
        have "star_ok ts s (ti + 1) si (Some (ti, si))"
          using True si by (auto simp: star_ok_def lits_between_def tok_at_def split: if_splits)
        with "1.IH"(1) [OF si none True good]
        have IH: "glob_loop ts s (ti + 1) si (Some (ti, si)) \<longleftrightarrow>
            toks_match (drop (ti + 1) ts) (drop si s) \<or> star_more ts s (Some (ti, si))" .
        have "toks_match (drop ti ts) (drop si s) \<longleftrightarrow>
            toks_match (drop (ti + 1) ts) (drop si s) \<or> star_more ts s (Some (ti, si))"
        proof -
          have d: "drop ti ts = Star # drop (ti + 1) ts" using True by (auto simp: tok_at_drop)
          have "(\<exists>k \<le> length s - si. toks_match us (drop (k + si) s))
              \<longleftrightarrow> toks_match us (drop si s) \<or> (\<exists>k. si < k \<and> k \<le> length s \<and> toks_match us (drop k s))" for us
          proof safe
            fix k assume "k \<le> length s - si" "toks_match us (drop (k + si) s)"
              "\<not> (\<exists>k. si < k \<and> k \<le> length s \<and> toks_match us (drop k s))"
            then show "toks_match us (drop si s)" using si by (cases k) force+
          next
            fix k assume "si < k" "k \<le> length s" "toks_match us (drop k s)"
            then show "\<exists>k \<le> length s - si. toks_match us (drop (k + si) s)"
              by (intro exI [of _ "k - si"]) simp
          qed force
          then show ?thesis unfolding d by (simp add: star_more_def)
        qed
        then show ?thesis
          using IH star_more_later_star [OF ok _ True]
          by (auto simp add: glob_loop.simps [of ts s ti si star] si none True)
      next
        case notstar: False
        have here: "\<not> toks_match (drop ti ts) (drop si s)"
        proof (cases "tok_at ts ti")
          case None
          with si show ?thesis by (simp add: tok_at_None)
        next
          case (Some t)
          with notstar obtain l where "t = Lit l" by (cases t) auto
          with Some none have "\<not> prefix l (drop si s)"
            using lit_len_Some [of ts s ti si "length l"] by auto
          with Some \<open>t = Lit l\<close> show ?thesis by (auto simp: tok_at_drop)
        qed
        show ?thesis
        proof (cases star)
          case None
          with here show ?thesis
            by (simp add: glob_loop.simps [of ts s ti si None] si none notstar star_more_def)
        next
          case (Some p)
          obtain sti ssi where p: "p = (sti, ssi)" by (cases p)
          have lt: "ssi < length s" using ok Some p si by (simp add: star_ok_def)
          have "star_ok ts s (sti + 1) (ssi + 1) (Some (sti, ssi + 1))"
            using ok Some p lt by (auto simp: star_ok_def lits_between_def tok_at_def split: if_splits)
          with "1.IH"(2) [OF si none notstar Some p [symmetric]] lt good
          show ?thesis
            using here star_more_step [of ts s sti ssi]
            by (simp add: glob_loop.simps [of ts s ti si "Some (sti, ssi)"] si none notstar Some p)
        qed
      qed
    qed
  qed
qed


lemma glob_match_correct: "good_toks ts \<Longrightarrow> glob_match ts s = toks_match ts s"
  by (simp add: glob_match_def glob_loop_correct star_ok_def star_more_def)

lemma star_match_trailing: "STAR \<notin> set p \<Longrightarrow> star_match (p @ [STAR]) s \<longleftrightarrow> prefix p s"
  by (auto simp: star_match_lit star_match_star)

lemma pattern_new_matches:
  assumes "pattern_new r = Inr p"
  shows "pattern_matches p target = star_match r target"
proof -
  from assms have r: "r \<noteq> []" and p: "p = \<lparr>raw = r, pat_kind =
      (if count_list r STAR = 0 then Exact r
       else if count_list r STAR = 1 \<and> last r = STAR then Prefix (butlast r)
       else Glob (glob_tokens r))\<rparr>"
    by (auto simp: pattern_new_def Let_def split: if_splits)
  consider "count_list r STAR = 0" | "count_list r STAR = 1" "last r = STAR"
    | "count_list r STAR \<noteq> 0" "\<not> (count_list r STAR = 1 \<and> last r = STAR)"
    by blast
  then show ?thesis
  proof cases
    case 1
    then show ?thesis
      by (simp add: p pattern_matches_def count_list_0_iff star_match_plain)
  next
    case 2
    obtain q where q: "r = q @ [STAR]" using r 2(2) by (metis append_butlast_last_id)
    with 2 have "STAR \<notin> set q" by (simp add: count_list_0_iff [symmetric])
    with 2 q show ?thesis by (simp add: p pattern_matches_def star_match_trailing)
  next
    case 3
    then show ?thesis
      by (auto simp: p pattern_matches_def glob_match_correct glob_tokens_good glob_tokens_match)
  qed
qed

end
