(* ===== verification/GrantPolicy.thy ===== *)
theory GrantPolicy
  imports BTree GrantPattern
begin

text \<open>
  \<open>rust/wa-grant-policy/src/policy.rs\<close>: the policy file's model, its validation and its lookups.  The
  JSON reader (serde) is the parameter \<open>from_json\<close> of \<open>policy_parse\<close>; everything after it is here.
\<close>

definition DEFAULT_SENSITIVE :: "str list" where
  "DEFAULT_SENSITIVE = map lit
     [''credentials.read'', ''net.dial'', ''net.bind'', ''http.request'', ''whatsapp.send'',
      ''exec.run'', ''kv.write'', ''wasi.filesystem'', ''wasi.env'', ''wasi.stdin'',
      ''wasi.sockets'', ''wasi.keyvalue'', ''wasi.config'', ''wasi.import'']"

definition SCHEMA_VERSION :: nat where
  "SCHEMA_VERSION = 1"

datatype effect = EffectAllow | EffectDeny

record rate_limit =
  per_minute :: nat
  burst :: "nat option"

record target_rate =
  tr_pattern :: pattern
  tr_per_minute :: nat
  tr_burst :: "nat option"
  exempt_from_global :: bool

record rule =
  r_effect :: effect
  r_allow :: "pattern list"
  r_deny :: "pattern list"
  r_sensitive :: "bool option"
  require_approval :: bool
  r_rate :: "rate_limit option"
  per_target :: "rate_limit option"
  target_rates :: "target_rate list"
  daily_cap :: "nat option"

definition rule_default :: rule where
  "rule_default = \<lparr>r_effect = EffectAllow, r_allow = [], r_deny = [], r_sensitive = None,
     require_approval = False, r_rate = None, per_target = None, target_rates = [], daily_cap = None\<rparr>"

record component_policy =
  cp_note :: "str option"
  cp_capabilities :: "(str, rule) btree"

record policy_set =
  ps_version :: nat
  sensitive_capabilities :: "str list"
  ps_components :: "(str, component_policy) btree"

text \<open>What \<open>PolicyError\<close> says, as data: the place (the \<open>at\<close> path of the source) and the problem.\<close>

datatype place = SensitiveList | ComponentsKey | AtRule str str | AtRate str str
  | AtPerTarget str str | AtTargetRate str str nat

datatype policy_error = NotJson | BadVersion nat | NameEmpty place | NameControl place
  | NameTooLong place | DenyWithLists place | ZeroPerMinute place | ZeroBurst place
  | ZeroDailyCap place

definition rl_capacity :: "rate_limit \<Rightarrow> nat" where
  "rl_capacity r = (case burst r of Some b \<Rightarrow> b | None \<Rightarrow> per_minute r)"

definition rl_check :: "rate_limit \<Rightarrow> place \<Rightarrow> policy_error + unit" where
  "rl_check r at =
    (if per_minute r = 0 then Inl (ZeroPerMinute at)
     else if burst r = Some 0 then Inl (ZeroBurst at)
     else Inr ())"

definition tr_limit :: "target_rate \<Rightarrow> rate_limit" where
  "tr_limit tr = \<lparr>per_minute = tr_per_minute tr, burst = tr_burst tr\<rparr>"

definition policy_empty :: policy_set where
  "policy_empty = \<lparr>ps_version = SCHEMA_VERSION, sensitive_capabilities = [], ps_components = []\<rparr>"

definition check_name :: "place \<Rightarrow> str \<Rightarrow> policy_error + unit" where
  "check_name at name =
    (if name = [] then Inl (NameEmpty at)
     else if list_ex is_control name then Inl (NameControl at)
     else if length (utf8 name) > 128 then Inl (NameTooLong at)
     else Inr ())"

definition rate_opt_check :: "rate_limit option \<Rightarrow> place \<Rightarrow> policy_error + unit" where
  "rate_opt_check r at = (case r of None \<Rightarrow> Inr () | Some rate \<Rightarrow> rl_check rate at)"

text \<open>The body of the inner loop of \<open>validate\<close>, one rule.\<close>

definition validate_rule :: "str \<Rightarrow> str \<times> rule \<Rightarrow> policy_error + unit" where
  "validate_rule component = (\<lambda>(capability, rule).
     res_bind (check_name (AtRule component capability) capability) (\<lambda>_.
     if r_effect rule = EffectDeny \<and> (r_allow rule \<noteq> [] \<or> r_deny rule \<noteq> [])
     then Inl (DenyWithLists (AtRule component capability))
     else
       res_bind (rate_opt_check (r_rate rule) (AtRate component capability)) (\<lambda>_.
       res_bind (rate_opt_check (per_target rule) (AtPerTarget component capability)) (\<lambda>_.
       res_bind (try_all (\<lambda>(i, tr). rl_check (tr_limit tr) (AtTargetRate component capability i))
                   (enumerate 0 (target_rates rule))) (\<lambda>_.
       if daily_cap rule = Some 0 then Inl (ZeroDailyCap (AtRule component capability))
       else Inr ())))))"

definition validate :: "policy_set \<Rightarrow> policy_error + unit" where
  "validate ps =
    (if ps_version ps \<noteq> SCHEMA_VERSION then Inl (BadVersion (ps_version ps))
     else
       res_bind (try_all (check_name SensitiveList) (sensitive_capabilities ps)) (\<lambda>_.
       try_all (\<lambda>(component, cp).
         res_bind (check_name ComponentsKey component) (\<lambda>_.
         try_all (validate_rule component) (cp_capabilities cp))) (ps_components ps)))"

definition policy_parse :: "(str \<Rightarrow> policy_set option) \<Rightarrow> str \<Rightarrow> policy_error + policy_set" where
  "policy_parse from_json text =
    (case from_json text of
       None \<Rightarrow> Inl NotJson
     | Some ps \<Rightarrow> res_bind (validate ps) (\<lambda>_. Inr ps))"

definition policy_rule :: "policy_set \<Rightarrow> str \<Rightarrow> str \<Rightarrow> rule option" where
  "policy_rule ps component capability =
    (case bm_get (ps_components ps) component of
       None \<Rightarrow> None
     | Some cp \<Rightarrow> bm_get (cp_capabilities cp) capability)"

definition is_sensitive :: "policy_set \<Rightarrow> str \<Rightarrow> str \<Rightarrow> bool" where
  "is_sensitive ps component capability =
    (case Option.bind (policy_rule ps component capability) r_sensitive of
       Some flag \<Rightarrow> flag
     | None \<Rightarrow> List.member DEFAULT_SENSITIVE capability
             \<or> list_ex (\<lambda>c. c = capability) (sensitive_capabilities ps))"

definition is_audited :: "policy_set \<Rightarrow> str \<Rightarrow> str \<Rightarrow> bool" where
  "is_audited ps component capability = is_sensitive ps component capability"

section \<open>What a validated policy guarantees\<close>

definition rate_ok :: "rate_limit \<Rightarrow> bool" where
  "rate_ok r \<longleftrightarrow> 0 < per_minute r \<and> 0 < rl_capacity r"

definition name_ok :: "str \<Rightarrow> bool" where
  "name_ok n \<longleftrightarrow> n \<noteq> [] \<and> (\<forall>c \<in> set n. \<not> is_control c) \<and> length (utf8 n) \<le> 128"

definition rule_ok :: "rule \<Rightarrow> bool" where
  "rule_ok r \<longleftrightarrow>
     (r_effect r = EffectDeny \<longrightarrow> r_allow r = [] \<and> r_deny r = []) \<and>
     (\<forall>x \<in> set_option (r_rate r). rate_ok x) \<and>
     (\<forall>x \<in> set_option (per_target r). rate_ok x) \<and>
     (\<forall>x \<in> set (target_rates r). rate_ok (tr_limit x)) \<and>
     (\<forall>n \<in> set_option (daily_cap r). 0 < n)"

lemma check_name_Inr [simp]: "check_name at n = Inr () \<longleftrightarrow> name_ok n"
  by (auto simp: check_name_def name_ok_def list_ex_iff)

lemma rl_check_Inr [simp]: "rl_check r at = Inr () \<longleftrightarrow> rate_ok r"
  by (auto simp: rl_check_def rate_ok_def rl_capacity_def split: option.splits)

lemma rate_opt_check_Inr [simp]:
  "rate_opt_check r at = Inr () \<longleftrightarrow> (\<forall>x \<in> set_option r. rate_ok x)"
  by (auto simp: rate_opt_check_def split: option.splits)

lemma enumerate_all: "(\<forall>p \<in> set (enumerate n xs). P (snd p)) \<longleftrightarrow> (\<forall>x \<in> set xs. P x)"
proof -
  have "set xs = snd ` set (enumerate n xs)"
    by (metis list.set_map map_snd_enumerate)
  then show ?thesis by auto
qed

lemma validate_rule_Inr [simp]:
  "validate_rule c e = Inr () \<longleftrightarrow> name_ok (fst e) \<and> rule_ok (snd e)"
  using enumerate_all [of 0 "target_rates (snd e)" "\<lambda>x. rate_ok (tr_limit x)"]
  by (cases e) (auto simp: validate_rule_def rule_ok_def res_bind_Inr try_all_Inr case_prod_beta)

lemma validate_Inr:
  "validate ps = Inr () \<longleftrightarrow> ps_version ps = SCHEMA_VERSION \<and>
     (\<forall>c \<in> set (sensitive_capabilities ps). name_ok c) \<and>
     (\<forall>(c, cp) \<in> set (ps_components ps). name_ok c \<and>
        (\<forall>(k, r) \<in> set (cp_capabilities cp). name_ok k \<and> rule_ok r))"
  by (simp add: validate_def res_bind_Inr try_all_Inr case_prod_beta)

lemma policy_rule_ok:
  assumes "validate ps = Inr ()" "policy_rule ps c k = Some r"
  shows "name_ok c" "name_ok k" "rule_ok r"
proof -
  from assms(2) obtain cp where "(c, cp) \<in> set (ps_components ps)" "(k, r) \<in> set (cp_capabilities cp)"
    by (auto simp: policy_rule_def split: option.splits dest: map_of_SomeD)
  with assms(1) show "name_ok c" "name_ok k" "rule_ok r"
    by (auto simp: validate_Inr)
qed

end
