(* ===== verification/GrantBucket.thy ===== *)
theory GrantBucket
  imports GrantPolicy
begin

text \<open>
  \<open>rust/wa-grant-policy/src/bucket.rs\<close>: token buckets and daily counters in integer arithmetic.  One
  token is \<open>UNITS_PER_TOKEN\<close> units, so that a rate of \<open>n\<close> per minute refills \<open>n\<close> units in a
  millisecond.  All numbers are \<open>u64\<close> or \<open>u32\<close>; the saturating operations are written out.
\<close>

definition UNITS_PER_TOKEN :: nat where
  "UNITS_PER_TOKEN = 60000"

definition DAY_MS :: nat where
  "DAY_MS = 86400000"

record bucket =
  units :: nat
  last_ms :: nat

definition capacity_units :: "rate_limit \<Rightarrow> nat" where
  "capacity_units rate = sat_mul64 (rl_capacity rate) UNITS_PER_TOKEN"

definition bucket_full :: "rate_limit \<Rightarrow> nat \<Rightarrow> bucket" where
  "bucket_full rate now = \<lparr>units = capacity_units rate, last_ms = now\<rparr>"

definition available :: "bucket \<Rightarrow> rate_limit \<Rightarrow> nat \<Rightarrow> nat" where
  "available b rate now =
    (let elapsed = now - last_ms b;
         added = sat_mul64 elapsed (per_minute rate)
     in min (sat_add64 (units b) added) (capacity_units rate))"

definition refill :: "bucket \<Rightarrow> rate_limit \<Rightarrow> nat \<Rightarrow> bucket" where
  "refill b rate now =
    (let b = (if now > last_ms b then b\<lparr>units := available b rate now, last_ms := now\<rparr> else b)
     in b\<lparr>units := min (units b) (capacity_units rate)\<rparr>)"

definition tokens :: "bucket \<Rightarrow> rate_limit \<Rightarrow> nat \<Rightarrow> nat" where
  "tokens b rate now = available b rate now div UNITS_PER_TOKEN"

definition retry_after_units :: "nat \<Rightarrow> rate_limit \<Rightarrow> nat" where
  "retry_after_units u rate =
    (let pm = max (per_minute rate) 1;
         missing = UNITS_PER_TOKEN - min u UNITS_PER_TOKEN
     in if missing = 0 then 0 else (missing + pm - 1) div pm)"

definition bucket_take :: "bucket \<Rightarrow> rate_limit \<Rightarrow> nat \<Rightarrow> (nat + unit) \<times> bucket" where
  "bucket_take b rate now =
    (let b = refill b rate now
     in if units b \<ge> UNITS_PER_TOKEN then (Inr (), b\<lparr>units := units b - UNITS_PER_TOKEN\<rparr>)
        else (Inl (retry_after_units (units b) rate), b))"

definition retry_after_ms :: "bucket \<Rightarrow> rate_limit \<Rightarrow> nat \<Rightarrow> nat" where
  "retry_after_ms b rate now = retry_after_units (available b rate now) rate"

record daily_counter =
  dc_day :: nat
  dc_count :: nat

definition day_of :: "nat \<Rightarrow> nat" where
  "day_of now = now div DAY_MS"

definition daily_new :: "nat \<Rightarrow> daily_counter" where
  "daily_new day = \<lparr>dc_day = day, dc_count = 0\<rparr>"

definition count_on :: "daily_counter \<Rightarrow> nat \<Rightarrow> nat" where
  "count_on c now = (if dc_day c = day_of now then dc_count c else 0)"

definition bump :: "daily_counter \<Rightarrow> nat \<Rightarrow> daily_counter" where
  "bump c now =
    (let day = day_of now
     in if dc_day c \<noteq> day then \<lparr>dc_day = day, dc_count = 1\<rparr>
        else c\<lparr>dc_count := sat_add32 (dc_count c) 1\<rparr>)"

definition ms_until_next_day :: "nat \<Rightarrow> nat" where
  "ms_until_next_day now =
    (let into_day = now mod DAY_MS in if into_day = 0 then DAY_MS else DAY_MS - into_day)"

section \<open>Buckets\<close>

lemmas bucket_defs = available_def refill_def tokens_def retry_after_units_def bucket_take_def
  retry_after_ms_def capacity_units_def bucket_full_def sat_mul64_def sat_add64_def Let_def

lemma refill_units [simp]: "units (refill b rate now) = available b rate now"
  by (auto simp: bucket_defs)

lemma refill_last [simp]: "last_ms (refill b rate now) = max (last_ms b) now"
  by (auto simp: refill_def Let_def)

lemma available_le_capacity: "available b rate now \<le> capacity_units rate"
  by (simp add: available_def Let_def)

lemma available_le: "available b rate now \<le> units b + per_minute rate * (now - last_ms b)"
  by (auto simp: available_def sat_add64_def sat_mul64_def Let_def mult.commute)

text \<open>A reading from before the last refill adds nothing.\<close>

lemma available_past: "now \<le> last_ms b \<Longrightarrow> available b rate now = min (units b) (capacity_units rate)"
  by (simp add: bucket_defs)

text \<open>The peek and the charge agree.\<close>

lemma take_iff_token: "fst (bucket_take b rate now) = Inr () \<longleftrightarrow> 0 < tokens b rate now"
  by (simp add: bucket_take_def tokens_def Let_def div_greater_zero_iff UNITS_PER_TOKEN_def)

lemma take_Err: "fst (bucket_take b rate now) = Inl d \<longleftrightarrow>
    tokens b rate now = 0 \<and> d = retry_after_ms b rate now"
  by (auto simp: bucket_take_def tokens_def retry_after_ms_def Let_def UNITS_PER_TOKEN_def)

lemma take_units:
  "units (snd (bucket_take b rate now)) + (if fst (bucket_take b rate now) = Inr () then UNITS_PER_TOKEN else 0)
     = available b rate now"
  by (simp add: bucket_take_def Let_def)

lemma take_last [simp]: "last_ms (snd (bucket_take b rate now)) = max (last_ms b) now"
  by (simp add: bucket_take_def Let_def)

text \<open>A run of takes at any clock readings, in any order: how many were granted, and the bucket.\<close>

fun run_takes :: "bucket \<Rightarrow> rate_limit \<Rightarrow> nat list \<Rightarrow> nat \<times> bucket" where
  "run_takes b rate [] = (0, b)"
| "run_takes b rate (now # ts) =
     (case bucket_take b rate now of (r, b') \<Rightarrow>
        case run_takes b' rate ts of (n, b'') \<Rightarrow> ((if r = Inr () then Suc n else n), b''))"

text \<open>The most a bucket can still pay for between two instants: what it holds when the window opens
  (never more than its capacity) and what it refills before the window closes.  A take inside the
  window, at whatever reading, pays for its token out of that credit.\<close>

definition window_credit :: "rate_limit \<Rightarrow> nat \<Rightarrow> nat \<Rightarrow> bucket \<Rightarrow> nat" where
  "window_credit rate t0 t1 b =
     min (units b + per_minute rate * (t0 - last_ms b)) (capacity_units rate)
       + per_minute rate * (t1 - max t0 (last_ms b))"

lemma window_credit_le: "window_credit rate t0 t1 b \<le> capacity_units rate + per_minute rate * (t1 - t0)"
  unfolding window_credit_def by (intro add_mono mult_le_mono2) auto

lemma min_add_le: "min (x + y) c \<le> min x c + (y :: nat)"
  by auto

lemma available_le': "available b rate now \<le> min (units b + per_minute rate * (now - last_ms b)) (capacity_units rate)"
  using available_le [of b rate now] available_le_capacity [of b rate now] by simp

lemma available_window:
  assumes "t0 \<le> now" "now \<le> t1"
  shows "available b rate now + per_minute rate * (t1 - max (last_ms b) now) \<le> window_credit rate t0 t1 b"
proof -
  let ?p = "per_minute rate"
  have "now - last_ms b = (t0 - last_ms b) + (now - max t0 (last_ms b))" using assms by auto
  then have "available b rate now
      \<le> min (units b + ?p * (t0 - last_ms b) + ?p * (now - max t0 (last_ms b))) (capacity_units rate)"
    using available_le' [of b rate now] by (simp add: distrib_left add.assoc)
  also have "\<dots> \<le> min (units b + ?p * (t0 - last_ms b)) (capacity_units rate)
      + ?p * (now - max t0 (last_ms b))"
    by (rule min_add_le)
  finally have "available b rate now + ?p * (t1 - max (last_ms b) now)
      \<le> min (units b + ?p * (t0 - last_ms b)) (capacity_units rate)
        + ?p * ((now - max t0 (last_ms b)) + (t1 - max (last_ms b) now))"
    by (simp add: distrib_left)
  also have "(now - max t0 (last_ms b)) + (t1 - max (last_ms b) now) = t1 - max t0 (last_ms b)"
    using assms by auto
  finally show ?thesis by (simp add: window_credit_def)
qed

lemma take_window:
  assumes "t0 \<le> now" "now \<le> t1"
  shows "window_credit rate t0 t1 (snd (bucket_take b rate now))
    + (if fst (bucket_take b rate now) = Inr () then UNITS_PER_TOKEN else 0) \<le> window_credit rate t0 t1 b"
proof -
  let ?b = "snd (bucket_take b rate now)"
  have "t0 \<le> last_ms ?b" using assms by simp
  then have "window_credit rate t0 t1 ?b \<le> units ?b + per_minute rate * (t1 - last_ms ?b)"
    by (simp add: window_credit_def max_absorb2 del: take_last)
  then show ?thesis
    using take_units [of b rate now] available_window [OF assms, of b rate] by auto
qed

lemma run_takes_window:
  "run_takes b rate ts = (n, b') \<Longrightarrow> \<forall>t \<in> set ts. t0 \<le> t \<and> t \<le> t1 \<Longrightarrow>
     n * UNITS_PER_TOKEN + window_credit rate t0 t1 b' \<le> window_credit rate t0 t1 b"
proof (induction ts arbitrary: b n)
  case (Cons now ts)
  obtain k b'' where "run_takes (snd (bucket_take b rate now)) rate ts = (k, b'')" by fastforce
  with Cons take_window [of t0 now t1 rate b] show ?case
    by (fastforce split: prod.splits if_splits)
qed simp

text \<open>How long a refused caller has to wait.\<close>

lemma ceil_div_bounds:
  assumes "0 < (p::nat)" "0 < m"
  shows "m \<le> p * ((m + p - 1) div p)" "t < (m + p - 1) div p \<Longrightarrow> p * t < m"
    "0 < (m + p - 1) div p"
proof -
  have eq: "(m + p - 1) div p * p + (m + p - 1) mod p = m + p - 1" by simp
  have lt: "(m + p - 1) mod p < p" using assms by simp
  show "m \<le> p * ((m + p - 1) div p)"
  proof -
    have "m + p - 1 < (m + p - 1) div p * p + p" using eq lt by linarith
    then show ?thesis by (simp add: mult.commute)
  qed
  show "0 < (m + p - 1) div p" using assms by (simp add: div_greater_zero_iff)
  show "p * t < m" if "t < (m + p - 1) div p"
  proof -
    from that have "p * Suc t \<le> p * ((m + p - 1) div p)" by (intro mult_le_mono2) simp
    also have "\<dots> \<le> m + p - 1" using eq by (simp add: mult.commute)
    finally show ?thesis using assms by simp
  qed
qed

lemma available_later:
  assumes "last_ms b \<le> now" "available b rate now < UNITS_PER_TOKEN" "per_minute rate * t \<le> u64_max - UNITS_PER_TOKEN"
  shows "available (refill b rate now) rate (now + t) =
     min (available b rate now + per_minute rate * t) (capacity_units rate)"
proof -
  have "available (refill b rate now) rate (now + t) =
     min (sat_add64 (available b rate now) (sat_mul64 t (per_minute rate))) (capacity_units rate)"
    using assms(1) by (simp add: available_def [of "refill b rate now"] Let_def)
  moreover have "sat_mul64 t (per_minute rate) = per_minute rate * t"
    using assms(3) by (simp add: sat_mul64_def mult.commute)
  ultimately show ?thesis
    using assms(2,3) by (simp add: sat_add64_def UNITS_PER_TOKEN_def)
qed

lemma capacity_one_token: "rate_ok rate \<Longrightarrow> UNITS_PER_TOKEN \<le> capacity_units rate"
  by (simp add: capacity_units_def rate_ok_def sat_mul64_def UNITS_PER_TOKEN_def)

lemma retry_exact:
  assumes "last_ms b \<le> now" "rate_ok rate" "per_minute rate \<le> u32_max"
    "bucket_take b rate now = (Inl d, b')"
  shows "0 < d" "0 < tokens b' rate (now + d)" "t < d \<Longrightarrow> tokens b' rate (now + t) = 0"
proof -
  let ?a = "available b rate now" and ?p = "per_minute rate"
  have a: "?a < UNITS_PER_TOKEN" and b': "b' = refill b rate now" and d: "d = retry_after_units ?a rate"
    using assms(4) by (auto simp: bucket_take_def Let_def split: if_splits)
  have p: "0 < ?p" using assms(2) by (simp add: rate_ok_def)
  have d': "d = (UNITS_PER_TOKEN - ?a + ?p - 1) div ?p"
  proof -
    have "max ?p 1 = ?p" using p by simp
    with a show ?thesis by (simp add: d retry_after_units_def Let_def)
  qed
  note ceil = ceil_div_bounds [OF p, of "UNITS_PER_TOKEN - ?a", folded d']
  show "0 < d" using ceil(3) a by simp
  have small: "?p * d \<le> u64_max - UNITS_PER_TOKEN"
  proof -
    have "?p * d \<le> UNITS_PER_TOKEN - ?a + ?p - 1" by (simp add: d')
    also have "\<dots> \<le> u64_max - UNITS_PER_TOKEN" using assms(3) by (simp add: UNITS_PER_TOKEN_def)
    finally show ?thesis .
  qed
  have "UNITS_PER_TOKEN \<le> ?a + ?p * d" using ceil(1) a by simp
  then show "0 < tokens b' rate (now + d)"
    using available_later [OF assms(1) a small] capacity_one_token [OF assms(2)]
    by (simp add: tokens_def b' div_greater_zero_iff UNITS_PER_TOKEN_def)
  show "tokens b' rate (now + t) = 0" if "t < d"
  proof -
    have "?p * t \<le> ?p * d" using that by simp
    then have "?p * t \<le> u64_max - UNITS_PER_TOKEN" using small by linarith
    then show ?thesis
      using available_later [OF assms(1) a, of t] ceil(2) [OF _ that] a
      by (simp add: tokens_def b')
  qed
qed

section \<open>Daily counters\<close>

lemma ms_until_next_day_exact:
  "day_of (now + ms_until_next_day now) = Suc (day_of now)"
  "t < ms_until_next_day now \<Longrightarrow> day_of (now + t) = day_of now"
proof -
  have D: "(0::nat) < DAY_MS" by (simp add: DAY_MS_def)
  have now: "now = day_of now * DAY_MS + now mod DAY_MS" by (simp add: day_of_def)
  have m: "now mod DAY_MS < DAY_MS" using D by simp
  have w: "now mod DAY_MS + ms_until_next_day now = DAY_MS"
    using m by (simp add: ms_until_next_day_def Let_def)
  then have "now + ms_until_next_day now = Suc (day_of now) * DAY_MS" using now by simp
  then show "day_of (now + ms_until_next_day now) = Suc (day_of now)"
    using D by (simp add: day_of_def)
  assume "t < ms_until_next_day now"
  then have "now + t = day_of now * DAY_MS + (now mod DAY_MS + t)" "now mod DAY_MS + t < DAY_MS"
    using w now by simp_all
  then show "day_of (now + t) = day_of now"
    by (metis D add.commute day_of_def div_mult_self3 div_less add_0 less_not_refl mult.commute)
qed

lemma count_on_bump: "count_on (bump c now) now = sat_add32 (count_on c now) 1"
  by (auto simp: count_on_def bump_def Let_def sat_add32_def)

lemma count_on_bump_other: "day_of t \<noteq> day_of now \<Longrightarrow> count_on (bump c now) t = 0"
  by (auto simp: count_on_def bump_def Let_def)

end
