(* ===== verification/GrantAudit.thy ===== *)
theory GrantAudit
  imports Prelude
begin

text \<open>
  \<open>rust/wa-grant-policy/src/decision.rs\<close> and \<open>audit.rs\<close>: what a policy check answers, the record of
  one answer, and the sink such records are written to.  SHA-256 is a third-party crate: it is the
  parameter \<open>sha\<close> of the functions that use it.  The \<open>AuditSink\<close> trait is the locale
  \<open>audit_sink\<close>, interpreted by the bounded in-memory sink.
\<close>

section \<open>Decisions\<close>

datatype reason = NoPolicy | PolicyDenied | TargetDenied | TargetNotAllowed | ApprovalRequired
  | CapabilityRateLimited | TargetRateLimited | DailyCapReached | AuditUnavailable

datatype decision = Allow | Deny reason | RateLimited nat reason | NeedsApproval reason

datatype dcode = CodeAllow | CodeDeny | CodeRateLimited | CodeNeedsApproval

fun reason_as_str :: "reason \<Rightarrow> str" where
  "reason_as_str NoPolicy = lit ''no_policy''"
| "reason_as_str PolicyDenied = lit ''policy_denied''"
| "reason_as_str TargetDenied = lit ''target_denied''"
| "reason_as_str TargetNotAllowed = lit ''target_not_allowed''"
| "reason_as_str ApprovalRequired = lit ''approval_required''"
| "reason_as_str CapabilityRateLimited = lit ''capability_rate_limited''"
| "reason_as_str TargetRateLimited = lit ''target_rate_limited''"
| "reason_as_str DailyCapReached = lit ''daily_cap_reached''"
| "reason_as_str AuditUnavailable = lit ''audit_unavailable''"

fun decision_code :: "decision \<Rightarrow> dcode" where
  "decision_code Allow = CodeAllow"
| "decision_code (Deny _) = CodeDeny"
| "decision_code (RateLimited _ _) = CodeRateLimited"
| "decision_code (NeedsApproval _) = CodeNeedsApproval"

fun reason_str :: "decision \<Rightarrow> str" where
  "reason_str Allow = lit ''allowed''"
| "reason_str (Deny r) = reason_as_str r"
| "reason_str (NeedsApproval r) = reason_as_str r"
| "reason_str (RateLimited _ r) = reason_as_str r"

fun decision_retry_after :: "decision \<Rightarrow> nat option" where
  "decision_retry_after (RateLimited ms _) = Some ms"
| "decision_retry_after _ = None"

section \<open>Records\<close>

datatype target_mode = Digest | Redacted | Exactly

definition MAX_FIELD :: nat where
  "MAX_FIELD = 160"

definition RECORD_SCHEMA :: nat where
  "RECORD_SCHEMA = 1"

record audit_record =
  ar_schema :: nat
  ar_ts_ms :: nat
  ar_component :: str
  ar_capability :: str
  ar_target :: str
  ar_decision :: dcode
  ar_reason :: str
  ar_retry_after_ms :: "nat option"

definition hex_digit :: "nat \<Rightarrow> rchar" where
  "hex_digit n = (if n < 10 then 48 + n else 87 + n)"

definition hex_byte :: "byte \<Rightarrow> str" where
  "hex_byte b = [hex_digit (unat b div 16), hex_digit (unat b mod 16)]"

definition digest_hex :: "(bytes \<Rightarrow> bytes) \<Rightarrow> str \<Rightarrow> str" where
  "digest_hex sha target = concat (map hex_byte (take 16 (sha (utf8 target))))"

definition field :: "str \<Rightarrow> str" where
  "field value = take MAX_FIELD value @ (if length value > MAX_FIELD then [8230] else [])"

fun render_target :: "(bytes \<Rightarrow> bytes) \<Rightarrow> target_mode \<Rightarrow> str \<Rightarrow> str" where
  "render_target sha Digest target = lit ''sha256:'' @ digest_hex sha target"
| "render_target sha Redacted target = lit ''<redacted>''"
| "render_target sha Exactly target = field target"

definition record_new ::
  "(bytes \<Rightarrow> bytes) \<Rightarrow> nat \<Rightarrow> str \<Rightarrow> str \<Rightarrow> str option \<Rightarrow> decision \<Rightarrow> target_mode \<Rightarrow> audit_record" where
  "record_new sha ts component capability target decision mode =
     \<lparr>ar_schema = RECORD_SCHEMA, ar_ts_ms = ts, ar_component = field component,
      ar_capability = field capability,
      ar_target = (case target of Some t \<Rightarrow> render_target sha mode t | None \<Rightarrow> lit ''-''),
      ar_decision = decision_code decision, ar_reason = reason_str decision,
      ar_retry_after_ms = (case decision of RateLimited ms _ \<Rightarrow> Some ms | _ \<Rightarrow> None)\<rparr>"

lemma length_field: "length (field v) \<le> MAX_FIELD + 1"
  by (simp add: field_def)

lemma length_concat_hex: "length (concat (map hex_byte bs)) = 2 * length bs"
  by (induction bs) (simp_all add: hex_byte_def)

lemma length_digest_hex: "length (digest_hex sha t) \<le> 32"
  by (simp add: digest_hex_def length_concat_hex)

lemma hex_digit_range: "n < 16 \<Longrightarrow> hex_digit n \<in> {48..57} \<union> {97..102}"
  by (auto simp: hex_digit_def)

lemma digest_hex_chars: "c \<in> set (digest_hex sha t) \<Longrightarrow> c \<in> {48..57} \<union> {97..102}"
proof -
  assume "c \<in> set (digest_hex sha t)"
  then obtain b :: byte where "c = hex_digit (unat b div 16) \<or> c = hex_digit (unat b mod 16)"
    by (auto simp: digest_hex_def hex_byte_def)
  moreover have "unat b div 16 < 16" using unat_byte_lt [of b] by linarith
  ultimately show ?thesis
    using hex_digit_range [of "unat b div 16"] hex_digit_range [of "unat b mod 16"] by auto
qed

section \<open>Sinks\<close>

record audit_error =
  ae_sink :: str
  ae_detail :: str

type_synonym 's sink_write = "'s \<Rightarrow> audit_record \<Rightarrow> (audit_error + unit) \<times> 's"

text \<open>What a client may rely on: a write that reports success has put the record last, a write that
  reports a failure has not changed what is last.\<close>

locale audit_sink =
  fixes put :: "'s \<Rightarrow> audit_record \<Rightarrow> (audit_error + unit) \<times> 's"
    and newest :: "'s \<Rightarrow> audit_record option"
    and ok :: "'s \<Rightarrow> bool"
  assumes put_ok: "ok s \<Longrightarrow> ok (snd (put s r))"
    and put_newest: "ok s \<Longrightarrow> fst (put s r) = Inr () \<Longrightarrow> newest (snd (put s r)) = Some r"
    and put_failed: "ok s \<Longrightarrow> fst (put s r) = Inl e \<Longrightarrow> newest (snd (put s r)) = newest s"

record memory_audit =
  ma_records :: "audit_record list"
  ma_limit :: nat
  ma_dropped :: nat

definition memory_with_limit :: "nat \<Rightarrow> memory_audit" where
  "memory_with_limit limit = \<lparr>ma_records = [], ma_limit = max limit 1, ma_dropped = 0\<rparr>"

definition memory_default :: memory_audit where
  "memory_default = memory_with_limit 10000"

definition memory_clear :: "memory_audit \<Rightarrow> memory_audit" where
  "memory_clear m = m\<lparr>ma_records := [], ma_dropped := 0\<rparr>"

definition memory_write :: "memory_audit \<Rightarrow> audit_record \<Rightarrow> (audit_error + unit) \<times> memory_audit" where
  "memory_write m r =
    (let m = (if length (ma_records m) = ma_limit m
              then m\<lparr>ma_records := drop 1 (ma_records m), ma_dropped := wrap64 (ma_dropped m + 1)\<rparr>
              else m)
     in (Inr (), m\<lparr>ma_records := ma_records m @ [r]\<rparr>))"

definition memory_ok :: "memory_audit \<Rightarrow> bool" where
  "memory_ok m \<longleftrightarrow> 0 < ma_limit m \<and> length (ma_records m) \<le> ma_limit m"

definition memory_newest :: "memory_audit \<Rightarrow> audit_record option" where
  "memory_newest m = (if ma_records m = [] then None else Some (last (ma_records m)))"

interpretation memory: audit_sink memory_write memory_newest memory_ok
  by unfold_locales (auto simp: memory_write_def memory_newest_def memory_ok_def Let_def)

lemma memory_ok_with_limit [simp]: "memory_ok (memory_with_limit n)"
  by (simp add: memory_with_limit_def memory_ok_def)

text \<open>A run of writes keeps the newest \<open>limit\<close> records, in order, and counts the rest.\<close>

fun memory_writes :: "memory_audit \<Rightarrow> audit_record list \<Rightarrow> memory_audit" where
  "memory_writes m [] = m"
| "memory_writes m (r # rs) = memory_writes (snd (memory_write m r)) rs"

lemma memory_write_records:
  assumes "memory_ok m"
  shows "ma_records (snd (memory_write m r)) = keep_last (ma_limit m) (ma_records m @ [r])"
    "ma_limit (snd (memory_write m r)) = ma_limit m"
    "ma_dropped m + length (ma_records m) < u64_max \<Longrightarrow>
     ma_dropped (snd (memory_write m r)) + length (ma_records (snd (memory_write m r)))
       = Suc (ma_dropped m + length (ma_records m))"
  using assms by (auto simp: memory_write_def memory_ok_def Let_def wrap64_id keep_last_def)

lemma memory_writes_records:
  "memory_ok m \<Longrightarrow> ma_records (memory_writes m rs) = keep_last (ma_limit m) (ma_records m @ rs)"
proof (induction rs arbitrary: m)
  case Nil
  then show ?case by (simp add: memory_ok_def keep_last_all)
next
  case (Cons r rs)
  then show ?case
    using memory.put_ok [of m r] keep_last_append [of "ma_limit m" "ma_records m @ [r]" rs]
    by (simp add: memory_write_records)
qed

lemma memory_writes_dropped:
  "memory_ok m \<Longrightarrow> ma_dropped m + length (ma_records m) + length rs \<le> u64_max \<Longrightarrow>
     ma_dropped (memory_writes m rs) + length (ma_records (memory_writes m rs))
       = ma_dropped m + length (ma_records m) + length rs"
proof (induction rs arbitrary: m)
  case (Cons r rs)
  then show ?case
    using memory.put_ok [of m r] memory_write_records(3) [of m r] Cons.IH [of "snd (memory_write m r)"]
    by simp
qed simp

end
