(* ===== verification/GrantEngine.thy ===== *)
theory GrantEngine
  imports GrantBucket GrantAudit
begin

text \<open>
  \<open>rust/wa-grant-policy/src/engine.rs\<close>: the stateful policy check.  \<open>plan\<close> decides without touching
  the state and lists what an \<open>Allow\<close> has to pay; \<open>commit\<close> pays it.  The four maps of the engine are
  B-trees keyed by strings with a separator that no policy name contains.  \<open>sha\<close> is SHA-256.
\<close>

definition SEP :: rchar where
  "SEP = 31"

definition STATE_SCHEMA :: nat where
  "STATE_SCHEMA = 1"

definition DEFAULT_MAX_TARGET_BUCKETS :: nat where
  "DEFAULT_MAX_TARGET_BUCKETS = 4096"

datatype state_error = BadSchema nat | TooManyBuckets nat | BadBucketKey str | BadDailyKey str
  | CountOnDayZero str | BadApprovalKey str

record approval_state =
  uses :: nat
  expires_ms :: "nat option"

definition valid_at :: "approval_state \<Rightarrow> nat \<Rightarrow> bool" where
  "valid_at a now \<longleftrightarrow> uses a > 0 \<and> (case expires_ms a of Some e \<Rightarrow> now < e | None \<Rightarrow> True)"

record state_snapshot =
  ss_schema :: nat
  ss_saved_at_ms :: nat
  ss_buckets :: "(str, bucket) btree"
  ss_daily :: "(str, daily_counter) btree"
  ss_approvals :: "(str, approval_state) btree"

record entry =
  e_bucket :: bucket
  e_touched :: nat

datatype charge_kind = BucketCharge rate_limit | DailyCharge | ApprovalCharge

record charge =
  ch_key :: str
  ch_kind :: charge_kind

record plan_result =
  pl_decision :: decision
  pl_charges :: "charge list"

record engine =
  en_policy :: policy_set
  en_target_mode :: target_mode
  fail_closed :: bool
  max_target_buckets :: nat
  buckets :: "(str, entry) btree"
  daily :: "(str, daily_counter) btree"
  approvals :: "(str, approval_state) btree"
  tick :: nat
  last_now_ms :: nat
  audit_errors :: "audit_error list"

definition engine_new :: "policy_set \<Rightarrow> engine" where
  "engine_new p = \<lparr>en_policy = p, en_target_mode = Digest, fail_closed = True,
     max_target_buckets = DEFAULT_MAX_TARGET_BUCKETS, buckets = [], daily = [], approvals = [],
     tick = 0, last_now_ms = 0, audit_errors = []\<rparr>"

definition set_policy :: "engine \<Rightarrow> policy_set \<Rightarrow> (policy_error + unit) \<times> engine" where
  "set_policy e p = (case validate p of Inl err \<Rightarrow> (Inl err, e) | Inr _ \<Rightarrow> (Inr (), e\<lparr>en_policy := p\<rparr>))"

section \<open>Keys\<close>

definition capability_key :: "str \<Rightarrow> str \<Rightarrow> str" where
  "capability_key component capability = lit ''g'' @ [SEP] @ component @ [SEP] @ capability"

definition target_key :: "(bytes \<Rightarrow> bytes) \<Rightarrow> str \<Rightarrow> str \<Rightarrow> str \<Rightarrow> str" where
  "target_key sha component capability target =
     lit ''t'' @ [SEP] @ component @ [SEP] @ capability @ [SEP] @ digest_hex sha target"

definition daily_key :: "str \<Rightarrow> str \<Rightarrow> str" where
  "daily_key component capability = lit ''d'' @ [SEP] @ component @ [SEP] @ capability"

definition approval_key :: "(bytes \<Rightarrow> bytes) \<Rightarrow> str \<Rightarrow> str \<Rightarrow> str option \<Rightarrow> str" where
  "approval_key sha component capability target =
     lit ''a'' @ [SEP] @ component @ [SEP] @ capability @ [SEP] @
     (case target of Some t \<Rightarrow> digest_hex sha t | None \<Rightarrow> lit ''*'')"

section \<open>Planning\<close>

definition limited :: "engine \<Rightarrow> str \<Rightarrow> rate_limit \<Rightarrow> nat \<Rightarrow> nat option" where
  "limited e key rate now =
    (case bm_get (buckets e) key of
       None \<Rightarrow> None
     | Some entry \<Rightarrow> if tokens (e_bucket entry) rate now > 0 then None
                     else Some (retry_after_ms (e_bucket entry) rate now))"

definition approval_valid :: "engine \<Rightarrow> str \<Rightarrow> nat \<Rightarrow> bool" where
  "approval_valid e key now =
    (case bm_get (approvals e) key of Some a \<Rightarrow> valid_at a now | None \<Rightarrow> False)"

definition refuse :: "decision \<Rightarrow> plan_result" where
  "refuse d = \<lparr>pl_decision = d, pl_charges = []\<rparr>"

text \<open>The steps 5 to 8 of the evaluation order, each with the charges collected so far.\<close>

definition plan_target :: "(bytes \<Rightarrow> bytes) \<Rightarrow> engine \<Rightarrow> rule \<Rightarrow> target_rate option
    \<Rightarrow> str \<Rightarrow> str \<Rightarrow> str option \<Rightarrow> nat \<Rightarrow> charge list \<Rightarrow> plan_result" where
  "plan_target sha e r ovr component capability target now charges =
    (let per = (case ovr of Some o' \<Rightarrow> Some (tr_limit o') | None \<Rightarrow> per_target r)
     in case (per, target) of
          (Some rate, Some t) \<Rightarrow>
            (let key = target_key sha component capability t
             in case limited e key rate now of
                  Some ms \<Rightarrow> refuse (RateLimited ms TargetRateLimited)
                | None \<Rightarrow> \<lparr>pl_decision = Allow,
                     pl_charges = charges @ [\<lparr>ch_key = key, ch_kind = BucketCharge rate\<rparr>]\<rparr>)
        | _ \<Rightarrow> \<lparr>pl_decision = Allow, pl_charges = charges\<rparr>)"

definition plan_rates :: "(bytes \<Rightarrow> bytes) \<Rightarrow> engine \<Rightarrow> rule
    \<Rightarrow> str \<Rightarrow> str \<Rightarrow> str option \<Rightarrow> nat \<Rightarrow> charge list \<Rightarrow> plan_result" where
  "plan_rates sha e r component capability target now charges =
    (let ovr = (case target of None \<Rightarrow> None
                | Some t \<Rightarrow> List.find (\<lambda>tr. pattern_matches (tr_pattern tr) t) (target_rates r));
         exempt = (case ovr of Some o' \<Rightarrow> exempt_from_global o' | None \<Rightarrow> False)
     in case r_rate r of
          Some rate \<Rightarrow>
            if exempt then plan_target sha e r ovr component capability target now charges
            else
              (let key = capability_key component capability
               in case limited e key rate now of
                    Some ms \<Rightarrow> refuse (RateLimited ms CapabilityRateLimited)
                  | None \<Rightarrow> plan_target sha e r ovr component capability target now
                      (charges @ [\<lparr>ch_key = key, ch_kind = BucketCharge rate\<rparr>]))
        | None \<Rightarrow> plan_target sha e r ovr component capability target now charges)"

definition plan_daily :: "(bytes \<Rightarrow> bytes) \<Rightarrow> engine \<Rightarrow> rule
    \<Rightarrow> str \<Rightarrow> str \<Rightarrow> str option \<Rightarrow> nat \<Rightarrow> charge list \<Rightarrow> plan_result" where
  "plan_daily sha e r component capability target now charges =
    (case daily_cap r of
       Some cap \<Rightarrow>
         (let key = daily_key component capability;
              count = (case bm_get (daily e) key of Some c \<Rightarrow> count_on c now | None \<Rightarrow> 0)
          in if count \<ge> cap then refuse (RateLimited (ms_until_next_day now) DailyCapReached)
             else plan_rates sha e r component capability target now
                    (charges @ [\<lparr>ch_key = key, ch_kind = DailyCharge\<rparr>]))
     | None \<Rightarrow> plan_rates sha e r component capability target now charges)"

definition plan_approval :: "(bytes \<Rightarrow> bytes) \<Rightarrow> engine \<Rightarrow> rule
    \<Rightarrow> str \<Rightarrow> str \<Rightarrow> str option \<Rightarrow> nat \<Rightarrow> plan_result" where
  "plan_approval sha e r component capability target now =
    (if require_approval r then
       (let specific = approval_key sha component capability target;
            wide = approval_key sha component capability None
        in if approval_valid e specific now then
             plan_daily sha e r component capability target now
               [\<lparr>ch_key = specific, ch_kind = ApprovalCharge\<rparr>]
           else if target \<noteq> None \<and> approval_valid e wide now then
             plan_daily sha e r component capability target now
               [\<lparr>ch_key = wide, ch_kind = ApprovalCharge\<rparr>]
           else refuse (NeedsApproval ApprovalRequired))
     else plan_daily sha e r component capability target now [])"

definition plan :: "(bytes \<Rightarrow> bytes) \<Rightarrow> engine \<Rightarrow> str \<Rightarrow> str \<Rightarrow> str option \<Rightarrow> nat \<Rightarrow> plan_result" where
  "plan sha e component capability target now =
    (case policy_rule (en_policy e) component capability of
       None \<Rightarrow> if is_sensitive (en_policy e) component capability then refuse (Deny NoPolicy)
               else \<lparr>pl_decision = Allow, pl_charges = []\<rparr>
     | Some r \<Rightarrow>
         if r_effect r = EffectDeny then refuse (Deny PolicyDenied)
         else if (case target of Some t \<Rightarrow> list_ex (\<lambda>p. pattern_matches p t) (r_deny r) | None \<Rightarrow> False)
         then refuse (Deny TargetDenied)
         else if r_allow r \<noteq> [] \<and>
           \<not> (case target of Some t \<Rightarrow> list_ex (\<lambda>p. pattern_matches p t) (r_allow r) | None \<Rightarrow> False)
         then refuse (Deny TargetNotAllowed)
         else plan_approval sha e r component capability target now)"

section \<open>Paying\<close>

definition bump_tick :: "engine \<Rightarrow> nat \<times> engine" where
  "bump_tick e = (let t = wrap64 (tick e + 1) in (t, e\<lparr>tick := t\<rparr>))"

definition is_target_key :: "str \<Rightarrow> bool" where
  "is_target_key key \<longleftrightarrow> prefix (lit ''t'' @ [SEP]) key"

definition is_capability_key :: "str \<Rightarrow> bool" where
  "is_capability_key key \<longleftrightarrow> prefix (lit ''g'' @ [SEP]) key"

definition target_bucket_count :: "engine \<Rightarrow> nat" where
  "target_bucket_count e = length (filter (\<lambda>x. is_target_key (fst x)) (buckets e))"

definition capability_bucket_count :: "engine \<Rightarrow> nat" where
  "capability_bucket_count e = length (filter (\<lambda>x. is_capability_key (fst x)) (buckets e))"

definition evict_targets :: "engine \<Rightarrow> engine" where
  "evict_targets e =
    (let targets = map (\<lambda>(key, entry). (key, e_touched entry))
                     (filter (\<lambda>x. is_target_key (fst x)) (buckets e))
     in if length targets \<le> max_target_buckets e then e
        else
          (let sorted = sort_key snd targets;
               drop_count = length targets - max_target_buckets e
           in e\<lparr>buckets := fold (\<lambda>(key, _). bm_remove key) (take drop_count sorted) (buckets e)\<rparr>))"

definition commit_charge :: "nat \<Rightarrow> charge \<Rightarrow> engine \<Rightarrow> engine" where
  "commit_charge now ch e =
    (case ch_kind ch of
       BucketCharge rate \<Rightarrow>
         (let (t, e) = bump_tick e;
              entry = (case bm_get (buckets e) (ch_key ch) of
                         Some x \<Rightarrow> x
                       | None \<Rightarrow> \<lparr>e_bucket = bucket_full rate now, e_touched = t\<rparr>);
              b = snd (bucket_take (e_bucket entry) rate now)
          in e\<lparr>buckets := bm_insert (ch_key ch) \<lparr>e_bucket = b, e_touched = t\<rparr> (buckets e)\<rparr>)
     | DailyCharge \<Rightarrow>
         (let c = (case bm_get (daily e) (ch_key ch) of Some c \<Rightarrow> c | None \<Rightarrow> daily_new (day_of now))
          in e\<lparr>daily := bm_insert (ch_key ch) (bump c now) (daily e)\<rparr>)
     | ApprovalCharge \<Rightarrow>
         (case bm_get (approvals e) (ch_key ch) of
            Some a \<Rightarrow> e\<lparr>approvals := bm_insert (ch_key ch) (a\<lparr>uses := uses a - 1\<rparr>) (approvals e)\<rparr>
          | None \<Rightarrow> e))"

definition commit :: "charge list \<Rightarrow> nat \<Rightarrow> engine \<Rightarrow> engine" where
  "commit charges now e =
    (let e = fold (commit_charge now) charges e;
         e = e\<lparr>approvals := filter (\<lambda>(_, a). uses a > 0 \<and>
                 (case expires_ms a of Some x \<Rightarrow> now < x | None \<Rightarrow> True)) (approvals e)\<rparr>
     in evict_targets e)"

definition advance :: "nat \<Rightarrow> engine \<Rightarrow> engine" where
  "advance now e = (if now > last_now_ms e then e\<lparr>last_now_ms := now\<rparr> else e)"

section \<open>The operations\<close>

definition set_max_target_buckets :: "nat \<Rightarrow> engine \<Rightarrow> engine" where
  "set_max_target_buckets m e = evict_targets (e\<lparr>max_target_buckets := max m 1\<rparr>)"

definition check :: "(bytes \<Rightarrow> bytes) \<Rightarrow> str \<Rightarrow> str \<Rightarrow> str option \<Rightarrow> nat \<Rightarrow> engine \<Rightarrow> decision \<times> engine" where
  "check sha component capability target now e =
    (let e = advance now e;
         p = plan sha e component capability target now
     in (pl_decision p, if pl_decision p = Allow then commit (pl_charges p) now e else e))"

definition peek :: "(bytes \<Rightarrow> bytes) \<Rightarrow> engine \<Rightarrow> str \<Rightarrow> str \<Rightarrow> str option \<Rightarrow> nat \<Rightarrow> decision" where
  "peek sha e component capability target now = pl_decision (plan sha e component capability target now)"

definition enforce :: "'s sink_write \<Rightarrow> (bytes \<Rightarrow> bytes) \<Rightarrow> str \<Rightarrow> str \<Rightarrow> str option \<Rightarrow> nat
    \<Rightarrow> engine \<Rightarrow> 's \<Rightarrow> decision \<times> engine \<times> 's" where
  "enforce sink_put sha component capability target now e sink =
    (let e = advance now e;
         p = plan sha e component capability target now;
         sensitive = is_audited (en_policy e) component capability;
         (decision, e, sink) =
           (if sensitive \<or> pl_decision p \<noteq> Allow then
              (let record = record_new sha now component capability target (pl_decision p) (en_target_mode e);
                   (res, sink) = sink_put sink record
               in case res of
                    Inr _ \<Rightarrow> (pl_decision p, e, sink)
                  | Inl err \<Rightarrow>
                      (if sensitive \<and> fail_closed e then Deny AuditUnavailable else pl_decision p,
                       e\<lparr>audit_errors := audit_errors e @ [err]\<rparr>, sink))
            else (pl_decision p, e, sink))
     in (decision, if decision = Allow then commit (pl_charges p) now e else e, sink))"

definition approve :: "(bytes \<Rightarrow> bytes) \<Rightarrow> str \<Rightarrow> str \<Rightarrow> str option \<Rightarrow> nat \<Rightarrow> nat option
    \<Rightarrow> engine \<Rightarrow> approval_state \<times> engine" where
  "approve sha component capability target now ttl e =
    (let key = approval_key sha component capability target;
         a = (case bm_get (approvals e) key of Some a \<Rightarrow> a | None \<Rightarrow> \<lparr>uses = 0, expires_ms = None\<rparr>);
         a = a\<lparr>uses := sat_add32 (uses a) 1, expires_ms := map_option (\<lambda>t. sat_add64 now t) ttl\<rparr>
     in (a, e\<lparr>approvals := bm_insert key a (approvals e)\<rparr>))"

definition revoke_approvals :: "str \<Rightarrow> str \<Rightarrow> engine \<Rightarrow> engine" where
  "revoke_approvals component capability e =
    (let pre = lit ''a'' @ [SEP] @ component @ [SEP] @ capability @ [SEP]
     in e\<lparr>approvals := filter (\<lambda>(key, _). \<not> prefix pre key) (approvals e)\<rparr>)"

definition pending_approvals :: "nat \<Rightarrow> engine \<Rightarrow> (str \<times> approval_state) list" where
  "pending_approvals now e = filter (\<lambda>(_, a). valid_at a now) (approvals e)"

definition snapshot :: "engine \<Rightarrow> state_snapshot" where
  "snapshot e = \<lparr>ss_schema = STATE_SCHEMA, ss_saved_at_ms = last_now_ms e,
     ss_buckets = map (\<lambda>(key, entry). (key, e_bucket entry)) (buckets e),
     ss_daily = daily e, ss_approvals = approvals e\<rparr>"

text \<open>The loop of \<open>restore\<close> over the buckets: each gets the next tick.\<close>

fun restore_buckets :: "(str \<times> bucket) list \<Rightarrow> nat \<Rightarrow> (str, entry) btree
    \<Rightarrow> state_error + ((str, entry) btree \<times> nat)" where
  "restore_buckets [] t m = Inr (m, t)"
| "restore_buckets ((key, b) # rest) t m =
     (if \<not> (is_capability_key key \<or> is_target_key key) then Inl (BadBucketKey key)
      else
        (let t = wrap64 (t + 1)
         in restore_buckets rest t (bm_insert key \<lparr>e_bucket = b, e_touched = t\<rparr> m)))"

definition restore :: "state_snapshot \<Rightarrow> engine \<Rightarrow> (state_error + unit) \<times> engine" where
  "restore s e =
    (if ss_schema s \<noteq> STATE_SCHEMA then (Inl (BadSchema (ss_schema s)), e)
     else if length (ss_buckets s) > max (sat_mul64 (max_target_buckets e) 2) 64
     then (Inl (TooManyBuckets (length (ss_buckets s))), e)
     else
       (case restore_buckets (ss_buckets s) 0 [] of
          Inl err \<Rightarrow> (Inl err, e)
        | Inr (bs, t) \<Rightarrow>
            (case try_all (\<lambda>(key, c).
                     if \<not> prefix (lit ''d'' @ [SEP]) key then Inl (BadDailyKey key)
                     else if dc_day c = 0 \<and> dc_count c > 0 then Inl (CountOnDayZero key)
                     else Inr ()) (ss_daily s) of
               Inl err \<Rightarrow> (Inl err, e)
             | Inr _ \<Rightarrow>
                 (case try_all (\<lambda>(key, _).
                          if \<not> prefix (lit ''a'' @ [SEP]) key then Inl (BadApprovalKey key)
                          else Inr ()) (ss_approvals s) of
                    Inl err \<Rightarrow> (Inl err, e)
                  | Inr _ \<Rightarrow>
                      (Inr (), evict_targets
                         (e\<lparr>buckets := bs, daily := ss_daily s, approvals := ss_approvals s,
                            tick := t, last_now_ms := max (last_now_ms e) (ss_saved_at_ms s)\<rparr>))))))"

definition clear_state :: "engine \<Rightarrow> engine" where
  "clear_state e = e\<lparr>buckets := [], daily := [], approvals := [], tick := 0\<rparr>"

definition take_audit_errors :: "engine \<Rightarrow> audit_error list \<times> engine" where
  "take_audit_errors e = (audit_errors e, e\<lparr>audit_errors := []\<rparr>)"

end
