(* ===== verification/Budget.thy ===== *)
theory Budget
  imports Prelude
begin

text \<open>
  The contract shared by everything that spends from a bounded credit: a step either grants or not,
  a granted step of the kind that is paid for lowers the credit by its price, and no step raises the
  credit.  Then a run grants at most what the credit pays for.
\<close>

fun granted :: "('c \<Rightarrow> 's \<Rightarrow> bool \<times> 's) \<Rightarrow> ('c \<Rightarrow> bool) \<Rightarrow> 'c list \<Rightarrow> 's \<Rightarrow> nat" where
  "granted step pay [] s = 0"
| "granted step pay (c # cs) s =
     (case step c s of (yes, s') \<Rightarrow> (if yes \<and> pay c then 1 else 0) + granted step pay cs s')"

locale spending =
  fixes step :: "'c \<Rightarrow> 's \<Rightarrow> bool \<times> 's"
    and pay :: "'c \<Rightarrow> bool"
    and fits :: "'c \<Rightarrow> bool"
    and inv :: "'s \<Rightarrow> bool"
    and credit :: "'s \<Rightarrow> nat"
    and price :: nat
  assumes step_inv: "inv s \<Longrightarrow> fits c \<Longrightarrow> inv (snd (step c s))"
    and step_pays: "inv s \<Longrightarrow> fits c \<Longrightarrow> pay c \<Longrightarrow> fst (step c s) \<Longrightarrow>
      credit (snd (step c s)) + price \<le> credit s"
    and step_free: "inv s \<Longrightarrow> fits c \<Longrightarrow> credit (snd (step c s)) \<le> credit s"
begin

lemma granted_bounded:
  "inv s \<Longrightarrow> \<forall>c \<in> set cs. fits c \<Longrightarrow> granted step pay cs s * price \<le> credit s"
proof (induction cs arbitrary: s)
  case (Cons c cs)
  obtain yes s' where st: "step c s = (yes, s')" by fastforce
  have "granted step pay cs s' * price \<le> credit s'"
    using Cons step_inv [of s c] by (simp add: st)
  then show ?case
    using Cons.prems step_pays [of s c] step_free [of s c] by (auto simp: st)
qed simp

end

end
