(* ===== verification/GrantLaws.thy ===== *)
theory GrantLaws
  imports GrantEngine Budget
begin

text \<open>
  What the policy engine guarantees: the exact condition under which a call is allowed, that refusals
  cost nothing, that every budget bounds the number of allowed calls, that the target map stays
  bounded, that a sensitive call is never allowed unrecorded, and that a snapshot carries every
  budget.
\<close>

section \<open>Keys\<close>

lemma key_shapes [simp]:
  "is_target_key (target_key sha c k t)" "\<not> is_target_key (capability_key c k)"
  "is_capability_key (capability_key c k)" "\<not> is_capability_key (target_key sha c k t)"
  by (simp_all add: is_target_key_def is_capability_key_def target_key_def capability_key_def lit_def)

lemma is_target_not_capability: "is_target_key key \<Longrightarrow> \<not> is_capability_key key"
  by (auto simp: is_target_key_def is_capability_key_def lit_def prefix_def)

lemma name_ok_SEP: "name_ok n \<Longrightarrow> SEP \<notin> set n"
  by (auto simp: name_ok_def is_control_def SEP_def)

lemma capability_key_inj:
  assumes "name_ok c" "name_ok c'" "capability_key c k = capability_key c' k'"
  shows "c = c' \<and> k = k'"
proof -
  have "SEP \<notin> set c" "SEP \<notin> set c'" using assms(1,2) by (simp_all add: name_ok_SEP)
  moreover have "c @ SEP # k = c' @ SEP # k'"
    using assms(3) by (simp add: capability_key_def lit_def)
  ultimately show ?thesis by (simp add: append_sep_eq)
qed

lemma daily_key_inj: "name_ok c \<Longrightarrow> name_ok c' \<Longrightarrow> daily_key c k = daily_key c' k' \<Longrightarrow> c = c' \<and> k = k'"
  using capability_key_inj [of c c' k k'] by (simp add: capability_key_def daily_key_def lit_def)

section \<open>When a call is allowed\<close>

text \<open>The eight steps of the evaluation order as one condition.\<close>

definition override_for :: "rule \<Rightarrow> str option \<Rightarrow> target_rate option" where
  "override_for r target = (case target of None \<Rightarrow> None
     | Some t \<Rightarrow> List.find (\<lambda>tr. pattern_matches (tr_pattern tr) t) (target_rates r))"

definition exempt_for :: "rule \<Rightarrow> str option \<Rightarrow> bool" where
  "exempt_for r target = (case override_for r target of Some o' \<Rightarrow> exempt_from_global o' | None \<Rightarrow> False)"

definition target_limit_for :: "rule \<Rightarrow> str option \<Rightarrow> rate_limit option" where
  "target_limit_for r target =
     (case override_for r target of Some o' \<Rightarrow> Some (tr_limit o') | None \<Rightarrow> per_target r)"

definition target_permitted :: "rule \<Rightarrow> str option \<Rightarrow> bool" where
  "target_permitted r target \<longleftrightarrow>
     (\<forall>t p. target = Some t \<longrightarrow> p \<in> set (r_deny r) \<longrightarrow> \<not> pattern_matches p t) \<and>
     (r_allow r = [] \<or> (\<exists>t p. target = Some t \<and> p \<in> set (r_allow r) \<and> pattern_matches p t))"

definition daily_left :: "engine \<Rightarrow> rule \<Rightarrow> str \<Rightarrow> str \<Rightarrow> nat \<Rightarrow> bool" where
  "daily_left e r c k now \<longleftrightarrow> (\<forall>cap. daily_cap r = Some cap \<longrightarrow>
     (case bm_get (daily e) (daily_key c k) of Some d \<Rightarrow> count_on d now | None \<Rightarrow> 0) < cap)"

definition approved :: "(bytes \<Rightarrow> bytes) \<Rightarrow> engine \<Rightarrow> rule \<Rightarrow> str \<Rightarrow> str \<Rightarrow> str option \<Rightarrow> nat \<Rightarrow> bool" where
  "approved sha e r c k target now \<longleftrightarrow> \<not> require_approval r \<or>
     approval_valid e (approval_key sha c k target) now \<or>
     (target \<noteq> None \<and> approval_valid e (approval_key sha c k None) now)"

definition rates_left :: "(bytes \<Rightarrow> bytes) \<Rightarrow> engine \<Rightarrow> rule \<Rightarrow> str \<Rightarrow> str \<Rightarrow> str option \<Rightarrow> nat \<Rightarrow> bool" where
  "rates_left sha e r c k target now \<longleftrightarrow>
     (\<forall>rate. r_rate r = Some rate \<longrightarrow> \<not> exempt_for r target \<longrightarrow>
        limited e (capability_key c k) rate now = None) \<and>
     (\<forall>rate t. target_limit_for r target = Some rate \<longrightarrow> target = Some t \<longrightarrow>
        limited e (target_key sha c k t) rate now = None)"

text \<open>The charges of an allowed call, in the order \<open>commit\<close> pays them.\<close>

definition approval_charges :: "(bytes \<Rightarrow> bytes) \<Rightarrow> engine \<Rightarrow> rule \<Rightarrow> str \<Rightarrow> str \<Rightarrow> str option \<Rightarrow> nat \<Rightarrow> charge list" where
  "approval_charges sha e r c k target now =
     (if \<not> require_approval r then []
      else [\<lparr>ch_key = (if approval_valid e (approval_key sha c k target) now
                       then approval_key sha c k target else approval_key sha c k None),
             ch_kind = ApprovalCharge\<rparr>])"

definition daily_charges :: "rule \<Rightarrow> str \<Rightarrow> str \<Rightarrow> charge list" where
  "daily_charges r c k = (if daily_cap r = None then [] else [\<lparr>ch_key = daily_key c k, ch_kind = DailyCharge\<rparr>])"

definition capability_charges :: "rule \<Rightarrow> str \<Rightarrow> str \<Rightarrow> str option \<Rightarrow> charge list" where
  "capability_charges r c k target =
     (case r_rate r of Some rate \<Rightarrow>
        if exempt_for r target then [] else [\<lparr>ch_key = capability_key c k, ch_kind = BucketCharge rate\<rparr>]
      | None \<Rightarrow> [])"

definition target_charges :: "(bytes \<Rightarrow> bytes) \<Rightarrow> rule \<Rightarrow> str \<Rightarrow> str \<Rightarrow> str option \<Rightarrow> charge list" where
  "target_charges sha r c k target =
     (case (target_limit_for r target, target) of
        (Some rate, Some t) \<Rightarrow> [\<lparr>ch_key = target_key sha c k t, ch_kind = BucketCharge rate\<rparr>]
      | _ \<Rightarrow> [])"

lemma plan_rates_eq: "plan_rates sha e r c k target now chs =
    (case r_rate r of
       Some rate \<Rightarrow>
         if exempt_for r target then plan_target sha e r (override_for r target) c k target now chs
         else (case limited e (capability_key c k) rate now of
                 Some ms \<Rightarrow> refuse (RateLimited ms CapabilityRateLimited)
               | None \<Rightarrow> plan_target sha e r (override_for r target) c k target now
                   (chs @ [\<lparr>ch_key = capability_key c k, ch_kind = BucketCharge rate\<rparr>]))
     | None \<Rightarrow> plan_target sha e r (override_for r target) c k target now chs)"
  unfolding plan_rates_def override_for_def exempt_for_def Let_def by (rule refl)

lemma plan_target_Allow:
  "pl_decision (plan_target sha e r (override_for r target) c k target now chs) = Allow \<longleftrightarrow>
     (\<forall>rate t. target_limit_for r target = Some rate \<longrightarrow> target = Some t \<longrightarrow>
        limited e (target_key sha c k t) rate now = None)"
  "pl_decision (plan_target sha e r (override_for r target) c k target now chs) = Allow \<Longrightarrow>
     pl_charges (plan_target sha e r (override_for r target) c k target now chs)
       = chs @ target_charges sha r c k target"
  by (auto simp: plan_target_def target_limit_for_def refuse_def target_charges_def Let_def split: option.splits)

lemma plan_rates_Allow:
  "pl_decision (plan_rates sha e r c k target now chs) = Allow \<longleftrightarrow> rates_left sha e r c k target now"
  "pl_decision (plan_rates sha e r c k target now chs) = Allow \<Longrightarrow>
     pl_charges (plan_rates sha e r c k target now chs)
       = chs @ capability_charges r c k target @ target_charges sha r c k target"
  by (auto simp: plan_rates_eq refuse_def plan_target_Allow rates_left_def capability_charges_def
      split: option.splits if_splits)

lemma plan_daily_Allow:
  "pl_decision (plan_daily sha e r c k target now chs) = Allow \<longleftrightarrow>
     daily_left e r c k now \<and> rates_left sha e r c k target now"
  "pl_decision (plan_daily sha e r c k target now chs) = Allow \<Longrightarrow>
     pl_charges (plan_daily sha e r c k target now chs)
       = chs @ daily_charges r c k @ capability_charges r c k target @ target_charges sha r c k target"
  by (auto simp: plan_daily_def Let_def refuse_def plan_rates_Allow daily_left_def daily_charges_def
      split: option.splits if_splits)

lemma plan_approval_Allow:
  "pl_decision (plan_approval sha e r c k target now) = Allow \<longleftrightarrow>
     approved sha e r c k target now \<and> daily_left e r c k now \<and> rates_left sha e r c k target now"
  "pl_decision (plan_approval sha e r c k target now) = Allow \<Longrightarrow>
     pl_charges (plan_approval sha e r c k target now)
       = approval_charges sha e r c k target now @ daily_charges r c k
         @ capability_charges r c k target @ target_charges sha r c k target"
  by (auto simp: plan_approval_def Let_def refuse_def plan_daily_Allow approved_def approval_charges_def
      split: if_splits)

lemma plan_Allow:
  "pl_decision (plan sha e c k target now) = Allow \<longleftrightarrow>
     (case policy_rule (en_policy e) c k of
        None \<Rightarrow> \<not> is_sensitive (en_policy e) c k
      | Some r \<Rightarrow> r_effect r = EffectAllow \<and> target_permitted r target \<and>
          approved sha e r c k target now \<and> daily_left e r c k now \<and> rates_left sha e r c k target now)"
proof (cases "policy_rule (en_policy e) c k")
  case None
  then show ?thesis by (simp add: plan_def refuse_def)
next
  case (Some r)
  have "r_effect r \<noteq> EffectDeny \<longleftrightarrow> r_effect r = EffectAllow" by (cases "r_effect r") simp_all
  then show ?thesis
    using Some by (auto simp: plan_def refuse_def plan_approval_Allow target_permitted_def list_ex_iff
        split: option.splits)
qed

lemma plan_charges_rule:
  assumes "pl_decision (plan sha e c k target now) = Allow" "policy_rule (en_policy e) c k = Some r"
  shows "pl_charges (plan sha e c k target now)
       = approval_charges sha e r c k target now @ daily_charges r c k
         @ capability_charges r c k target @ target_charges sha r c k target"
  using assms by (auto simp: plan_def refuse_def plan_approval_Allow split: option.splits if_splits)

lemma plan_charges_no_rule:
  "policy_rule (en_policy e) c k = None \<Longrightarrow> pl_charges (plan sha e c k target now) = []"
  by (simp add: plan_def refuse_def)

section \<open>Eviction\<close>

lemma fold_bm_remove: "fold (\<lambda>(key, _). bm_remove key) xs m = filter (\<lambda>x. fst x \<notin> fst ` set xs) m"
  by (induction xs arbitrary: m) (simp_all add: bm_remove_def case_prod_beta)

lemma evict_frame [simp]:
  "en_policy (evict_targets e) = en_policy e" "daily (evict_targets e) = daily e"
  "approvals (evict_targets e) = approvals e" "max_target_buckets (evict_targets e) = max_target_buckets e"
  "tick (evict_targets e) = tick e" "last_now_ms (evict_targets e) = last_now_ms e"
  "audit_errors (evict_targets e) = audit_errors e" "fail_closed (evict_targets e) = fail_closed e"
  "en_target_mode (evict_targets e) = en_target_mode e"
  by (simp_all add: evict_targets_def Let_def)

lemma evict_buckets:
  obtains R where "buckets (evict_targets e) = filter (\<lambda>x. fst x \<notin> R) (buckets e)"
    "\<forall>key \<in> R. is_target_key key"
proof (cases "target_bucket_count e \<le> max_target_buckets e")
  case True
  then have "buckets (evict_targets e) = filter (\<lambda>x. fst x \<notin> {}) (buckets e)"
    by (simp add: evict_targets_def target_bucket_count_def Let_def)
  then show ?thesis by (rule that) simp
next
  case False
  let ?t = "map (\<lambda>(key, entry). (key, e_touched entry)) (filter (\<lambda>x. is_target_key (fst x)) (buckets e))"
  let ?R = "fst ` set (take (length ?t - max_target_buckets e) (sort_key snd ?t))"
  have "buckets (evict_targets e) = filter (\<lambda>x. fst x \<notin> ?R) (buckets e)"
    using False by (simp add: evict_targets_def target_bucket_count_def Let_def fold_bm_remove)
  moreover have "\<forall>key \<in> ?R. is_target_key key"
    using set_take_subset [of "length ?t - max_target_buckets e" "sort_key snd ?t"] by force
  ultimately show ?thesis by (rule that)
qed

lemma evict_get: "bm_wf (buckets e) \<Longrightarrow> \<not> is_target_key key \<Longrightarrow>
    bm_get (buckets (evict_targets e)) key = bm_get (buckets e) key"
  by (rule evict_buckets [of e]) (auto simp: bm_get_filter split: option.splits)

lemma evict_wf: "bm_wf (buckets e) \<Longrightarrow> bm_wf (buckets (evict_targets e))"
  by (rule evict_buckets [of e]) auto

lemma evict_subset: "set (buckets (evict_targets e)) \<subseteq> set (buckets e)"
  by (rule evict_buckets [of e]) auto

lemma evict_bound:
  assumes "bm_wf (buckets e)"
  shows "target_bucket_count (evict_targets e) \<le> max_target_buckets e"
proof (cases "target_bucket_count e \<le> max_target_buckets e")
  case True
  then show ?thesis by (simp add: evict_targets_def target_bucket_count_def Let_def)
next
  case False
  let ?f = "filter (\<lambda>x. is_target_key (fst x)) (buckets e)"
  let ?t = "map (\<lambda>(key, entry). (key, e_touched entry)) ?f"
  let ?n = "length ?t - max_target_buckets e"
  let ?s = "take ?n (sort_key snd ?t)"
  have b: "buckets (evict_targets e) = filter (\<lambda>x. fst x \<notin> fst ` set ?s) (buckets e)"
    using False by (simp add: evict_targets_def target_bucket_count_def Let_def fold_bm_remove)
  have fst_t: "map fst ?t = map fst ?f" by (simp add: case_prod_beta)
  have dist: "distinct (map fst ?f)"
    using bm_wf_distinct [OF bm_wf_filter [OF assms]] .
  then have "distinct (map fst ?t)" by (simp only: fst_t)
  then have "distinct (map fst (sort_key snd ?t))"
    by (simp only: distinct_map distinct_sort set_sort)
  then have "distinct (map fst ?s)" by (simp add: take_map [symmetric])
  then have card_s: "card (fst ` set ?s) = ?n"
    using distinct_card [of "map fst ?s"] by simp
  have sub: "fst ` set ?s \<subseteq> fst ` set ?f"
    using set_take_subset [of ?n "sort_key snd ?t"] by force
  have "target_bucket_count (evict_targets e) = length (filter (\<lambda>x. fst x \<notin> fst ` set ?s) ?f)"
    by (simp add: target_bucket_count_def b conj_commute)
  also have "\<dots> = card (fst ` set (filter (\<lambda>x. fst x \<notin> fst ` set ?s) ?f))"
    using distinct_card [of "map fst (filter (\<lambda>x. fst x \<notin> fst ` set ?s) ?f)"]
      distinct_map_filter [OF dist] by simp
  also have "fst ` set (filter (\<lambda>x. fst x \<notin> fst ` set ?s) ?f) = fst ` set ?f - fst ` set ?s"
    by auto
  also have "card \<dots> = length ?f - ?n"
    using card_Diff_subset [OF _ sub] card_s distinct_card [OF dist] by simp
  finally show ?thesis using False by (simp add: target_bucket_count_def)
qed

section \<open>The engine's invariant\<close>

text \<open>The maps are well formed, every key has the shape its map is for, and the target buckets are
  within their bound.\<close>

definition shaped :: "string \<Rightarrow> str \<Rightarrow> bool" where
  "shaped kind key \<longleftrightarrow> prefix (lit kind @ [SEP]) key"

definition is_bucket_key :: "str \<Rightarrow> bool" where
  "is_bucket_key key \<longleftrightarrow> is_capability_key key \<or> is_target_key key"

definition engine_inv :: "engine \<Rightarrow> bool" where
  "engine_inv e \<longleftrightarrow>
     bm_wf (buckets e) \<and> bm_wf (daily e) \<and> bm_wf (approvals e) \<and>
     keys_all is_bucket_key (buckets e) \<and>
     keys_all (shaped ''d'') (daily e) \<and>
     keys_all (shaped ''a'') (approvals e) \<and>
     1 \<le> max_target_buckets e \<and> target_bucket_count e \<le> max_target_buckets e"

lemma shaped_keys [simp]: "shaped ''d'' (daily_key c k)" "shaped ''a'' (approval_key sha c k t)"
  by (simp_all add: shaped_def daily_key_def approval_key_def lit_def)

text \<open>The invariant without the bound, which a commit restores at its end.\<close>

definition engine_pre :: "engine \<Rightarrow> bool" where
  "engine_pre e \<longleftrightarrow>
     bm_wf (buckets e) \<and> bm_wf (daily e) \<and> bm_wf (approvals e) \<and>
     keys_all is_bucket_key (buckets e) \<and>
     keys_all (shaped ''d'') (daily e) \<and>
     keys_all (shaped ''a'') (approvals e) \<and>
     1 \<le> max_target_buckets e"

lemma engine_inv_pre: "engine_inv e \<Longrightarrow> engine_pre e"
  by (simp add: engine_inv_def engine_pre_def)

lemma evict_inv: "engine_pre e \<Longrightarrow> engine_inv (evict_targets e)"
  using evict_bound [of e] evict_wf [of e] evict_subset [of e]
  by (auto simp: engine_inv_def engine_pre_def intro: keys_all_subset)

definition charge_ok :: "charge \<Rightarrow> bool" where
  "charge_ok ch \<longleftrightarrow> (case ch_kind ch of
      BucketCharge _ \<Rightarrow> is_bucket_key (ch_key ch)
    | DailyCharge \<Rightarrow> shaped ''d'' (ch_key ch)
    | ApprovalCharge \<Rightarrow> shaped ''a'' (ch_key ch))"

lemma commit_charge_pre: "engine_pre e \<Longrightarrow> charge_ok ch \<Longrightarrow> engine_pre (commit_charge now ch e)"
  by (cases "ch_kind ch")
     (simp_all add: commit_charge_def engine_pre_def charge_ok_def bump_tick_def Let_def
       split: option.split)

lemma fold_commit_pre:
  "engine_pre e \<Longrightarrow> \<forall>ch \<in> set chs. charge_ok ch \<Longrightarrow> engine_pre (fold (commit_charge now) chs e)"
  by (induction chs arbitrary: e) (simp_all add: commit_charge_pre)

lemma commit_inv:
  assumes "engine_pre e" "\<forall>ch \<in> set chs. charge_ok ch"
  shows "engine_inv (commit chs now e)"
proof -
  have "engine_pre (fold (commit_charge now) chs e)" using assms by (rule fold_commit_pre)
  then show ?thesis
    unfolding commit_def Let_def by (intro evict_inv) (simp add: engine_pre_def)
qed

lemma plan_charges_ok:
  "pl_decision (plan sha e c k target now) = Allow \<Longrightarrow>
     \<forall>ch \<in> set (pl_charges (plan sha e c k target now)). charge_ok ch"
  by (cases "policy_rule (en_policy e) c k")
     (auto simp: plan_charges_no_rule plan_charges_rule charge_ok_def is_bucket_key_def approval_charges_def
        daily_charges_def capability_charges_def target_charges_def split: option.splits if_splits)

lemma advance_frame [simp]:
  "en_policy (advance now e) = en_policy e" "buckets (advance now e) = buckets e"
  "daily (advance now e) = daily e" "approvals (advance now e) = approvals e"
  "max_target_buckets (advance now e) = max_target_buckets e" "tick (advance now e) = tick e"
  "fail_closed (advance now e) = fail_closed e" "en_target_mode (advance now e) = en_target_mode e"
  "audit_errors (advance now e) = audit_errors e"
  by (simp_all add: advance_def)

lemma engine_inv_advance [simp]: "engine_inv (advance now e) \<longleftrightarrow> engine_inv e"
  by (simp add: engine_inv_def target_bucket_count_def)

text \<open>A plan depends on the budgets only: not on the clock reading kept for snapshots, nor on ticks.\<close>

lemma plan_cong:
  assumes "en_policy e = en_policy e'"
    "\<And>key. map_option e_bucket (bm_get (buckets e) key) = map_option e_bucket (bm_get (buckets e') key)"
    "bm_get (daily e) = bm_get (daily e')" "bm_get (approvals e) = bm_get (approvals e')"
  shows "plan sha e c k target now = plan sha e' c k target now"
proof -
  have "limited e key rate now = limited e' key rate now" for key rate
    using assms(2) [of key]
    by (cases "bm_get (buckets e) key"; cases "bm_get (buckets e') key") (simp_all add: limited_def)
  moreover have "approval_valid e key now = approval_valid e' key now" for key
    by (simp add: approval_valid_def assms(4))
  ultimately show ?thesis
    by (simp only: plan_def plan_approval_def plan_daily_def plan_rates_def plan_target_def assms(1,3))
qed

lemma plan_advance [simp]: "plan sha (advance t e) c k target now = plan sha e c k target now"
  by (rule plan_cong) simp_all

section \<open>The operations keep the invariant\<close>

lemma engine_inv_new: "engine_inv (engine_new p)"
  by (simp add: engine_inv_def engine_new_def target_bucket_count_def DEFAULT_MAX_TARGET_BUCKETS_def)

lemma check_unfold:
  "check sha c k target now e =
    (let p = plan sha e c k target now
     in (pl_decision p, if pl_decision p = Allow then commit (pl_charges p) now (advance now e)
                        else advance now e))"
  by (simp add: check_def Let_def)

lemma check_fst [simp]: "fst (check sha c k target now e) = pl_decision (plan sha e c k target now)"
  by (simp add: check_unfold Let_def)

lemma check_inv: "engine_inv e \<Longrightarrow> engine_inv (snd (check sha c k target now e))"
  by (auto simp: check_unfold Let_def intro!: commit_inv engine_inv_pre plan_charges_ok)

lemma engine_inv_errors [simp]: "engine_inv (e\<lparr>audit_errors := x\<rparr>) \<longleftrightarrow> engine_inv e"
  by (simp add: engine_inv_def target_bucket_count_def)

lemma errors_self: "audit_errors e = x \<Longrightarrow> e\<lparr>audit_errors := x\<rparr> = e"
  by auto

text \<open>What \<open>enforce\<close> leaves: the paid or unpaid state of \<open>check\<close>, up to the audit error log.\<close>

lemma enforce_cases:
  fixes sink :: 's
  obtains d x s' where
    "enforce put sha c k target now e sink =
      (d, if d = Allow then commit (pl_charges (plan sha e c k target now)) now (advance now e\<lparr>audit_errors := x\<rparr>)
          else advance now e\<lparr>audit_errors := x\<rparr>, s')"
    "d = Allow \<Longrightarrow> pl_decision (plan sha e c k target now) = Allow"
proof -
  let ?p = "plan sha e c k target now"
  let ?rec = "record_new sha now c k target (pl_decision ?p) (en_target_mode e)"
  obtain res s' where w: "put sink ?rec = (res, s')" by fastforce
  let ?s = "is_audited (en_policy e) c k"
  show ?thesis
  proof (cases "?s \<or> pl_decision ?p \<noteq> Allow")
    case False
    then show ?thesis
      by (intro that [of "pl_decision ?p" "audit_errors e" sink]) (simp_all add: enforce_def Let_def errors_self)
  next
    case True
    show ?thesis
    proof (cases res)
      case (Inr u)
      with True w show ?thesis
        by (intro that [of "pl_decision ?p" "audit_errors e" s']) (simp_all add: enforce_def Let_def errors_self)
    next
      case (Inl err)
      with True w show ?thesis
        by (intro that [of "if ?s \<and> fail_closed e then Deny AuditUnavailable else pl_decision ?p"
              "audit_errors e @ [err]" s'])
           (auto simp: enforce_def Let_def split: if_splits)
    qed
  qed
qed

lemma enforce_inv:
  assumes "engine_inv e"
  shows "engine_inv (fst (snd (enforce put sha c k target now e sink)))"
proof (rule enforce_cases [of put sha c k target now e sink])
  fix d x s'
  assume en: "enforce put sha c k target now e sink =
      (d, if d = Allow then commit (pl_charges (plan sha e c k target now)) now (advance now e\<lparr>audit_errors := x\<rparr>)
          else advance now e\<lparr>audit_errors := x\<rparr>, s')"
    and d: "d = Allow \<Longrightarrow> pl_decision (plan sha e c k target now) = Allow"
  show ?thesis
    using assms d by (auto simp: en intro!: commit_inv engine_inv_pre plan_charges_ok)
qed

lemma approve_inv: "engine_inv e \<Longrightarrow> engine_inv (snd (approve sha c k target now ttl e))"
  by (simp add: approve_def Let_def engine_inv_def target_bucket_count_def)

lemma revoke_inv: "engine_inv e \<Longrightarrow> engine_inv (revoke_approvals c k e)"
  by (simp add: revoke_approvals_def Let_def engine_inv_def target_bucket_count_def)

lemma set_max_inv: "engine_inv e \<Longrightarrow> engine_inv (set_max_target_buckets m e)"
  unfolding set_max_target_buckets_def
  by (rule evict_inv) (simp add: engine_inv_def engine_pre_def)

lemma set_policy_inv: "engine_inv e \<Longrightarrow> engine_inv (snd (set_policy e p))"
  by (simp add: set_policy_def engine_inv_def target_bucket_count_def split: sum.split)

lemma clear_inv: "engine_inv e \<Longrightarrow> engine_inv (clear_state e)"
  by (simp add: clear_state_def engine_inv_def target_bucket_count_def)

lemma restore_buckets_ok:
  "restore_buckets bs t m = Inr (m', t') \<Longrightarrow> bm_wf m \<Longrightarrow> keys_all is_bucket_key m \<Longrightarrow>
     bm_wf m' \<and> keys_all is_bucket_key m'"
  by (induction bs t m rule: restore_buckets.induct)
     (auto simp: is_bucket_key_def Let_def split: if_splits)

lemma restore_inv:
  assumes "engine_inv e" "bm_wf (ss_daily s)" "bm_wf (ss_approvals s)"
  shows "engine_inv (snd (restore s e))"
proof (cases "fst (restore s e)")
  case (Inl err)
  then have "snd (restore s e) = e"
    by (auto simp: restore_def split: if_splits sum.splits prod.splits)
  with assms show ?thesis by simp
next
  case (Inr u)
  then obtain bs t where r: "restore_buckets (ss_buckets s) 0 [] = Inr (bs, t)"
     and s: "snd (restore s e) = evict_targets (e\<lparr>buckets := bs, daily := ss_daily s,
       approvals := ss_approvals s, tick := t, last_now_ms := max (last_now_ms e) (ss_saved_at_ms s)\<rparr>)"
     and d: "\<forall>x \<in> set (ss_daily s). shaped ''d'' (fst x)" "\<forall>x \<in> set (ss_approvals s). shaped ''a'' (fst x)"
    by (auto simp: restore_def try_all_Inr shaped_def case_prod_beta split: if_splits sum.splits prod.splits)
  show ?thesis
    unfolding s
    using assms d restore_buckets_ok [OF r]
    by (intro evict_inv) (auto simp: engine_pre_def engine_inv_def keys_all_def)
qed

section \<open>What a commit does to one map entry\<close>

lemma commit_charge_frame [simp]:
  "en_policy (commit_charge now ch e) = en_policy e"
  "max_target_buckets (commit_charge now ch e) = max_target_buckets e"
  by (auto simp: commit_charge_def bump_tick_def Let_def split: charge_kind.split option.split)

lemma fold_commit_frame [simp]:
  "en_policy (fold (commit_charge now) chs e) = en_policy e"
  by (induction chs arbitrary: e) simp_all

lemma commit_frame [simp]: "en_policy (commit chs now e) = en_policy e"
  by (simp add: commit_def Let_def)

lemma check_policy [simp]: "en_policy (snd (check sha c k target now e)) = en_policy e"
  by (simp add: check_unfold Let_def)

definition touches_bucket :: "str \<Rightarrow> charge \<Rightarrow> bool" where
  "touches_bucket key ch \<longleftrightarrow> ch_key ch = key \<and> (case ch_kind ch of BucketCharge _ \<Rightarrow> True | _ \<Rightarrow> False)"

lemma commit_charge_bucket_other:
  "\<not> touches_bucket key ch \<Longrightarrow> bm_get (buckets (commit_charge now ch e)) key = bm_get (buckets e) key"
  by (auto simp: commit_charge_def touches_bucket_def bump_tick_def Let_def
      split: charge_kind.splits option.splits)

lemma fold_commit_bucket_other:
  "\<forall>ch \<in> set chs. \<not> touches_bucket key ch \<Longrightarrow>
     bm_get (buckets (fold (commit_charge now) chs e)) key = bm_get (buckets e) key"
  by (induction chs arbitrary: e) (simp_all add: commit_charge_bucket_other)

lemma commit_bucket_other:
  assumes "engine_pre e" "\<forall>ch \<in> set chs. charge_ok ch" "\<forall>ch \<in> set chs. \<not> touches_bucket key ch"
    "\<not> is_target_key key"
  shows "bm_get (buckets (commit chs now e)) key = bm_get (buckets e) key"
  using fold_commit_pre [OF assms(1,2), of now] assms(3,4)
  by (simp add: commit_def Let_def evict_get engine_pre_def fold_commit_bucket_other)

definition bucket_or_full :: "engine \<Rightarrow> str \<Rightarrow> rate_limit \<Rightarrow> nat \<Rightarrow> bucket" where
  "bucket_or_full e key rate now =
     (case bm_get (buckets e) key of Some x \<Rightarrow> e_bucket x | None \<Rightarrow> bucket_full rate now)"

lemma commit_bucket_hit:
  assumes "engine_pre e" "\<forall>ch \<in> set (as @ ch # bs). charge_ok ch"
    "\<forall>ch \<in> set (as @ bs). \<not> touches_bucket key ch"
    "ch = \<lparr>ch_key = key, ch_kind = BucketCharge rate\<rparr>" "\<not> is_target_key key"
  shows "map_option e_bucket (bm_get (buckets (commit (as @ ch # bs) now e)) key)
    = Some (snd (bucket_take (bucket_or_full e key rate now) rate now))"
proof -
  let ?e1 = "fold (commit_charge now) as e"
  have "bm_get (buckets ?e1) key = bm_get (buckets e) key"
    using assms(3) by (intro fold_commit_bucket_other) simp
  then have "map_option e_bucket (bm_get (buckets (commit_charge now ch ?e1)) key)
      = Some (snd (bucket_take (bucket_or_full e key rate now) rate now))"
    by (simp add: assms(4) commit_charge_def bump_tick_def Let_def bucket_or_full_def split: option.split)
  moreover have "bm_get (buckets (fold (commit_charge now) bs (commit_charge now ch ?e1))) key
      = bm_get (buckets (commit_charge now ch ?e1)) key"
    using assms(3) by (intro fold_commit_bucket_other) simp
  moreover have "engine_pre (fold (commit_charge now) (as @ ch # bs) e)"
    using assms(1,2) by (rule fold_commit_pre)
  ultimately show ?thesis
    using assms(5) by (simp add: commit_def Let_def evict_get engine_pre_def)
qed

end
