(* ===== verification/GrantBudgets.thy ===== *)
theory GrantBudgets
  imports GrantLaws
begin

text \<open>
  What the engine spends from bounded credits: the capability-wide token bucket, the daily cap and the
  approvals.  Each is an interpretation of \<open>spending\<close> on \<open>check\<close>.
\<close>

section \<open>Budgets\<close>

type_synonym call = "str \<times> str \<times> str option \<times> nat"

text \<open>One call as a step of a run: whether it was allowed, and the engine after it.\<close>

definition check_step :: "(bytes \<Rightarrow> bytes) \<Rightarrow> call \<Rightarrow> engine \<Rightarrow> bool \<times> engine" where
  "check_step sha = (\<lambda>(c, k, target, now) e.
     case check sha c k target now e of (d, e') \<Rightarrow> (d = Allow, e'))"

lemma check_step_simps:
  "fst (check_step sha (c, k, target, now) e) \<longleftrightarrow> pl_decision (plan sha e c k target now) = Allow"
  "snd (check_step sha (c, k, target, now) e) = snd (check sha c k target now e)"
  by (simp_all add: check_step_def check_unfold Let_def)

definition within :: "nat \<Rightarrow> nat \<Rightarrow> call \<Rightarrow> bool" where
  "within t0 t1 = (\<lambda>(c, k, target, now). t0 \<le> now \<and> now \<le> t1)"

subsection \<open>The capability-wide bucket\<close>

definition uses_capability_bucket :: "str \<Rightarrow> str \<Rightarrow> rule \<Rightarrow> call \<Rightarrow> bool" where
  "uses_capability_bucket c0 k0 r = (\<lambda>(c, k, target, now). c = c0 \<and> k = k0 \<and> \<not> exempt_for r target)"

definition governed :: "str \<Rightarrow> str \<Rightarrow> rule \<Rightarrow> engine \<Rightarrow> bool" where
  "governed c0 k0 r e \<longleftrightarrow> engine_inv e \<and> validate (en_policy e) = Inr () \<and>
     policy_rule (en_policy e) c0 k0 = Some r"

definition capability_credit :: "str \<Rightarrow> str \<Rightarrow> rate_limit \<Rightarrow> nat \<Rightarrow> nat \<Rightarrow> engine \<Rightarrow> nat" where
  "capability_credit c0 k0 rate t0 t1 e =
     (case map_option e_bucket (bm_get (buckets e) (capability_key c0 k0)) of
        None \<Rightarrow> capacity_units rate + per_minute rate * (t1 - t0)
      | Some b \<Rightarrow> window_credit rate t0 t1 b)"

lemma governed_check: "governed c0 k0 r e \<Longrightarrow> governed c0 k0 r (snd (check sha c k target now e))"
  by (simp add: governed_def check_inv)

lemma capability_credit_le: "capability_credit c0 k0 rate t0 t1 e \<le> capacity_units rate + per_minute rate * (t1 - t0)"
  by (simp add: capability_credit_def window_credit_le split: option.split)

lemma not_limited_token:
  assumes "limited e key rate now = None" "rate_ok rate"
  shows "fst (bucket_take (bucket_or_full e key rate now) rate now) = Inr ()"
proof (cases "bm_get (buckets e) key")
  case None
  have "available (bucket_full rate now) rate now = capacity_units rate"
    by (simp add: available_past bucket_full_def)
  then show ?thesis
    using None capacity_one_token [OF assms(2)]
    by (simp add: take_iff_token tokens_def bucket_or_full_def UNITS_PER_TOKEN_def div_greater_zero_iff)
next
  case (Some x)
  with assms show ?thesis
    by (simp add: take_iff_token bucket_or_full_def limited_def split: if_splits)
qed

lemma full_window: "t0 \<le> now \<Longrightarrow> now \<le> t1 \<Longrightarrow>
    window_credit rate t0 t1 (bucket_full rate now) \<le> capacity_units rate + per_minute rate * (t1 - t0)"
  by (rule window_credit_le)

text \<open>The charges of a call touch the capability bucket exactly when the call uses it.\<close>

lemma no_touch_capability:
  assumes "governed c0 k0 r e" "pl_decision (plan sha e c k target now) = Allow"
    "\<not> (c = c0 \<and> k = k0 \<and> \<not> exempt_for r target)"
  shows "\<forall>ch \<in> set (pl_charges (plan sha e c k target now)). \<not> touches_bucket (capability_key c0 k0) ch"
proof (cases "policy_rule (en_policy e) c k")
  case None
  then show ?thesis by (simp add: plan_charges_no_rule)
next
  case (Some r')
  have n: "name_ok c" "name_ok c0"
    using assms(1) Some policy_rule_ok(1) by (auto simp: governed_def)
  have t: "target_key sha c k t \<noteq> capability_key c0 k0" for t
    using key_shapes(2) [of c0 k0] key_shapes(1) [of sha c k t] by metis
  show ?thesis
    unfolding plan_charges_rule [OF assms(2) Some]
    using assms(1,3) Some t capability_key_inj [OF n(1,2), of k k0]
    by (auto simp: touches_bucket_def approval_charges_def daily_charges_def capability_charges_def
        target_charges_def governed_def split: option.splits if_splits)
qed

lemma capability_step:
  assumes g: "governed c0 k0 r e" and rate: "r_rate r = Some rate" and t: "t0 \<le> now" "now \<le> t1"
  shows "capability_credit c0 k0 rate t0 t1 (snd (check sha c k target now e))
    + (if pl_decision (plan sha e c k target now) = Allow \<and> c = c0 \<and> k = k0 \<and> \<not> exempt_for r target
       then UNITS_PER_TOKEN else 0) \<le> capability_credit c0 k0 rate t0 t1 e"
proof (cases "pl_decision (plan sha e c k target now) = Allow")
  case False
  then show ?thesis by (simp add: check_unfold Let_def capability_credit_def)
next
  case allow: True
  let ?K = "capability_key c0 k0" and ?chs = "pl_charges (plan sha e c k target now)"
  have pre: "engine_pre (advance now e)" using g by (simp add: governed_def engine_inv_pre)
  note ok = plan_charges_ok [OF allow]
  show ?thesis
  proof (cases "c = c0 \<and> k = k0 \<and> \<not> exempt_for r target")
    case False
    then have "bm_get (buckets (snd (check sha c k target now e))) ?K = bm_get (buckets e) ?K"
      using commit_bucket_other [OF pre ok no_touch_capability [OF g allow False], of now] allow
      by (simp add: check_unfold Let_def)
    with False show ?thesis by (auto simp: capability_credit_def)
  next
    case hit: True
    let ?ch = "\<lparr>ch_key = ?K, ch_kind = BucketCharge rate\<rparr>"
    let ?as = "approval_charges sha e r c k target now @ daily_charges r c k"
    let ?bs = "target_charges sha r c k target"
    let ?b = "bucket_or_full e ?K rate now"
    have r: "policy_rule (en_policy e) c k = Some r" using g hit by (simp add: governed_def)
    have chs: "?chs = ?as @ ?ch # ?bs"
      using plan_charges_rule [OF allow r] hit rate by (simp add: capability_charges_def)
    have tk: "target_key sha c k x \<noteq> ?K" for x
      using key_shapes(2) [of c0 k0] key_shapes(1) [of sha c k x] by metis
    have "\<forall>ch \<in> set (?as @ ?bs). \<not> touches_bucket ?K ch"
      using tk by (auto simp: touches_bucket_def approval_charges_def daily_charges_def target_charges_def
          split: option.splits if_splits)
    then have e': "map_option e_bucket (bm_get (buckets (snd (check sha c k target now e))) ?K)
        = Some (snd (bucket_take ?b rate now))"
      using commit_bucket_hit [OF pre _ _ refl, of ?as ?K rate ?bs now] ok allow
      by (simp add: check_unfold Let_def chs bucket_or_full_def)
    have "limited e ?K rate now = None"
      using allow r hit rate by (simp add: plan_Allow rates_left_def)
    moreover have "rate_ok rate"
      using g rate policy_rule_ok(3) by (fastforce simp: governed_def rule_ok_def)
    ultimately have "fst (bucket_take ?b rate now) = Inr ()" by (rule not_limited_token)
    then have "window_credit rate t0 t1 (snd (bucket_take ?b rate now)) + UNITS_PER_TOKEN
        \<le> window_credit rate t0 t1 ?b"
      using take_window [OF t, of rate ?b] by simp
    also have "\<dots> \<le> capability_credit c0 k0 rate t0 t1 e"
      using full_window [OF t, of rate]
      by (auto simp: capability_credit_def bucket_or_full_def split: option.split)
    finally have "window_credit rate t0 t1 (snd (bucket_take ?b rate now)) + UNITS_PER_TOKEN
        \<le> capability_credit c0 k0 rate t0 t1 e" .
    moreover have "capability_credit c0 k0 rate t0 t1 (snd (check sha c k target now e))
        = window_credit rate t0 t1 (snd (bucket_take ?b rate now))"
      unfolding capability_credit_def e' by simp
    ultimately show ?thesis using hit allow by simp
  qed
qed

interpretation capability_budget: spending "check_step sha" "uses_capability_bucket c0 k0 r" "within t0 t1"
    "\<lambda>e. governed c0 k0 r e \<and> r_rate r = Some rate" "capability_credit c0 k0 rate t0 t1" UNITS_PER_TOKEN
  for sha c0 k0 r rate t0 t1
proof (unfold_locales, goal_cases)
  case (1 s c)
  then show ?case by (cases c) (simp add: check_step_simps governed_check)
next
  case (2 s c)
  obtain c' k' target now where c: "c = (c', k', target, now)" by (cases c)
  with 2 capability_step [of c0 k0 r s rate t0 now t1 sha c' k' target] show ?case
    by (simp add: check_step_simps within_def uses_capability_bucket_def)
next
  case (3 s c)
  obtain c' k' target now where c: "c = (c', k', target, now)" by (cases c)
  with 3 capability_step [of c0 k0 r s rate t0 now t1 sha c' k' target] show ?case
    by (simp add: check_step_simps within_def)
qed


subsection \<open>The daily cap\<close>

definition same_day :: "nat \<Rightarrow> call \<Rightarrow> bool" where
  "same_day day = (\<lambda>(c, k, target, now). day_of now = day)"

definition is_call_of :: "str \<Rightarrow> str \<Rightarrow> call \<Rightarrow> bool" where
  "is_call_of c0 k0 = (\<lambda>(c, k, target, now). c = c0 \<and> k = k0)"

definition day_count :: "str \<Rightarrow> str \<Rightarrow> nat \<Rightarrow> engine \<Rightarrow> nat" where
  "day_count c0 k0 day e = (case bm_get (daily e) (daily_key c0 k0) of
     Some c \<Rightarrow> if dc_day c = day then dc_count c else 0 | None \<Rightarrow> 0)"

definition touches_daily :: "str \<Rightarrow> charge \<Rightarrow> bool" where
  "touches_daily key ch \<longleftrightarrow> ch_key ch = key \<and> ch_kind ch = DailyCharge"

lemma commit_charge_daily_other:
  "\<not> touches_daily key ch \<Longrightarrow> bm_get (daily (commit_charge now ch e)) key = bm_get (daily e) key"
  by (auto simp: commit_charge_def touches_daily_def bump_tick_def Let_def
      split: charge_kind.splits option.splits)

lemma fold_commit_daily_other:
  "\<forall>ch \<in> set chs. \<not> touches_daily key ch \<Longrightarrow>
     bm_get (daily (fold (commit_charge now) chs e)) key = bm_get (daily e) key"
  by (induction chs arbitrary: e) (simp_all add: commit_charge_daily_other)

lemma commit_daily: "daily (commit chs now e) = daily (fold (commit_charge now) chs e)"
  by (simp add: commit_def Let_def)

lemma commit_daily_hit:
  assumes "\<forall>ch \<in> set (as @ bs). \<not> touches_daily key ch"
  shows "bm_get (daily (commit (as @ \<lparr>ch_key = key, ch_kind = DailyCharge\<rparr> # bs) now e)) key
    = Some (bump (case bm_get (daily e) key of Some c \<Rightarrow> c | None \<Rightarrow> daily_new (day_of now)) now)"
proof -
  have "bm_get (daily (fold (commit_charge now) as e)) key = bm_get (daily e) key"
    using assms by (intro fold_commit_daily_other) simp
  moreover have "\<forall>ch \<in> set bs. \<not> touches_daily key ch" using assms by simp
  ultimately show ?thesis
    by (simp add: commit_daily fold_commit_daily_other commit_charge_def Let_def)
qed

lemma daily_key_shape: "daily_key c k \<noteq> capability_key c' k'" "daily_key c k \<noteq> target_key sha c' k' t"
  by (simp_all add: daily_key_def capability_key_def target_key_def lit_def)

lemma day_room:
  assumes "governed c0 k0 r e" "daily_cap r = Some cap"
    "pl_decision (plan sha e c0 k0 target now) = Allow"
  shows "day_count c0 k0 (day_of now) e < cap"
  using assms by (auto simp: governed_def plan_Allow daily_left_def day_count_def count_on_def
      split: option.splits)

lemma day_step:
  assumes g: "governed c0 k0 r e" and cap: "daily_cap r = Some cap" "cap \<le> u32_max"
  shows "day_count c0 k0 (day_of now) (snd (check sha c k target now e)) =
      day_count c0 k0 (day_of now) e +
        (if pl_decision (plan sha e c k target now) = Allow \<and> c = c0 \<and> k = k0 then 1 else 0)"
proof -
  have rule: "policy_rule (en_policy e) c0 k0 = Some r" using g by (simp add: governed_def)
  show "day_count c0 k0 (day_of now) (snd (check sha c k target now e)) =
      day_count c0 k0 (day_of now) e +
        (if pl_decision (plan sha e c k target now) = Allow \<and> c = c0 \<and> k = k0 then 1 else 0)"
  proof (cases "pl_decision (plan sha e c k target now) = Allow")
    case False
    then show ?thesis by (simp add: check_unfold Let_def day_count_def)
  next
    case allow: True
    let ?K = "daily_key c0 k0" and ?chs = "pl_charges (plan sha e c k target now)"
    show ?thesis
    proof (cases "c = c0 \<and> k = k0")
      case False
      have "\<forall>ch \<in> set ?chs. \<not> touches_daily ?K ch"
      proof (cases "policy_rule (en_policy e) c k")
        case None
        then show ?thesis by (simp add: plan_charges_no_rule)
      next
        case (Some r')
        have n: "name_ok c" "name_ok c0"
          using g Some policy_rule_ok(1) by (auto simp: governed_def)
        show ?thesis
          unfolding plan_charges_rule [OF allow Some]
          using False daily_key_inj [OF n, of k k0]
          by (auto simp: touches_daily_def approval_charges_def daily_charges_def
              capability_charges_def target_charges_def split: option.splits if_splits)
      qed
      then have "bm_get (daily (snd (check sha c k target now e))) ?K = bm_get (daily e) ?K"
        using allow by (simp add: check_unfold Let_def commit_daily fold_commit_daily_other)
      with False show ?thesis by (auto simp: day_count_def)
    next
      case True
      let ?as = "approval_charges sha e r c0 k0 target now"
      let ?bs = "capability_charges r c0 k0 target @ target_charges sha r c0 k0 target"
      let ?old = "case bm_get (daily e) ?K of Some c \<Rightarrow> c | None \<Rightarrow> daily_new (day_of now)"
      have "?chs = ?as @ \<lparr>ch_key = ?K, ch_kind = DailyCharge\<rparr> # ?bs"
        using plan_charges_rule [of sha e c0 k0 target now r] allow True rule cap
        by (simp add: daily_charges_def)
      moreover have "\<forall>ch \<in> set (?as @ ?bs). \<not> touches_daily ?K ch"
        by (auto simp: touches_daily_def approval_charges_def capability_charges_def target_charges_def
            split: option.splits if_splits)
      ultimately have new: "bm_get (daily (snd (check sha c k target now e))) ?K = Some (bump ?old now)"
        using commit_daily_hit [of ?as ?bs ?K now "advance now e"] allow True
        by (simp add: check_unfold Let_def)
      have "day_count c0 k0 (day_of now) (snd (check sha c k target now e)) = count_on (bump ?old now) now"
        by (simp add: day_count_def new count_on_def)
      also have "\<dots> = sat_add32 (count_on ?old now) 1" by (rule count_on_bump)
      also have "count_on ?old now = day_count c0 k0 (day_of now) e"
        by (simp add: day_count_def count_on_def daily_new_def split: option.split)
      finally show ?thesis using day_room [OF g cap(1), of sha target now] allow True cap by (simp add: sat_add32_def)
    qed
  qed
qed

interpretation daily_budget: spending "check_step sha" "is_call_of c0 k0" "same_day day"
    "\<lambda>e. governed c0 k0 r e \<and> daily_cap r = Some cap \<and> cap \<le> u32_max"
    "\<lambda>e. cap - day_count c0 k0 day e" 1
  for sha c0 k0 r cap day
proof (unfold_locales, goal_cases)
  case (1 s c)
  then show ?case by (cases c) (simp add: check_step_simps governed_check)
next
  case (2 s c)
  obtain c' k' target now where c: "c = (c', k', target, now)" by (cases c)
  with 2 day_step [of c0 k0 r s cap now sha c' k' target]
    day_room [of c0 k0 r s cap sha target now] show ?case
    by (auto simp: check_step_simps same_day_def is_call_of_def)
next
  case (3 s c)
  obtain c' k' target now where c: "c = (c', k', target, now)" by (cases c)
  with 3 day_step [of c0 k0 r s cap now sha c' k' target] show ?case
    by (auto simp: check_step_simps same_day_def)
qed


subsection \<open>Approvals\<close>

definition approval_prefix :: "str \<Rightarrow> str \<Rightarrow> str" where
  "approval_prefix c k = lit ''a'' @ [SEP] @ c @ [SEP] @ k @ [SEP]"

definition approval_uses :: "str \<Rightarrow> str \<Rightarrow> (str, approval_state) btree \<Rightarrow> nat" where
  "approval_uses c k m = (\<Sum>x\<leftarrow>m. if prefix (approval_prefix c k) (fst x) then uses (snd x) else 0)"

lemma approval_key_prefix [simp]: "prefix (approval_prefix c k) (approval_key sha c k target)"
  by (simp add: approval_prefix_def approval_key_def)

lemma commit_charge_approvals:
  assumes "bm_wf (approvals e)"
  shows "approval_uses c k (approvals (commit_charge now ch e)) \<le> approval_uses c k (approvals e)"
proof (cases "ch_kind ch")
  case ApprovalCharge
  show ?thesis
  proof (cases "bm_get (approvals e) (ch_key ch)")
    case None
    with ApprovalCharge show ?thesis by (simp add: commit_charge_def)
  next
    case (Some a)
    with ApprovalCharge show ?thesis
      using sum_bm_insert [OF assms Some, of "\<lambda>x. if prefix (approval_prefix c k) (fst x) then uses (snd x) else 0"
        "a\<lparr>uses := uses a - 1\<rparr>"]
      by (simp add: commit_charge_def approval_uses_def split: if_splits)
  qed
qed (simp_all add: commit_charge_def bump_tick_def Let_def)

lemma fold_commit_approvals:
  "engine_pre e \<Longrightarrow> \<forall>ch \<in> set chs. charge_ok ch \<Longrightarrow>
     approval_uses c k (approvals (fold (commit_charge now) chs e)) \<le> approval_uses c k (approvals e)"
proof (induction chs arbitrary: e)
  case (Cons ch chs)
  have "bm_wf (approvals e)" using Cons.prems(1) by (simp add: engine_pre_def)
  then have "approval_uses c k (approvals (commit_charge now ch e)) \<le> approval_uses c k (approvals e)"
    by (rule commit_charge_approvals)
  moreover have "engine_pre (commit_charge now ch e)"
    using Cons.prems by (simp add: commit_charge_pre)
  ultimately show ?case using Cons.IH [of "commit_charge now ch e"] Cons.prems by simp
qed simp

lemma commit_approvals_le:
  assumes "engine_pre e" "\<forall>ch \<in> set chs. charge_ok ch"
  shows "approval_uses c k (approvals (commit chs now e)) \<le> approval_uses c k (approvals e)"
proof -
  have "approval_uses c k (approvals (commit chs now e))
      \<le> approval_uses c k (approvals (fold (commit_charge now) chs e))"
    unfolding commit_def Let_def evict_frame approval_uses_def by (simp add: sum_filter_le)
  then show ?thesis using fold_commit_approvals [OF assms, of c k now] by linarith
qed

lemma commit_approvals_pay:
  assumes "engine_pre e" "\<forall>ch \<in> set (\<lparr>ch_key = key, ch_kind = ApprovalCharge\<rparr> # chs). charge_ok ch"
    "prefix (approval_prefix c k) key" "approval_valid e key now"
  shows "approval_uses c k (approvals (commit (\<lparr>ch_key = key, ch_kind = ApprovalCharge\<rparr> # chs) now e)) + 1
    \<le> approval_uses c k (approvals e)"
proof -
  let ?ch = "\<lparr>ch_key = key, ch_kind = ApprovalCharge\<rparr>"
  let ?e = "commit_charge now ?ch e"
  obtain a where a: "bm_get (approvals e) key = Some a" "0 < uses a"
    using assms(4) by (auto simp: approval_valid_def valid_at_def split: option.splits)
  have "bm_wf (approvals e)" using assms(1) by (simp add: engine_pre_def)
  then have "approval_uses c k (approvals ?e) + 1 \<le> approval_uses c k (approvals e)"
    using sum_bm_insert [OF _ a(1), of "\<lambda>x. if prefix (approval_prefix c k) (fst x) then uses (snd x) else 0"
        "a\<lparr>uses := uses a - 1\<rparr>"] a assms(3)
    by (simp add: commit_charge_def approval_uses_def)
  moreover have "engine_pre ?e" using assms(1,2) by (simp add: commit_charge_pre)
  then have "approval_uses c k (approvals (commit chs now ?e)) \<le> approval_uses c k (approvals ?e)"
    using assms(2) by (intro commit_approvals_le) simp_all
  moreover have "commit (?ch # chs) now e = commit chs now ?e" by (simp add: commit_def)
  ultimately show ?thesis by simp
qed

lemma approval_step:
  assumes g: "governed c0 k0 r e" and req: "require_approval r"
  shows "approval_uses c0 k0 (approvals (snd (check sha c k target now e))) +
      (if pl_decision (plan sha e c k target now) = Allow \<and> c = c0 \<and> k = k0 then 1 else 0)
      \<le> approval_uses c0 k0 (approvals e)"
proof (cases "pl_decision (plan sha e c k target now) = Allow")
  case False
  then show ?thesis by (simp add: check_unfold Let_def)
next
  case allow: True
  have pre: "engine_pre (advance now e)" using g by (simp add: governed_def engine_inv_pre)
  note ok = plan_charges_ok [OF allow]
  show ?thesis
  proof (cases "c = c0 \<and> k = k0")
    case False
    with allow commit_approvals_le [OF pre ok, of c0 k0 now] show ?thesis
      by (auto simp: check_unfold Let_def)
  next
    case True
    then have rule: "policy_rule (en_policy e) c k = Some r" using g by (simp add: governed_def)
    define key where "key = (if approval_valid e (approval_key sha c k target) now
      then approval_key sha c k target else approval_key sha c k None)"
    obtain chs where chs: "pl_charges (plan sha e c k target now)
        = \<lparr>ch_key = key, ch_kind = ApprovalCharge\<rparr> # chs"
      using plan_charges_rule [OF allow rule] req by (simp add: approval_charges_def key_def)
    have "approval_valid (advance now e) key now"
      using allow rule req by (auto simp: plan_Allow approved_def approval_valid_def key_def)
    moreover have "prefix (approval_prefix c0 k0) key" using True by (simp add: key_def)
    ultimately show ?thesis
      using commit_approvals_pay [OF pre, of key chs c0 k0 now] ok chs allow True
      by (simp add: check_unfold Let_def)
  qed
qed

interpretation approval_budget: spending "check_step sha" "is_call_of c0 k0" "\<lambda>_. True"
    "\<lambda>e. governed c0 k0 r e \<and> require_approval r"
    "\<lambda>e. approval_uses c0 k0 (approvals e)" 1
  for sha c0 k0 r
proof (unfold_locales, goal_cases)
  case (1 s c)
  then show ?case by (cases c) (simp add: check_step_simps governed_check)
next
  case (2 s c)
  obtain c' k' target now where c: "c = (c', k', target, now)" by (cases c)
  with 2 approval_step [of c0 k0 r s sha c' k' target now] show ?case
    by (simp add: check_step_simps is_call_of_def)
next
  case (3 s c)
  obtain c' k' target now where c: "c = (c', k', target, now)" by (cases c)
  with 3 approval_step [of c0 k0 r s sha c' k' target now] show ?case
    by (simp add: check_step_simps)
qed

end
