(* ===== verification/GrantState.thy ===== *)
theory GrantState
  imports GrantBudgets
begin

text \<open>
  The audit trail of \<open>enforce\<close>, stated once over the sink interface; refusals cost nothing; and a
  snapshot carries every budget to the engine it is restored into.
\<close>

section \<open>The audit trail\<close>

context audit_sink begin

text \<open>Whatever the sink does, \<open>enforce\<close> either has its record last in the sink or keeps the error.\<close>

lemma enforce_recorded:
  assumes "ok sink" "enforce put sha c k target now e sink = (d, e', sink')"
    "is_audited (en_policy e) c k \<or> pl_decision (plan sha e c k target now) \<noteq> Allow"
  shows "newest sink' = Some (record_new sha now c k target
      (pl_decision (plan sha e c k target now)) (en_target_mode e)) \<and>
        d = pl_decision (plan sha e c k target now) \<or>
    newest sink' = newest sink \<and> (is_audited (en_policy e) c k \<and> fail_closed e \<longrightarrow> d = Deny AuditUnavailable) \<and>
        (d \<noteq> Allow \<longrightarrow> (\<exists>err. audit_errors e' = audit_errors e @ [err]))"
proof -
  let ?rec = "record_new sha now c k target (pl_decision (plan sha e c k target now)) (en_target_mode e)"
  obtain res s' where w: "put sink ?rec = (res, s')" by fastforce
  show ?thesis
  proof (cases res)
    case (Inr u)
    with w put_newest [OF assms(1), of ?rec] assms(2,3) show ?thesis by (auto simp: enforce_def Let_def)
  next
    case (Inl err)
    with w put_failed [OF assms(1), of ?rec err] assms(2,3) show ?thesis
      by (auto simp: enforce_def Let_def split: if_splits)
  qed
qed

lemma allowed_recorded:
  assumes "ok sink" "enforce put sha c k target now e sink = (Allow, e', sink')"
    "is_audited (en_policy e) c k" "fail_closed e"
  shows "newest sink' = Some (record_new sha now c k target Allow (en_target_mode e))"
  using enforce_recorded [OF assms(1,2)] assms(3,4) by auto

lemma enforce_keeps_sink: "ok sink \<Longrightarrow> ok (snd (snd (enforce put sha c k target now e sink)))"
  using put_ok [of sink] by (auto simp: enforce_def Let_def case_prod_beta split: sum.split)

end

section \<open>Refusals are free\<close>

text \<open>The state a plan reads.\<close>

definition same_budgets :: "engine \<Rightarrow> engine \<Rightarrow> bool" where
  "same_budgets e e' \<longleftrightarrow> en_policy e = en_policy e' \<and> daily e = daily e' \<and> approvals e = approvals e' \<and>
     map (\<lambda>(k, x). (k, e_bucket x)) (buckets e) = map (\<lambda>(k, x). (k, e_bucket x)) (buckets e')"

lemma map_of_map_snd: "map_of (map (\<lambda>(k, x). (k, f x)) m) key = map_option f (map_of m key)"
  by (induction m) auto

lemma same_budgets_plan:
  assumes "same_budgets e e'"
  shows "plan sha e c k target now = plan sha e' c k target now"
proof (rule plan_cong)
  fix key
  show "map_option e_bucket (bm_get (buckets e) key) = map_option e_bucket (bm_get (buckets e') key)"
    using assms arg_cong [of _ _ "\<lambda>m. map_of m key"] unfolding same_budgets_def
    by (simp only: map_of_map_snd [symmetric])
qed (use assms in \<open>simp_all add: same_budgets_def\<close>)

lemma check_refused: "fst (check sha c k target now e) \<noteq> Allow \<Longrightarrow>
    snd (check sha c k target now e) = advance now e"
  by (simp add: check_unfold Let_def)

lemma enforce_refused:
  assumes "enforce put sha c k target now e sink = (d, e', s')" "d \<noteq> Allow"
  shows "\<exists>x. e' = advance now e\<lparr>audit_errors := x\<rparr>"
  using assms by (cases rule: enforce_cases [of put sha c k target now e sink]) auto

section \<open>Snapshots\<close>

lemma restore_buckets_get:
  "restore_buckets bs t m = Inr (m', t') \<Longrightarrow> distinct (map fst bs) \<Longrightarrow>
     map_option e_bucket (bm_get m' key) =
       (case map_of bs key of Some b \<Rightarrow> Some b | None \<Rightarrow> map_option e_bucket (bm_get m key))"
proof (induction bs t m rule: restore_buckets.induct)
  case (2 k b rest t m)
  then have "map_of rest k = None" by (auto simp: map_of_eq_None_iff)
  with 2 show ?case by (auto simp: Let_def split: if_splits option.splits)
qed simp

lemma restore_buckets_total:
  "\<forall>x \<in> set bs. is_bucket_key (fst x) \<Longrightarrow> \<exists>m' t'. restore_buckets bs t m = Inr (m', t')"
  by (induction bs t m rule: restore_buckets.induct) (auto simp: is_bucket_key_def Let_def)

lemma restore_buckets_snapshot:
  assumes "bm_wf m" "keys_all is_bucket_key m"
  obtains m' t' where "restore_buckets (map (\<lambda>(k, x). (k, e_bucket x)) m) t [] = Inr (m', t')"
    "map (\<lambda>(k, x). (k, e_bucket x)) m' = map (\<lambda>(k, x). (k, e_bucket x)) m" "bm_wf m'"
proof -
  let ?bs = "map (\<lambda>(k, x). (k, e_bucket x)) m"
  have wf: "bm_wf ?bs" using assms(1) by simp
  obtain m' t' where r: "restore_buckets ?bs t [] = Inr (m', t')"
    using restore_buckets_total [of ?bs t "[]"] assms(2) by (fastforce simp: keys_all_def)
  have wf': "bm_wf m'" using restore_buckets_ok [OF r] by simp
  have "map (\<lambda>(k, x). (k, e_bucket x)) m' = ?bs"
  proof (rule bm_ext [OF _ wf], goal_cases)
    case 2
    show ?case
      using restore_buckets_get [OF r bm_wf_distinct [OF wf]]
      by (intro ext) (simp add: map_of_map_snd split: option.splits)
  qed (use wf' in simp)
  with r wf' show ?thesis by (intro that)
qed

lemma target_count_map:
  "map (\<lambda>(k, x). (k, e_bucket x)) (buckets e) = map (\<lambda>(k, x). (k, e_bucket x)) (buckets e') \<Longrightarrow>
     target_bucket_count e = target_bucket_count e'"
proof -
  have "length (filter (\<lambda>x. is_target_key (fst x)) m)
      = length (filter (\<lambda>x. is_target_key (fst x)) (map (\<lambda>(k, x). (k, e_bucket x)) m))" for m :: "(str \<times> entry) list"
    by (induction m) auto
  then show "map (\<lambda>(k, x). (k, e_bucket x)) (buckets e) = map (\<lambda>(k, x). (k, e_bucket x)) (buckets e') \<Longrightarrow>
     target_bucket_count e = target_bucket_count e'"
    by (metis target_bucket_count_def)
qed

definition day_zero_free :: "engine \<Rightarrow> bool" where
  "day_zero_free e \<longleftrightarrow> (\<forall>x \<in> set (daily e). dc_day (snd x) = 0 \<longrightarrow> dc_count (snd x) = 0)"

lemma restore_snapshot:
  assumes "engine_inv e" "engine_inv e0" "max_target_buckets e0 = max_target_buckets e"
    "en_policy e0 = en_policy e" "day_zero_free e"
    "length (buckets e) \<le> max (sat_mul64 (max_target_buckets e) 2) 64"
  shows "fst (restore (snapshot e) e0) = Inr ()" "same_budgets (snd (restore (snapshot e) e0)) e"
    "last_now_ms (snd (restore (snapshot e) e0)) = max (last_now_ms e0) (last_now_ms e)"
proof -
  obtain m' t' where r: "restore_buckets (map (\<lambda>(k, x). (k, e_bucket x)) (buckets e)) 0 [] = Inr (m', t')"
    and m': "map (\<lambda>(k, x). (k, e_bucket x)) m' = map (\<lambda>(k, x). (k, e_bucket x)) (buckets e)"
    using assms(1) by (auto simp: engine_inv_def intro: restore_buckets_snapshot [of "buckets e" 0])
  let ?e = "e0\<lparr>buckets := m', daily := daily e, approvals := approvals e, tick := t',
      last_now_ms := max (last_now_ms e0) (last_now_ms e)\<rparr>"
  have d: "try_all (\<lambda>(key, c). if \<not> prefix (lit ''d'' @ [SEP]) key then Inl (BadDailyKey key)
      else if dc_day c = 0 \<and> dc_count c > 0 then Inl (CountOnDayZero key) else Inr ()) (daily e) = Inr ()"
    using assms(1,5) by (fastforce simp: try_all_Inr engine_inv_def keys_all_def shaped_def day_zero_free_def)
  have a: "try_all (\<lambda>(key, _). if \<not> prefix (lit ''a'' @ [SEP]) key then Inl (BadApprovalKey key)
      else Inr ()) (approvals e) = Inr ()"
    using assms(1) by (auto simp: try_all_Inr engine_inv_def keys_all_def shaped_def)
  have "\<not> length (buckets e) > max (sat_mul64 (max_target_buckets e0) 2) 64" using assms(3,6) by (simp only: not_less)
  then have res: "restore (snapshot e) e0 = (Inr (), evict_targets ?e)"
    by (auto simp: restore_def snapshot_def r d a le_max_iff_disj)
  have "target_bucket_count ?e \<le> max_target_buckets ?e"
    using target_count_map [of ?e e] m' assms(1,3) by (simp add: engine_inv_def)
  then have "evict_targets ?e = ?e"
    by (simp add: evict_targets_def Let_def target_bucket_count_def)
  with res m' assms(4) show "fst (restore (snapshot e) e0) = Inr ()"
    "same_budgets (snd (restore (snapshot e) e0)) e"
    "last_now_ms (snd (restore (snapshot e) e0)) = max (last_now_ms e0) (last_now_ms e)"
    by (simp_all add: same_budgets_def)
qed

lemma restore_too_many:
  "max (sat_mul64 (max_target_buckets e0) 2) 64 < length (buckets e) \<Longrightarrow>
     restore (snapshot e) e0 = (Inl (TooManyBuckets (length (buckets e))), e0)"
  by (simp add: restore_def snapshot_def)

lemma restore_failed: "fst (restore s e) = Inl err \<Longrightarrow> snd (restore s e) = e"
  by (auto simp: restore_def split: if_splits sum.splits prod.splits)

end
