(* ===== verification/GrantProperties.thy ===== *)
theory GrantProperties
  imports GrantState
begin

text \<open>
  The properties of the grant policy crate, over every engine that its public operations can reach.
  \<open>put\<close> is any audit sink, \<open>sha\<close> any hash.
\<close>

inductive reachable :: "'s sink_write \<Rightarrow> (bytes \<Rightarrow> bytes) \<Rightarrow> engine \<Rightarrow> bool" for put sha where
  reach_new: "reachable put sha (engine_new p)"
| reach_check: "reachable put sha e \<Longrightarrow> reachable put sha (snd (check sha c k target now e))"
| reach_enforce: "reachable put sha e \<Longrightarrow>
    reachable put sha (fst (snd (enforce put sha c k target now e sink)))"
| reach_approve: "reachable put sha e \<Longrightarrow> reachable put sha (snd (approve sha c k target now ttl e))"
| reach_revoke: "reachable put sha e \<Longrightarrow> reachable put sha (revoke_approvals c k e)"
| reach_max: "reachable put sha e \<Longrightarrow> reachable put sha (set_max_target_buckets m e)"
| reach_policy: "reachable put sha e \<Longrightarrow> reachable put sha (snd (set_policy e p))"
| reach_clear: "reachable put sha e \<Longrightarrow> reachable put sha (clear_state e)"
| reach_errors: "reachable put sha e \<Longrightarrow> reachable put sha (snd (take_audit_errors e))"
| reach_mode: "reachable put sha e \<Longrightarrow> reachable put sha (e\<lparr>en_target_mode := mode, fail_closed := b\<rparr>)"
| reach_restore: "reachable put sha e \<Longrightarrow> bm_wf (ss_daily s) \<Longrightarrow> bm_wf (ss_approvals s) \<Longrightarrow>
    reachable put sha (snd (restore s e))"

lemma engine_inv_mode [simp]: "engine_inv (e\<lparr>en_target_mode := mode, fail_closed := b\<rparr>) = engine_inv e"
  by (simp add: engine_inv_def target_bucket_count_def)

text \<open>C1.  Whatever the callers and the sink do, the engine's four maps stay well formed (each entry
  under a key of its own kind) and the number of per-target buckets stays within its bound.\<close>

theorem engine_invariant: "reachable put sha e \<Longrightarrow> engine_inv e"
  by (induction rule: reachable.induct)
     (simp_all add: engine_inv_new check_inv enforce_inv approve_inv revoke_inv set_max_inv
        set_policy_inv clear_inv restore_inv take_audit_errors_def)

theorem engine_invariant_witness:
  "engine_inv (snd (check (\<lambda>b. b) (lit ''c'') (lit ''k'') None 5 (engine_new policy_empty)))"
  by (rule engine_invariant [of memory_write "\<lambda>b. b"]) (intro reach_check reach_new)


text \<open>C3.  The capability rate is a bound over every window, in whatever order the clock readings come:
  between two instants the engine allows at most the burst and what the rate refills in between.\<close>

theorem capability_rate_bound:
  assumes "governed c0 k0 r e" "r_rate r = Some rate" "\<forall>x \<in> set calls. within t0 t1 x"
  shows "granted (check_step sha) (uses_capability_bucket c0 k0 r) calls e * UNITS_PER_TOKEN
    \<le> capacity_units rate + per_minute rate * (t1 - t0)"
proof -
  have "granted (check_step sha) (uses_capability_bucket c0 k0 r) calls e * UNITS_PER_TOKEN
      \<le> capability_credit c0 k0 rate t0 t1 e"
    using assms by (intro capability_budget.granted_bounded) simp_all
  then show ?thesis using capability_credit_le by (rule le_trans)
qed

text \<open>C4.  On one UTC day the engine allows at most \<open>daily_cap\<close> calls of a capped capability.\<close>

theorem daily_cap_bound:
  assumes "governed c0 k0 r e" "daily_cap r = Some cap" "cap \<le> u32_max"
    "\<forall>x \<in> set calls. same_day day x"
  shows "granted (check_step sha) (is_call_of c0 k0) calls e \<le> cap"
proof -
  have "granted (check_step sha) (is_call_of c0 k0) calls e * 1 \<le> cap - day_count c0 k0 day e"
    using assms by (intro daily_budget.granted_bounded) simp_all
  then show ?thesis by linarith
qed

text \<open>A capability that needs approval is allowed at most as often as uses were approved for it,
  at any time and whatever targets the calls name.\<close>

theorem approvals_bound:
  assumes "governed c0 k0 r e" "require_approval r"
  shows "granted (check_step sha) (is_call_of c0 k0) calls e \<le> approval_uses c0 k0 (approvals e)"
proof -
  have "granted (check_step sha) (is_call_of c0 k0) calls e * 1 \<le> approval_uses c0 k0 (approvals e)"
    using assms by (intro approval_budget.granted_bounded) simp_all
  then show ?thesis by simp
qed

section \<open>A concrete policy\<close>

text \<open>One component, \<open>wa\<close>, with one rated, capped and one approval-only capability.\<close>

definition sample_rate :: rate_limit where
  "sample_rate = \<lparr>per_minute = 6, burst = Some 1\<rparr>"

definition sample_rule :: rule where
  "sample_rule = rule_default\<lparr>r_rate := Some sample_rate\<rparr>"

definition sample_capped :: rule where
  "sample_capped = rule_default\<lparr>daily_cap := Some 1\<rparr>"

definition sample_approved :: rule where
  "sample_approved = rule_default\<lparr>require_approval := True\<rparr>"

definition sample_policy :: policy_set where
  "sample_policy = policy_empty\<lparr>ps_components := [(lit ''wa'', \<lparr>cp_note = None,
     cp_capabilities = [(lit ''cap'', sample_capped), (lit ''ok'', sample_approved),
       (lit ''send'', sample_rule)]\<rparr>)]\<rparr>"

abbreviation sample :: engine where
  "sample \<equiv> engine_new sample_policy"

lemma sample_valid: "validate sample_policy = Inr ()"
  by code_simp

lemma sample_governed:
  "governed (lit ''wa'') (lit ''send'') sample_rule sample"
  "governed (lit ''wa'') (lit ''cap'') sample_capped sample"
  "governed (lit ''wa'') (lit ''ok'') sample_approved sample"
  unfolding governed_def
  by (intro conjI engine_inv_new, simp add: engine_new_def sample_valid, code_simp)+

lemma sample_rule_lookup:
  "policy_rule sample_policy (lit ''wa'') (lit ''cap'') = Some sample_capped"
  by code_simp

theorem capability_rate_bound_witness:
  "granted (check_step (\<lambda>b. b)) (uses_capability_bucket (lit ''wa'') (lit ''send'') sample_rule)
     [(lit ''wa'', lit ''send'', None, 100), (lit ''wa'', lit ''send'', None, 90)] sample
     * UNITS_PER_TOKEN \<le> capacity_units sample_rate + 6 * (100 - 90)"
  using capability_rate_bound [OF sample_governed(1), of sample_rate
      "[(lit ''wa'', lit ''send'', None, 100), (lit ''wa'', lit ''send'', None, 90)]" 90 100 "\<lambda>b. b"]
  by (simp add: sample_rule_def sample_rate_def within_def)

theorem daily_cap_bound_witness:
  "granted (check_step (\<lambda>b. b)) (is_call_of (lit ''wa'') (lit ''cap''))
     [(lit ''wa'', lit ''cap'', None, 100), (lit ''wa'', lit ''cap'', None, 90)] sample \<le> 1"
  using daily_cap_bound [OF sample_governed(2), of 1
      "[(lit ''wa'', lit ''cap'', None, 100), (lit ''wa'', lit ''cap'', None, 90)]" 0 "\<lambda>b. b"]
  by (simp add: sample_capped_def same_day_def day_of_def DAY_MS_def)

lemma governed_approve: "governed c0 k0 r e \<Longrightarrow> governed c0 k0 r (snd (approve sha c k target now ttl e))"
  by (simp add: governed_def approve_inv) (simp add: approve_def Let_def)

theorem approvals_bound_witness:
  "granted (check_step (\<lambda>b. b)) (is_call_of (lit ''wa'') (lit ''ok''))
     [(lit ''wa'', lit ''ok'', None, 100), (lit ''wa'', lit ''ok'', Some (lit ''x''), 100)]
     (snd (approve (\<lambda>b. b) (lit ''wa'') (lit ''ok'') None 50 None sample)) \<le> 1"
proof -
  have "approval_uses (lit ''wa'') (lit ''ok'')
      (approvals (snd (approve (\<lambda>b. b) (lit ''wa'') (lit ''ok'') None 50 None sample))) = 1"
    by (simp add: approve_def Let_def engine_new_def approval_uses_def sat_add32_def)
  then show ?thesis
    using approvals_bound [OF governed_approve [OF sample_governed(3)], of "\<lambda>b. b"
      "[(lit ''wa'', lit ''ok'', None, 100), (lit ''wa'', lit ''ok'', Some (lit ''x''), 100)]" "\<lambda>b. b"
      "lit ''wa''" "lit ''ok''" None 50 None]
    by (simp add: sample_approved_def)
qed

text \<open>The bound of \<open>daily_cap_bound\<close> is per reading of the clock.  A clock that steps back over midnight
  and forward again finds the counter reset: with a cap of one, the same day is granted twice.\<close>

theorem daily_cap_clock_back:
  "granted (check_step (\<lambda>b. b)) (\<lambda>x. is_call_of (lit ''wa'') (lit ''cap'') x \<and> same_day 1 x)
     [(lit ''wa'', lit ''cap'', None, DAY_MS), (lit ''wa'', lit ''cap'', None, DAY_MS - 1),
      (lit ''wa'', lit ''cap'', None, DAY_MS + 1)] sample = 2"
  by (simp add: check_step_def check_def plan_def engine_new_def sample_rule_lookup advance_def Let_def
      sample_capped_def rule_default_def plan_approval_def plan_daily_def plan_rates_def plan_target_def
      commit_def commit_charge_def daily_new_def bump_def count_on_def day_of_def DAY_MS_def
      evict_targets_def refuse_def is_call_of_def same_day_def)

section \<open>Audit, refusals, snapshots\<close>

text \<open>C5.  With \<open>fail_closed\<close> set, a sensitive call is never allowed unrecorded, whatever the sink does:
  an allowed call has its record last in the sink, and when the sink refuses the record the call
  is denied, nothing is charged, and the error is kept for the operator.\<close>

theorem audited_call_recorded:
  assumes "audit_sink put newest ok" "ok sink" "is_audited (en_policy e) c k" "fail_closed e"
    "enforce put sha c k target now e sink = (d, e', sink')"
  shows "(d = Allow \<longrightarrow> newest sink' = Some (record_new sha now c k target Allow (en_target_mode e))) \<and>
    (\<forall>err. fst (put sink (record_new sha now c k target (peek sha e c k target now) (en_target_mode e))) = Inl err
       \<longrightarrow> d = Deny AuditUnavailable \<and> e' = (advance now e)\<lparr>audit_errors := audit_errors e @ [err]\<rparr>)"
proof (intro conjI impI allI)
  show "newest sink' = Some (record_new sha now c k target Allow (en_target_mode e))" if "d = Allow"
    using audit_sink.allowed_recorded [OF assms(1,2)] assms(3-5) that by metis
next
  fix err
  let ?r = "record_new sha now c k target (peek sha e c k target now) (en_target_mode e)"
  assume "fst (put sink ?r) = Inl err"
  then show "d = Deny AuditUnavailable" "e' = (advance now e)\<lparr>audit_errors := audit_errors e @ [err]\<rparr>"
    using assms(3-5) by (auto simp: enforce_def peek_def Let_def case_prod_beta split: sum.splits if_splits)
qed

theorem audited_call_recorded_witness:
  "memory_newest (snd (snd (enforce memory_write (\<lambda>b. b) (lit ''wa'') (lit ''kv.write'') None 7
     (engine_new (policy_empty\<lparr>ps_components := [(lit ''wa'', \<lparr>cp_note = None,
        cp_capabilities = [(lit ''kv.write'', rule_default)]\<rparr>)]\<rparr>)) memory_default)))
   = Some (record_new (\<lambda>b. b) 7 (lit ''wa'') (lit ''kv.write'') None Allow Digest)"
proof -
  let ?e = "engine_new (policy_empty\<lparr>ps_components := [(lit ''wa'', \<lparr>cp_note = None,
        cp_capabilities = [(lit ''kv.write'', rule_default)]\<rparr>)]\<rparr>)"
  obtain d e' s' where en: "enforce memory_write (\<lambda>b. b) (lit ''wa'') (lit ''kv.write'') None 7 ?e memory_default
      = (d, e', s')" by (metis prod_cases3)
  have r: "policy_rule (en_policy ?e) (lit ''wa'') (lit ''kv.write'') = Some rule_default" by code_simp
  have a: "is_audited (en_policy ?e) (lit ''wa'') (lit ''kv.write'')" by code_simp
  have "peek (\<lambda>b. b) ?e (lit ''wa'') (lit ''kv.write'') None 7 = Allow"
    using r by (simp add: peek_def plan_def rule_default_def plan_approval_def plan_daily_def plan_rates_def
        plan_target_def)
  then have "d = Allow"
    using en a by (simp add: enforce_def peek_def Let_def memory_write_def split: if_splits)
  moreover have "fail_closed ?e" "en_target_mode ?e = Digest" by (simp_all add: engine_new_def)
  ultimately show ?thesis
    using audited_call_recorded [OF memory.audit_sink_axioms _ a _ en] en by (simp add: memory_default_def)
qed

text \<open>A refusal costs nothing: after any refused call, charged by \<open>check\<close> or by \<open>enforce\<close> with any
  sink, every later call gets the answer it would have got before.\<close>

theorem refusal_is_free:
  "(fst (check sha c k target now e) \<noteq> Allow \<longrightarrow>
      peek sha (snd (check sha c k target now e)) c' k' target' now' = peek sha e c' k' target' now') \<and>
   (fst (enforce put sha c k target now e sink) \<noteq> Allow \<longrightarrow>
      peek sha (fst (snd (enforce put sha c k target now e sink))) c' k' target' now'
        = peek sha e c' k' target' now')"
proof (intro conjI impI)
  assume "fst (check sha c k target now e) \<noteq> Allow"
  then show "peek sha (snd (check sha c k target now e)) c' k' target' now' = peek sha e c' k' target' now'"
    by (simp add: check_refused peek_def)
next
  assume d: "fst (enforce put sha c k target now e sink) \<noteq> Allow"
  obtain x where "fst (snd (enforce put sha c k target now e sink)) = advance now e\<lparr>audit_errors := x\<rparr>"
    using enforce_refused [OF _ d] by (metis prod.collapse)
  moreover have "plan sha (advance now e\<lparr>audit_errors := x\<rparr>) c' k' target' now' = plan sha e c' k' target' now'"
    by (rule plan_cong) simp_all
  ultimately show "peek sha (fst (snd (enforce put sha c k target now e sink))) c' k' target' now'
      = peek sha e c' k' target' now'"
    by (simp add: peek_def)
qed

theorem refusal_is_free_witness:
  "peek (\<lambda>b. b) (snd (check (\<lambda>b. b) (lit ''wa'') (lit ''net.dial'') None 7 sample)) (lit ''wa'') (lit ''cap'') None 8
     = peek (\<lambda>b. b) sample (lit ''wa'') (lit ''cap'') None 8"
proof -
  have "policy_rule (en_policy sample) (lit ''wa'') (lit ''net.dial'') = None"
    "is_sensitive (en_policy sample) (lit ''wa'') (lit ''net.dial'')" by code_simp+
  then have "fst (check (\<lambda>b. b) (lit ''wa'') (lit ''net.dial'') None 7 sample) \<noteq> Allow"
    by (simp add: plan_def refuse_def)
  then show ?thesis by (rule refusal_is_free [THEN conjunct1, THEN mp])
qed



text \<open>The hypothesis of \<open>snapshot_roundtrip\<close> on the number of buckets is needed: an engine with 65
  capability buckets and the smallest target bound.\<close>

definition many_buckets :: "(str, entry) btree" where
  "many_buckets = map (\<lambda>i. (capability_key (lit ''wa'') [i], \<lparr>e_bucket = \<lparr>units = 0, last_ms = 0\<rparr>, e_touched = 0\<rparr>))
     [0..<65]"

definition many_state :: state_snapshot where
  "many_state = \<lparr>ss_schema = STATE_SCHEMA, ss_saved_at_ms = 0,
     ss_buckets = map (\<lambda>(k, x). (k, e_bucket x)) many_buckets, ss_daily = [], ss_approvals = []\<rparr>"

definition many_engine :: engine where
  "many_engine = set_max_target_buckets 1 (snd (restore many_state (engine_new policy_empty)))"

lemma many_buckets_wf: "bm_wf many_buckets" "keys_all is_bucket_key many_buckets" "length many_buckets = 65"
proof -
  have "sorted_wrt (<) (map fst many_buckets)"
    using sorted_wrt_upt [of 0 65]
    by (simp add: many_buckets_def comp_def sorted_wrt_map capability_key_def lit_def)
  then show "bm_wf many_buckets" by (simp add: bm_wf_def)
  show "keys_all is_bucket_key many_buckets" "length many_buckets = 65"
    by (auto simp: many_buckets_def keys_all_def is_bucket_key_def)
qed

lemma many_engine_buckets:
  "length (buckets many_engine) = 65" "max_target_buckets many_engine = 1"
proof -
  obtain m' t' where r: "restore_buckets (ss_buckets many_state) 0 [] = Inr (m', t')"
    and m': "map (\<lambda>(k, x). (k, e_bucket x)) m' = ss_buckets many_state"
    by (rule restore_buckets_snapshot [OF many_buckets_wf(1,2), of 0]) (simp_all add: many_state_def)
  have len: "length m' = 65" using arg_cong [OF m', of length] many_buckets_wf(3) by (simp add: many_state_def)
  have "map fst m' = map fst many_buckets"
    using arg_cong [OF m', of "map fst"] by (simp add: many_state_def comp_def case_prod_beta)
  then have "fst ` set m' = fst ` set many_buckets" by (metis list.set_map)
  moreover have "\<not> is_target_key k" if "k \<in> fst ` set many_buckets" for k
    using that by (auto simp: many_buckets_def)
  ultimately have none: "filter (\<lambda>x. is_target_key (fst x)) m' = []"
    unfolding filter_empty_conv by blast
  have "length (ss_buckets many_state) = 65" using many_buckets_wf(3) by (simp add: many_state_def)
  then have "restore many_state (engine_new policy_empty) = (Inr (), evict_targets
      (engine_new policy_empty\<lparr>buckets := m', tick := t'\<rparr>))"
    using r by (simp add: restore_def) (simp add: many_state_def engine_new_def STATE_SCHEMA_def
        DEFAULT_MAX_TARGET_BUCKETS_def sat_mul64_def)
  then show "length (buckets many_engine) = 65" "max_target_buckets many_engine = 1"
    using none len by (simp_all add: many_engine_def set_max_target_buckets_def evict_targets_def)
qed

text \<open>An engine's own snapshot can be refused: capability buckets are not bounded by the limit that
  \<open>restore\<close> puts on a snapshot.\<close>

theorem own_snapshot_refused:
  "\<exists>e. reachable put sha e \<and> fst (restore (snapshot e) e) = Inl (TooManyBuckets 65)"
proof (intro exI conjI)
  show "reachable put sha many_engine"
    unfolding many_engine_def
    by (intro reach_max reach_restore reach_new) (simp_all add: many_state_def)
  show "fst (restore (snapshot many_engine) many_engine) = Inl (TooManyBuckets 65)"
    using restore_too_many [of many_engine many_engine] by (simp add: many_engine_buckets sat_mul64_def)
qed

section \<open>Patterns, buckets, validation, the memory sink\<close>

text \<open>A pattern accepted by \<open>Pattern::new\<close> matches exactly the targets its text describes, each star
  standing for any run of characters: the exact, prefix and backtracking matchers are all
  equivalent to that reading.\<close>

theorem pattern_semantics:
  "pattern_new r = Inr p \<Longrightarrow> pattern_matches p target = star_match r target"
  by (rule pattern_new_matches)

theorem pattern_semantics_witness:
  "pattern_matches \<lparr>raw = lit ''a*c*'', pat_kind = Glob (glob_tokens (lit ''a*c*''))\<rparr> (lit ''abcd'')
     = star_match (lit ''a*c*'') (lit ''abcd'')"
  by (rule pattern_semantics) code_simp

text \<open>A refused take says how long to wait, exactly: after that many milliseconds the bucket has a
  token, and one millisecond earlier, or at any time before, it has none.\<close>

theorem retry_after_exact:
  assumes "last_ms b \<le> now" "rate_ok rate" "per_minute rate \<le> u32_max"
    "bucket_take b rate now = (Inl d, b')"
  shows "0 < d \<and> 0 < tokens b' rate (now + d) \<and> (\<forall>t < d. tokens b' rate (now + t) = 0)"
  using retry_exact [OF assms] by blast

theorem retry_after_exact_witness:
  "0 < tokens \<lparr>units = 0, last_ms = 50\<rparr> sample_rate (50 + 10000)"
proof -
  have "bucket_take \<lparr>units = 0, last_ms = 50\<rparr> sample_rate 50 = (Inl 10000, \<lparr>units = 0, last_ms = 50\<rparr>)"
    by (simp add: bucket_defs sample_rate_def rl_capacity_def UNITS_PER_TOKEN_def)
  moreover have "rate_ok sample_rate" "per_minute sample_rate \<le> u32_max"
    by (simp_all add: sample_rate_def rate_ok_def rl_capacity_def)
  ultimately show ?thesis using retry_after_exact [of "\<lparr>units = 0, last_ms = 50\<rparr>" 50 sample_rate] by simp
qed

text \<open>\<open>set_policy\<close> installs a policy exactly when it is the schema's version, every name in it is
  usable and every limit in it can be met, and leaves the engine alone otherwise.\<close>

theorem set_policy_validates:
  "set_policy e p =
    (if ps_version p = SCHEMA_VERSION \<and> (\<forall>c \<in> set (sensitive_capabilities p). name_ok c) \<and>
        (\<forall>(c, cp) \<in> set (ps_components p). name_ok c \<and>
           (\<forall>(k, r) \<in> set (cp_capabilities cp). name_ok k \<and> rule_ok r))
     then (Inr (), e\<lparr>en_policy := p\<rparr>)
     else (Inl (projl (validate p)), e))"
  unfolding validate_Inr [symmetric] by (cases "validate p") (simp_all add: set_policy_def)

theorem set_policy_validates_witness:
  "set_policy sample (policy_empty\<lparr>sensitive_capabilities := [[]]\<rparr>) = (Inl (NameEmpty SensitiveList), sample)"
proof -
  have "validate (policy_empty\<lparr>sensitive_capabilities := [[]]\<rparr>) = Inl (NameEmpty SensitiveList)" by code_simp
  then show ?thesis
    using set_policy_validates [of sample "policy_empty\<lparr>sensitive_capabilities := [[]]\<rparr>"]
    by (simp add: name_ok_def split: if_splits)
qed

text \<open>The memory sink keeps the newest records up to its limit, in order, and its counter of dropped
  records plus what it holds is everything ever written.\<close>

theorem memory_audit_keeps_newest:
  assumes "length rs \<le> u64_max"
  shows "ma_records (memory_writes (memory_with_limit n) rs) = keep_last (max n 1) rs \<and>
    ma_dropped (memory_writes (memory_with_limit n) rs)
      + length (ma_records (memory_writes (memory_with_limit n) rs)) = length rs"
  using assms memory_writes_records [of "memory_with_limit n" rs]
    memory_writes_dropped [of "memory_with_limit n" rs]
  by (simp add: memory_with_limit_def memory_ok_def)

theorem memory_audit_keeps_newest_witness:
  "ma_records (memory_writes (memory_with_limit 0)
      [record_new (\<lambda>b. b) 1 [] [] None Allow Digest, record_new (\<lambda>b. b) 2 [] [] None Allow Digest])
    = [record_new (\<lambda>b. b) 2 [] [] None Allow Digest]"
  using memory_audit_keeps_newest [of "[record_new (\<lambda>b. b) 1 [] [] None Allow Digest,
      record_new (\<lambda>b. b) 2 [] [] None Allow Digest]" 0]
  by (simp add: keep_last_def)

end
