(* ===== verification/QueueKv.thy ===== *)
theory QueueKv
  imports BTree
begin

text \<open>
  \<open>rust/wa-queue/src/kv.rs\<close> and \<open>clock.rs\<close>: the \<open>Kv\<close> trait the queue is built on, as the locale
  \<open>ordered_kv\<close>; its in-memory implementation; the namespaced view; and the store the queue model
  runs on, an ordered map whose every call can be made to fail by a script.
\<close>

datatype kv_error = KvError str

section \<open>The interface\<close>

text \<open>What an implementation promises over the map it \<open>view\<close>s.  A call may fail; a failed read changes
  nothing, and a failed write has either happened or not, but touched no other key.\<close>

locale ordered_kv =
  fixes get :: "'s \<Rightarrow> bytes \<Rightarrow> ('e + bytes option) \<times> 's"
    and put :: "'s \<Rightarrow> bytes \<Rightarrow> bytes \<Rightarrow> ('e + unit) \<times> 's"
    and del :: "'s \<Rightarrow> bytes \<Rightarrow> ('e + unit) \<times> 's"
    and scan :: "'s \<Rightarrow> bytes \<Rightarrow> ('e + (bytes, bytes) btree) \<times> 's"
    and view :: "'s \<Rightarrow> (bytes, bytes) btree"
    and ok :: "'s \<Rightarrow> bool"
  assumes view_wf: "ok s \<Longrightarrow> bm_wf (view s)"
    and get_state: "ok s \<Longrightarrow> ok (snd (get s k)) \<and> view (snd (get s k)) = view s"
    and get_value: "ok s \<Longrightarrow> fst (get s k) = Inr r \<Longrightarrow> r = bm_get (view s) k"
    and put_ok: "ok s \<Longrightarrow> ok (snd (put s k v))"
    and put_done: "ok s \<Longrightarrow> fst (put s k v) = Inr () \<Longrightarrow> view (snd (put s k v)) = bm_insert k v (view s)"
    and put_failed: "ok s \<Longrightarrow> view (snd (put s k v)) \<in> {view s, bm_insert k v (view s)}"
    and del_ok: "ok s \<Longrightarrow> ok (snd (del s k))"
    and del_done: "ok s \<Longrightarrow> fst (del s k) = Inr () \<Longrightarrow> view (snd (del s k)) = bm_remove k (view s)"
    and del_failed: "ok s \<Longrightarrow> view (snd (del s k)) \<in> {view s, bm_remove k (view s)}"
    and scan_state: "ok s \<Longrightarrow> ok (snd (scan s p)) \<and> view (snd (scan s p)) = view s"
    and scan_value: "ok s \<Longrightarrow> fst (scan s p) = Inr es \<Longrightarrow> es = bm_scan p (view s)"
begin

text \<open>A read after a successful write of the same key sees the written value, of another key the old
  one.\<close>

lemma get_put:
  assumes "ok s" "put s k v = (Inr (), s')" "fst (get s' k') = Inr x"
  shows "x = (if k' = k then Some v else bm_get (view s) k')"
proof -
  have "ok s'" "view s' = bm_insert k v (view s)"
    using put_ok [OF assms(1), of k v] put_done [OF assms(1), of k v] assms(2) by simp_all
  then show ?thesis using get_value [of s' k' x] assms(3) by simp
qed

lemma get_del:
  assumes "ok s" "del s k = (Inr (), s')" "fst (get s' k') = Inr x"
  shows "x = (if k' = k then None else bm_get (view s) k')"
proof -
  have "ok s'" "view s' = bm_remove k (view s)"
    using del_ok [OF assms(1), of k] del_done [OF assms(1), of k] assms(2) by simp_all
  then show ?thesis using get_value [of s' k' x] assms(3) by simp
qed

text \<open>A scan is in key order and holds exactly the entries under its prefix.\<close>

lemma scan_entries:
  assumes "ok s" "fst (scan s p) = Inr es"
  shows "bm_wf es" "set es = {e \<in> set (view s). prefix p (fst e)}"
  using scan_value [OF assms] view_wf [OF assms(1)] by (simp_all add: set_bm_scan)

end

section \<open>The in-memory store\<close>

type_synonym memory_kv = "(bytes, bytes) btree"

definition memory_new :: memory_kv where
  "memory_new = []"

definition memory_len :: "memory_kv \<Rightarrow> nat" where
  "memory_len m = length m"

definition memory_is_empty :: "memory_kv \<Rightarrow> bool" where
  "memory_is_empty m \<longleftrightarrow> memory_len m = 0"

definition memory_remove_raw :: "memory_kv \<Rightarrow> bytes \<Rightarrow> bool \<times> memory_kv" where
  "memory_remove_raw m k = (bm_get m k \<noteq> None, bm_remove k m)"

definition memory_put_raw :: "memory_kv \<Rightarrow> bytes \<Rightarrow> bytes \<Rightarrow> memory_kv" where
  "memory_put_raw m k v = bm_insert k v m"

definition memory_get :: "memory_kv \<Rightarrow> bytes \<Rightarrow> (kv_error + bytes option) \<times> memory_kv" where
  "memory_get m k = (Inr (bm_get m k), m)"

definition memory_put :: "memory_kv \<Rightarrow> bytes \<Rightarrow> bytes \<Rightarrow> (kv_error + unit) \<times> memory_kv" where
  "memory_put m k v = (Inr (), bm_insert k v m)"

definition memory_del :: "memory_kv \<Rightarrow> bytes \<Rightarrow> (kv_error + unit) \<times> memory_kv" where
  "memory_del m k = (Inr (), bm_remove k m)"

definition memory_scan :: "memory_kv \<Rightarrow> bytes \<Rightarrow> (kv_error + (bytes, bytes) btree) \<times> memory_kv" where
  "memory_scan m p = (Inr (bm_scan p m), m)"

lemmas memory_kv_defs = memory_get_def memory_put_def memory_del_def memory_scan_def

interpretation memory_store: ordered_kv memory_get memory_put memory_del memory_scan "\<lambda>m. m" bm_wf
  by unfold_locales (auto simp: memory_kv_defs)

section \<open>A namespace of another store\<close>

text \<open>\<open>Prefixed\<close>: every key gains the prefix, scans strip it again.\<close>

definition prefixed_key :: "bytes \<Rightarrow> bytes \<Rightarrow> bytes" where
  "prefixed_key pre k = pre @ k"

definition prefixed_get :: "('s \<Rightarrow> bytes \<Rightarrow> 'r \<times> 's) \<Rightarrow> bytes \<Rightarrow> 's \<Rightarrow> bytes \<Rightarrow> 'r \<times> 's" where
  "prefixed_get inner pre s k = inner s (prefixed_key pre k)"

definition prefixed_put :: "('s \<Rightarrow> bytes \<Rightarrow> bytes \<Rightarrow> 'r \<times> 's) \<Rightarrow> bytes \<Rightarrow> 's \<Rightarrow> bytes \<Rightarrow> bytes \<Rightarrow> 'r \<times> 's" where
  "prefixed_put inner pre s k v = inner s (prefixed_key pre k) v"

definition prefixed_del :: "('s \<Rightarrow> bytes \<Rightarrow> 'r \<times> 's) \<Rightarrow> bytes \<Rightarrow> 's \<Rightarrow> bytes \<Rightarrow> 'r \<times> 's" where
  "prefixed_del inner pre s k = inner s (prefixed_key pre k)"

definition strip :: "bytes \<Rightarrow> (bytes, bytes) btree \<Rightarrow> (bytes, bytes) btree" where
  "strip pre es = map (\<lambda>(k, v). (drop (length pre) k, v)) es"

definition prefixed_scan :: "('s \<Rightarrow> bytes \<Rightarrow> ('e + (bytes, bytes) btree) \<times> 's)
    \<Rightarrow> bytes \<Rightarrow> 's \<Rightarrow> bytes \<Rightarrow> ('e + (bytes, bytes) btree) \<times> 's" where
  "prefixed_scan inner pre s p =
    (case inner s (pre @ p) of
       (Inl e, s') \<Rightarrow> (Inl e, s')
     | (Inr es, s') \<Rightarrow> (Inr (strip pre es), s'))"

text \<open>What the namespace holds of the map below it.\<close>

definition namespace :: "bytes \<Rightarrow> (bytes, bytes) btree \<Rightarrow> (bytes, bytes) btree" where
  "namespace pre m = strip pre (bm_scan pre m)"

lemma append_less_same [simp]: "pre @ a < pre @ b \<longleftrightarrow> a < (b :: 'a::linorder list)"
  by (induction pre) simp_all

lemma strip_wf:
  assumes "bm_wf es" "\<forall>e \<in> set es. prefix pre (fst e)"
  shows "bm_wf (strip pre es)"
  using assms
proof (induction es)
  case (Cons e es)
  obtain a where a: "fst e = pre @ a" using Cons.prems(2) by (auto elim: prefixE)
  have "a < fst e'" if e': "e' \<in> set (strip pre es)" for e'
  proof -
    obtain x where x: "x \<in> set es" "e' = (drop (length pre) (fst x), snd x)"
      using e' by (force simp: strip_def case_prod_beta)
    then obtain b where "fst x = pre @ b" using Cons.prems(2) by (auto elim: prefixE)
    then show ?thesis using Cons.prems(1) x a by (metis append_eq_conv_conj append_less_same bm_wf_simps(2) fst_conv)
  qed
  with Cons a show ?case by (auto simp: strip_def case_prod_beta)
qed (simp add: strip_def)

lemma strip_get:
  "\<forall>e \<in> set es. prefix pre (fst e) \<Longrightarrow> bm_get (strip pre es) k = bm_get es (pre @ k)"
  by (induction es) (auto simp: strip_def elim!: prefixE)

lemma namespace_wf: "bm_wf m \<Longrightarrow> bm_wf (namespace pre m)"
  unfolding namespace_def by (rule strip_wf) (auto simp: bm_scan_filter)

lemma namespace_get: "bm_wf m \<Longrightarrow> bm_get (namespace pre m) k = bm_get m (pre @ k)"
  unfolding namespace_def
  by (subst strip_get) (auto simp: bm_scan_filter bm_get_filter split: option.split)

lemma namespace_insert: "bm_wf m \<Longrightarrow> namespace pre (bm_insert (pre @ k) v m) = bm_insert k v (namespace pre m)"
  by (rule bm_ext) (auto simp: namespace_wf namespace_get)

lemma namespace_remove: "bm_wf m \<Longrightarrow> namespace pre (bm_remove (pre @ k) m) = bm_remove k (namespace pre m)"
  by (rule bm_ext) (auto simp: namespace_wf namespace_get)

lemma namespace_scan:
  assumes "bm_wf m"
  shows "strip pre (bm_scan (pre @ p) m) = bm_scan p (namespace pre m)"
proof (rule bm_ext)
  have all: "\<forall>e \<in> set (bm_scan (pre @ p) m). prefix pre (fst e)"
    using assms by (auto simp: bm_scan_filter dest: append_prefixD)
  show "bm_wf (strip pre (bm_scan (pre @ p) m))" using assms all by (simp add: strip_wf)
  show "bm_wf (bm_scan p (namespace pre m))" using assms by (simp add: namespace_wf)
  show "bm_get (strip pre (bm_scan (pre @ p) m)) = bm_get (bm_scan p (namespace pre m))"
    unfolding strip_get [OF all, abs_def]
    using assms
    by (auto simp: fun_eq_iff bm_scan_filter namespace_wf bm_get_filter namespace_get split: option.split)
qed

text \<open>A namespace of an ordered store is an ordered store.\<close>

lemma prefixed_ordered:
  assumes "ordered_kv get put del scan view ok"
  shows "ordered_kv (prefixed_get get pre) (prefixed_put put pre) (prefixed_del del pre)
    (prefixed_scan scan pre) (\<lambda>s. namespace pre (view s)) ok"
proof -
  note laws = ordered_kv.view_wf [OF assms] ordered_kv.get_state [OF assms] ordered_kv.get_value [OF assms]
    ordered_kv.put_ok [OF assms] ordered_kv.put_done [OF assms] ordered_kv.del_ok [OF assms]
    ordered_kv.del_done [OF assms] ordered_kv.scan_state [OF assms] ordered_kv.scan_value [OF assms]
  show ?thesis
  proof (unfold_locales, goal_cases)
    case (6 s k v)
    then show ?case
      using ordered_kv.put_failed [OF assms 6, of "pre @ k" v] laws(1) [OF 6]
      by (auto simp: prefixed_put_def prefixed_key_def namespace_insert)
  next
    case (9 s k)
    then show ?case
      using ordered_kv.del_failed [OF assms 9, of "pre @ k"] laws(1) [OF 9]
      by (auto simp: prefixed_del_def prefixed_key_def namespace_remove)
  next
    case (10 s p)
    then show ?case
      using laws(8) [OF 10, of "pre @ p"]
      by (auto simp: prefixed_scan_def split: prod.split sum.split)
  next
    case (11 s p es)
    then show ?case
      using laws(9) [of s "pre @ p"] laws(1) [of s]
      by (auto simp: prefixed_scan_def namespace_scan split: prod.splits sum.splits)
  qed (use laws in \<open>auto simp: prefixed_get_def prefixed_put_def prefixed_del_def prefixed_key_def
      namespace_wf namespace_get namespace_insert namespace_remove\<close>)
qed

interpretation prefixed_memory: ordered_kv "prefixed_get memory_get pre" "prefixed_put memory_put pre"
    "prefixed_del memory_del pre" "prefixed_scan memory_scan pre" "namespace pre" bm_wf
  for pre
  using prefixed_ordered [OF memory_store.ordered_kv_axioms, of pre] by simp

section \<open>The store the queue runs on\<close>

text \<open>Any \<open>Kv\<close>: an ordered map and a script that says, call by call, whether the call works
  (\<open>Works\<close>), is refused before it does anything (\<open>Refused\<close>), or does its work and then reports a
  failure (\<open>Torn\<close>).  An empty script is a store that never fails.  A crash is a script that
  refuses every call from some point on.\<close>

datatype fault = Works | Refused str | Torn str

record kv =
  entries :: "(bytes, bytes) btree"
  script :: "fault list"

definition next_fault :: "kv \<Rightarrow> fault \<times> kv" where
  "next_fault s = (case script s of [] \<Rightarrow> (Works, s) | f # fs \<Rightarrow> (f, s\<lparr>script := fs\<rparr>))"

definition kv_read :: "((bytes, bytes) btree \<Rightarrow> 'a) \<Rightarrow> kv \<Rightarrow> (kv_error + 'a) \<times> kv" where
  "kv_read f s = (case next_fault s of
       (Works, s) \<Rightarrow> (Inr (f (entries s)), s)
     | (Refused why, s) \<Rightarrow> (Inl (KvError why), s)
     | (Torn why, s) \<Rightarrow> (Inl (KvError why), s))"

definition kv_write :: "((bytes, bytes) btree \<Rightarrow> (bytes, bytes) btree) \<Rightarrow> kv \<Rightarrow> (kv_error + unit) \<times> kv" where
  "kv_write f s = (case next_fault s of
       (Works, s) \<Rightarrow> (Inr (), s\<lparr>entries := f (entries s)\<rparr>)
     | (Refused why, s) \<Rightarrow> (Inl (KvError why), s)
     | (Torn why, s) \<Rightarrow> (Inl (KvError why), s\<lparr>entries := f (entries s)\<rparr>))"

definition kv_get :: "kv \<Rightarrow> bytes \<Rightarrow> (kv_error + bytes option) \<times> kv" where
  "kv_get s k = kv_read (\<lambda>m. bm_get m k) s"

definition kv_put :: "kv \<Rightarrow> bytes \<Rightarrow> bytes \<Rightarrow> (kv_error + unit) \<times> kv" where
  "kv_put s k v = kv_write (bm_insert k v) s"

definition kv_del :: "kv \<Rightarrow> bytes \<Rightarrow> (kv_error + unit) \<times> kv" where
  "kv_del s k = kv_write (bm_remove k) s"

definition kv_scan :: "kv \<Rightarrow> bytes \<Rightarrow> (kv_error + (bytes, bytes) btree) \<times> kv" where
  "kv_scan s p = kv_read (bm_scan p) s"

lemmas kv_defs = kv_get_def kv_put_def kv_del_def kv_scan_def kv_read_def kv_write_def next_fault_def

interpretation scripted: ordered_kv kv_get kv_put kv_del kv_scan entries "\<lambda>s. bm_wf (entries s)"
  by unfold_locales (auto simp: kv_defs split: list.splits fault.splits)

text \<open>Without faults it is the memory store.\<close>

lemma scripted_memory:
  "kv_get \<lparr>entries = m, script = []\<rparr> k = map_prod id (\<lambda>m. \<lparr>entries = m, script = []\<rparr>) (memory_get m k)"
  "kv_put \<lparr>entries = m, script = []\<rparr> k v = map_prod id (\<lambda>m. \<lparr>entries = m, script = []\<rparr>) (memory_put m k v)"
  "kv_del \<lparr>entries = m, script = []\<rparr> k = map_prod id (\<lambda>m. \<lparr>entries = m, script = []\<rparr>) (memory_del m k)"
  "kv_scan \<lparr>entries = m, script = []\<rparr> k = map_prod id (\<lambda>m. \<lparr>entries = m, script = []\<rparr>) (memory_scan m k)"
  by (simp_all add: kv_defs memory_kv_defs)

section \<open>Clocks\<close>

text \<open>\<open>FixedClock\<close>; the system clock is a reading handed to each operation.\<close>

definition clock_set :: "int \<Rightarrow> int \<Rightarrow> int" where
  "clock_set now old = now"

definition clock_advance :: "int \<Rightarrow> int \<Rightarrow> int \<times> int" where
  "clock_advance ms now = (let now = wrap_i64 (now + ms) in (now, now))"

end
