(* ===== verification/QueueTypes.thy ===== *)
theory QueueTypes
  imports QueueKv
begin

text \<open>
  \<open>rust/wa-queue/src/lib.rs\<close>: the queue's vocabulary - errors, jobs, requests, outcomes, alerts and
  policies - and the two computations it holds, the retry delay and the concurrency limit.  \<open>u32\<close>,
  \<open>u64\<close> and \<open>usize\<close> are \<open>nat\<close>, \<open>i64\<close> is \<open>int\<close>; their ranges are in \<open>job_wf\<close> and \<open>policy_ok\<close>.
\<close>

section \<open>Jobs\<close>

datatype job_state = Ready | Leased | Done | Dead | Expired

fun state_as_str :: "job_state \<Rightarrow> str" where
  "state_as_str Ready = lit ''ready''"
| "state_as_str Leased = lit ''leased''"
| "state_as_str Done = lit ''done''"
| "state_as_str Dead = lit ''dead''"
| "state_as_str Expired = lit ''expired''"

fun is_terminal :: "job_state \<Rightarrow> bool" where
  "is_terminal Done = True"
| "is_terminal Dead = True"
| "is_terminal Expired = True"
| "is_terminal _ = False"

record job =
  j_id :: nat
  j_queue :: str
  j_payload :: bytes
  j_priority :: nat
  not_before :: int
  fresh_until :: "int option"
  deadline :: "int option"
  j_max_attempts :: nat
  attempts :: nat
  lease_expiries :: nat
  j_dedupe :: "str option"
  j_state :: job_state
  lease_worker :: "str option"
  lease_until :: "int option"
  last_error :: "str option"
  j_result :: "bytes option"
  progress_entries :: nat
  progress_bytes :: nat
  created_at :: int
  updated_at :: int

definition is_leased :: "job \<Rightarrow> bool" where
  "is_leased j \<longleftrightarrow> j_state j = Leased"

section \<open>Errors\<close>

text \<open>The text of \<open>Invalid\<close>, \<open>TooLarge\<close> and \<open>Corrupt\<close> as data.\<close>

datatype invalid_reason = NotBeforeAfterFresh | BadQueueName str | BadWorkerName | BadLease int
  | EmptyPrefix | NotDeadLettered job_state | NoAttempts | FreshNotPositive | DeadlineNotPositive
  | BadDedupeKey

datatype corrupt_reason = LengthOverflow | Truncated | NotUtf8 | BadOptionTag nat | TrailingBytes
  | BadJobState nat | BadAlertKind nat | BadAlertState nat | AlertKey | WrongId nat nat

datatype queue_error = KvFailed kv_error | Invalid invalid_reason | NotFound | LeaseLost
  | TooLarge nat nat | ProgressFull | Full str nat nat | Corrupt corrupt_reason

section \<open>Requests\<close>

record enqueue_request =
  er_queue :: str
  er_payload :: bytes
  er_priority :: nat
  er_not_before :: "int option"
  er_fresh_for_ms :: "int option"
  er_max_attempts :: "nat option"
  er_dedupe_key :: "str option"
  er_deadline_in_ms :: "int option"

definition request_new :: "str \<Rightarrow> bytes \<Rightarrow> enqueue_request" where
  "request_new queue payload = \<lparr>er_queue = queue, er_payload = payload, er_priority = 0,
     er_not_before = None, er_fresh_for_ms = None, er_max_attempts = None, er_dedupe_key = None,
     er_deadline_in_ms = None\<rparr>"

definition with_priority :: "nat \<Rightarrow> enqueue_request \<Rightarrow> enqueue_request" where
  "with_priority p r = r\<lparr>er_priority := p\<rparr>"

definition with_not_before :: "int \<Rightarrow> enqueue_request \<Rightarrow> enqueue_request" where
  "with_not_before at r = r\<lparr>er_not_before := Some at\<rparr>"

definition with_fresh_for :: "int \<Rightarrow> enqueue_request \<Rightarrow> enqueue_request" where
  "with_fresh_for ms r = r\<lparr>er_fresh_for_ms := Some ms\<rparr>"

definition with_max_attempts :: "nat \<Rightarrow> enqueue_request \<Rightarrow> enqueue_request" where
  "with_max_attempts n r = r\<lparr>er_max_attempts := Some n\<rparr>"

definition with_dedupe :: "str \<Rightarrow> enqueue_request \<Rightarrow> enqueue_request" where
  "with_dedupe key r = r\<lparr>er_dedupe_key := Some key\<rparr>"

definition with_deadline_in :: "int \<Rightarrow> enqueue_request \<Rightarrow> enqueue_request" where
  "with_deadline_in ms r = r\<lparr>er_deadline_in_ms := Some ms\<rparr>"

section \<open>Outcomes\<close>

record enqueue_outcome =
  eo_id :: nat
  dedupe_hit :: bool

datatype take_outcome = TakenJob job | AtLimit nat nat | TakeEmpty

fun taken_job :: "take_outcome \<Rightarrow> job option" where
  "taken_job (TakenJob j) = Some j"
| "taken_job _ = None"

record fail_outcome =
  fo_state :: job_state
  fo_attempts :: nat
  fo_not_before :: "int option"
  fo_dead :: bool

record progress_entry =
  pe_seq :: nat
  pe_bytes :: bytes

record sweep_outcome =
  leases_recovered :: nat
  so_expired :: nat
  timed_out :: nat
  reaped :: nat

definition did_something :: "sweep_outcome \<Rightarrow> bool" where
  "did_something s \<longleftrightarrow> leases_recovered s + so_expired s + timed_out s + reaped s > 0"

section \<open>Alerts\<close>

datatype alert_kind = KindExpired | KindTimedOut | KindDead

fun kind_as_str :: "alert_kind \<Rightarrow> str" where
  "kind_as_str KindExpired = lit ''expired''"
| "kind_as_str KindTimedOut = lit ''timed_out''"
| "kind_as_str KindDead = lit ''dead''"

fun kind_code :: "alert_kind \<Rightarrow> byte" where
  "kind_code KindExpired = 101"
| "kind_code KindTimedOut = 116"
| "kind_code KindDead = 102"

definition kind_from_code :: "byte \<Rightarrow> queue_error + alert_kind" where
  "kind_from_code code =
    (if code = 101 then Inr KindExpired
     else if code = 116 then Inr KindTimedOut
     else if code = 102 then Inr KindDead
     else Inl (Corrupt (BadAlertKind (unat code))))"

datatype alert_state = AlertReady | AlertSent | AlertDropped

fun alert_state_as_str :: "alert_state \<Rightarrow> str" where
  "alert_state_as_str AlertReady = lit ''ready''"
| "alert_state_as_str AlertSent = lit ''sent''"
| "alert_state_as_str AlertDropped = lit ''dropped''"

record alert =
  al_seq :: nat
  al_job :: nat
  al_queue :: str
  al_kind :: alert_kind
  al_reason :: str
  al_at :: int
  al_state :: alert_state

record alert_batch =
  ab_items :: "alert list"
  ab_overflow :: nat
  ab_dropped :: nat

record queue_stats =
  st_ready :: nat
  st_retrying :: nat
  st_leased :: nat
  st_done :: nat
  st_dead :: nat
  st_expired :: nat
  oldest_ready_age_ms :: int
  st_progress_bytes :: nat

definition stats_default :: queue_stats where
  "stats_default = \<lparr>st_ready = 0, st_retrying = 0, st_leased = 0, st_done = 0, st_dead = 0,
     st_expired = 0, oldest_ready_age_ms = 0, st_progress_bytes = 0\<rparr>"

definition stats_active :: "queue_stats \<Rightarrow> nat" where
  "stats_active s = st_ready s + st_leased s"

record repair_outcome =
  index_added :: nat
  index_removed :: nat
  dedupe_added :: nat
  dedupe_removed :: nat

definition repair_changed :: "repair_outcome \<Rightarrow> nat" where
  "repair_changed r = index_added r + index_removed r + dedupe_added r + dedupe_removed r"

section \<open>Policies\<close>

record retry_policy =
  base_ms :: int
  retry_max_ms :: int

definition retry_default :: retry_policy where
  "retry_default = \<lparr>base_ms = 5000, retry_max_ms = 3600000\<rparr>"

text \<open>The doubling loop, \<open>n\<close> rounds left.\<close>

fun delay_loop :: "nat \<Rightarrow> int \<Rightarrow> int \<Rightarrow> int" where
  "delay_loop 0 m delay = delay"
| "delay_loop (Suc n) m delay =
     (if delay \<ge> m then delay else delay_loop n m (sat_i64 (delay * 2)))"

definition delay_ms :: "retry_policy \<Rightarrow> nat \<Rightarrow> int" where
  "delay_ms p failures =
    (if failures = 0 then 0
     else min (delay_loop (failures - 1) (retry_max_ms p) (max (base_ms p) 0)) (retry_max_ms p))"

record alert_policy =
  min_gap_ms :: int
  batch_max :: nat
  max_age_ms :: int

definition alert_policy_default :: alert_policy where
  "alert_policy_default = \<lparr>min_gap_ms = 60000, batch_max = 12, max_age_ms = 6 * 3600000\<rparr>"

record policy =
  lease_ms :: int
  max_lease_ms :: int
  retry :: retry_policy
  max_attempts :: nat
  max_lease_losses :: nat
  concurrency :: nat
  queue_limits :: "(str, nat) btree"
  default_fresh_ms :: "int option"
  default_deadline_ms :: "int option"
  alert_policy :: alert_policy
  max_payload_bytes :: nat
  max_result_bytes :: nat
  max_progress_entries :: nat
  max_progress_bytes :: nat
  max_ready :: nat
  done_retention_ms :: int
  dead_retention_ms :: int
  expired_retention_ms :: int

definition policy_default :: policy where
  "policy_default = \<lparr>lease_ms = 60000, max_lease_ms = 3600000, retry = retry_default,
     max_attempts = 5, max_lease_losses = 3, concurrency = 4, queue_limits = [],
     default_fresh_ms = None, default_deadline_ms = None, alert_policy = alert_policy_default,
     max_payload_bytes = 1024 * 1024, max_result_bytes = 64 * 1024, max_progress_entries = 1024,
     max_progress_bytes = 1024 * 1024, max_ready = 4096, done_retention_ms = 3600000,
     dead_retention_ms = 7 * 24 * 3600000, expired_retention_ms = 24 * 3600000\<rparr>"

definition with_fresh_ms :: "int \<Rightarrow> policy \<Rightarrow> policy" where
  "with_fresh_ms ms p = p\<lparr>default_fresh_ms := Some ms\<rparr>"

definition with_deadline_ms :: "int \<Rightarrow> policy \<Rightarrow> policy" where
  "with_deadline_ms ms p = p\<lparr>default_deadline_ms := Some ms\<rparr>"

definition with_concurrency :: "str \<Rightarrow> nat \<Rightarrow> policy \<Rightarrow> policy" where
  "with_concurrency queue limit p = p\<lparr>queue_limits := bm_insert queue limit (queue_limits p)\<rparr>"

definition limit_for :: "policy \<Rightarrow> str \<Rightarrow> nat" where
  "limit_for p queue =
    max (case bm_get (queue_limits p) queue of Some n \<Rightarrow> n | None \<Rightarrow> concurrency p) 1"

record requeue_options =
  refresh_fresh :: bool
  ro_max_attempts :: "nat option"
  attempts_reset :: bool

definition requeue_default :: requeue_options where
  "requeue_default = \<lparr>refresh_fresh = False, ro_max_attempts = None, attempts_reset = True\<rparr>"

definition refreshing_fresh :: requeue_options where
  "refreshing_fresh = requeue_default\<lparr>refresh_fresh := True\<rparr>"

section \<open>The retry delay\<close>

text \<open>What the documentation promises: the base doubled once per further failure, capped.\<close>

lemma sat_cap: "0 \<le> (d::int) \<Longrightarrow> m \<le> i64_max \<Longrightarrow> min (sat_i64 (d * 2) * 2 ^ n) m = min (d * 2 ^ Suc n) m"
proof (cases "d * 2 \<le> i64_max")
  case True
  then show "0 \<le> d \<Longrightarrow> ?thesis" by (simp add: sat_i64_def mult.assoc mult.commute [of d])
next
  case False
  assume d: "0 \<le> d" "m \<le> i64_max"
  then have s: "sat_i64 (d * 2) = i64_max" using False by (simp add: sat_i64_def)
  have a: "m * 1 \<le> i64_max * 2 ^ n" using d(2) by (intro mult_mono) simp_all
  have "i64_max * 2 ^ n \<le> d * 2 * 2 ^ n" using False by (intro mult_right_mono) simp_all
  with a have "m \<le> d * 2 * 2 ^ n" by linarith
  with a have "m \<le> i64_max * 2 ^ n" "m \<le> d * 2 ^ Suc n" by (simp_all add: mult.assoc)
  then show ?thesis unfolding s by (simp add: min_absorb2)
qed

lemma delay_loop_cap:
  "0 \<le> d \<Longrightarrow> m \<le> i64_max \<Longrightarrow> min (delay_loop n m d) m = min (d * 2 ^ n) m"
proof (induction n arbitrary: d)
  case (Suc n)
  show ?case
  proof (cases "d \<ge> m")
    case True
    have "d * 1 \<le> d * 2 ^ Suc n" using Suc.prems by (intro mult_left_mono one_le_power) simp_all
    with True show ?thesis by simp
  next
    case False
    have "0 \<le> sat_i64 (d * 2)" using Suc.prems by (simp add: sat_i64_def)
    with False Suc sat_cap [OF Suc.prems] show ?thesis by simp
  qed
qed simp

lemma delay_ms_closed:
  "is_i64 (retry_max_ms p) \<Longrightarrow> 0 < n \<Longrightarrow> delay_ms p n = min (max (base_ms p) 0 * 2 ^ (n - 1)) (retry_max_ms p)"
  by (simp add: delay_ms_def delay_loop_cap is_i64_def)

lemma is_i64_delay: "is_i64 (retry_max_ms p) \<Longrightarrow> is_i64 (delay_ms p n)"
  by (cases "n = 0") (auto simp: delay_ms_closed is_i64_def delay_ms_def [of _ 0] min_le_iff_disj
      intro: order_trans [of _ 0])

end
