(* ===== verification/Bytes.thy ===== *)
theory Bytes
  imports Prelude
begin

text \<open>
  Big-endian and little-endian integers as byte strings: what \<open>to_be_bytes\<close> and its relatives compute.  The byte
  order of the big-endian encodings is the order of the numbers, which is what sorted keys rely on.
\<close>

fun be :: "nat \<Rightarrow> nat \<Rightarrow> bytes" where
  [std_simps]: "be 0 v = []"
| "be (Suc n) v = be n (v div 256) @ [of_nat v]"

definition of_be :: "bytes \<Rightarrow> nat" where
  [std_simps]: "of_be bs = foldl (\<lambda>a b. a * 256 + unat b) 0 bs"

definition be_i64 :: "int \<Rightarrow> bytes" where
  [std_simps]: "be_i64 i = be 8 (nat (i mod 18446744073709551616))"

definition of_be_i64 :: "bytes \<Rightarrow> int" where
  [std_simps]: "of_be_i64 bs = wrap_i64 (int (of_be bs))"

lemma length_be [simp]: "length (be n v) = n"
  by (induction n arbitrary: v) simp_all

lemma unat_of_nat_byte: "unat (of_nat v :: byte) = v mod 256"
  by (simp add: unat_of_nat take_bit_eq_mod)

lemma of_be_snoc: "of_be (bs @ [b]) = of_be bs * 256 + unat b"
  by (simp add: of_be_def)

lemma of_be_be_mod: "of_be (be n v) = v mod 256 ^ n"
proof (induction n arbitrary: v)
  case (Suc n)
  have "v mod (256 * 256 ^ n) = 256 * (v div 256 mod 256 ^ n) + v mod 256"
    by (rule mod_mult2_eq)
  with Suc show ?case by (simp add: of_be_snoc unat_of_nat_byte)
qed (simp add: of_be_def)

lemma of_be_be: "v < 256 ^ n \<Longrightarrow> of_be (be n v) = v"
  by (simp add: of_be_be_mod)

lemma of_be_be4 [simp]: "v \<le> u32_max \<Longrightarrow> of_be (be 4 v) = v"
  by (rule of_be_be) simp

lemma of_be_be8 [simp]: "v \<le> u64_max \<Longrightarrow> of_be (be 8 v) = v"
  by (rule of_be_be) simp

lemma of_be_less: "of_be bs < 256 ^ length bs"
proof (induction bs rule: rev_induct)
  case (snoc b bs)
  have "of_be bs * 256 + unat b < (of_be bs + 1) * 256" using unat_byte_lt [of b] by simp
  also have "\<dots> \<le> 256 ^ length bs * 256" using snoc by (intro mult_right_mono) simp_all
  finally show ?case by (simp add: of_be_snoc mult.commute)
qed (simp add: of_be_def)

lemma of_be_8_le: "length bs = 8 \<Longrightarrow> of_be bs \<le> u64_max"
  using of_be_less [of bs] by simp

lemma of_be_4_le: "length bs = 4 \<Longrightarrow> of_be bs \<le> u32_max"
  using of_be_less [of bs] by simp

lemma be_of_be: "length bs = n \<Longrightarrow> be n (of_be bs) = bs"
proof (induction bs arbitrary: n rule: rev_induct)
  case (snoc b bs)
  have "(of_nat (unat b) :: byte) = b" by simp
  moreover have "(of_nat (of_be bs * 256) :: byte) = 0"
    by (rule word_unat_eq_iff [THEN iffD2]) (simp add: unat_of_nat_byte del: of_nat_mult)
  ultimately have "(of_nat (of_be bs * 256 + unat b) :: byte) = b" by (metis add_0 of_nat_add)
  with snoc show ?case by (auto simp: of_be_snoc)
qed simp

lemma be_inj: "a < 256 ^ n \<Longrightarrow> b < 256 ^ n \<Longrightarrow> be n a = be n b \<longleftrightarrow> a = b"
  by (metis of_be_be)

lemma be8_inj [simp]: "a \<le> u64_max \<Longrightarrow> b \<le> u64_max \<Longrightarrow> be 8 a = be 8 b \<longleftrightarrow> a = b"
  by (metis of_be_be8)

lemma of_be_be_i64 [simp]: "is_i64 i \<Longrightarrow> of_be_i64 (be_i64 i) = i"
proof -
  assume i: "is_i64 i"
  have "nat (i mod 18446744073709551616) \<le> u64_max"
    using pos_mod_bound [of 18446744073709551616 i] by linarith
  then have "of_be_i64 (be_i64 i) = wrap_i64 (i mod 18446744073709551616)"
    by (simp add: of_be_i64_def be_i64_def)
  also have "\<dots> = wrap_i64 i" by (simp add: wrap_i64_def mod_add_left_eq)
  finally show ?thesis using i by (simp add: wrap_i64_id)
qed

lemma is_i64_of_be_i64 [simp]: "is_i64 (of_be_i64 bs)"
  using pos_mod_bound [of 18446744073709551616 "int (of_be bs) + 9223372036854775808"]
    pos_mod_sign [of 18446744073709551616 "int (of_be bs) + 9223372036854775808"]
  unfolding of_be_i64_def wrap_i64_def is_i64_def by linarith

section \<open>Little-endian\<close>

definition le :: "nat \<Rightarrow> nat \<Rightarrow> bytes" where
  [std_simps]: "le n v = rev (be n v)"

definition of_le :: "bytes \<Rightarrow> nat" where
  [std_simps]: "of_le bs = of_be (rev bs)"

lemma length_le [simp]: "length (le n v) = n"
  by (simp add: le_def)

lemma of_le_le: "v < 256 ^ n \<Longrightarrow> of_le (le n v) = v"
  by (simp add: of_le_def le_def of_be_be)

section \<open>Order\<close>

lemma append_less_length:
  "length xs = length ys \<Longrightarrow> xs @ us < ys @ vs \<longleftrightarrow> xs < ys \<or> xs = ys \<and> us < (vs :: 'a::linorder list)"
  by (induction xs ys rule: list_induct2) auto

lemma be_less: "a < 256 ^ n \<Longrightarrow> b < 256 ^ n \<Longrightarrow> be n a < be n b \<longleftrightarrow> a < b"
proof (induction n arbitrary: a b)
  case (Suc n)
  have d: "a div 256 < 256 ^ n" "b div 256 < 256 ^ n"
    using Suc.prems by (simp_all add: div_less_iff_less_mult mult.commute)
  have w: "(of_nat a :: byte) < of_nat b \<longleftrightarrow> a mod 256 < b mod 256"
    by (simp add: word_less_nat_alt unat_of_nat_byte)
  have "be (Suc n) a < be (Suc n) b \<longleftrightarrow> a div 256 < b div 256 \<or> a div 256 = b div 256 \<and> a mod 256 < b mod 256"
    using Suc.IH [OF d] be_inj [OF d] w by (simp add: append_less_length)
  also have "\<dots> \<longleftrightarrow> a < b"
    using div_mult_mod_eq [of a 256] div_mult_mod_eq [of b 256]
    by (smt (verit) div_le_mono linorder_not_less nat_less_le add_less_cancel_left mod_less_divisor)
  finally show ?case .
qed simp

end
