(* ===== verification/QueueCodec.thy ===== *)
theory QueueCodec
  imports QueueTypes Bytes
begin

text \<open>
  \<open>rust/wa-queue/src/codec.rs\<close> and the key, record and name functions of \<open>queue.rs\<close>: how jobs and
  alerts are written to the store and read back, and how keys are laid out.
\<close>

section \<open>Writing fields\<close>

definition bytesb :: "bytes \<Rightarrow> bytes" where
  "bytesb v = be 4 (wrap32 (length v)) @ v"

definition strb :: "str \<Rightarrow> bytes" where
  "strb v = bytesb (utf8 v)"

definition opt_strb :: "str option \<Rightarrow> bytes" where
  "opt_strb v = (case v of Some t \<Rightarrow> 1 # strb t | None \<Rightarrow> [0])"

definition opt_i64b :: "int option \<Rightarrow> bytes" where
  "opt_i64b v = (case v of Some n \<Rightarrow> 1 # be_i64 n | None \<Rightarrow> [0])"

definition opt_bytesb :: "bytes option \<Rightarrow> bytes" where
  "opt_bytesb v = (case v of Some b \<Rightarrow> 1 # bytesb b | None \<Rightarrow> [0])"

section \<open>Reading fields\<close>

record reader =
  rd_buf :: bytes
  rd_at :: nat

type_synonym 'a rd = "reader \<Rightarrow> queue_error + ('a \<times> reader)"

definition reader_new :: "bytes \<Rightarrow> reader" where
  "reader_new buf = \<lparr>rd_buf = buf, rd_at = 0\<rparr>"

definition rd_return :: "'a \<Rightarrow> 'a rd" where
  "rd_return a r = Inr (a, r)"

definition rd_bind :: "'a rd \<Rightarrow> ('a \<Rightarrow> 'b rd) \<Rightarrow> 'b rd" where
  "rd_bind p f r = (case p r of Inl e \<Rightarrow> Inl e | Inr (a, r) \<Rightarrow> f a r)"

definition rd_fail :: "corrupt_reason \<Rightarrow> 'a rd" where
  "rd_fail w r = Inl (Corrupt w)"

definition rd_take :: "nat \<Rightarrow> bytes rd" where
  "rd_take n r =
    (if rd_at r + n > u64_max then Inl (Corrupt LengthOverflow)
     else if rd_at r + n > length (rd_buf r) then Inl (Corrupt Truncated)
     else Inr (take n (drop (rd_at r) (rd_buf r)), r\<lparr>rd_at := rd_at r + n\<rparr>))"

definition rd_u8 :: "byte rd" where
  "rd_u8 = rd_bind (rd_take 1) (\<lambda>b. rd_return (hd b))"

definition rd_u32 :: "nat rd" where
  "rd_u32 = rd_bind (rd_take 4) (\<lambda>b. rd_return (of_be b))"

definition rd_u64 :: "nat rd" where
  "rd_u64 = rd_bind (rd_take 8) (\<lambda>b. rd_return (of_be b))"

definition rd_i64 :: "int rd" where
  "rd_i64 = rd_bind (rd_take 8) (\<lambda>b. rd_return (of_be_i64 b))"

definition rd_bytes :: "bytes rd" where
  "rd_bytes = rd_bind rd_u32 rd_take"

definition rd_string :: "str rd" where
  "rd_string = rd_bind rd_bytes (\<lambda>b. case from_utf8 b of Some s \<Rightarrow> rd_return s | None \<Rightarrow> rd_fail NotUtf8)"

definition rd_option :: "'a rd \<Rightarrow> 'a option rd" where
  "rd_option p = rd_bind rd_u8 (\<lambda>n. if n = 0 then rd_return None
     else if n = 1 then rd_bind p (\<lambda>a. rd_return (Some a))
     else rd_fail (BadOptionTag (unat n)))"

definition opt_string :: "str option rd" where
  "opt_string = rd_option rd_string"

definition opt_i64 :: "int option rd" where
  "opt_i64 = rd_option rd_i64"

definition opt_bytes :: "bytes option rd" where
  "opt_bytes = rd_option rd_bytes"

definition rd_finished :: "unit rd" where
  "rd_finished r = (if rd_at r = length (rd_buf r) then Inr ((), r) else Inl (Corrupt TrailingBytes))"

fun state_code :: "job_state \<Rightarrow> byte" where
  "state_code Ready = 0"
| "state_code Leased = 1"
| "state_code Done = 2"
| "state_code Dead = 3"
| "state_code Expired = 4"

definition state_from :: "byte \<Rightarrow> job_state rd" where
  "state_from code =
    (if code = 0 then rd_return Ready
     else if code = 1 then rd_return Leased
     else if code = 2 then rd_return Done
     else if code = 3 then rd_return Dead
     else if code = 4 then rd_return Expired
     else rd_fail (BadJobState (unat code)))"

section \<open>Records\<close>

definition encode_job :: "job \<Rightarrow> bytes" where
  "encode_job j =
     be 8 (j_id j) @ strb (j_queue j) @ bytesb (j_payload j) @ be 4 (j_priority j)
     @ be_i64 (not_before j) @ be_i64 (created_at j) @ be_i64 (updated_at j)
     @ opt_i64b (fresh_until j) @ opt_i64b (deadline j) @ be 4 (j_max_attempts j)
     @ be 4 (attempts j) @ be 4 (lease_expiries j) @ opt_strb (j_dedupe j)
     @ [state_code (j_state j)] @ opt_strb (lease_worker j) @ opt_i64b (lease_until j)
     @ opt_strb (last_error j) @ opt_bytesb (j_result j) @ be 4 (progress_entries j)
     @ be 8 (progress_bytes j)"

definition decode_fields :: "nat \<Rightarrow> job rd" where
  "decode_fields jid =
     rd_bind rd_u64 (\<lambda>stored. if stored \<noteq> jid then rd_fail (WrongId jid stored) else
     rd_bind rd_string (\<lambda>queue.
     rd_bind rd_bytes (\<lambda>payload.
     rd_bind rd_u32 (\<lambda>priority.
     rd_bind rd_i64 (\<lambda>nb.
     rd_bind rd_i64 (\<lambda>created.
     rd_bind rd_i64 (\<lambda>updated.
     rd_bind opt_i64 (\<lambda>fresh.
     rd_bind opt_i64 (\<lambda>dl.
     rd_bind rd_u32 (\<lambda>ma.
     rd_bind rd_u32 (\<lambda>att.
     rd_bind rd_u32 (\<lambda>le.
     rd_bind opt_string (\<lambda>dk.
     rd_bind (rd_bind rd_u8 state_from) (\<lambda>state.
     rd_bind opt_string (\<lambda>worker.
     rd_bind opt_i64 (\<lambda>until.
     rd_bind opt_string (\<lambda>err.
     rd_bind opt_bytes (\<lambda>res.
     rd_bind rd_u32 (\<lambda>pe.
     rd_bind rd_u64 (\<lambda>pb.
     rd_return \<lparr>j_id = jid, j_queue = queue, j_payload = payload, j_priority = priority,
       not_before = nb, fresh_until = fresh, deadline = dl, j_max_attempts = ma, attempts = att,
       lease_expiries = le, j_dedupe = dk, j_state = state, lease_worker = worker,
       lease_until = until, last_error = err, j_result = res, progress_entries = pe,
       progress_bytes = pb, created_at = created, updated_at = updated\<rparr>))))))))))))))))))))"

definition decode_whole :: "'a rd \<Rightarrow> bytes \<Rightarrow> queue_error + 'a" where
  "decode_whole p bs =
     map_sum id fst (rd_bind p (\<lambda>a. rd_bind rd_finished (\<lambda>_. rd_return a)) (reader_new bs))"

definition decode_job :: "nat \<Rightarrow> bytes \<Rightarrow> queue_error + job" where
  "decode_job jid bs = decode_whole (decode_fields jid) bs"

fun alert_state_code :: "alert_state \<Rightarrow> byte" where
  "alert_state_code AlertReady = 0"
| "alert_state_code AlertSent = 1"
| "alert_state_code AlertDropped = 2"

definition encode_alert :: "alert \<Rightarrow> bytes" where
  "encode_alert a = be 8 (al_seq a) @ strb (al_queue a) @ [kind_code (al_kind a)]
     @ strb (al_reason a) @ be_i64 (al_at a) @ [alert_state_code (al_state a)]"

definition alert_state_from :: "byte \<Rightarrow> alert_state rd" where
  "alert_state_from code =
    (if code = 0 then rd_return AlertReady
     else if code = 1 then rd_return AlertSent
     else if code = 2 then rd_return AlertDropped
     else rd_fail (BadAlertState (unat code)))"

definition rd_kind :: "byte \<Rightarrow> alert_kind rd" where
  "rd_kind code r = map_sum id (\<lambda>k. (k, r)) (kind_from_code code)"

definition decode_alert_fields :: "nat \<Rightarrow> alert rd" where
  "decode_alert_fields jid =
     rd_bind rd_u64 (\<lambda>seq.
     rd_bind rd_string (\<lambda>queue.
     rd_bind (rd_bind rd_u8 rd_kind) (\<lambda>kind.
     rd_bind rd_string (\<lambda>reason.
     rd_bind rd_i64 (\<lambda>at.
     rd_bind (rd_bind rd_u8 alert_state_from) (\<lambda>state.
     rd_return \<lparr>al_seq = seq, al_job = jid, al_queue = queue, al_kind = kind, al_reason = reason,
       al_at = at, al_state = state\<rparr>))))))"

section \<open>Keys\<close>

abbreviation slash :: byte where "slash \<equiv> 47"

definition JOB :: bytes where "JOB = [106, 47]"
definition INDEX :: bytes where "INDEX = [105, 47]"
definition DEDUPE :: bytes where "DEDUPE = [100, 47]"
definition PROGRESS :: bytes where "PROGRESS = [112, 47]"
definition ALERT :: bytes where "ALERT = [97, 47]"
definition SEQ_ID :: bytes where "SEQ_ID = [115, 47, 105, 100]"
definition SEQ_ALERT :: bytes where "SEQ_ALERT = [115, 47, 97, 108, 101, 114, 116, 95, 115, 101, 113]"
definition ALERT_LAST :: bytes where "ALERT_LAST = [115, 47, 97, 108, 101, 114, 116, 95, 108, 97, 115, 116]"

definition STATE_READY :: byte where "STATE_READY = 82"
definition STATE_LEASED :: byte where "STATE_LEASED = 76"

definition job_key :: "nat \<Rightarrow> bytes" where
  "job_key jid = JOB @ be 8 jid"

definition index_prefix :: "str \<Rightarrow> byte \<Rightarrow> bytes" where
  "index_prefix queue st = INDEX @ utf8 queue @ [slash, st]"

definition index_key :: "job \<Rightarrow> byte \<Rightarrow> bytes" where
  "index_key j st = index_prefix (j_queue j) st @ be 4 (u32_max - j_priority j) @ be 8 (j_id j)"

definition dedupe_key :: "str \<Rightarrow> str \<Rightarrow> bytes" where
  "dedupe_key queue key = DEDUPE @ utf8 queue @ slash # utf8 key"

definition progress_prefix :: "nat \<Rightarrow> bytes" where
  "progress_prefix jid = PROGRESS @ be 8 jid @ [slash]"

definition progress_prefix_len :: nat where
  "progress_prefix_len = length PROGRESS + 8 + 1"

definition alert_key :: "nat \<Rightarrow> alert_kind \<Rightarrow> bytes" where
  "alert_key jid kind = ALERT @ be 8 jid @ [slash, kind_code kind]"

definition id_at :: "bytes \<Rightarrow> nat \<Rightarrow> nat option" where
  "id_at key offset = (if offset + 8 \<le> length key then Some (of_be (take 8 (drop offset key))) else None)"

definition id_from_index_key :: "bytes \<Rightarrow> nat option" where
  "id_from_index_key key = (if 8 \<le> length key then id_at key (length key - 8) else None)"

definition id_after :: "bytes \<Rightarrow> nat \<Rightarrow> nat option" where
  "id_after key offset = id_at key offset"

definition u64_from_bytes :: "bytes \<Rightarrow> nat option" where
  "u64_from_bytes bs = (if length bs \<noteq> 8 then None else Some (of_be bs))"

definition i64_from_bytes :: "bytes \<Rightarrow> int option" where
  "i64_from_bytes bs = (if length bs \<noteq> 8 then None else Some (of_be_i64 bs))"

definition id_from_bytes :: "bytes \<Rightarrow> nat option" where
  "id_from_bytes bs = u64_from_bytes bs"

definition seq_from_bytes :: "bytes \<Rightarrow> nat option" where
  "seq_from_bytes bs = u64_from_bytes bs"

definition decode_alert :: "bytes \<Rightarrow> bytes \<Rightarrow> queue_error + alert" where
  "decode_alert key bs =
    (case id_after key (length ALERT) of
       None \<Rightarrow> Inl (Corrupt AlertKey)
     | Some jid \<Rightarrow> decode_whole (decode_alert_fields jid) bs)"

section \<open>Names and reasons\<close>

definition name_byte :: "byte \<Rightarrow> bool" where
  "name_byte b \<longleftrightarrow> is_alnum (unat b) \<or> b = 45 \<or> b = 95 \<or> b = 46 \<or> b = 58"

definition valid_name :: "str \<Rightarrow> nat \<Rightarrow> bool" where
  "valid_name name m \<longleftrightarrow> name \<noteq> [] \<and> length (utf8 name) \<le> m \<and> list_all name_byte (utf8 name)"

definition sanitize :: "str \<Rightarrow> str" where
  "sanitize reason =
    (let cleaned = map (\<lambda>c. if is_control c then 32 else c) reason;
         trimmed = trim cleaned
     in take 200 trimmed @ (if length trimmed > 200 then [8230] else []))"

end
