(* ===== verification/Fallible.thy ===== *)
theory Fallible
  imports Prelude
begin

text \<open>
  Programs over a state that may stop with an error and leave what they had done so far, the meaning
  of \<open>?\<close> in the sources; and a calculus for what they end in, success and failure alike.
\<close>

section \<open>Programs\<close>

type_synonym ('s, 'e, 'a) prog = "'s \<Rightarrow> ('e + 'a) \<times> 's"

definition b_return :: "'a \<Rightarrow> ('s, 'e, 'a) prog" where
  "b_return a s = (Inr a, s)"

definition b_fail :: "'e \<Rightarrow> ('s, 'e, 'a) prog" where
  "b_fail e s = (Inl e, s)"

definition b_then :: "('s, 'e, 'a) prog \<Rightarrow> ('a \<Rightarrow> ('s, 'e, 'b) prog) \<Rightarrow> ('s, 'e, 'b) prog" where
  "b_then m f s = (case m s of (Inl e, s) \<Rightarrow> (Inl e, s) | (Inr a, s) \<Rightarrow> f a s)"

text \<open>\<open>let \_ = call;\<close>: the result is thrown away, its effect is not.\<close>

definition b_ignore :: "('s, 'e, 'a) prog \<Rightarrow> ('s, 'e, unit) prog" where
  "b_ignore m s = (Inr (), snd (m s))"

text \<open>A call that turns a failure into a value.\<close>

definition b_catch :: "('s, 'e, 'a) prog \<Rightarrow> ('s, 'e, 'e + 'a) prog" where
  "b_catch m s = (Inr (fst (m s)), snd (m s))"

definition b_query :: "('s \<Rightarrow> 'a) \<Rightarrow> ('s, 'e, 'a) prog" where
  "b_query f s = (Inr (f s), s)"

definition b_modify :: "('s \<Rightarrow> 's) \<Rightarrow> ('s, 'e, unit) prog" where
  "b_modify f s = (Inr (), f s)"

text \<open>A program on a part of the state.\<close>

definition b_part :: "('s \<Rightarrow> 't) \<Rightarrow> ('t \<Rightarrow> 's \<Rightarrow> 's) \<Rightarrow> ('t, 'e, 'a) prog \<Rightarrow> ('s, 'e, 'a) prog" where
  "b_part get put m s = (let (r, t) = m (get s) in (r, put t s))"

lemmas b_defs = b_return_def b_fail_def b_then_def b_ignore_def b_catch_def b_query_def b_modify_def b_part_def

text \<open>\<open>ends m P E s\<close>: from \<open>s\<close> the program returns into \<open>P\<close> or stops into \<open>E\<close>.\<close>

definition ends :: "('s, 'e, 'a) prog \<Rightarrow> ('a \<Rightarrow> 's \<Rightarrow> bool) \<Rightarrow> ('e \<Rightarrow> 's \<Rightarrow> bool) \<Rightarrow> 's \<Rightarrow> bool" where
  "ends m P E s = (case m s of (Inr a, s') \<Rightarrow> P a s' | (Inl e, s') \<Rightarrow> E e s')"

named_theorems ends_simps \<open>what a program ends in, call by call\<close>

lemma ends_return [ends_simps]: "ends (b_return a) P E = P a"
  by (auto simp: fun_eq_iff ends_def b_defs split: prod.split sum.split)

lemma ends_fail [ends_simps]: "ends (b_fail e) P E = E e"
  by (auto simp: fun_eq_iff ends_def b_defs split: prod.split sum.split)

lemma ends_query [ends_simps]: "ends (b_query f) P E s = P (f s) s"
  by (auto simp: ends_def b_defs split: prod.split sum.split)

lemma ends_modify [ends_simps]: "ends (b_modify g) P E s = P () (g s)"
  by (auto simp: ends_def b_defs split: prod.split sum.split)

lemma ends_ignore [ends_simps]: "ends (b_ignore m) P E = ends m (\<lambda>_. P ()) (\<lambda>_. P ())"
  by (auto simp: fun_eq_iff ends_def b_defs split: prod.split sum.split)

lemma ends_catch [ends_simps]: "ends (b_catch m) P E = ends m (\<lambda>a. P (Inr a)) (\<lambda>e. P (Inl e))"
  by (auto simp: fun_eq_iff ends_def b_defs split: prod.split sum.split)

lemma ends_part [ends_simps]: "ends (b_part get put m) P E s = ends m (\<lambda>a t. P a (put t s)) (\<lambda>e t. E e (put t s)) (get s)"
  by (auto simp: ends_def b_defs split: prod.split sum.split)

lemma ends_then [ends_simps]: "ends (b_then m f) P E = ends m (\<lambda>a. ends (f a) P E) E"
  by (auto simp: fun_eq_iff ends_def b_then_def split: prod.split sum.split)

lemma ends_if [ends_simps]: "ends (if c then m else n) P E s = (if c then ends m P E s else ends n P E s)"
  by simp

lemma ends_mono: "ends m P E s \<Longrightarrow> (\<And>a s. P a s \<Longrightarrow> P' a s) \<Longrightarrow> (\<And>e s. E e s \<Longrightarrow> E' e s) \<Longrightarrow> ends m P' E' s"
  by (auto simp: ends_def split: prod.splits sum.splits)

lemma endsD:
  "ends m P E s \<Longrightarrow> m s = (Inr a, s') \<Longrightarrow> P a s'" "ends m P E s \<Longrightarrow> m s = (Inl e, s') \<Longrightarrow> E e s'"
  by (simp_all add: ends_def)

lemma endsI: "(\<And>a s'. m s = (Inr a, s') \<Longrightarrow> P a s') \<Longrightarrow> (\<And>e s'. m s = (Inl e, s') \<Longrightarrow> E e s') \<Longrightarrow> ends m P E s"
  by (auto simp: ends_def split: prod.split sum.split)

text \<open>A computed result as a program, and the steps of a program whose failures do not matter.\<close>

definition b_result :: "'e + 'a \<Rightarrow> ('s, 'e, 'a) prog" where
  "b_result r s = (r, s)"

lemma ends_b_result [ends_simps]: "ends (b_result r) P E = (case r of Inl e \<Rightarrow> E e | Inr a \<Rightarrow> P a)"
  by (auto simp: fun_eq_iff ends_def b_result_def split: sum.split)

lemma ends_any: "(\<And>a s'. P a s') \<Longrightarrow> (\<And>e s'. E e s') \<Longrightarrow> ends m P E s"
  by (auto simp: ends_def split: prod.split sum.split)

lemma ends_step: "(\<And>a s'. ends (f a) P (\<lambda>_ _. True) s') \<Longrightarrow> ends (b_then m f) P (\<lambda>_ _. True) s"
  unfolding ends_then by (rule ends_any) simp_all

lemma ends_result_step:
  "(\<And>a. r = Inr a \<Longrightarrow> ends (f a) P (\<lambda>_ _. True) s) \<Longrightarrow> ends (b_then (b_result r) f) P (\<lambda>_ _. True) s"
  by (cases r) (simp_all add: ends_simps)

lemma ends_snd: "ends m (\<lambda>_. Q) (\<lambda>_. Q) s \<Longrightarrow> Q (snd (m s))"
  by (auto simp: ends_def split: prod.splits sum.splits)

end
