(* ===== verification/StoreWp.thy ===== *)
theory StoreWp
  imports QueueKv Fallible
begin

text \<open>
  Weakest preconditions for programs over the scripted store.  \<open>wp faulty m Q E en\<close> holds when \<open>m\<close>,
  started on the map \<open>en\<close>, ends in \<open>Q\<close> if it returns and in \<open>E\<close> if it stops with an error: with any
  script of faults when \<open>faulty\<close>, with none otherwise.
\<close>

type_synonym store = "(bytes, bytes) btree"

definition wp :: "bool \<Rightarrow> (kv, 'e, 'a) prog \<Rightarrow> ('a \<Rightarrow> store \<Rightarrow> bool) \<Rightarrow> ('e \<Rightarrow> store \<Rightarrow> bool) \<Rightarrow> store \<Rightarrow> bool" where
  "wp F m Q E en \<longleftrightarrow> (\<forall>sc. F \<or> sc = [] \<longrightarrow>
     (case m \<lparr>entries = en, script = sc\<rparr> of
        (Inr a, s) \<Rightarrow> (F \<or> script s = []) \<and> Q a (entries s)
      | (Inl e, s) \<Rightarrow> (F \<or> script s = []) \<and> E e (entries s)))"

lemma wpI:
  assumes "\<And>sc r s. F \<or> sc = [] \<Longrightarrow> m \<lparr>entries = en, script = sc\<rparr> = (r, s) \<Longrightarrow>
    (F \<or> script s = []) \<and> (case r of Inr a \<Rightarrow> Q a (entries s) | Inl e \<Rightarrow> E e (entries s))"
  shows "wp F m Q E en"
  unfolding wp_def using assms by (fastforce split: prod.splits sum.splits)

lemma wpD:
  assumes "wp F m Q E (entries s)" "F \<or> script s = []"
  shows "fst (m s) = Inr a \<Longrightarrow> Q a (entries (snd (m s)))" "fst (m s) = Inl e \<Longrightarrow> E e (entries (snd (m s)))"
    "F \<or> script (snd (m s)) = []"
proof -
  obtain r s' where run: "m s = (r, s')" by fastforce
  have "\<lparr>entries = entries s, script = script s\<rparr> = s" by simp
  then have "m \<lparr>entries = entries s, script = script s\<rparr> = (r, s')" using run by (simp only:)
  then have "(F \<or> script s' = []) \<and> (case r of Inr a \<Rightarrow> Q a (entries s') | Inl e \<Rightarrow> E e (entries s'))"
    using assms(1) [unfolded wp_def, rule_format, of "script s"] assms(2) by (simp split: sum.splits)
  then show "fst (m s) = Inr a \<Longrightarrow> Q a (entries (snd (m s)))" "fst (m s) = Inl e \<Longrightarrow> E e (entries (snd (m s)))"
    "F \<or> script (snd (m s)) = []"
    using run by auto
qed

named_theorems wp_simps \<open>exact rules, as equations\<close>

lemma wp_return [wp_simps]: "wp F (b_return a) Q E en \<longleftrightarrow> Q a en"
  by (auto simp: wp_def b_return_def)

lemma wp_fail [wp_simps]: "wp F (b_fail e) Q E en \<longleftrightarrow> E e en"
  by (auto simp: wp_def b_fail_def)

lemma wp_result [wp_simps]: "wp F (b_result r) Q E en \<longleftrightarrow> (case r of Inl e \<Rightarrow> E e en | Inr a \<Rightarrow> Q a en)"
  by (auto simp: wp_def b_result_def split: sum.split)

lemma wp_then:
  assumes "wp F m (\<lambda>a. wp F (f a) Q E) E en"
  shows "wp F (b_then m f) Q E en"
proof (rule wpI)
  fix sc r s
  assume sc: "F \<or> sc = []" and run: "b_then m f \<lparr>entries = en, script = sc\<rparr> = (r, s)"
  obtain r' s' where m: "m \<lparr>entries = en, script = sc\<rparr> = (r', s')" by fastforce
  note d = wpD [of F m _ E "\<lparr>entries = en, script = sc\<rparr>", simplified, OF assms sc, unfolded m, simplified]
  show "(F \<or> script s = []) \<and> (case r of Inr a \<Rightarrow> Q a (entries s) | Inl e \<Rightarrow> E e (entries s))"
  proof (cases r')
    case (Inl e)
    with run m d show ?thesis by (auto simp: b_then_def)
  next
    case (Inr a)
    with run m have "f a s' = (r, s)" by (simp add: b_then_def)
    with wpD [of F "f a" Q E s'] d(1) [OF Inr] d(3) show ?thesis by (auto split: sum.split)
  qed
qed

lemma wp_conseq:
  "wp F m Q E en \<Longrightarrow> (\<And>a en. Q a en \<Longrightarrow> Q' a en) \<Longrightarrow> (\<And>e en. E e en \<Longrightarrow> E' e en) \<Longrightarrow> wp F m Q' E' en"
  unfolding wp_def by (fastforce split: prod.splits sum.splits)

lemma wp_conj:
  "wp F m Q E en \<Longrightarrow> wp F m Q' E' en \<Longrightarrow> wp F m (\<lambda>a en. Q a en \<and> Q' a en) (\<lambda>e en. E e en \<and> E' e en) en"
  unfolding wp_def by (fastforce split: prod.splits sum.splits)

text \<open>A program that is right with faults is right without.\<close>

lemma wp_faultless:
  assumes "wp True m Q E en" "wp False m (\<lambda>_ _. True) E' en"
  shows "wp False m Q (\<lambda>e en. E e en \<and> E' e en) en"
  using assms unfolding wp_def by (fastforce split: prod.splits sum.splits)

section \<open>The store calls\<close>

text \<open>\<open>map\_err\<close> and the question mark: a failed call becomes an error of the crate.\<close>

definition lift_kv :: "(kv_error \<Rightarrow> 'e) \<Rightarrow> (kv \<Rightarrow> (kv_error + 'a) \<times> kv) \<Rightarrow> (kv, 'e, 'a) prog" where
  "lift_kv err m s = (case m s of (Inl e, s) \<Rightarrow> (Inl (err e), s) | (Inr a, s) \<Rightarrow> (Inr a, s))"

lemma all_kv_errors: "(\<forall>e. P (e :: kv_error)) \<longleftrightarrow> (\<forall>w. P (KvError w))"
  by (metis kv_error.exhaust)

lemma wp_read:
  "wp F (lift_kv err (kv_read f)) Q E en \<longleftrightarrow> Q (f en) en \<and> (F \<longrightarrow> (\<forall>w. E (err w) en))" (is "?l = ?r")
proof
  assume ?l
  note l = this [unfolded wp_def, rule_format]
  show ?r
    unfolding all_kv_errors
    using l [of "[]"] l [of "[Refused w]" for w] by (auto simp: kv_defs lift_kv_def)
next
  assume ?r
  then show ?l by (auto simp: wp_def kv_defs lift_kv_def split: list.split fault.split)
qed

lemma wp_write:
  "wp F (lift_kv err (kv_write f)) Q E en \<longleftrightarrow>
     Q () (f en) \<and> (F \<longrightarrow> (\<forall>w. E (err w) en \<and> E (err w) (f en)))" (is "?l = ?r")
proof
  assume ?l
  note l = this [unfolded wp_def, rule_format]
  show ?r
    unfolding all_kv_errors
    using l [of "[]"] l [of "[Refused w]" for w] l [of "[Torn w]" for w] by (auto simp: kv_defs lift_kv_def)
next
  assume ?r
  then show ?l by (auto simp: wp_def kv_defs lift_kv_def split: list.split fault.split)
qed

end
