(* ===== verification/QueueOps.thy ===== *)
theory QueueOps
  imports QueueCodec StoreWp "HOL-Library.Product_Lexorder"
begin

text \<open>
  \<open>rust/wa-queue/src/queue.rs\<close>: every operation of the queue, as a program over the store that either
  returns a value or stops with an error, leaving what it had written so far.  \<open>p\<close> is the policy and
  \<open>now\<close> the clock reading of the operation; \<open>sweep\<close> reads the clock three times.
\<close>

section \<open>Programs over the store\<close>

type_synonym 'a qm = "(kv, queue_error, 'a) prog"

abbreviation q_return :: "'a \<Rightarrow> 'a qm" where
  "q_return \<equiv> b_return"

abbreviation q_fail :: "queue_error \<Rightarrow> 'a qm" where
  "q_fail \<equiv> b_fail"

abbreviation q_then :: "'a qm \<Rightarrow> ('a \<Rightarrow> 'b qm) \<Rightarrow> 'b qm" where
  "q_then \<equiv> b_then"

abbreviation q_result :: "queue_error + 'a \<Rightarrow> 'a qm" where
  "q_result \<equiv> b_result"

abbreviation q_lift :: "(kv \<Rightarrow> (kv_error + 'a) \<times> kv) \<Rightarrow> 'a qm" where
  "q_lift \<equiv> lift_kv KvFailed"

definition q_get :: "bytes \<Rightarrow> bytes option qm" where
  "q_get k = q_lift (\<lambda>s. kv_get s k)"

definition q_put :: "bytes \<Rightarrow> bytes \<Rightarrow> unit qm" where
  "q_put k v = q_lift (\<lambda>s. kv_put s k v)"

definition q_del :: "bytes \<Rightarrow> unit qm" where
  "q_del k = q_lift (\<lambda>s. kv_del s k)"

definition q_scan :: "bytes \<Rightarrow> (bytes, bytes) btree qm" where
  "q_scan p = q_lift (\<lambda>s. kv_scan s p)"

text \<open>A \<open>for\<close> loop over a list, with the variables its body updates.\<close>

fun q_for :: "'a list \<Rightarrow> 'b \<Rightarrow> ('a \<Rightarrow> 'b \<Rightarrow> 'b qm) \<Rightarrow> 'b qm" where
  "q_for [] acc body = q_return acc"
| "q_for (x # xs) acc body = q_then (body x acc) (\<lambda>acc. q_for xs acc body)"

section \<open>Internals\<close>

definition q_save :: "job \<Rightarrow> unit qm" where
  "q_save j = q_put (job_key (j_id j)) (encode_job j)"

definition q_load :: "nat \<Rightarrow> job option qm" where
  "q_load jid = q_then (q_get (job_key jid)) (\<lambda>r. case r of
       None \<Rightarrow> q_return None
     | Some bs \<Rightarrow> q_then (q_result (decode_job jid bs)) (\<lambda>j. q_return (Some j)))"

definition all_jobs :: "job list qm" where
  "all_jobs = q_then (q_scan JOB) (\<lambda>es.
     q_then (q_for es [] (\<lambda>(key, v) jobs.
       case id_after key (length JOB) of
         None \<Rightarrow> q_return jobs
       | Some jid \<Rightarrow> q_then (q_result (decode_job jid v)) (\<lambda>j. q_return (jobs @ [j])))) (\<lambda>jobs.
     q_return (sort_key j_id jobs)))"

definition holds_lease :: "job \<Rightarrow> str \<Rightarrow> bool" where
  "holds_lease j worker \<longleftrightarrow> j_state j = Leased \<and> lease_worker j = Some worker"

definition put_index :: "job \<Rightarrow> unit qm" where
  "put_index j = (case j_state j of
       Ready \<Rightarrow> q_put (index_key j STATE_READY) []
     | Leased \<Rightarrow> q_put (index_key j STATE_LEASED) []
     | _ \<Rightarrow> q_return ())"

definition count_index :: "str \<Rightarrow> byte \<Rightarrow> nat qm" where
  "count_index queue st = q_then (q_scan (index_prefix queue st)) (\<lambda>es. q_return (length es))"

definition next_counter :: "bytes \<Rightarrow> nat qm" where
  "next_counter key = q_then (q_get key) (\<lambda>r.
     let n = (case Option.bind r u64_from_bytes of Some n \<Rightarrow> n | None \<Rightarrow> 1)
     in q_then (q_put key (be 8 (sat_add64 n 1))) (\<lambda>_. q_return n))"

definition record_alert :: "job \<Rightarrow> int \<Rightarrow> alert_kind \<Rightarrow> str \<Rightarrow> bool qm" where
  "record_alert j now kind reason =
     (let key = alert_key (j_id j) kind in
      q_then (q_get key) (\<lambda>r.
      if r \<noteq> None then q_return False
      else q_then (next_counter SEQ_ALERT) (\<lambda>seq.
      q_then (q_put key (encode_alert \<lparr>al_seq = seq, al_job = j_id j, al_queue = j_queue j, al_kind = kind,
          al_reason = sanitize reason, al_at = now, al_state = AlertReady\<rparr>)) (\<lambda>_.
      q_return True))))"

definition expire_at :: "job \<Rightarrow> int \<Rightarrow> str \<Rightarrow> unit qm" where
  "expire_at j now reason =
     q_then (q_del (index_key j STATE_READY)) (\<lambda>_.
     q_then (q_del (index_key j STATE_LEASED)) (\<lambda>_.
     let j = j\<lparr>j_state := Expired, lease_worker := None, lease_until := None,
       last_error := Some (sanitize reason), updated_at := now\<rparr> in
     q_then (q_save j) (\<lambda>_.
     q_then (record_alert j now KindExpired reason) (\<lambda>_.
     q_return ()))))"

definition dead_letter :: "job \<Rightarrow> int \<Rightarrow> str \<Rightarrow> bool \<Rightarrow> unit qm" where
  "dead_letter j now why keep_error =
     q_then (q_del (index_key j STATE_READY)) (\<lambda>_.
     q_then (q_del (index_key j STATE_LEASED)) (\<lambda>_.
     let j = (if keep_error then j else j\<lparr>last_error := Some (sanitize why)\<rparr>);
         j = j\<lparr>j_state := Dead, lease_worker := None, lease_until := None, updated_at := now\<rparr> in
     q_then (q_save j) (\<lambda>_.
     let reason = (case last_error j of Some r \<Rightarrow> r | None \<Rightarrow> sanitize why) in
     q_then (record_alert j now KindDead reason) (\<lambda>_.
     q_return ()))))"

text \<open>The body of the loop of \<open>recover_leases\<close> for one entry of the leased index.\<close>

definition recover_entry :: "policy \<Rightarrow> str \<Rightarrow> int \<Rightarrow> bytes \<times> bytes \<Rightarrow> nat \<Rightarrow> nat qm" where
  "recover_entry p queue now = (\<lambda>(key, _) recovered.
     case id_from_index_key key of
       None \<Rightarrow> q_then (q_del key) (\<lambda>_. q_return recovered)
     | Some jid \<Rightarrow> q_then (q_load jid) (\<lambda>r. case r of
         None \<Rightarrow> q_then (q_del key) (\<lambda>_. q_return recovered)
       | Some j \<Rightarrow>
           if j_queue j \<noteq> queue \<or> j_state j \<noteq> Leased then q_then (q_del key) (\<lambda>_. q_return recovered)
           else if (case lease_until j of Some u \<Rightarrow> u > now | None \<Rightarrow> False) then q_return recovered
           else
             let j = j\<lparr>lease_expiries := wrap32 (lease_expiries j + 1),
               last_error := Some (lit ''lease expired (worker did not settle)''),
               lease_worker := None, lease_until := None, updated_at := now\<rparr> in
             q_then (q_del key) (\<lambda>_.
             q_then
               (if (case fresh_until j of Some f \<Rightarrow> f \<le> now | None \<Rightarrow> False)
                then expire_at j now (lit ''fresh_until passed while leased'')
                else if lease_expiries j > max_lease_losses p
                then dead_letter j now (lit ''lease_lost'') False
                else if attempts j \<ge> j_max_attempts j
                then dead_letter j now (lit ''attempts exhausted'') False
                else
                  let j = j\<lparr>j_state := Ready,
                    not_before := sat_i64 (now + delay_ms (retry p) (lease_expiries j - 1))\<rparr> in
                  q_then (q_save j) (\<lambda>_. put_index j)) (\<lambda>_.
             q_return (recovered + 1)))))"

definition recover_leases :: "policy \<Rightarrow> str \<Rightarrow> int \<Rightarrow> nat qm" where
  "recover_leases p queue now =
     q_then (q_scan (index_prefix queue STATE_LEASED)) (\<lambda>es. q_for es 0 (recover_entry p queue now))"

section \<open>The producer side\<close>

definition validate_enqueue :: "policy \<Rightarrow> enqueue_request \<Rightarrow> unit qm" where
  "validate_enqueue p r =
    (if \<not> valid_name (er_queue r) 64 then q_fail (Invalid (BadQueueName (er_queue r)))
     else if length (er_payload r) > max_payload_bytes p
     then q_fail (TooLarge (length (er_payload r)) (max_payload_bytes p))
     else if (case er_max_attempts r of Some n \<Rightarrow> n | None \<Rightarrow> max_attempts p) = 0
     then q_fail (Invalid NoAttempts)
     else if (case er_fresh_for_ms r of Some ms \<Rightarrow> ms \<le> 0 | None \<Rightarrow> False)
     then q_fail (Invalid FreshNotPositive)
     else if (case er_deadline_in_ms r of Some ms \<Rightarrow> ms \<le> 0 | None \<Rightarrow> False)
     then q_fail (Invalid DeadlineNotPositive)
     else if (case er_dedupe_key r of Some k \<Rightarrow> k = [] \<or> length (utf8 k) > 256 \<or> list_ex is_control k | None \<Rightarrow> False)
     then q_fail (Invalid BadDedupeKey)
     else q_return ())"

text \<open>The job an accepted request becomes.\<close>

definition or_else :: "'a option \<Rightarrow> 'a option \<Rightarrow> 'a option" where
  "or_else a b = (case a of Some _ \<Rightarrow> a | None \<Rightarrow> b)"

definition request_job :: "policy \<Rightarrow> int \<Rightarrow> enqueue_request \<Rightarrow> nat \<Rightarrow> job" where
  "request_job p now r jid =
     \<lparr>j_id = jid, j_queue = er_queue r, j_payload = er_payload r, j_priority = er_priority r,
      not_before = (case er_not_before r of Some nb \<Rightarrow> nb | None \<Rightarrow> now),
      fresh_until = map_option (\<lambda>ms. sat_i64 (now + ms)) (or_else (er_fresh_for_ms r) (default_fresh_ms p)),
      deadline = map_option (\<lambda>ms. sat_i64 (now + ms)) (or_else (er_deadline_in_ms r) (default_deadline_ms p)),
      j_max_attempts = (case er_max_attempts r of Some n \<Rightarrow> n | None \<Rightarrow> max_attempts p),
      attempts = 0, lease_expiries = 0, j_dedupe = er_dedupe_key r, j_state = Ready,
      lease_worker = None, lease_until = None, last_error = None, j_result = None,
      progress_entries = 0, progress_bytes = 0, created_at = now, updated_at = now\<rparr>"

text \<open>The dedupe lookup: the job a claim names, if its record is there.\<close>

definition find_duplicate :: "enqueue_request \<Rightarrow> nat option qm" where
  "find_duplicate r = (case er_dedupe_key r of
       None \<Rightarrow> q_return None
     | Some k \<Rightarrow> q_then (q_get (dedupe_key (er_queue r) k)) (\<lambda>v.
         case Option.bind v id_from_bytes of
           None \<Rightarrow> q_return None
         | Some jid \<Rightarrow> q_then (q_load jid) (\<lambda>j. q_return (if j \<noteq> None then Some jid else None))))"

definition enqueue :: "policy \<Rightarrow> int \<Rightarrow> enqueue_request \<Rightarrow> enqueue_outcome qm" where
  "enqueue p now r =
     q_then (validate_enqueue p r) (\<lambda>_.
     let template = request_job p now r 0 in
     if (case fresh_until template of Some f \<Rightarrow> not_before template \<ge> f | None \<Rightarrow> False)
     then q_fail (Invalid NotBeforeAfterFresh)
     else
     q_then (find_duplicate r) (\<lambda>dup. case dup of
       Some jid \<Rightarrow> q_return \<lparr>eo_id = jid, dedupe_hit = True\<rparr>
     | None \<Rightarrow>
       q_then (count_index (er_queue r) STATE_READY) (\<lambda>ready.
       if ready \<ge> max_ready p then q_fail (Full (er_queue r) ready (max_ready p))
       else
       q_then (next_counter SEQ_ID) (\<lambda>jid.
       let j = request_job p now r jid in
       q_then (case j_dedupe j of
                 Some k \<Rightarrow> q_put (dedupe_key (j_queue j) k) (be 8 jid)
               | None \<Rightarrow> q_return ()) (\<lambda>_.
       q_then (q_save j) (\<lambda>_.
       q_then (put_index j) (\<lambda>_.
       q_return \<lparr>eo_id = jid, dedupe_hit = False\<rparr>)))))))"

definition q_job :: "nat \<Rightarrow> job option qm" where
  "q_job jid = q_load jid"

text \<open>\<open>self.job(id)?.ok\_or(NotFound)?\<close>\<close>

definition job_or_not_found :: "nat \<Rightarrow> job qm" where
  "job_or_not_found jid = q_then (q_job jid) (\<lambda>r. case r of
     Some j \<Rightarrow> q_return j | None \<Rightarrow> q_fail NotFound)"

definition progress :: "policy \<Rightarrow> int \<Rightarrow> nat \<Rightarrow> bytes \<Rightarrow> nat qm" where
  "progress p now jid chunk =
     q_then (job_or_not_found jid) (\<lambda>j.
     if progress_entries j \<ge> max_progress_entries p
       \<or> sat_add64 (progress_bytes j) (length chunk) > max_progress_bytes p
     then q_fail ProgressFull
     else
       let seq = progress_entries j;
           key = progress_prefix jid @ be 8 seq in
       q_then (q_put key chunk) (\<lambda>_.
       let j = j\<lparr>progress_entries := wrap32 (progress_entries j + 1),
         progress_bytes := wrap64 (progress_bytes j + length chunk), updated_at := now\<rparr> in
       q_then (q_save j) (\<lambda>_. q_return seq)))"

fun collect_progress :: "nat \<Rightarrow> nat \<Rightarrow> (bytes, bytes) btree \<Rightarrow> progress_entry list \<Rightarrow> progress_entry list" where
  "collect_progress after limit [] acc = acc"
| "collect_progress after limit ((key, v) # es) acc =
     (case (if progress_prefix_len \<le> length key then seq_from_bytes (drop progress_prefix_len key) else None) of
        None \<Rightarrow> collect_progress after limit es acc
      | Some seq \<Rightarrow>
          if seq < after \<or> length acc \<ge> limit then collect_progress after limit es acc
          else collect_progress after limit es (acc @ [\<lparr>pe_seq = seq, pe_bytes = v\<rparr>]))"

definition progress_since :: "nat \<Rightarrow> nat \<Rightarrow> nat \<Rightarrow> progress_entry list qm" where
  "progress_since jid after limit =
     q_then (q_scan (progress_prefix jid)) (\<lambda>es.
     q_return (sort_key pe_seq (collect_progress after limit es [])))"

section \<open>The worker side\<close>

text \<open>The loop of \<open>take\<close> over the ready index, with its early return.\<close>

fun take_loop :: "policy \<Rightarrow> str \<Rightarrow> str \<Rightarrow> int \<Rightarrow> int \<Rightarrow> (bytes, bytes) btree \<Rightarrow> take_outcome qm" where
  "take_loop p queue worker lease now [] = q_return TakeEmpty"
| "take_loop p queue worker lease now ((key, v) # es) =
     (let continue = (\<lambda>_. take_loop p queue worker lease now es) in
      case id_from_index_key key of
        None \<Rightarrow> q_then (q_del key) continue
      | Some jid \<Rightarrow> q_then (q_load jid) (\<lambda>r. case r of
          None \<Rightarrow> q_then (q_del key) continue
        | Some j \<Rightarrow>
            if j_queue j \<noteq> queue \<or> j_state j \<noteq> Ready then q_then (q_del key) continue
            else if (case fresh_until j of Some f \<Rightarrow> f \<le> now | None \<Rightarrow> False)
            then q_then (expire_at j now (lit ''fresh_until passed before it ran'')) continue
            else if attempts j \<ge> j_max_attempts j
            then q_then (dead_letter j now (lit ''attempts exhausted'') False) continue
            else if lease_expiries j > max_lease_losses p
            then q_then (dead_letter j now (lit ''lease_lost'') False) continue
            else if not_before j > now then continue ()
            else
              let j = j\<lparr>j_state := Leased, lease_worker := Some worker,
                lease_until := Some (sat_i64 (now + lease)), updated_at := now\<rparr> in
              q_then (q_save j) (\<lambda>_.
              q_then (q_del key) (\<lambda>_.
              q_then (put_index j) (\<lambda>_.
              q_return (TakenJob j))))))"

definition take_job :: "policy \<Rightarrow> int \<Rightarrow> str \<Rightarrow> str \<Rightarrow> int option \<Rightarrow> take_outcome qm" where
  "take_job p now queue worker lease =
    (if \<not> valid_name queue 64 then q_fail (Invalid (BadQueueName queue))
     else if \<not> valid_name worker 100 then q_fail (Invalid BadWorkerName)
     else
       let lease = (case lease of Some ms \<Rightarrow> ms | None \<Rightarrow> lease_ms p) in
       if lease \<le> 0 \<or> lease > max_lease_ms p then q_fail (Invalid (BadLease (max_lease_ms p)))
       else
         q_then (recover_leases p queue now) (\<lambda>_.
         let limit = limit_for p queue in
         q_then (count_index queue STATE_LEASED) (\<lambda>leased.
         if leased \<ge> limit then q_return (AtLimit leased limit)
         else q_then (q_scan (index_prefix queue STATE_READY)) (take_loop p queue worker lease now))))"

definition heartbeat :: "policy \<Rightarrow> int \<Rightarrow> nat \<Rightarrow> str \<Rightarrow> int option \<Rightarrow> int qm" where
  "heartbeat p now jid worker extend_ms =
     q_then (job_or_not_found jid) (\<lambda>j.
     if \<not> holds_lease j worker then q_fail LeaseLost
     else
       let extend_ms = (case extend_ms of Some ms \<Rightarrow> ms | None \<Rightarrow> lease_ms p) in
       if extend_ms \<le> 0 \<or> extend_ms > max_lease_ms p then q_fail (Invalid (BadLease (max_lease_ms p)))
       else
         let until = sat_i64 (now + extend_ms) in
         q_then (q_save (j\<lparr>lease_until := Some until, updated_at := now\<rparr>)) (\<lambda>_. q_return until))"

definition settle :: "policy \<Rightarrow> int \<Rightarrow> nat \<Rightarrow> str option \<Rightarrow> bytes \<Rightarrow> job qm" where
  "settle p now jid worker result =
     q_then (job_or_not_found jid) (\<lambda>j.
     if j_state j \<noteq> Leased then q_fail LeaseLost
     else if (case worker of Some w \<Rightarrow> \<not> holds_lease j w | None \<Rightarrow> False) then q_fail LeaseLost
     else if length result > max_result_bytes p then q_fail (TooLarge (length result) (max_result_bytes p))
     else
       let j = j\<lparr>j_state := Done, j_result := Some result, lease_worker := None, lease_until := None,
         last_error := None, updated_at := now\<rparr> in
       q_then (q_save j) (\<lambda>_.
       q_then (q_del (index_key j STATE_LEASED)) (\<lambda>_.
       q_return j)))"

definition done_job :: "policy \<Rightarrow> int \<Rightarrow> nat \<Rightarrow> bytes \<Rightarrow> job qm" where
  "done_job p now jid result = settle p now jid None result"

definition done_by :: "policy \<Rightarrow> int \<Rightarrow> nat \<Rightarrow> str \<Rightarrow> bytes \<Rightarrow> job qm" where
  "done_by p now jid worker result = settle p now jid (Some worker) result"

definition fail_inner :: "policy \<Rightarrow> int \<Rightarrow> nat \<Rightarrow> str option \<Rightarrow> str \<Rightarrow> fail_outcome qm" where
  "fail_inner p now jid worker reason =
     q_then (job_or_not_found jid) (\<lambda>j.
     if j_state j \<noteq> Leased then q_fail LeaseLost
     else if (case worker of Some w \<Rightarrow> \<not> holds_lease j w | None \<Rightarrow> False) then q_fail LeaseLost
     else
       let j = j\<lparr>attempts := wrap32 (attempts j + 1), lease_worker := None, lease_until := None,
         last_error := Some (sanitize reason), updated_at := now\<rparr> in
       q_then (q_del (index_key j STATE_LEASED)) (\<lambda>_.
       if attempts j \<ge> j_max_attempts j then
         q_then (dead_letter j now (lit ''attempts exhausted'') True) (\<lambda>_.
         q_return \<lparr>fo_state = Dead, fo_attempts = attempts j, fo_not_before = None, fo_dead = True\<rparr>)
       else
         let delay = delay_ms (retry p) (attempts j);
             j = j\<lparr>j_state := Ready, not_before := sat_i64 (now + delay)\<rparr> in
         q_then (q_save j) (\<lambda>_.
         q_then (put_index j) (\<lambda>_.
         q_return \<lparr>fo_state = Ready, fo_attempts = attempts j, fo_not_before = Some (not_before j),
           fo_dead = False\<rparr>))))"

definition fail_job :: "policy \<Rightarrow> int \<Rightarrow> nat \<Rightarrow> str \<Rightarrow> fail_outcome qm" where
  "fail_job p now jid reason = fail_inner p now jid None reason"

definition fail_by :: "policy \<Rightarrow> int \<Rightarrow> nat \<Rightarrow> str \<Rightarrow> str \<Rightarrow> fail_outcome qm" where
  "fail_by p now jid worker reason = fail_inner p now jid (Some worker) reason"

definition worker_behind :: "str \<Rightarrow> job \<Rightarrow> bool" where
  "worker_behind pre j = (case lease_worker j of Some w \<Rightarrow> prefix pre w | None \<Rightarrow> False)"

definition handover_entry :: "str \<Rightarrow> str \<Rightarrow> int \<Rightarrow> bytes \<times> bytes \<Rightarrow> nat \<Rightarrow> nat qm" where
  "handover_entry queue pre now = (\<lambda>(key, _) handed.
     case id_from_index_key key of
       None \<Rightarrow> q_then (q_del key) (\<lambda>_. q_return handed)
     | Some jid \<Rightarrow> q_then (q_load jid) (\<lambda>r. case r of
         None \<Rightarrow> q_then (q_del key) (\<lambda>_. q_return handed)
       | Some j \<Rightarrow>
           if j_queue j \<noteq> queue \<or> j_state j \<noteq> Leased then q_then (q_del key) (\<lambda>_. q_return handed)
           else if \<not> worker_behind pre j then q_return handed
           else
             q_then (q_del key) (\<lambda>_.
             let j = j\<lparr>lease_worker := None, lease_until := None, updated_at := now\<rparr> in
             q_then
               (if (case fresh_until j of Some f \<Rightarrow> f \<le> now | None \<Rightarrow> False)
                then expire_at j now (lit ''fresh_until passed while leased'')
                else
                  let j = j\<lparr>j_state := Ready, not_before := now\<rparr> in
                  q_then (q_save j) (\<lambda>_. put_index j)) (\<lambda>_.
             q_return (handed + 1)))))"

definition handover :: "int \<Rightarrow> str \<Rightarrow> str \<Rightarrow> nat qm" where
  "handover now queue pre =
    (if \<not> valid_name queue 64 then q_fail (Invalid (BadQueueName queue))
     else if pre = [] then q_fail (Invalid EmptyPrefix)
     else q_then (q_scan (index_prefix queue STATE_LEASED)) (\<lambda>es. q_for es 0 (handover_entry queue pre now)))"

definition in_flight :: "str \<Rightarrow> str \<Rightarrow> nat qm" where
  "in_flight queue pre =
    (if \<not> valid_name queue 64 then q_fail (Invalid (BadQueueName queue))
     else if pre = [] then q_fail (Invalid EmptyPrefix)
     else q_then (q_scan (index_prefix queue STATE_LEASED)) (\<lambda>es. q_for es 0 (\<lambda>(key, _) held.
       case id_from_index_key key of
         None \<Rightarrow> q_return held
       | Some jid \<Rightarrow> q_then (q_load jid) (\<lambda>r. case r of
           Some j \<Rightarrow> q_return (if j_queue j = queue \<and> j_state j = Leased \<and> worker_behind pre j
                                then held + 1 else held)
         | None \<Rightarrow> q_return held))))"

section \<open>Freshness, sweeps, alerts\<close>

definition expire_stale_at :: "int \<Rightarrow> nat list qm" where
  "expire_stale_at now =
     q_then all_jobs (\<lambda>jobs. q_for jobs [] (\<lambda>j expired.
       if j_state j \<noteq> Ready then q_return expired
       else if (case fresh_until j of Some f \<Rightarrow> f \<le> now | None \<Rightarrow> False) then
         q_then (expire_at j now (lit ''fresh_until passed before it ran'')) (\<lambda>_.
         q_return (expired @ [j_id j]))
       else q_return expired))"

definition timeout_alerts :: "int \<Rightarrow> nat qm" where
  "timeout_alerts now =
     q_then all_jobs (\<lambda>jobs. q_for jobs 0 (\<lambda>j raised.
       if is_terminal (j_state j) then q_return raised
       else (case deadline j of
           None \<Rightarrow> q_return raised
         | Some d \<Rightarrow>
             if d > now then q_return raised
             else
               q_then (record_alert j now KindTimedOut
                 (lit ''not finished by deadline (state '' @ state_as_str (j_state j) @ lit '')'')) (\<lambda>new.
               q_return (if new then raised + 1 else raised)))))"

definition retention :: "policy \<Rightarrow> job_state \<Rightarrow> int option" where
  "retention p st = (case st of
       Done \<Rightarrow> Some (done_retention_ms p)
     | Dead \<Rightarrow> Some (dead_retention_ms p)
     | Expired \<Rightarrow> Some (expired_retention_ms p)
     | _ \<Rightarrow> None)"

definition reap_job :: "policy \<Rightarrow> int \<Rightarrow> job \<Rightarrow> nat \<Rightarrow> nat qm" where
  "reap_job p now j count = (case retention p (j_state j) of
       None \<Rightarrow> q_return count
     | Some keep \<Rightarrow>
         if sat_i64 (now - updated_at j) < keep then q_return count
         else
           q_then (q_scan (progress_prefix (j_id j))) (\<lambda>es.
           q_then (q_for es () (\<lambda>(key, _) _. q_del key)) (\<lambda>_.
           q_then (case j_dedupe j of
                     None \<Rightarrow> q_return ()
                   | Some k \<Rightarrow>
                       let key = dedupe_key (j_queue j) k in
                       q_then (q_get key) (\<lambda>v.
                       if Option.bind v id_from_bytes = Some (j_id j) then q_del key else q_return ())) (\<lambda>_.
           q_then (q_del (index_key j STATE_READY)) (\<lambda>_.
           q_then (q_del (index_key j STATE_LEASED)) (\<lambda>_.
           q_then (q_del (job_key (j_id j))) (\<lambda>_.
           q_return (count + 1))))))))"

definition reap :: "policy \<Rightarrow> int \<Rightarrow> nat qm" where
  "reap p now = q_then all_jobs (\<lambda>jobs. q_for jobs 0 (reap_job p now))"

definition queues :: "str list qm" where
  "queues = q_then all_jobs (\<lambda>jobs. q_return (remdups_adj (sort (map j_queue jobs))))"

definition sweep :: "policy \<Rightarrow> int \<Rightarrow> int \<Rightarrow> int \<Rightarrow> sweep_outcome qm" where
  "sweep p now now_expire now_reap =
     q_then queues (\<lambda>names.
     q_then (q_for names 0 (\<lambda>queue n. q_then (recover_leases p queue now) (\<lambda>m. q_return (n + m)))) (\<lambda>recovered.
     q_then (expire_stale_at now_expire) (\<lambda>expired.
     q_then (timeout_alerts now) (\<lambda>timed.
     q_then (reap p now_reap) (\<lambda>gone.
     q_return \<lparr>leases_recovered = recovered, so_expired = length expired, timed_out = timed,
       reaped = gone\<rparr>)))))"

text \<open>The scan of \<open>next\_alerts\<close>: the alerts still to send with their keys, and how many were too old.\<close>

definition ready_alerts :: "policy \<Rightarrow> int \<Rightarrow> ((bytes \<times> alert) list \<times> nat) qm" where
  "ready_alerts p now =
     q_then (q_scan ALERT) (\<lambda>es. q_for es ([], 0) (\<lambda>(key, v) (ready, dropped).
       q_then (q_result (decode_alert key v)) (\<lambda>a.
       if al_state a \<noteq> AlertReady then q_return (ready, dropped)
       else if al_at a < sat_i64 (now - max_age_ms (alert_policy p)) then
         q_then (q_put key (encode_alert (a\<lparr>al_state := AlertDropped\<rparr>))) (\<lambda>_.
         q_return (ready, dropped + 1))
       else q_return (ready @ [(key, a)], dropped))))"

definition next_alerts :: "policy \<Rightarrow> int \<Rightarrow> alert_batch option qm" where
  "next_alerts p now =
     q_then (q_get ALERT_LAST) (\<lambda>r.
     if (case Option.bind r i64_from_bytes of
           Some sent \<Rightarrow> sent > sat_i64 (now - min_gap_ms (alert_policy p)) | None \<Rightarrow> False)
     then q_return None
     else
     q_then (ready_alerts p now) (\<lambda>(ready, dropped).
     if ready = [] then q_return None
     else
       let ready = sort_key (\<lambda>(_, a). (al_at a, al_seq a)) ready;
           m = max (batch_max (alert_policy p)) 1;
           overflow = length ready - m in
       q_then (q_for (take m ready) [] (\<lambda>(key, a) items.
         let a = a\<lparr>al_state := AlertSent\<rparr> in
         q_then (q_put key (encode_alert a)) (\<lambda>_. q_return (items @ [a])))) (\<lambda>items.
       q_then (q_put ALERT_LAST (be_i64 now)) (\<lambda>_.
       q_return (Some \<lparr>ab_items = items, ab_overflow = overflow, ab_dropped = dropped\<rparr>)))))"

section \<open>Admin\<close>

definition q_list :: "str \<Rightarrow> job_state option \<Rightarrow> nat \<Rightarrow> job list qm" where
  "q_list queue state limit =
     q_then all_jobs (\<lambda>jobs.
     q_return (take limit (sort_key j_id
       (filter (\<lambda>j. j_queue j = queue \<and> (case state of None \<Rightarrow> True | Some want \<Rightarrow> j_state j = want)) jobs))))"

definition dead_letters :: "str \<Rightarrow> nat \<Rightarrow> job list qm" where
  "dead_letters queue limit =
     q_then all_jobs (\<lambda>jobs.
     q_return (take limit (sort_key (\<lambda>j. (updated_at j, j_id j))
       (filter (\<lambda>j. j_queue j = queue \<and> j_state j = Dead) jobs))))"

definition q_alerts :: "alert_state option \<Rightarrow> nat \<Rightarrow> alert list qm" where
  "q_alerts state limit =
     q_then (q_scan ALERT) (\<lambda>es.
     q_then (q_for es [] (\<lambda>(key, v) alerts.
       q_then (q_result (decode_alert key v)) (\<lambda>a.
       q_return (if (case state of None \<Rightarrow> True | Some want \<Rightarrow> al_state a = want)
                 then alerts @ [a] else alerts)))) (\<lambda>alerts.
     q_return (take limit (sort_key (\<lambda>a. (al_at a, al_seq a)) alerts))))"

definition count_job :: "int \<Rightarrow> str \<Rightarrow> job \<Rightarrow> queue_stats \<times> int option \<Rightarrow> queue_stats \<times> int option" where
  "count_job now queue j = (\<lambda>(st, oldest).
    (if j_queue j \<noteq> queue then (st, oldest)
     else
       let st = st\<lparr>st_progress_bytes := wrap64 (st_progress_bytes st + progress_bytes j)\<rparr> in
       case j_state j of
         Ready \<Rightarrow>
           (let st = st\<lparr>st_ready := st_ready st + 1\<rparr>;
                st = (if not_before j > now then st\<lparr>st_retrying := st_retrying st + 1\<rparr> else st)
            in (st, Some (case oldest of None \<Rightarrow> created_at j | Some at \<Rightarrow> min at (created_at j))))
       | Leased \<Rightarrow> (st\<lparr>st_leased := st_leased st + 1\<rparr>, oldest)
       | Done \<Rightarrow> (st\<lparr>st_done := st_done st + 1\<rparr>, oldest)
       | Dead \<Rightarrow> (st\<lparr>st_dead := st_dead st + 1\<rparr>, oldest)
       | Expired \<Rightarrow> (st\<lparr>st_expired := st_expired st + 1\<rparr>, oldest)))"

definition stats :: "int \<Rightarrow> str \<Rightarrow> queue_stats qm" where
  "stats now queue =
     q_then all_jobs (\<lambda>jobs.
     let (st, oldest) = fold (count_job now queue) jobs (stats_default, None) in
     q_return (st\<lparr>oldest_ready_age_ms :=
       (case oldest of None \<Rightarrow> 0 | Some at \<Rightarrow> max (wrap_i64 (now - at)) 0)\<rparr>))"

definition requeue_with :: "policy \<Rightarrow> int \<Rightarrow> nat \<Rightarrow> requeue_options \<Rightarrow> job qm" where
  "requeue_with p now jid opts =
     q_then (job_or_not_found jid) (\<lambda>j.
     if j_state j \<noteq> Dead then q_fail (Invalid (NotDeadLettered (j_state j)))
     else
       let j = (if attempts_reset opts then j\<lparr>attempts := 0, lease_expiries := 0\<rparr> else j);
           j = (case ro_max_attempts opts of Some n \<Rightarrow> j\<lparr>j_max_attempts := max n 1\<rparr> | None \<Rightarrow> j);
           j = (if refresh_fresh opts
                then j\<lparr>fresh_until := map_option (\<lambda>ms. sat_i64 (now + ms)) (default_fresh_ms p)\<rparr> else j);
           j = j\<lparr>j_state := Ready, not_before := now, lease_worker := None, lease_until := None,
             last_error := Some (lit ''requeued''), updated_at := now\<rparr> in
       q_then (q_save j) (\<lambda>_.
       q_then (q_del (index_key j STATE_LEASED)) (\<lambda>_.
       q_then (put_index j) (\<lambda>_.
       q_return j))))"

definition requeue :: "policy \<Rightarrow> int \<Rightarrow> nat \<Rightarrow> job qm" where
  "requeue p now jid = requeue_with p now jid requeue_default"

text \<open>What the job records say the index and the dedupe claims should be.\<close>

definition index_wanted :: "job list \<Rightarrow> (bytes \<times> nat) list" where
  "index_wanted jobs = concat (map (\<lambda>j. case j_state j of
       Ready \<Rightarrow> [(index_key j STATE_READY, j_id j)]
     | Leased \<Rightarrow> [(index_key j STATE_LEASED, j_id j)]
     | _ \<Rightarrow> []) jobs)"

definition dedupe_wanted :: "job list \<Rightarrow> (bytes \<times> nat) list" where
  "dedupe_wanted jobs = concat (map (\<lambda>j. case j_dedupe j of
       Some k \<Rightarrow> [(dedupe_key (j_queue j) k, j_id j)] | None \<Rightarrow> []) jobs)"

definition repair :: "repair_outcome qm" where
  "repair =
     q_then all_jobs (\<lambda>jobs.
     let wanted = index_wanted jobs; claims = dedupe_wanted jobs in
     q_then (q_scan INDEX) (\<lambda>es.
     q_then (q_for es 0 (\<lambda>(key, _) n.
       if list_ex (\<lambda>(want, _). want = key) wanted then q_return n
       else q_then (q_del key) (\<lambda>_. q_return (n + 1)))) (\<lambda>removed.
     q_then (q_for wanted 0 (\<lambda>(key, _) n.
       q_then (q_get key) (\<lambda>v.
       if v = None then q_then (q_put key []) (\<lambda>_. q_return (n + 1)) else q_return n))) (\<lambda>added.
     q_then (q_scan DEDUPE) (\<lambda>ds.
     q_then (q_for ds 0 (\<lambda>(key, v) n.
       let holder = id_from_bytes v;
           want = map_option snd (List.find (\<lambda>(want, _). want = key) claims) in
       if want = None \<or> want \<noteq> holder then q_then (q_del key) (\<lambda>_. q_return (n + 1))
       else q_return n)) (\<lambda>dropped.
     q_then (q_for claims 0 (\<lambda>(key, jid) n.
       q_then (q_get key) (\<lambda>v.
       if id_from_bytes (case v of Some bs \<Rightarrow> bs | None \<Rightarrow> []) \<noteq> Some jid
       then q_then (q_put key (be 8 jid)) (\<lambda>_. q_return (n + 1))
       else q_return n))) (\<lambda>claimed.
     q_return \<lparr>index_added = added, index_removed = removed, dedupe_added = claimed,
       dedupe_removed = dropped\<rparr>)))))))"

end
