(* ===== verification/QueueCodecLaws.thy ===== *)
theory QueueCodecLaws
  imports QueueCodec
begin

text \<open>
  The record format round trips, is decoded whole or not at all, and the index keys sort by priority
  and age.
\<close>

section \<open>Parsing back what was written\<close>

text \<open>\<open>parses p out v\<close>: at the start of \<open>out\<close>, wherever it stands in the buffer, \<open>p\<close> returns \<open>v\<close> and
  stops at its end; and it refuses every buffer that ends inside \<open>out\<close>.\<close>

definition parses :: "'a rd \<Rightarrow> bytes \<Rightarrow> 'a \<Rightarrow> bool" where
  "parses p out v \<longleftrightarrow>
    (\<forall>pre post. length pre + length out \<le> u64_max \<longrightarrow>
       p \<lparr>rd_buf = pre @ out @ post, rd_at = length pre\<rparr>
         = Inr (v, \<lparr>rd_buf = pre @ out @ post, rd_at = length pre + length out\<rparr>)) \<and>
    (\<forall>pre k. length pre + length out \<le> u64_max \<longrightarrow> k < length out \<longrightarrow>
       (\<exists>w. p \<lparr>rd_buf = pre @ take k out, rd_at = length pre\<rparr> = Inl (Corrupt w)))"

lemma parsesD:
  assumes "parses p out v" "length pre + length out \<le> u64_max"
  shows "p \<lparr>rd_buf = pre @ out @ post, rd_at = length pre\<rparr>
      = Inr (v, \<lparr>rd_buf = pre @ out @ post, rd_at = length pre + length out\<rparr>)"
    "k < length out \<Longrightarrow> \<exists>w. p \<lparr>rd_buf = pre @ take k out, rd_at = length pre\<rparr> = Inl (Corrupt w)"
  using assms by (simp_all add: parses_def)

lemma parses_take: "length out = n \<Longrightarrow> parses (rd_take n) out out"
  by (auto simp: parses_def rd_take_def)

lemma parses_return: "parses (rd_return v) [] v"
  by (simp add: parses_def rd_return_def)

lemma parses_bind:
  assumes p: "parses p o1 a" and f: "parses (f a) o2 b"
  shows "parses (rd_bind p f) (o1 @ o2) b"
  unfolding parses_def
proof (intro conjI allI impI)
  fix pre post :: bytes
  assume "length pre + length (o1 @ o2) \<le> u64_max"
  then show "rd_bind p f \<lparr>rd_buf = pre @ (o1 @ o2) @ post, rd_at = length pre\<rparr>
      = Inr (b, \<lparr>rd_buf = pre @ (o1 @ o2) @ post, rd_at = length pre + length (o1 @ o2)\<rparr>)"
    using parsesD(1) [OF p, of pre "o2 @ post"] parsesD(1) [OF f, of "pre @ o1" post]
    by (simp add: rd_bind_def add.assoc)
next
  fix pre :: bytes and k
  assume len: "length pre + length (o1 @ o2) \<le> u64_max" and k: "k < length (o1 @ o2)"
  show "\<exists>w. rd_bind p f \<lparr>rd_buf = pre @ take k (o1 @ o2), rd_at = length pre\<rparr> = Inl (Corrupt w)"
  proof (cases "k < length o1")
    case True
    then obtain w where "p \<lparr>rd_buf = pre @ take k o1, rd_at = length pre\<rparr> = Inl (Corrupt w)"
      using parsesD(2) [OF p, of pre k] len by auto
    with True show ?thesis by (simp add: rd_bind_def)
  next
    case False
    then have k': "k - length o1 < length o2" using k by simp
    then obtain w where
      "f a \<lparr>rd_buf = (pre @ o1) @ take (k - length o1) o2, rd_at = length (pre @ o1)\<rparr> = Inl (Corrupt w)"
      using parsesD(2) [OF f, of "pre @ o1" "k - length o1"] len by auto
    with False show ?thesis
      using parsesD(1) [OF p, of pre "take (k - length o1) o2"] len by (simp add: rd_bind_def)
  qed
qed

lemma parses_map: "parses p out a \<Longrightarrow> parses (rd_bind p (\<lambda>x. rd_return (f x))) out (f a)"
  using parses_bind [of p out a "\<lambda>x. rd_return (f x)" "[]" "f a"] by (simp add: parses_return)

lemma parses_u8: "parses rd_u8 [b] b"
  unfolding rd_u8_def using parses_map [OF parses_take, of "[b]" 1 hd] by simp

lemma parses_u32: "v \<le> u32_max \<Longrightarrow> parses rd_u32 (be 4 v) v"
  unfolding rd_u32_def using parses_map [OF parses_take, of "be 4 v" 4 of_be] by simp

lemma parses_u64: "v \<le> u64_max \<Longrightarrow> parses rd_u64 (be 8 v) v"
  unfolding rd_u64_def using parses_map [OF parses_take, of "be 8 v" 8 of_be] by simp

lemma length_be_i64 [simp]: "length (be_i64 v) = 8"
  by (simp add: be_i64_def)

lemma parses_i64: "is_i64 v \<Longrightarrow> parses rd_i64 (be_i64 v) v"
  unfolding rd_i64_def using parses_map [OF parses_take, of "be_i64 v" 8 of_be_i64] by simp

text \<open>What fits a length prefix.\<close>

definition bytes_ok :: "bytes \<Rightarrow> bool" where
  "bytes_ok b \<longleftrightarrow> length b \<le> u32_max"

definition str_ok :: "str \<Rightarrow> bool" where
  "str_ok s \<longleftrightarrow> valid_str s \<and> length (utf8 s) \<le> u32_max"

lemma parses_bytes: "bytes_ok v \<Longrightarrow> parses rd_bytes (bytesb v) v"
  unfolding rd_bytes_def bytesb_def bytes_ok_def
  by (simp add: wrap32_id) (rule parses_bind [OF parses_u32 parses_take], simp_all)

lemma parses_string: "str_ok v \<Longrightarrow> parses rd_string (strb v) v"
  unfolding rd_string_def strb_def
  using parses_bind [OF parses_bytes, of "utf8 v"
      "\<lambda>b. case from_utf8 b of Some s \<Rightarrow> rd_return s | None \<Rightarrow> rd_fail NotUtf8" "[]" v]
  by (simp add: str_ok_def bytes_ok_def from_utf8_utf8 parses_return)

lemma parses_cons: "parses (f b) out v \<Longrightarrow> parses (rd_bind rd_u8 f) (b # out) v"
  using parses_bind [OF parses_u8, of f b out v] by simp

lemma parses_option_None: "parses (rd_option p) [0] None"
  unfolding rd_option_def by (rule parses_cons) (simp add: parses_return)

lemma parses_option_Some: "parses p out v \<Longrightarrow> parses (rd_option p) (1 # out) (Some v)"
  unfolding rd_option_def by (rule parses_cons) (simp add: parses_map)

lemma parses_opt_string: "\<forall>s \<in> set_option v. str_ok s \<Longrightarrow> parses opt_string (opt_strb v) v"
  by (cases v) (simp_all add: opt_string_def opt_strb_def parses_option_None parses_option_Some parses_string)

lemma parses_opt_i64: "\<forall>i \<in> set_option v. is_i64 i \<Longrightarrow> parses opt_i64 (opt_i64b v) v"
  by (cases v) (simp_all add: opt_i64_def opt_i64b_def parses_option_None parses_option_Some parses_i64)

lemma parses_opt_bytes: "\<forall>b \<in> set_option v. bytes_ok b \<Longrightarrow> parses opt_bytes (opt_bytesb v) v"
  by (cases v) (simp_all add: opt_bytes_def opt_bytesb_def parses_option_None parses_option_Some parses_bytes)

lemma parses_code:
  assumes "\<And>r. f (c :: byte) r = Inr (v, r)"
  shows "parses (rd_bind rd_u8 f) [c] v"
proof -
  have "f c = rd_return v" using assms by (auto simp: rd_return_def)
  then show ?thesis using parses_bind [OF parses_u8, of f c "[]" v] by (simp add: parses_return)
qed

lemma parses_state: "parses (rd_bind rd_u8 state_from) [state_code s] s"
  by (rule parses_code) (cases s; simp add: state_from_def rd_return_def)

lemma parses_kind: "parses (rd_bind rd_u8 rd_kind) [kind_code k] k"
  by (rule parses_code) (cases k; simp add: rd_kind_def kind_from_code_def)

lemma parses_alert_state: "parses (rd_bind rd_u8 alert_state_from) [alert_state_code s] s"
  by (rule parses_code) (cases s; simp add: alert_state_from_def rd_return_def)

text \<open>A whole record.\<close>

lemma decode_whole_parses:
  assumes "parses p out v" "length out \<le> u64_max"
  shows "decode_whole p out = Inr v"
    "k < length out \<Longrightarrow> \<exists>w. decode_whole p (take k out) = Inl (Corrupt w)"
    "decode_whole p (out @ x # xs) = Inl (Corrupt TrailingBytes)"
proof -
  note p = parsesD [OF assms(1), of "[]", simplified]
  show "decode_whole p out = Inr v"
    using p(1) [OF assms(2), of "[]"]
    by (simp add: decode_whole_def reader_new_def rd_bind_def rd_finished_def rd_return_def)
  show "decode_whole p (out @ x # xs) = Inl (Corrupt TrailingBytes)"
    using p(1) [OF assms(2), of "x # xs"]
    by (simp add: decode_whole_def reader_new_def rd_bind_def rd_finished_def rd_return_def)
  show "\<exists>w. decode_whole p (take k out) = Inl (Corrupt w)" if "k < length out"
    using p(2) [OF assms(2) that]
    by (auto simp: decode_whole_def reader_new_def rd_bind_def)
qed

section \<open>Jobs and alerts\<close>

text \<open>The ranges of a job's fields.\<close>

definition job_wf :: "job \<Rightarrow> bool" where
  "job_wf j \<longleftrightarrow> j_id j \<le> u64_max \<and> str_ok (j_queue j) \<and> bytes_ok (j_payload j) \<and>
     j_priority j \<le> u32_max \<and> is_i64 (not_before j) \<and> is_i64 (created_at j) \<and> is_i64 (updated_at j) \<and>
     (\<forall>i \<in> set_option (fresh_until j). is_i64 i) \<and> (\<forall>i \<in> set_option (deadline j). is_i64 i) \<and>
     j_max_attempts j \<le> u32_max \<and> attempts j \<le> u32_max \<and> lease_expiries j \<le> u32_max \<and>
     (\<forall>s \<in> set_option (j_dedupe j). str_ok s) \<and> (\<forall>s \<in> set_option (lease_worker j). str_ok s) \<and>
     (\<forall>i \<in> set_option (lease_until j). is_i64 i) \<and> (\<forall>s \<in> set_option (last_error j). str_ok s) \<and>
     (\<forall>b \<in> set_option (j_result j). bytes_ok b) \<and> progress_entries j \<le> u32_max \<and>
     progress_bytes j \<le> u64_max"

lemma length_strb: "length (strb s) = 4 + length (utf8 s)" "length (bytesb b) = 4 + length b"
  by (simp_all add: strb_def bytesb_def)

lemma length_opts:
  "\<forall>s \<in> set_option so. str_ok s \<Longrightarrow> length (opt_strb so) \<le> 5 + u32_max"
  "\<forall>b \<in> set_option bo. bytes_ok b \<Longrightarrow> length (opt_bytesb bo) \<le> 5 + u32_max"
  "length (opt_i64b io) \<le> 9"
  by (auto simp: opt_strb_def opt_bytesb_def opt_i64b_def length_strb str_ok_def bytes_ok_def split: option.split)

lemma length_encode_job: "job_wf j \<Longrightarrow> length (encode_job j) \<le> u64_max"
  using length_opts(1) [of "j_dedupe j"] length_opts(1) [of "lease_worker j"] length_opts(1) [of "last_error j"]
    length_opts(2) [of "j_result j"] length_opts(3) [of "fresh_until j"] length_opts(3) [of "deadline j"]
    length_opts(3) [of "lease_until j"]
  unfolding job_wf_def str_ok_def bytes_ok_def encode_job_def length_append length_strb
  by (simp add: str_ok_def bytes_ok_def)

lemmas parses_fields = parses_u64 parses_u32 parses_i64 parses_string parses_bytes parses_opt_i64
  parses_opt_string parses_opt_bytes

lemmas parses_codes = parses_state parses_kind parses_alert_state

lemma parses_end: "parses p out a \<Longrightarrow> f a = rd_return b \<Longrightarrow> parses (rd_bind p f) out b"
  using parses_bind [of p out a f "[]" b] by (simp add: parses_return)

lemma parses_job: "job_wf j \<Longrightarrow> parses (decode_fields (j_id j)) (encode_job j) j"
  unfolding job_wf_def encode_job_def decode_fields_def
  apply (elim conjE)
  apply (rule parses_bind, rule parses_u64, assumption)
  apply (simp only: if_False not_True_eq_False if_True simp_thms)
  apply (rule parses_bind, (rule parses_fields, assumption | rule parses_codes))+
  apply (rule parses_end, rule parses_u64, assumption)
  by (cases j) simp

lemma decode_encode_job [simp]: "job_wf j \<Longrightarrow> decode_job (j_id j) (encode_job j) = Inr j"
  unfolding decode_job_def by (rule decode_whole_parses(1) [OF parses_job length_encode_job])

definition alert_wf :: "alert \<Rightarrow> bool" where
  "alert_wf a \<longleftrightarrow> al_seq a \<le> u64_max \<and> al_job a \<le> u64_max \<and> str_ok (al_queue a) \<and> str_ok (al_reason a) \<and>
     is_i64 (al_at a)"

lemma parses_alert: "alert_wf a \<Longrightarrow> parses (decode_alert_fields (al_job a)) (encode_alert a) a"
  unfolding alert_wf_def encode_alert_def decode_alert_fields_def
  apply (elim conjE)
  apply (rule parses_bind, (rule parses_fields, assumption | rule parses_codes))+
  apply (rule parses_end, rule parses_alert_state)
  by (cases a) simp

lemma length_encode_alert: "alert_wf a \<Longrightarrow> length (encode_alert a) \<le> u64_max"
  by (simp add: encode_alert_def alert_wf_def str_ok_def length_strb)

lemma id_after_alert_key [simp]: "i \<le> u64_max \<Longrightarrow> id_after (alert_key i k) (length ALERT) = Some i"
  by (simp add: id_after_def id_at_def alert_key_def ALERT_def)

lemma decode_encode_alert [simp]:
  "alert_wf a \<Longrightarrow> decode_alert (alert_key (al_job a) k) (encode_alert a) = Inr a"
  using decode_whole_parses(1) [OF parses_alert length_encode_alert]
  by (simp add: decode_alert_def alert_wf_def)

section \<open>Keys\<close>

lemmas key_consts = JOB_def INDEX_def DEDUPE_def PROGRESS_def ALERT_def SEQ_ID_def SEQ_ALERT_def ALERT_LAST_def

lemmas key_defs = job_key_def index_key_def index_prefix_def dedupe_key_def progress_prefix_def alert_key_def
  key_consts

lemma job_key_inj [simp]: "a \<le> u64_max \<Longrightarrow> b \<le> u64_max \<Longrightarrow> job_key a = job_key b \<longleftrightarrow> a = b"
  by (simp add: job_key_def)

lemma alert_key_inj: "a \<le> u64_max \<Longrightarrow> b \<le> u64_max \<Longrightarrow> alert_key a k = alert_key b k' \<longleftrightarrow> a = b \<and> k = k'"
  by (cases k; cases k') (auto simp: alert_key_def append_eq_append_conv)

text \<open>Which kind of key a key is: its first byte.\<close>

definition key_kind :: "bytes \<Rightarrow> byte" where
  "key_kind k = hd k"

lemma key_kinds [simp]:
  "key_kind (job_key i) = 106" "key_kind (index_key j st) = 105" "key_kind (dedupe_key q d) = 100"
  "key_kind (progress_prefix i @ x) = 112" "key_kind (alert_key i k) = 97"
  "key_kind SEQ_ID = 115" "key_kind SEQ_ALERT = 115" "key_kind ALERT_LAST = 115"
  by (simp_all add: key_kind_def key_defs)

lemma prefix_key_kind [simp]:
  "prefix JOB k \<Longrightarrow> key_kind k = 106" "prefix ALERT k \<Longrightarrow> key_kind k = 97" "prefix INDEX k \<Longrightarrow> key_kind k = 105"
  "prefix DEDUPE k \<Longrightarrow> key_kind k = 100" "prefix (index_prefix q st) k \<Longrightarrow> key_kind k = 105"
  "prefix (progress_prefix i) k \<Longrightarrow> key_kind k = 112"
  by (auto simp: key_kind_def key_defs prefix_def)

lemma seq_keys [simp]: "SEQ_ID \<noteq> SEQ_ALERT" "SEQ_ID \<noteq> ALERT_LAST" "SEQ_ALERT \<noteq> ALERT_LAST"
  by (simp_all add: key_consts)

lemma prefix_own [simp]: "prefix JOB (job_key i)" "prefix ALERT (alert_key i k)" "prefix INDEX (index_key j st)"
    "prefix DEDUPE (dedupe_key q d)"
  by (simp_all add: key_defs)

lemma job_key_id [simp]: "i \<le> u64_max \<Longrightarrow> id_after (job_key i) (length JOB) = Some i"
  by (simp add: id_after_def id_at_def job_key_def JOB_def)

lemma index_key_id [simp]: "j_id j \<le> u64_max \<Longrightarrow> id_from_index_key (index_key j st) = Some (j_id j)"
  by (simp add: id_from_index_key_def id_at_def index_key_def)

section \<open>Names\<close>

lemma name_byte_lt: "name_byte b \<Longrightarrow> unat b < 128 \<and> b \<noteq> 47"
  by (auto simp: name_byte_def is_alnum_def)

lemma cont_not_name: "\<not> name_byte (of_nat (128 + n mod 64))"
proof -
  have "unat (of_nat (128 + n mod 64) :: byte) = 128 + n mod 64"
    by (intro unat_byte) (simp add: less_trans [of _ 64])
  then show ?thesis using name_byte_lt by fastforce
qed

lemma name_char: "list_all name_byte (utf8_char c) \<Longrightarrow> c < 128 \<and> utf8_char c = [of_nat c]"
  using cont_not_name [of c] by (auto simp: utf8_char_def split: if_splits)

lemma name_chars: "list_all name_byte (utf8 s) \<Longrightarrow> (\<forall>c \<in> set s. c < 128) \<and> length (utf8 s) = length s"
  by (induction s) (auto dest!: name_char)

lemma valid_name_str: "valid_name s m \<Longrightarrow> valid_str s"
  using name_chars [of s] by (force simp: valid_name_def valid_str_def valid_char_def)

lemma valid_name_ok: "valid_name s m \<Longrightarrow> m \<le> u32_max \<Longrightarrow> str_ok s"
  using valid_name_str [of s m] by (simp add: str_ok_def valid_name_def)

lemma valid_name_slash: "valid_name s m \<Longrightarrow> slash \<notin> set (utf8 s)"
  by (auto simp: valid_name_def list_all_iff dest: name_byte_lt)

lemma valid_str_lit: "valid_str (lit s)"
proof -
  have "valid_char (of_char c)" for c :: char
  proof -
    have "(of_char c :: nat) < 256" by (metis nat_of_char_less_256)
    then show ?thesis unfolding valid_char_def by linarith
  qed
  then show ?thesis by (auto simp: lit_def valid_str_def)
qed

lemma length_utf8: "length (utf8 s) \<le> 4 * length s"
proof -
  have "length (utf8_char c) \<le> 4" for c by (simp add: utf8_char_def)
  then show ?thesis by (induction s) (auto intro: add_mono)
qed

lemma sanitize_length: "length (sanitize s) \<le> 201"
  by (simp add: sanitize_def Let_def)

lemma sanitize_ok: "valid_str s \<Longrightarrow> str_ok (sanitize s)"
proof -
  assume s: "valid_str s"
  let ?m = "map (\<lambda>c. if is_control c then 32 else c) s"
  have "valid_str ?m" using s by (auto simp: valid_str_def valid_char_def)
  then have "valid_str (trim ?m)" using set_trim [of ?m] by (auto simp: valid_str_def)
  then have "valid_str (sanitize s)"
    by (auto simp: sanitize_def Let_def valid_str_def valid_char_def dest: in_set_takeD)
  moreover have "length (utf8 (sanitize s)) \<le> 804" using length_utf8 [of "sanitize s"] sanitize_length [of s] by linarith
  ultimately show ?thesis by (simp add: str_ok_def)
qed

text \<open>A recorded reason is one printable line.\<close>

lemma sanitize_no_control: "c \<in> set (sanitize s) \<Longrightarrow> \<not> is_control c"
  using set_trim [of "map (\<lambda>c. if is_control c then 32 else c) s"]
  by (auto simp: sanitize_def Let_def is_control_def dest!: in_set_takeD split: if_splits)

section \<open>The order of the index\<close>

lemma index_key_less:
  assumes "j_queue a = j_queue b" "j_priority a \<le> u32_max" "j_priority b \<le> u32_max"
    "j_id a \<le> u64_max" "j_id b \<le> u64_max"
  shows "index_key a st < index_key b st \<longleftrightarrow>
    j_priority b < j_priority a \<or> j_priority a = j_priority b \<and> j_id a < j_id b"
proof -
  have "be 4 (u32_max - j_priority a) < be 4 (u32_max - j_priority b) \<longleftrightarrow> u32_max - j_priority a < u32_max - j_priority b"
    by (rule be_less) simp_all
  moreover have "be 8 (j_id a) < be 8 (j_id b) \<longleftrightarrow> j_id a < j_id b"
    using assms by (intro be_less) simp_all
  moreover have "be 4 (u32_max - j_priority a) = be 4 (u32_max - j_priority b) \<longleftrightarrow> u32_max - j_priority a = u32_max - j_priority b"
    by (rule be_inj) simp_all
  ultimately show ?thesis
    unfolding index_key_def assms(1) append_less_same
    using assms(2,3) by (subst append_less_length) auto
qed

lemma index_key_inj:
  assumes "valid_name (j_queue a) m" "valid_name (j_queue b) m" "j_id a \<le> u64_max" "j_id b \<le> u64_max"
    "index_key a st = index_key b st'"
  shows "j_id a = j_id b" "j_queue a = j_queue b" "st = st'"
proof -
  have "slash \<notin> set (utf8 (j_queue a))" "slash \<notin> set (utf8 (j_queue b))"
    using assms(1,2) by (simp_all add: valid_name_slash)
  moreover have "utf8 (j_queue a) @ slash # (st # be 4 (u32_max - j_priority a) @ be 8 (j_id a))
      = utf8 (j_queue b) @ slash # (st' # be 4 (u32_max - j_priority b) @ be 8 (j_id b))"
    using assms(5) by (simp add: index_key_def index_prefix_def)
  ultimately have eq: "utf8 (j_queue a) = utf8 (j_queue b)" "st = st'" "be 8 (j_id a) = be 8 (j_id b)"
    by (simp_all add: append_sep_eq)
  then show "j_id a = j_id b" "j_queue a = j_queue b" "st = st'"
    using assms utf8_inj [of "j_queue a" "j_queue b"] valid_name_str by (metis be8_inj)+
qed

lemma index_prefix_key:
  assumes "valid_name q m" "valid_name (j_queue j) m"
  shows "prefix (index_prefix q st) (index_key j st') \<longleftrightarrow> q = j_queue j \<and> st = st'"
proof -
  have "slash \<notin> set (utf8 q)" "slash \<notin> set (utf8 (j_queue j))"
    using assms by (simp_all add: valid_name_slash)
  then have "prefix (utf8 q @ slash # [st]) (utf8 (j_queue j) @ slash # (st' # be 4 (u32_max - j_priority j) @ be 8 (j_id j)))
      \<longleftrightarrow> utf8 q = utf8 (j_queue j) \<and> st = st'"
    by (simp add: prefix_sep)
  then show ?thesis
    using utf8_inj [of q "j_queue j"] assms valid_name_str by (auto simp: index_key_def index_prefix_def)
qed

end
