(* ===== verification/QueueWp.thy ===== *)
theory QueueWp
  imports QueueOps QueueCodecLaws
begin

text \<open>
  The weakest preconditions of the queue's store calls and of its loops.
\<close>

section \<open>The store calls\<close>

lemma wp_get [wp_simps]: "wp F (q_get k) Q E en \<longleftrightarrow> Q (bm_get en k) en \<and> (F \<longrightarrow> (\<forall>w. E (KvFailed w) en))"
  by (simp add: q_get_def kv_get_def wp_read)

lemma wp_scan [wp_simps]: "wp F (q_scan k) Q E en \<longleftrightarrow> Q (bm_scan k en) en \<and> (F \<longrightarrow> (\<forall>w. E (KvFailed w) en))"
  by (simp add: q_scan_def kv_scan_def wp_read)

lemma wp_put [wp_simps]: "wp F (q_put k v) Q E en \<longleftrightarrow>
    Q () (bm_insert k v en) \<and> (F \<longrightarrow> (\<forall>w. E (KvFailed w) en \<and> E (KvFailed w) (bm_insert k v en)))"
  by (simp add: q_put_def kv_put_def wp_write)

lemma wp_del [wp_simps]: "wp F (q_del k) Q E en \<longleftrightarrow>
    Q () (bm_remove k en) \<and> (F \<longrightarrow> (\<forall>w. E (KvFailed w) en \<and> E (KvFailed w) (bm_remove k en)))"
  by (simp add: q_del_def kv_del_def wp_write)

section \<open>Loops\<close>

text \<open>\<open>I xs acc en\<close>: what holds with \<open>xs\<close> still to do.\<close>

lemma wp_for:
  assumes "I xs acc en"
    and "\<And>x xs acc en. I (x # xs) acc en \<Longrightarrow> wp F (body x acc) (\<lambda>acc. I xs acc) E en"
    and "\<And>acc en. I [] acc en \<Longrightarrow> Q acc en"
  shows "wp F (q_for xs acc body) Q E en"
  using assms(1)
proof (induction xs arbitrary: acc en)
  case Nil
  then show ?case by (simp add: wp_return assms(3))
next
  case (Cons x xs)
  have "wp F (body x acc) (\<lambda>acc. wp F (q_for xs acc body) Q E) E en"
    using assms(2) [OF Cons.prems] by (rule wp_conseq) (auto intro: Cons.IH)
  then show ?case by (simp add: wp_then)
qed

end
