(* ===== verification/QueueInv.thy ===== *)
theory QueueInv
  imports QueueWp
begin

text \<open>
  What is true of the stored bytes between any two calls of the queue, whatever failed before: every
  job and alert key holds a record that decodes, ids stay below the counter, and a job's lease and
  result agree with its state.  And how an operation may change a job.
\<close>

section \<open>The abstract view\<close>

definition jobs :: "store \<Rightarrow> nat \<Rightarrow> job option" where
  "jobs en jid = (case bm_get en (job_key jid) of
     None \<Rightarrow> None
   | Some bs \<Rightarrow> (case decode_job jid bs of Inr j \<Rightarrow> Some j | Inl _ \<Rightarrow> None))"

definition counter :: "store \<Rightarrow> bytes \<Rightarrow> nat" where
  "counter en key = (case Option.bind (bm_get en key) u64_from_bytes of Some n \<Rightarrow> n | None \<Rightarrow> 1)"

abbreviation next_id :: "store \<Rightarrow> nat" where
  "next_id en \<equiv> counter en SEQ_ID"

text \<open>A job's fields agree with its state.\<close>

definition job_ok :: "job \<Rightarrow> bool" where
  "job_ok j \<longleftrightarrow> job_wf j \<and> valid_name (j_queue j) 64 \<and>
     (j_state j = Leased \<longleftrightarrow> lease_worker j \<noteq> None) \<and> (j_state j = Leased \<longleftrightarrow> lease_until j \<noteq> None) \<and>
     (j_state j = Done \<longleftrightarrow> j_result j \<noteq> None)"

definition id_below :: "store \<Rightarrow> nat \<Rightarrow> bool" where
  "id_below en jid \<longleftrightarrow> jid \<le> u64_max \<and> (jid < next_id en \<or> next_id en = u64_max)"

definition store_ok :: "store \<Rightarrow> bool" where
  "store_ok en \<longleftrightarrow> bm_wf en \<and>
     (\<forall>k v. bm_get en k = Some v \<longrightarrow>
        (key_kind k = 106 \<longrightarrow> (\<exists>j. k = job_key (j_id j) \<and> v = encode_job j \<and> job_ok j \<and> id_below en (j_id j))) \<and>
        (key_kind k = 97 \<longrightarrow> (\<exists>a. k = alert_key (al_job a) (al_kind a) \<and> v = encode_alert a \<and> alert_wf a)))"

lemma store_ok_empty: "store_ok []"
  by (simp add: store_ok_def)

lemma store_ok_wf: "store_ok en \<Longrightarrow> bm_wf en"
  by (simp add: store_ok_def)

lemma job_okD: "job_ok j \<Longrightarrow> job_wf j" "job_ok j \<Longrightarrow> j_id j \<le> u64_max" "job_ok j \<Longrightarrow> valid_name (j_queue j) 64"
  by (simp_all add: job_ok_def job_wf_def)

lemma store_job:
  assumes "store_ok en" "bm_get en k = Some v" "key_kind k = 106"
  obtains j where "k = job_key (j_id j)" "v = encode_job j" "job_ok j" "id_below en (j_id j)"
  using assms by (auto simp: store_ok_def)

lemma store_alert:
  assumes "store_ok en" "bm_get en k = Some v" "key_kind k = 97"
  obtains a where "k = alert_key (al_job a) (al_kind a)" "v = encode_alert a" "alert_wf a"
  using assms by (auto simp: store_ok_def)

text \<open>A record decodes only under its own id, and an id is eight bytes: larger numbers name no job.\<close>

lemma rd_u64_le: "rd_u64 r = Inr (v, r') \<Longrightarrow> v \<le> u64_max"
  by (auto simp: rd_u64_def rd_bind_def rd_take_def rd_return_def intro!: of_be_8_le split: if_splits)

lemma decode_job_id: "decode_job jid bs = Inr j \<Longrightarrow> jid \<le> u64_max"
  using rd_u64_le [of "reader_new bs"]
  by (auto simp: decode_job_def decode_whole_def decode_fields_def rd_bind_def [of rd_u64]
      rd_bind_def [of "rd_bind _ _"] rd_fail_def split: sum.splits if_splits prod.splits)

lemma jobs_le: "jobs en jid = Some j \<Longrightarrow> jid \<le> u64_max"
  by (auto simp: jobs_def dest: decode_job_id split: option.splits sum.splits)

lemma jobs_get:
  assumes "store_ok en" "jid \<le> u64_max"
  shows "bm_get en (job_key jid) = map_option encode_job (jobs en jid)"
    "jobs en jid = Some j \<Longrightarrow> j_id j = jid \<and> job_ok j \<and> id_below en jid"
proof -
  have "bm_get en (job_key jid) = map_option encode_job (jobs en jid) \<and>
    (\<forall>j. jobs en jid = Some j \<longrightarrow> j_id j = jid \<and> job_ok j \<and> id_below en jid)"
  proof (cases "bm_get en (job_key jid)")
    case None
    then show ?thesis by (simp add: jobs_def)
  next
    case (Some v)
    then obtain j where "job_key jid = job_key (j_id j)" "v = encode_job j" "job_ok j" "id_below en (j_id j)"
      using store_job [OF assms(1) Some] by auto
    moreover from this have "j_id j = jid" using assms(2) job_okD(2) by simp
    ultimately show ?thesis using Some job_okD(1) [of j] by (auto simp: jobs_def)
  qed
  then show "bm_get en (job_key jid) = map_option encode_job (jobs en jid)"
    "jobs en jid = Some j \<Longrightarrow> j_id j = jid \<and> job_ok j \<and> id_below en jid" by simp_all
qed

lemma jobsD:
  assumes "store_ok en" "jobs en jid = Some j"
  shows "j_id j = jid" "job_ok j" "id_below en jid"
  using jobs_get(2) [OF assms(1) jobs_le [OF assms(2)] assms(2)] by simp_all

section \<open>How writes change the view\<close>

lemma jobs_other [simp]:
  "key_kind k \<noteq> 106 \<Longrightarrow> jobs (bm_insert k v en) = jobs en"
  "key_kind k \<noteq> 106 \<Longrightarrow> jobs (bm_remove k en) = jobs en"
  by (auto simp: fun_eq_iff jobs_def)

lemma jobs_save [simp]:
  assumes "job_wf j"
  shows "jobs (bm_insert (job_key (j_id j)) (encode_job j) en) = (jobs en)(j_id j \<mapsto> j)"
proof
  fix jid
  show "jobs (bm_insert (job_key (j_id j)) (encode_job j) en) jid = ((jobs en)(j_id j \<mapsto> j)) jid"
  proof (cases "jid \<le> u64_max")
    case True
    with assms show ?thesis by (auto simp: jobs_def job_wf_def)
  next
    case False
    then have "jobs m jid = None" for m using jobs_le [of m jid] by (cases "jobs m jid") auto
    with False assms show ?thesis by (auto simp: job_wf_def)
  qed
qed

lemma jobs_remove [simp]:
  assumes "i \<le> u64_max"
  shows "jobs (bm_remove (job_key i) en) = (jobs en)(i := None)"
proof
  fix jid
  show "jobs (bm_remove (job_key i) en) jid = ((jobs en)(i := None)) jid"
  proof (cases "jid \<le> u64_max")
    case True
    with assms show ?thesis by (auto simp: jobs_def)
  next
    case False
    then have "jobs m jid = None" for m using jobs_le [of m jid] by (cases "jobs m jid") auto
    then show ?thesis by simp
  qed
qed

lemma counter_other [simp]:
  "k \<noteq> c \<Longrightarrow> counter (bm_insert k v en) c = counter en c"
  "k \<noteq> c \<Longrightarrow> counter (bm_remove k en) c = counter en c"
  by (simp_all add: counter_def)

lemma counter_set [simp]: "n \<le> u64_max \<Longrightarrow> counter (bm_insert c (be 8 n) en) c = n"
  by (simp add: counter_def u64_from_bytes_def)

lemma kind_not_seq: "key_kind k \<noteq> 115 \<Longrightarrow> k \<noteq> SEQ_ID" "key_kind k \<noteq> 115 \<Longrightarrow> k \<noteq> SEQ_ALERT"
  by auto

lemma counter_le: "counter en c \<le> u64_max"
  by (auto simp: counter_def u64_from_bytes_def of_be_8_le split: option.split bind_splits)

text \<open>Writes and deletes of keys that hold no records.\<close>

definition plain :: "bytes \<Rightarrow> bool" where
  "plain k \<longleftrightarrow> key_kind k \<noteq> 106 \<and> key_kind k \<noteq> 97 \<and> k \<noteq> SEQ_ID"

lemma plain_keys [simp]:
  "plain (index_key j st)" "plain (dedupe_key q d)" "plain (progress_prefix i @ x)" "plain SEQ_ALERT" "plain ALERT_LAST"
  by (auto simp: plain_def key_kind_def key_defs)

lemma plain_scans: "prefix INDEX k \<Longrightarrow> plain k" "prefix (index_prefix q st) k \<Longrightarrow> plain k"
  "prefix (progress_prefix i) k \<Longrightarrow> plain k" "prefix DEDUPE k \<Longrightarrow> plain k"
  using kind_not_seq [of k] by (auto simp: plain_def)

lemma store_ok_put_plain [simp]: "store_ok en \<Longrightarrow> plain k \<Longrightarrow> store_ok (bm_insert k v en)"
  unfolding store_ok_def by (auto simp: plain_def id_below_def)

lemma store_ok_del [simp]: "store_ok en \<Longrightarrow> k \<noteq> SEQ_ID \<Longrightarrow> store_ok (bm_remove k en)"
  unfolding store_ok_def by (auto simp: id_below_def)

lemma store_ok_save [simp]:
  assumes "store_ok en" "job_ok j" "id_below en (j_id j)"
  shows "store_ok (bm_insert (job_key (j_id j)) (encode_job j) en)"
proof -
  have "job_key (j_id j) \<noteq> SEQ_ID" using kind_not_seq(1) by simp
  then show ?thesis using assms unfolding store_ok_def by (auto simp: id_below_def)
qed

lemma store_ok_alert [simp]:
  assumes "store_ok en" "alert_wf a"
  shows "store_ok (bm_insert (alert_key (al_job a) (al_kind a)) (encode_alert a) en)"
proof -
  have "alert_key (al_job a) (al_kind a) \<noteq> SEQ_ID" using kind_not_seq(1) by simp
  then show ?thesis using assms unfolding store_ok_def by (auto simp: id_below_def)
qed

lemma store_ok_count [simp]:
  assumes "store_ok en"
  shows "store_ok (bm_insert SEQ_ID (be 8 (sat_add64 (next_id en) 1)) en)"
proof -
  have "next_id (bm_insert SEQ_ID (be 8 (sat_add64 (next_id en) 1)) en) = sat_add64 (next_id en) 1"
    by (intro counter_set) (simp add: sat_add64_def)
  moreover have "id_below (bm_insert SEQ_ID (be 8 (sat_add64 (next_id en) 1)) en) i" if "id_below en i" for i
    using that calculation counter_le [of en SEQ_ID] by (auto simp: id_below_def sat_add64_def)
  ultimately show ?thesis using assms unfolding store_ok_def by (auto 0 4)
qed

end
