(* ===== verification/QueueRel.thy ===== *)
theory QueueRel
  imports QueueInv
begin

text \<open>
  Reading jobs from a store in order, and the contract of an operation on them: it keeps the store in
  order and relates every job before to the job after by a relation that composes.
\<close>

section \<open>Reading jobs\<close>

lemma wp_cong: "(\<And>sc. m \<lparr>entries = en, script = sc\<rparr> = m' \<lparr>entries = en, script = sc\<rparr>) \<Longrightarrow>
    wp F m Q E en = wp F m' Q E en"
  by (simp add: wp_def)

lemma q_lift_read: "q_lift (kv_read f) \<lparr>entries = en, script = sc\<rparr> = (case sc of
    [] \<Rightarrow> (Inr (f en), \<lparr>entries = en, script = []\<rparr>)
  | Works # fs \<Rightarrow> (Inr (f en), \<lparr>entries = en, script = fs\<rparr>)
  | Refused w # fs \<Rightarrow> (Inl (KvFailed (KvError w)), \<lparr>entries = en, script = fs\<rparr>)
  | Torn w # fs \<Rightarrow> (Inl (KvFailed (KvError w)), \<lparr>entries = en, script = fs\<rparr>))"
  by (simp add: lift_kv_def kv_read_def next_fault_def split: list.split fault.split)

lemma q_then_read: "q_then (q_lift (kv_read f)) g \<lparr>entries = en, script = sc\<rparr> = (case sc of
    [] \<Rightarrow> g (f en) \<lparr>entries = en, script = []\<rparr>
  | Works # fs \<Rightarrow> g (f en) \<lparr>entries = en, script = fs\<rparr>
  | Refused w # fs \<Rightarrow> (Inl (KvFailed (KvError w)), \<lparr>entries = en, script = fs\<rparr>)
  | Torn w # fs \<Rightarrow> (Inl (KvFailed (KvError w)), \<lparr>entries = en, script = fs\<rparr>))"
  by (simp add: b_then_def q_lift_read split: list.split fault.split)

lemma q_then_return: "fst (m s) = Inr a \<Longrightarrow> q_then m g s = g a (snd (m s))"
  by (auto simp: b_then_def split: prod.split)

lemma wp_load [wp_simps]:
  assumes "store_ok en" "jid \<le> u64_max"
  shows "wp F (q_load jid) Q E en \<longleftrightarrow> Q (jobs en jid) en \<and> (F \<longrightarrow> (\<forall>w. E (KvFailed w) en))"
proof -
  have v: "bm_get en (job_key jid) = map_option encode_job (jobs en jid)" by (rule jobs_get(1) [OF assms])
  have d: "decode_job jid (encode_job j) = Inr j" if "jobs en jid = Some j" for j
    using jobsD [OF assms(1) that] decode_encode_job [OF job_okD(1)] by metis
  have "q_load jid \<lparr>entries = en, script = sc\<rparr> = q_lift (kv_read (\<lambda>m. jobs m jid)) \<lparr>entries = en, script = sc\<rparr>" for sc
    using d unfolding q_load_def b_then_def q_get_def kv_get_def q_lift_read
    by (cases "jobs en jid") (auto simp: v b_return_def b_result_def split: list.split fault.split)
  then show ?thesis by (simp add: wp_read cong: wp_cong)
qed

text \<open>The jobs of a store, in the order of their keys, which is the order of their ids.\<close>

definition jobs_of :: "store \<Rightarrow> job list" where
  "jobs_of en = map (\<lambda>(k, v). projr (decode_job (of_be (drop 2 k)) v)) (bm_scan JOB en)"

lemma job_entries:
  assumes "store_ok en" "e \<in> set (bm_scan JOB en)"
  obtains j where "e = (job_key (j_id j), encode_job j)" "job_ok j" "jobs en (j_id j) = Some j"
proof -
  have e: "bm_get en (fst e) = Some (snd e)" "prefix JOB (fst e)"
    using assms store_ok_wf by (auto simp: set_bm_scan bm_get_in)
  then obtain j where j: "fst e = job_key (j_id j)" "snd e = encode_job j" "job_ok j"
    using store_job [OF assms(1) e(1)] by auto
  then have "jobs en (j_id j) = Some j" using e(1) job_okD(1) [of j] by (simp add: jobs_def)
  with j show ?thesis by (intro that [of j]) (simp_all add: prod_eq_iff)
qed

lemma drop_job_key: "i \<le> u64_max \<Longrightarrow> of_be (drop 2 (job_key i)) = i"
  by (simp add: job_key_def JOB_def)

lemma jobs_of_in:
  assumes "store_ok en"
  shows "j \<in> set (jobs_of en) \<longleftrightarrow> jobs en (j_id j) = Some j"
proof
  assume "j \<in> set (jobs_of en)"
  then obtain e where "e \<in> set (bm_scan JOB en)" "j = projr (decode_job (of_be (drop 2 (fst e))) (snd e))"
    by (auto simp: jobs_of_def)
  then show "jobs en (j_id j) = Some j"
    using job_entries [OF assms] by (metis decode_encode_job drop_job_key fst_conv job_okD(1,2) snd_conv sum.sel(2))
next
  assume j: "jobs en (j_id j) = Some j"
  have "(job_key (j_id j), encode_job j) \<in> set (bm_scan JOB en)"
    using jobs_get(1) [OF assms jobs_le [OF j]] j assms store_ok_wf by (simp add: set_bm_scan flip: bm_get_in)
  moreover have "job_ok j" using jobsD(2) [OF assms j] .
  ultimately show "j \<in> set (jobs_of en)"
    unfolding jobs_of_def by (force simp: drop_job_key job_okD)
qed

lemma jobs_of_map:
  assumes "store_ok en"
  shows "bm_scan JOB en = map (\<lambda>j. (job_key (j_id j), encode_job j)) (jobs_of en)"
proof -
  have "e = (\<lambda>j. (job_key (j_id j), encode_job j)) (projr (decode_job (of_be (drop 2 (fst e))) (snd e)))"
    if "e \<in> set (bm_scan JOB en)" for e
    using job_entries [OF assms that] by (metis decode_encode_job drop_job_key fst_conv job_okD(1,2) snd_conv sum.sel(2))
  then show ?thesis
    unfolding jobs_of_def map_map by (intro map_idI [symmetric]) (auto simp: case_prod_beta)
qed

lemma job_key_less: "a \<le> u64_max \<Longrightarrow> b \<le> u64_max \<Longrightarrow> job_key a < job_key b \<longleftrightarrow> a < b"
  unfolding job_key_def append_less_same by (rule be_less) simp_all

lemma jobs_of_sorted:
  assumes "store_ok en"
  shows "sorted_wrt (<) (map j_id (jobs_of en))"
proof -
  have "bm_wf (bm_scan JOB en)" using assms store_ok_wf by simp
  then have "sorted_wrt (<) (map (\<lambda>j. job_key (j_id j)) (jobs_of en))"
    unfolding jobs_of_map [OF assms] by (simp add: bm_wf_def comp_def)
  moreover have "\<forall>j \<in> set (jobs_of en). j_id j \<le> u64_max"
    using jobs_of_in [OF assms] jobs_le by blast
  ultimately show ?thesis
    unfolding sorted_wrt_map by (rule_tac sorted_wrt_mono_rel) (auto simp: job_key_less)
qed

lemma jobs_of_distinct: "store_ok en \<Longrightarrow> distinct (map j_id (jobs_of en))"
  using jobs_of_sorted strict_sorted_iff by blast

lemma q_for_decode:
  "\<forall>j \<in> set js. job_wf j \<Longrightarrow>
   q_for (map (\<lambda>j. (job_key (j_id j), encode_job j)) js) acc (\<lambda>(key, v) jobs.
       case id_after key (length JOB) of
         None \<Rightarrow> q_return jobs
       | Some jid \<Rightarrow> q_then (q_result (decode_job jid v)) (\<lambda>j. q_return (jobs @ [j]))) s
     = (Inr (acc @ js), s)"
proof (induction js arbitrary: acc)
  case Nil
  then show ?case by (simp add: b_return_def)
next
  case (Cons j js)
  have "j_id j \<le> u64_max" using Cons.prems by (simp add: job_wf_def)
  then show ?case using Cons by (simp add: b_then_def b_result_def b_return_def)
qed

lemma wp_all_jobs [wp_simps]:
  assumes "store_ok en"
  shows "wp F all_jobs Q E en \<longleftrightarrow> Q (jobs_of en) en \<and> (F \<longrightarrow> (\<forall>w. E (KvFailed w) en))"
proof -
  have wf: "\<forall>j \<in> set (jobs_of en). job_wf j"
    using jobs_of_in [OF assms] jobsD(2) [OF assms] job_okD(1) by blast
  have sorted: "sort_key j_id (jobs_of en) = jobs_of en"
    using jobs_of_sorted [OF assms] by (simp add: sort_key_id_if_sorted strict_sorted_iff)
  have "all_jobs \<lparr>entries = en, script = sc\<rparr> = q_lift (kv_read jobs_of) \<lparr>entries = en, script = sc\<rparr>" for sc
    unfolding all_jobs_def q_scan_def kv_scan_def q_lift_read q_then_read jobs_of_map [OF assms]
    using q_for_decode [OF wf, of "[]"] sorted
    by (auto simp: q_then_return b_return_def [of "jobs_of en"] split: list.split fault.split)
  then show ?thesis by (simp add: wp_read cong: wp_cong)
qed

end
