(* ===== verification/QueueSafe.thy ===== *)
theory QueueSafe
  imports QueueRel
begin

text \<open>
  Every operation, on any store in order and whatever calls fail under it, leaves the store in order
  and moves each job only along its life cycle.  The steps all operations share are proved once for
  any relation between a job before and after that composes.
\<close>

section \<open>The contract\<close>

definition keeps :: "(job option \<Rightarrow> job option \<Rightarrow> bool) \<Rightarrow> store \<Rightarrow> store \<Rightarrow> bool" where
  "keeps R en0 en \<longleftrightarrow> store_ok en \<and> next_id en0 \<le> next_id en \<and> (\<forall>i. R (jobs en0 i) (jobs en i)) \<and>
     (\<forall>i < next_id en0. jobs en0 i = None \<longrightarrow> jobs en i = None)"

text \<open>The last clause: an id that was given out and names no job any more is not given out again.\<close>

text \<open>The end of an operation that stops: the same, and the store was not found corrupt.\<close>

definition intact :: "(job option \<Rightarrow> job option \<Rightarrow> bool) \<Rightarrow> store \<Rightarrow> queue_error \<Rightarrow> store \<Rightarrow> bool" where
  "intact R en0 e en \<longleftrightarrow> keeps R en0 en \<and> (\<forall>w. e \<noteq> Corrupt w)"

lemma keeps_ok: "keeps R en0 en \<Longrightarrow> store_ok en"
  by (simp add: keeps_def)

lemma intact_kv [simp]: "intact R en0 (KvFailed w) en \<longleftrightarrow> keeps R en0 en"
  by (simp add: intact_def)

lemma keeps_plain:
  assumes "keeps R en0 en" "plain k"
  shows "keeps R en0 (bm_insert k v en)" "keeps R en0 (bm_remove k en)"
  using assms by (auto simp: keeps_def plain_def)

lemma jobs_plain: "plain k \<Longrightarrow> jobs (bm_insert k v en) = jobs en" "plain k \<Longrightarrow> jobs (bm_remove k en) = jobs en"
  by (simp_all add: plain_def)

lemma keeps_alert:
  assumes "keeps R en0 en" "alert_wf a"
  shows "keeps R en0 (bm_insert (alert_key (al_job a) (al_kind a)) (encode_alert a) en)"
    "jobs (bm_insert (alert_key (al_job a) (al_kind a)) (encode_alert a) en) = jobs en"
  using assms kind_not_seq(1) [of "alert_key (al_job a) (al_kind a)"] by (simp_all add: keeps_def)

text \<open>Symbolic execution: one rule per call that changes the store.\<close>

named_theorems q_steps \<open>rules for the first call of a program\<close>

lemma then_del [q_steps]:
  assumes "keeps R en0 en" "plain k"
    "\<And>en'. keeps R en0 en' \<Longrightarrow> jobs en' = jobs en \<Longrightarrow> wp F (f ()) Q (intact R en0) en'"
  shows "wp F (q_then (q_del k) f) Q (intact R en0) en"
  using assms by (intro wp_then) (simp add: wp_simps keeps_plain jobs_plain)

lemma then_put [q_steps]:
  assumes "keeps R en0 en" "plain k"
    "\<And>en'. keeps R en0 en' \<Longrightarrow> jobs en' = jobs en \<Longrightarrow> wp F (f ()) Q (intact R en0) en'"
  shows "wp F (q_then (q_put k v) f) Q (intact R en0) en"
  using assms by (intro wp_then) (simp add: wp_simps keeps_plain jobs_plain)

lemma then_put_index [q_steps]:
  assumes "keeps R en0 en"
    "\<And>en'. keeps R en0 en' \<Longrightarrow> jobs en' = jobs en \<Longrightarrow> wp F (f ()) Q (intact R en0) en'"
  shows "wp F (q_then (put_index j) f) Q (intact R en0) en"
  using assms
  by (intro wp_then) (simp add: put_index_def wp_simps keeps_plain jobs_plain split: job_state.split)

lemma last_put_index [q_steps]:
  assumes "keeps R en0 en" "\<And>en'. keeps R en0 en' \<Longrightarrow> jobs en' = jobs en \<Longrightarrow> Q () en'"
  shows "wp F (put_index j) Q (intact R en0) en"
  using assms by (simp add: put_index_def wp_simps keeps_plain jobs_plain split: job_state.split)

lemma then_get [q_steps]:
  assumes "keeps R en0 en" "wp F (f (bm_get en k)) Q (intact R en0) en"
  shows "wp F (q_then (q_get k) f) Q (intact R en0) en"
  using assms by (intro wp_then) (simp add: wp_simps)

lemma then_scan [q_steps]:
  assumes "keeps R en0 en" "wp F (f (bm_scan p en)) Q (intact R en0) en"
  shows "wp F (q_then (q_scan p) f) Q (intact R en0) en"
  using assms by (intro wp_then) (simp add: wp_simps)

lemma then_load [q_steps]:
  assumes "keeps R en0 en" "jid \<le> u64_max" "wp F (f (jobs en jid)) Q (intact R en0) en"
  shows "wp F (q_then (q_load jid) f) Q (intact R en0) en"
  using assms keeps_ok [OF assms(1)] by (intro wp_then) (simp add: wp_simps)

lemma then_all_jobs [q_steps]:
  assumes "keeps R en0 en" "wp F (f (jobs_of en)) Q (intact R en0) en"
  shows "wp F (q_then all_jobs f) Q (intact R en0) en"
  using assms keeps_ok [OF assms(1)] by (intro wp_then) (simp add: wp_simps)

lemma then_job [q_steps]:
  assumes "keeps R en0 en" "jid \<le> u64_max"
    "\<And>j. jobs en jid = Some j \<Longrightarrow> j_id j = jid \<Longrightarrow> job_ok j \<Longrightarrow> wp F (f j) Q (intact R en0) en"
  shows "wp F (q_then (job_or_not_found jid) f) Q (intact R en0) en"
  unfolding job_or_not_found_def q_job_def
proof (rule wp_then, rule then_load [OF assms(1,2)])
  show "wp F (case jobs en jid of None \<Rightarrow> q_fail NotFound | Some j \<Rightarrow> q_return j)
      (\<lambda>a. wp F (f a) Q (intact R en0)) (intact R en0) en"
    using assms(1,3) jobsD(1,2) [OF keeps_ok [OF assms(1)]]
    by (auto simp: wp_simps intact_def split: option.split)
qed

lemma count_index_wp [q_steps]:
  assumes "keeps R en0 en" "\<And>n. wp F (f n) Q (intact R en0) en"
  shows "wp F (q_then (count_index queue st) f) Q (intact R en0) en"
  unfolding count_index_def
  using assms by (intro wp_then) (simp add: wp_simps)

text \<open>The relation of an operation: it holds of a job left alone, and composes.\<close>

locale job_relation =
  fixes R :: "job option \<Rightarrow> job option \<Rightarrow> bool"
  assumes same: "R a a"
    and compose: "R a b \<Longrightarrow> R b c \<Longrightarrow> R a c"
begin

lemma start: "store_ok en \<Longrightarrow> keeps R en en"
  by (simp add: keeps_def same)

lemma keeps_save:
  assumes "keeps R en0 en" "jobs en (j_id j) = Some old" "R (Some old) (Some j)" "job_ok j"
  shows "keeps R en0 (bm_insert (job_key (j_id j)) (encode_job j) en)"
proof -
  have ok: "store_ok en" using assms(1) by (simp add: keeps_def)
  have seq: "job_key (j_id j) \<noteq> SEQ_ID" using kind_not_seq(1) by simp
  have "R (jobs en0 i) (((jobs en)(j_id j \<mapsto> j)) i)" for i
    using assms(1-3) compose [of "jobs en0 (j_id j)" "Some old" "Some j"]
    by (auto simp: keeps_def dest: spec [of _ "j_id j"])
  moreover have "((jobs en)(j_id j \<mapsto> j)) i = None" if "i < next_id en0" "jobs en0 i = None" for i
    using assms(1,2) that by (auto simp: keeps_def)
  ultimately show ?thesis
    using assms ok seq jobsD(3) [OF ok assms(2)] by (simp add: keeps_def job_okD)
qed

lemma then_save:
  assumes "keeps R en0 en" "jobs en (j_id j) = Some old" "R (Some old) (Some j)" "job_ok j"
    "\<And>en'. keeps R en0 en' \<Longrightarrow> jobs en' = (jobs en)(j_id j \<mapsto> j) \<Longrightarrow> wp F (f ()) Q (intact R en0) en'"
  shows "wp F (q_then (q_save j) f) Q (intact R en0) en"
  using assms(1,5) keeps_save [OF assms(1-4)] job_okD(1) [OF assms(4)]
  by (intro wp_then) (simp add: q_save_def wp_simps)

lemma remove_job:
  assumes "keeps R en0 en" "jobs en i = Some old" "R (Some old) None"
  shows "keeps R en0 (bm_remove (job_key i) en)"
proof -
  have i: "i \<le> u64_max" by (rule jobs_le [OF assms(2)])
  have seq: "job_key i \<noteq> SEQ_ID" using kind_not_seq(1) by simp
  have "R (jobs en0 i') (((jobs en)(i := None)) i')" for i'
    using assms compose [of "jobs en0 i" "Some old" None] by (auto simp: keeps_def dest: spec [of _ i])
  then show ?thesis using assms(1) seq i by (simp add: keeps_def)
qed

end

text \<open>Alert records: the sequence counter is plain, the record well formed.\<close>

lemma then_record_alert [q_steps]:
  assumes "keeps R en0 en" "j_id j \<le> u64_max" "str_ok (j_queue j)" "valid_str reason" "is_i64 now"
    "\<And>b en'. keeps R en0 en' \<Longrightarrow> jobs en' = jobs en \<Longrightarrow> wp F (f b) Q (intact R en0) en'"
  shows "wp F (q_then (record_alert j now kind reason) f) Q (intact R en0) en"
proof -
  have "wp F (record_alert j now kind reason) (\<lambda>_ en'. keeps R en0 en' \<and> jobs en' = jobs en) (intact R en0) en"
    unfolding record_alert_def Let_def
  proof (rule then_get [OF assms(1)], cases "bm_get en (alert_key (j_id j) kind) \<noteq> None")
    case True
    with assms(1) show "wp F (if bm_get en (alert_key (j_id j) kind) \<noteq> None then q_return False
        else q_then (next_counter SEQ_ALERT) (\<lambda>seq. q_then (q_put (alert_key (j_id j) kind)
          (encode_alert \<lparr>al_seq = seq, al_job = j_id j, al_queue = j_queue j, al_kind = kind,
            al_reason = sanitize reason, al_at = now, al_state = AlertReady\<rparr>)) (\<lambda>_. q_return True)))
        (\<lambda>_ en'. keeps R en0 en' \<and> jobs en' = jobs en) (intact R en0) en"
      by (simp add: wp_simps)
  next
    case False
    have a: "alert_wf \<lparr>al_seq = n, al_job = j_id j, al_queue = j_queue j, al_kind = kind,
        al_reason = sanitize reason, al_at = now, al_state = AlertReady\<rparr>" if "n \<le> u64_max" for n
      using assms that by (simp add: alert_wf_def sanitize_ok)
    let ?n = "counter en SEQ_ALERT"
    let ?en = "bm_insert SEQ_ALERT (be 8 (sat_add64 ?n 1)) en"
    have k: "keeps R en0 ?en" "jobs ?en = jobs en"
      using keeps_plain(1) [OF assms(1), of SEQ_ALERT] by simp_all
    note al = keeps_alert [OF k(1) a [OF counter_le [of en SEQ_ALERT]], simplified]
    show "wp F (if bm_get en (alert_key (j_id j) kind) \<noteq> None then q_return False
        else q_then (next_counter SEQ_ALERT) (\<lambda>seq. q_then (q_put (alert_key (j_id j) kind)
          (encode_alert \<lparr>al_seq = seq, al_job = j_id j, al_queue = j_queue j, al_kind = kind,
            al_reason = sanitize reason, al_at = now, al_state = AlertReady\<rparr>)) (\<lambda>_. q_return True)))
        (\<lambda>_ en'. keeps R en0 en' \<and> jobs en' = jobs en) (intact R en0) en"
      using False assms(1) k al unfolding next_counter_def Let_def
      by (auto intro!: wp_then simp: wp_simps counter_def [symmetric])
  qed
  then show ?thesis by (intro wp_then, rule wp_conseq) (simp_all add: assms(6))
qed

section \<open>The life cycle\<close>

definition same_job :: "job \<Rightarrow> job \<Rightarrow> bool" where
  "same_job j j' \<longleftrightarrow> j_id j' = j_id j \<and> j_queue j' = j_queue j \<and> j_payload j' = j_payload j \<and>
     j_priority j' = j_priority j \<and> j_dedupe j' = j_dedupe j \<and> created_at j' = created_at j"

abbreviation settled :: "job_state set" where
  "settled \<equiv> {Done, Dead, Expired}"

text \<open>A job stays the same job, and in one of the \<open>frozen\<close> states it stays with its result.\<close>

definition evolves :: "job_state set \<Rightarrow> job option \<Rightarrow> job option \<Rightarrow> bool" where
  "evolves frozen a b = (case (a, b) of
     (None, None) \<Rightarrow> True
   | (Some j, Some j') \<Rightarrow> same_job j j' \<and>
       (j_state j \<in> frozen \<longrightarrow> j_state j' = j_state j \<and> j_result j' = j_result j)
   | _ \<Rightarrow> False)"

text \<open>Retention takes away settled jobs only; a producer adds ready jobs only.\<close>

definition retires :: "job option \<Rightarrow> job option \<Rightarrow> bool" where
  "retires a b \<longleftrightarrow> b = a \<or> b = None \<and> (\<exists>j. a = Some j \<and> is_terminal (j_state j))"

definition admits :: "job option \<Rightarrow> job option \<Rightarrow> bool" where
  "admits a b \<longleftrightarrow> b = a \<or> a = None \<and> (\<exists>j. b = Some j \<and> j_state j = Ready)"

interpretation evolving: job_relation "evolves frozen" for frozen
  by unfold_locales (auto simp: evolves_def same_job_def split: option.splits)

interpretation retiring: job_relation retires
  by unfold_locales (auto simp: retires_def)

interpretation admitting: job_relation admits
  by unfold_locales (auto simp: admits_def)

lemma evolves_Some [simp]: "evolves S (Some j) (Some j') \<longleftrightarrow>
    same_job j j' \<and> (j_state j \<in> S \<longrightarrow> j_state j' = j_state j \<and> j_result j' = j_result j)"
  by (simp add: evolves_def)

section \<open>Dropping a job\<close>

text \<open>A live job as an operation holds it, its fields being changed before it is stored again.\<close>

definition draft :: "job \<Rightarrow> job \<Rightarrow> bool" where
  "draft old j \<longleftrightarrow> \<not> is_terminal (j_state old) \<and> same_job old j \<and> job_wf j \<and> valid_name (j_queue j) 64 \<and>
     j_result j = None"

lemma live_states: "\<not> is_terminal s \<longleftrightarrow> s = Ready \<or> s = Leased"
  by (cases s) simp_all

lemma draftI: "job_ok j \<Longrightarrow> \<not> is_terminal (j_state j) \<Longrightarrow> draft j j"
  by (auto simp: draft_def job_ok_def same_job_def live_states)

lemma str_ok_lit [simp]: "length s \<le> 1000 \<Longrightarrow> str_ok (lit s)"
proof -
  assume "length s \<le> 1000"
  then have "length (utf8 (lit s)) \<le> 4000" using length_utf8 [of "lit s"] by (simp add: lit_def)
  then show ?thesis by (simp add: str_ok_def valid_str_lit)
qed

definition expired_job :: "job \<Rightarrow> int \<Rightarrow> str \<Rightarrow> job" where
  "expired_job j now reason = j\<lparr>j_state := Expired, lease_worker := None, lease_until := None,
     last_error := Some (sanitize reason), updated_at := now\<rparr>"

definition dead_job :: "job \<Rightarrow> int \<Rightarrow> str \<Rightarrow> bool \<Rightarrow> job" where
  "dead_job j now why keep_error = (if keep_error then j else j\<lparr>last_error := Some (sanitize why)\<rparr>)
     \<lparr>j_state := Dead, lease_worker := None, lease_until := None, updated_at := now\<rparr>"

lemma job_ok_dropped:
  assumes "draft old j" "is_i64 now" "valid_str reason"
  shows "job_ok (expired_job j now reason)" "job_ok (dead_job j now reason b)"
  using assms by (auto simp: draft_def job_ok_def job_wf_def expired_job_def dead_job_def sanitize_ok)

lemma evolves_dropped:
  assumes "draft old j" "frozen \<subseteq> settled"
  shows "evolves frozen (Some old) (Some (expired_job j now reason))"
    "evolves frozen (Some old) (Some (dead_job j now reason b))"
  using assms by (auto simp: draft_def live_states same_job_def expired_job_def dead_job_def)

text \<open>The drop steps, under any relation that admits the drop.\<close>

context job_relation begin

lemma step_expire_at:
  assumes "keeps R en0 en" "jobs en (j_id j) = Some old" "draft old j" "is_i64 now" "valid_str reason"
    "R (Some old) (Some (expired_job j now reason))"
    "\<And>en'. keeps R en0 en' \<Longrightarrow> jobs en' = (jobs en)(j_id j \<mapsto> expired_job j now reason) \<Longrightarrow>
       wp F (f ()) Q (intact R en0) en'"
  shows "wp F (q_then (expire_at j now reason) f) Q (intact R en0) en"
proof -
  let ?j = "expired_job j now reason"
  have wf: "j_id ?j = j_id j" "str_ok (j_queue ?j)" "j_id j \<le> u64_max"
    using assms(3) by (auto simp: expired_job_def draft_def job_wf_def)
  have "wp F (expire_at j now reason)
      (\<lambda>_ en'. keeps R en0 en' \<and> jobs en' = (jobs en)(j_id j \<mapsto> ?j)) (intact R en0) en"
    unfolding expire_at_def Let_def expired_job_def [symmetric]
    apply (rule then_del [OF assms(1)], simp)
    apply (rule then_del, assumption, simp)
    apply (rule then_save)
        apply assumption
       apply (simp add: wf assms(2))
      apply (rule assms(6))
     apply (rule job_ok_dropped [OF assms(3-5)])
    apply (rule then_record_alert, assumption)
        apply (simp_all add: wf assms wp_simps)
    done
  then show ?thesis by (intro wp_then, rule wp_conseq) (simp_all add: assms(7))
qed

lemma step_dead_letter:
  assumes "keeps R en0 en" "jobs en (j_id j) = Some old" "draft old j" "is_i64 now" "valid_str why"
    "R (Some old) (Some (dead_job j now why b))"
    "\<And>en'. keeps R en0 en' \<Longrightarrow> jobs en' = (jobs en)(j_id j \<mapsto> dead_job j now why b) \<Longrightarrow>
       wp F (f ()) Q (intact R en0) en'"
  shows "wp F (q_then (dead_letter j now why b) f) Q (intact R en0) en"
proof -
  let ?j = "dead_job j now why b"
  have wf: "j_id ?j = j_id j" "str_ok (j_queue ?j)" "j_id j \<le> u64_max"
    using assms(3) by (auto simp: dead_job_def draft_def job_wf_def)
  have err: "valid_str (case last_error ?j of None \<Rightarrow> sanitize why | Some r \<Rightarrow> r)"
    using job_ok_dropped(2) [OF assms(3-5), of b] sanitize_ok [OF assms(5)]
    by (auto simp: job_ok_def job_wf_def str_ok_def split: option.split)
  have "wp F (dead_letter j now why b)
      (\<lambda>_ en'. keeps R en0 en' \<and> jobs en' = (jobs en)(j_id j \<mapsto> ?j)) (intact R en0) en"
    unfolding dead_letter_def Let_def dead_job_def [symmetric]
    apply (rule then_del [OF assms(1)], simp)
    apply (rule then_del, assumption, simp)
    apply (rule then_save)
        apply assumption
       apply (simp add: wf assms(2))
      apply (rule assms(6))
     apply (rule job_ok_dropped [OF assms(3-5)])
    apply (rule then_record_alert, assumption)
        apply (simp_all add: wf err assms wp_simps)
    done
  then show ?thesis by (intro wp_then, rule wp_conseq) (simp_all add: assms(7))
qed

end

lemma then_expire_at:
  assumes "keeps (evolves frozen) en0 en" "frozen \<subseteq> settled" "jobs en (j_id j) = Some old" "draft old j"
    "is_i64 now" "valid_str reason"
    "\<And>en'. keeps (evolves frozen) en0 en' \<Longrightarrow> jobs en' = (jobs en)(j_id j \<mapsto> expired_job j now reason) \<Longrightarrow>
       wp F (f ()) Q (intact (evolves frozen) en0) en'"
  shows "wp F (q_then (expire_at j now reason) f) Q (intact (evolves frozen) en0) en"
  by (rule evolving.step_expire_at [OF assms(1,3-6)], rule evolves_dropped(1) [OF assms(4,2)], rule assms(7))

lemma then_dead_letter:
  assumes "keeps (evolves frozen) en0 en" "frozen \<subseteq> settled" "jobs en (j_id j) = Some old" "draft old j"
    "is_i64 now" "valid_str why"
    "\<And>en'. keeps (evolves frozen) en0 en' \<Longrightarrow> jobs en' = (jobs en)(j_id j \<mapsto> dead_job j now why b) \<Longrightarrow>
       wp F (f ()) Q (intact (evolves frozen) en0) en'"
  shows "wp F (q_then (dead_letter j now why b) f) Q (intact (evolves frozen) en0) en"
  by (rule evolving.step_dead_letter [OF assms(1,3-6)], rule evolves_dropped(2) [OF assms(4,2)], rule assms(7))

section \<open>The scan loops\<close>

lemma id_from_index_le: "id_from_index_key key = Some jid \<Longrightarrow> jid \<le> u64_max"
  by (auto simp: id_from_index_key_def id_at_def intro!: of_be_8_le split: if_splits)

lemma id_from_bytes_le: "id_from_bytes bs = Some jid \<Longrightarrow> jid \<le> u64_max"
  by (auto simp: id_from_bytes_def u64_from_bytes_def intro!: of_be_8_le split: if_splits)

text \<open>The ranges of a policy's numbers; a result and a payload fit their length prefix.\<close>

definition policy_ok :: "policy \<Rightarrow> bool" where
  "policy_ok p \<longleftrightarrow> is_i64 (lease_ms p) \<and> is_i64 (max_lease_ms p) \<and> is_i64 (base_ms (retry p)) \<and>
     is_i64 (retry_max_ms (retry p)) \<and> max_attempts p \<le> u32_max \<and> max_lease_losses p \<le> u32_max \<and>
     max_payload_bytes p \<le> u32_max \<and> max_result_bytes p \<le> u32_max \<and>
     max_progress_entries p \<le> u32_max \<and> max_progress_bytes p \<le> u64_max"

lemma policy_ok_default: "policy_ok policy_default"
  by (simp add: policy_ok_def policy_default_def retry_default_def is_i64_def)

text \<open>A loop over index entries: whatever an entry's key, the body keeps the store.\<close>

lemma q_for_keeps:
  assumes "keeps R en0 en" "\<forall>e \<in> set es. plain (fst e)"
    "\<And>e acc en. e \<in> set es \<Longrightarrow> plain (fst e) \<Longrightarrow> keeps R en0 en \<Longrightarrow>
       wp F (body e acc) (\<lambda>_ en. keeps R en0 en) (intact R en0) en"
    "\<And>acc en. keeps R en0 en \<Longrightarrow> Q acc en"
  shows "wp F (q_for es acc body) Q (intact R en0) en"
proof (rule wp_for [where I = "\<lambda>xs acc en. set xs \<subseteq> set es \<and> keeps R en0 en"])
  show "wp F (body x acc) (\<lambda>acc en. set xs \<subseteq> set es \<and> keeps R en0 en) (intact R en0) en"
    if "set (x # xs) \<subseteq> set es \<and> keeps R en0 en" for x xs acc en
    using assms(2) that by (intro wp_conseq [OF assms(3) [of x]]) auto
qed (use assms in auto)

lemma scan_plain: "keeps R en0 en \<Longrightarrow> \<forall>e \<in> set (bm_scan (index_prefix q st) en). plain (fst e)"
  "keeps R en0 en \<Longrightarrow> \<forall>e \<in> set (bm_scan (progress_prefix i) en). plain (fst e)"
  using store_ok_wf plain_scans by (auto simp: set_bm_scan dest!: keeps_ok)

text \<open>The start of every such body: the key names no job, no stored job, or a job to look at.\<close>

lemma index_entry:
  assumes "keeps R en0 en" "plain key" "\<And>en'. keeps R en0 en' \<Longrightarrow> wp F stale Q (intact R en0) en'"
    "\<And>j. jobs en (j_id j) = Some j \<Longrightarrow> job_ok j \<Longrightarrow> wp F (found j) Q (intact R en0) en"
  shows "wp F (case id_from_index_key key of
       None \<Rightarrow> q_then (q_del key) (\<lambda>_. stale)
     | Some jid \<Rightarrow> q_then (q_load jid) (\<lambda>r. case r of
         None \<Rightarrow> q_then (q_del key) (\<lambda>_. stale)
       | Some j \<Rightarrow> found j)) Q (intact R en0) en"
proof -
  have stale: "wp F (q_then (q_del key) (\<lambda>_. stale)) Q (intact R en0) en"
    by (rule then_del [OF assms(1,2)]) (rule assms(3))
  show ?thesis
  proof (cases "id_from_index_key key")
    case None
    then show ?thesis by (simp add: stale)
  next
    case (Some jid)
    have "wp F (case jobs en jid of None \<Rightarrow> q_then (q_del key) (\<lambda>_. stale) | Some j \<Rightarrow> found j) Q (intact R en0) en"
      using stale assms(4) jobsD(1,2) [OF keeps_ok [OF assms(1)], of jid] by (auto split: option.split)
    then show ?thesis using Some by (simp add: then_load [OF assms(1) id_from_index_le])
  qed
qed

section \<open>Recovery and hand over\<close>

lemma back_ready:
  assumes "draft old j" "is_i64 nb" "lease_worker j = None" "lease_until j = None"
  shows "job_ok (j\<lparr>j_state := Ready, not_before := nb\<rparr>)"
    "frozen \<subseteq> settled \<Longrightarrow> evolves frozen (Some old) (Some (j\<lparr>j_state := Ready, not_before := nb\<rparr>))"
  using assms by (auto simp: draft_def job_ok_def job_wf_def live_states same_job_def)

context job_relation begin

lemma step_back_ready:
  assumes "keeps R en0 en" "jobs en (j_id j) = Some old" "draft old j"
    "is_i64 nb" "lease_worker j = None" "lease_until j = None"
    "R (Some old) (Some (j\<lparr>j_state := Ready, not_before := nb\<rparr>))"
    "\<And>en'. keeps R en0 en' \<Longrightarrow> wp F (f ()) Q (intact R en0) en'"
  shows "wp F (q_then (q_then (q_save (j\<lparr>j_state := Ready, not_before := nb\<rparr>))
      (\<lambda>_. put_index (j\<lparr>j_state := Ready, not_before := nb\<rparr>))) f) Q (intact R en0) en"
proof (rule wp_then, rule then_save [OF assms(1), of _ old])
  show "job_ok (j\<lparr>j_state := Ready, not_before := nb\<rparr>)"
    using back_ready(1) [OF assms(3-6)] by simp
qed (auto simp: assms(2,7) intro!: last_put_index assms(8))

end

lemma then_back_ready:
  assumes "keeps (evolves frozen) en0 en" "frozen \<subseteq> settled" "jobs en (j_id j) = Some old" "draft old j"
    "is_i64 nb" "lease_worker j = None" "lease_until j = None"
    "\<And>en'. keeps (evolves frozen) en0 en' \<Longrightarrow> wp F (f ()) Q (intact (evolves frozen) en0) en'"
  shows "wp F (q_then (q_then (q_save (j\<lparr>j_state := Ready, not_before := nb\<rparr>))
      (\<lambda>_. put_index (j\<lparr>j_state := Ready, not_before := nb\<rparr>))) f) Q (intact (evolves frozen) en0) en"
  by (rule evolving.step_back_ready [OF assms(1,3-7)], rule back_ready(2) [OF assms(4-7,2)], rule assms(8))

lemma wp_if [q_steps]:
  assumes "b \<Longrightarrow> wp F m Q E en" "\<not> b \<Longrightarrow> wp F m' Q E en"
  shows "wp F (if b then m else m') Q E en"
  using assms by simp

lemma then_if [q_steps]:
  assumes "b \<Longrightarrow> wp F (q_then m f) Q E en" "\<not> b \<Longrightarrow> wp F (q_then m' f) Q E en"
  shows "wp F (q_then (if b then m else m') f) Q E en"
  using assms by simp

lemma wp_keeps_return: "keeps R en0 en \<Longrightarrow> wp F (q_return a) (\<lambda>_ en. keeps R en0 en) E en"
  by (simp add: wp_simps)

text \<open>What respects leases: a relation that lets any job move on except one that is leased past \<open>now\<close>.\<close>

definition held :: "int \<Rightarrow> job \<Rightarrow> bool" where
  "held now j \<longleftrightarrow> j_state j = Leased \<and> (\<exists>u. lease_until j = Some u \<and> now < u)"

locale lease_respecting = job_relation +
  fixes now :: int
  assumes moves: "\<not> held now old \<Longrightarrow> \<not> is_terminal (j_state old) \<Longrightarrow> same_job old j \<Longrightarrow> R (Some old) (Some j)"
begin

lemma moves_lapsed:
  "j_state j = Leased \<Longrightarrow> \<not> (case lease_until j of Some u \<Rightarrow> u > now | None \<Rightarrow> False) \<Longrightarrow> same_job j j' \<Longrightarrow>
    R (Some j) (Some j')"
  by (rule moves) (auto simp: held_def split: option.splits)

lemma moves_ready: "j_state j = Ready \<Longrightarrow> same_job j j' \<Longrightarrow> R (Some j) (Some j')"
  by (rule moves) (auto simp: held_def)

lemma recover_entry_keeps:
  assumes "keeps R en0 en" "plain (fst e)" "is_i64 now"
  shows "wp F (recover_entry p queue now e n) (\<lambda>_ en. keeps R en0 en) (intact R en0) en"
proof -
  obtain key v where e: "e = (key, v)" by (cases e)
  have key: "plain key" using assms(2) e by simp
  have d: "draft j (j\<lparr>lease_expiries := wrap32 (lease_expiries j + 1),
       last_error := Some (lit ''lease expired (worker did not settle)''),
       lease_worker := None, lease_until := None, updated_at := now\<rparr>)" if "job_ok j" "j_state j = Leased" for j
    using that assms(3) by (auto simp: draft_def job_ok_def job_wf_def same_job_def wrap32_def)
  note steps = d [simplified] assms(3) wp_simps moves_lapsed same_job_def expired_job_def dead_job_def
  show ?thesis
    unfolding recover_entry_def e prod.case Let_def
    apply (rule index_entry [OF assms(1) key], erule wp_keeps_return)
    subgoal for j
      apply (intro wp_if)
        apply (rule then_del [OF assms(1) key], erule wp_keeps_return)
       apply (rule wp_keeps_return [OF assms(1)])
      apply (rule then_del [OF assms(1) key])
      apply (intro then_if)
         apply (rule step_expire_at [where old = j]; (assumption | simp add: steps valid_str_lit))
        apply (rule step_dead_letter [where old = j]; (assumption | simp add: steps valid_str_lit))
       apply (rule step_dead_letter [where old = j]; (assumption | simp add: steps valid_str_lit))
      apply (rule step_back_ready [where old = j]; (assumption | simp add: steps))
      done
    done
qed

lemma recover_leases_keeps:
  assumes "keeps R en0 en" "is_i64 now"
  shows "wp F (recover_leases p queue now) (\<lambda>_ en. keeps R en0 en) (intact R en0) en"
  unfolding recover_leases_def
  by (rule then_scan [OF assms(1)], rule q_for_keeps [OF assms(1) scan_plain(1) [OF assms(1)]])
     (auto intro: recover_entry_keeps assms(2))

end

text \<open>A rule for a call of an operation proved so.\<close>

lemma then_keeps:
  assumes "wp F m (\<lambda>_ en. keeps R en0 en) (intact R en0) en"
    "\<And>a en. keeps R en0 en \<Longrightarrow> wp F (f a) Q (intact R en0) en"
  shows "wp F (q_then m f) Q (intact R en0) en"
  by (intro wp_then, rule wp_conseq [OF assms(1)]) (simp_all add: assms(2))

lemma wp_intact_fail: "keeps R en0 en \<Longrightarrow> (\<And>w. e \<noteq> Corrupt w) \<Longrightarrow> wp F (q_fail e) Q (intact R en0) en"
  by (simp add: wp_simps intact_def)

lemma handover_entry_keeps:
  assumes "keeps (evolves settled) en0 en" "plain (fst e)" "is_i64 now"
  shows "wp F (handover_entry queue pre now e n) (\<lambda>_ en. keeps (evolves settled) en0 en) (intact (evolves settled) en0) en"
proof -
  obtain key v where e: "e = (key, v)" by (cases e)
  have key: "plain key" using assms(2) e by simp
  have d: "draft j (j\<lparr>lease_worker := None, lease_until := None, updated_at := now\<rparr>)"
    if "job_ok j" "j_state j = Leased" for j
    using that assms(3) by (auto simp: draft_def job_ok_def job_wf_def same_job_def)
  show ?thesis
    unfolding handover_entry_def e prod.case Let_def
    apply (rule index_entry [OF assms(1) key], erule wp_keeps_return)
    subgoal for j
      apply (intro wp_if)
        apply (rule then_del [OF assms(1) key], erule wp_keeps_return)
       apply (rule wp_keeps_return [OF assms(1)])
      apply (rule then_del [OF assms(1) key])
      apply (intro then_if)
       apply (rule then_expire_at [where old = j]; (assumption | simp add: d assms(3) valid_str_lit wp_simps))
      apply (rule then_back_ready [where old = j]; (assumption | simp add: d assms(3) wp_simps))
      done
    done
qed

lemma handover_keeps:
  assumes "keeps (evolves settled) en0 en" "is_i64 now"
  shows "wp F (handover now queue pre) (\<lambda>_ en. keeps (evolves settled) en0 en) (intact (evolves settled) en0) en"
  unfolding handover_def
  by (intro wp_if wp_intact_fail assms(1) then_scan [OF assms(1)]
        q_for_keeps [OF assms(1) scan_plain(1) [OF assms(1)]])
     (auto intro: handover_entry_keeps assms(2))

section \<open>Taking a job\<close>

text \<open>What a taken job was and is.\<close>

definition leased_to :: "str \<Rightarrow> int \<Rightarrow> int \<Rightarrow> job \<Rightarrow> job" where
  "leased_to worker now lease j = j\<lparr>j_state := Leased, lease_worker := Some worker,
     lease_until := Some (sat_i64 (now + lease)), updated_at := now\<rparr>"

definition takeable :: "policy \<Rightarrow> str \<Rightarrow> int \<Rightarrow> job \<Rightarrow> bool" where
  "takeable p queue now j \<longleftrightarrow> j_queue j = queue \<and> j_state j = Ready \<and> not_before j \<le> now \<and>
     (\<forall>f \<in> set_option (fresh_until j). now < f) \<and> attempts j < j_max_attempts j \<and>
     lease_expiries j \<le> max_lease_losses p"

definition took :: "(job option \<Rightarrow> job option \<Rightarrow> bool) \<Rightarrow> store \<Rightarrow> policy \<Rightarrow> str \<Rightarrow> str \<Rightarrow> int \<Rightarrow> int \<Rightarrow> take_outcome \<Rightarrow> store \<Rightarrow> bool" where
  "took R en0 p queue worker lease now r en \<longleftrightarrow> (\<forall>j'. r = TakenJob j' \<longrightarrow>
     jobs en (j_id j') = Some j' \<and>
     (\<exists>j. takeable p queue now j \<and> R (jobs en0 (j_id j)) (Some j) \<and> j' = leased_to worker now lease j))"

context lease_respecting begin

lemma take_loop_keeps:
  assumes "keeps R en0 en" "\<forall>e \<in> set es. plain (fst e)" "is_i64 now" "str_ok worker"
  shows "wp F (take_loop p queue worker lease now es)
    (\<lambda>r en. keeps R en0 en \<and> took R en0 p queue worker lease now r en) (intact R en0) en"
  using assms(1,2)
proof (induction es arbitrary: en)
  case Nil
  then show ?case by (simp add: wp_simps took_def)
next
  case (Cons e es)
  obtain key v where e: "e = (key, v)" by (cases e)
  have key: "plain key" using Cons.prems e by simp
  have IH: "keeps R en0 en' \<Longrightarrow> wp F (take_loop p queue worker lease now es)
     (\<lambda>r en. keeps R en0 en \<and> took R en0 p queue worker lease now r en) (intact R en0) en'" for en'
    using Cons by simp
  have ok: "job_ok (leased_to worker now lease j)" if "job_ok j" "j_state j = Ready" for j
    using that assms(3,4) by (auto simp: leased_to_def job_ok_def job_wf_def)
  have rel: "R (jobs en0 (j_id j)) (Some j)" if "jobs en (j_id j) = Some j" for j
    using Cons.prems(1) that unfolding keeps_def by metis
  show ?case
    unfolding e take_loop.simps Let_def leased_to_def [symmetric]
    apply (rule index_entry [OF Cons.prems(1) key], erule IH)
    subgoal for j
      apply (intro wp_if)
           apply (rule then_del [OF Cons.prems(1) key], erule IH)
          apply (rule step_expire_at [where old = j, OF Cons.prems(1)]; (erule IH | assumption | (rule draftI, assumption, force) | simp add: valid_str_lit assms(3) moves_ready same_job_def expired_job_def dead_job_def))
         apply (rule step_dead_letter [where old = j, OF Cons.prems(1)]; (erule IH | assumption | (rule draftI, assumption, force) | simp add: valid_str_lit assms(3) moves_ready same_job_def expired_job_def dead_job_def))
        apply (rule step_dead_letter [where old = j, OF Cons.prems(1)]; (erule IH | assumption | (rule draftI, assumption, force) | simp add: valid_str_lit assms(3) moves_ready same_job_def expired_job_def dead_job_def))
       apply (rule IH [OF Cons.prems(1)])
      apply (rule then_save [OF Cons.prems(1)])
         apply (simp add: leased_to_def)
        apply (rule moves_ready, simp, simp add: leased_to_def same_job_def)
       apply (rule ok, assumption, simp)
      apply (rule then_del, assumption, rule key)
      apply (rule then_put_index, assumption)
      apply (use rel [of j] in \<open>auto simp: wp_simps took_def takeable_def leased_to_def split: option.splits\<close>)
      done
    done
qed

end

text \<open>The life cycle respects leases, and so does the life cycle that leaves held jobs alone.\<close>

definition guards :: "int \<Rightarrow> job option \<Rightarrow> job option \<Rightarrow> bool" where
  "guards now a b \<longleftrightarrow> evolves settled a b \<and> (\<forall>j. a = Some j \<and> held now j \<longrightarrow> b = a)"

lemma evolves_moves: "\<not> is_terminal (j_state old) \<Longrightarrow> same_job old j \<Longrightarrow> evolves settled (Some old) (Some j)"
  by (cases "j_state old") simp_all

interpretation working: lease_respecting "evolves settled" now for now
  by unfold_locales (rule evolves_moves)

interpretation guarding: lease_respecting "guards now" now for now
  by unfold_locales
     (auto simp: guards_def evolves_moves evolving.same intro: evolving.compose)

end
