(* ===== verification/QueueLife.thy ===== *)
theory QueueLife
  imports QueueSafe
begin

text \<open>
  The contract of each operation: the worker's operations and the sweeps let jobs evolve and never
  leave a settled state, \<open>requeue\<close> may revive a dead job, \<open>reap\<close> retires settled jobs, \<open>enqueue\<close> admits
  one ready job under a fresh id.
\<close>

context lease_respecting begin

lemma take_job_keeps:
  assumes "keeps R en0 en" "is_i64 now"
  shows "wp F (take_job p now queue worker lease)
    (\<lambda>r en. keeps R en0 en \<and>
       took R en0 p queue worker (case lease of Some ms \<Rightarrow> ms | None \<Rightarrow> lease_ms p) now r en)
    (intact R en0) en"
proof -
  have w: "str_ok worker" if "\<not> \<not> valid_name worker 100"
    using that valid_name_ok [of worker 100] by simp
  show ?thesis
    unfolding take_job_def Let_def
    apply (intro wp_if wp_intact_fail assms(1); (simp; fail)?)
    apply (rule then_keeps [OF recover_leases_keeps [OF assms]])
    apply (rule count_index_wp, assumption)
    apply (intro wp_if)
     apply (simp add: wp_simps took_def)
    apply (rule then_scan, assumption)
    apply (rule take_loop_keeps, assumption, erule scan_plain(1))
    using w assms(2) by simp_all
qed

end

section \<open>Settling\<close>

text \<open>The lease a worker needs: named, its own; unnamed, anybody's.\<close>

definition lease_of :: "str option \<Rightarrow> job \<Rightarrow> bool" where
  "lease_of worker j \<longleftrightarrow> j_state j = Leased \<and> (\<forall>w \<in> set_option worker. lease_worker j = Some w)"

lemma lease_tests:
  "j_state j \<noteq> Leased \<or> (case worker of Some w \<Rightarrow> \<not> holds_lease j w | None \<Rightarrow> False) \<longleftrightarrow> \<not> lease_of worker j"
  by (auto simp: lease_of_def holds_lease_def split: option.split)

lemma lease_cases:
  assumes "\<not> lease_of worker j \<Longrightarrow> wp F m Q E en" "lease_of worker j \<Longrightarrow> wp F m' Q E en"
  shows "wp F (if j_state j \<noteq> Leased then m
    else if (case worker of Some w \<Rightarrow> \<not> holds_lease j w | None \<Rightarrow> False) then m else m') Q E en"
  using assms lease_tests [of j worker] by auto

definition done_with :: "int \<Rightarrow> bytes \<Rightarrow> job \<Rightarrow> job" where
  "done_with now res j = j\<lparr>j_state := Done, j_result := Some res, lease_worker := None, lease_until := None,
     last_error := None, updated_at := now\<rparr>"

lemma settle_keeps:
  assumes "keeps (evolves settled) en0 en" "is_i64 now" "policy_ok p" "jid \<le> u64_max"
  shows "wp F (settle p now jid worker res)
    (\<lambda>j' en'. keeps (evolves settled) en0 en' \<and>
       (\<exists>j. jobs en jid = Some j \<and> lease_of worker j \<and> j' = done_with now res j) \<and>
       jobs en' = (jobs en)(jid \<mapsto> j'))
    (intact (evolves settled) en0) en"
proof -
  have ok: "job_ok (done_with now res j)" if "job_ok j" "\<not> length res > max_result_bytes p" for j
    using that assms(2,3) by (auto simp: done_with_def job_ok_def job_wf_def bytes_ok_def policy_ok_def)
  have ev: "evolves settled (Some j) (Some (done_with now res j))" if "lease_of worker j" for j
    using that by (simp add: done_with_def same_job_def lease_of_def)
  show ?thesis
    unfolding settle_def Let_def done_with_def [symmetric]
    apply (rule then_job [OF assms(1,4)])
    subgoal for j
      apply (rule lease_cases)
       apply (rule wp_intact_fail [OF assms(1)], simp)
      apply (rule wp_if)
       apply (rule wp_intact_fail [OF assms(1)], simp)
      apply (rule evolving.then_save [OF assms(1)])
         apply (simp add: done_with_def)
        apply (erule ev)
       apply (erule ok, assumption)
      apply (rule then_del, assumption, simp)
      apply (auto simp: wp_simps done_with_def)
      done
    done
qed

text \<open>A worker without the lease gets nothing done.\<close>

lemma fenced:
  assumes "store_ok en" "jid \<le> u64_max" "\<And>j. jobs en jid = Some j \<Longrightarrow> f j = q_fail LeaseLost"
  shows "wp F (q_then (job_or_not_found jid) f) (\<lambda>_ _. False) (\<lambda>e en'. en' = en) en"
  using assms unfolding job_or_not_found_def q_job_def
  by (intro wp_then) (auto simp: wp_simps split: option.split)

lemma settle_fenced:
  assumes "store_ok en" "jid \<le> u64_max" "\<forall>j. jobs en jid = Some j \<longrightarrow> \<not> lease_of worker j"
  shows "wp F (settle p now jid worker res) (\<lambda>_ _. False) (\<lambda>e en'. en' = en) en"
    "wp F (fail_inner p now jid worker reason) (\<lambda>_ _. False) (\<lambda>e en'. en' = en) en"
  unfolding settle_def fail_inner_def
  by (rule fenced [OF assms(1,2)], use assms(3) lease_tests in auto)+

lemma fail_inner_keeps:
  assumes "keeps (evolves settled) en0 en" "is_i64 now" "jid \<le> u64_max" "valid_str reason"
  shows "wp F (fail_inner p now jid worker reason)
    (\<lambda>r en'. keeps (evolves settled) en0 en' \<and>
       (\<exists>j j'. jobs en jid = Some j \<and> lease_of worker j \<and> jobs en' = (jobs en)(jid \<mapsto> j') \<and>
          j_state j' = fo_state r \<and> attempts j' = wrap32 (attempts j + 1) \<and> attempts j' = fo_attempts r \<and>
          (if wrap32 (attempts j + 1) \<ge> j_max_attempts j
           then fo_state r = Dead \<and> fo_dead r \<and> fo_not_before r = None
           else fo_state r = Ready \<and> \<not> fo_dead r \<and> fo_not_before r = Some (not_before j') \<and>
             not_before j' = sat_i64 (now + delay_ms (retry p) (attempts j')))))
    (intact (evolves settled) en0) en"
proof -
  have d: "draft j (j\<lparr>attempts := wrap32 (attempts j + 1), lease_worker := None, lease_until := None,
         last_error := Some (sanitize reason), updated_at := now\<rparr>)"
    if "job_ok j" "lease_of worker j" for j
    using that assms(2,4)
    by (auto simp: draft_def job_ok_def job_wf_def same_job_def wrap32_def sanitize_ok lease_of_def)
  note d' = d [simplified]
  show ?thesis
    unfolding fail_inner_def Let_def
    apply (rule then_job [OF assms(1,3)])
    subgoal for j
      apply (rule lease_cases)
       apply (rule wp_intact_fail [OF assms(1)], simp)
      apply (rule then_del [OF assms(1)], simp)
      apply (rule wp_if)
       apply (rule then_dead_letter [where old = j];
          (assumption | simp add: d' assms(2) valid_str_lit wp_simps))
       apply (force simp: dead_job_def)
      apply (rule evolving.then_save [where old = j], assumption)
         apply simp
        apply (rule back_ready(2) [OF d, where frozen = settled]; simp)
       apply (rule back_ready(1) [OF d]; simp)
      apply (rule then_put_index, assumption)
      apply (force simp: wp_simps)
      done
    done
qed

section \<open>Heartbeats and progress\<close>

lemma heartbeat_keeps:
  assumes "keeps (evolves settled) en0 en" "is_i64 now" "jid \<le> u64_max"
  shows "wp F (heartbeat p now jid worker ext)
    (\<lambda>u en'. keeps (evolves settled) en0 en' \<and>
       (\<exists>j. jobs en jid = Some j \<and> holds_lease j worker \<and>
          jobs en' = (jobs en)(jid \<mapsto> j\<lparr>lease_until := Some u, updated_at := now\<rparr>)))
    (intact (evolves settled) en0) en"
  unfolding heartbeat_def Let_def
  apply (rule then_job [OF assms(1,3)])
  subgoal for j
    apply (rule wp_if)
     apply (rule wp_intact_fail [OF assms(1)], simp)
    apply (rule wp_if)
     apply (rule wp_intact_fail [OF assms(1)], simp)
    apply (rule evolving.then_save [OF assms(1)])
       apply simp
      apply (simp add: same_job_def)
     apply (use assms(2) in \<open>auto simp: job_ok_def job_wf_def holds_lease_def\<close>) [1]
    apply (auto simp: wp_simps)
    done
  done

lemma progress_keeps:
  assumes "keeps (evolves settled) en0 en" "is_i64 now" "policy_ok p" "jid \<le> u64_max"
  shows "wp F (progress p now jid chunk) (\<lambda>_ en. keeps (evolves settled) en0 en) (intact (evolves settled) en0) en"
proof -
  have ok: "job_ok (j\<lparr>progress_entries := wrap32 (progress_entries j + 1),
         progress_bytes := wrap64 (progress_bytes j + length chunk), updated_at := now\<rparr>)" if "job_ok j" for j
    using that assms(2) by (auto simp: job_ok_def job_wf_def wrap32_def wrap64_def)
  show ?thesis
    unfolding progress_def Let_def
    apply (rule then_job [OF assms(1,4)])
    subgoal for j
      apply (rule wp_if)
       apply (rule wp_intact_fail [OF assms(1)], simp)
      apply (rule then_put [OF assms(1)], simp)
      apply (rule evolving.then_save, assumption)
         apply simp
        apply (simp add: same_job_def)
       apply (erule ok)
      apply (simp add: wp_simps)
      done
    done
qed

section \<open>Sweeps\<close>

text \<open>A sweep works on the jobs as it read them: each is still stored unchanged when its turn comes.\<close>

definition unchanged :: "job list \<Rightarrow> store \<Rightarrow> bool" where
  "unchanged js en \<longleftrightarrow> distinct (map j_id js) \<and> (\<forall>j \<in> set js. jobs en (j_id j) = Some j)"

lemma unchanged_jobs_of: "store_ok en \<Longrightarrow> unchanged (jobs_of en) en"
  by (simp add: unchanged_def jobs_of_distinct jobs_of_in)

lemma unchanged_tl:
  assumes "unchanged (j # js) en" "\<And>i. i \<noteq> j_id j \<Longrightarrow> jobs en' i = jobs en i"
  shows "unchanged js en'"
proof -
  have d: "j_id j \<notin> j_id ` set js" "distinct (map j_id js)"
    and js: "\<And>k. k \<in> set js \<Longrightarrow> jobs en (j_id k) = Some k"
    using assms(1) unfolding unchanged_def by simp_all
  have "jobs en' (j_id k) = Some k" if k: "k \<in> set js" for k
  proof -
    have "j_id k \<noteq> j_id j" using d(1) k by (metis image_eqI)
    then show ?thesis using assms(2) [of "j_id k"] js [OF k] by simp
  qed
  with d(2) show ?thesis unfolding unchanged_def by blast
qed

lemma return_unchanged:
  assumes "keeps R en0 en'" "unchanged (j # js) en" "jobs en' = jobs en \<or> jobs en' = (jobs en)(j_id j := x)"
  shows "wp F (q_return a) (\<lambda>_ en. keeps R en0 en \<and> unchanged js en) E en'"
  using assms(1,3) unchanged_tl [OF assms(2), of en'] by (auto simp: wp_return)

lemma unchanged_hd:
  assumes "keeps R en0 en" "unchanged (j # js) en"
  shows "jobs en (j_id j) = Some j" "job_ok j" "j_id j \<le> u64_max" "str_ok (j_queue j)"
proof -
  show j: "jobs en (j_id j) = Some j" using assms(2) by (simp add: unchanged_def)
  show "job_ok j" by (rule jobsD(2) [OF keeps_ok [OF assms(1)] j])
  then show "j_id j \<le> u64_max" "str_ok (j_queue j)" by (simp_all add: job_ok_def job_wf_def)
qed

lemma q_for_unchanged:
  assumes "keeps R en0 en" "unchanged js en"
    "\<And>j js acc en. keeps R en0 en \<Longrightarrow> unchanged (j # js) en \<Longrightarrow>
       wp F (body j acc) (\<lambda>_ en. keeps R en0 en \<and> unchanged js en) (intact R en0) en"
  shows "wp F (q_for js acc body) (\<lambda>_ en. keeps R en0 en) (intact R en0) en"
  by (rule wp_for [where I = "\<lambda>js acc en. keeps R en0 en \<and> unchanged js en"]) (use assms in auto)

lemma expire_stale_keeps:
  assumes "keeps (evolves settled) en0 en" "is_i64 now"
  shows "wp F (expire_stale_at now) (\<lambda>_ en. keeps (evolves settled) en0 en) (intact (evolves settled) en0) en"
  unfolding expire_stale_at_def
  apply (rule then_all_jobs [OF assms(1)])
  apply (rule q_for_unchanged [OF assms(1) unchanged_jobs_of [OF keeps_ok [OF assms(1)]]])
  subgoal for j js acc en
    apply (intro wp_if)
      apply (erule return_unchanged, assumption, simp)
     apply (rule then_expire_at [where old = j], assumption, simp)
         apply (rule unchanged_hd(1), assumption, assumption)
        apply (rule draftI, rule unchanged_hd(2), assumption, assumption, simp)
       apply (rule assms(2))
      apply (rule valid_str_lit)
     apply (erule return_unchanged, assumption, blast)
    apply (erule return_unchanged, assumption, simp)
    done
  done

lemma valid_reason: "valid_str (lit a @ state_as_str s @ lit b)"
  by (cases s) (simp_all add: valid_str_lit)

lemma timeout_alerts_keeps:
  assumes "keeps (evolves settled) en0 en" "is_i64 now"
  shows "wp F (timeout_alerts now) (\<lambda>_ en. keeps (evolves settled) en0 en) (intact (evolves settled) en0) en"
  unfolding timeout_alerts_def
  apply (rule then_all_jobs [OF assms(1)])
  apply (rule q_for_unchanged [OF assms(1) unchanged_jobs_of [OF keeps_ok [OF assms(1)]]])
  subgoal for j js acc en
    apply (rule wp_if)
     apply (erule return_unchanged, assumption, simp)
    apply (cases "deadline j")
     apply (simp only: option.case, erule return_unchanged, assumption, simp)
    apply (simp only: option.case)
    apply (rule wp_if)
     apply (erule return_unchanged, assumption, simp)
    apply (rule then_record_alert, assumption)
        apply (rule unchanged_hd(3), assumption, assumption)
       apply (rule unchanged_hd(4), assumption, assumption)
      apply (rule valid_reason)
     apply (rule assms(2))
    apply (erule return_unchanged, assumption, simp)
    done
  done

section \<open>Requeue\<close>

definition requeued :: "policy \<Rightarrow> int \<Rightarrow> requeue_options \<Rightarrow> job \<Rightarrow> job" where
  "requeued p now opts j =
     (let j = (if attempts_reset opts then j\<lparr>attempts := 0, lease_expiries := 0\<rparr> else j);
          j = (case ro_max_attempts opts of Some n \<Rightarrow> j\<lparr>j_max_attempts := max n 1\<rparr> | None \<Rightarrow> j);
          j = (if refresh_fresh opts
               then j\<lparr>fresh_until := map_option (\<lambda>ms. sat_i64 (now + ms)) (default_fresh_ms p)\<rparr> else j)
      in j\<lparr>j_state := Ready, not_before := now, lease_worker := None, lease_until := None,
             last_error := Some (lit ''requeued''), updated_at := now\<rparr>)"

lemma requeue_keeps:
  assumes "keeps (evolves {Done, Expired}) en0 en" "is_i64 now" "jid \<le> u64_max"
    "\<forall>n \<in> set_option (ro_max_attempts opts). n \<le> u32_max"
  shows "wp F (requeue_with p now jid opts)
    (\<lambda>j' en'. keeps (evolves {Done, Expired}) en0 en' \<and>
       (\<exists>j. jobs en jid = Some j \<and> j_state j = Dead \<and> j' = requeued p now opts j) \<and>
       jobs en' = (jobs en)(jid \<mapsto> j'))
    (intact (evolves {Done, Expired}) en0) en"
proof -
  have ok: "job_ok (requeued p now opts j)" if "job_ok j" "j_state j = Dead" for j
    using that assms(2,4)
    by (auto simp: requeued_def Let_def job_ok_def job_wf_def split: option.split)
  have same: "same_job j (requeued p now opts j)" "j_state (requeued p now opts j) = Ready" for j
    by (auto simp: requeued_def Let_def same_job_def split: option.split)
  then have jid: "j_id (requeued p now opts j) = j_id j" for j by (simp add: same_job_def)
  show ?thesis
    unfolding requeue_with_def Let_def requeued_def [unfolded Let_def, symmetric]
    apply (rule then_job [OF assms(1,3)])
    subgoal for j
      apply (rule wp_if)
       apply (rule wp_intact_fail [OF assms(1)], simp)
      apply (rule evolving.then_save [OF assms(1)])
         apply (simp add: jid)
        apply (simp add: same)
       apply (rule ok, assumption, simp)
      apply (rule then_del, assumption, simp)
      apply (rule then_put_index, assumption)
      apply (auto simp: wp_simps jid)
      done
    done
qed

section \<open>Retention\<close>

lemma retention_terminal: "retention p s = Some keep \<Longrightarrow> is_terminal s"
  by (cases s) (simp_all add: retention_def)

lemma reap_job_keeps:
  assumes "keeps retires en0 en" "jobs en (j_id j) = Some j"
  shows "wp F (reap_job p now j n)
    (\<lambda>_ en'. keeps retires en0 en' \<and> (\<forall>i. i \<noteq> j_id j \<longrightarrow> jobs en' i = jobs en i)) (intact retires en0) en"
proof (cases "retention p (j_state j)")
  case None
  with assms(1) show ?thesis by (simp add: reap_job_def wp_simps)
next
  case (Some keep)
  let ?rest = "\<lambda>_. q_then (q_del (index_key j STATE_READY)) (\<lambda>_. q_then (q_del (index_key j STATE_LEASED)) (\<lambda>_.
     q_then (q_del (job_key (j_id j))) (\<lambda>_. q_return (n + 1))))"
  let ?Q = "\<lambda>_ en'. keeps retires en0 en' \<and> (\<forall>i. i \<noteq> j_id j \<longrightarrow> jobs en' i = jobs en i)"
  have rest: "wp F (?rest ()) ?Q (intact retires en0) en'" if k: "keeps retires en0 en'" "jobs en' = jobs en" for en'
  proof (rule then_del [OF k(1)], simp, rule then_del, assumption, simp)
    fix en2 en3
    assume k3: "keeps retires en0 en3" and j3: "jobs en3 = jobs en2" and j2: "jobs en2 = jobs en'"
    have j: "jobs en3 (j_id j) = Some j" using assms(2) j3 j2 k(2) by simp
    have r: "keeps retires en0 (bm_remove (job_key (j_id j)) en3)"
      by (rule retiring.remove_job [OF k3 j]) (use retention_terminal [OF Some] in \<open>simp add: retires_def\<close>)
    have "jobs (bm_remove (job_key (j_id j)) en3) = (jobs en)(j_id j := None)"
      using jobs_le [OF j] j3 j2 k(2) by simp
    then show "wp F (q_then (q_del (job_key (j_id j))) (\<lambda>_. q_return (n + 1))) ?Q (intact retires en0) en3"
      using r k3 by (intro wp_then) (simp add: wp_simps)
  qed
  have loop: "wp F (q_for es () (\<lambda>(key, _) _. q_del key))
      (\<lambda>_ en'. keeps retires en0 en' \<and> jobs en' = jobs en) (intact retires en0) en"
    if "\<forall>e \<in> set es. plain (fst e)" for es
    using that assms(1)
    by (intro wp_for [where I = "\<lambda>es _ en'. (\<forall>e \<in> set es. plain (fst e)) \<and> keeps retires en0 en' \<and> jobs en' = jobs en"])
       (auto simp: wp_simps keeps_plain jobs_plain case_prod_beta)
  have claim: "wp F (q_then (case j_dedupe j of None \<Rightarrow> q_return ()
        | Some k \<Rightarrow> let key = dedupe_key (j_queue j) k in q_then (q_get key) (\<lambda>v.
            if Option.bind v id_from_bytes = Some (j_id j) then q_del key else q_return ())) ?rest)
      ?Q (intact retires en0) en'" if k: "keeps retires en0 en'" "jobs en' = jobs en" for en'
    using rest [OF k] rest [OF keeps_plain(2) [OF k(1)]] k
    by (intro wp_then) (auto simp: wp_simps keeps_plain jobs_plain Let_def intro!: wp_then split: option.split)
  have "wp F (q_then (q_for es () (\<lambda>(key, _) _. q_del key)) (\<lambda>_. q_then (case j_dedupe j of None \<Rightarrow> q_return ()
        | Some k \<Rightarrow> let key = dedupe_key (j_queue j) k in q_then (q_get key) (\<lambda>v.
            if Option.bind v id_from_bytes = Some (j_id j) then q_del key else q_return ())) ?rest))
      ?Q (intact retires en0) en" if "\<forall>e \<in> set es. plain (fst e)" for es
    by (intro wp_then, rule wp_conseq [OF loop [OF that]]) (elim conjE, rule claim, assumption+)
  then show ?thesis
    using Some assms(1) scan_plain(2) [OF assms(1), of "j_id j"]
    by (auto simp: reap_job_def wp_simps intro!: then_scan)
qed

lemma reap_keeps:
  assumes "keeps retires en0 en"
  shows "wp F (reap p now) (\<lambda>_ en. keeps retires en0 en) (intact retires en0) en"
  unfolding reap_def
  apply (rule then_all_jobs [OF assms])
  apply (rule q_for_unchanged [OF assms unchanged_jobs_of [OF keeps_ok [OF assms]]])
  subgoal for j js acc en
    apply (rule wp_conseq [OF reap_job_keeps [OF _ unchanged_hd(1)]], assumption, assumption, assumption)
     apply (blast intro: unchanged_tl)
    apply assumption
    done
  done

section \<open>Enqueue\<close>

definition request_ok :: "enqueue_request \<Rightarrow> bool" where
  "request_ok r \<longleftrightarrow> er_priority r \<le> u32_max \<and> (\<forall>i \<in> set_option (er_not_before r). is_i64 i) \<and>
     (\<forall>n \<in> set_option (er_max_attempts r). n \<le> u32_max) \<and> (\<forall>s \<in> set_option (er_dedupe_key r). valid_str s)"

text \<open>What \<open>validate\_enqueue\<close> lets through.\<close>

definition acceptable :: "policy \<Rightarrow> enqueue_request \<Rightarrow> bool" where
  "acceptable p r \<longleftrightarrow> valid_name (er_queue r) 64 \<and> \<not> length (er_payload r) > max_payload_bytes p \<and>
     (case er_max_attempts r of Some n \<Rightarrow> n | None \<Rightarrow> max_attempts p) \<noteq> 0 \<and>
     \<not> (case er_fresh_for_ms r of Some ms \<Rightarrow> ms \<le> 0 | None \<Rightarrow> False) \<and>
     \<not> (case er_deadline_in_ms r of Some ms \<Rightarrow> ms \<le> 0 | None \<Rightarrow> False) \<and>
     \<not> (case er_dedupe_key r of Some k \<Rightarrow> k = [] \<or> length (utf8 k) > 256 \<or> list_ex is_control k
        | None \<Rightarrow> False)"

lemma then_fail: "keeps R en0 en \<Longrightarrow> (\<And>w. e \<noteq> Corrupt w) \<Longrightarrow> wp F (q_then (q_fail e) f) Q (intact R en0) en"
  by (intro wp_then) (simp add: wp_intact_fail)

lemma then_return: "wp F (f a) Q E en \<Longrightarrow> wp F (q_then (q_return a) f) Q E en"
  by (intro wp_then) (simp add: wp_return)

lemma then_validate:
  assumes "keeps R en0 en" "acceptable p r \<Longrightarrow> wp F (f ()) Q (intact R en0) en"
  shows "wp F (q_then (validate_enqueue p r) f) Q (intact R en0) en"
  unfolding validate_enqueue_def
  apply (intro then_if; (rule then_fail [OF assms(1)], simp; fail)?)
  apply (intro then_return assms(2))
  apply (simp only: acceptable_def simp_thms)
  done

lemma request_job_ok:
  assumes "policy_ok p" "request_ok r" "is_i64 now" "acceptable p r" "jid \<le> u64_max"
  shows "job_ok (request_job p now r jid)"
proof -
  have q: "str_ok (er_queue r)" using assms(4) valid_name_ok [of "er_queue r" 64] by (simp add: acceptable_def)
  have d: "\<forall>s \<in> set_option (er_dedupe_key r). str_ok s"
    using assms(2,4) by (auto simp: acceptable_def request_ok_def str_ok_def)
  show ?thesis
    using assms q d
    by (auto simp: job_ok_def job_wf_def request_job_def acceptable_def request_ok_def policy_ok_def bytes_ok_def
        is_i64_def [of "0"] split: option.split)
qed

text \<open>Admission: the counter moves past the new id, then the record is written under it.\<close>

lemma admit_save:
  assumes "keeps admits en0 en" "job_ok j" "j_state j = Ready" "jobs en (j_id j) = None" "id_below en (j_id j)"
    "next_id en0 \<le> j_id j"
  shows "keeps admits en0 (bm_insert (job_key (j_id j)) (encode_job j) en)"
proof -
  have ok: "store_ok en" using assms(1) by (simp add: keeps_def)
  have seq: "job_key (j_id j) \<noteq> SEQ_ID" using kind_not_seq(1) by simp
  have "admits (jobs en0 i) (((jobs en)(j_id j \<mapsto> j)) i)" for i
  proof -
    have "admits (jobs en0 i) (jobs en i)" using assms(1) by (simp add: keeps_def)
    then show ?thesis using assms(3,4) by (auto simp: admits_def)
  qed
  moreover have "((jobs en)(j_id j \<mapsto> j)) i = None" if "i < next_id en0" "jobs en0 i = None" for i
    using assms(1,6) that by (auto simp: keeps_def)
  ultimately show ?thesis
    using assms ok seq by (simp add: keeps_def job_okD)
qed

lemma fresh_id: "store_ok en \<Longrightarrow> next_id en < u64_max \<Longrightarrow> jobs en (next_id en) = None"
  using jobsD(3) [of en "next_id en"] by (cases "jobs en (next_id en)") (auto simp: id_below_def)

lemma keeps_count:
  assumes "keeps admits en0 en" "next_id en < u64_max"
  shows "keeps admits en0 (bm_insert SEQ_ID (be 8 (sat_add64 (next_id en) 1)) en)"
    "jobs (bm_insert SEQ_ID (be 8 (sat_add64 (next_id en) 1)) en) = jobs en"
    "id_below (bm_insert SEQ_ID (be 8 (sat_add64 (next_id en) 1)) en) (next_id en)"
proof -
  have n: "next_id (bm_insert SEQ_ID (be 8 (sat_add64 (next_id en) 1)) en) = sat_add64 (next_id en) 1"
    by (intro counter_set) (simp add: sat_add64_def)
  show j: "jobs (bm_insert SEQ_ID (be 8 (sat_add64 (next_id en) 1)) en) = jobs en" by simp
  show "id_below (bm_insert SEQ_ID (be 8 (sat_add64 (next_id en) 1)) en) (next_id en)"
    using assms(2) by (simp add: id_below_def n sat_add64_def)
  show "keeps admits en0 (bm_insert SEQ_ID (be 8 (sat_add64 (next_id en) 1)) en)"
    using assms store_ok_count [of en] unfolding keeps_def n j
    by (intro conjI) (blast, simp add: sat_add64_def, blast, blast)
qed

lemma then_find_duplicate:
  assumes "keeps R en0 en" "wp F (f None) Q (intact R en0) en"
    "\<And>k v jid j. er_dedupe_key r = Some k \<Longrightarrow> bm_get en (dedupe_key (er_queue r) k) = Some v \<Longrightarrow>
       id_from_bytes v = Some jid \<Longrightarrow> jobs en jid = Some j \<Longrightarrow> wp F (f (Some jid)) Q (intact R en0) en"
  shows "wp F (q_then (find_duplicate r) f) Q (intact R en0) en"
proof (cases "er_dedupe_key r")
  case None
  then show ?thesis by (simp add: find_duplicate_def then_return assms(2))
next
  case (Some k)
  let ?v = "bm_get en (dedupe_key (er_queue r) k)"
  show ?thesis
  proof (cases "Option.bind ?v id_from_bytes")
    case None
    then show ?thesis
      using assms(1,2) Some unfolding find_duplicate_def
      by (intro wp_then) (auto simp: wp_simps intro!: wp_then)
  next
    case jid: (Some jid)
    then obtain v where v: "?v = Some v" "id_from_bytes v = Some jid" by (cases ?v) auto
    then have "jid \<le> u64_max" by (simp add: id_from_bytes_le)
    then show ?thesis
      using assms(1,2) assms(3) [OF Some v] Some jid keeps_ok [OF assms(1)] unfolding find_duplicate_def
      by (intro wp_then) (auto simp: wp_simps intro!: wp_then)
  qed
qed

lemma enqueue_keeps:
  assumes k: "keeps admits en0 en" and ok: "policy_ok p" "request_ok r" "is_i64 now"
    and room: "next_id en < u64_max"
  shows "wp F (enqueue p now r)
    (\<lambda>out en'. keeps admits en0 en' \<and>
       (if dedupe_hit out then en' = en \<and> jobs en (eo_id out) \<noteq> None \<and>
          (\<exists>key. er_dedupe_key r = Some key \<and>
             Option.bind (bm_get en (dedupe_key (er_queue r) key)) id_from_bytes = Some (eo_id out))
        else eo_id out = next_id en \<and> jobs en (eo_id out) = None \<and>
          next_id en' = next_id en + 1 \<and>
          (\<forall>key. er_dedupe_key r = Some key \<longrightarrow>
             Option.bind (bm_get en' (dedupe_key (er_queue r) key)) id_from_bytes = Some (eo_id out)) \<and>
          jobs en' = (jobs en)(eo_id out \<mapsto> request_job p now r (eo_id out))))
    (intact admits en0) en" (is "wp F _ ?Q _ _")
proof -
  let ?id = "next_id en" and ?en1 = "bm_insert SEQ_ID (be 8 (sat_add64 (next_id en) 1)) en"
  let ?j = "request_job p now r (next_id en)"
  have j: "j_id ?j = ?id" "j_state ?j = Ready" "j_queue ?j = er_queue r" "j_dedupe ?j = er_dedupe_key r"
    by (simp_all add: request_job_def)
  note c = keeps_count [OF k room]
  have n: "next_id ?en1 = ?id + 1" using room by (subst counter_set) (simp_all add: sat_add64_def)
  have fresh: "jobs en ?id = None" using fresh_id [OF keeps_ok [OF k] room] .
  have stored: "wp F (q_then (q_save ?j) (\<lambda>_. q_then (put_index ?j) (\<lambda>_. q_return \<lparr>eo_id = ?id, dedupe_hit = False\<rparr>)))
      ?Q (intact admits en0) en2"
    if e2: "keeps admits en0 en2" "jobs en2 = jobs en" "next_id en2 = ?id + 1" "acceptable p r"
      "\<forall>key. er_dedupe_key r = Some key \<longrightarrow>
         Option.bind (bm_get en2 (dedupe_key (er_queue r) key)) id_from_bytes = Some ?id" for en2
  proof -
    have jok: "job_ok ?j" using request_job_ok [OF ok e2(4)] room by simp
    have below: "id_below en2 ?id" using room e2(3) by (simp add: id_below_def)
    let ?en3 = "bm_insert (job_key ?id) (encode_job ?j) en2"
    have k3: "keeps admits en0 ?en3"
      using admit_save [OF e2(1) jok j(2)] fresh e2(2) below k by (simp add: j keeps_def)
    have j3: "jobs ?en3 = (jobs en)(?id \<mapsto> ?j)"
      using jobs_save [OF job_okD(1) [OF jok], of en2] e2(2) by (simp add: j)
    have n3: "next_id ?en3 = ?id + 1" using e2(3) kind_not_seq(1) [of "job_key ?id"] by simp
    have seq: "index_key ?j st \<noteq> SEQ_ID" for st using kind_not_seq(1) [of "index_key ?j st"] by simp
    have dk: "dedupe_key q d \<noteq> job_key ?id" "dedupe_key q d \<noteq> index_key ?j st" for q d st
      by (auto dest!: arg_cong [of _ _ key_kind])
    show ?thesis
      using e2(1,5) k3 j3 n3 fresh seq dk
      by (intro wp_then)
         (auto simp: q_save_def wp_simps j put_index_def keeps_plain jobs_plain intro!: wp_then)
  qed
  have claim: "wp F (q_then (case j_dedupe ?j of Some k \<Rightarrow> q_put (dedupe_key (j_queue ?j) k) (be 8 ?id) | None \<Rightarrow> q_return ())
      (\<lambda>_. q_then (q_save ?j) (\<lambda>_. q_then (put_index ?j) (\<lambda>_. q_return \<lparr>eo_id = ?id, dedupe_hit = False\<rparr>))))
      ?Q (intact admits en0) ?en1" if a: "acceptable p r"
  proof (cases "j_dedupe ?j")
    case None
    then show ?thesis using stored [OF c(1,2) n a] by (simp add: then_return j)
  next
    case (Some d)
    let ?k = "dedupe_key (j_queue ?j) d"
    have "?k \<noteq> SEQ_ID" using kind_not_seq(1) [of ?k] by simp
    then have "wp F (q_then (q_save ?j) (\<lambda>_. q_then (put_index ?j) (\<lambda>_. q_return \<lparr>eo_id = ?id, dedupe_hit = False\<rparr>)))
        ?Q (intact admits en0) (bm_insert ?k (be 8 ?id) ?en1)"
      using keeps_plain(1) [OF c(1), of ?k] n a room Some
      by (intro stored) (simp_all add: j id_from_bytes_def u64_from_bytes_def)
    then show ?thesis
      using c(1) keeps_plain(1) [OF c(1), of ?k] unfolding Some by (intro wp_then) (simp add: wp_simps)
  qed
  show ?thesis
    unfolding enqueue_def Let_def
    apply (rule then_validate [OF k])
    apply (rule wp_if)
     apply (rule wp_intact_fail [OF k], simp)
    apply (rule then_find_duplicate [OF k])
     apply (simp only: option.case)
     apply (rule count_index_wp [OF k])
     apply (rule wp_if)
      apply (rule wp_intact_fail [OF k], simp)
     apply (rule wp_then)
     apply (unfold next_counter_def Let_def)
     apply (rule wp_then)
     apply (simp only: wp_get counter_def [symmetric])
     apply (intro conjI impI allI)
      apply (rule wp_then)
      apply (simp only: wp_put wp_return)
      apply (intro conjI impI allI)
        apply (erule claim)
    using k c(1) by (auto simp: wp_simps)
qed

section \<open>Alert batches\<close>

definition alert_entry :: "bytes \<times> alert \<Rightarrow> bool" where
  "alert_entry = (\<lambda>(key, a). key = alert_key (al_job a) (al_kind a) \<and> alert_wf a)"

lemma alert_scan:
  assumes "store_ok en" "e \<in> set (bm_scan ALERT en)"
  obtains a where "e = (alert_key (al_job a) (al_kind a), encode_alert a)" "alert_wf a"
proof -
  have "bm_get en (fst e) = Some (snd e)" "prefix ALERT (fst e)"
    using assms store_ok_wf by (auto simp: set_bm_scan bm_get_in)
  then show ?thesis using store_alert [OF assms(1), of "fst e" "snd e"] that by (metis prefix_key_kind(2) prod.collapse)
qed

lemma then_put_alert:
  assumes "keeps R en0 en" "alert_entry (key, a)"
    "\<And>en'. keeps R en0 en' \<Longrightarrow> wp F (f ()) Q (intact R en0) en'"
  shows "wp F (q_then (q_put key (encode_alert (a\<lparr>al_state := st\<rparr>))) f) Q (intact R en0) en"
proof -
  have "alert_wf (a\<lparr>al_state := st\<rparr>)" using assms(2) by (simp add: alert_entry_def alert_wf_def)
  then have "keeps R en0 (bm_insert key (encode_alert (a\<lparr>al_state := st\<rparr>)) en)"
    using keeps_alert(1) [OF assms(1), of "a\<lparr>al_state := st\<rparr>"] assms(2) by (simp add: alert_entry_def)
  then show ?thesis using assms(1,3) by (intro wp_then) (simp add: wp_simps)
qed

lemma ready_alerts_keeps:
  assumes "keeps R en0 en"
  shows "wp F (ready_alerts p now) (\<lambda>r en. keeps R en0 en \<and> (\<forall>x \<in> set (fst r). alert_entry x)) (intact R en0) en"
proof -
  let ?es = "bm_scan ALERT en"
  have es: "\<exists>a. e = (alert_key (al_job a) (al_kind a), encode_alert a) \<and> alert_wf a" if "e \<in> set ?es" for e
    using alert_scan [OF keeps_ok [OF assms] that] by metis
  show ?thesis
    unfolding ready_alerts_def
  proof (rule then_scan [OF assms],
      rule wp_for [where I = "\<lambda>xs acc en. set xs \<subseteq> set ?es \<and> keeps R en0 en \<and> (\<forall>x \<in> set (fst acc). alert_entry x)"],
      goal_cases)
    case (2 e xs acc en')
    then obtain a where e: "e = (alert_key (al_job a) (al_kind a), encode_alert a)" "alert_wf a"
      using es [of e] by auto
    then have entry: "alert_entry (alert_key (al_job a) (al_kind a), a)" by (simp add: alert_entry_def)
    obtain ready dropped where acc: "acc = (ready, dropped)" by (cases acc)
    show ?case
      unfolding e acc prod.case
      apply (rule wp_then, simp only: wp_result decode_encode_alert [OF e(2)] sum.case)
      apply (intro wp_if)
        apply (use 2 acc in \<open>simp add: wp_return\<close>)
       apply (rule then_put_alert [OF _ entry])
        apply (use 2 acc in \<open>simp_all add: wp_return entry\<close>)
      done
  qed (use assms in auto)
qed

lemma next_alerts_keeps:
  assumes "keeps R en0 en"
  shows "wp F (next_alerts p now)
    (\<lambda>r en. keeps R en0 en \<and> (\<forall>b. r = Some b \<longrightarrow> ab_items b \<noteq> [] \<and> length (ab_items b) \<le> max (batch_max (alert_policy p)) 1 \<and>
       (\<forall>a \<in> set (ab_items b). al_state a = AlertSent))) (intact R en0) en"
  unfolding next_alerts_def
  apply (rule then_get [OF assms])
  apply (rule wp_if)
   apply (simp add: wp_simps assms)
  apply (rule wp_then, rule wp_conseq [OF ready_alerts_keeps [OF assms]])
   apply (clarsimp simp only: prod.case split: prod.split)
  subgoal for _ _ en' ready dropped
    apply (rule wp_if)
     apply (simp add: wp_simps)
    apply (unfold Let_def)
    apply (rule wp_then)
    apply (rule wp_for [where I = "\<lambda>xs items en. keeps R en0 en \<and> (\<forall>x \<in> set xs. alert_entry x) \<and>
        length items + length xs = min (max (batch_max (alert_policy p)) 1) (length ready) \<and> (\<forall>a \<in> set items. al_state a = AlertSent)"])
      apply (auto simp: min.commute dest!: in_set_takeD) [1]
     apply (clarsimp simp only: prod.case split: prod.split)
    subgoal
      apply (rule then_put_alert, blast, simp)
      apply (auto simp: wp_simps)
      done
    apply (elim conjE)
    apply (rule then_put, assumption, simp)
    apply (auto simp: wp_simps min_def split: if_splits)
    done
  apply assumption
  done

section \<open>Repair\<close>

lemma repair_keeps:
  assumes "keeps R en0 en"
  shows "wp F repair (\<lambda>_ en. keeps R en0 en) (intact R en0) en"
proof -
  have scan: "\<forall>e \<in> set (bm_scan INDEX en'). plain (fst e)" "\<forall>e \<in> set (bm_scan DEDUPE en'). plain (fst e)"
    if "keeps R en0 en'" for en'
    using store_ok_wf [OF keeps_ok [OF that]] plain_scans by (auto simp: set_bm_scan)
  have wanted: "\<forall>e \<in> set (index_wanted js). plain (fst e)" "\<forall>e \<in> set (dedupe_wanted js). plain (fst e)" for js
    by (auto simp: index_wanted_def dedupe_wanted_def split: job_state.splits option.splits)
  show ?thesis
    unfolding repair_def Let_def
    apply (rule then_all_jobs [OF assms])
    apply (rule then_scan [OF assms])
    apply (rule then_keeps [OF q_for_keeps [OF assms scan(1) [OF assms]]])
      apply (auto simp: wp_simps case_prod_beta keeps_plain intro!: wp_then) [2]
    apply (rule then_keeps [OF q_for_keeps [OF _ wanted(1)]], assumption)
      apply (auto simp: wp_simps case_prod_beta keeps_plain intro!: wp_then) [2]
    apply (rule then_scan, assumption)
    apply (rule then_keeps [OF q_for_keeps [OF _ scan(2)]], assumption, assumption)
      apply (auto simp: wp_simps case_prod_beta keeps_plain Let_def intro!: wp_then) [2]
    apply (rule then_keeps [OF q_for_keeps [OF _ wanted(2)]], assumption)
      apply (auto simp: wp_simps case_prod_beta keeps_plain intro!: wp_then) [2]
    apply (simp add: wp_simps)
    done
qed

end
