(* ===== verification/QueueRun.thy ===== *)
theory QueueRun
  imports QueueLife
begin

text \<open>
  The queue as a transition system: any operation, at any clock reading, over any script of store
  faults.  What one operation may do to each job, and what holds of every reachable store.
\<close>

section \<open>Sweeps\<close>

definition swept :: "store \<Rightarrow> store \<Rightarrow> bool" where
  "swept en en2 \<longleftrightarrow> (\<exists>en1. keeps (evolves settled) en en1 \<and> keeps retires en1 en2)"

definition sweeps :: "job option \<Rightarrow> job option \<Rightarrow> bool" where
  "sweeps a c \<longleftrightarrow> (\<exists>b. evolves settled a b \<and> retires b c)"

lemma swept_evolves: "keeps (evolves settled) en en1 \<Longrightarrow> swept en en1"
  unfolding swept_def by (blast intro: retiring.start keeps_ok)

lemma swept_keeps: "swept en en2 \<Longrightarrow> keeps sweeps en en2"
  unfolding swept_def keeps_def sweeps_def by (blast intro: le_trans less_le_trans)

definition stopped :: "store \<Rightarrow> queue_error \<Rightarrow> store \<Rightarrow> bool" where
  "stopped en e en2 \<longleftrightarrow> swept en en2 \<and> (\<forall>w. e \<noteq> Corrupt w)"

lemma phase:
  assumes "wp F m (\<lambda>_ en. keeps (evolves settled) en0 en) (intact (evolves settled) en0) en"
    "\<And>a en. keeps (evolves settled) en0 en \<Longrightarrow> wp F (f a) Q (stopped en0) en"
  shows "wp F (q_then m f) Q (stopped en0) en"
  by (intro wp_then, rule wp_conseq [OF assms(1)])
     (auto simp: assms(2) intact_def stopped_def swept_evolves)

lemma queues_keeps: "keeps R en0 en \<Longrightarrow> wp F queues (\<lambda>_ en. keeps R en0 en) (intact R en0) en"
  unfolding queues_def by (rule then_all_jobs) (simp_all add: wp_simps)

lemma recover_all_keeps:
  assumes "keeps (evolves settled) en0 en" "is_i64 now"
  shows "wp F (q_for names n (\<lambda>queue n. q_then (recover_leases p queue now) (\<lambda>m. q_return (n + m))))
    (\<lambda>_ en. keeps (evolves settled) en0 en) (intact (evolves settled) en0) en"
  by (rule wp_for [where I = "\<lambda>_ _ en. keeps (evolves settled) en0 en"])
     (auto intro!: then_keeps [OF working.recover_leases_keeps] simp: wp_simps assms)

lemma sweep_keeps:
  assumes "store_ok en" "is_i64 now" "is_i64 now1"
  shows "wp F (sweep p now now1 now2) (\<lambda>_ en2. swept en en2) (stopped en) en"
  unfolding sweep_def
  apply (rule phase [OF queues_keeps [OF evolving.start [OF assms(1)]]])
  apply (rule phase [OF recover_all_keeps [OF _ assms(2)]], assumption)
  apply (rule phase [OF expire_stale_keeps [OF _ assms(3)]], assumption)
  apply (rule phase [OF timeout_alerts_keeps [OF _ assms(2)]], assumption)
  apply (rule wp_then)
  subgoal for _ _ _ _ _ _ _ en1
    by (rule wp_conseq [OF reap_keeps [OF retiring.start [OF keeps_ok]]])
       (auto simp: wp_simps swept_def stopped_def intact_def)
  done

section \<open>Operations\<close>

datatype op = OpEnqueue enqueue_request | OpProgress nat bytes | OpTake str str "int option"
  | OpHeartbeat nat str "int option" | OpDone nat bytes | OpDoneBy nat str bytes | OpFail nat str
  | OpFailBy nat str str | OpHandover str str | OpExpireStale | OpSweep int int | OpNextAlerts
  | OpRequeue nat requeue_options | OpReap | OpRepair

definition forget :: "'a qm \<Rightarrow> unit qm" where
  "forget m = q_then m (\<lambda>_. q_return ())"

fun run_op :: "policy \<Rightarrow> int \<Rightarrow> op \<Rightarrow> unit qm" where
  "run_op p now (OpEnqueue r) = forget (enqueue p now r)"
| "run_op p now (OpProgress i chunk) = forget (progress p now i chunk)"
| "run_op p now (OpTake queue worker lease) = forget (take_job p now queue worker lease)"
| "run_op p now (OpHeartbeat i worker ext) = forget (heartbeat p now i worker ext)"
| "run_op p now (OpDone i res) = forget (done_job p now i res)"
| "run_op p now (OpDoneBy i worker res) = forget (done_by p now i worker res)"
| "run_op p now (OpFail i reason) = forget (fail_job p now i reason)"
| "run_op p now (OpFailBy i worker reason) = forget (fail_by p now i worker reason)"
| "run_op p now (OpHandover queue pre) = forget (handover now queue pre)"
| "run_op p now OpExpireStale = forget (expire_stale_at now)"
| "run_op p now (OpSweep now1 now2) = forget (sweep p now now1 now2)"
| "run_op p now OpNextAlerts = forget (next_alerts p now)"
| "run_op p now (OpRequeue i opts) = forget (requeue_with p now i opts)"
| "run_op p now OpReap = forget (reap p now)"
| "run_op p now OpRepair = forget repair"

text \<open>The ranges of the arguments; ids run out after \<open>2^64\<close> jobs.\<close>

fun op_ok :: "store \<Rightarrow> op \<Rightarrow> bool" where
  "op_ok en (OpEnqueue r) = (request_ok r \<and> next_id en < u64_max)"
| "op_ok en (OpProgress i chunk) = (i \<le> u64_max)"
| "op_ok en (OpHeartbeat i worker ext) = (i \<le> u64_max)"
| "op_ok en (OpDone i res) = (i \<le> u64_max)"
| "op_ok en (OpDoneBy i worker res) = (i \<le> u64_max)"
| "op_ok en (OpFail i reason) = (i \<le> u64_max \<and> valid_str reason)"
| "op_ok en (OpFailBy i worker reason) = (i \<le> u64_max \<and> valid_str reason)"
| "op_ok en (OpSweep now1 now2) = is_i64 now1"
| "op_ok en (OpRequeue i opts) = (i \<le> u64_max \<and> (\<forall>n \<in> set_option (ro_max_attempts opts). n \<le> u32_max))"
| "op_ok en _ = True"

text \<open>What an operation may do to a job.\<close>

fun effect_of :: "op \<Rightarrow> job option \<Rightarrow> job option \<Rightarrow> bool" where
  "effect_of (OpEnqueue r) = admits"
| "effect_of (OpRequeue i opts) = evolves {Done, Expired}"
| "effect_of OpReap = retires"
| "effect_of (OpSweep now1 now2) = sweeps"
| "effect_of op = evolves settled"

lemma forget_keeps:
  assumes "wp F m (\<lambda>_ en. keeps R en0 en) (intact R en0) en"
  shows "wp F (forget m) (\<lambda>_ en. keeps R en0 en) (intact R en0) en"
  unfolding forget_def by (rule then_keeps [OF assms]) (simp add: wp_simps)

lemma run_op_keeps:
  assumes "store_ok en" "policy_ok p" "is_i64 now" "op_ok en op"
  shows "wp F (run_op p now op) (\<lambda>_ en'. keeps (effect_of op) en en') (intact (effect_of op) en) en"
proof -
  note ev = evolving.start [OF assms(1), of settled]
  show ?thesis
  proof (cases op)
    case (OpEnqueue r)
    with assms show ?thesis
      by (auto intro!: forget_keeps wp_conseq [OF enqueue_keeps [OF admitting.start]])
  next
    case (OpTake queue worker lease)
    with assms show ?thesis by (auto intro!: forget_keeps wp_conseq [OF working.take_job_keeps [OF ev]])
  next
    case (OpHeartbeat i worker ext)
    with assms show ?thesis by (auto intro!: forget_keeps wp_conseq [OF heartbeat_keeps [OF ev]])
  next
    case (OpDone i res)
    with assms show ?thesis
      by (auto simp: done_job_def intro!: forget_keeps wp_conseq [OF settle_keeps [OF ev]])
  next
    case (OpDoneBy i worker res)
    with assms show ?thesis
      by (auto simp: done_by_def intro!: forget_keeps wp_conseq [OF settle_keeps [OF ev]])
  next
    case (OpFail i reason)
    with assms show ?thesis
      by (auto simp: fail_job_def intro!: forget_keeps wp_conseq [OF fail_inner_keeps [OF ev]])
  next
    case (OpFailBy i worker reason)
    with assms show ?thesis
      by (auto simp: fail_by_def intro!: forget_keeps wp_conseq [OF fail_inner_keeps [OF ev]])
  next
    case (OpSweep now1 now2)
    then have "wp F (sweep p now now1 now2) (\<lambda>_ en2. keeps sweeps en en2) (intact sweeps en) en"
      using assms by (auto intro!: wp_conseq [OF sweep_keeps] simp: swept_keeps stopped_def intact_def)
    with OpSweep show ?thesis by (simp add: forget_keeps)
  next
    case OpNextAlerts
    then show ?thesis by (auto intro!: forget_keeps wp_conseq [OF next_alerts_keeps [OF ev]])
  next
    case (OpRequeue i opts)
    with assms show ?thesis
      by (auto intro!: forget_keeps wp_conseq [OF requeue_keeps [OF evolving.start]])
  next
    case OpReap
    with assms show ?thesis by (simp add: forget_keeps reap_keeps retiring.start)
  qed (use assms ev in \<open>auto intro!: forget_keeps progress_keeps handover_keeps expire_stale_keeps repair_keeps\<close>)
qed

end
