(* ===== verification/QueueProperties.thy ===== *)
theory QueueProperties
  imports QueueRun
begin

text \<open>
  The properties of the queue crate.  A run is any sequence of operations, each with any clock reading
  and any script of store faults; a crash is a script that refuses everything from some call on.
\<close>

inductive queue_run :: "policy \<Rightarrow> op set \<Rightarrow> store \<Rightarrow> store \<Rightarrow> bool" for p ops where
  run_start: "queue_run p ops en en"
| run_step: "queue_run p ops en en1 \<Longrightarrow> op \<in> ops \<Longrightarrow> op_ok en1 op \<Longrightarrow> is_i64 now \<Longrightarrow>
    queue_run p ops en (entries (snd (run_op p now op \<lparr>entries = en1, script = sc\<rparr>)))"

lemma run_op_result:
  fixes en :: store and sc :: "fault list" and op :: op and p :: policy and now :: int
  assumes "store_ok en" "policy_ok p" "is_i64 now" "op_ok en op"
  defines "s \<equiv> \<lparr>entries = en, script = sc\<rparr>"
  shows "keeps (effect_of op) en (entries (snd (run_op p now op s)))"
    "fst (run_op p now op s) \<noteq> Inl (Corrupt w)"
proof -
  have w: "wp True (run_op p now op) (\<lambda>_ en'. keeps (effect_of op) en en') (intact (effect_of op) en) (entries s)"
    using run_op_keeps [OF assms(1-4), of True] by (simp add: s_def)
  note d = wpD [OF w]
  show "keeps (effect_of op) en (entries (snd (run_op p now op s)))"
    using d(1,2) by (cases "fst (run_op p now op s)") (auto simp: intact_def)
  show "fst (run_op p now op s) \<noteq> Inl (Corrupt w)"
    using d(2) by (auto simp: intact_def)
qed

lemma queue_run_keeps:
  assumes "queue_run p ops en en'" "store_ok en" "policy_ok p"
    "\<And>op a b. op \<in> ops \<Longrightarrow> effect_of op a b \<Longrightarrow> R a b" "\<And>a. R a a" "\<And>a b c. R a b \<Longrightarrow> R b c \<Longrightarrow> R a c"
  shows "keeps R en en'"
  using assms(1,2)
proof (induction rule: queue_run.induct)
  case (run_start en)
  then show ?case using assms(5) by (simp add: keeps_def)
next
  case (run_step en en1 op now sc)
  let ?en2 = "entries (snd (run_op p now op \<lparr>entries = en1, script = sc\<rparr>))"
  have "keeps (effect_of op) en1 ?en2"
    using run_step by (intro run_op_result(1) [OF keeps_ok assms(3)]) auto
  then have k: "keeps R en1 ?en2" using assms(4) [OF run_step.hyps(2)] by (auto simp: keeps_def)
  show ?case
    using k run_step.IH [OF run_step.prems] assms(6) unfolding keeps_def by (meson le_trans less_le_trans)
qed

lemma run_wp:
  assumes "wp True m Q E (entries s)"
  shows "m s = (Inr a, s') \<Longrightarrow> Q a (entries s')" "m s = (Inl e, s') \<Longrightarrow> E e (entries s')"
  using wpD(1,2) [OF assms] by fastforce+

lemma run_wp_clean:
  assumes "wp False m Q E (entries s)" "script s = []"
  shows "m s = (Inr a, s') \<Longrightarrow> Q a (entries s')" "m s = (Inl e, s') \<Longrightarrow> E e (entries s')" "script (snd (m s)) = []"
  using wpD [OF assms(1)] assms(2) by fastforce+

text \<open>A store with one job, for the witnesses.\<close>

definition one_job :: "job \<Rightarrow> store" where
  "one_job j = bm_insert (job_key (j_id j)) (encode_job j) (bm_insert SEQ_ID (be 8 2) [])"

definition sample_job :: "job_state \<Rightarrow> job" where
  "sample_job st = \<lparr>j_id = 1, j_queue = [97], j_payload = [], j_priority = 0, not_before = 0, fresh_until = None,
     deadline = None, j_max_attempts = 3, attempts = 0, lease_expiries = 0, j_dedupe = None, j_state = st,
     lease_worker = (if st = Leased then Some [97] else None), lease_until = (if st = Leased then Some 50 else None),
     last_error = None, j_result = (if st = Done then Some [7] else None),
     progress_entries = 0, progress_bytes = 0, created_at = 0, updated_at = 0\<rparr>"


lemma sample_ok: "job_ok (sample_job st)"
  by (simp add: sample_job_def job_ok_def job_wf_def valid_name_def str_ok_def bytes_ok_def is_i64_def
      name_byte_def is_alnum_def utf8_def utf8_char_def valid_str_def valid_char_def)

lemma one_job_ok:
  assumes "job_ok j" "j_id j = 1"
  shows "store_ok (one_job j)" "jobs (one_job j) = [1 \<mapsto> j]" "next_id (one_job j) = 2"
proof -
  let ?en = "bm_insert SEQ_ID (be 8 2) []"
  have n: "next_id ?en = 2" by (rule counter_set) simp
  have e: "store_ok ?en"
    using store_ok_count [OF store_ok_empty] by (simp add: counter_def sat_add64_def numeral_2_eq_2)
  have "id_below ?en (j_id j)" using n assms(2) by (simp only: id_below_def) simp
  then show "store_ok (one_job j)"
    unfolding one_job_def by (rule store_ok_save [OF e assms(1)])
  have e0: "jobs ?en = Map.empty"
    using jobs_other(1) [of SEQ_ID "be 8 2" "[]"] by (simp add: jobs_def [of "[]"] fun_eq_iff)
  have "jobs (one_job j) = (jobs ?en)(j_id j \<mapsto> j)"
    unfolding one_job_def by (rule jobs_save [OF job_okD(1) [OF assms(1)]])
  then show "jobs (one_job j) = [1 \<mapsto> j]" unfolding e0 assms(2) .
  have "SEQ_ID \<noteq> job_key (j_id j)" using kind_not_seq(1) [of "job_key (j_id j)"] by auto
  then show "next_id (one_job j) = 2"
    by (metis one_job_def counter_other(1) n)
qed

lemma sample_store:
  "store_ok (one_job (sample_job st))" "jobs (one_job (sample_job st)) = [1 \<mapsto> sample_job st]"
  "next_id (one_job (sample_job st)) = 2"
  by (rule one_job_ok [OF sample_ok], simp add: sample_job_def)+

section \<open>The store along a run\<close>

text \<open>C7.  Whatever operations run over the store, with whatever clock readings, and whatever store
  calls fail or are torn on the way (a crash included), the store stays in order: every job and alert
  record decodes, ids stay below the counter, leases and results agree with the states.  No operation
  ever finds it corrupt.\<close>

theorem store_never_corrupt:
  assumes "queue_run p UNIV [] en" "policy_ok p" "is_i64 now" "op_ok en op"
  shows "store_ok en \<and> fst (run_op p now op \<lparr>entries = en, script = sc\<rparr>) \<noteq> Inl (Corrupt w)"
proof
  show ok: "store_ok en"
    using queue_run_keeps [OF assms(1) store_ok_empty assms(2), of "\<lambda>_ _. True"] by (simp add: keeps_def)
  show "fst (run_op p now op \<lparr>entries = en, script = sc\<rparr>) \<noteq> Inl (Corrupt w)"
    by (rule run_op_result(2) [OF ok assms(2-4)])
qed

definition taken_once :: store where
  "taken_once = entries (snd (run_op policy_default 5 (OpTake [97] [98] None) \<lparr>entries = [], script = [Works, Torn []]\<rparr>))"

lemma taken_once_run: "queue_run policy_default UNIV [] taken_once"
  unfolding taken_once_def by (rule run_step [OF run_start]) (simp_all add: is_i64_def)

theorem store_never_corrupt_witness:
  "store_ok taken_once \<and> fst (run_op policy_default 5 OpReap \<lparr>entries = taken_once, script = []\<rparr>) \<noteq> Inl (Corrupt NotUtf8)"
  using store_never_corrupt [OF taken_once_run policy_ok_default, of 5 OpReap]
  by (simp add: is_i64_def)












lemma run_fails:
  assumes "wp True m (\<lambda>_ _. False) (\<lambda>e en'. en' = entries s) (entries s)"
  shows "(\<exists>e. fst (m s) = Inl e) \<and> entries (snd (m s)) = entries s"
proof -
  obtain r s' where m: "m s = (r, s')" by fastforce
  show ?thesis
  proof (cases r)
    case (Inl e)
    with m run_wp(2) [OF assms, of e s'] show ?thesis by simp
  next
    case (Inr a)
    with m run_wp(1) [OF assms, of a s'] show ?thesis by simp
  qed
qed

section \<open>Taking and settling\<close>


text \<open>A lease excludes: while a job is leased past the clock reading, no \<open>take\<close> by anybody hands it
  out or touches it, whatever fails.\<close>

theorem lease_excludes:
  assumes "take_job p now queue worker lease s = (r, s')" "store_ok (entries s)" "is_i64 now"
    "jobs (entries s) i = Some j" "held now j"
  shows "jobs (entries s') i = Some j \<and> (\<forall>j'. r = Inr (TakenJob j') \<longrightarrow> j_id j' \<noteq> i)"
proof -
  note w = guarding.take_job_keeps [OF guarding.start [OF assms(2)] assms(3), of True p queue worker lease]
  have k: "keeps (guards now) (entries s) (entries s')"
    using run_wp [OF w] assms(1) by (cases r) (auto simp: intact_def)
  then have same: "jobs (entries s') i = Some j" using assms(4,5) by (auto simp: keeps_def guards_def)
  have "j_id j' \<noteq> i" if r: "r = Inr (TakenJob j')" for j'
  proof
    assume i: "j_id j' = i"
    from run_wp(1) [OF w] assms(1) r obtain l j1
      where "takeable p queue now j1" "guards now (jobs (entries s) (j_id j1)) (Some j1)" "j' = leased_to worker now l j1"
      unfolding took_def by blast
    then have "guards now (Some j) (Some j1)" "j_state j1 = Ready"
      using i assms(4) by (auto simp: leased_to_def takeable_def)
    then show False using assms(5) by (auto simp: guards_def held_def)
  qed
  with same show ?thesis by simp
qed

text \<open>Settling: \<open>done\<close> (or \<open>done\_by\<close> with the worker's name) that succeeds found the job leased (to that worker), and
  now the job is done with that result, and no other job is different.\<close>

theorem settle_effect:
  assumes "settle p now i worker res s = (Inr j', s')" "store_ok (entries s)" "is_i64 now" "policy_ok p" "i \<le> u64_max"
  shows "\<exists>j. jobs (entries s) i = Some j \<and> lease_of worker j \<and> j' = done_with now res j \<and>
    jobs (entries s') = (jobs (entries s))(i \<mapsto> j')"
  using run_wp(1) [OF settle_keeps [OF evolving.start [OF assms(2)] assms(3-5)] assms(1)] by blast

text \<open>C11.  Fencing: without the lease (none, another worker's, a settled or missing job) \<open>done\<close> and \<open>fail\<close>
  fail and leave the store exactly as it was.\<close>

theorem fenced_off:
  assumes "store_ok (entries s)" "i \<le> u64_max" "\<forall>j. jobs (entries s) i = Some j \<longrightarrow> \<not> lease_of worker j"
  shows "(\<exists>e. fst (settle p now i worker res s) = Inl e) \<and> entries (snd (settle p now i worker res s)) = entries s \<and>
    (\<exists>e. fst (fail_inner p now i worker reason s) = Inl e) \<and>
    entries (snd (fail_inner p now i worker reason s)) = entries s"
  using run_fails [OF settle_fenced(1) [OF assms]] run_fails [OF settle_fenced(2) [OF assms]] by blast

text \<open>A failed attempt: the attempt is counted; at the job's limit it is dead-lettered, before it it is
  ready again after the policy's delay, which is the base delay doubled per failure up to the cap.\<close>

theorem fail_effect:
  assumes "fail_inner p now i worker reason s = (Inr r, s')" "store_ok (entries s)" "is_i64 now" "policy_ok p"
    "i \<le> u64_max" "valid_str reason"
  shows "\<exists>j j'. jobs (entries s) i = Some j \<and> lease_of worker j \<and> jobs (entries s') = (jobs (entries s))(i \<mapsto> j') \<and>
    j_state j' = fo_state r \<and> attempts j' = fo_attempts r \<and> attempts j' = wrap32 (attempts j + 1) \<and>
    (if attempts j' \<ge> j_max_attempts j
     then fo_state r = Dead \<and> fo_dead r \<and> fo_not_before r = None
     else fo_state r = Ready \<and> \<not> fo_dead r \<and> fo_not_before r = Some (not_before j') \<and>
       not_before j' = sat_i64 (now + (if attempts j' = 0 then 0
         else min (max (base_ms (retry p)) 0 * 2 ^ (attempts j' - 1)) (retry_max_ms (retry p)))))"
proof -
  have "is_i64 (retry_max_ms (retry p))" using assms(4) by (simp add: policy_ok_def)
  then have d: "delay_ms (retry p) n = (if n = 0 then 0 else min (max (base_ms (retry p)) 0 * 2 ^ (n - 1)) (retry_max_ms (retry p)))" for n
    by (cases "n = 0") (simp add: delay_ms_def, simp add: delay_ms_closed)
  show ?thesis
    unfolding d [symmetric]
    using run_wp(1) [OF fail_inner_keeps [OF evolving.start [OF assms(2)] assms(3,5,6)] assms(1)]
    apply (elim conjE exE)
    subgoal for j j'
      by (rule exI [of _ j], rule exI [of _ j']) (simp del: fun_upd_apply)
    done
qed

section \<open>Without faults\<close>

text \<open>The index entry of a stored job.\<close>

definition indexes :: "store \<Rightarrow> byte \<Rightarrow> bytes \<times> bytes \<Rightarrow> job \<Rightarrow> bool" where
  "indexes en st e j \<longleftrightarrow> fst e = index_key j st \<and> jobs en (j_id j) = Some j"

definition waiting :: "policy \<Rightarrow> str \<Rightarrow> int \<Rightarrow> job \<Rightarrow> bool" where
  "waiting p queue now j \<longleftrightarrow> takeable p queue (not_before j) (j\<lparr>fresh_until := None\<rparr>) \<and> now < not_before j \<and>
     (\<forall>f \<in> set_option (fresh_until j). now < f)"

lemma indexed_load:
  assumes "store_ok en" "indexes en st (key, v) j"
  shows "id_from_index_key key = Some (j_id j)" "j_id j \<le> u64_max" "jobs en (j_id j) = Some j"
proof -
  show jobs: "jobs en (j_id j) = Some j" using assms(2) by (simp add: indexes_def)
  then show "j_id j \<le> u64_max" by (rule jobs_le)
  then show "id_from_index_key key = Some (j_id j)" using assms(2) by (simp add: indexes_def)
qed

lemma recover_held:
  assumes "store_ok en" "\<And>e. e \<in> set (bm_scan (index_prefix queue STATE_LEASED) en) \<Longrightarrow>
      \<exists>j. indexes en STATE_LEASED e j \<and> j_queue j = queue \<and> held now j"
  shows "wp False (recover_leases p queue now) (\<lambda>_ en'. en' = en) (\<lambda>_ _. False) en"
proof -
  let ?es = "bm_scan (index_prefix queue STATE_LEASED) en"
  have body: "wp False (recover_entry p queue now e n) (\<lambda>_ en'. en' = en) (\<lambda>_ _. False) en" if mem: "e \<in> set ?es" for e n
  proof -
    obtain key v where e: "e = (key, v)" by (cases e)
    obtain j where j: "indexes en STATE_LEASED (key, v) j" "j_queue j = queue" "held now j"
      using assms(2) [OF mem] e by blast
    note l = indexed_load [OF assms(1) j(1)]
    show ?thesis
      unfolding recover_entry_def e prod.case l(1) option.case
      using j(2,3) by (intro wp_then) (auto simp: wp_simps assms(1) l(2,3) held_def)
  qed
  show ?thesis
    unfolding recover_leases_def
    by (intro wp_then) (auto simp: wp_simps intro!: wp_for [where I = "\<lambda>xs _ en'. set xs \<subseteq> set ?es \<and> en' = en"]
        intro: wp_conseq [OF body])
qed

lemma take_first:
  assumes "store_ok en" "\<forall>e \<in> set pre. \<exists>j. indexes en STATE_READY e j \<and> waiting p queue now j"
    "indexes en STATE_READY e j" "takeable p queue now j" "is_i64 now" "str_ok worker"
  shows "wp False (take_loop p queue worker lease now (pre @ e # es))
    (\<lambda>r _. r = TakenJob (leased_to worker now lease j)) (\<lambda>_ _. False) en"
  using assms(2)
proof (induction pre)
  case Nil
  obtain key v where e: "e = (key, v)" by (cases e)
  note l = indexed_load [OF assms(1) assms(3) [unfolded e]]
  show ?case
    unfolding append_Nil e take_loop.simps l(1) option.case Let_def leased_to_def [symmetric]
    using assms(4) by (intro wp_then)
      (auto simp: wp_simps assms(1) l(2,3) takeable_def q_save_def put_index_def leased_to_def split: option.splits intro!: wp_then)
next
  case (Cons w ws)
  obtain key v where w: "w = (key, v)" by (cases w)
  obtain j' where j': "indexes en STATE_READY (key, v) j'" "waiting p queue now j'" using Cons.prems w by auto
  note l = indexed_load [OF assms(1) j'(1)]
  have IH: "wp False (take_loop p queue worker lease now (ws @ e # es))
    (\<lambda>r _. r = TakenJob (leased_to worker now lease j)) (\<lambda>_ _. False) en"
    using Cons by simp
  show ?case
    unfolding append_Cons w take_loop.simps l(1) option.case Let_def
    using j'(2) IH by (intro wp_then) (auto simp: wp_simps assms(1) l(2,3) waiting_def takeable_def split: option.splits)
qed

lemma scan_split:
  assumes "bm_wf m" "(k, v) \<in> set (bm_scan p m)"
  obtains pre post where "bm_scan p m = pre @ (k, v) # post" "\<forall>e \<in> set pre. fst e < k"
proof -
  obtain pre post where s: "bm_scan p m = pre @ (k, v) # post" using assms(2) by (meson split_list)
  have "sorted_wrt (<) (map fst (bm_scan p m))" using bm_scan_wf [OF assms(1), of p] unfolding bm_wf_def .
  then have "\<forall>e \<in> set pre. fst e < k" by (auto simp: s sorted_wrt_append)
  with s that show ?thesis by blast
qed

lemma run_total:
  assumes "wp False m Q (\<lambda>_ _. False) (entries s)" "script s = []"
  shows "\<exists>a. fst (m s) = Inr a \<and> Q a (entries (snd (m s)))"
proof -
  obtain r s' where m: "m s = (r, s')" by fastforce
  show ?thesis
    using run_wp_clean(1,2) [OF assms] m by (cases r) auto
qed

definition before :: "job \<Rightarrow> job \<Rightarrow> bool" where
  "before a b \<longleftrightarrow> j_priority b < j_priority a \<or> j_priority a = j_priority b \<and> j_id a < j_id b"

definition may_take :: "policy \<Rightarrow> str \<Rightarrow> str \<Rightarrow> int option \<Rightarrow> bool" where
  "may_take p queue worker lease \<longleftrightarrow> valid_name queue 64 \<and> valid_name worker 100 \<and>
     (case lease of Some ms \<Rightarrow> ms | None \<Rightarrow> lease_ms p) \<in> {0 <.. max_lease_ms p}"

lemma take_best:
  assumes "store_ok en" "is_i64 now" "may_take p queue worker lease"
    "\<forall>e \<in> set (bm_scan (index_prefix queue STATE_LEASED) en).
       \<exists>j. indexes en STATE_LEASED e j \<and> j_queue j = queue \<and> held now j"
    "length (bm_scan (index_prefix queue STATE_LEASED) en) < limit_for p queue"
    "\<forall>e \<in> set (bm_scan (index_prefix queue STATE_READY) en).
       \<exists>j'. indexes en STATE_READY e j' \<and> (waiting p queue now j' \<or> takeable p queue now j' \<and> \<not> before j' j)"
    "(index_key j STATE_READY, v) \<in> set (bm_scan (index_prefix queue STATE_READY) en)"
    "jobs en (j_id j) = Some j" "takeable p queue now j"
  shows "wp False (take_job p now queue worker lease)
    (\<lambda>r _. r = TakenJob (leased_to worker now (case lease of Some ms \<Rightarrow> ms | None \<Rightarrow> lease_ms p) j)) (\<lambda>_ _. False) en"
proof -
  obtain pre post where split: "bm_scan (index_prefix queue STATE_READY) en = pre @ (index_key j STATE_READY, v) # post"
      "\<forall>e \<in> set pre. fst e < index_key j STATE_READY"
    using scan_split [OF store_ok_wf [OF assms(1)] assms(7)] by blast
  have pre: "\<exists>j'. indexes en STATE_READY e j' \<and> waiting p queue now j'" if mem: "e \<in> set pre" for e
  proof -
    obtain j' where j': "indexes en STATE_READY e j'"
        "waiting p queue now j' \<or> takeable p queue now j' \<and> \<not> before j' j"
      using assms(6) split(1) mem by auto
    have less: "index_key j' STATE_READY < index_key j STATE_READY"
      using bspec [OF split(2) mem] j'(1) by (simp add: indexes_def)
    have "before j' j" if tk: "takeable p queue now j'"
    proof -
      have wf: "job_wf j'" "job_wf j" "j_queue j' = j_queue j"
        using jobsD(2) [OF assms(1)] j'(1) assms(8,9) tk by (auto simp: indexes_def takeable_def job_ok_def)
      then show ?thesis using index_key_less [of j' j STATE_READY] less by (simp add: before_def job_wf_def)
    qed
    with j' show ?thesis by blast
  qed
  have i: "indexes en STATE_READY (index_key j STATE_READY, v) j" by (simp add: indexes_def assms(8))
  have w: "str_ok worker" using assms(3) valid_name_ok by (auto simp: may_take_def)
  have first: "wp False (take_loop p queue worker l now (bm_scan (index_prefix queue STATE_READY) en))
      (\<lambda>r _. r = TakenJob (leased_to worker now l j)) (\<lambda>_ _. False) en" for l
    unfolding split(1) by (rule take_first [OF assms(1) _ i assms(9,2) w]) (use pre in blast)
  show ?thesis
    unfolding take_job_def Let_def count_index_def
  proof (intro wp_if wp_then, goal_cases)
    case 4
    show ?case
      by (rule wp_conseq [OF recover_held [OF assms(1) bspec [OF assms(4)]]])
        (assumption, use first assms(5) in \<open>auto simp: wp_simps intro!: wp_then\<close>)
  qed (use assms(3) in \<open>auto simp: may_take_def\<close>)
qed

text \<open>C10.  The queue makes progress, in order.  When no store call fails, the names and the lease length
  are valid, fewer jobs than the limit are leased, all of them before their end, and the ready index
  lists jobs that are due or still waiting, \<open>take\<close> hands out the due job with the highest priority,
  the oldest id first.\<close>

theorem take_best_first:
  assumes "store_ok (entries s)" "script s = []" "is_i64 now" "may_take p queue worker lease"
    "\<forall>e \<in> set (bm_scan (index_prefix queue STATE_LEASED) (entries s)).
       \<exists>j. indexes (entries s) STATE_LEASED e j \<and> j_queue j = queue \<and> held now j"
    "length (bm_scan (index_prefix queue STATE_LEASED) (entries s)) < limit_for p queue"
    "\<forall>e \<in> set (bm_scan (index_prefix queue STATE_READY) (entries s)).
       \<exists>j'. indexes (entries s) STATE_READY e j' \<and> (waiting p queue now j' \<or> takeable p queue now j' \<and> \<not> before j' j)"
    "(index_key j STATE_READY, v) \<in> set (bm_scan (index_prefix queue STATE_READY) (entries s))"
    "jobs (entries s) (j_id j) = Some j" "takeable p queue now j"
  shows "fst (take_job p now queue worker lease s) =
    Inr (TakenJob (leased_to worker now (case lease of Some ms \<Rightarrow> ms | None \<Rightarrow> lease_ms p) j))"
  using run_total [OF take_best [OF assms(1,3-10)] assms(2)] by blast

lemma settle_succeeds:
  assumes "store_ok en" "jobs en i = Some j" "lease_of worker j" "length res \<le> max_result_bytes p"
  shows "wp False (settle p now i worker res) (\<lambda>_ _. True) (\<lambda>_ _. False) en"
proof -
  have "\<not> (j_state j \<noteq> Leased)" "\<not> (case worker of Some w \<Rightarrow> \<not> holds_lease j w | None \<Rightarrow> False)"
    using assms(3) by (auto simp: lease_of_def holds_lease_def split: option.splits)
  moreover have "\<not> length res > max_result_bytes p" using assms(4) by simp
  ultimately show ?thesis
    unfolding settle_def job_or_not_found_def q_job_def q_save_def Let_def
    by (intro wp_then) (simp add: assms wp_simps jobs_le [OF assms(2)] wp_then)
qed

lemma fail_succeeds:
  assumes "store_ok en" "jobs en i = Some j" "lease_of worker j" "wrap32 (attempts j + 1) < j_max_attempts j"
  shows "wp False (fail_inner p now i worker reason) (\<lambda>_ _. True) (\<lambda>_ _. False) en"
proof -
  have "\<not> (j_state j \<noteq> Leased)" "\<not> (case worker of Some w \<Rightarrow> \<not> holds_lease j w | None \<Rightarrow> False)"
    using assms(3) by (auto simp: lease_of_def holds_lease_def split: option.splits)
  then show ?thesis
    unfolding fail_inner_def job_or_not_found_def q_job_def q_save_def Let_def
    using assms(4) by (intro wp_then) (simp add: assms wp_simps jobs_le [OF assms(2)] wp_then put_index_def)
qed

lemma scan_one_job:
  "\<not> prefix p (job_key 1) \<Longrightarrow> \<not> prefix p SEQ_ID \<Longrightarrow> j_id j = 1 \<Longrightarrow> bm_scan p (one_job j) = []"
  unfolding one_job_def by (simp only: bm_scan_insert_out bm_wf_insert bm_wf_simps) (simp add: bm_scan_def)

definition ready_store :: store where
  "ready_store = bm_insert (index_key (sample_job Ready) STATE_READY) [] (one_job (sample_job Ready))"

lemma bm_scan_insert_only:
  assumes "bm_wf m" "prefix p k" "bm_scan p m = []"
  shows "bm_scan p (bm_insert k v m) = [(k, v)]"
proof -
  have "filter (\<lambda>e. prefix p (fst e)) m = [] \<Longrightarrow> filter (\<lambda>e. prefix p (fst e)) (bm_insert k v m) = [(k, v)]"
    using assms(2) by (induction m) (auto split: if_splits)
  then show ?thesis using assms by (simp add: bm_scan_filter)
qed

lemma ready_store_ok:
  "store_ok ready_store" "jobs ready_store = [1 \<mapsto> sample_job Ready]"
  "bm_scan (index_prefix [97] STATE_LEASED) ready_store = []"
  "bm_scan (index_prefix [97] STATE_READY) ready_store = [(index_key (sample_job Ready) STATE_READY, [])]"
proof -
  have wf: "bm_wf (one_job (sample_job Ready))" by (rule store_ok_wf [OF sample_store(1)])
  show "store_ok ready_store" unfolding ready_store_def using sample_store(1) by simp
  show "jobs ready_store = [1 \<mapsto> sample_job Ready]" unfolding ready_store_def by (simp add: sample_store(2))
  have none: "bm_scan (index_prefix [97] st) (one_job (sample_job Ready)) = []" for st
    using prefix_key_kind(5) [of "[97]" st "job_key 1"] prefix_key_kind(5) [of "[97]" st SEQ_ID]
    by (intro scan_one_job) (auto simp: sample_job_def)
  have pre: "prefix (index_prefix [97] st) (index_key (sample_job Ready) st') \<longleftrightarrow> st = st'" for st st'
    using index_prefix_key [of "[97]" 64 "sample_job Ready" st st'] sample_ok [of Ready]
    by (simp add: sample_job_def job_ok_def)
  show "bm_scan (index_prefix [97] STATE_LEASED) ready_store = []"
    unfolding ready_store_def using bm_scan_insert_out [OF wf] none pre by (simp add: STATE_READY_def STATE_LEASED_def)
  show "bm_scan (index_prefix [97] STATE_READY) ready_store = [(index_key (sample_job Ready) STATE_READY, [])]"
    unfolding ready_store_def using bm_scan_insert_only [OF wf] none pre by simp
qed

section \<open>Witnesses\<close>

lemma sample_takeable: "takeable policy_default [97] 5 (sample_job Ready)"
  by (simp add: takeable_def sample_job_def policy_default_def)

lemma sample_may_take: "may_take policy_default [97] [98] None"
  by (simp add: may_take_def policy_default_def valid_name_def utf8_def utf8_char_def name_byte_def is_alnum_def)

lemma sample_take_premises:
  "\<forall>e \<in> set (bm_scan (index_prefix [97] STATE_LEASED) ready_store).
     \<exists>j. indexes ready_store STATE_LEASED e j \<and> j_queue j = [97] \<and> held 5 j"
  "length (bm_scan (index_prefix [97] STATE_LEASED) ready_store) < limit_for policy_default [97]"
  "\<forall>e \<in> set (bm_scan (index_prefix [97] STATE_READY) ready_store).
     \<exists>j'. indexes ready_store STATE_READY e j' \<and>
       (waiting policy_default [97] 5 j' \<or> takeable policy_default [97] 5 j' \<and> \<not> before j' (sample_job Ready))"
  "(index_key (sample_job Ready) STATE_READY, []) \<in> set (bm_scan (index_prefix [97] STATE_READY) ready_store)"
  "jobs ready_store (j_id (sample_job Ready)) = Some (sample_job Ready)"
proof -
  have i: "j_id (sample_job Ready) = 1" by (simp add: sample_job_def)
  show j: "jobs ready_store (j_id (sample_job Ready)) = Some (sample_job Ready)"
    by (simp add: i ready_store_ok(2))
  show "\<forall>e \<in> set (bm_scan (index_prefix [97] STATE_READY) ready_store).
     \<exists>j'. indexes ready_store STATE_READY e j' \<and>
       (waiting policy_default [97] 5 j' \<or> takeable policy_default [97] 5 j' \<and> \<not> before j' (sample_job Ready))"
    using j sample_takeable
    by (auto simp: ready_store_ok(4) indexes_def before_def intro!: exI [of _ "sample_job Ready"])
qed (simp_all add: ready_store_ok limit_for_def)

abbreviation ready_kv :: kv where
  "ready_kv \<equiv> \<lparr>entries = ready_store, script = []\<rparr>"

theorem take_best_first_witness:
  "fst (take_job policy_default 5 [97] [98] None ready_kv) =
    Inr (TakenJob (leased_to [98] 5 (lease_ms policy_default) (sample_job Ready)))"
  using take_best_first [of ready_kv 5 policy_default "[97]" "[98]" None "sample_job Ready" "[]"]
    ready_store_ok(1) sample_take_premises sample_may_take sample_takeable
  by (simp add: is_i64_def)



abbreviation leased_kv :: kv where
  "leased_kv \<equiv> \<lparr>entries = one_job (sample_job Leased), script = []\<rparr>"

theorem lease_excludes_witness:
  "\<exists>r s'. take_job policy_default 5 [97] [99] None leased_kv = (r, s') \<and>
    jobs (entries s') 1 = Some (sample_job Leased)"
proof -
  obtain r s' where t: "take_job policy_default 5 [97] [99] None leased_kv = (r, s')" by fastforce
  have "held 5 (sample_job Leased)" by (simp add: held_def sample_job_def)
  with lease_excludes [OF t, of 1 "sample_job Leased"] t show ?thesis by (simp add: sample_store is_i64_def)
qed

lemma sample_lease: "lease_of (Some [97]) (sample_job Leased)" "\<not> lease_of (Some [98]) (sample_job Leased)"
  by (simp_all add: lease_of_def sample_job_def)

theorem settle_effect_witness:
  "\<exists>j' s'. settle policy_default 5 1 (Some [97]) [7] leased_kv = (Inr j', s') \<and>
    jobs (entries s') = [1 \<mapsto> done_with 5 [7] (sample_job Leased)]"
proof -
  have "length [7 :: byte] \<le> max_result_bytes policy_default" by (simp add: policy_default_def)
  then have "wp False (settle policy_default 5 1 (Some [97]) [7]) (\<lambda>_ _. True) (\<lambda>_ _. False) (one_job (sample_job Leased))"
    using settle_succeeds [OF sample_store(1) _ sample_lease(1)] by (simp add: sample_store(2))
  from run_total [of _ _ leased_kv, simplified, OF this] obtain j' s'
    where t: "settle policy_default 5 1 (Some [97]) [7] leased_kv = (Inr j', s')" by (metis prod.collapse)
  from settle_effect [OF this] t show ?thesis
    by (auto simp: sample_store is_i64_def policy_ok_default split: if_splits)
qed

theorem fenced_off_witness:
  "entries (snd (settle policy_default 5 1 (Some [98]) [7] leased_kv)) = one_job (sample_job Leased)"
  using fenced_off [of leased_kv 1 "Some [98]" policy_default 5 "[7]"] sample_lease(2) by (simp add: sample_store)

theorem fail_effect_witness:
  "\<exists>r s'. fail_inner policy_default 5 1 (Some [97]) [98] leased_kv = (Inr r, s') \<and> fo_state r = Ready"
proof -
  have a: "wrap32 (attempts (sample_job Leased) + 1) = 1" "j_max_attempts (sample_job Leased) = 3"
    by (simp_all add: sample_job_def wrap32_def)
  have "wp False (fail_inner policy_default 5 1 (Some [97]) [98]) (\<lambda>_ _. True) (\<lambda>_ _. False) (one_job (sample_job Leased))"
    using fail_succeeds [OF sample_store(1) _ sample_lease(1), where i = 1] a by (simp add: sample_store(2))
  from run_total [of _ _ leased_kv, simplified, OF this] obtain r s'
    where t: "fail_inner policy_default 5 1 (Some [97]) [98] leased_kv = (Inr r, s')" by (metis prod.collapse)
  have v: "valid_str [98]" by (simp add: valid_str_def valid_char_def)
  show ?thesis
    using fail_effect [OF t _ _ policy_ok_default _ v] t a
    by (auto simp: sample_store is_i64_def)
qed

section \<open>Producing\<close>

lemma enqueue_hit:
  assumes "store_ok en" "er_dedupe_key r = Some k"
    "Option.bind (bm_get en (dedupe_key (er_queue r) k)) id_from_bytes = Some i" "jobs en i \<noteq> None"
  shows "wp F (enqueue p now r) (\<lambda>out en'. out = \<lparr>eo_id = i, dedupe_hit = True\<rparr> \<and> en' = en) (\<lambda>_ en'. en' = en) en"
proof -
  obtain j where j: "jobs en i = Some j" using assms(4) by auto
  show ?thesis
    unfolding enqueue_def find_duplicate_def assms(2) option.case validate_enqueue_def Let_def
    using assms j jobs_le [OF j] by (intro wp_then wp_if) (auto simp: wp_simps intro!: wp_then)
qed

text \<open>What an accepted request does: on a dedupe hit nothing changes and the id returned is a stored
  job's; otherwise the job of the request is stored, ready, under an id that named nothing before, and
  no other job changes.\<close>

theorem enqueue_effect:
  assumes "enqueue p now r s = (Inr out, s')" "store_ok (entries s)" "policy_ok p" "request_ok r" "is_i64 now"
    "next_id (entries s) < u64_max"
  shows "if dedupe_hit out then entries s' = entries s \<and> jobs (entries s) (eo_id out) \<noteq> None
    else jobs (entries s) (eo_id out) = None \<and>
      jobs (entries s') = (jobs (entries s))(eo_id out \<mapsto> request_job p now r (eo_id out)) \<and>
      next_id (entries s') = next_id (entries s) + 1"
  using run_wp(1) [OF enqueue_keeps [OF admitting.start [OF assms(2)] assms(3-6)] assms(1)]
  by (auto split: if_splits)

text \<open>C12.  Exactly once under a dedupe key: when a request under a key was accepted (stored or a hit), a
  second one with the same queue and key, whatever its payload and options and whatever fails, either
  fails or is answered with the same id, and never stores anything.\<close>

theorem dedupe_once:
  assumes "enqueue p now r s = (Inr out, s')" "store_ok (entries s)" "policy_ok p" "request_ok r" "is_i64 now"
    "next_id (entries s) < u64_max" "er_dedupe_key r = Some k"
    "er_queue r2 = er_queue r" "er_dedupe_key r2 = Some k"
  shows "entries (snd (enqueue p2 now2 r2 \<lparr>entries = entries s', script = sc\<rparr>)) = entries s' \<and>
    (\<forall>out2. fst (enqueue p2 now2 r2 \<lparr>entries = entries s', script = sc\<rparr>) = Inr out2 \<longrightarrow>
       out2 = \<lparr>eo_id = eo_id out, dedupe_hit = True\<rparr>)"
proof -
  let ?en = "entries s'"
  note e = run_wp(1) [OF enqueue_keeps [OF admitting.start [OF assms(2)] assms(3-6)] assms(1)]
  have k: "store_ok ?en" using e by (simp add: keeps_def)
  have c: "Option.bind (bm_get ?en (dedupe_key (er_queue r2) k)) id_from_bytes = Some (eo_id out)"
      "jobs ?en (eo_id out) \<noteq> None"
    using e assms(7-9) by (auto split: if_splits)
  obtain a t where m: "enqueue p2 now2 r2 \<lparr>entries = ?en, script = sc\<rparr> = (a, t)" by fastforce
  note w = run_wp [where s = "\<lparr>entries = ?en, script = sc\<rparr>", simplified, OF enqueue_hit [OF k assms(9) c]]
  show ?thesis
    using w(1) [of p2 now2 _ t] w(2) [of p2 now2 _ t] m by (cases a) auto
qed

section \<open>Dead letters and alerts\<close>

text \<open>Requeue revives dead letters only: on success the job was dead and is now ready, due at once,
  with its attempts and lease losses reset when asked for, and no other job changes.\<close>

theorem requeue_effect:
  assumes "requeue_with p now i opts s = (Inr j', s')" "store_ok (entries s)" "is_i64 now" "i \<le> u64_max"
    "\<forall>n \<in> set_option (ro_max_attempts opts). n \<le> u32_max"
  shows "\<exists>j. jobs (entries s) i = Some j \<and> j_state j = Dead \<and> j' = requeued p now opts j \<and>
    jobs (entries s') = (jobs (entries s))(i \<mapsto> j')"
  using run_wp(1) [OF requeue_keeps [OF evolving.start [OF assms(2)] assms(3-5)] assms(1)] by blast

text \<open>Alerts never flood: a batch holds between one and \<open>batch\_max\<close> alerts (at least one is allowed),
  each marked as sent in the store before it is handed out.\<close>

theorem alert_batch_bounded:
  assumes "next_alerts p now s = (Inr (Some b), s')" "store_ok (entries s)"
  shows "0 < length (ab_items b) \<and> length (ab_items b) \<le> max (batch_max (alert_policy p)) 1 \<and>
    (\<forall>a \<in> set (ab_items b). al_state a = AlertSent)"
  using run_wp(1) [OF next_alerts_keeps [OF evolving.start [OF assms(2)]] assms(1)] by blast

section \<open>Records and keys\<close>

text \<open>The job record: decoding an encoded job gives the job back; any strict prefix of the record and
  the record with anything after it is refused as corrupt.\<close>

theorem job_roundtrip:
  assumes "job_wf j"
  shows "decode_job (j_id j) (encode_job j) = Inr j \<and>
    (k < length (encode_job j) \<longrightarrow> (\<exists>w. decode_job (j_id j) (take k (encode_job j)) = Inl (Corrupt w))) \<and>
    decode_job (j_id j) (encode_job j @ x # xs) = Inl (Corrupt TrailingBytes)"
  unfolding decode_job_def
  using decode_whole_parses [OF parses_job [OF assms] length_encode_job [OF assms]] by simp

text \<open>The index order is the service order: within a queue and state the keys sort by descending
  priority, then by ascending id, and two jobs never share an index key.\<close>

theorem index_order:
  assumes "job_ok a" "job_ok b"
  shows "(j_queue a = j_queue b \<longrightarrow> (index_key a st < index_key b st \<longleftrightarrow> before a b)) \<and>
    (index_key a st = index_key b st' \<longrightarrow> j_id a = j_id b \<and> j_queue a = j_queue b \<and> st = st')"
proof -
  have "job_wf a" "job_wf b" and v: "valid_name (j_queue a) 64" "valid_name (j_queue b) 64"
    using assms by (simp_all add: job_ok_def)
  then show ?thesis
    using index_key_less [of a b st] index_key_inj [OF v, of st st'] by (auto simp: before_def job_wf_def)
qed

definition sample_request :: enqueue_request where
  "sample_request = (request_new [97] [1])\<lparr>er_dedupe_key := Some [107]\<rparr>"

lemma sample_request_ok: "request_ok sample_request"
  by (simp add: sample_request_def request_new_def request_ok_def valid_str_def valid_char_def)

abbreviation empty_kv :: kv where
  "empty_kv \<equiv> \<lparr>entries = [], script = []\<rparr>"

lemma sample_enqueue:
  obtains out s' where "enqueue policy_default 5 sample_request empty_kv = (Inr out, s')"
proof -
  have "wp False (enqueue policy_default 5 sample_request) (\<lambda>_ _. True) (\<lambda>_ _. False) []"
    unfolding enqueue_def validate_enqueue_def find_duplicate_def Let_def count_index_def next_counter_def q_save_def put_index_def
      request_job_def
    by (intro wp_then) (simp add: wp_simps sample_request_def request_new_def valid_name_def utf8_def utf8_char_def name_byte_def
      is_alnum_def policy_default_def is_control_def or_else_def wp_then bm_scan_def)
  from run_total [of _ _ empty_kv, simplified, OF this] that show ?thesis by (metis prod.collapse)
qed


lemma empty_room: "next_id [] = 1" "next_id [] < u64_max"
  by (simp_all add: counter_def)

theorem enqueue_effect_witness:
  "\<exists>out s'. enqueue policy_default 5 sample_request empty_kv = (Inr out, s') \<and>
     (dedupe_hit out \<or> next_id (entries s') = 2)"
proof (rule sample_enqueue)
  fix out s'
  assume t: "enqueue policy_default 5 sample_request empty_kv = (Inr out, s')"
  from enqueue_effect [OF t _ policy_ok_default sample_request_ok] t empty_room store_ok_empty
  show ?thesis by (auto simp: is_i64_def split: if_splits)
qed

theorem dedupe_once_witness:
  "\<exists>out s'. enqueue policy_default 5 sample_request empty_kv = (Inr out, s') \<and>
     entries (snd (enqueue policy_default 9 (sample_request\<lparr>er_payload := []\<rparr>) \<lparr>entries = entries s', script = [Works]\<rparr>)) = entries s'"
proof (rule sample_enqueue)
  fix out s'
  assume t: "enqueue policy_default 5 sample_request empty_kv = (Inr out, s')"
  from dedupe_once [OF t _ policy_ok_default sample_request_ok, of "[107]" "sample_request\<lparr>er_payload := []\<rparr>"
      policy_default 9 "[Works]"] t empty_room store_ok_empty
  show ?thesis by (auto simp: is_i64_def sample_request_def request_new_def)
qed

abbreviation dead_kv :: kv where
  "dead_kv \<equiv> \<lparr>entries = one_job (sample_job Dead), script = []\<rparr>"

theorem requeue_effect_witness:
  "\<exists>j' s'. requeue_with policy_default 5 1 requeue_default dead_kv = (Inr j', s') \<and>
     jobs (entries s') = [1 \<mapsto> requeued policy_default 5 requeue_default (sample_job Dead)]"
proof -
  have "wp False (requeue_with policy_default 5 1 requeue_default) (\<lambda>_ _. True) (\<lambda>_ _. False) (one_job (sample_job Dead))"
    unfolding requeue_with_def job_or_not_found_def q_job_def q_save_def put_index_def Let_def
    by (intro wp_then) (simp add: wp_simps sample_store wp_then, simp add: sample_job_def)
  from run_total [of _ _ dead_kv, simplified, OF this] obtain j' s'
    where t: "requeue_with policy_default 5 1 requeue_default dead_kv = (Inr j', s')" by (metis prod.collapse)
  from requeue_effect [OF t] t show ?thesis
    by (auto simp: sample_store is_i64_def requeue_default_def split: if_splits)
qed

definition sample_alert :: alert where
  "sample_alert = \<lparr>al_seq = 1, al_job = 1, al_queue = [97], al_kind = KindDead, al_reason = [98], al_at = 3,
     al_state = AlertReady\<rparr>"

definition alert_store :: store where
  "alert_store = bm_insert (alert_key (al_job sample_alert) (al_kind sample_alert)) (encode_alert sample_alert) []"

lemma sample_alert_wf: "alert_wf sample_alert"
  by (simp add: sample_alert_def alert_wf_def str_ok_def valid_str_def valid_char_def is_i64_def utf8_def utf8_char_def)

theorem alert_batch_bounded_witness:
  "\<exists>b s'. next_alerts policy_default 5 \<lparr>entries = alert_store, script = []\<rparr> = (Inr (Some b), s') \<and>
     0 < length (ab_items b)"
proof -
  have ok: "store_ok alert_store"
    unfolding alert_store_def by (rule store_ok_alert [OF store_ok_empty sample_alert_wf])
  have k: "alert_key (al_job sample_alert) (al_kind sample_alert) \<noteq> ALERT_LAST"
  proof
    assume "alert_key (al_job sample_alert) (al_kind sample_alert) = ALERT_LAST"
    then have "key_kind (alert_key (al_job sample_alert) (al_kind sample_alert)) = key_kind ALERT_LAST" by (rule arg_cong)
    then show False by simp
  qed
  have scan: "bm_scan ALERT alert_store = [(alert_key (al_job sample_alert) (al_kind sample_alert), encode_alert sample_alert)]"
    unfolding alert_store_def by (rule bm_scan_insert_only) (simp_all add: bm_scan_def)
  have last: "bm_get alert_store ALERT_LAST = None"
    unfolding alert_store_def using k by simp
  have "wp False (next_alerts policy_default 5) (\<lambda>r _. r \<noteq> None) (\<lambda>_ _. False) alert_store"
    unfolding next_alerts_def ready_alerts_def Let_def
    apply (intro wp_then)
    apply (simp add: wp_simps last)
    apply (intro wp_then)
    apply (simp add: wp_simps scan)
    apply (intro wp_then)
    apply (simp add: wp_simps decode_encode_alert [OF sample_alert_wf])
    apply (simp add: sample_alert_def policy_default_def alert_policy_default_def sat_i64_def wp_simps wp_then)
    done
  from run_total [of _ _ "\<lparr>entries = alert_store, script = []\<rparr>", simplified, OF this] obtain b s'
    where t: "next_alerts policy_default 5 \<lparr>entries = alert_store, script = []\<rparr> = (Inr (Some b), s')" by (metis prod.collapse option.exhaust)
  from alert_batch_bounded [OF t] ok t show ?thesis by simp
qed

theorem job_roundtrip_witness:
  "decode_job (j_id (sample_job Done)) (encode_job (sample_job Done)) = Inr (sample_job Done) \<and>
   decode_job (j_id (sample_job Done)) (encode_job (sample_job Done) @ [0]) = Inl (Corrupt TrailingBytes)"
  using job_roundtrip [OF job_okD(1) [OF sample_ok]] by blast

theorem index_order_witness:
  "index_key ((sample_job Ready)\<lparr>j_priority := 5\<rparr>) STATE_READY < index_key (sample_job Ready) STATE_READY"
proof -
  have "job_ok ((sample_job Ready)\<lparr>j_priority := 5\<rparr>)"
    using sample_ok [of Ready] by (auto simp: job_ok_def job_wf_def)
  moreover have "before ((sample_job Ready)\<lparr>j_priority := 5\<rparr>) (sample_job Ready)"
    by (simp add: before_def sample_job_def)
  ultimately show ?thesis
    using index_order [of "(sample_job Ready)\<lparr>j_priority := 5\<rparr>" "sample_job Ready" STATE_READY STATE_READY] sample_ok
    by simp
qed

end
