(* ===== verification/Text.thy ===== *)
theory Text
  imports Bytes
begin

text \<open>
  Text as the sources build and take it apart: splitting at a separator, joining, prefixes that end
  at a separator, decimal numerals and their zero-padded form.
\<close>

section \<open>Splitting\<close>

text \<open>\<open>str::split(c)\<close>: the pieces between separators, at least one.\<close>

fun split_on :: "'a \<Rightarrow> 'a list \<Rightarrow> 'a list list" where
  "split_on c [] = [[]]"
| "split_on c (x # s) = (if x = c then [] # split_on c s
     else (x # hd (split_on c s)) # tl (split_on c s))"

fun join_with :: "'a \<Rightarrow> 'a list list \<Rightarrow> 'a list" where
  "join_with c [] = []"
| "join_with c [w] = w"
| "join_with c (w # ws) = w @ c # join_with c ws"

lemma split_on_nonempty [simp]: "split_on c s \<noteq> []"
  by (cases s) auto

lemma join_cons [simp]: "ws \<noteq> [] \<Longrightarrow> join_with c (w # ws) = w @ c # join_with c ws"
  by (cases ws) auto

lemma join_split [simp]: "join_with c (split_on c s) = s"
proof (induction s)
  case (Cons x s)
  obtain w ws where s: "split_on c s = w # ws" by (cases "split_on c s") auto
  with Cons show ?case by (cases ws) auto
qed simp

lemma split_on_append [simp]: "split_on c (a @ c # b) = split_on c a @ split_on c b"
  by (induction a) auto

lemma split_on_free: "c \<notin> set s \<Longrightarrow> split_on c s = [s]"
  by (induction s) auto

lemma split_on_pieces: "w \<in> set (split_on c s) \<Longrightarrow> c \<notin> set w"
proof (induction s arbitrary: w)
  case (Cons x s)
  obtain v vs where s: "split_on c s = v # vs" by (cases "split_on c s") auto
  with Cons show ?case by (auto split: if_splits)
qed simp

lemma split_join: "ws \<noteq> [] \<Longrightarrow> \<forall>w \<in> set ws. c \<notin> set w \<Longrightarrow> split_on c (join_with c ws) = ws"
  by (induction c ws rule: join_with.induct) (auto simp: split_on_free)

lemma set_split_on: "\<Union> (set ` set (split_on c s)) = set s - {c}"
proof (induction s)
  case (Cons x s)
  obtain v vs where s: "split_on c s = v # vs" by (cases "split_on c s") auto
  with Cons show ?case by auto
qed simp

lemma split_on_inj: "split_on c s = split_on c t \<longleftrightarrow> s = t"
  by (metis join_split)

text \<open>A prefix that ends where a separator follows is a proper prefix of the pieces.\<close>

lemma split_on_prefix: "prefix (p @ [c]) t \<longleftrightarrow> strict_prefix (split_on c p) (split_on c t)"
proof
  assume "prefix (p @ [c]) t"
  then obtain r where "t = p @ c # r" by (auto simp: prefix_def)
  then show "strict_prefix (split_on c p) (split_on c t)" by (simp add: strict_prefix_def)
next
  assume "strict_prefix (split_on c p) (split_on c t)"
  then obtain ws where t: "split_on c t = split_on c p @ ws" "ws \<noteq> []"
    by (auto simp: strict_prefix_def prefix_def)
  have "\<forall>w \<in> set ws. c \<notin> set w" using t(1) split_on_pieces [of _ c t] by auto
  then have "split_on c t = split_on c (p @ c # join_with c ws)" using t split_join [OF t(2)] by simp
  then show "prefix (p @ [c]) t" unfolding split_on_inj by (simp add: prefix_def)
qed

section \<open>Decimal numerals\<close>

fun dec :: "nat \<Rightarrow> str" where
  [std_simps]: "dec n = (if n < 10 then [48 + n] else dec (n div 10) @ [48 + n mod 10])"

declare dec.simps [simp del]

text \<open>\<open>{:0w}\<close>: padded with zeros to a width.\<close>

definition pad0 :: "nat \<Rightarrow> str \<Rightarrow> str" where
  [std_simps]: "pad0 w s = replicate (w - length s) 48 @ s"

fun digits :: "nat \<Rightarrow> nat \<Rightarrow> str" where
  "digits 0 n = []"
| "digits (Suc w) n = digits w (n div 10) @ [48 + n mod 10]"

lemma length_digits [simp]: "length (digits w n) = w"
  by (induction w arbitrary: n) simp_all

lemma digits_0: "digits w 0 = replicate w 48"
  by (induction w) (simp_all add: replicate_append_same)

lemma length_dec: "n < 10 ^ Suc w \<Longrightarrow> length (dec n) \<le> Suc w"
proof (induction w arbitrary: n)
  case 0
  then show ?case by (simp add: dec.simps)
next
  case (Suc w)
  have "n div 10 < 10 ^ Suc w" using Suc.prems by (simp add: less_mult_imp_div_less mult.commute)
  then have "length (dec (n div 10)) \<le> Suc w" by (rule Suc.IH)
  then show ?case by (subst dec.simps) simp
qed

lemma pad0_dec: "n < 10 ^ Suc w \<Longrightarrow> pad0 (Suc w) (dec n) = digits (Suc w) n"
proof (induction w arbitrary: n)
  case 0
  then show ?case by (simp add: dec.simps pad0_def)
next
  case (Suc w)
  show ?case
  proof (cases "n < 10")
    case True
    then show ?thesis
      by (simp add: dec.simps pad0_def digits_0 replicate_append_same)
  next
    case False
    have lt: "n div 10 < 10 ^ Suc w" using Suc.prems by (simp add: less_mult_imp_div_less mult.commute)
    have d: "dec n = dec (n div 10) @ [48 + n mod 10]" using False by (subst dec.simps) simp
    have "pad0 (Suc (Suc w)) (dec n) = pad0 (Suc w) (dec (n div 10)) @ [48 + n mod 10]"
      using length_dec [OF lt] unfolding d by (simp add: pad0_def Suc_diff_le)
    with Suc.IH [OF lt] show ?thesis by (simp del: digits.simps) simp
  qed
qed

lemma digits_mod: "digits w (n mod 10 ^ w) = digits w n"
proof (induction w arbitrary: n)
  case (Suc w)
  have "n mod (10 * 10 ^ w) = 10 * (n div 10 mod 10 ^ w) + n mod 10" by (rule mod_mult2_eq)
  then show ?case using Suc.IH [of "n div 10"] by simp
qed simp

lemma ascii_digit: "utf8_char (48 + n mod 10) = [of_nat (48 + n mod 10)]"
proof -
  have "48 + n mod 10 < 128" using mod_less_divisor [of 10 n] by linarith
  then show ?thesis by (simp add: utf8_char_def)
qed

lemma utf8_digits_Suc: "utf8 (digits (Suc w) n) = utf8 (digits w (n div 10)) @ [of_nat (48 + n mod 10)]"
  by (simp add: ascii_digit del: of_nat_add)

lemma length_utf8_digits [simp]: "length (utf8 (digits w n)) = w"
  by (induction w arbitrary: n) (simp_all add: ascii_digit)

lemma digit_byte: "unat (of_nat (48 + n mod 10) :: byte) = 48 + n mod 10"
  using mod_less_divisor [of 10 n] by (intro unat_byte) linarith

lemma div10_less: "(a :: nat) div 10 < b div 10 \<or> a div 10 = b div 10 \<and> a mod 10 < b mod 10 \<longleftrightarrow> a < b"
proof -
  have "a mod 10 < 10" "b mod 10 < 10" by simp_all
  then show ?thesis using div_mult_mod_eq [of a 10] div_mult_mod_eq [of b 10] by linarith
qed

lemma utf8_digits_inj: "a < 10 ^ w \<Longrightarrow> b < 10 ^ w \<Longrightarrow> utf8 (digits w a) = utf8 (digits w b) \<longleftrightarrow> a = b"
proof (induction w arbitrary: a b)
  case (Suc w)
  have d: "a div 10 < 10 ^ w" "b div 10 < 10 ^ w"
    using Suc.prems by (simp_all add: less_mult_imp_div_less mult.commute)
  have m: "(of_nat (48 + a mod 10) :: byte) = of_nat (48 + b mod 10) \<longleftrightarrow> a mod 10 = b mod 10"
    by (metis add_left_cancel digit_byte)
  show ?case
    unfolding utf8_digits_Suc append1_eq_conv using Suc.IH [OF d] m by (metis div_mult_mod_eq)
qed simp

lemma utf8_digits_less: "a < 10 ^ w \<Longrightarrow> b < 10 ^ w \<Longrightarrow> utf8 (digits w a) < utf8 (digits w b) \<longleftrightarrow> a < b"
proof (induction w arbitrary: a b)
  case (Suc w)
  have d: "a div 10 < 10 ^ w" "b div 10 < 10 ^ w"
    using Suc.prems by (simp_all add: less_mult_imp_div_less mult.commute)
  have m: "(of_nat (48 + a mod 10) :: byte) < of_nat (48 + b mod 10) \<longleftrightarrow> a mod 10 < b mod 10"
    by (simp only: word_less_nat_alt digit_byte) simp
  show ?case
    unfolding utf8_digits_Suc
    using Suc.IH [OF d] utf8_digits_inj [OF d] m div10_less [of a b]
    by (simp add: append_less_length del: of_nat_add)
qed simp

text \<open>\<open>{:020}\<close> of a \<open>u64\<close>: the byte order of the numerals is the order of the numbers.\<close>

definition dec020 :: "nat \<Rightarrow> str" where
  [std_simps]: "dec020 n = pad0 20 (dec n)"

lemma dec020_digits: "n \<le> u64_max \<Longrightarrow> dec020 n = digits 20 n"
  unfolding dec020_def using pad0_dec [of n 19] by simp

lemma dec020_bytes:
  assumes "a \<le> u64_max" "b \<le> u64_max"
  shows "length (utf8 (dec020 a)) = 20" "utf8 (dec020 a) < utf8 (dec020 b) \<longleftrightarrow> a < b"
    "utf8 (dec020 a) = utf8 (dec020 b) \<longleftrightarrow> a = b"
  using assms utf8_digits_less [of a 20 b] utf8_digits_inj [of a 20 b] by (simp_all add: dec020_digits)

section \<open>ASCII\<close>

definition ascii :: "str \<Rightarrow> bool" where
  "ascii s \<longleftrightarrow> (\<forall>c \<in> set s. c < 128)"

lemma utf8_ascii: "ascii s \<Longrightarrow> utf8 s = map of_nat s"
  by (induction s) (simp_all add: ascii_def utf8_char_def)

lemma ascii_valid: "ascii s \<Longrightarrow> valid_str s"
  by (auto simp: ascii_def valid_str_def valid_char_def)

lemma length_utf8_ascii: "ascii s \<Longrightarrow> length (utf8 s) = length s"
  by (simp add: utf8_ascii)

lemma length_utf8_ge: "length s \<le> length (utf8 s)"
  by (induction s) (auto simp: utf8_char_def)

lemma unat_ascii: "c < 128 \<Longrightarrow> unat (of_nat c :: byte) = c"
  by (rule unat_byte) simp

lemma is_alnum_ascii: "is_alnum c \<Longrightarrow> c < 128"
  by (auto simp: is_alnum_def)

section \<open>Reading numerals\<close>

text \<open>\<open>parse::<uN>\<close>: an optional plus, then digits, of a value that fits.\<close>

definition dec_value :: "str \<Rightarrow> nat" where
  "dec_value s = foldl (\<lambda>n c. n * 10 + (c - 48)) 0 s"

definition parse_nat :: "nat \<Rightarrow> str \<Rightarrow> nat option" where
  "parse_nat most s =
    (let ds = (case s of c # r \<Rightarrow> if c = 43 then r else s | [] \<Rightarrow> []) in
     if ds = [] \<or> \<not> list_all (\<lambda>c. 48 \<le> c \<and> c \<le> 57) ds \<or> dec_value ds > most then None else Some (dec_value ds))"

lemma dec_value_dec: "dec_value (dec n) = n"
proof (induction n rule: dec.induct)
  case (1 n)
  then show ?case by (subst dec.simps) (auto simp: dec_value_def)
qed

lemma dec_inj: "dec a = dec b \<longleftrightarrow> a = b"
  by (metis dec_value_dec)

lemma dec_digits: "dec n \<noteq> [] \<and> (\<forall>c \<in> set (dec n). 48 \<le> c \<and> c \<le> 57)"
proof (induction n rule: dec.induct)
  case (1 n)
  then show ?case by (subst (1 2) dec.simps) auto
qed

lemma parse_dec: "n \<le> most \<Longrightarrow> parse_nat most (dec n) = Some n"
proof -
  assume "n \<le> most"
  moreover have "(case dec n of c # r \<Rightarrow> if c = 43 then r else dec n | [] \<Rightarrow> []) = dec n"
    using dec_digits [of n] by (auto split: list.split)
  ultimately show ?thesis
    using dec_digits [of n] by (simp add: parse_nat_def dec_value_dec list_all_iff)
qed

lemma dec_ascii: "ascii (dec n)"
  using dec_digits [of n] by (auto simp: ascii_def)

section \<open>Hexadecimal\<close>

text \<open>Every byte as \<open>{:02x}\<close>.\<close>

definition hex_char :: "nat \<Rightarrow> rchar" where
  "hex_char n = lit ''0123456789abcdef'' ! n"

definition hex :: "bytes \<Rightarrow> str" where
  "hex bs = concat (map (\<lambda>b. [hex_char (unat b div 16), hex_char (unat b mod 16)]) bs)"

end
