(* ===== verification/BusTopic.thy ===== *)
theory BusTopic
  imports Text
begin

text \<open>
  \<open>rust/wa-bus/src/topic.rs\<close>: topics, subscription patterns, and what they mean.  A topic is a list of
  dot-separated segments; a pattern is one topic or everything under a path.
\<close>

definition MAX_SEGMENT :: nat where "MAX_SEGMENT = 64"
definition MAX_TOPIC :: nat where "MAX_TOPIC = 256"
definition MAX_SEGMENTS :: nat where "MAX_SEGMENTS = 16"

abbreviation dot :: rchar where "dot \<equiv> 46"
abbreviation star :: rchar where "star \<equiv> 42"

datatype topic_error = TopicEmpty | TopicTooLong nat | TooManySegments nat | EmptySegment
  | SegmentTooLong str nat | BadSegment str | BadWildcard

definition segment_ok :: "str \<Rightarrow> bool" where
  "segment_ok s = (let b = utf8 s; alnum = (\<lambda>c :: byte. is_alnum (unat c)) in
     if s = [] \<or> length b > MAX_SEGMENT then False
     else alnum (hd b) \<and> alnum (last b) \<and> list_all (\<lambda>c. alnum c \<or> c = 45 \<or> c = 95) b)"

definition check_topic :: "str \<Rightarrow> topic_error + unit" where
  "check_topic s =
    (if s = [] then Inl TopicEmpty
     else if length (utf8 s) > MAX_TOPIC then Inl (TopicTooLong (length (utf8 s)))
     else
       let segments = split_on dot s in
       if length segments > MAX_SEGMENTS then Inl (TooManySegments (length segments))
       else try_all (\<lambda>seg.
         if seg = [] then Inl EmptySegment
         else if length (utf8 seg) > MAX_SEGMENT then Inl (SegmentTooLong seg (length (utf8 seg)))
         else if \<not> segment_ok seg then Inl (BadSegment seg)
         else Inr ()) segments)"

datatype topic = Topic (topic_str: str)

definition topic_parse :: "str \<Rightarrow> topic_error + topic" where
  "topic_parse s = res_bind (check_topic s) (\<lambda>_. Inr (Topic s))"

definition topic_namespace :: "topic \<Rightarrow> str" where
  "topic_namespace t = takeWhile (\<lambda>c. c \<noteq> dot) (topic_str t)"

definition topic_segments :: "topic \<Rightarrow> str list" where
  "topic_segments t = split_on dot (topic_str t)"

datatype topic_pattern = Exact topic | Under str

definition strip_suffix :: "str \<Rightarrow> str \<Rightarrow> str option" where
  "strip_suffix suf s = (if suffix suf s then Some (take (length s - length suf) s) else None)"

definition pattern_parse :: "str \<Rightarrow> topic_error + topic_pattern" where
  "pattern_parse s =
    (if s = [star] then Inr (Under [])
     else case strip_suffix [dot, star] s of
       Some path \<Rightarrow>
         if star \<in> set path then Inl BadWildcard
         else res_bind (topic_parse path) (\<lambda>_. Inr (Under path))
     | None \<Rightarrow>
         if star \<in> set s then Inl BadWildcard
         else res_bind (topic_parse s) (\<lambda>t. Inr (Exact t)))"

definition pattern_all :: topic_pattern where
  "pattern_all = Under []"

fun pattern_prefix :: "topic_pattern \<Rightarrow> str" where
  "pattern_prefix (Exact t) = topic_str t"
| "pattern_prefix (Under p) = p"

text \<open>\<open>t.len() > p.len() \&\& t.starts\_with(p) \&\& t.as\_bytes()[p.len()] == b'.'\<close>\<close>

definition dotted_under :: "str \<Rightarrow> str \<Rightarrow> bool" where
  "dotted_under p t \<longleftrightarrow> length (utf8 t) > length (utf8 p) \<and> prefix (utf8 p) (utf8 t) \<and>
     utf8 t ! length (utf8 p) = 46"

fun topic_in :: "topic_pattern \<Rightarrow> topic \<Rightarrow> bool" where
  "topic_in (Exact t) topic = (t = topic)"
| "topic_in (Under p) topic = (p = [] \<or> dotted_under p (topic_str topic))"

definition topic_matches :: "topic \<Rightarrow> topic_pattern \<Rightarrow> bool" where
  "topic_matches t p = topic_in p t"

fun covers :: "topic_pattern \<Rightarrow> topic_pattern \<Rightarrow> bool" where
  "covers (Exact a) (Exact b) = (a = b)"
| "covers (Exact a) (Under q) = False"
| "covers (Under p) (Exact t) = topic_in (Under p) t"
| "covers (Under p) (Under q) = (p = [] \<or> q = p \<or> dotted_under p q)"

fun as_written :: "topic_pattern \<Rightarrow> str" where
  "as_written (Exact t) = topic_str t"
| "as_written (Under p) = (if p = [] then [star] else p @ [dot, star])"

section \<open>Valid topics\<close>

definition topic_wf :: "topic \<Rightarrow> bool" where
  "topic_wf t \<longleftrightarrow> length (topic_str t) \<le> MAX_TOPIC \<and> length (topic_segments t) \<le> MAX_SEGMENTS \<and>
     (\<forall>seg \<in> set (topic_segments t). seg \<noteq> [] \<and> length seg \<le> MAX_SEGMENT \<and> is_alnum (hd seg) \<and>
        is_alnum (last seg) \<and> (\<forall>c \<in> set seg. is_alnum c \<or> c = 45 \<or> c = 95))"

fun pattern_wf :: "topic_pattern \<Rightarrow> bool" where
  "pattern_wf (Exact t) = topic_wf t"
| "pattern_wf (Under p) = (p = [] \<or> topic_wf (Topic p))"

lemma high_bytes: "valid_char c \<Longrightarrow> \<not> c < 128 \<Longrightarrow> b \<in> set (utf8_char c) \<Longrightarrow> 128 \<le> unat b"
proof -
  assume v: "valid_char c" "\<not> c < 128" and b: "b \<in> set (utf8_char c)"
  have lt: "c < 1114112" using v by (auto simp: valid_char_def)
  have low: "128 \<le> unat (of_nat (k + m) :: byte)" if "k \<in> {128, 192, 224, 240}" "m < 64" "k + m < 256" for k m
    using that by (subst unat_byte) auto
  have d: "c < 2048 \<Longrightarrow> c div 64 < 32" "c < 65536 \<Longrightarrow> c div 4096 < 16" "c div 262144 < 8"
    using lt by (simp_all add: div_less_iff_less_mult)
  have m: "x mod 64 < 64" for x :: nat by simp
  consider "c < 2048" | "\<not> c < 2048" "c < 65536" | "\<not> c < 65536" by blast
  then show ?thesis
  proof cases
    case 1
    with b v(2) have "b = of_nat (192 + c div 64) \<or> b = of_nat (128 + c mod 64)"
      by (auto simp: utf8_char_def)
    with low [of 192 "c div 64"] low [of 128 "c mod 64"] d(1) [OF 1] m [of c] show ?thesis by auto
  next
    case 2
    with b v(2) have "b = of_nat (224 + c div 4096) \<or> b = of_nat (128 + c div 64 mod 64) \<or> b = of_nat (128 + c mod 64)"
      by (auto simp: utf8_char_def)
    with low [of 224 "c div 4096"] low [of 128 "c div 64 mod 64"] low [of 128 "c mod 64"] d(2) [OF 2(2)]
      m [of c] m [of "c div 64"] show ?thesis by auto
  next
    case 3
    with b v(2) have "b = of_nat (240 + c div 262144) \<or> b = of_nat (128 + c div 4096 mod 64) \<or>
        b = of_nat (128 + c div 64 mod 64) \<or> b = of_nat (128 + c mod 64)"
      by (auto simp: utf8_char_def)
    with low [of 240 "c div 262144"] low [of 128 "c div 4096 mod 64"] low [of 128 "c div 64 mod 64"]
      low [of 128 "c mod 64"] d(3) m [of c] m [of "c div 64"] m [of "c div 4096"]
    show ?thesis by auto
  qed
qed

lemma utf8_low_ascii:
  assumes "valid_str s" "\<forall>b \<in> set (utf8 s). unat b < 128"
  shows "ascii s"
  unfolding ascii_def
proof
  fix c
  assume c: "c \<in> set s"
  then have sub: "set (utf8_char c) \<subseteq> set (utf8 s)" by (auto simp: utf8_def)
  have v: "valid_char c" using assms(1) c by (simp add: valid_str_def)
  obtain b where b: "b \<in> set (utf8_char c)" using utf8_char_nonempty [of c] by (metis list.set_intros(1) neq_Nil_conv)
  show "c < 128"
    using high_bytes [OF v _ b] assms(2) sub b by fastforce
qed

lemma segment_ok_iff:
  assumes "valid_str s"
  shows "segment_ok s \<longleftrightarrow> s \<noteq> [] \<and> length s \<le> MAX_SEGMENT \<and> is_alnum (hd s) \<and> is_alnum (last s) \<and>
    (\<forall>c \<in> set s. is_alnum c \<or> c = 45 \<or> c = 95)"
proof -
  let ?P = "\<lambda>c :: byte. is_alnum (unat c) \<or> c = 45 \<or> c = 95"
  have asc: "ascii s" if "\<forall>b \<in> set (utf8 s). ?P b \<or> is_alnum (unat b)"
    using that is_alnum_ascii by (intro utf8_low_ascii [OF assms]) fastforce
  have asc2: "ascii s" if "\<forall>c \<in> set s. is_alnum c \<or> c = 45 \<or> c = 95"
    using that is_alnum_ascii by (auto simp: ascii_def)
  show ?thesis
  proof (cases "ascii s")
    case True
    then have u: "utf8 s = map of_nat s" and lt: "\<And>c. c \<in> set s \<Longrightarrow> c < 128"
      by (simp_all add: utf8_ascii ascii_def)
    have b: "(of_nat c :: byte) = 45 \<longleftrightarrow> c = 45" "(of_nat c :: byte) = 95 \<longleftrightarrow> c = 95" "unat (of_nat c :: byte) = c"
      if "c \<in> set s" for c
    proof -
      show e: "unat (of_nat c :: byte) = c" by (rule unat_ascii [OF lt [OF that]])
      show "(of_nat c :: byte) = 45 \<longleftrightarrow> c = 45" "(of_nat c :: byte) = 95 \<longleftrightarrow> c = 95"
        using e by (auto simp: word_unat_eq_iff)
    qed
    show ?thesis
      by (cases "s = []") (auto simp: segment_ok_def Let_def u list_all_iff hd_map last_map b list.set_sel last_in_set)
  next
    case False
    then show ?thesis using asc asc2 by (auto simp: segment_ok_def Let_def list_all_iff)
  qed
qed

lemma valid_pieces: "valid_str s \<Longrightarrow> w \<in> set (split_on c s) \<Longrightarrow> valid_str w"
  using set_split_on [of c s] by (auto simp: valid_str_def)

lemma topic_wf_ascii: "topic_wf t \<Longrightarrow> ascii (topic_str t)"
proof -
  assume wf: "topic_wf t"
  have "c < 128" if "c \<in> set (topic_str t)" for c
  proof (cases "c = dot")
    case False
    then have "c \<in> \<Union> (set ` set (topic_segments t))"
      using that set_split_on [of dot "topic_str t"] by (simp add: topic_segments_def)
    with wf show ?thesis using is_alnum_ascii by (fastforce simp: topic_wf_def)
  qed simp
  then show ?thesis by (simp add: ascii_def)
qed

lemma topic_wf_nonempty: "topic_wf t \<Longrightarrow> topic_str t \<noteq> []"
  by (auto simp: topic_wf_def topic_segments_def)

lemma check_topic_iff:
  assumes "valid_str s"
  shows "check_topic s = Inr () \<longleftrightarrow> topic_wf (Topic s)"
proof -
  have seg: "length (utf8 w) = length w" if "segment_ok w" "valid_str w" for w
  proof -
    have "ascii w" using that is_alnum_ascii by (fastforce simp: segment_ok_iff ascii_def)
    then show ?thesis by (rule length_utf8_ascii)
  qed
  have all: "(if w = [] then Inl EmptySegment else if length (utf8 w) > MAX_SEGMENT then Inl (SegmentTooLong w (length (utf8 w)))
      else if \<not> segment_ok w then Inl (BadSegment w) else Inr ()) = Inr () \<longleftrightarrow>
      w \<noteq> [] \<and> length w \<le> MAX_SEGMENT \<and> is_alnum (hd w) \<and> is_alnum (last w) \<and> (\<forall>c \<in> set w. is_alnum c \<or> c = 45 \<or> c = 95)"
    if "valid_str w" for w
    using segment_ok_iff [OF that] seg [OF _ that] by auto
  have ok: "check_topic s = Inr () \<longleftrightarrow> s \<noteq> [] \<and> length (utf8 s) \<le> MAX_TOPIC \<and> length (split_on dot s) \<le> MAX_SEGMENTS \<and>
      (\<forall>w \<in> set (split_on dot s). w \<noteq> [] \<and> length w \<le> MAX_SEGMENT \<and> is_alnum (hd w) \<and> is_alnum (last w) \<and>
        (\<forall>c \<in> set w. is_alnum c \<or> c = 45 \<or> c = 95))"
    using all [OF valid_pieces [OF assms]] by (auto simp: check_topic_def Let_def try_all_Inr)
  also have "\<dots> \<longleftrightarrow> topic_wf (Topic s)"
    using length_utf8_ge [of s] topic_wf_ascii [of "Topic s"] topic_wf_nonempty [of "Topic s"] length_utf8_ascii [of s]
    by (auto simp: topic_wf_def topic_segments_def)
  finally show ?thesis .
qed

lemma topic_parse_iff: "valid_str s \<Longrightarrow> topic_parse s = Inr t \<longleftrightarrow> t = Topic s \<and> topic_wf t"
  using check_topic_iff [of s] by (auto simp: topic_parse_def res_bind_Inr)

section \<open>What patterns mean\<close>

lemma prefix_next: "length p < length t \<and> prefix p t \<and> t ! length p = c \<longleftrightarrow> prefix (p @ [c]) t"
proof
  assume a: "length p < length t \<and> prefix p t \<and> t ! length p = c"
  then obtain r where t: "t = p @ r" by (auto simp: prefix_def)
  with a obtain r' where "r = c # r'" by (cases r) auto
  with t show "prefix (p @ [c]) t" by (simp add: prefix_def)
qed (auto simp: prefix_def)

lemma map_ascii_inj: "ascii s \<Longrightarrow> ascii t \<Longrightarrow> map (of_nat :: nat \<Rightarrow> byte) s = map of_nat t \<longleftrightarrow> s = t"
proof (induction s arbitrary: t)
  case (Cons c s)
  have "(of_nat c :: byte) = of_nat d \<longleftrightarrow> c = d" if "c < 128" "d < 128" for c d
    by (metis that unat_ascii)
  with Cons show ?case by (cases t) (auto simp: ascii_def)
qed auto

lemma ascii_append [simp]: "ascii (s @ t) \<longleftrightarrow> ascii s \<and> ascii t"
  by (auto simp: ascii_def)

lemma prefix_utf8:
  assumes "ascii p" "ascii t"
  shows "prefix (utf8 p) (utf8 t) \<longleftrightarrow> prefix p t"
proof
  assume "prefix (utf8 p) (utf8 t)"
  then obtain r where r: "map of_nat t = map (of_nat :: nat \<Rightarrow> byte) p @ r"
    using assms by (auto simp: utf8_ascii prefix_def)
  then have "map (of_nat :: nat \<Rightarrow> byte) (take (length p) t) = map of_nat p"
    by (metis append_eq_conv_conj length_map take_map)
  moreover have "ascii (take (length p) t)" using assms(2) by (auto simp: ascii_def dest: in_set_takeD)
  ultimately have "take (length p) t = p" using assms(1) map_ascii_inj by blast
  then show "prefix p t" by (metis take_is_prefix)
next
  assume "prefix p t"
  then show "prefix (utf8 p) (utf8 t)" by (auto simp: prefix_def)
qed

lemma dotted_under_iff:
  assumes "ascii p" "ascii t"
  shows "dotted_under p t \<longleftrightarrow> strict_prefix (split_on dot p) (split_on dot t)"
proof -
  have d: "(of_nat c :: byte) = 46 \<longleftrightarrow> c = dot" if "c < 128" for c
    using unat_ascii [OF that] by (auto simp: word_unat_eq_iff)
  have "utf8 t ! length p = 46 \<longleftrightarrow> t ! length p = dot" if "length p < length t"
    using that d [of "t ! length p"] assms(2) by (simp add: utf8_ascii ascii_def)
  then have "dotted_under p t \<longleftrightarrow> length p < length t \<and> prefix p t \<and> t ! length p = dot"
    using assms by (auto simp: dotted_under_def length_utf8_ascii prefix_utf8)
  then show ?thesis by (simp only: prefix_next split_on_prefix)
qed

lemma wf_not_empty_path: "topic_wf (Topic a) \<Longrightarrow> \<not> prefix (split_on dot a) (split_on dot [])"
proof
  assume wf: "topic_wf (Topic a)" and "prefix (split_on dot a) (split_on dot [])"
  then have "split_on dot a = [[]]" by (cases "split_on dot a") auto
  with wf show False by (simp add: topic_wf_def topic_segments_def)
qed

lemma pattern_ascii: "pattern_wf (Under p) \<Longrightarrow> ascii p"
  using topic_wf_ascii [of "Topic p"] by (auto simp: ascii_def)

fun pattern_admits :: "topic_pattern \<Rightarrow> str list \<Rightarrow> bool" where
  "pattern_admits (Exact t) segs = (segs = topic_segments t)"
| "pattern_admits (Under p) segs = (p = [] \<or> strict_prefix (split_on dot p) segs)"

lemma topic_in_admits:
  assumes "pattern_wf p" "topic_wf t"
  shows "topic_in p t \<longleftrightarrow> pattern_admits p (topic_segments t)"
proof (cases p)
  case (Exact u)
  then show ?thesis by (cases t; cases u) (auto simp: topic_segments_def split_on_inj)
next
  case (Under q)
  then show ?thesis
    using assms pattern_ascii [of q] topic_wf_ascii [of t] by (auto simp: dotted_under_iff topic_segments_def)
qed

lemma covers_Under: "pattern_wf (Under p) \<Longrightarrow> pattern_wf (Under q) \<Longrightarrow> p \<noteq> [] \<Longrightarrow>
    covers (Under p) (Under q) \<longleftrightarrow> prefix (split_on dot p) (split_on dot q)"
  using pattern_ascii [of p] pattern_ascii [of q]
  by (auto simp: dotted_under_iff strict_prefix_def split_on_inj)

lemma covers_sound:
  assumes "pattern_wf p" "pattern_wf q" "topic_wf t" "covers p q" "topic_in q t"
  shows "topic_in p t"
proof (cases "p = Under []")
  case False
  show ?thesis
  proof (cases q)
    case (Exact u)
    with assms show ?thesis by (cases p) auto
  next
    case q: (Under b)
    with assms(4) obtain a where p: "p = Under a" by (cases p) auto
    with False have a: "a \<noteq> []" by simp
    have pre: "prefix (split_on dot a) (split_on dot b)" using assms p q covers_Under [of a b] a by simp
    have "b \<noteq> []" using pre a wf_not_empty_path [of a] assms(1) p by auto
    then have "strict_prefix (split_on dot b) (topic_segments t)"
      using assms q topic_in_admits [of q t] by simp
    with pre have "strict_prefix (split_on dot a) (topic_segments t)" by (rule prefix_order.le_less_trans)
    then show ?thesis using topic_in_admits [OF assms(1,3)] p by simp
  qed
qed simp

text \<open>A path that can be extended by one more segment.\<close>

fun has_room :: "topic_pattern \<Rightarrow> bool" where
  "has_room (Exact t) = True"
| "has_room (Under q) = (length q + 2 \<le> MAX_TOPIC \<and> length (split_on dot q) < MAX_SEGMENTS)"

lemma extend_wf:
  assumes "topic_wf (Topic q)" "has_room (Under q)" "is_alnum c"
  shows "topic_wf (Topic (q @ [dot, c]))"
proof -
  have "split_on dot (q @ [dot, c]) = split_on dot q @ [[c]]"
    using split_on_append [of dot q "[c]"] assms(3) by (auto simp: is_alnum_def)
  then show ?thesis using assms by (auto simp: topic_wf_def topic_segments_def MAX_SEGMENT_def)
qed

lemma letter_wf: "c \<noteq> dot \<Longrightarrow> is_alnum c \<Longrightarrow> topic_wf (Topic [c])"
  by (simp add: topic_wf_def topic_segments_def MAX_SEGMENT_def MAX_TOPIC_def MAX_SEGMENTS_def)

lemma covers_complete:
  assumes "pattern_wf p" "pattern_wf q" "has_room q" "\<And>t. topic_wf t \<Longrightarrow> topic_in q t \<Longrightarrow> topic_in p t"
  shows "covers p q"
proof (cases q)
  case (Exact u)
  then have "topic_in p u" using assms(2,4) by simp
  then show ?thesis using Exact by (cases p) auto
next
  case q: (Under b)
  define ext where "ext c = Topic (if b = [] then [c] else b @ [dot, c])" for c
  have ext: "topic_wf (ext c)" "topic_in q (ext c)" if "c \<in> {97, 98}" for c
  proof -
    have c: "is_alnum c" "c \<noteq> dot" using that by (auto simp: is_alnum_def)
    show wf: "topic_wf (ext c)"
      using assms(2,3) q c extend_wf [of b c] letter_wf [of c] by (auto simp: ext_def)
    have "strict_prefix (split_on dot b) (topic_segments (ext c))" if "b \<noteq> []"
      using that split_on_append [of dot b "[c]"] by (simp add: ext_def topic_segments_def strict_prefix_def)
    then show "topic_in q (ext c)"
      using topic_in_admits [OF assms(2) wf] q by auto
  qed
  have segs: "topic_segments (ext c) = (if b = [] then [] else split_on dot b) @ [[c]]" if "c \<in> {97, 98}" for c
    using that split_on_append [of dot b "[c]"] by (auto simp: ext_def topic_segments_def)
  have "topic_in p (ext 97)" "topic_in p (ext 98)" using ext assms(4) by simp_all
  then have adm: "pattern_admits p (topic_segments (ext 97))" "pattern_admits p (topic_segments (ext 98))"
    using topic_in_admits [OF assms(1)] ext by auto
  show ?thesis
  proof (cases p)
    case (Exact u)
    then have "topic_segments (ext 97) = topic_segments (ext 98)" using adm by simp
    then show ?thesis using segs [of 97] segs [of 98] by simp
  next
    case p: (Under a)
    show ?thesis
    proof (cases "a = []")
      case False
      then have s: "strict_prefix (split_on dot a) ((if b = [] then [] else split_on dot b) @ [[97]])"
        using adm(1) segs p by simp
      then have pre: "prefix (split_on dot a) (if b = [] then [] else split_on dot b)"
        unfolding strict_prefix_def prefix_snoc by blast
      then have "b \<noteq> []" by (auto split: if_splits)
      with pre show ?thesis using covers_Under [of a b] assms(1,2) p q False by simp
    qed (simp add: p q)
  qed
qed

lemma covers_refl: "covers p p"
  by (cases p) auto

lemma covers_trans:
  assumes "pattern_wf p" "pattern_wf q" "pattern_wf r" "covers p q" "covers q r"
  shows "covers p r"
proof (cases r)
  case (Exact t)
  have "topic_in q t" using assms(5) Exact by (cases q) auto
  then have "topic_in p t" using covers_sound [OF assms(1,2) _ assms(4)] assms(3) Exact by simp
  then show ?thesis using Exact by (cases p) auto
next
  case r: (Under c)
  with assms(5) obtain b where q: "q = Under b" by (cases q) auto
  with assms(4) obtain a where p: "p = Under a" by (cases p) auto
  show ?thesis
  proof (cases "a = []")
    case False
    then have pre: "prefix (split_on dot a) (split_on dot b)" using assms p q covers_Under by simp
    have "b \<noteq> []" using pre False wf_not_empty_path [of a] assms(1) p by auto
    then have "prefix (split_on dot b) (split_on dot c)" using assms q r covers_Under by simp
    with pre show ?thesis using covers_Under [of a c] assms p r False by (simp add: prefix_order.trans)
  qed (simp add: p r)
qed

section \<open>Reading and writing patterns\<close>

lemma topic_chars: "topic_wf t \<Longrightarrow> c \<in> set (topic_str t) \<Longrightarrow> c = dot \<or> is_alnum c \<or> c = 45 \<or> c = 95"
proof -
  assume wf: "topic_wf t" and c: "c \<in> set (topic_str t)"
  show "c = dot \<or> is_alnum c \<or> c = 45 \<or> c = 95"
  proof (cases "c = dot")
    case False
    then obtain w where "w \<in> set (split_on dot (topic_str t))" "c \<in> set w"
      using c set_split_on [of dot "topic_str t"] by blast
    then show ?thesis using wf unfolding topic_wf_def topic_segments_def by blast
  qed simp
qed

lemma topic_no_star: "topic_wf t \<Longrightarrow> star \<notin> set (topic_str t)"
  using topic_chars [of t star] by (auto simp: is_alnum_def)

lemma topic_parse_wf: "topic_wf t \<Longrightarrow> topic_parse (topic_str t) = Inr t"
  using topic_parse_iff [OF ascii_valid [OF topic_wf_ascii [of t]], of t] by (cases t) simp

lemma strip_suffix_Some: "strip_suffix suf s = Some p \<longleftrightarrow> s = p @ suf"
  by (auto simp: strip_suffix_def suffix_def)

lemma strip_suffix_None: "strip_suffix suf s = None \<longleftrightarrow> \<not> suffix suf s"
  by (simp add: strip_suffix_def)

lemma pattern_parse_written: "pattern_wf p \<Longrightarrow> pattern_parse (as_written p) = Inr p"
proof (cases p)
  case (Exact t)
  assume "pattern_wf p"
  then have t: "topic_wf t" using Exact by simp
  then have "star \<notin> set (topic_str t)" by (rule topic_no_star)
  moreover from this have "topic_str t \<noteq> [star]" "strip_suffix [dot, star] (topic_str t) = None"
    by (auto simp: strip_suffix_None suffix_def)
  ultimately show ?thesis by (simp add: Exact pattern_parse_def topic_parse_wf [OF t])
next
  case (Under q)
  assume wf: "pattern_wf p"
  show ?thesis
  proof (cases "q = []")
    case False
    then have t: "topic_wf (Topic q)" using wf Under by simp
    have "strip_suffix [dot, star] (q @ [dot, star]) = Some q" by (simp add: strip_suffix_Some)
    then show ?thesis
      using False topic_no_star [OF t] topic_parse_wf [OF t] by (simp add: Under pattern_parse_def)
  qed (simp add: Under pattern_parse_def)
qed

lemma pattern_parse_Inr:
  assumes "pattern_parse s = Inr p" "valid_str s"
  shows "pattern_wf p" "as_written p = s"
proof -
  have "pattern_wf p \<and> as_written p = s"
  proof (cases "s = [star]")
    case False
    show ?thesis
    proof (cases "strip_suffix [dot, star] s")
      case None
      with assms False show ?thesis
        by (auto simp: pattern_parse_def res_bind_Inr topic_parse_iff split: if_splits)
    next
      case (Some q)
      then have s: "s = q @ [dot, star]" by (simp add: strip_suffix_Some)
      with assms False Some show ?thesis
        using topic_wf_nonempty [of "Topic q"]
        by (auto simp: pattern_parse_def res_bind_Inr topic_parse_iff split: if_splits)
    qed
  qed (use assms in \<open>auto simp: pattern_parse_def\<close>)
  then show "pattern_wf p" "as_written p = s" by simp_all
qed

lemma namespace_hd: "topic_namespace t = hd (topic_segments t)"
proof -
  have "takeWhile (\<lambda>c. c \<noteq> d) s = hd (split_on d s)" for d :: rchar and s
    by (induction s) auto
  then show ?thesis by (simp add: topic_namespace_def topic_segments_def)
qed

end
