(* ===== verification/BusAccess.thy ===== *)
theory BusAccess
  imports BusTopic
begin

text \<open>
  \<open>rust/wa-bus/src/access.rs\<close>: who may publish and subscribe where.  The trait \<open>Access\<close> is the record of
  its two methods; a policy that answers for patterns as sets satisfies the locale \<open>access_policy\<close>.
\<close>

datatype action = Publish | Subscribe

fun action_as_str :: "action \<Rightarrow> str" where
  "action_as_str Publish = lit ''publish''"
| "action_as_str Subscribe = lit ''subscribe''"

record access =
  may_publish :: "str \<Rightarrow> topic \<Rightarrow> bool"
  may_subscribe :: "str \<Rightarrow> topic_pattern \<Rightarrow> bool"

definition allow_all :: access where
  "allow_all = \<lparr>may_publish = (\<lambda>_ _. True), may_subscribe = (\<lambda>_ _. True)\<rparr>"

definition deny_all :: access where
  "deny_all = \<lparr>may_publish = (\<lambda>_ _. False), may_subscribe = (\<lambda>_ _. False)\<rparr>"

record bus_grant =
  bg_component :: str
  bg_action :: action
  bg_pattern :: topic_pattern

type_synonym namespace_acl = "bus_grant list"

definition acl_new :: namespace_acl where
  "acl_new = []"

definition acl_grant :: "str \<Rightarrow> action \<Rightarrow> str \<Rightarrow> namespace_acl \<Rightarrow> (topic_error + unit) \<times> namespace_acl" where
  "acl_grant component action pattern acl =
    (case pattern_parse pattern of
       Inl e \<Rightarrow> (Inl e, acl)
     | Inr p \<Rightarrow>
         if component = [] then (Inl TopicEmpty, acl)
         else (Inr (), acl @ [\<lparr>bg_component = component, bg_action = action, bg_pattern = p\<rparr>]))"

definition acl_grant_both :: "str \<Rightarrow> str \<Rightarrow> namespace_acl \<Rightarrow> (topic_error + unit) \<times> namespace_acl" where
  "acl_grant_both component pattern acl =
    (case acl_grant component Publish pattern acl of
       (Inl e, acl) \<Rightarrow> (Inl e, acl)
     | (Inr _, acl) \<Rightarrow> acl_grant component Subscribe pattern acl)"

definition acl_describe :: "namespace_acl \<Rightarrow> str list" where
  "acl_describe acl = map (\<lambda>g. bg_component g @ [32] @ action_as_str (bg_action g) @ [32] @ as_written (bg_pattern g)) acl"

definition acl_granted :: "namespace_acl \<Rightarrow> str \<Rightarrow> action \<Rightarrow> topic_pattern \<Rightarrow> bool" where
  "acl_granted acl component action pattern \<longleftrightarrow> list_ex (\<lambda>g. bg_component g = component \<and>
     bg_action g = action \<and> covers (bg_pattern g) pattern) acl"

fun own_namespace_covers :: "str \<Rightarrow> topic_pattern \<Rightarrow> bool" where
  "own_namespace_covers owner (Exact t) = (topic_namespace t = owner)"
| "own_namespace_covers owner (Under p) = (p = owner \<or> dotted_under owner p)"

definition acl_may_publish :: "namespace_acl \<Rightarrow> str \<Rightarrow> topic \<Rightarrow> bool" where
  "acl_may_publish acl source topic =
    (if source = [] then False
     else if topic_namespace topic = source then True
     else acl_granted acl source Publish (Exact topic))"

definition acl_may_subscribe :: "namespace_acl \<Rightarrow> str \<Rightarrow> topic_pattern \<Rightarrow> bool" where
  "acl_may_subscribe acl owner pattern =
    (if owner = [] then False
     else if own_namespace_covers owner pattern then True
     else acl_granted acl owner Subscribe pattern)"

definition namespace_access :: "namespace_acl \<Rightarrow> access" where
  "namespace_access acl = \<lparr>may_publish = acl_may_publish acl, may_subscribe = acl_may_subscribe acl\<rparr>"

section \<open>Patterns as sets\<close>

text \<open>What the trait's second method promises for owners that are one segment: a permission for a
  pattern is a permission for every pattern inside it.\<close>

locale access_policy =
  fixes inv :: "'p \<Rightarrow> bool" and access :: "'p \<Rightarrow> access"
  assumes narrower: "inv pol \<Longrightarrow> dot \<notin> set owner \<Longrightarrow> ascii owner \<Longrightarrow> pattern_wf p \<Longrightarrow> pattern_wf q \<Longrightarrow>
    covers p q \<Longrightarrow> may_subscribe (access pol) owner p \<Longrightarrow> may_subscribe (access pol) owner q"
begin

text \<open>Every topic a permitted pattern matches is permitted on its own.\<close>

lemma topic_permitted:
  assumes "inv pol" "dot \<notin> set owner" "ascii owner" "pattern_wf p" "topic_wf t"
    "may_subscribe (access pol) owner p" "topic_in p t"
  shows "may_subscribe (access pol) owner (Exact t)"
proof (rule narrower [OF assms(1-4)])
  show "covers p (Exact t)" using assms(7) by (cases p) auto
qed (use assms in auto)

end

interpretation allowing: access_policy "\<lambda>_ :: unit. True" "\<lambda>_. allow_all"
  by unfold_locales (simp add: allow_all_def)

interpretation denying: access_policy "\<lambda>_ :: unit. True" "\<lambda>_. deny_all"
  by unfold_locales (simp add: deny_all_def)

definition acl_wf :: "namespace_acl \<Rightarrow> bool" where
  "acl_wf acl \<longleftrightarrow> (\<forall>g \<in> set acl. pattern_wf (bg_pattern g) \<and> bg_component g \<noteq> [])"

lemma acl_wf_new: "acl_wf acl_new"
  by (simp add: acl_wf_def acl_new_def)

lemma acl_wf_grant: "acl_wf acl \<Longrightarrow> valid_str pattern \<Longrightarrow> acl_wf (snd (acl_grant component action pattern acl))"
  using pattern_parse_Inr(1) by (auto simp: acl_wf_def acl_grant_def split: sum.split)

lemma own_narrower:
  assumes "dot \<notin> set owner" "ascii owner" "owner \<noteq> []" "pattern_wf p" "pattern_wf q" "covers p q" "own_namespace_covers owner p"
  shows "own_namespace_covers owner q"
proof -
  have o: "split_on dot owner = [owner]" using assms(1) by (rule split_on_free)
  have own: "own_namespace_covers owner (Under b) \<longleftrightarrow> prefix [owner] (split_on dot b)" if "ascii b" for b
  proof -
    have "b = owner \<longleftrightarrow> [owner] = split_on dot b" using split_on_inj [of dot owner b] o by metis
    then show ?thesis
      using dotted_under_iff [OF assms(2) that] o unfolding own_namespace_covers.simps prefix_order.le_less by metis
  qed
  show ?thesis
  proof (cases p)
    case (Exact t)
    with assms(6,7) show ?thesis by (cases q) auto
  next
    case p: (Under a)
    with assms(3,7) have a: "a \<noteq> []" by (auto simp: dotted_under_def)
    have pa: "prefix [owner] (split_on dot a)" using own [OF pattern_ascii [of a]] assms(4,7) p by simp
    show ?thesis
    proof (cases q)
      case (Exact t)
      then have "topic_in p t" "topic_wf t" using assms(5,6) p by simp_all
      then have "strict_prefix (split_on dot a) (topic_segments t)"
        using topic_in_admits [OF assms(4)] p a by simp
      with pa have "prefix [owner] (topic_segments t)" using prefix_order.less_imp_le prefix_order.trans by metis
      then have "hd (topic_segments t) = owner" by (cases "topic_segments t") simp_all
      then show ?thesis using Exact by (simp add: namespace_hd)
    next
      case (Under b)
      then have "prefix (split_on dot a) (split_on dot b)" using assms(4-6) p a covers_Under [of a b] by simp
      with pa have "prefix [owner] (split_on dot b)" by (rule prefix_order.trans)
      then show ?thesis using own [OF pattern_ascii [of b]] assms(5) Under by simp
    qed
  qed
qed

interpretation namespaced: access_policy acl_wf namespace_access
proof unfold_locales
  fix acl owner p q
  assume a: "acl_wf acl" "dot \<notin> set owner" "ascii owner" "pattern_wf p" "pattern_wf q" "covers p q"
    "may_subscribe (namespace_access acl) owner p"
  have "acl_granted acl owner Subscribe q" if "acl_granted acl owner Subscribe p"
    using that a(1) covers_trans [OF _ a(4,5) _ a(6)]
    by (fastforce simp: acl_granted_def list_ex_iff acl_wf_def)
  then show "may_subscribe (namespace_access acl) owner q"
    using a(7) own_narrower [OF a(2,3) _ a(4-6)]
    by (auto simp: namespace_access_def acl_may_subscribe_def split: if_splits)
qed

end
