(* ===== verification/BusEvent.thy ===== *)
theory BusEvent
  imports BusTopic Bytes
begin

text \<open>
  \<open>rust/wa-bus/src/event.rs\<close>: the event and its stored form.  The reader is a function on the bytes
  still unread.
\<close>

definition UNASSIGNED :: nat where "UNASSIGNED = 0"

definition is_assigned :: "nat \<Rightarrow> bool" where
  "is_assigned eid \<longleftrightarrow> eid \<noteq> 0"

record schema =
  sc_name :: str
  sc_version :: nat

definition schema_new :: "str \<Rightarrow> nat \<Rightarrow> schema" where
  "schema_new name version = \<lparr>sc_name = name, sc_version = version\<rparr>"

record event =
  ev_id :: nat
  ev_topic :: topic
  ev_ts :: nat
  ev_source :: str
  ev_schema :: schema
  ev_payload :: bytes
  ev_trace :: "str option"

text \<open>\<open>now\<close> is the clock reading \<open>now\_ms\<close>.\<close>

definition event_new :: "nat \<Rightarrow> topic \<Rightarrow> str \<Rightarrow> str \<Rightarrow> bytes \<Rightarrow> event" where
  "event_new now topic source schema payload =
     \<lparr>ev_id = UNASSIGNED, ev_topic = topic, ev_ts = now, ev_source = source, ev_schema = schema_new schema 1,
      ev_payload = payload, ev_trace = None\<rparr>"

definition with_schema_version :: "nat \<Rightarrow> event \<Rightarrow> event" where
  "with_schema_version v e = e\<lparr>ev_schema := (ev_schema e)\<lparr>sc_version := v\<rparr>\<rparr>"

definition with_trace :: "str \<Rightarrow> event \<Rightarrow> event" where
  "with_trace t e = e\<lparr>ev_trace := Some t\<rparr>"

definition with_ts :: "nat \<Rightarrow> event \<Rightarrow> event" where
  "with_ts ts e = e\<lparr>ev_ts := ts\<rparr>"

definition with_id :: "nat \<Rightarrow> event \<Rightarrow> event" where
  "with_id eid e = e\<lparr>ev_id := eid\<rparr>"

definition with_payload :: "bytes \<Rightarrow> event \<Rightarrow> event" where
  "with_payload p e = e\<lparr>ev_payload := p\<rparr>"

definition event_summary :: "event \<Rightarrow> str" where
  "event_summary e = lit ''event id='' @ dec (ev_id e) @ lit '' topic='' @ topic_str (ev_topic e) @ lit '' ts='' @
     dec (ev_ts e) @ lit '' source='' @ ev_source e @ lit '' schema='' @ sc_name (ev_schema e) @ lit ''@'' @
     dec (sc_version (ev_schema e)) @ lit '' bytes='' @ dec (length (ev_payload e)) @ lit '' trace='' @
     (case ev_trace e of Some t \<Rightarrow> t | None \<Rightarrow> lit ''-'')"

section \<open>Writing\<close>

definition put_str :: "str \<Rightarrow> bytes" where
  "put_str s = (let n = min (length (utf8 s)) 65535 in le 2 n @ take n (utf8 s))"

definition put_bytes :: "bytes \<Rightarrow> bytes" where
  "put_bytes b = (let n = min (length b) u32_max in le 4 n @ take n b)"

definition MAGIC :: bytes where "MAGIC = utf8 (lit ''WABUS1'')"
definition FORMAT :: byte where "FORMAT = 1"

definition event_encode :: "event \<Rightarrow> bytes" where
  "event_encode e = MAGIC @ [FORMAT] @ le 8 (ev_id e) @ put_str (topic_str (ev_topic e)) @ le 8 (ev_ts e) @
     put_str (ev_source e) @ put_str (sc_name (ev_schema e)) @ le 4 (sc_version (ev_schema e)) @
     (case ev_trace e of Some t \<Rightarrow> 1 # put_str t | None \<Rightarrow> [0]) @ put_bytes (ev_payload e)"

section \<open>Reading\<close>

datatype decode_error = EventTruncated | BadMagic | UnsupportedFormat byte | BadTopic topic_error | BadStr
  | BadTraceFlag byte | EventTrailing nat

type_synonym 'a er = "bytes \<Rightarrow> decode_error + ('a \<times> bytes)"

definition er_return :: "'a \<Rightarrow> 'a er" where
  "er_return a r = Inr (a, r)"

definition er_fail :: "decode_error \<Rightarrow> 'a er" where
  "er_fail e r = Inl e"

definition er_bind :: "'a er \<Rightarrow> ('a \<Rightarrow> 'b er) \<Rightarrow> 'b er" where
  "er_bind p f r = (case p r of Inl e \<Rightarrow> Inl e | Inr (a, r) \<Rightarrow> f a r)"

definition er_take :: "nat \<Rightarrow> bytes er" where
  "er_take n r = (if n > length r then Inl EventTruncated else Inr (take n r, drop n r))"

definition er_u32 :: "nat er" where
  "er_u32 = er_bind (er_take 4) (\<lambda>b. er_return (of_le b))"

definition er_u64 :: "nat er" where
  "er_u64 = er_bind (er_take 8) (\<lambda>b. er_return (of_le b))"

definition er_str :: "str er" where
  "er_str = er_bind (er_take 2) (\<lambda>b. er_bind (er_take (of_le b)) (\<lambda>s.
     case from_utf8 s of Some s \<Rightarrow> er_return s | None \<Rightarrow> er_fail BadStr))"

definition er_bytes :: "bytes er" where
  "er_bytes = er_bind er_u32 er_take"

definition er_topic :: "topic er" where
  "er_topic = er_bind er_str (\<lambda>s. case topic_parse s of Inr t \<Rightarrow> er_return t | Inl e \<Rightarrow> er_fail (BadTopic e))"

definition er_trace :: "str option er" where
  "er_trace = er_bind (er_take 1) (\<lambda>b.
     if hd b = 0 then er_return None
     else if hd b = 1 then er_bind er_str (\<lambda>t. er_return (Some t))
     else er_fail (BadTraceFlag (hd b)))"

definition event_fields :: "event er" where
  "event_fields =
     er_bind (er_take (length MAGIC)) (\<lambda>m. if m \<noteq> MAGIC then er_fail BadMagic else
     er_bind (er_take 1) (\<lambda>f. if hd f \<noteq> FORMAT then er_fail (UnsupportedFormat (hd f)) else
     er_bind er_u64 (\<lambda>eid.
     er_bind er_topic (\<lambda>topic.
     er_bind er_u64 (\<lambda>ts.
     er_bind er_str (\<lambda>source.
     er_bind er_str (\<lambda>name.
     er_bind er_u32 (\<lambda>version.
     er_bind er_trace (\<lambda>trace.
     er_bind er_bytes (\<lambda>payload.
     er_return \<lparr>ev_id = eid, ev_topic = topic, ev_ts = ts, ev_source = source,
       ev_schema = schema_new name version, ev_payload = payload, ev_trace = trace\<rparr>))))))))))"

definition event_decode :: "bytes \<Rightarrow> decode_error + event" where
  "event_decode bs = (case event_fields bs of
     Inl e \<Rightarrow> Inl e
   | Inr (e, r) \<Rightarrow> if r \<noteq> [] then Inl (EventTrailing (length r)) else Inr e)"

section \<open>Laws of the reader\<close>

definition reads :: "'a er \<Rightarrow> bytes \<Rightarrow> 'a \<Rightarrow> bool" where
  "reads p out v \<longleftrightarrow> (\<forall>rest. p (out @ rest) = Inr (v, rest)) \<and> (\<forall>k < length out. \<exists>e. p (take k out) = Inl e)"

lemma reads_take: "length out = n \<Longrightarrow> reads (er_take n) out out"
  by (auto simp: reads_def er_take_def)

lemma reads_return: "reads (er_return v) [] v"
  by (simp add: reads_def er_return_def)

lemma reads_bind:
  assumes p: "reads p o1 a" and f: "reads (f a) o2 b"
  shows "reads (er_bind p f) (o1 @ o2) b"
  unfolding reads_def
proof (intro conjI allI impI)
  fix rest
  show "er_bind p f ((o1 @ o2) @ rest) = Inr (b, rest)"
    using p f by (simp add: reads_def er_bind_def)
next
  fix k
  assume k: "k < length (o1 @ o2)"
  show "\<exists>e. er_bind p f (take k (o1 @ o2)) = Inl e"
  proof (cases "k < length o1")
    case True
    with p show ?thesis by (fastforce simp: reads_def er_bind_def)
  next
    case False
    then have "take k (o1 @ o2) = o1 @ take (k - length o1) o2" by simp
    moreover have "\<exists>e. f a (take (k - length o1) o2) = Inl e" using f k False by (auto simp: reads_def)
    ultimately show ?thesis using p by (simp add: reads_def er_bind_def)
  qed
qed

lemma reads_map: "reads p out a \<Longrightarrow> reads (er_bind p (\<lambda>x. er_return (f x))) out (f a)"
  using reads_bind [of p out a "\<lambda>x. er_return (f x)" "[]" "f a"] by (simp add: reads_return)

lemma reads_u32: "v \<le> u32_max \<Longrightarrow> reads er_u32 (le 4 v) v"
  unfolding er_u32_def using reads_map [OF reads_take, of "le 4 v" 4 of_le] of_le_le [of v 4] by simp

lemma reads_u64: "v \<le> u64_max \<Longrightarrow> reads er_u64 (le 8 v) v"
  unfolding er_u64_def using reads_map [OF reads_take, of "le 8 v" 8 of_le] of_le_le [of v 8] by simp

text \<open>A string is read back as its first 65535 bytes, when those are a string.\<close>

lemma reads_put_str:
  assumes "from_utf8 (take 65535 (utf8 s)) = Some t"
  shows "reads er_str (put_str s) t"
proof -
  let ?n = "min (length (utf8 s)) 65535"
  have n: "of_le (le 2 ?n) = ?n" by (rule of_le_le) simp
  have t: "take ?n (utf8 s) = take 65535 (utf8 s)" by (simp add: min_def)
  have "reads (er_bind (er_take ?n) (\<lambda>s. case from_utf8 s of Some s \<Rightarrow> er_return s | None \<Rightarrow> er_fail BadStr))
      (take ?n (utf8 s) @ []) t"
    by (rule reads_bind [OF reads_take]) (simp_all add: t assms reads_return)
  then show ?thesis
    unfolding er_str_def put_str_def Let_def
    using n by (intro reads_bind [OF reads_take]) simp_all
qed

definition estr_ok :: "str \<Rightarrow> bool" where
  "estr_ok s \<longleftrightarrow> valid_str s \<and> length (utf8 s) \<le> 65535"

lemma reads_str: "estr_ok s \<Longrightarrow> reads er_str (put_str s) s"
  by (rule reads_put_str) (simp add: estr_ok_def from_utf8_utf8)

lemma reads_bytes:
  assumes "length b \<le> u32_max"
  shows "reads er_bytes (put_bytes b) b"
proof -
  have "min (length b) u32_max = length b" using assms by simp
  then show ?thesis
    unfolding er_bytes_def put_bytes_def Let_def
    using assms by (simp add: reads_bind [OF reads_u32] reads_take)
qed

lemma topic_estr: "topic_wf t \<Longrightarrow> estr_ok (topic_str t)"
proof -
  assume wf: "topic_wf t"
  then have "length (utf8 (topic_str t)) \<le> 256"
    using length_utf8_ascii [OF topic_wf_ascii [OF wf]] by (simp add: topic_wf_def MAX_TOPIC_def)
  then show ?thesis using ascii_valid [OF topic_wf_ascii [OF wf]] by (simp add: estr_ok_def)
qed

lemma reads_topic:
  assumes "topic_wf t"
  shows "reads er_topic (put_str (topic_str t)) t"
proof -
  have "reads er_topic (put_str (topic_str t) @ []) t"
    unfolding er_topic_def
    by (rule reads_bind [OF reads_str [OF topic_estr [OF assms]]]) (simp add: topic_parse_wf [OF assms] reads_return)
  then show ?thesis by simp
qed

lemma reads_trace:
  assumes "\<forall>t \<in> set_option tr. estr_ok t"
  shows "reads er_trace (case tr of Some t \<Rightarrow> 1 # put_str t | None \<Rightarrow> [0]) tr"
proof (cases tr)
  case None
  have "reads er_trace ([0] @ []) None"
    unfolding er_trace_def by (rule reads_bind [OF reads_take]) (simp_all add: reads_return)
  then show ?thesis by (simp add: None)
next
  case (Some t)
  have "reads er_trace ([1] @ put_str t) (Some t)"
    unfolding er_trace_def
    by (rule reads_bind [OF reads_take]) (use assms Some in \<open>simp_all add: reads_map reads_str\<close>)
  then show ?thesis by (simp add: Some)
qed

lemma reads_long_trace:
  assumes "from_utf8 (take 65535 (utf8 s)) = Some t"
  shows "reads er_trace (1 # put_str s) (Some t)"
proof -
  have "reads er_trace ([1] @ put_str s) (Some t)"
    unfolding er_trace_def
    by (rule reads_bind [OF reads_take]) (simp_all add: reads_map reads_put_str [OF assms])
  then show ?thesis by simp
qed

definition event_wf :: "event \<Rightarrow> bool" where
  "event_wf e \<longleftrightarrow> ev_id e \<le> u64_max \<and> topic_wf (ev_topic e) \<and> ev_ts e \<le> u64_max \<and> estr_ok (ev_source e) \<and>
     estr_ok (sc_name (ev_schema e)) \<and> sc_version (ev_schema e) \<le> u32_max \<and>
     (\<forall>t \<in> set_option (ev_trace e). estr_ok t) \<and> length (ev_payload e) \<le> u32_max"

text \<open>The whole event, with the trace it is read back with.\<close>

lemma reads_event:
  assumes "event_wf (e\<lparr>ev_trace := tr\<rparr>)"
    "reads er_trace (case ev_trace e of Some t \<Rightarrow> 1 # put_str t | None \<Rightarrow> [0]) tr"
  shows "reads event_fields (event_encode e) (e\<lparr>ev_trace := tr\<rparr>)"
proof -
  have wf: "ev_id e \<le> u64_max" "topic_wf (ev_topic e)" "ev_ts e \<le> u64_max" "estr_ok (sc_name (ev_schema e))"
    "sc_version (ev_schema e) \<le> u32_max" "estr_ok (ev_source e)" "length (ev_payload e) \<le> u32_max"
    using assms(1) by (simp_all add: event_wf_def)
  have ret: "e\<lparr>ev_trace := tr\<rparr> = \<lparr>ev_id = ev_id e, ev_topic = ev_topic e, ev_ts = ev_ts e, ev_source = ev_source e,
       ev_schema = schema_new (sc_name (ev_schema e)) (sc_version (ev_schema e)), ev_payload = ev_payload e,
       ev_trace = tr\<rparr>"
    by (cases e) (simp add: schema_new_def)
  have last: "reads (er_bind er_bytes (\<lambda>payload. er_return (f payload))) (put_bytes (ev_payload e)) (f (ev_payload e))"
    for f :: "bytes \<Rightarrow> event"
    by (rule reads_map [OF reads_bytes [OF wf(7)]])
  show ?thesis
    unfolding event_encode_def event_fields_def ret
    apply (rule reads_bind [OF reads_take], rule refl)
    apply (simp only: simp_thms not_True_eq_False if_False)
    apply (rule reads_bind [OF reads_take], simp)
    apply (simp only: list.sel simp_thms not_True_eq_False if_False)
    apply (rule reads_bind [OF reads_u64 [OF wf(1)]])
    apply (rule reads_bind [OF reads_topic [OF wf(2)]])
    apply (rule reads_bind [OF reads_u64 [OF wf(3)]])
    apply (rule reads_bind [OF reads_str [OF wf(6)]])
    apply (rule reads_bind [OF reads_str [OF wf(4)]])
    apply (rule reads_bind [OF reads_u32 [OF wf(5)]])
    apply (rule reads_bind [OF assms(2)])
    apply (rule last)
    done
qed

lemma event_decode_reads:
  assumes "reads event_fields out e"
  shows "event_decode out = Inr e" "k < length out \<Longrightarrow> \<exists>err. event_decode (take k out) = Inl err"
    "event_decode (out @ x # xs) = Inl (EventTrailing (Suc (length xs)))"
proof -
  have r: "event_fields (out @ rest) = Inr (e, rest)" for rest using assms by (simp add: reads_def)
  show "event_decode out = Inr e" "event_decode (out @ x # xs) = Inl (EventTrailing (Suc (length xs)))"
    using r [of "[]"] r [of "x # xs"] by (simp_all add: event_decode_def)
  show "k < length out \<Longrightarrow> \<exists>err. event_decode (take k out) = Inl err"
    using assms by (auto simp: reads_def event_decode_def split: sum.split)
qed

end
