(* ===== verification/Bus.thy ===== *)
theory Bus
  imports BusAccess BusEvent QueueKv
begin

text \<open>
  \<open>rust/wa-bus/src/kv.rs\<close> and \<open>bus.rs\<close>: the bus and its operations.  Every critical section of the
  one mutex is one function on the bus; a publisher that waits for a full subscriber gives the mutex
  up between rounds, and is modelled round by round.  A durable topic names its store by a handle,
  for several topics may share one; the stores are those of \<open>QueueKv\<close>, whose calls may fail.
\<close>

section \<open>Retention keys\<close>

definition retention_prefix :: "topic \<Rightarrow> bytes" where
  "retention_prefix t = utf8 (lit ''v1/'' @ topic_str t @ lit ''/'')"

definition retention_key :: "topic \<Rightarrow> nat \<Rightarrow> nat \<Rightarrow> bytes" where
  "retention_key t ts eid = utf8 (lit ''v1/'' @ topic_str t @ lit ''/'' @ dec020 ts @ lit ''/'' @ dec020 eid)"

text \<open>The memory store's scan, with its limit; the bus always asks for no limit.\<close>

definition limited_scan :: "memory_kv \<Rightarrow> bytes \<Rightarrow> nat \<Rightarrow> (bytes, bytes) btree" where
  "limited_scan m pre limit = (if limit = 0 then bm_scan pre m else take limit (bm_scan pre m))"

section \<open>State\<close>

definition DEFAULT_CAPACITY :: nat where "DEFAULT_CAPACITY = 64"

datatype overflow_policy = DropOldest | DropNewest | Block

fun overflow_as_str :: "overflow_policy \<Rightarrow> str" where
  "overflow_as_str DropOldest = lit ''drop_oldest''"
| "overflow_as_str DropNewest = lit ''drop_newest''"
| "overflow_as_str Block = lit ''block''"

record subscribe_options =
  so_capacity :: nat
  so_policy :: overflow_policy

definition options_default :: subscribe_options where
  "options_default = \<lparr>so_capacity = DEFAULT_CAPACITY, so_policy = DropOldest\<rparr>"

definition with_capacity :: "nat \<Rightarrow> subscribe_options \<Rightarrow> subscribe_options" where
  "with_capacity n opts = opts\<lparr>so_capacity := n\<rparr>"

definition with_policy :: "overflow_policy \<Rightarrow> subscribe_options \<Rightarrow> subscribe_options" where
  "with_policy p opts = opts\<lparr>so_policy := p\<rparr>"

text \<open>A store failure keeps what the code renders as text: the store's error, or the key and the
  reason a record could not be read.\<close>

datatype store_failure = CallFailed kv_error | Unreadable bytes decode_error

datatype bus_error = BadTopicName topic_error | Denied str str str | StoreFailed store_failure
  | ReplayNotDurable str | ReplayNeedsExactTopic str | BadOptions str

definition event_parse :: "nat \<Rightarrow> str \<Rightarrow> str \<Rightarrow> str \<Rightarrow> bytes \<Rightarrow> bus_error + event" where
  "event_parse now topic source schema payload =
    (case topic_parse topic of
       Inl e \<Rightarrow> Inl (BadTopicName e)
     | Inr t \<Rightarrow> Inr (event_new now t source schema payload))"

record publish_outcome =
  po_id :: nat
  po_matched :: nat
  po_delivered :: nat
  po_dropped :: nat
  po_blocked :: "nat list"

definition accepted_by_all :: "publish_outcome \<Rightarrow> bool" where
  "accepted_by_all out \<longleftrightarrow> po_blocked out = []"

definition complete :: "publish_outcome \<Rightarrow> bool" where
  "complete out \<longleftrightarrow> po_blocked out = [] \<and> po_dropped out = 0"

record subscription_info =
  si_id :: nat
  si_owner :: str
  si_pattern :: str
  si_policy :: overflow_policy
  si_queued :: nat
  si_capacity :: nat
  si_dropped :: nat
  si_blocked :: nat

record sub =
  s_owner :: str
  s_pattern :: topic_pattern
  s_queue :: "event list"
  s_capacity :: nat
  s_policy :: overflow_policy
  s_dropped :: nat
  s_blocked :: nat
  s_replayed :: nat

record durable =
  d_retain :: nat
  d_kv :: nat

record bus =
  b_next_id :: nat
  b_next_sub :: nat
  b_subs :: "(nat, sub) btree"
  b_access :: access
  b_durable :: "(str, durable) btree"
  b_stores :: "nat \<Rightarrow> kv"

definition with_access :: "access \<Rightarrow> (nat \<Rightarrow> kv) \<Rightarrow> bus" where
  "with_access access stores = \<lparr>b_next_id = 1, b_next_sub = 1, b_subs = [], b_access = access,
     b_durable = [], b_stores = stores\<rparr>"

definition bus_new :: "(nat \<Rightarrow> kv) \<Rightarrow> bus" where
  "bus_new = with_access (namespace_access acl_new)"

definition set_access :: "access \<Rightarrow> bus \<Rightarrow> bus" where
  "set_access access b = b\<lparr>b_access := access\<rparr>"

section \<open>Publishing\<close>

definition stamp :: "nat \<Rightarrow> event \<Rightarrow> bus \<Rightarrow> event \<times> bus" where
  "stamp now ev b =
    (let (ev, b) = (if is_assigned (ev_id ev)
                    then (ev, b\<lparr>b_next_id := max (b_next_id b) (sat_add64 (ev_id ev) 1)\<rparr>)
                    else (ev\<lparr>ev_id := b_next_id b\<rparr>, b\<lparr>b_next_id := wrap64 (b_next_id b + 1)\<rparr>))
     in (if ev_ts ev = 0 then ev\<lparr>ev_ts := now\<rparr> else ev, b))"

text \<open>Trimming deletes the first rows of the scan, one by one.\<close>

fun trim_rows :: "nat \<Rightarrow> (bytes, bytes) btree \<Rightarrow> kv \<Rightarrow> (kv_error + unit) \<times> kv" where
  "trim_rows n [] s = (Inr (), s)"
| "trim_rows n ((old, _) # rows) s =
     (if n = 0 then (Inr (), s)
      else case kv_del s old of
          (Inl e, s) \<Rightarrow> (Inl e, s)
        | (Inr _, s) \<Rightarrow> trim_rows (n - 1) rows s)"

definition retain_event :: "nat \<Rightarrow> event \<Rightarrow> kv \<Rightarrow> (kv_error + unit) \<times> kv" where
  "retain_event retain ev s =
    (case kv_put s (retention_key (ev_topic ev) (ev_ts ev) (ev_id ev)) (event_encode ev) of
       (Inl e, s) \<Rightarrow> (Inl e, s)
     | (Inr _, s) \<Rightarrow>
         (case kv_scan s (retention_prefix (ev_topic ev)) of
            (Inl e, s) \<Rightarrow> (Inl e, s)
          | (Inr rows, s) \<Rightarrow> trim_rows (length rows - retain) rows s))"

definition append_durable :: "event \<Rightarrow> bus \<Rightarrow> (bus_error + unit) \<times> bus" where
  "append_durable ev b =
    (case bm_get (b_durable b) (topic_str (ev_topic ev)) of
       None \<Rightarrow> (Inr (), b)
     | Some d \<Rightarrow>
         (let (r, s) = retain_event (d_retain d) ev (b_stores b (d_kv d));
              b = b\<lparr>b_stores := (b_stores b)(d_kv d := s)\<rparr>
          in case r of Inl e \<Rightarrow> (Inl (StoreFailed (CallFailed e)), b) | Inr _ \<Rightarrow> (Inr (), b)))"

definition targets :: "bus \<Rightarrow> topic \<Rightarrow> nat list" where
  "targets b t = map fst (filter (\<lambda>(_, s). topic_in (s_pattern s) t) (b_subs b))"

text \<open>One round of the delivery loop: every pending subscription is offered the event once.\<close>

record round =
  rn_subs :: "(nat, sub) btree"
  rn_out :: publish_outcome
  rn_counted :: "nat list"
  rn_waiting :: "nat list"

definition offer :: "event \<Rightarrow> nat \<Rightarrow> round \<Rightarrow> round" where
  "offer ev sid r = (case bm_get (rn_subs r) sid of
       None \<Rightarrow> r
     | Some s \<Rightarrow>
         let out = rn_out r; put = (\<lambda>s. bm_insert sid s (rn_subs r)) in
         if length (s_queue s) < s_capacity s then
           r\<lparr>rn_subs := put (s\<lparr>s_queue := s_queue s @ [ev]\<rparr>),
             rn_out := out\<lparr>po_delivered := po_delivered out + 1\<rparr>\<rparr>
         else case s_policy s of
           DropOldest \<Rightarrow>
             r\<lparr>rn_subs := put (s\<lparr>s_queue := tl (s_queue s) @ [ev], s_dropped := wrap64 (s_dropped s + 1)\<rparr>),
               rn_out := out\<lparr>po_delivered := po_delivered out + 1, po_dropped := po_dropped out + 1\<rparr>\<rparr>
         | DropNewest \<Rightarrow>
             r\<lparr>rn_subs := put (s\<lparr>s_dropped := wrap64 (s_dropped s + 1)\<rparr>),
               rn_out := out\<lparr>po_dropped := po_dropped out + 1\<rparr>\<rparr>
         | Block \<Rightarrow>
             r\<lparr>rn_subs := (if sid \<in> set (rn_counted r) then rn_subs r
                            else put (s\<lparr>s_blocked := wrap64 (s_blocked s + 1)\<rparr>)),
               rn_counted := (if sid \<in> set (rn_counted r) then rn_counted r else sid # rn_counted r),
               rn_waiting := rn_waiting r @ [sid]\<rparr>)"

text \<open>A publisher between two rounds, and what a round ends with.\<close>

record flight =
  fl_event :: event
  fl_pending :: "nat list"
  fl_counted :: "nat list"
  fl_out :: publish_outcome
  fl_deadline :: "nat option"

datatype round_end = Returned publish_outcome | Waits flight

text \<open>\<open>at\<close> is the reading of \<open>Instant::now()\<close> after the round.\<close>

definition deliver_round :: "nat \<Rightarrow> flight \<Rightarrow> bus \<Rightarrow> round_end \<times> bus" where
  "deliver_round at fl b =
    (let r = fold (offer (fl_event fl)) (fl_pending fl)
           \<lparr>rn_subs = b_subs b, rn_out = fl_out fl, rn_counted = fl_counted fl, rn_waiting = []\<rparr>;
         b = b\<lparr>b_subs := rn_subs r\<rparr>;
         refused = Returned ((rn_out r)\<lparr>po_blocked := rn_waiting r\<rparr>)
     in if rn_waiting r = [] then (Returned (rn_out r), b)
        else case fl_deadline fl of
          None \<Rightarrow> (refused, b)
        | Some deadline \<Rightarrow>
            if at \<ge> deadline then (refused, b)
            else (Waits (fl\<lparr>fl_pending := rn_waiting r, fl_counted := rn_counted r, fl_out := rn_out r\<rparr>), b))"

definition outcome_new :: "nat \<Rightarrow> nat \<Rightarrow> publish_outcome" where
  "outcome_new eid matched = \<lparr>po_id = eid, po_matched = matched, po_delivered = 0, po_dropped = 0, po_blocked = []\<rparr>"

definition deliver_start :: "access \<Rightarrow> nat \<Rightarrow> nat option \<Rightarrow> nat \<Rightarrow> event \<Rightarrow> bus \<Rightarrow> (bus_error + round_end) \<times> bus" where
  "deliver_start access now deadline at ev b =
    (if \<not> may_publish access (ev_source ev) (ev_topic ev)
     then (Inl (Denied (ev_source ev) (lit ''publish'') (topic_str (ev_topic ev))), b)
     else
       let (ev, b) = stamp now ev b in
       case append_durable ev b of
         (Inl e, b) \<Rightarrow> (Inl e, b)
       | (Inr _, b) \<Rightarrow>
           let ts = targets b (ev_topic ev) in
           map_prod Inr id (deliver_round at \<lparr>fl_event = ev, fl_pending = ts, fl_counted = [],
             fl_out = outcome_new (ev_id ev) (length ts), fl_deadline = deadline\<rparr> b))"

text \<open>The rest of a publisher's loop: at each wake-up, what the others did in between and the clock.
  \<open>None\<close>: still waiting after the last one.\<close>

fun await :: "(nat \<times> (bus \<Rightarrow> bus)) list \<Rightarrow> flight \<Rightarrow> bus \<Rightarrow> publish_outcome option \<times> bus" where
  "await [] fl b = (None, b)"
| "await ((at, others) # ws) fl b =
     (case deliver_round at fl (others b) of
        (Returned out, b) \<Rightarrow> (Some out, b)
      | (Waits fl, b) \<Rightarrow> await ws fl b)"

definition publish :: "nat \<Rightarrow> event \<Rightarrow> bus \<Rightarrow> (bus_error + round_end) \<times> bus" where
  "publish now ev b = deliver_start (b_access b) now None 0 ev b"

definition publish_blocking :: "nat \<Rightarrow> nat \<Rightarrow> nat \<Rightarrow> (nat \<times> (bus \<Rightarrow> bus)) list \<Rightarrow> event \<Rightarrow> bus \<Rightarrow>
    (bus_error + publish_outcome option) \<times> bus" where
  "publish_blocking now deadline at wakes ev b =
    (case deliver_start (b_access b) now (Some deadline) at ev b of
       (Inl e, b) \<Rightarrow> (Inl e, b)
     | (Inr (Returned out), b) \<Rightarrow> (Inr (Some out), b)
     | (Inr (Waits fl), b) \<Rightarrow> map_prod Inr id (await wakes fl b))"

section \<open>Subscribing\<close>

fun decode_rows :: "(bytes, bytes) btree \<Rightarrow> bus_error + event list" where
  "decode_rows [] = Inr []"
| "decode_rows ((key, v) # rows) =
     (case event_decode v of
        Inl e \<Rightarrow> Inl (StoreFailed (Unreadable key e))
      | Inr ev \<Rightarrow> res_bind (decode_rows rows) (\<lambda>evs. Inr (ev # evs)))"

text \<open>Every retained event of a topic, oldest first.\<close>

definition read_retained :: "topic \<Rightarrow> durable \<Rightarrow> bus \<Rightarrow> (bus_error + event list) \<times> bus" where
  "read_retained t d b =
    (let (r, s) = kv_scan (b_stores b (d_kv d)) (retention_prefix t);
         b = b\<lparr>b_stores := (b_stores b)(d_kv d := s)\<rparr>
     in case r of Inl e \<Rightarrow> (Inl (StoreFailed (CallFailed e)), b) | Inr rows \<Rightarrow> (decode_rows rows, b))"

definition replay_events :: "topic_pattern \<Rightarrow> nat \<Rightarrow> nat \<Rightarrow> bus \<Rightarrow> (bus_error + event list) \<times> bus" where
  "replay_events pattern limit capacity b =
    (case pattern of
       Under _ \<Rightarrow> (Inl (ReplayNeedsExactTopic (as_written pattern)), b)
     | Exact t \<Rightarrow>
         (case bm_get (b_durable b) (topic_str t) of
            None \<Rightarrow> (Inl (ReplayNotDurable (topic_str t)), b)
          | Some d \<Rightarrow>
              (case read_retained t d b of
                 (Inl e, b) \<Rightarrow> (Inl e, b)
               | (Inr evs, b) \<Rightarrow>
                   let keep = min (min (length evs) limit) capacity in
                   (Inr (drop (length evs - keep) evs), b))))"

definition subscribe_with :: "access \<Rightarrow> str \<Rightarrow> topic_pattern \<Rightarrow> subscribe_options \<Rightarrow> nat option \<Rightarrow> bus \<Rightarrow>
    (bus_error + nat) \<times> bus" where
  "subscribe_with access owner pattern options replay b =
    (if so_capacity options = 0 then (Inl (BadOptions (lit ''capacity must be at least 1'')), b)
     else if \<not> may_subscribe access owner pattern
     then (Inl (Denied owner (lit ''subscribe'') (as_written pattern)), b)
     else
       case (case replay of None \<Rightarrow> (Inr [], b)
                          | Some limit \<Rightarrow> replay_events pattern limit (so_capacity options) b) of
         (Inl e, b) \<Rightarrow> (Inl e, b)
       | (Inr queue, b) \<Rightarrow>
           (Inr (b_next_sub b),
            b\<lparr>b_next_sub := wrap64 (b_next_sub b + 1),
              b_subs := bm_insert (b_next_sub b)
                \<lparr>s_owner = owner, s_pattern = pattern, s_queue = queue, s_capacity = so_capacity options,
                 s_policy = so_policy options, s_dropped = 0, s_blocked = 0, s_replayed = length queue\<rparr> (b_subs b)\<rparr>))"

definition subscribe :: "str \<Rightarrow> str \<Rightarrow> subscribe_options \<Rightarrow> bus \<Rightarrow> (bus_error + nat) \<times> bus" where
  "subscribe owner pattern options b =
    (case pattern_parse pattern of
       Inl e \<Rightarrow> (Inl (BadTopicName e), b)
     | Inr p \<Rightarrow> subscribe_with (b_access b) owner p options None b)"

definition subscribe_pattern :: "str \<Rightarrow> topic_pattern \<Rightarrow> subscribe_options \<Rightarrow> bus \<Rightarrow> (bus_error + nat) \<times> bus" where
  "subscribe_pattern owner p options b = subscribe_with (b_access b) owner p options None b"

definition subscribe_replaying :: "str \<Rightarrow> str \<Rightarrow> subscribe_options \<Rightarrow> nat \<Rightarrow> bus \<Rightarrow> (bus_error + nat) \<times> bus" where
  "subscribe_replaying owner topic options limit b =
    (case topic_parse topic of
       Inl e \<Rightarrow> (Inl (BadTopicName e), b)
     | Inr t \<Rightarrow> subscribe_with (b_access b) owner (Exact t) options (Some limit) b)"

section \<open>Retention\<close>

definition enable_durable :: "str \<Rightarrow> nat \<Rightarrow> nat \<Rightarrow> bus \<Rightarrow> (bus_error + unit) \<times> bus" where
  "enable_durable topic retain kv b =
    (if retain = 0 then (Inl (BadOptions (lit ''retain must be at least 1'')), b)
     else case topic_parse topic of
         Inl e \<Rightarrow> (Inl (BadTopicName e), b)
       | Inr t \<Rightarrow> (Inr (), b\<lparr>b_durable := bm_insert (topic_str t) \<lparr>d_retain = retain, d_kv = kv\<rparr> (b_durable b)\<rparr>))"

definition disable_durable :: "str \<Rightarrow> bus \<Rightarrow> bus" where
  "disable_durable topic b = b\<lparr>b_durable := bm_remove topic (b_durable b)\<rparr>"

definition durable_topics :: "bus \<Rightarrow> (str \<times> nat) list" where
  "durable_topics b = map (\<lambda>(t, d). (t, d_retain d)) (b_durable b)"

definition retained :: "str \<Rightarrow> nat \<Rightarrow> bus \<Rightarrow> (bus_error + event list) \<times> bus" where
  "retained topic limit b =
    (case topic_parse topic of
       Inl e \<Rightarrow> (Inl (BadTopicName e), b)
     | Inr t \<Rightarrow>
         (case bm_get (b_durable b) (topic_str t) of
            None \<Rightarrow> (Inl (ReplayNotDurable (topic_str t)), b)
          | Some d \<Rightarrow>
              (case read_retained t d b of
                 (Inl e, b) \<Rightarrow> (Inl e, b)
               | (Inr evs, b) \<Rightarrow>
                   (Inr (if limit \<noteq> 0 \<and> length evs > limit then drop (length evs - limit) evs else evs), b))))"

section \<open>Revocation and status\<close>

definition revoke_owner :: "str \<Rightarrow> bus \<Rightarrow> nat \<times> bus" where
  "revoke_owner owner b =
    (let ids = map fst (filter (\<lambda>(_, s). s_owner s = owner) (b_subs b))
     in (length ids, b\<lparr>b_subs := fold bm_remove ids (b_subs b)\<rparr>))"

definition revoke_all :: "bus \<Rightarrow> nat \<times> bus" where
  "revoke_all b = (length (b_subs b), b\<lparr>b_subs := []\<rparr>)"

definition subscriptions :: "bus \<Rightarrow> subscription_info list" where
  "subscriptions b = map (\<lambda>(sid, s). \<lparr>si_id = sid, si_owner = s_owner s, si_pattern = as_written (s_pattern s),
     si_policy = s_policy s, si_queued = length (s_queue s), si_capacity = s_capacity s,
     si_dropped = s_dropped s, si_blocked = s_blocked s\<rparr>) (b_subs b)"

definition subscriber_count :: "bus \<Rightarrow> nat" where
  "subscriber_count b = length (b_subs b)"

section \<open>The consumer's handle\<close>

definition recv :: "nat \<Rightarrow> bus \<Rightarrow> event option \<times> bus" where
  "recv sid b = (case bm_get (b_subs b) sid of
       None \<Rightarrow> (None, b)
     | Some s \<Rightarrow>
         (case s_queue s of
            [] \<Rightarrow> (None, b)
          | ev # q \<Rightarrow> (Some ev, b\<lparr>b_subs := bm_insert sid (s\<lparr>s_queue := q\<rparr>) (b_subs b)\<rparr>)))"

definition drain :: "nat \<Rightarrow> nat \<Rightarrow> bus \<Rightarrow> event list \<times> bus" where
  "drain sid m b = (case bm_get (b_subs b) sid of
       None \<Rightarrow> ([], b)
     | Some s \<Rightarrow>
         let n = (if m = 0 then length (s_queue s) else min m (length (s_queue s)))
         in (take n (s_queue s), b\<lparr>b_subs := bm_insert sid (s\<lparr>s_queue := drop n (s_queue s)\<rparr>) (b_subs b)\<rparr>))"

definition is_closed :: "nat \<Rightarrow> bus \<Rightarrow> bool" where
  "is_closed sid b \<longleftrightarrow> bm_get (b_subs b) sid = None"

text \<open>Also what dropping the handle does.\<close>

definition close_sub :: "nat \<Rightarrow> bus \<Rightarrow> bool \<times> bus" where
  "close_sub sid b = (bm_get (b_subs b) sid \<noteq> None, b\<lparr>b_subs := bm_remove sid (b_subs b)\<rparr>)"

definition of_sub :: "(sub \<Rightarrow> 'a) \<Rightarrow> 'a \<Rightarrow> nat \<Rightarrow> bus \<Rightarrow> 'a" where
  "of_sub f zero sid b = (case bm_get (b_subs b) sid of Some s \<Rightarrow> f s | None \<Rightarrow> zero)"

definition sub_queued :: "nat \<Rightarrow> bus \<Rightarrow> nat" where
  "sub_queued = of_sub (\<lambda>s. length (s_queue s)) 0"

definition sub_capacity :: "nat \<Rightarrow> bus \<Rightarrow> nat" where
  "sub_capacity = of_sub s_capacity 0"

definition sub_policy :: "nat \<Rightarrow> bus \<Rightarrow> overflow_policy option" where
  "sub_policy = of_sub (\<lambda>s. Some (s_policy s)) None"

definition sub_dropped :: "nat \<Rightarrow> bus \<Rightarrow> nat" where
  "sub_dropped = of_sub s_dropped 0"

definition sub_blocked :: "nat \<Rightarrow> bus \<Rightarrow> nat" where
  "sub_blocked = of_sub s_blocked 0"

definition sub_replayed :: "nat \<Rightarrow> bus \<Rightarrow> nat" where
  "sub_replayed = of_sub s_replayed 0"

end
