(* ===== verification/BusLaws.thy ===== *)
theory BusLaws
  imports Bus
begin

text \<open>
  What one round of delivery does to every subscription, the invariant of the bus under every
  operation and interleaving, and the durable log.
\<close>

section \<open>One round\<close>

definition has_space :: "sub \<Rightarrow> bool" where
  "has_space s \<longleftrightarrow> length (s_queue s) < s_capacity s"

definition refuses :: "sub \<Rightarrow> bool" where
  "refuses s \<longleftrightarrow> \<not> has_space s \<and> s_policy s = Block"

definition discards :: "sub \<Rightarrow> bool" where
  "discards s \<longleftrightarrow> \<not> has_space s \<and> s_policy s = DropNewest"

definition displaces :: "sub \<Rightarrow> bool" where
  "displaces s \<longleftrightarrow> \<not> has_space s \<and> s_policy s = DropOldest"

lemma offer_cases: "has_space s \<or> refuses s \<or> discards s \<or> displaces s"
  by (cases "s_policy s") (auto simp: refuses_def discards_def displaces_def)

text \<open>The subscription after an offer; \<open>seen\<close>: it has refused this event in an earlier round.\<close>

definition offered :: "event \<Rightarrow> bool \<Rightarrow> sub \<Rightarrow> sub" where
  "offered ev seen s = (if has_space s then s\<lparr>s_queue := s_queue s @ [ev]\<rparr>
     else case s_policy s of
       DropOldest \<Rightarrow> s\<lparr>s_queue := tl (s_queue s) @ [ev], s_dropped := wrap64 (s_dropped s + 1)\<rparr>
     | DropNewest \<Rightarrow> s\<lparr>s_dropped := wrap64 (s_dropped s + 1)\<rparr>
     | Block \<Rightarrow> if seen then s else s\<lparr>s_blocked := wrap64 (s_blocked s + 1)\<rparr>)"

text \<open>How many live subscriptions of a list have a property.\<close>

definition count_live :: "(sub \<Rightarrow> bool) \<Rightarrow> nat list \<Rightarrow> (nat, sub) btree \<Rightarrow> nat" where
  "count_live P ids subs = length (filter (\<lambda>sid. \<exists>s. bm_get subs sid = Some s \<and> P s) ids)"

definition live_refusing :: "nat list \<Rightarrow> (nat, sub) btree \<Rightarrow> nat list" where
  "live_refusing ids subs = filter (\<lambda>sid. \<exists>s. bm_get subs sid = Some s \<and> refuses s) ids"

definition round_of :: "event \<Rightarrow> nat list \<Rightarrow> round \<Rightarrow> round \<Rightarrow> bool" where
  "round_of ev ids r r' \<longleftrightarrow>
     (\<forall>sid. bm_get (rn_subs r') sid =
        (if sid \<in> set ids then map_option (offered ev (sid \<in> set (rn_counted r))) (bm_get (rn_subs r) sid)
         else bm_get (rn_subs r) sid)) \<and>
     rn_waiting r' = rn_waiting r @ live_refusing ids (rn_subs r) \<and>
     set (rn_counted r') = set (rn_counted r) \<union> set (live_refusing ids (rn_subs r)) \<and>
     (bm_wf (rn_subs r) \<longrightarrow> bm_wf (rn_subs r')) \<and>
     rn_out r' = (rn_out r)\<lparr>
       po_delivered := po_delivered (rn_out r) + count_live (\<lambda>s. has_space s \<or> displaces s) ids (rn_subs r),
       po_dropped := po_dropped (rn_out r) + count_live (\<lambda>s. discards s \<or> displaces s) ids (rn_subs r)\<rparr>"

lemma offer_one: "round_of ev [sid] r (offer ev sid r)"
proof (cases "bm_get (rn_subs r) sid")
  case None
  then show ?thesis by (simp add: round_of_def offer_def live_refusing_def count_live_def)
next
  case (Some s)
  have upd: "(rn_out r)\<lparr>po_delivered := po_delivered (rn_out r), po_dropped := po_dropped (rn_out r)\<rparr> = rn_out r"
    "(rn_out r)\<lparr>po_delivered := x, po_dropped := po_dropped (rn_out r)\<rparr> = (rn_out r)\<lparr>po_delivered := x\<rparr>"
    "(rn_out r)\<lparr>po_delivered := po_delivered (rn_out r), po_dropped := x\<rparr> = (rn_out r)\<lparr>po_dropped := x\<rparr>" for x
    by simp_all
  show ?thesis
    using Some by (cases "s_policy s")
      (auto simp: round_of_def offer_def Let_def offered_def live_refusing_def count_live_def upd
         has_space_def refuses_def discards_def displaces_def)
qed

lemma live_after:
  assumes "round_of ev [sid] r r'" "sid \<notin> set ids"
  shows "count_live P ids (rn_subs r') = count_live P ids (rn_subs r)"
    "live_refusing ids (rn_subs r') = live_refusing ids (rn_subs r)"
proof -
  have "bm_get (rn_subs r') i = bm_get (rn_subs r) i" if "i \<in> set ids" for i
    using assms that by (auto simp: round_of_def)
  then show "count_live P ids (rn_subs r') = count_live P ids (rn_subs r)"
    "live_refusing ids (rn_subs r') = live_refusing ids (rn_subs r)"
    by (auto simp: count_live_def live_refusing_def intro!: arg_cong [where f = length] filter_cong)
qed

lemma count_live_Cons: "count_live P (sid # ids) subs = count_live P [sid] subs + count_live P ids subs"
  by (simp add: count_live_def)

lemma offer_all: "distinct ids \<Longrightarrow> round_of ev ids r (fold (offer ev) ids r)"
proof (induction ids arbitrary: r)
  case Nil
  then show ?case by (simp add: round_of_def live_refusing_def count_live_def)
next
  case (Cons sid ids)
  let ?r1 = "offer ev sid r"
  note one = offer_one [of ev sid r]
  have rest: "round_of ev ids ?r1 (fold (offer ev) ids ?r1)" using Cons by simp
  note after = live_after [OF one, of ids]
  have sid: "sid \<notin> set ids" using Cons.prems by simp
  have "sid' \<in> set (rn_counted ?r1) \<longleftrightarrow> sid' \<in> set (rn_counted r)" if "sid' \<in> set ids" for sid'
    using one that sid by (auto simp: round_of_def live_refusing_def)
  with one rest after [OF sid] sid show ?case
    unfolding fold_simps comp_apply round_of_def
    by (auto simp: count_live_Cons [of _ sid ids] live_refusing_def)
qed

section \<open>The invariant\<close>

definition sub_ok :: "sub \<Rightarrow> bool" where
  "sub_ok s \<longleftrightarrow> 0 < s_capacity s \<and> length (s_queue s) \<le> s_capacity s \<and> pattern_wf (s_pattern s)"

definition subs_ok :: "(nat, sub) btree \<Rightarrow> bool" where
  "subs_ok m \<longleftrightarrow> bm_wf m \<and> (\<forall>sid s. bm_get m sid = Some s \<longrightarrow> sub_ok s)"

definition bus_ok :: "bus \<Rightarrow> bool" where
  "bus_ok b \<longleftrightarrow> subs_ok (b_subs b) \<and> (\<forall>sid. bm_get (b_subs b) sid \<noteq> None \<longrightarrow> sid < b_next_sub b) \<and>
     bm_wf (b_durable b) \<and> (\<forall>t d. bm_get (b_durable b) t = Some d \<longrightarrow> 0 < d_retain d \<and> topic_wf (Topic t)) \<and>
     (\<forall>h. bm_wf (entries (b_stores b h)))"

lemma subs_ok_insert [simp]: "subs_ok m \<Longrightarrow> sub_ok s \<Longrightarrow> subs_ok (bm_insert sid s m)"
  by (simp add: subs_ok_def)

lemma subs_ok_remove [simp]: "subs_ok m \<Longrightarrow> subs_ok (bm_remove sid m)"
  by (simp add: subs_ok_def)

lemma subs_ok_fold: "subs_ok m \<Longrightarrow> subs_ok (fold bm_remove ids m)"
  by (induction ids arbitrary: m) simp_all

lemma get_fold_remove: "bm_get (fold bm_remove ids m) k = (if k \<in> set ids then None else bm_get m k)"
  by (induction ids arbitrary: m) auto

lemma sub_ok_offered: "sub_ok s \<Longrightarrow> sub_ok (offered ev seen s)"
  by (cases "s_queue s"; cases "s_policy s") (auto simp: offered_def sub_ok_def has_space_def)

lemma targets_distinct: "bm_wf (b_subs b) \<Longrightarrow> distinct (targets b t)"
proof -
  have "distinct (map fst (filter P m))" if "bm_wf m" for P and m :: "(nat, sub) btree"
    by (rule bm_wf_distinct [OF bm_wf_filter [OF that]])
  then show "bm_wf (b_subs b) \<Longrightarrow> distinct (targets b t)" by (simp add: targets_def)
qed

lemma round_ok:
  assumes "bus_ok b" "distinct (fl_pending fl)"
  shows "bus_ok (snd (deliver_round at fl b))"
    "fst (deliver_round at fl b) = Waits fl' \<Longrightarrow> distinct (fl_pending fl')"
proof -
  let ?start = "\<lparr>rn_subs = b_subs b, rn_out = fl_out fl, rn_counted = fl_counted fl, rn_waiting = []\<rparr>"
  let ?r = "fold (offer (fl_event fl)) (fl_pending fl) ?start"
  have r: "round_of (fl_event fl) (fl_pending fl) ?start ?r" by (rule offer_all [OF assms(2)])
  have get: "bm_get (rn_subs ?r) sid = (if sid \<in> set (fl_pending fl)
      then map_option (offered (fl_event fl) (sid \<in> set (fl_counted fl))) (bm_get (b_subs b) sid)
      else bm_get (b_subs b) sid)" for sid
    using r by (simp add: round_of_def)
  have "subs_ok (rn_subs ?r)"
    unfolding subs_ok_def
  proof (intro conjI allI impI)
    show "bm_wf (rn_subs ?r)" using r assms(1) by (simp add: round_of_def bus_ok_def subs_ok_def)
    show "sub_ok s" if "bm_get (rn_subs ?r) sid = Some s" for sid s
      using that assms(1) sub_ok_offered by (auto simp: get bus_ok_def subs_ok_def split: if_splits)
  qed
  moreover have "bm_get (rn_subs ?r) sid \<noteq> None \<longleftrightarrow> bm_get (b_subs b) sid \<noteq> None" for sid
    by (simp add: get)
  ultimately have "bus_ok (b\<lparr>b_subs := rn_subs ?r\<rparr>)" using assms(1) by (simp add: bus_ok_def)
  then show "bus_ok (snd (deliver_round at fl b))"
    by (simp add: deliver_round_def Let_def split: option.split)
  have "rn_waiting ?r = live_refusing (fl_pending fl) (b_subs b)" using r by (simp add: round_of_def)
  then show "fst (deliver_round at fl b) = Waits fl' \<Longrightarrow> distinct (fl_pending fl')"
    using assms(2) by (auto simp: deliver_round_def Let_def live_refusing_def split: option.splits if_splits)
qed

lemma wf_kv_ops [simp]:
  "bm_wf (entries s) \<Longrightarrow> bm_wf (entries (snd (kv_put s k v)))"
  "bm_wf (entries s) \<Longrightarrow> bm_wf (entries (snd (kv_del s k)))"
  "bm_wf (entries s) \<Longrightarrow> bm_wf (entries (snd (kv_scan s p)))"
  by (auto simp: kv_defs split: list.split fault.split)

lemma wf_trim: "bm_wf (entries s) \<Longrightarrow> bm_wf (entries (snd (trim_rows n rows s)))"
proof (induction n rows s rule: trim_rows.induct)
  case (2 n old v rows s)
  show ?case
  proof (cases "n = 0")
    case False
    obtain r s1 where d: "kv_del s old = (r, s1)" by fastforce
    then have "bm_wf (entries s1)" using wf_kv_ops(2) [OF 2(2), of old] by simp
    then show ?thesis using 2(1) [OF False d [symmetric]] False d by (auto split: sum.split)
  qed (use 2(2) in simp)
qed simp

lemma wf_retain: "bm_wf (entries s) \<Longrightarrow> bm_wf (entries (snd (retain_event n ev s)))"
proof -
  assume wf: "bm_wf (entries s)"
  let ?k = "retention_key (ev_topic ev) (ev_ts ev) (ev_id ev)"
  obtain r s1 where p: "kv_put s ?k (event_encode ev) = (r, s1)" by fastforce
  then have s1: "bm_wf (entries s1)" using wf_kv_ops(1) [OF wf, of ?k "event_encode ev"] by simp
  obtain q s2 where c: "kv_scan s1 (retention_prefix (ev_topic ev)) = (q, s2)" by fastforce
  then have "bm_wf (entries s2)" using wf_kv_ops(3) [OF s1, of "retention_prefix (ev_topic ev)"] by simp
  then show ?thesis using s1 p c by (auto simp: retain_event_def wf_trim split: sum.split)
qed

lemma stamp_ok: "bus_ok b \<Longrightarrow> stamp now ev b = (ev', b') \<Longrightarrow> bus_ok b'"
  by (auto simp: stamp_def bus_ok_def split: if_splits)

lemma append_ok: "bus_ok b \<Longrightarrow> append_durable ev b = (r, b') \<Longrightarrow> bus_ok b'"
  by (auto simp: append_durable_def bus_ok_def Let_def wf_retain split: option.splits prod.splits sum.splits)
     (metis snd_conv wf_retain)+

lemma start_ok:
  assumes "bus_ok b"
  shows "bus_ok (snd (deliver_start access now deadline at ev b))"
    "fst (deliver_start access now deadline at ev b) = Inr (Waits fl) \<Longrightarrow> distinct (fl_pending fl)"
proof -
  obtain ev' b1 where s: "stamp now ev b = (ev', b1)" by fastforce
  obtain r b2 where a: "append_durable ev' b1 = (r, b2)" by fastforce
  have ok: "bus_ok b1" "bus_ok b2" using stamp_ok [OF assms s] append_ok [OF _ a] by auto
  then have "distinct (targets b2 t)" for t by (simp add: targets_distinct bus_ok_def subs_ok_def)
  note rd = round_ok [OF ok(2), of "\<lparr>fl_event = ev', fl_pending = targets b2 (ev_topic ev'), fl_counted = [],
      fl_out = outcome_new (ev_id ev') (length (targets b2 (ev_topic ev'))), fl_deadline = deadline\<rparr>" at,
      simplified, OF this]
  show "bus_ok (snd (deliver_start access now deadline at ev b))"
    using assms ok rd(1) by (simp add: deliver_start_def s a Let_def split: sum.split)
  show "fst (deliver_start access now deadline at ev b) = Inr (Waits fl) \<Longrightarrow> distinct (fl_pending fl)"
    using rd(2) by (auto simp: deliver_start_def s a Let_def split: sum.splits if_splits)
qed

section \<open>Every operation\<close>

lemma read_retained_ok: "bus_ok b \<Longrightarrow> bus_ok (snd (read_retained t d b))"
proof -
  assume ok: "bus_ok b"
  obtain r s where k: "kv_scan (b_stores b (d_kv d)) (retention_prefix t) = (r, s)" by fastforce
  then have "bm_wf (entries s)" using wf_kv_ops(3) [of "b_stores b (d_kv d)" "retention_prefix t"] ok by (simp add: bus_ok_def)
  then show ?thesis using ok k by (cases r) (auto simp: read_retained_def Let_def bus_ok_def)
qed

lemma read_retained_frame: "b_next_sub (snd (read_retained t d b)) = b_next_sub b"
    "b_subs (snd (read_retained t d b)) = b_subs b"
  by (auto simp: read_retained_def Let_def split: prod.splits sum.split)

lemma replay_ok:
  assumes "bus_ok b" "replay_events pattern limit capacity b = (r, b')"
  shows "bus_ok b'" "b_next_sub b' = b_next_sub b" "b_subs b' = b_subs b" "r = Inr q \<Longrightarrow> length q \<le> capacity"
proof -
  have "bus_ok b' \<and> b_next_sub b' = b_next_sub b \<and> b_subs b' = b_subs b \<and> (\<forall>q. r = Inr q \<longrightarrow> length q \<le> capacity)"
  proof (cases pattern)
    case (Exact t)
    show ?thesis
    proof (cases "bm_get (b_durable b) (topic_str t)")
      case (Some d)
      obtain x b1 where x: "read_retained t d b = (x, b1)" by fastforce
      have "bus_ok b1" "b_next_sub b1 = b_next_sub b" "b_subs b1 = b_subs b"
        using read_retained_ok [OF assms(1), of t d] read_retained_frame [of t d b] x by simp_all
      then show ?thesis
        using assms(2) Exact Some x by (auto simp: replay_events_def Let_def split: sum.splits)
    qed (use assms Exact in \<open>auto simp: replay_events_def\<close>)
  qed (use assms in \<open>auto simp: replay_events_def\<close>)
  then show "bus_ok b'" "b_next_sub b' = b_next_sub b" "b_subs b' = b_subs b" "r = Inr q \<Longrightarrow> length q \<le> capacity"
    by auto
qed

lemma subscribe_ok:
  assumes "bus_ok b" "pattern_wf pattern" "b_next_sub b < u64_max"
  shows "bus_ok (snd (subscribe_with access owner pattern options replay b))"
proof -
  obtain r b1 where r: "(case replay of None \<Rightarrow> (Inr [], b)
      | Some limit \<Rightarrow> replay_events pattern limit (so_capacity options) b) = (r, b1)" by fastforce
  have b1: "bus_ok b1" "b_next_sub b1 = b_next_sub b" "\<And>q. r = Inr q \<Longrightarrow> length q \<le> so_capacity options"
    using r replay_ok [OF assms(1)] assms(1) by (auto split: option.splits)
  have w: "wrap64 (b_next_sub b + 1) = b_next_sub b + 1" using assms(3) by (simp add: wrap64_def)
  show ?thesis
  proof (cases r)
    case (Inr q)
    have "sub_ok \<lparr>s_owner = owner, s_pattern = pattern, s_queue = q, s_capacity = so_capacity options,
       s_policy = so_policy options, s_dropped = 0, s_blocked = 0, s_replayed = length q\<rparr>"
      if "so_capacity options \<noteq> 0"
      using that b1(3) [OF Inr] assms(2) by (simp add: sub_ok_def)
    moreover have "bm_get (b_subs b1) sid \<noteq> None \<Longrightarrow> sid < b_next_sub b + 1" for sid
      using b1(1,2) by (auto simp: bus_ok_def less_Suc_eq)
    ultimately show ?thesis
      using assms(1) b1(1,2) Inr w unfolding subscribe_with_def r by (auto simp: bus_ok_def)
  qed (use assms(1) b1(1) in \<open>simp add: subscribe_with_def r\<close>)
qed

text \<open>The calls of the bus, each one critical section.\<close>

datatype bus_op = OpPublish nat event | OpSubscribe str str subscribe_options
  | OpSubscribePattern str topic_pattern subscribe_options | OpSubscribeReplaying str str subscribe_options nat
  | OpEnable str nat nat | OpDisable str | OpRetained str nat | OpRevokeOwner str | OpRevokeAll
  | OpRecv nat | OpDrain nat nat | OpClose nat | OpSetAccess access

fun bus_step :: "bus_op \<Rightarrow> bus \<Rightarrow> bus" where
  "bus_step (OpPublish now ev) b = snd (publish now ev b)"
| "bus_step (OpSubscribe owner pattern options) b = snd (subscribe owner pattern options b)"
| "bus_step (OpSubscribePattern owner p options) b = snd (subscribe_pattern owner p options b)"
| "bus_step (OpSubscribeReplaying owner topic options limit) b = snd (subscribe_replaying owner topic options limit b)"
| "bus_step (OpEnable topic retain kv) b = snd (enable_durable topic retain kv b)"
| "bus_step (OpDisable topic) b = disable_durable topic b"
| "bus_step (OpRetained topic limit) b = snd (retained topic limit b)"
| "bus_step (OpRevokeOwner owner) b = snd (revoke_owner owner b)"
| "bus_step OpRevokeAll b = snd (revoke_all b)"
| "bus_step (OpRecv sid) b = snd (recv sid b)"
| "bus_step (OpDrain sid n) b = snd (drain sid n b)"
| "bus_step (OpClose sid) b = snd (close_sub sid b)"
| "bus_step (OpSetAccess access) b = set_access access b"

text \<open>Strings are strings, patterns were parsed, and subscription ids last.\<close>

fun bus_op_ok :: "bus \<Rightarrow> bus_op \<Rightarrow> bool" where
  "bus_op_ok b (OpSubscribe owner pattern options) = (valid_str pattern \<and> b_next_sub b < u64_max)"
| "bus_op_ok b (OpSubscribePattern owner p options) = (pattern_wf p \<and> b_next_sub b < u64_max)"
| "bus_op_ok b (OpSubscribeReplaying owner topic options limit) = (valid_str topic \<and> b_next_sub b < u64_max)"
| "bus_op_ok b (OpEnable topic retain kv) = valid_str topic"
| "bus_op_ok b _ = True"

lemma sub_ok_shorter: "sub_ok s \<Longrightarrow> length q \<le> length (s_queue s) \<Longrightarrow> sub_ok (s\<lparr>s_queue := q\<rparr>)"
  by (simp add: sub_ok_def)

lemma bus_ok_requeue:
  assumes "bus_ok b" "bm_get (b_subs b) sid = Some s" "length q \<le> length (s_queue s)"
  shows "bus_ok (b\<lparr>b_subs := bm_insert sid (s\<lparr>s_queue := q\<rparr>) (b_subs b)\<rparr>)"
proof -
  have "sub_ok s" "sid < b_next_sub b" using assms(1,2) by (auto simp: bus_ok_def subs_ok_def)
  then show ?thesis using assms(1,3) sub_ok_shorter by (auto simp: bus_ok_def)
qed

lemma bus_ok_fewer: "bus_ok b \<Longrightarrow> subs_ok m \<Longrightarrow> (\<And>sid. bm_get m sid \<noteq> None \<Longrightarrow> bm_get (b_subs b) sid \<noteq> None) \<Longrightarrow>
    bus_ok (b\<lparr>b_subs := m\<rparr>)"
  by (auto simp: bus_ok_def)

lemma bus_step_ok:
  assumes "bus_ok b" "bus_op_ok b op"
  shows "bus_ok (bus_step op b)"
proof (cases op)
  case (OpPublish now ev)
  then show ?thesis using start_ok(1) [OF assms(1)] by (simp add: publish_def)
next
  case (OpSubscribe owner pattern options)
  then show ?thesis
    using assms subscribe_ok [OF assms(1)] pattern_parse_Inr(1)
    by (auto simp: subscribe_def split: sum.split)
next
  case (OpSubscribePattern owner p options)
  then show ?thesis using assms subscribe_ok [OF assms(1)] by (simp add: subscribe_pattern_def)
next
  case (OpSubscribeReplaying owner topic options limit)
  then show ?thesis
    using assms subscribe_ok [OF assms(1)] topic_parse_iff
    by (auto simp: subscribe_replaying_def split: sum.split)
next
  case (OpEnable topic retain kv)
  then show ?thesis
    using assms topic_parse_iff [of topic]
    by (auto simp: enable_durable_def bus_ok_def split: sum.split)
next
  case (OpDisable topic)
  then show ?thesis using assms by (auto simp: disable_durable_def bus_ok_def)
next
  case (OpRetained topic limit)
  have "bus_ok b'" if "read_retained t d b = (r, b')" for t d r b'
    using read_retained_ok [OF assms(1), of t d] that by simp
  then show ?thesis
    using assms OpRetained by (auto simp: retained_def split: sum.split option.split prod.split)
next
  case (OpRevokeOwner owner)
  have "subs_ok (b_subs b)" using assms(1) by (simp add: bus_ok_def)
  then have "bus_ok (b\<lparr>b_subs := fold bm_remove ids (b_subs b)\<rparr>)" for ids
    by (rule bus_ok_fewer [OF assms(1) subs_ok_fold]) (simp add: get_fold_remove split: if_splits)
  then show ?thesis using OpRevokeOwner by (simp add: revoke_owner_def Let_def)
next
  case OpRevokeAll
  then show ?thesis using bus_ok_fewer [OF assms(1), of "[]"] by (simp add: revoke_all_def subs_ok_def)
next
  case (OpRecv sid)
  then show ?thesis
    using assms(1) bus_ok_requeue [OF assms(1)] by (auto simp: recv_def split: option.split list.split)
next
  case (OpDrain sid n)
  then show ?thesis
    using assms(1) bus_ok_requeue [OF assms(1)] by (auto simp: drain_def Let_def split: option.split)
next
  case (OpClose sid)
  then show ?thesis
    using assms(1) bus_ok_fewer [OF assms(1), of "bm_remove sid (b_subs b)"]
    by (auto simp: close_sub_def bus_ok_def split: if_splits)
next
  case (OpSetAccess access)
  then show ?thesis using assms(1) by (simp add: set_access_def bus_ok_def)
qed

section \<open>Threads\<close>

text \<open>Publishers that wait, by thread.  A check of the access policy and the call it allows are two
  critical sections, so a call may run on a policy that was replaced since: the policies here are
  any.\<close>

record system =
  sy_bus :: bus
  sy_flights :: "nat \<Rightarrow> flight option"

fun landed :: "nat \<Rightarrow> (bus_error + round_end) \<Rightarrow> (nat \<Rightarrow> flight option) \<Rightarrow> nat \<Rightarrow> flight option" where
  "landed tid (Inr (Waits fl)) fls = fls(tid \<mapsto> fl)"
| "landed tid _ fls = fls(tid := None)"

inductive sys_step :: "system \<Rightarrow> system \<Rightarrow> bool" where
  sys_op: "bus_op_ok b op \<Longrightarrow>
    sys_step \<lparr>sy_bus = b, sy_flights = fls\<rparr> \<lparr>sy_bus = bus_step op b, sy_flights = fls\<rparr>"
| sys_subscribe: "pattern_wf p \<Longrightarrow> b_next_sub b < u64_max \<Longrightarrow> subscribe_with acc owner p opts replay b = (r, b') \<Longrightarrow>
    sys_step \<lparr>sy_bus = b, sy_flights = fls\<rparr> \<lparr>sy_bus = b', sy_flights = fls\<rparr>"
| sys_start: "fls tid = None \<Longrightarrow> deliver_start acc now (Some deadline) at ev b = (r, b') \<Longrightarrow>
    sys_step \<lparr>sy_bus = b, sy_flights = fls\<rparr> \<lparr>sy_bus = b', sy_flights = landed tid r fls\<rparr>"
| sys_wake: "fls tid = Some fl \<Longrightarrow> deliver_round at fl b = (r, b') \<Longrightarrow>
    sys_step \<lparr>sy_bus = b, sy_flights = fls\<rparr> \<lparr>sy_bus = b', sy_flights = landed tid (Inr r) fls\<rparr>"

definition sys_ok :: "system \<Rightarrow> bool" where
  "sys_ok y \<longleftrightarrow> bus_ok (sy_bus y) \<and> (\<forall>tid fl. sy_flights y tid = Some fl \<longrightarrow> distinct (fl_pending fl))"

inductive_cases sys_stepE: "sys_step y y'"

lemma landed_ok:
  "(\<And>tid fl. fls tid = Some fl \<Longrightarrow> P fl) \<Longrightarrow> (\<And>fl. r = Inr (Waits fl) \<Longrightarrow> P fl) \<Longrightarrow> landed tid r fls t = Some fl \<Longrightarrow> P fl"
  by (induction tid r fls rule: landed.induct) (auto split: if_splits)

lemma sys_step_ok: "sys_step y y' \<Longrightarrow> sys_ok y \<Longrightarrow> sys_ok y'"
proof (induction rule: sys_step.induct)
  case (sys_op b op fls)
  then show ?case by (simp add: sys_ok_def bus_step_ok)
next
  case (sys_subscribe p b acc owner opts replay r b' fls)
  then show ?case using subscribe_ok [of b p acc owner opts replay] by (simp add: sys_ok_def)
next
  case (sys_start fls tid acc now deadline at ev b r b')
  then have "bus_ok b'" "\<And>fl. r = Inr (Waits fl) \<Longrightarrow> distinct (fl_pending fl)"
    using start_ok [of b acc now "Some deadline" at ev] by (auto simp: sys_ok_def)
  then show ?case using sys_start.prems landed_ok [of fls "\<lambda>fl. distinct (fl_pending fl)" r tid]
    by (auto simp: sys_ok_def)
next
  case (sys_wake fls tid fl at b r b')
  then have "distinct (fl_pending fl)" "bus_ok b" by (auto simp: sys_ok_def)
  from round_ok [OF this(2,1), of at] sys_wake
  have "bus_ok b'" "\<And>fl'. r = Waits fl' \<Longrightarrow> distinct (fl_pending fl')" by auto
  then show ?case using sys_wake.prems landed_ok [of fls "\<lambda>fl. distinct (fl_pending fl)" "Inr r" tid]
    by (auto simp: sys_ok_def)
qed

lemma bus_new_ok: "(\<And>h. bm_wf (entries (stores h))) \<Longrightarrow> bus_ok (with_access access stores)"
  by (simp add: bus_ok_def with_access_def subs_ok_def)

end
