(* ===== verification/BusOrder.thy ===== *)
theory BusOrder
  imports BusLaws
begin

text \<open>
  What a consumer sees of the published events over any sequence of calls: their order, and where
  every one of them went.
\<close>

section \<open>One publish\<close>

lemma stamp_subs: "stamp now ev b = (ev', b') \<Longrightarrow> b_subs b' = b_subs b \<and> ev_topic ev' = ev_topic ev \<and> b_next_sub b' = b_next_sub b"
  by (auto simp: stamp_def split: if_splits)

lemma append_subs: "append_durable ev b = (r, b') \<Longrightarrow> b_subs b' = b_subs b \<and> b_next_sub b' = b_next_sub b"
  by (auto simp: append_durable_def Let_def split: option.splits prod.splits sum.splits)

lemma targets_mem: "bm_wf (b_subs b) \<Longrightarrow> sid \<in> set (targets b t) \<longleftrightarrow>
    (\<exists>s. bm_get (b_subs b) sid = Some s \<and> topic_in (s_pattern s) t)"
  by (force simp: targets_def bm_get_in)

text \<open>A publish that does not wait: one round over the matching subscriptions.\<close>

lemma publish_round:
  assumes "bus_ok b" "publish now ev b = (Inr (Returned out), b')" "stamp now ev b = (ev', b1)"
  shows "bm_get (b_subs b') sid = (case bm_get (b_subs b) sid of None \<Rightarrow> None
      | Some s \<Rightarrow> Some (if topic_in (s_pattern s) (ev_topic ev) then offered ev' False s else s))"
    "po_blocked out = live_refusing (targets b (ev_topic ev)) (b_subs b)"
    "po_matched out = length (targets b (ev_topic ev))"
    "po_delivered out = count_live (\<lambda>s. has_space s \<or> displaces s) (targets b (ev_topic ev)) (b_subs b)"
    "po_dropped out = count_live (\<lambda>s. discards s \<or> displaces s) (targets b (ev_topic ev)) (b_subs b)"
    "po_id out = ev_id ev'" "b_next_sub b' = b_next_sub b"
proof -
  obtain r b2 where a: "append_durable ev' b1 = (r, b2)" by fastforce
  have subs: "b_subs b2 = b_subs b" "ev_topic ev' = ev_topic ev" "b_next_sub b2 = b_next_sub b"
    using stamp_subs [OF assms(3)] append_subs [OF a] by simp_all
  then have t: "targets b2 (ev_topic ev') = targets b (ev_topic ev)" by (simp add: targets_def)
  let ?ids = "targets b (ev_topic ev)"
  let ?start = "\<lparr>rn_subs = b_subs b, rn_out = outcome_new (ev_id ev') (length ?ids), rn_counted = [], rn_waiting = []\<rparr>"
  let ?fin = "fold (offer ev') ?ids ?start"
  have wf: "bm_wf (b_subs b)" using assms(1) by (simp add: bus_ok_def subs_ok_def)
  have r: "round_of ev' ?ids ?start ?fin" by (rule offer_all [OF targets_distinct [OF wf]])
  have w: "rn_waiting ?fin = live_refusing ?ids (b_subs b)" using r by (simp add: round_of_def)
  have out: "rn_out ?fin = (outcome_new (ev_id ev') (length ?ids))\<lparr>
      po_delivered := count_live (\<lambda>s. has_space s \<or> displaces s) ?ids (b_subs b),
      po_dropped := count_live (\<lambda>s. discards s \<or> displaces s) ?ids (b_subs b)\<rparr>"
    using r by (simp add: round_of_def outcome_new_def)
  have res: "out = (rn_out ?fin)\<lparr>po_blocked := live_refusing ?ids (b_subs b)\<rparr>" "b' = b2\<lparr>b_subs := rn_subs ?fin\<rparr>"
    using assms(2) out w subs(1)
    by (auto simp: publish_def deliver_start_def assms(3) a Let_def t deliver_round_def outcome_new_def split: if_splits sum.splits)
  show "bm_get (b_subs b') sid = (case bm_get (b_subs b) sid of None \<Rightarrow> None
      | Some s \<Rightarrow> Some (if topic_in (s_pattern s) (ev_topic ev) then offered ev' False s else s))"
    using r targets_mem [OF wf, of sid "ev_topic ev"] by (auto simp: res(2) round_of_def split: option.split)
  show "po_blocked out = live_refusing ?ids (b_subs b)" "po_matched out = length ?ids"
    "po_delivered out = count_live (\<lambda>s. has_space s \<or> displaces s) ?ids (b_subs b)"
    "po_dropped out = count_live (\<lambda>s. discards s \<or> displaces s) ?ids (b_subs b)"
    "po_id out = ev_id ev'" "b_next_sub b' = b_next_sub b"
    unfolding res(1) out by (simp_all add: res(2) outcome_new_def subs)
qed

text \<open>It never waits, and one that fails touches no subscription.\<close>

lemma publish_returns: "fst (publish now ev b) \<noteq> Inr (Waits fl)"
  by (auto simp: publish_def deliver_start_def deliver_round_def Let_def split: prod.splits sum.splits if_splits)

lemma publish_error:
  assumes "publish now ev b = (Inl e, b')"
  shows "b_subs b' = b_subs b" "b_next_sub b' = b_next_sub b"
proof -
  obtain ev' b1 where s: "stamp now ev b = (ev', b1)" by fastforce
  obtain r b2 where a: "append_durable ev' b1 = (r, b2)" by fastforce
  show "b_subs b' = b_subs b" "b_next_sub b' = b_next_sub b"
    using assms stamp_subs [OF s] append_subs [OF a]
    by (auto simp: publish_def deliver_start_def s a Let_def map_prod_def split: if_splits sum.splits prod.splits)
qed

lemma count_live_all:
  assumes "bm_wf (b_subs b)"
  shows "count_live P (targets b t) (b_subs b) + count_live (\<lambda>s. \<not> P s) (targets b t) (b_subs b) = length (targets b t)"
proof -
  have "\<exists>s. bm_get (b_subs b) sid = Some s" if "sid \<in> set (targets b t)" for sid
    using targets_mem [OF assms, of sid t] that by auto
  then have "count_live (\<lambda>s. \<not> P s) (targets b t) (b_subs b) =
      length (filter (\<lambda>sid. \<not> (\<exists>s. bm_get (b_subs b) sid = Some s \<and> P s)) (targets b t))"
    unfolding count_live_def by (intro arg_cong [where f = length] filter_cong) auto
  then show ?thesis unfolding count_live_def
    using sum_length_filter_compl [of "\<lambda>sid. \<exists>s. bm_get (b_subs b) sid = Some s \<and> P s" "targets b t"] by simp
qed

section \<open>What flows through a subscription\<close>

fun received :: "nat \<Rightarrow> bus_op \<Rightarrow> bus \<Rightarrow> event list" where
  "received sid (OpRecv i) b = (if i = sid then (case fst (recv i b) of Some ev \<Rightarrow> [ev] | None \<Rightarrow> []) else [])"
| "received sid (OpDrain i n) b = (if i = sid then fst (drain i n b) else [])"
| "received sid _ b = []"

text \<open>The event as the bus accepted it, with its id and time.\<close>

fun accepted :: "bus_op \<Rightarrow> bus \<Rightarrow> event list" where
  "accepted (OpPublish now ev) b = (case fst (publish now ev b) of Inr _ \<Rightarrow> [fst (stamp now ev b)] | Inl _ \<Rightarrow> [])"
| "accepted _ b = []"

fun run_bus :: "bus_op list \<Rightarrow> bus \<Rightarrow> bus" where
  "run_bus [] b = b"
| "run_bus (op # ops) b = run_bus ops (bus_step op b)"

fun ops_ok :: "bus_op list \<Rightarrow> bus \<Rightarrow> bool" where
  "ops_ok [] b = True"
| "ops_ok (op # ops) b = (bus_op_ok b op \<and> ops_ok ops (bus_step op b))"

fun log_received :: "nat \<Rightarrow> bus_op list \<Rightarrow> bus \<Rightarrow> event list" where
  "log_received sid [] b = []"
| "log_received sid (op # ops) b = received sid op b @ log_received sid ops (bus_step op b)"

fun log_accepted :: "bus_op list \<Rightarrow> bus \<Rightarrow> event list" where
  "log_accepted [] b = []"
| "log_accepted (op # ops) b = accepted op b @ log_accepted ops (bus_step op b)"

text \<open>\<open>flow s pub rec s'\<close>: with the events \<open>pub\<close> coming in and \<open>rec\<close> taken out, nothing is out of order and
  everything is accounted for; nothing counted as lost means nothing lost.\<close>

definition flow :: "sub \<Rightarrow> event list \<Rightarrow> event list \<Rightarrow> sub \<Rightarrow> bool" where
  "flow s pub out s' \<longleftrightarrow> s_pattern s' = s_pattern s \<and> s_policy s' = s_policy s \<and> s_capacity s' = s_capacity s \<and>
     subseq (out @ s_queue s') (s_queue s @ pub) \<and>
     length (s_queue s) + length pub + s_dropped s + s_blocked s =
       length out + length (s_queue s') + s_dropped s' + s_blocked s' \<and>
     s_dropped s \<le> s_dropped s' \<and> s_blocked s \<le> s_blocked s' \<and>
     s_dropped s' + s_blocked s' \<le> s_dropped s + s_blocked s + length pub \<and>
     (s_dropped s' = s_dropped s \<and> s_blocked s' = s_blocked s \<longrightarrow> out @ s_queue s' = s_queue s @ pub)"

lemma flow_same [simp]: "flow s [] [] s"
  by (simp add: flow_def)

lemma flow_trans: "flow s p r s1 \<Longrightarrow> flow s1 q t s2 \<Longrightarrow> flow s (p @ q) (r @ t) s2"
proof -
  assume a: "flow s p r s1" and b: "flow s1 q t s2"
  have "subseq (r @ (t @ s_queue s2)) (r @ (s_queue s1 @ q))"
    using b unfolding flow_def by (simp only: subseq_append')
  moreover have "subseq ((r @ s_queue s1) @ q) ((s_queue s @ p) @ q)"
    using a unfolding flow_def by (simp only: subseq_append)
  ultimately have "subseq (r @ t @ s_queue s2) (s_queue s @ p @ q)"
    by (metis append.assoc subseq_order.order_trans)
  moreover have "(r @ t) @ s_queue s2 = s_queue s @ p @ q"
    if "s_dropped s2 = s_dropped s" "s_blocked s2 = s_blocked s"
  proof -
    have "r @ s_queue s1 = s_queue s @ p" "t @ s_queue s2 = s_queue s1 @ q"
      using a b that unfolding flow_def by auto
    then show ?thesis by (metis append.assoc)
  qed
  ultimately show ?thesis using a b unfolding flow_def by simp
qed

lemma flow_offered:
  assumes "sub_ok s" "s_dropped s + s_blocked s < u64_max"
  shows "flow s [ev] [] (offered ev False s)"
  using assms by (cases "s_queue s"; cases "s_policy s")
    (auto simp: offered_def flow_def has_space_def sub_ok_def wrap64_def)

text \<open>One call: a live subscription flows or is gone; a subscription that is gone stays gone.\<close>

lemma bus_step_flow:
  assumes "bus_ok b" "bus_op_ok b op" "bm_get (b_subs b) sid = Some s" "s_dropped s + s_blocked s < u64_max"
  shows "bm_get (b_subs (bus_step op b)) sid = None \<and> received sid op b = [] \<or>
    (\<exists>s'. bm_get (b_subs (bus_step op b)) sid = Some s' \<and>
       flow s (filter (\<lambda>ev. topic_in (s_pattern s) (ev_topic ev)) (accepted op b)) (received sid op b) s')"
proof -
  have ok: "sub_ok s" "sid < b_next_sub b" using assms(1,3) by (auto simp: bus_ok_def subs_ok_def)
  have sub: "bm_get (b_subs (snd (subscribe_with acc owner p opts replay b))) sid = Some s" for acc owner p opts replay
  proof -
    obtain r b1 where r: "(case replay of None \<Rightarrow> (Inr [], b)
        | Some limit \<Rightarrow> replay_events p limit (so_capacity opts) b) = (r, b1)" by fastforce
    have "b_subs b1 = b_subs b" "b_next_sub b1 = b_next_sub b"
      using r replay_ok [OF assms(1)] by (auto split: option.splits)
    then show ?thesis using assms(3) ok(2) by (simp add: subscribe_with_def r split: sum.split)
  qed
  show ?thesis
  proof (cases op)
    case (OpPublish now ev)
    obtain r b' where p: "publish now ev b = (r, b')" by fastforce
    obtain ev' b1 where st: "stamp now ev b = (ev', b1)" by fastforce
    have topic: "ev_topic ev' = ev_topic ev" using stamp_subs [OF st] by simp
    show ?thesis
    proof (cases r)
      case (Inl e)
      then show ?thesis using publish_error(1) [of now ev b e b'] p assms(3) OpPublish by simp
    next
      case (Inr x)
      then obtain out where x: "x = Returned out" using publish_returns [of now ev b] p by (cases x) auto
      then show ?thesis
        using publish_round(1) [OF assms(1) p [unfolded Inr x] st, of sid] assms(3) flow_offered [OF ok(1) assms(4)]
          topic p Inr st OpPublish by simp
    qed
  next
    case (OpSubscribe owner pattern options)
    then show ?thesis using sub assms(3) by (auto simp: subscribe_def split: sum.split)
  next
    case (OpSubscribePattern owner p options)
    then show ?thesis using sub by (auto simp: subscribe_pattern_def)
  next
    case (OpSubscribeReplaying owner topic options limit)
    then show ?thesis using sub assms(3) by (auto simp: subscribe_replaying_def split: sum.split)
  next
    case (OpEnable topic retain kv)
    then show ?thesis using assms(3) by (auto simp: enable_durable_def split: sum.split)
  next
    case (OpRetained topic limit)
    have "b_subs b' = b_subs b" if "read_retained t d b = (r, b')" for t d r b'
      using read_retained_frame(2) [of t d b] that by simp
    then show ?thesis using assms(3) OpRetained by (auto simp: retained_def split: sum.split option.split prod.split)
  next
    case (OpRecv i)
    then show ?thesis using assms(3) by (auto simp: recv_def flow_def split: option.split list.split)
  next
    case (OpDrain i n)
    then show ?thesis using assms(3) by (auto simp: drain_def flow_def Let_def split: option.split)
  qed (use assms(3) in \<open>auto simp: disable_durable_def revoke_owner_def Let_def get_fold_remove revoke_all_def
         close_sub_def set_access_def\<close>)
qed

text \<open>A subscription that is closed is closed for good.\<close>

definition gone :: "nat \<Rightarrow> bus \<Rightarrow> bool" where
  "gone sid b \<longleftrightarrow> sid < b_next_sub b \<and> bm_get (b_subs b) sid = None"

lemma gone_subscribe: "gone sid b \<Longrightarrow> b_next_sub b < u64_max \<Longrightarrow> bus_ok b \<Longrightarrow>
    gone sid (snd (subscribe_with acc owner p opts replay b))"
proof -
  assume g: "gone sid b" and n: "b_next_sub b < u64_max" and ok: "bus_ok b"
  obtain r b1 where r: "(case replay of None \<Rightarrow> (Inr [], b)
      | Some limit \<Rightarrow> replay_events p limit (so_capacity opts) b) = (r, b1)" by fastforce
  have "b_subs b1 = b_subs b" "b_next_sub b1 = b_next_sub b"
    using r replay_ok [OF ok] by (auto split: option.splits)
  then show ?thesis using g n by (auto simp: gone_def subscribe_with_def r wrap64_def split: sum.split)
qed

lemma gone_round: "gone sid b \<Longrightarrow> distinct (fl_pending fl) \<Longrightarrow> gone sid (snd (deliver_round at fl b))"
proof -
  assume g: "gone sid b" and d: "distinct (fl_pending fl)"
  let ?start = "\<lparr>rn_subs = b_subs b, rn_out = fl_out fl, rn_counted = fl_counted fl, rn_waiting = []\<rparr>"
  have "bm_get (rn_subs (fold (offer (fl_event fl)) (fl_pending fl) ?start)) sid = None"
    using offer_all [OF d, of "fl_event fl" ?start] g by (simp add: round_of_def gone_def)
  then show ?thesis using g by (simp add: deliver_round_def Let_def gone_def split: option.split)
qed

lemma gone_start: "gone sid b \<Longrightarrow> bus_ok b \<Longrightarrow> gone sid (snd (deliver_start acc now deadline at ev b))"
proof -
  assume g: "gone sid b" and ok: "bus_ok b"
  obtain ev' b1 where s: "stamp now ev b = (ev', b1)" by fastforce
  obtain r b2 where a: "append_durable ev' b1 = (r, b2)" by fastforce
  have b2: "b_subs b2 = b_subs b" "gone sid b2" using stamp_subs [OF s] append_subs [OF a] g by (simp_all add: gone_def)
  then have "distinct (targets b2 t)" for t using ok by (intro targets_distinct) (simp add: bus_ok_def subs_ok_def)
  then show ?thesis
    using g b2 gone_round [OF b2(2)] by (simp add: deliver_start_def s a Let_def split: sum.split)
qed

lemma gone_step:
  assumes "gone sid b" "bus_ok b" "bus_op_ok b op"
  shows "gone sid (bus_step op b)" "received sid op b = []"
proof -
  have read: "gone sid b'" if "read_retained t d b = (r, b')" for t d r b'
    using read_retained_frame [of t d b] that assms(1) by (simp add: gone_def)
  show "gone sid (bus_step op b)"
    using assms by (cases op) (auto simp: gone_start publish_def subscribe_def subscribe_pattern_def subscribe_replaying_def
      gone_subscribe enable_durable_def disable_durable_def retained_def revoke_owner_def Let_def revoke_all_def
      recv_def drain_def close_sub_def set_access_def gone_def [of _ "b\<lparr>b_subs := _\<rparr>"] get_fold_remove
      gone_def [of _ "b\<lparr>b_durable := _\<rparr>"] gone_def [of _ "b\<lparr>b_access := _\<rparr>"] gone_def [of _ b] dest: read
      split: sum.split option.split list.split prod.split)
  show "received sid op b = []"
    using assms(1) by (cases op) (auto simp: gone_def recv_def drain_def)
qed

lemma gone_log: "gone sid b \<Longrightarrow> bus_ok b \<Longrightarrow> ops_ok ops b \<Longrightarrow> gone sid (run_bus ops b) \<and> log_received sid ops b = []"
proof (induction ops arbitrary: b)
  case (Cons op ops)
  then show ?case using gone_step bus_step_ok by simp
qed simp

lemma next_sub_mono:
  assumes "bus_ok b" "bus_op_ok b op"
  shows "b_next_sub b \<le> b_next_sub (bus_step op b)"
proof -
  have sub: "b_next_sub b \<le> b_next_sub (snd (subscribe_with acc owner p opts replay b))" if "b_next_sub b < u64_max" for acc owner p opts replay
  proof -
    obtain r b1 where r: "(case replay of None \<Rightarrow> (Inr [], b)
        | Some limit \<Rightarrow> replay_events p limit (so_capacity opts) b) = (r, b1)" by fastforce
    have "b_next_sub b1 = b_next_sub b" using r replay_ok [OF assms(1)] by (auto split: option.splits)
    then show ?thesis using that by (auto simp: subscribe_with_def r wrap64_def split: sum.split)
  qed
  have pub: "b_next_sub b' = b_next_sub b" if "publish now ev b = (r, b')" for now ev r b'
  proof (cases r)
    case (Inl e)
    then show ?thesis using publish_error(2) that by simp
  next
    case (Inr x)
    obtain ev' b1 where st: "stamp now ev b = (ev', b1)" by fastforce
    have "x \<noteq> Waits fl" for fl using publish_returns [of now ev b fl] that Inr by simp
    then obtain out where "x = Returned out" by (cases x) auto
    then show ?thesis using publish_round(7) [OF assms(1) _ st] that Inr by simp
  qed
  have read: "b_next_sub b' = b_next_sub b" if "read_retained t d b = (r, b')" for t d r b'
    using read_retained_frame(1) [of t d b] that by simp
  show ?thesis
  proof (cases op)
    case (OpPublish now ev)
    then show ?thesis using pub by (cases "publish now ev b") simp
  next
    case (OpSubscribe owner pattern options)
    then show ?thesis using sub assms(2) by (auto simp: subscribe_def split: sum.split)
  next
    case (OpSubscribePattern owner p options)
    then show ?thesis using sub assms(2) by (simp add: subscribe_pattern_def)
  next
    case (OpSubscribeReplaying owner topic options limit)
    then show ?thesis using sub assms(2) by (auto simp: subscribe_replaying_def split: sum.split)
  next
    case (OpRetained topic limit)
    then show ?thesis using read by (auto simp: retained_def split: sum.split option.split prod.split)
  qed (auto simp: enable_durable_def disable_durable_def revoke_owner_def Let_def revoke_all_def recv_def drain_def
         close_sub_def set_access_def split: sum.split option.split list.split)
qed

text \<open>Along any sequence of calls.\<close>

lemma flow_out: "flow s p r s1 \<Longrightarrow> subseq (t @ rest) (s_queue s1 @ q) \<Longrightarrow> subseq ((r @ t) @ rest) (s_queue s @ p @ q)"
proof -
  assume a: "flow s p r s1" and b: "subseq (t @ rest) (s_queue s1 @ q)"
  have "subseq (r @ (t @ rest)) (r @ (s_queue s1 @ q))"
    using b by (simp only: subseq_append')
  moreover have "subseq ((r @ s_queue s1) @ q) ((s_queue s @ p) @ q)"
    using a unfolding flow_def by (simp only: subseq_append)
  ultimately show ?thesis by (metis append.assoc subseq_order.order_trans)
qed

lemma accepted_one: "length (filter P (accepted op b)) \<le> 1"
  by (cases op) (auto split: sum.split)

lemma run_flow:
  assumes "bus_ok b" "ops_ok ops b" "bm_get (b_subs b) sid = Some s" "s_dropped s + s_blocked s + length ops \<le> u64_max"
  shows "(\<exists>rest. subseq (log_received sid ops b @ rest)
        (s_queue s @ filter (\<lambda>ev. topic_in (s_pattern s) (ev_topic ev)) (log_accepted ops b))) \<and>
    (\<forall>s'. bm_get (b_subs (run_bus ops b)) sid = Some s' \<longrightarrow>
       flow s (filter (\<lambda>ev. topic_in (s_pattern s) (ev_topic ev)) (log_accepted ops b)) (log_received sid ops b) s')"
  using assms
proof (induction ops arbitrary: b s)
  case Nil
  have "\<exists>rest. subseq rest (s_queue s)" by (rule exI, rule subseq_order.order_refl)
  moreover have "flow s [] [] s'" if "Some s = Some s'" for s'
    using that flow_same by (simp only: option.inject)
  ultimately show ?case
    unfolding log_received.simps log_accepted.simps run_bus.simps List.filter.simps append_Nil append_Nil2 Nil.prems(3)
    by blast
next
  case (Cons op ops)
  let ?b = "bus_step op b" and ?P = "\<lambda>ev. topic_in (s_pattern s) (ev_topic ev)"
  have ok: "bus_ok ?b" "bus_op_ok b op" "ops_ok ops ?b" using Cons.prems(1,2) bus_step_ok by simp_all
  have room: "s_dropped s + s_blocked s < u64_max" using Cons.prems(4) by simp
  have sub: "sid < b_next_sub b" using Cons.prems(1,3) by (simp add: bus_ok_def)
  from bus_step_flow [OF Cons.prems(1) ok(2) Cons.prems(3) room]
  consider (closed) "bm_get (b_subs ?b) sid = None" "received sid op b = []"
    | (live) s1 where "bm_get (b_subs ?b) sid = Some s1" "flow s (filter ?P (accepted op b)) (received sid op b) s1"
    by (elim disjE exE conjE)
  then show ?case
  proof cases
    case closed
    then have "gone sid ?b"
      using sub next_sub_mono [OF Cons.prems(1) ok(2)] by (simp add: gone_def)
    from gone_log [OF this ok(1,3)] show ?thesis
      using closed by (simp add: gone_def) (rule exI [of _ "[]"], rule list_emb_Nil)
  next
    case live
    have same: "s_pattern s1 = s_pattern s"
      and "s_dropped s1 + s_blocked s1 \<le> s_dropped s + s_blocked s + length (filter ?P (accepted op b))"
      using live(2) unfolding flow_def by blast+
    then have "s_dropped s1 + s_blocked s1 + length ops \<le> u64_max"
      using accepted_one [of ?P op b] Cons.prems(4) by simp
    note ih = Cons.IH [OF ok(1,3) live(1) this(1), unfolded same]
    from conjunct1 [OF ih] obtain rest where
      rest: "subseq (log_received sid ops ?b @ rest) (s_queue s1 @ filter ?P (log_accepted ops ?b))" ..
    note later = conjunct2 [OF ih, THEN spec, THEN mp]
    show ?thesis
    proof (intro conjI exI allI impI)
      show "subseq (log_received sid (op # ops) b @ rest) (s_queue s @ filter ?P (log_accepted (op # ops) b))"
        using flow_out [OF live(2) rest] by simp
      show "flow s (filter ?P (log_accepted (op # ops) b)) (log_received sid (op # ops) b) s'"
        if "bm_get (b_subs (run_bus (op # ops) b)) sid = Some s'" for s'
        using flow_trans [OF live(2) later, of s'] that by simp
    qed
  qed
qed

end
