(* ===== verification/BusWaiting.thy ===== *)
theory BusWaiting
  imports BusOrder
begin

text \<open>
  A publisher that waits: the rounds it makes, what becomes of every matching subscription over them,
  and the outcome it returns with.
\<close>

section \<open>The rounds\<close>

text \<open>The clock after a round, and the bus it found and left.\<close>

record round_at =
  rd_at :: nat
  rd_before :: bus
  rd_after :: bus

fun await_rounds :: "(nat \<times> (bus \<Rightarrow> bus)) list \<Rightarrow> flight \<Rightarrow> bus \<Rightarrow> round_at list" where
  "await_rounds [] fl b = []"
| "await_rounds ((at, others) # ws) fl b =
     (case deliver_round at fl (others b) of
        (Returned out, b') \<Rightarrow> [\<lparr>rd_at = at, rd_before = others b, rd_after = b'\<rparr>]
      | (Waits fl, b') \<Rightarrow> \<lparr>rd_at = at, rd_before = others b, rd_after = b'\<rparr> # await_rounds ws fl b')"

definition blocking_rounds :: "nat \<Rightarrow> nat \<Rightarrow> nat \<Rightarrow> (nat \<times> (bus \<Rightarrow> bus)) list \<Rightarrow> event \<Rightarrow> bus \<Rightarrow> round_at list" where
  "blocking_rounds now deadline at wakes ev b =
    (let (ev', b1) = stamp now ev b; start = snd (append_durable ev' b1)
     in case deliver_start (b_access b) now (Some deadline) at ev b of
          (Inl e, b') \<Rightarrow> []
        | (Inr (Returned out), b') \<Rightarrow> [\<lparr>rd_at = at, rd_before = start, rd_after = b'\<rparr>]
        | (Inr (Waits fl), b') \<Rightarrow> \<lparr>rd_at = at, rd_before = start, rd_after = b'\<rparr> # await_rounds wakes fl b')"

text \<open>What becomes of a subscription: the first round that finds it closed, with room or with another
  policy decides.\<close>

datatype fate = StillFull | WentIn | PushedOut | Discarded | Vanished

fun fate_of :: "nat \<Rightarrow> round_at list \<Rightarrow> fate" where
  "fate_of sid [] = StillFull"
| "fate_of sid (rd # rds) = (case bm_get (b_subs (rd_before rd)) sid of
     None \<Rightarrow> Vanished
   | Some s \<Rightarrow>
       if length (s_queue s) < s_capacity s then WentIn
       else case s_policy s of DropOldest \<Rightarrow> PushedOut | DropNewest \<Rightarrow> Discarded | Block \<Rightarrow> fate_of sid rds)"

definition tally :: "fate set \<Rightarrow> nat list \<Rightarrow> round_at list \<Rightarrow> nat" where
  "tally F ids rds = length (filter (\<lambda>sid. fate_of sid rds \<in> F) ids)"

lemma fate_append: "fate_of sid (rds @ rds') = (if fate_of sid rds = StillFull then fate_of sid rds' else fate_of sid rds)"
  by (induction rds) (auto split: option.split overflow_policy.split)

text \<open>One more round settles those still full, as the round finds them.\<close>

lemma fate_one:
  "fate_of sid [rd] = WentIn \<longleftrightarrow> (\<exists>s. bm_get (b_subs (rd_before rd)) sid = Some s \<and> has_space s)"
  "fate_of sid [rd] = PushedOut \<longleftrightarrow> (\<exists>s. bm_get (b_subs (rd_before rd)) sid = Some s \<and> displaces s)"
  "fate_of sid [rd] = Discarded \<longleftrightarrow> (\<exists>s. bm_get (b_subs (rd_before rd)) sid = Some s \<and> discards s)"
  "fate_of sid [rd] = StillFull \<longleftrightarrow> (\<exists>s. bm_get (b_subs (rd_before rd)) sid = Some s \<and> refuses s)"
  by (auto simp: has_space_def displaces_def discards_def refuses_def split: option.split overflow_policy.splits)

lemma tally_snoc:
  assumes "StillFull \<notin> F" "\<And>sid. fate_of sid [rd] \<in> F \<longleftrightarrow> (\<exists>s. bm_get (b_subs (rd_before rd)) sid = Some s \<and> P s)"
  shows "tally F ids (rds @ [rd]) = tally F ids rds + count_live P (filter (\<lambda>sid. fate_of sid rds = StillFull) ids) (b_subs (rd_before rd))"
  using assms by (induction ids) (auto simp: tally_def count_live_def fate_append)

section \<open>Between two rounds\<close>

definition tallied :: "nat list \<Rightarrow> round_at list \<Rightarrow> publish_outcome \<Rightarrow> bool" where
  "tallied ids rds out \<longleftrightarrow> po_matched out = length ids \<and>
     po_delivered out = tally {WentIn, PushedOut} ids rds \<and> po_dropped out = tally {Discarded, PushedOut} ids rds"

definition pending :: "nat list \<Rightarrow> round_at list \<Rightarrow> nat list" where
  "pending ids rds = filter (\<lambda>sid. fate_of sid rds = StillFull) ids"

text \<open>What every round did to every subscription.\<close>

definition rounds_put :: "event \<Rightarrow> nat list \<Rightarrow> round_at list \<Rightarrow> bool" where
  "rounds_put ev ids rds \<longleftrightarrow> (\<forall>i < length rds. \<forall>sid. bm_get (b_subs (rd_after (rds ! i))) sid =
     (if sid \<in> set ids \<and> fate_of sid (take i rds) = StillFull
      then map_option (offered ev (0 < i)) (bm_get (b_subs (rd_before (rds ! i))) sid)
      else bm_get (b_subs (rd_before (rds ! i))) sid))"

definition in_flight :: "event \<Rightarrow> nat list \<Rightarrow> nat \<Rightarrow> round_at list \<Rightarrow> flight \<Rightarrow> bool" where
  "in_flight ev ids deadline rds fl \<longleftrightarrow> distinct ids \<and> fl_event fl = ev \<and> fl_pending fl = pending ids rds \<and>
     (\<forall>sid \<in> set (fl_pending fl). sid \<in> set (fl_counted fl) \<longleftrightarrow> rds \<noteq> []) \<and> fl_deadline fl = Some deadline \<and>
     tallied ids rds (fl_out fl) \<and> po_blocked (fl_out fl) = [] \<and> po_id (fl_out fl) = ev_id ev \<and> rounds_put ev ids rds"

text \<open>How a publisher returns.\<close>

definition accounted :: "event \<Rightarrow> nat list \<Rightarrow> nat \<Rightarrow> round_at list \<Rightarrow> publish_outcome \<Rightarrow> bus \<Rightarrow> bool" where
  "accounted ev ids deadline rds out b \<longleftrightarrow> rds \<noteq> [] \<and> rd_after (last rds) = b \<and> tallied ids rds out \<and>
     po_id out = ev_id ev \<and> po_blocked out = pending ids rds \<and>
     (po_blocked out \<noteq> [] \<longrightarrow> deadline \<le> rd_at (last rds)) \<and>
     (\<forall>sid \<in> set (po_blocked out). \<exists>s. bm_get (b_subs b) sid = Some s \<and> refuses s) \<and> rounds_put ev ids rds"

text \<open>Every subscription has one fate.\<close>

lemma tally_partition:
  "tally {WentIn, PushedOut} ids rds + tally {Discarded} ids rds + tally {Vanished} ids rds + length (pending ids rds) = length ids"
proof (induction ids)
  case (Cons sid ids)
  then show ?case by (cases "fate_of sid rds") (simp_all add: tally_def pending_def)
qed (simp add: tally_def pending_def)

lemma refuses_offered: "refuses s \<Longrightarrow> refuses (offered ev seen s)"
  by (simp add: refuses_def offered_def has_space_def)

lemma pending_snoc: "pending ids (rds @ [rd]) = live_refusing (pending ids rds) (b_subs (rd_before rd))"
  by (auto simp: pending_def live_refusing_def fate_append fate_one(4) simp del: fate_of.simps intro!: filter_cong)

lemma rounds_put_snoc:
  assumes "rounds_put ev ids rds" "\<And>sid. bm_get (b_subs (rd_after rd)) sid =
     (if sid \<in> set (pending ids rds) then map_option (offered ev (rds \<noteq> [])) (bm_get (b_subs (rd_before rd)) sid)
      else bm_get (b_subs (rd_before rd)) sid)"
  shows "rounds_put ev ids (rds @ [rd])"
  using assms by (auto simp: rounds_put_def pending_def nth_append less_Suc_eq)

lemma tallied_snoc:
  assumes "tallied ids rds out"
  shows "tallied ids (rds @ [rd]) (out\<lparr>
     po_delivered := po_delivered out + count_live (\<lambda>s. has_space s \<or> displaces s) (pending ids rds) (b_subs (rd_before rd)),
     po_dropped := po_dropped out + count_live (\<lambda>s. discards s \<or> displaces s) (pending ids rds) (b_subs (rd_before rd))\<rparr>)"
proof -
  have "tally {WentIn, PushedOut} ids (rds @ [rd]) = tally {WentIn, PushedOut} ids rds +
      count_live (\<lambda>s. has_space s \<or> displaces s) (pending ids rds) (b_subs (rd_before rd))"
    unfolding pending_def by (rule tally_snoc) (use fate_one in auto)
  moreover have "tally {Discarded, PushedOut} ids (rds @ [rd]) = tally {Discarded, PushedOut} ids rds +
      count_live (\<lambda>s. discards s \<or> displaces s) (pending ids rds) (b_subs (rd_before rd))"
    unfolding pending_def by (rule tally_snoc) (use fate_one in auto)
  ultimately show ?thesis using assms by (simp add: tallied_def)
qed

section \<open>One more round, and the whole run\<close>

lemma flight_round:
  assumes "in_flight ev ids deadline rds fl" "deliver_round at fl b = (e, b')"
  defines "rds' \<equiv> rds @ [\<lparr>rd_at = at, rd_before = b, rd_after = b'\<rparr>]"
  shows "case e of Returned out \<Rightarrow> accounted ev ids deadline rds' out b'
    | Waits fl' \<Rightarrow> in_flight ev ids deadline rds' fl' \<and> at < deadline"
proof -
  let ?ids = "pending ids rds" and ?rd = "\<lparr>rd_at = at, rd_before = b, rd_after = b'\<rparr>"
  let ?start = "\<lparr>rn_subs = b_subs b, rn_out = fl_out fl, rn_counted = fl_counted fl, rn_waiting = []\<rparr>"
  let ?r = "fold (offer ev) ?ids ?start"
  note fl = assms(1) [unfolded in_flight_def]
  have r: "round_of ev ?ids ?start ?r" by (rule offer_all) (use fl in \<open>simp add: pending_def\<close>)
  have b': "b' = b\<lparr>b_subs := rn_subs ?r\<rparr>"
    using assms(2) fl by (auto simp: deliver_round_def Let_def split: if_splits)
  have w: "rn_waiting ?r = pending ids rds'" using r by (simp add: round_of_def rds'_def pending_snoc)
  have "bm_get (b_subs (rd_after ?rd)) sid = (if sid \<in> set ?ids
      then map_option (offered ev (rds \<noteq> [])) (bm_get (b_subs (rd_before ?rd)) sid) else bm_get (b_subs (rd_before ?rd)) sid)" for sid
    using r fl by (simp add: round_of_def b')
  with fl have put: "rounds_put ev ids rds'" unfolding rds'_def by (intro rounds_put_snoc) simp_all
  have out: "tallied ids rds' (rn_out ?r)" "po_blocked (rn_out ?r) = []" "po_id (rn_out ?r) = ev_id ev"
    using r fl tallied_snoc [of ids rds "fl_out fl" ?rd] by (simp_all add: round_of_def rds'_def)
  have full: "\<exists>s. bm_get (b_subs b') sid = Some s \<and> refuses s" if "sid \<in> set (pending ids rds')" for sid
    using that r refuses_offered by (auto simp: b' round_of_def rds'_def pending_snoc live_refusing_def)
  have counted: "\<forall>sid \<in> set (pending ids rds'). sid \<in> set (rn_counted ?r)"
    using r by (auto simp: round_of_def rds'_def pending_snoc)
  have last: "rds' \<noteq> []" "last rds' = ?rd" by (simp_all add: rds'_def)
  show ?thesis
  proof (cases "pending ids rds' = [] \<or> deadline \<le> at")
    case True
    then have "e = Returned ((rn_out ?r)\<lparr>po_blocked := pending ids rds'\<rparr>)"
      using assms(2) fl w out(2) by (auto simp: deliver_round_def Let_def split: if_splits)
    then show ?thesis using True out put full last by (auto simp: accounted_def tallied_def)
  next
    case False
    then have "e = Waits (fl\<lparr>fl_pending := pending ids rds', fl_counted := rn_counted ?r, fl_out := rn_out ?r\<rparr>)"
      using assms(2) fl w by (auto simp: deliver_round_def Let_def split: if_splits)
    then show ?thesis using False out put counted last(1) fl by (simp add: in_flight_def)
  qed
qed

lemma await_accounts:
  assumes "in_flight ev ids deadline rds fl" "await wakes fl b = (r, b')"
  shows "\<exists>(at, others) \<in> set wakes. deadline \<le> at \<Longrightarrow> r \<noteq> None"
    "r = Some out \<Longrightarrow> accounted ev ids deadline (rds @ await_rounds wakes fl b) out b'"
proof -
  have "((\<exists>(at, others) \<in> set wakes. deadline \<le> at) \<longrightarrow> r \<noteq> None) \<and>
      (\<forall>out. r = Some out \<longrightarrow> accounted ev ids deadline (rds @ await_rounds wakes fl b) out b')"
    using assms
  proof (induction wakes fl b arbitrary: rds rule: await.induct)
    case (2 at others ws fl b)
    obtain e b1 where d: "deliver_round at fl (others b) = (e, b1)" by fastforce
    note step = flight_round [OF 2(2) d]
    show ?case
    proof (cases e)
      case (Returned out)
      then show ?thesis using 2(3) step d by auto
    next
      case (Waits fl')
      then show ?thesis using 2(1) [OF d [symmetric] Waits, of "rds @ [\<lparr>rd_at = at, rd_before = others b, rd_after = b1\<rparr>]"]
          2(3) step d by auto
    qed
  qed auto
  then show "\<exists>(at, others) \<in> set wakes. deadline \<le> at \<Longrightarrow> r \<noteq> None"
    "r = Some out \<Longrightarrow> accounted ev ids deadline (rds @ await_rounds wakes fl b) out b'" by auto
qed

lemma deliver_error:
  assumes "deliver_start acc now deadline at ev b = (Inl e, b')" "stamp now ev b = (ev', b1)"
  shows "(\<not> may_publish acc (ev_source ev) (ev_topic ev) \<or> fst (append_durable ev' b1) = Inl e) \<and> b_subs b' = b_subs b"
proof -
  obtain x b2 where a: "append_durable ev' b1 = (x, b2)" by fastforce
  show ?thesis
    using assms(1) stamp_subs [OF assms(2)] append_subs [OF a]
    by (auto simp: deliver_start_def assms(2) a Let_def map_prod_def split: if_splits sum.splits prod.splits)
qed

lemma start_accounts:
  assumes "bus_ok b" "deliver_start acc now (Some deadline) at ev b = (Inr e, b')" "stamp now ev b = (ev', b1)"
  defines "rds \<equiv> [\<lparr>rd_at = at, rd_before = snd (append_durable ev' b1), rd_after = b'\<rparr>]"
  shows "b_subs (snd (append_durable ev' b1)) = b_subs b"
    "case e of Returned out \<Rightarrow> accounted ev' (targets b (ev_topic ev)) deadline rds out b'
     | Waits fl \<Rightarrow> in_flight ev' (targets b (ev_topic ev)) deadline rds fl"
proof -
  obtain x b2 where a: "append_durable ev' b1 = (x, b2)" by fastforce
  have subs: "b_subs b2 = b_subs b" "ev_topic ev' = ev_topic ev" using stamp_subs [OF assms(3)] append_subs [OF a] by simp_all
  then have t: "targets b2 (ev_topic ev') = targets b (ev_topic ev)" by (simp add: targets_def)
  show "b_subs (snd (append_durable ev' b1)) = b_subs b" by (simp add: a subs)
  let ?ids = "targets b (ev_topic ev)"
  let ?fl = "\<lparr>fl_event = ev', fl_pending = ?ids, fl_counted = [], fl_out = outcome_new (ev_id ev') (length ?ids), fl_deadline = Some deadline\<rparr>"
  have "in_flight ev' ?ids deadline [] ?fl"
    using assms(1) targets_distinct [of b "ev_topic ev"]
    by (simp add: in_flight_def pending_def tallied_def tally_def outcome_new_def rounds_put_def bus_ok_def subs_ok_def)
  moreover have "deliver_round at ?fl b2 = (e, b')"
    using assms(2) by (auto simp: deliver_start_def assms(3) a t Let_def map_prod_def split: if_splits sum.splits prod.splits)
  ultimately have "case e of Returned out \<Rightarrow> accounted ev' ?ids deadline ([] @ [\<lparr>rd_at = at, rd_before = b2, rd_after = b'\<rparr>]) out b'
      | Waits fl' \<Rightarrow> in_flight ev' ?ids deadline ([] @ [\<lparr>rd_at = at, rd_before = b2, rd_after = b'\<rparr>]) fl' \<and> at < deadline"
    by (rule flight_round)
  then show "case e of Returned out \<Rightarrow> accounted ev' ?ids deadline rds out b' | Waits fl \<Rightarrow> in_flight ev' ?ids deadline rds fl"
    by (simp add: rds_def a split: round_end.splits)
qed

text \<open>A publisher that waits either fails before it touches a subscription or returns past its deadline at
  the latest, and its outcome accounts for its rounds.\<close>

lemma blocking_accounts:
  assumes "bus_ok b" "publish_blocking now deadline at wakes ev b = (r, b')" "\<exists>(at, others) \<in> set wakes. deadline \<le> at"
    "stamp now ev b = (ev', b1)"
  shows "(\<exists>e. r = Inl e \<and> b_subs b' = b_subs b \<and>
       (\<not> may_publish (b_access b) (ev_source ev) (ev_topic ev) \<or> fst (append_durable ev' b1) = Inl e)) \<or>
    (\<exists>out. r = Inr (Some out) \<and> b_subs (rd_before (hd (blocking_rounds now deadline at wakes ev b))) = b_subs b \<and>
       accounted ev' (targets b (ev_topic ev)) deadline (blocking_rounds now deadline at wakes ev b) out b')"
proof -
  obtain e b2 where s: "deliver_start (b_access b) now (Some deadline) at ev b = (e, b2)" by fastforce
  show ?thesis
  proof (cases e)
    case (Inl x)
    then show ?thesis using assms(2) s deliver_error [OF _ assms(4)] by (auto simp: publish_blocking_def)
  next
    case (Inr x)
    note st = start_accounts [OF assms(1) s [unfolded Inr] assms(4)]
    show ?thesis
    proof (cases x)
      case (Returned out)
      then show ?thesis using assms(2,4) s Inr st by (auto simp: publish_blocking_def blocking_rounds_def Let_def)
    next
      case (Waits fl)
      obtain w where w: "await wakes fl b2 = (w, b')" "r = Inr w"
        using assms(2) s Inr Waits by (auto simp: publish_blocking_def map_prod_def split: prod.splits)
      have rds: "blocking_rounds now deadline at wakes ev b =
          [\<lparr>rd_at = at, rd_before = snd (append_durable ev' b1), rd_after = b2\<rparr>] @ await_rounds wakes fl b2"
        using assms(4) s Inr Waits by (simp add: blocking_rounds_def Let_def)
      from await_accounts [OF st(2) [unfolded Waits round_end.case] w(1)] assms(3) show ?thesis
        unfolding rds w(2) using st(1) by auto
    qed
  qed
qed

end
