(* ===== verification/BusLog.thy ===== *)
theory BusLog
  imports BusLaws
begin

text \<open>
  The retained log of a durable topic: the rows under its prefix are a list of events in order of
  their time stamp and id, and retaining an event inserts it there and keeps the newest ones.
\<close>

section \<open>Rows under a prefix\<close>

lemma bm_scan_insert_in:
  assumes "bm_wf m" "prefix p k"
  shows "bm_scan p (bm_insert k v m) = bm_insert k v (bm_scan p m)"
  by (rule bm_ext) (use assms in \<open>auto simp: bm_scan_filter bm_get_filter fun_eq_iff\<close>)

lemma fold_remove_filter: "fold bm_remove ks m = filter (\<lambda>e. fst e \<notin> set ks) m"
  by (induction ks arbitrary: m) (auto simp: bm_remove_def intro: filter_cong)

lemma filter_take_drop: "distinct (map fst rows) \<Longrightarrow> filter (\<lambda>e. fst e \<notin> fst ` set (take n rows)) rows = drop n rows"
proof (induction rows arbitrary: n)
  case (Cons r rows)
  show ?case
  proof (cases n)
    case (Suc k)
    have "filter (\<lambda>e. fst e \<notin> insert (fst r) (fst ` set (take k rows))) rows =
        filter (\<lambda>e. fst e \<notin> fst ` set (take k rows)) rows"
      using Cons.prems by (intro filter_cong) (auto simp: rev_image_eqI)
    then show ?thesis using Cons Suc by simp
  qed simp
qed simp

lemma scan_fold_remove:
  assumes "bm_wf m"
  shows "bm_scan p (fold bm_remove (map fst (take n (bm_scan p m))) m) = drop n (bm_scan p m)"
proof -
  let ?rows = "bm_scan p m"
  have "bm_scan p (fold bm_remove (map fst (take n ?rows)) m) = filter (\<lambda>e. fst e \<notin> fst ` set (take n ?rows)) ?rows"
    using assms by (simp add: fold_remove_filter bm_scan_filter conj_commute)
  also have "\<dots> = drop n ?rows"
    using bm_wf_distinct [OF bm_scan_wf [OF assms]] by (rule filter_take_drop)
  finally show ?thesis .
qed

lemma scan_fold_remove_out:
  assumes "bm_wf m" "\<forall>k \<in> set ks. \<not> prefix p k"
  shows "bm_scan p (fold bm_remove ks m) = bm_scan p m"
  using assms by (auto simp: fold_remove_filter bm_scan_filter intro!: filter_cong)

text \<open>Without faults trimming deletes the rows and nothing else.\<close>

lemma trim_faultless:
  "script s = [] \<Longrightarrow> trim_rows n rows s = (Inr (), s\<lparr>entries := fold bm_remove (map fst (take n rows)) (entries s)\<rparr>)"
  by (induction n rows s rule: trim_rows.induct) (auto simp: kv_defs take_Cons' split: nat.split)

lemma retain_faultless:
  assumes "script s = []"
    and m: "m = bm_insert (retention_key (ev_topic ev) (ev_ts ev) (ev_id ev)) (event_encode ev) (entries s)"
    and rows: "rows = bm_scan (retention_prefix (ev_topic ev)) m"
  shows "retain_event n ev s = (Inr (), s\<lparr>entries := fold bm_remove (map fst (take (length rows - n) rows)) m\<rparr>)"
  using assms(1) by (simp add: retain_event_def kv_defs trim_faultless m rows)

section \<open>Keys\<close>

lemma dec020_ascii: "n \<le> u64_max \<Longrightarrow> ascii (dec020 n)"
proof -
  have "c < 128" if "c \<in> set (digits w n)" for c w n
    using that
  proof (induction w arbitrary: n)
    case (Suc w)
    then show ?case using mod_less_divisor [of 10 n] by auto
  qed simp
  then show "n \<le> u64_max \<Longrightarrow> ascii (dec020 n)" by (simp add: dec020_digits ascii_def)
qed

lemma retention_key_prefix: "prefix (retention_prefix t) (retention_key t ts i)"
  by (simp add: retention_prefix_def retention_key_def prefix_def)

lemma topic_no_slash: "topic_wf t \<Longrightarrow> 47 \<notin> set (topic_str t)"
proof
  assume wf: "topic_wf t" and "47 \<in> set (topic_str t)"
  then have "47 \<in> \<Union> (set ` set (topic_segments t))"
    using set_split_on [of dot "topic_str t"] by (simp add: topic_segments_def)
  then obtain seg where "seg \<in> set (topic_segments t)" "47 \<in> set seg" by blast
  with wf have "is_alnum 47 \<or> (47 :: nat) = 45 \<or> (47 :: nat) = 95" unfolding topic_wf_def by blast
  then show False by (simp add: is_alnum_def)
qed

lemma retention_other:
  assumes "topic_wf t" "topic_wf t'" "t \<noteq> t'" "ts \<le> u64_max" "i \<le> u64_max"
  shows "\<not> prefix (retention_prefix t') (retention_key t ts i)"
proof
  have asc: "ascii (lit ''v1/'')" "ascii (lit ''/'')" by (simp_all add: ascii_def lit_def)
  assume "prefix (retention_prefix t') (retention_key t ts i)"
  then have "prefix (lit ''v1/'' @ topic_str t' @ lit ''/'') (lit ''v1/'' @ topic_str t @ lit ''/'' @ dec020 ts @ lit ''/'' @ dec020 i)"
    unfolding retention_prefix_def retention_key_def
    using assms by (subst (asm) prefix_utf8) (simp_all only: ascii_append asc topic_wf_ascii dec020_ascii simp_thms)
  then have "prefix (topic_str t' @ 47 # []) (topic_str t @ 47 # dec020 ts @ lit ''/'' @ dec020 i)"
    by (simp add: lit_def)
  then show False
    using prefix_sep [OF topic_no_slash [OF assms(2)] topic_no_slash [OF assms(1)]] assms(3)
    by (cases t; cases t') simp
qed

lemma retention_key_less:
  assumes "ts \<le> u64_max" "i \<le> u64_max" "ts' \<le> u64_max" "i' \<le> u64_max"
  shows "retention_key t ts i < retention_key t ts' i' \<longleftrightarrow> ts < ts' \<or> ts = ts' \<and> i < i'"
    "retention_key t ts i = retention_key t ts' i' \<longleftrightarrow> ts = ts' \<and> i = i'"
proof -
  note n = dec020_bytes(1) [OF assms(1,3)] dec020_bytes(1) [OF assms(3,1)]
  have l: "length (utf8 (dec020 ts)) = length (utf8 (dec020 ts'))" using n by simp
  show "retention_key t ts i < retention_key t ts' i' \<longleftrightarrow> ts < ts' \<or> ts = ts' \<and> i < i'"
    unfolding retention_key_def utf8_simps append_assoc append_less_same append_less_length [OF l]
      dec020_bytes(2) [OF assms(1,3)] dec020_bytes(3) [OF assms(1,3)] dec020_bytes(2) [OF assms(2,4)] ..
  show "retention_key t ts i = retention_key t ts' i' \<longleftrightarrow> ts = ts' \<and> i = i'"
    unfolding retention_key_def utf8_simps append_assoc same_append_eq append_eq_append_conv [OF disjI1 [OF l]]
      dec020_bytes(3) [OF assms(1,3)] dec020_bytes(3) [OF assms(2,4)] ..
qed

section \<open>The log as a list of events\<close>

definition before :: "event \<Rightarrow> event \<Rightarrow> bool" where
  "before a b \<longleftrightarrow> ev_ts a < ev_ts b \<or> ev_ts a = ev_ts b \<and> ev_id a < ev_id b"

definition same_slot :: "event \<Rightarrow> event \<Rightarrow> bool" where
  "same_slot a b \<longleftrightarrow> ev_ts a = ev_ts b \<and> ev_id a = ev_id b"

fun log_insert :: "event \<Rightarrow> event list \<Rightarrow> event list" where
  "log_insert ev [] = [ev]"
| "log_insert ev (e # es) = (if before ev e then ev # e # es else if same_slot ev e then ev # es else e # log_insert ev es)"

definition log_row :: "topic \<Rightarrow> event \<Rightarrow> bytes \<times> bytes" where
  "log_row t ev = (retention_key t (ev_ts ev) (ev_id ev), event_encode ev)"

text \<open>The topic's rows are the events \<open>evs\<close>.\<close>

definition holds_log :: "topic \<Rightarrow> event list \<Rightarrow> kv \<Rightarrow> bool" where
  "holds_log t evs s \<longleftrightarrow> bm_scan (retention_prefix t) (entries s) = map (log_row t) evs \<and>
     (\<forall>ev \<in> set evs. event_wf ev \<and> ev_topic ev = t)"

lemma event_wf_bounds: "event_wf ev \<Longrightarrow> ev_ts ev \<le> u64_max \<and> ev_id ev \<le> u64_max \<and> topic_wf (ev_topic ev)"
  unfolding event_wf_def by blast

lemma set_log_insert: "set (log_insert ev evs) \<subseteq> insert ev (set evs)"
  by (induction ev evs rule: log_insert.induct) auto

lemma insert_rows: "event_wf ev \<Longrightarrow> \<forall>e \<in> set evs. event_wf e \<Longrightarrow>
    bm_insert (retention_key t (ev_ts ev) (ev_id ev)) (event_encode ev) (map (log_row t) evs) = map (log_row t) (log_insert ev evs)"
proof (induction ev evs rule: log_insert.induct)
  case (2 ev e es)
  have b: "ev_ts ev \<le> u64_max" "ev_id ev \<le> u64_max" "ev_ts e \<le> u64_max" "ev_id e \<le> u64_max"
    using 2(2,3) event_wf_bounds by auto
  note k = retention_key_less [OF b, of t]
  show ?case
    using 2 by (simp add: log_row_def [of t e] k before_def same_slot_def) (auto simp: log_row_def)
qed (simp add: log_row_def)

lemma retention_step:
  assumes "script s = []" "bm_wf (entries s)" "event_wf ev" "holds_log (ev_topic ev) evs s"
  obtains s' where "retain_event n ev s = (Inr (), s')" "script s' = []" "bm_wf (entries s')"
    "holds_log (ev_topic ev) (drop (length (log_insert ev evs) - n) (log_insert ev evs)) s'"
    "\<And>t. topic_wf t \<Longrightarrow> t \<noteq> ev_topic ev \<Longrightarrow>
       bm_scan (retention_prefix t) (entries s') = bm_scan (retention_prefix t) (entries s)"
proof -
  let ?t = "ev_topic ev" and ?k = "retention_key (ev_topic ev) (ev_ts ev) (ev_id ev)"
  let ?p = "retention_prefix ?t" and ?m = "bm_insert ?k (event_encode ev) (entries s)"
  let ?evs = "log_insert ev evs" and ?rows = "bm_scan ?p ?m"
  let ?s = "s\<lparr>entries := fold bm_remove (map fst (take (length ?rows - n) ?rows)) ?m\<rparr>"
  have wf: "bm_wf ?m" using assms(2) by simp
  have old: "bm_scan ?p (entries s) = map (log_row ?t) evs" and evs: "\<forall>e \<in> set evs. event_wf e \<and> ev_topic e = ?t"
    using assms(4) by (simp_all add: holds_log_def)
  have "\<forall>e \<in> set evs. event_wf e" using evs by blast
  then have rows: "?rows = map (log_row ?t) ?evs"
    unfolding bm_scan_insert_in [OF assms(2) retention_key_prefix] old by (rule insert_rows [OF assms(3)])
  have all: "\<forall>e \<in> set ?evs. event_wf e \<and> ev_topic e = ?t" using evs assms(3) set_log_insert [of ev evs] by blast
  show thesis
  proof
    show "retain_event n ev s = (Inr (), ?s)" by (rule retain_faultless [OF assms(1) refl refl])
    show "script ?s = []" "bm_wf (entries ?s)" using assms(1) wf by (simp_all add: fold_remove_filter)
    have "bm_scan ?p (entries ?s) = drop (length ?rows - n) ?rows" using scan_fold_remove [OF wf] by simp
    then show "holds_log ?t (drop (length ?evs - n) ?evs) ?s"
      using all unfolding rows by (auto simp: holds_log_def drop_map dest: in_set_dropD)
    show "bm_scan (retention_prefix t) (entries ?s) = bm_scan (retention_prefix t) (entries s)"
      if t: "topic_wf t" "t \<noteq> ?t" for t
    proof -
      have no: "\<not> prefix (retention_prefix t) (retention_key ?t (ev_ts e) (ev_id e))" if "event_wf e" for e
        using retention_other [of ?t t "ev_ts e" "ev_id e"] t event_wf_bounds [OF that] event_wf_bounds [OF assms(3)] by blast
      then have "\<forall>k \<in> set (map fst (take (length ?rows - n) ?rows)). \<not> prefix (retention_prefix t) k"
        unfolding rows using all by (auto simp: take_map log_row_def dest!: in_set_takeD)
      then show ?thesis
        using scan_fold_remove_out [OF wf, of _ "retention_prefix t"] bm_scan_insert_out [OF assms(2) no [OF assms(3)]] by simp
    qed
  qed
qed

text \<open>A topic's log reads back as its events.\<close>

lemma event_roundtrips: "event_wf e \<Longrightarrow> event_decode (event_encode e) = Inr e"
  using event_decode_reads(1) [OF reads_event [where e = e and tr = "ev_trace e"]] reads_trace [of "ev_trace e"]
  by (simp add: event_wf_def)

lemma decode_log: "\<forall>ev \<in> set evs. event_wf ev \<Longrightarrow> decode_rows (map (log_row t) evs) = Inr evs"
  by (induction evs) (simp_all add: log_row_def event_roundtrips res_bind_def)

lemma read_log:
  assumes "script (b_stores b (d_kv d)) = []" "holds_log t evs (b_stores b (d_kv d))"
  shows "read_retained t d b = (Inr evs, b)"
proof -
  have "kv_scan (b_stores b (d_kv d)) (retention_prefix t) = (Inr (map (log_row t) evs), b_stores b (d_kv d))"
    using assms by (simp add: kv_defs holds_log_def)
  then show ?thesis using assms(2) by (simp add: read_retained_def Let_def decode_log holds_log_def)
qed

text \<open>A new event goes last unless its time stamp lies back, and the log stays in order.\<close>

definition log_sorted :: "event list \<Rightarrow> bool" where
  "log_sorted = sorted_wrt before"

lemma log_insert_sorted: "log_sorted evs \<Longrightarrow> log_sorted (log_insert ev evs)"
proof (induction ev evs rule: log_insert.induct)
  case (2 ev e es)
  have "before e x" if "x \<in> set (log_insert ev es)" "\<not> before ev e" "\<not> same_slot ev e" for x
    using 2(2) that set_log_insert [of ev es] by (auto simp: log_sorted_def before_def same_slot_def)
  then show ?case using 2 by (auto simp: log_sorted_def before_def same_slot_def)
qed (simp add: log_sorted_def)

lemma log_insert_newest: "\<forall>e \<in> set evs. before e ev \<Longrightarrow> log_insert ev evs = evs @ [ev]"
proof (induction evs)
  case (Cons e es)
  have "before e ev" using Cons.prems by simp
  then have "\<not> before ev e" "\<not> same_slot ev e" unfolding before_def same_slot_def by linarith+
  with Cons show ?case by simp
qed simp

end
