(* ===== verification/BusProperties.thy ===== *)
theory BusProperties
  imports BusWaiting BusLog
begin

text \<open>
  What the event bus guarantees, as properties of its public calls: which names it accepts, what a
  pattern and a permission mean, where every event goes, what is retained, and what survives a
  revocation.  The witnesses run on one small bus.
\<close>

section \<open>Names\<close>

text \<open>C13.  A string is accepted as a topic exactly when it is a well-formed one, the topic is that
  string, and patterns are read back as they are written.\<close>

theorem names_accepted:
  assumes "valid_str s"
  shows "(topic_parse s = Inr t \<longleftrightarrow> t = Topic s \<and> topic_wf t) \<and>
    (pattern_parse s = Inr p \<longleftrightarrow> as_written p = s \<and> pattern_wf p)"
  using topic_parse_iff [OF assms] pattern_parse_Inr [OF _ assms] pattern_parse_written by auto

theorem names_accepted_witness:
  "topic_parse (lit ''a.b-1'') = Inr (Topic (lit ''a.b-1'')) \<and> pattern_parse (lit ''a.*'') = Inr (Under (lit ''a''))"
proof -
  have v: "valid_str (lit ''a.b-1'')" "valid_str (lit ''a.*'')" by (simp_all add: valid_str_def valid_char_def lit_def)
  show ?thesis
    unfolding names_accepted [OF v(1), THEN conjunct1] names_accepted [OF v(2), THEN conjunct2]
    by (simp add: topic_wf_def topic_segments_def lit_def MAX_TOPIC_def MAX_SEGMENTS_def MAX_SEGMENT_def is_alnum_def)
qed

text \<open>C14.  A pattern matches exactly the topics its segments admit, and one pattern covers another
  exactly when it matches every topic the other matches, as long as the other one has room for a
  further segment.\<close>

theorem pattern_meaning:
  assumes "pattern_wf p" "pattern_wf q"
  shows "(topic_wf t \<longrightarrow> (topic_matches t p \<longleftrightarrow> pattern_admits p (topic_segments t))) \<and>
    (covers p q \<and> topic_wf t \<and> topic_matches t q \<longrightarrow> topic_matches t p) \<and>
    (has_room q \<longrightarrow> covers p q = (\<forall>t. topic_wf t \<longrightarrow> topic_matches t q \<longrightarrow> topic_matches t p))"
  using topic_in_admits [OF assms(1)] covers_sound [OF assms] covers_complete [OF assms]
  by (auto simp: topic_matches_def)

abbreviation topic_a :: topic where "topic_a \<equiv> Topic (lit ''a'')"
abbreviation topic_ab :: topic where "topic_ab \<equiv> Topic (lit ''a.b'')"

lemma topics_wf: "topic_wf topic_a" "topic_wf topic_ab"
  by (simp_all add: topic_wf_def topic_segments_def lit_def MAX_TOPIC_def MAX_SEGMENTS_def MAX_SEGMENT_def is_alnum_def)

theorem pattern_meaning_witness:
  "topic_matches topic_ab (Under (lit ''a'')) \<and> \<not> covers (Under (lit ''a'')) (Exact topic_a)"
proof -
  have wf: "pattern_wf (Under (lit ''a''))" "pattern_wf (Exact topic_a)" using topics_wf by simp_all
  note m = pattern_meaning [OF wf]
  have "topic_matches topic_ab (Under (lit ''a''))"
    using m [of topic_ab] topics_wf by (simp add: topic_segments_def lit_def)
  moreover have "\<not> topic_matches topic_a (Under (lit ''a''))"
    using m [of topic_a] topics_wf by (simp add: topic_segments_def lit_def)
  then have "\<not> covers (Under (lit ''a'')) (Exact topic_a)"
    using m [of topic_a] topics_wf(1) by (simp add: topic_matches_def)
  ultimately show ?thesis ..
qed

section \<open>Authority\<close>

text \<open>C15.  What a one-segment owner gets into a new subscription lies in its own namespace or under a
  grant of its own: every topic the accepted pattern matches is permitted to it on its own.\<close>

theorem subscription_within_authority:
  assumes "b_access b = namespace_access acl" "acl_wf acl" "dot \<notin> set owner" "ascii owner" "valid_str pattern"
    "subscribe owner pattern opts b = (Inr sid, b')" "topic_wf t"
  shows "\<exists>s. bm_get (b_subs b') sid = Some s \<and> s_owner s = owner \<and> as_written (s_pattern s) = pattern \<and>
    (topic_in (s_pattern s) t \<longrightarrow> topic_namespace t = owner \<or>
       (\<exists>g \<in> set acl. bg_component g = owner \<and> bg_action g = Subscribe \<and> topic_in (bg_pattern g) t))"
proof -
  obtain p where p: "pattern_parse pattern = Inr p" using assms(6) by (auto simp: subscribe_def split: sum.splits)
  note wf = pattern_parse_Inr [OF p assms(5)]
  have may: "may_subscribe (namespace_access acl) owner p" and
    s: "\<exists>s. bm_get (b_subs b') sid = Some s \<and> s_owner s = owner \<and> s_pattern s = p"
    using assms(1,6) p by (auto simp: subscribe_def subscribe_with_def split: if_splits)
  have "topic_namespace t = owner \<or> (\<exists>g \<in> set acl. bg_component g = owner \<and> bg_action g = Subscribe \<and> topic_in (bg_pattern g) t)"
    if t: "topic_in p t"
  proof -
    have c: "covers q (Exact t) \<Longrightarrow> topic_in q t" for q by (cases q) auto
    from namespaced.topic_permitted [OF assms(2-4) wf(1) assms(7) may t] show ?thesis
      by (auto simp: namespace_access_def acl_may_subscribe_def acl_granted_def list_ex_iff split: if_splits dest!: c)
  qed
  then show ?thesis using s wf(2) by auto
qed

section \<open>A small bus\<close>

text \<open>One subscription, owned by \<open>a\<close>, for the topic \<open>a\<close>; stores that never fail.\<close>

definition small_event :: "nat \<Rightarrow> event" where
  "small_event eid = with_id eid (event_new 5 topic_a (lit ''a'') (lit ''s'') [])"

definition small_sub :: "overflow_policy \<Rightarrow> nat \<Rightarrow> event list \<Rightarrow> sub" where
  "small_sub policy capacity q = \<lparr>s_owner = lit ''a'', s_pattern = Exact topic_a, s_queue = q, s_capacity = capacity,
     s_policy = policy, s_dropped = 0, s_blocked = 0, s_replayed = 0\<rparr>"

definition small_bus :: "sub \<Rightarrow> (str, durable) btree \<Rightarrow> bus" where
  "small_bus s durable = \<lparr>b_next_id = 7, b_next_sub = 2, b_subs = [(1, s)], b_access = allow_all, b_durable = durable,
     b_stores = (\<lambda>_. \<lparr>entries = [], script = []\<rparr>)\<rparr>"

lemmas small_defs = small_event_def small_sub_def small_bus_def with_id_def event_new_def schema_new_def UNASSIGNED_def

lemma small_bus_ok: "0 < c \<Longrightarrow> length q \<le> c \<Longrightarrow> bus_ok (small_bus (small_sub pol c q) [])"
  using topics_wf by (simp add: small_defs bus_ok_def subs_ok_def sub_ok_def)

lemma small_event_wf: "eid \<le> u64_max \<Longrightarrow> event_wf (small_event eid)"
  using topics_wf by (simp add: small_defs event_wf_def estr_ok_def valid_str_def valid_char_def lit_def utf8_char_def)

theorem subscription_within_authority_witness:
  "\<exists>sid b' s. subscribe (lit ''a'') (lit ''a.*'') options_default (bus_new (\<lambda>_. \<lparr>entries = [], script = []\<rparr>)) = (Inr sid, b') \<and>
     bm_get (b_subs b') sid = Some s \<and> (topic_in (s_pattern s) topic_ab \<longrightarrow> topic_namespace topic_ab = lit ''a'')"
proof -
  let ?b = "bus_new (\<lambda>_. \<lparr>entries = [], script = []\<rparr>)"
  have w: "as_written (Under (lit ''a'')) = lit ''a.*''" by (simp add: lit_def)
  have p: "pattern_parse (lit ''a.*'') = Inr (Under (lit ''a''))"
    using pattern_parse_written [of "Under (lit ''a'')"] topics_wf(1) unfolding w by simp
  obtain b' where s: "subscribe (lit ''a'') (lit ''a.*'') options_default ?b = (Inr 1, b')"
    unfolding subscribe_def p sum.case
    by (simp add: subscribe_with_def bus_new_def with_access_def namespace_access_def acl_may_subscribe_def
        options_default_def DEFAULT_CAPACITY_def lit_def)
  have "valid_str (lit ''a.*'')" "dot \<notin> set (lit ''a'')" "ascii (lit ''a'')"
    by (simp_all add: valid_str_def valid_char_def lit_def ascii_def)
  moreover have "b_access ?b = namespace_access acl_new" by (simp add: bus_new_def with_access_def)
  ultimately show ?thesis
    using subscription_within_authority [OF _ acl_wf_new _ _ _ s topics_wf(2)] s by (auto simp: acl_new_def)
qed

section \<open>The stored form\<close>

text \<open>A stored event is read back as it was; a stored event that is cut short is refused, and so
  is one with anything behind it.\<close>

theorem event_roundtrip:
  assumes "event_wf e"
  shows "event_decode (event_encode e) = Inr e \<and>
    (k < length (event_encode e) \<longrightarrow> (\<exists>err. event_decode (take k (event_encode e)) = Inl err)) \<and>
    event_decode (event_encode e @ x # xs) = Inl (EventTrailing (Suc (length xs)))"
proof -
  have "e\<lparr>ev_trace := ev_trace e\<rparr> = e" by simp
  then have r: "reads event_fields (event_encode e) e"
    using reads_event [where e = e and tr = "ev_trace e"] reads_trace [of "ev_trace e"] assms by (simp add: event_wf_def)
  show ?thesis using event_decode_reads [OF r] by simp
qed

theorem event_roundtrip_witness:
  "event_decode (event_encode (small_event 9)) = Inr (small_event 9) \<and>
   event_decode (event_encode (small_event 9) @ [0]) = Inl (EventTrailing 1)"
  using event_roundtrip [OF small_event_wf [of 9], where x = 0 and xs = "[]"] by simp

section \<open>The state\<close>

text \<open>C16.  However calls, publishers and wake-ups interleave, every subscription has room for at least
  one event and never holds more than its capacity, its id was handed out before, ids are not used
  twice, and retained topics are well-formed and keep at least one event.\<close>

theorem bus_invariant:
  assumes "sys_step\<^sup>*\<^sup>* \<lparr>sy_bus = with_access access stores, sy_flights = (\<lambda>_. None)\<rparr> y" "\<And>h. bm_wf (entries (stores h))"
  shows "(bm_get (b_subs (sy_bus y)) sid = Some s \<longrightarrow> 0 < s_capacity s \<and> length (s_queue s) \<le> s_capacity s \<and>
      pattern_wf (s_pattern s) \<and> sid < b_next_sub (sy_bus y)) \<and>
    distinct (map fst (b_subs (sy_bus y))) \<and>
    (bm_get (b_durable (sy_bus y)) u = Some d \<longrightarrow> 0 < d_retain d \<and> topic_wf (Topic u)) \<and>
    bm_wf (entries (b_stores (sy_bus y) h))"
proof -
  have "sys_ok \<lparr>sy_bus = with_access access stores, sy_flights = (\<lambda>_. None)\<rparr>"
    using bus_new_ok [OF assms(2)] by (simp add: sys_ok_def)
  from assms(1) this have "sys_ok y" by (induction rule: rtranclp_induct) (auto intro: sys_step_ok)
  then have ok: "bus_ok (sy_bus y)" by (simp add: sys_ok_def)
  then have "distinct (map fst (b_subs (sy_bus y)))" using bm_wf_distinct [of "b_subs (sy_bus y)"] by (simp add: bus_ok_def subs_ok_def)
  with ok show ?thesis by (auto simp: bus_ok_def subs_ok_def sub_ok_def)
qed

theorem bus_invariant_witness:
  "\<exists>y. sys_step\<^sup>*\<^sup>* \<lparr>sy_bus = with_access allow_all (\<lambda>_. \<lparr>entries = [], script = []\<rparr>), sy_flights = (\<lambda>_. None)\<rparr> y \<and>
     bm_get (b_subs (sy_bus y)) 1 \<noteq> None \<and> (\<forall>s. bm_get (b_subs (sy_bus y)) 1 = Some s \<longrightarrow> 0 < s_capacity s)"
proof -
  let ?b = "with_access allow_all (\<lambda>_. \<lparr>entries = [], script = []\<rparr>)"
  let ?b' = "snd (subscribe_pattern (lit ''a'') (Exact topic_a) options_default ?b)"
  have "sys_step\<^sup>*\<^sup>* \<lparr>sy_bus = ?b, sy_flights = (\<lambda>_. None)\<rparr> \<lparr>sy_bus = ?b', sy_flights = (\<lambda>_. None)\<rparr>"
    using sys_op [of ?b "OpSubscribePattern (lit ''a'') (Exact topic_a) options_default" "\<lambda>_. None"] topics_wf
    by (auto simp: with_access_def)
  moreover from this have "0 < s_capacity s" if "bm_get (b_subs ?b') 1 = Some s" for s
    using bus_invariant [of allow_all "\<lambda>_. \<lparr>entries = [], script = []\<rparr>" "\<lparr>sy_bus = ?b', sy_flights = (\<lambda>_. None)\<rparr>" 1 s] that
    by simp
  moreover have "bm_get (b_subs ?b') 1 \<noteq> None"
    by (simp add: subscribe_pattern_def subscribe_with_def with_access_def allow_all_def options_default_def DEFAULT_CAPACITY_def)
  ultimately show ?thesis by (intro exI conjI) auto
qed

section \<open>Publishing\<close>

lemma count_live_split: "(\<And>s. P s \<longleftrightarrow> Q s \<or> R s) \<Longrightarrow> (\<And>s. \<not> (Q s \<and> R s)) \<Longrightarrow>
    count_live P ids subs = count_live Q ids subs + count_live R ids subs"
proof (induction ids)
  case (Cons sid ids)
  then show ?case by (cases "bm_get subs sid") (auto simp: count_live_def)
qed (simp add: count_live_def)

lemma length_refusing: "length (live_refusing ids subs) = count_live refuses ids subs"
  by (simp add: live_refusing_def count_live_def)

text \<open>C17.  A publish that does not wait accounts for every matching subscription: the event went in, or
  was discarded and counted, or was refused and is reported; the others are untouched.\<close>

theorem publish_accounts:
  assumes "bus_ok b" "publish now ev b = (Inr (Returned out), b')" "stamp now ev b = (ev', b1)"
  defines "ids \<equiv> targets b (ev_topic ev)"
  shows "(sid \<in> set ids \<longleftrightarrow> (\<exists>s. bm_get (b_subs b) sid = Some s \<and> topic_in (s_pattern s) (ev_topic ev))) \<and>
    po_id out = ev_id ev' \<and> po_matched out = length ids \<and>
    po_delivered out + count_live discards ids (b_subs b) + length (po_blocked out) = po_matched out \<and>
    po_dropped out = count_live discards ids (b_subs b) + count_live displaces ids (b_subs b) \<and>
    (sid \<in> set (po_blocked out) \<longleftrightarrow> sid \<in> set ids \<and> (\<exists>s. bm_get (b_subs b) sid = Some s \<and> refuses s)) \<and>
    bm_get (b_subs b') sid = (if sid \<in> set ids then map_option (offered ev' False) (bm_get (b_subs b) sid)
       else bm_get (b_subs b) sid)"
proof (intro conjI)
  have wf: "bm_wf (b_subs b)" using assms(1) by (simp add: bus_ok_def subs_ok_def)
  note r = publish_round [OF assms(1-3)]
  show mem: "sid \<in> set ids \<longleftrightarrow> (\<exists>s. bm_get (b_subs b) sid = Some s \<and> topic_in (s_pattern s) (ev_topic ev))" for sid
    unfolding ids_def by (rule targets_mem [OF wf])
  show "po_id out = ev_id ev'" "po_matched out = length ids" using r by (simp_all add: ids_def)
  have "count_live (\<lambda>s. \<not> (has_space s \<or> displaces s)) ids (b_subs b) =
      count_live discards ids (b_subs b) + count_live refuses ids (b_subs b)"
    by (rule count_live_split) (use offer_cases in \<open>auto simp: refuses_def discards_def displaces_def\<close>)
  then show "po_delivered out + count_live discards ids (b_subs b) + length (po_blocked out) = po_matched out"
    using r count_live_all [OF wf, of "\<lambda>s. has_space s \<or> displaces s" "ev_topic ev"] by (simp add: ids_def length_refusing)
  show "po_dropped out = count_live discards ids (b_subs b) + count_live displaces ids (b_subs b)"
    unfolding r(5) ids_def by (rule count_live_split) (auto simp: discards_def displaces_def)
  show "sid \<in> set (po_blocked out) \<longleftrightarrow> sid \<in> set ids \<and> (\<exists>s. bm_get (b_subs b) sid = Some s \<and> refuses s)"
    unfolding r(2) by (auto simp: live_refusing_def ids_def)
  show "bm_get (b_subs b') sid = (if sid \<in> set ids then map_option (offered ev' False) (bm_get (b_subs b) sid)
       else bm_get (b_subs b) sid)"
    unfolding r(1) mem by (auto split: option.split)
qed

lemma small_publish: "\<exists>out b'. publish 5 (small_event 0) (small_bus s []) = (Inr (Returned out), b')"
  using publish_returns [of 5 "small_event 0" "small_bus s []"]
  by (cases "publish 5 (small_event 0) (small_bus s [])"; cases "fst (publish 5 (small_event 0) (small_bus s []))")
     (auto simp: small_defs publish_def deliver_start_def allow_all_def append_durable_def Let_def stamp_def is_assigned_def
        deliver_round_def split: if_splits)

theorem publish_accounts_witness:
  "\<exists>out b'. publish 5 (small_event 0) (small_bus (small_sub Block 1 [small_event 3]) []) = (Inr (Returned out), b') \<and>
     po_blocked out \<noteq> [] \<and> po_delivered out = 0"
proof -
  let ?s = "small_sub Block 1 [small_event 3]"
  obtain out b' where p: "publish 5 (small_event 0) (small_bus ?s []) = (Inr (Returned out), b')"
    using small_publish by blast
  obtain ev' b1 where st: "stamp 5 (small_event 0) (small_bus ?s []) = (ev', b1)" by fastforce
  have ok: "bus_ok (small_bus ?s [])" by (rule small_bus_ok) simp_all
  note a = publish_accounts [OF ok p st, of 1]
  have ids: "targets (small_bus ?s []) (ev_topic (small_event 0)) = [1]" by (simp add: targets_def small_defs)
  have "1 \<in> set (po_blocked out)" using a unfolding ids by (simp add: small_bus_def small_sub_def refuses_def has_space_def)
  moreover have "po_delivered out = 0"
    using a calculation unfolding ids by (cases "po_blocked out") simp_all
  ultimately show ?thesis using p by auto
qed

text \<open>C18.  Over any sequence of calls a consumer gets the accepted events of its pattern in the order
  they were accepted, after what was queued before; each one was received, is still queued, or is
  counted as dropped or refused; and if nothing was counted, nothing is missing.\<close>

theorem fifo_no_silent_loss:
  assumes "bus_ok b" "ops_ok ops b" "bm_get (b_subs b) sid = Some s" "s_dropped s + s_blocked s + length ops \<le> u64_max"
  defines "pub \<equiv> filter (\<lambda>ev. topic_in (s_pattern s) (ev_topic ev)) (log_accepted ops b)"
  shows "subseq (log_received sid ops b) (s_queue s @ pub) \<and>
    (bm_get (b_subs (run_bus ops b)) sid = Some s' \<longrightarrow>
       subseq (log_received sid ops b @ s_queue s') (s_queue s @ pub) \<and>
       length (s_queue s) + length pub + s_dropped s + s_blocked s =
         length (log_received sid ops b) + length (s_queue s') + s_dropped s' + s_blocked s' \<and>
       (s_dropped s' = s_dropped s \<and> s_blocked s' = s_blocked s \<longrightarrow> log_received sid ops b @ s_queue s' = s_queue s @ pub))"
proof (rule conjI; (rule impI)?)
  note r = run_flow [OF assms(1-4), folded pub_def]
  from conjunct1 [OF r] obtain rest where "subseq (log_received sid ops b @ rest) (s_queue s @ pub)" ..
  then show "subseq (log_received sid ops b) (s_queue s @ pub)" by (meson list_emb_appendD subseq_order.order_trans subseq_rev_drop_many prefix_imp_subseq prefixI)
  assume "bm_get (b_subs (run_bus ops b)) sid = Some s'"
  with conjunct2 [OF r] have "flow s pub (log_received sid ops b) s'" by blast
  then show "subseq (log_received sid ops b @ s_queue s') (s_queue s @ pub) \<and>
       length (s_queue s) + length pub + s_dropped s + s_blocked s =
         length (log_received sid ops b) + length (s_queue s') + s_dropped s' + s_blocked s' \<and>
       (s_dropped s' = s_dropped s \<and> s_blocked s' = s_blocked s \<longrightarrow> log_received sid ops b @ s_queue s' = s_queue s @ pub)"
    unfolding flow_def by blast
qed

theorem fifo_no_silent_loss_witness:
  "let b = small_bus (small_sub DropOldest 2 [small_event 3]) []; ops = [OpRecv 1, OpPublish 5 (small_event 0)] in
     log_received 1 ops b = [small_event 3] \<and> subseq (log_received 1 ops b) ([small_event 3] @ log_accepted ops b)"
proof -
  let ?b = "small_bus (small_sub DropOldest 2 [small_event 3]) []" and ?ops = "[OpRecv 1, OpPublish 5 (small_event 0)]"
  have "subseq (log_received 1 ?ops ?b) ([small_event 3] @ filter (\<lambda>ev. topic_in (Exact topic_a) (ev_topic ev)) (log_accepted ?ops ?b))"
    using fifo_no_silent_loss [of ?b ?ops 1 "small_sub DropOldest 2 [small_event 3]"] small_bus_ok
    by (simp add: small_bus_def small_sub_def)
  moreover have "log_received 1 ?ops ?b = [small_event 3]" by (simp add: recv_def small_bus_def small_sub_def)
  ultimately show ?thesis
    unfolding Let_def by (meson subseq_filter_left subseq_order.order_trans subseq_append')
qed

section \<open>Retention\<close>

lemma stamp_frame: "stamp now ev b = (ev', b') \<Longrightarrow> b_stores b' = b_stores b \<and> b_durable b' = b_durable b \<and>
    ev_topic ev' = ev_topic ev \<and> ev_source ev' = ev_source ev"
  by (auto simp: stamp_def split: if_splits)

lemma round_frame: "b_stores (snd (deliver_round at fl b)) = b_stores b" "b_durable (snd (deliver_round at fl b)) = b_durable b"
  by (simp_all add: deliver_round_def Let_def split: option.split)

text \<open>C19.  Without store failures a published event enters its durable topic's log at the place of its
  time stamp and id, behind every older one, the log then keeps its newest events up to the
  configured number, in order, and no other topic's log changes.\<close>

theorem retention_keeps_newest:
  assumes "bus_ok b" "bm_get (b_durable b) (topic_str (ev_topic ev)) = Some d" "script (b_stores b (d_kv d)) = []"
    "holds_log (ev_topic ev) evs (b_stores b (d_kv d))" "stamp now ev b = (ev', b1)" "event_wf ev'"
    "may_publish (b_access b) (ev_source ev) (ev_topic ev)" "publish now ev b = (r, b')"
  defines "entered \<equiv> log_insert ev' evs"
  shows "(\<exists>out. r = Inr (Returned out)) \<and>
    retained (topic_str (ev_topic ev)) 0 b' = (Inr (drop (length entered - d_retain d) entered), b') \<and>
    (log_sorted evs \<longrightarrow> log_sorted entered) \<and> ((\<forall>e \<in> set evs. before e ev') \<longrightarrow> entered = evs @ [ev']) \<and>
    (topic_wf u \<and> u \<noteq> ev_topic ev \<and> holds_log u us (b_stores b h) \<longrightarrow> holds_log u us (b_stores b' h))"
proof (intro conjI impI)
  note st = stamp_frame [OF assms(5)]
  have wf: "bm_wf (entries (b_stores b (d_kv d)))" using assms(1) by (simp add: bus_ok_def)
  obtain s where s: "retain_event (d_retain d) ev' (b_stores b (d_kv d)) = (Inr (), s)" "script s = []"
    "holds_log (ev_topic ev') (drop (length entered - d_retain d) entered) s"
    "\<And>t. topic_wf t \<Longrightarrow> t \<noteq> ev_topic ev' \<Longrightarrow> bm_scan (retention_prefix t) (entries s) =
       bm_scan (retention_prefix t) (entries (b_stores b (d_kv d)))"
    using retention_step [OF assms(3) wf assms(6), of evs "d_retain d"] assms(4) st unfolding entered_def by metis
  have a: "append_durable ev' b1 = (Inr (), b1\<lparr>b_stores := (b_stores b)(d_kv d := s)\<rparr>)"
    using assms(2) st s(1) by (simp add: append_durable_def Let_def)
  define b2 where "b2 = b1\<lparr>b_stores := (b_stores b)(d_kv d := s)\<rparr>"
  define fl where "fl = \<lparr>fl_event = ev', fl_pending = targets b2 (ev_topic ev'), fl_counted = [],
    fl_out = outcome_new (ev_id ev') (length (targets b2 (ev_topic ev'))), fl_deadline = None\<rparr>"
  have p: "publish now ev b = map_prod Inr id (deliver_round 0 fl b2)"
    using assms(7) by (simp add: publish_def deliver_start_def assms(5) a Let_def b2_def fl_def)
  then have b': "b' = snd (deliver_round 0 fl b2)" and r: "r = Inr (fst (deliver_round 0 fl b2))"
    using assms(8) by (simp_all add: map_prod_def split: prod.splits)
  have stores: "b_stores b' = (b_stores b)(d_kv d := s)" "b_durable b' = b_durable b"
    unfolding b' round_frame using st by (simp_all add: b2_def)
  show "\<exists>out. r = Inr (Returned out)"
    unfolding r by (simp add: deliver_round_def Let_def fl_def)
  have topic: "topic_wf (ev_topic ev)" using assms(6) st by (simp add: event_wf_def)
  show "retained (topic_str (ev_topic ev)) 0 b' = (Inr (drop (length entered - d_retain d) entered), b')"
    using read_log [of b' d "ev_topic ev"] s(2,3) st assms(2)
    by (simp add: retained_def topic_parse_wf [OF topic] stores)
  show "log_sorted evs \<Longrightarrow> log_sorted entered" "\<forall>e \<in> set evs. before e ev' \<Longrightarrow> entered = evs @ [ev']"
    unfolding entered_def by (rule log_insert_sorted, assumption) (rule log_insert_newest, assumption)
  show "topic_wf u \<and> u \<noteq> ev_topic ev \<and> holds_log u us (b_stores b h) \<Longrightarrow> holds_log u us (b_stores b' h)"
    using s(4) [of u] st by (cases "h = d_kv d") (simp_all add: holds_log_def stores)
qed

theorem retention_keeps_newest_witness:
  "let b = small_bus (small_sub DropOldest 2 []) [(lit ''a'', \<lparr>d_retain = 1, d_kv = 0\<rparr>)];
       (r, b') = publish 5 (small_event 0) b
   in retained (lit ''a'') 0 b' = (Inr [small_event 7], b')"
proof -
  let ?b = "small_bus (small_sub DropOldest 2 []) [(lit ''a'', \<lparr>d_retain = 1, d_kv = 0\<rparr>)]"
  obtain r b' where p: "publish 5 (small_event 0) ?b = (r, b')" by fastforce
  have st: "stamp 5 (small_event 0) ?b = (small_event 7, ?b\<lparr>b_next_id := 8\<rparr>)"
    by (simp add: stamp_def is_assigned_def small_defs wrap64_def Let_def)
  have "bus_ok ?b" using topics_wf by (simp add: small_defs bus_ok_def subs_ok_def sub_ok_def)
  from retention_keeps_newest [OF this, of "small_event 0" "\<lparr>d_retain = 1, d_kv = 0\<rparr>" "[]", OF _ _ _ st small_event_wf _ p]
  have "retained (lit ''a'') 0 b' = (Inr [small_event 7], b')"
    by (simp add: small_defs holds_log_def bm_scan_def allow_all_def)
  with p show ?thesis by simp
qed

section \<open>Revocation\<close>

lemma gone_sys: "sys_step y y' \<Longrightarrow> sys_ok y \<Longrightarrow> gone sid (sy_bus y) \<Longrightarrow> gone sid (sy_bus y')"
proof (induction rule: sys_step.induct)
  case (sys_op b op fls)
  then show ?case using gone_step(1) by (simp add: sys_ok_def)
next
  case (sys_subscribe p b acc owner opts replay r b' fls)
  then show ?case using gone_subscribe [of sid b acc owner p opts replay] by (simp add: sys_ok_def)
next
  case (sys_start fls tid acc now deadline at ev b r b')
  then show ?case using gone_start [of sid b acc now "Some deadline" at ev] by (simp add: sys_ok_def)
next
  case (sys_wake fls tid fl at b r b')
  then have "distinct (fl_pending fl)" by (simp add: sys_ok_def)
  with sys_wake show ?case using gone_round [of sid b fl at] by simp
qed

lemma gone_for_good: "sys_step\<^sup>*\<^sup>* y y' \<Longrightarrow> sys_ok y \<Longrightarrow> gone sid (sy_bus y) \<Longrightarrow> gone sid (sy_bus y')"
proof (induction rule: rtranclp_induct)
  case (step y' z)
  from step(1,4) have "sys_ok y'" by (induction rule: rtranclp_induct) (auto intro: sys_step_ok)
  with step show ?case using gone_sys by blast
qed

text \<open>C20.  Revoking an owner closes exactly its subscriptions, and a closed subscription is handed
  nothing ever after, not even by a publisher that was waiting for it: later publishes, wake-ups and
  subscriptions never bring its id back.\<close>

theorem revocation_exact:
  assumes "sys_ok y" "revoke_owner owner (sy_bus y) = (n, b')" "bm_get (b_subs (sy_bus y)) sid = Some s"
    "sys_step\<^sup>*\<^sup>* (y\<lparr>sy_bus := b'\<rparr>) z"
  shows "(s_owner s \<noteq> owner \<longrightarrow> bm_get (b_subs b') sid = Some s) \<and>
    (s_owner s = owner \<longrightarrow> is_closed sid (sy_bus z) \<and> recv sid (sy_bus z) = (None, sy_bus z) \<and>
       drain sid m (sy_bus z) = ([], sy_bus z))"
proof (rule conjI; rule impI)
  have ok: "bus_ok (sy_bus y)" using assms(1) by (simp add: sys_ok_def)
  then have wf: "bm_wf (b_subs (sy_bus y))" and sid: "sid < b_next_sub (sy_bus y)"
    using assms(3) by (auto simp: bus_ok_def subs_ok_def)
  have mem: "sid \<in> set (map fst (filter (\<lambda>(_, s). s_owner s = owner) (b_subs (sy_bus y)))) \<longleftrightarrow> s_owner s = owner"
  proof -
    have "(sid, x) \<in> set (b_subs (sy_bus y)) \<longleftrightarrow> x = s" for x
      using bm_get_in [OF wf, of sid x] assms(3) by auto
    moreover have "sid \<in> set (map fst (filter (\<lambda>(_, s). s_owner s = owner) m)) \<longleftrightarrow>
        (\<exists>x. (sid, x) \<in> set m \<and> s_owner x = owner)" for m :: "(nat, sub) btree"
      by (induction m) auto
    ultimately show ?thesis by simp
  qed
  have bb: "b' = sy_bus y\<lparr>b_subs := fold bm_remove
      (map fst (filter (\<lambda>(_, s). s_owner s = owner) (b_subs (sy_bus y)))) (b_subs (sy_bus y))\<rparr>"
    using assms(2) by (simp add: revoke_owner_def Let_def)
  have b': "bm_get (b_subs b') sid = (if s_owner s = owner then None else Some s)" "b_next_sub b' = b_next_sub (sy_bus y)"
    using assms(3) mem unfolding bb by (simp_all add: get_fold_remove del: set_map)
  then show "s_owner s \<noteq> owner \<Longrightarrow> bm_get (b_subs b') sid = Some s" by simp
  assume "s_owner s = owner"
  then have g: "gone sid (sy_bus (y\<lparr>sy_bus := b'\<rparr>))" using b' sid by (simp add: gone_def)
  have "bus_step (OpRevokeOwner owner) (sy_bus y) = b'" using assms(2) by simp
  then have "sys_ok (y\<lparr>sy_bus := b'\<rparr>)" using assms(1) bus_step_ok [OF ok, of "OpRevokeOwner owner"] by (simp add: sys_ok_def)
  from gone_for_good [OF assms(4) this g] have "bm_get (b_subs (sy_bus z)) sid = None" by (simp add: gone_def)
  then show "is_closed sid (sy_bus z) \<and> recv sid (sy_bus z) = (None, sy_bus z) \<and> drain sid m (sy_bus z) = ([], sy_bus z)"
    by (simp add: is_closed_def recv_def drain_def)
qed

theorem revocation_exact_witness:
  "is_closed 1 (snd (revoke_owner (lit ''a'') (small_bus (small_sub Block 1 [small_event 3]) [])))"
proof -
  let ?b = "small_bus (small_sub Block 1 [small_event 3]) []"
  obtain n b' where r: "revoke_owner (lit ''a'') ?b = (n, b')" by fastforce
  have "sys_ok \<lparr>sy_bus = ?b, sy_flights = (\<lambda>_. None)\<rparr>" using small_bus_ok by (simp add: sys_ok_def)
  from revocation_exact [OF this, of "lit ''a''" n b' 1 "small_sub Block 1 [small_event 3]", OF _ _ rtranclp.rtrancl_refl]
  have "is_closed 1 b'" using r by (simp add: small_bus_def small_sub_def)
  then show ?thesis by (simp only: r snd_conv)
qed

section \<open>Publishers that wait\<close>

text \<open>C21.  A publisher that waits is answered once it wakes up past its deadline, whatever the others did
  in between, and its outcome accounts for every matching subscription.  The first of its rounds that
  finds a subscription closed, with room or with another policy than \<open>Block\<close> decides: it is gone, gets
  the event, or drops one and counts it.  Those no round finds so are exactly the ones reported as
  refusing: they are alive and full at the end, and none is reported before the deadline.  In every
  round each undecided subscription is offered the event once and no other one is touched.  Only a
  publisher without permission or with a failing log gets an error, and then no subscription changed.\<close>

theorem blocking_publish_returns:
  assumes "bus_ok b" "publish_blocking now deadline at wakes ev b = (r, b')" "\<exists>(at, others) \<in> set wakes. deadline \<le> at"
    "stamp now ev b = (ev', b1)"
  defines "ids \<equiv> targets b (ev_topic ev)" and "rds \<equiv> blocking_rounds now deadline at wakes ev b"
  shows "(\<exists>e. r = Inl e \<and> b_subs b' = b_subs b \<and>
      (\<not> may_publish (b_access b) (ev_source ev) (ev_topic ev) \<or> fst (append_durable ev' b1) = Inl e)) \<or>
    (\<exists>out. r = Inr (Some out) \<and> po_id out = ev_id ev' \<and> po_matched out = length ids \<and>
      po_delivered out + tally {Discarded} ids rds + tally {Vanished} ids rds + length (po_blocked out) = po_matched out \<and>
      po_delivered out = tally {WentIn, PushedOut} ids rds \<and> po_dropped out = tally {Discarded, PushedOut} ids rds \<and>
      po_blocked out = filter (\<lambda>sid. fate_of sid rds = StillFull) ids \<and>
      (\<forall>sid \<in> set (po_blocked out). \<exists>s. bm_get (b_subs b') sid = Some s \<and> s_policy s = Block \<and> s_capacity s \<le> length (s_queue s)) \<and>
      (po_blocked out \<noteq> [] \<longrightarrow> deadline \<le> rd_at (last rds)) \<and>
      rds \<noteq> [] \<and> b_subs (rd_before (hd rds)) = b_subs b \<and> rd_after (last rds) = b' \<and>
      (\<forall>i < length rds. \<forall>sid. bm_get (b_subs (rd_after (rds ! i))) sid =
        (if sid \<in> set ids \<and> fate_of sid (take i rds) = StillFull
         then map_option (offered ev' (0 < i)) (bm_get (b_subs (rd_before (rds ! i))) sid)
         else bm_get (b_subs (rd_before (rds ! i))) sid)))"
proof -
  have full: "refuses s \<Longrightarrow> s_policy s = Block \<and> s_capacity s \<le> length (s_queue s)" for s
    by (simp add: refuses_def has_space_def)
  have sum: "tally {WentIn, PushedOut} ids rds + tally {Discarded} ids rds + tally {Vanished} ids rds +
      length (pending ids rds) = length ids"
    using tally_partition [of ids rds] by simp
  show ?thesis
    using blocking_accounts [OF assms(1-4)] sum full
    unfolding accounted_def tallied_def pending_def rounds_put_def ids_def [symmetric] rds_def [symmetric]
    by (elim disjE exE conjE; simp) blast
qed

theorem blocking_publish_returns_witness:
  "\<exists>out b'. publish_blocking 5 9 6 [(10, \<lambda>b. b)] (small_event 0) (small_bus (small_sub Block 1 [small_event 3]) []) = (Inr (Some out), b') \<and>
     po_matched out = 1 \<and> po_delivered out = 0 \<and> po_blocked out = [1]"
proof -
  let ?b = "small_bus (small_sub Block 1 [small_event 3]) []"
  obtain r b' where p: "publish_blocking 5 9 6 [(10, \<lambda>b. b)] (small_event 0) ?b = (r, b')" by fastforce
  obtain ev' b1 where st: "stamp 5 (small_event 0) ?b = (ev', b1)" by fastforce
  have ok: "bus_ok ?b" by (rule small_bus_ok) simp_all
  have ids: "targets ?b (ev_topic (small_event 0)) = [1]" by (simp add: targets_def small_defs)
  have fate: "fate_of 1 (blocking_rounds 5 9 6 [(10, \<lambda>b. b)] (small_event 0) ?b) = StillFull"
    by (simp add: blocking_rounds_def deliver_start_def small_defs allow_all_def stamp_def Let_def is_assigned_def wrap64_def
      append_durable_def targets_def deliver_round_def offer_def outcome_new_def)
  have log: "\<not> (\<not> may_publish (b_access ?b) (ev_source (small_event 0)) (ev_topic (small_event 0)) \<or> fst (append_durable ev' b1) = Inl e)" for e
    using st by (auto simp: small_defs allow_all_def stamp_def Let_def is_assigned_def append_durable_def)
  from blocking_publish_returns [OF ok p _ st] p log fate show ?thesis unfolding ids by auto
qed

text \<open>A publisher that waits for a full buffer can be overtaken: the consumer is then handed an
  event after one with a later id.\<close>

theorem waiting_publisher_overtaken:
  defines "b \<equiv> small_bus (small_sub Block 2 [small_event 3, small_event 4]) []"
  shows "\<exists>fl b1. deliver_start allow_all 5 (Some 9) 6 (small_event 0) b = (Inr (Waits fl), b1) \<and>
    (let b2 = snd (recv 1 b1); b3 = snd (publish 5 (small_event 0) b2); b4 = snd (recv 1 b3); b5 = snd (deliver_round 7 fl b4)
     in fl_event fl = small_event 7 \<and> fst (drain 1 0 b5) = [small_event 8, small_event 7])"
  by (simp add: b_def small_defs deliver_start_def publish_def allow_all_def stamp_def Let_def is_assigned_def wrap64_def
      append_durable_def targets_def deliver_round_def offer_def outcome_new_def recv_def drain_def)

end
