(* ===== verification/Bounded.thy ===== *)
theory Bounded
  imports Text BTree Fallible
begin

text \<open>
  \<open>rust/wa-bounded/src/lib.rs\<close> and what the crate uses of \<open>std::fs\<close>: the error type, the default
  caps, and a directory of plain files whose every call can be
  made to fail by a script.  A time stamp is a number of nanoseconds before or after the epoch, a
  duration a number of nanoseconds.
\<close>

section \<open>Caps and errors\<close>

definition SECOND :: nat where "SECOND = 1000000000"

definition RING_MAX_AGE :: nat where "RING_MAX_AGE = 300 * SECOND"
definition RING_MAX_BYTES :: nat where "RING_MAX_BYTES = 20 * 1024 * 1024"
definition BLOB_THRESHOLD_BYTES :: nat where "BLOB_THRESHOLD_BYTES = 4 * 1024"
definition REPLAY_QUOTA_BYTES :: nat where "REPLAY_QUOTA_BYTES = 500 * 1024 * 1024"
definition REPLAY_MAX_AGE :: nat where "REPLAY_MAX_AGE = 7 * 24 * 3600 * SECOND"
definition BLOB_TTL :: nat where "BLOB_TTL = 24 * 3600 * SECOND"
definition THRESHOLD_PCT :: nat where "THRESHOLD_PCT = 80"

datatype io_error = IoNotFound | IoOther str

text \<open>Why a replay file is refused; the code renders each as a message.\<close>

datatype corruption = LengthOverflow | TruncatedAt nat nat | NotUtf8 | BadReplayMagic | NoReader nat
  | UnknownFlags nat | BlobTableTooLarge | UnknownPayloadTag byte | BodyEmpty | ZstdFailed str
  | BodyLength nat nat | BodyDigest | RecordCount nat nat | UndeclaredBlob nat bytes | BlobMismatch bytes

datatype bounded_error = Io io_error | BadFileName str | BadField str | QuotaExceeded nat nat nat
  | FileNotFound str | BlobMissing bytes | CorruptReplay corruption | UnsupportedVersion nat

type_synonym ('s, 'a) fm = "('s, bounded_error, 'a) prog"

section \<open>Files\<close>

record disk_file =
  f_bytes :: bytes
  f_mtime :: int

text \<open>A call works, fails before it does anything, or does its work and reports a failure.  Asking
  whether a file exists is taken to answer truly.\<close>

datatype io_fault = IoWorks | IoRefused str | IoTorn str

record disk =
  dk_files :: "(str, disk_file) btree"
  dk_script :: "io_fault list"

definition next_io :: "disk \<Rightarrow> io_fault \<times> disk" where
  "next_io d = (case dk_script d of [] \<Rightarrow> (IoWorks, d) | f # fs \<Rightarrow> (f, d\<lparr>dk_script := fs\<rparr>))"

definition disk_get :: "((str, disk_file) btree \<Rightarrow> bounded_error + 'a) \<Rightarrow> (disk, 'a) fm" where
  "disk_get f d = (case next_io d of
       (IoWorks, d) \<Rightarrow> (f (dk_files d), d)
     | (IoRefused why, d) \<Rightarrow> (Inl (Io (IoOther why)), d)
     | (IoTorn why, d) \<Rightarrow> (Inl (Io (IoOther why)), d))"

definition disk_do :: "((str, disk_file) btree \<Rightarrow> (str, disk_file) btree option) \<Rightarrow> (disk, unit) fm" where
  "disk_do f d = (case next_io d of
       (IoRefused why, d) \<Rightarrow> (Inl (Io (IoOther why)), d)
     | (IoWorks, d) \<Rightarrow> (case f (dk_files d) of None \<Rightarrow> (Inl (Io IoNotFound), d) | Some m \<Rightarrow> (Inr (), d\<lparr>dk_files := m\<rparr>))
     | (IoTorn why, d) \<Rightarrow> (case f (dk_files d) of None \<Rightarrow> (Inl (Io IoNotFound), d)
                           | Some m \<Rightarrow> (Inl (Io (IoOther why)), d\<lparr>dk_files := m\<rparr>)))"

definition fs_list :: "(disk, (str, disk_file) btree) fm" where
  "fs_list = disk_get Inr"

definition fs_read :: "str \<Rightarrow> (disk, bytes) fm" where
  "fs_read path = disk_get (\<lambda>m. case bm_get m path of None \<Rightarrow> Inl (Io IoNotFound) | Some f \<Rightarrow> Inr (f_bytes f))"

text \<open>\<open>File::create\<close>, \<open>write\_all\<close>, \<open>flush\<close> and \<open>set\_modified\<close> as one call; half a file is only ever left
  under a staging name, whose content nobody reads.\<close>

definition fs_write :: "str \<Rightarrow> bytes \<Rightarrow> int \<Rightarrow> (disk, unit) fm" where
  "fs_write path content mtime = disk_do (\<lambda>m. Some (bm_insert path \<lparr>f_bytes = content, f_mtime = mtime\<rparr> m))"

definition fs_rename :: "str \<Rightarrow> str \<Rightarrow> (disk, unit) fm" where
  "fs_rename old new = disk_do (\<lambda>m. case bm_get m old of
     None \<Rightarrow> None | Some f \<Rightarrow> Some (bm_insert new f (bm_remove old m)))"

definition fs_remove :: "str \<Rightarrow> (disk, unit) fm" where
  "fs_remove path = disk_do (\<lambda>m. if bm_get m path = None then None else Some (bm_remove path m))"

definition fs_is_file :: "str \<Rightarrow> disk \<Rightarrow> bool" where
  "fs_is_file path d \<longleftrightarrow> bm_get (dk_files d) path \<noteq> None"

text \<open>\<open>now.duration\_since(ts).unwrap\_or\_default()\<close>: zero when the clock lies before the stamp.\<close>

definition age :: "int \<Rightarrow> int \<Rightarrow> nat" where
  "age now ts = nat (now - ts)"

lemmas disk_defs = disk_get_def disk_do_def next_io_def fs_list_def fs_read_def fs_write_def fs_rename_def fs_remove_def

text \<open>What a call may end in: with no faults left, as it should; otherwise also in a failure.\<close>

lemma ends_disk_get: "ends (disk_get f) P E d \<longleftrightarrow>
    (case dk_script d of
       [] \<Rightarrow> (case f (dk_files d) of Inl e \<Rightarrow> E e d | Inr a \<Rightarrow> P a d)
     | IoWorks # fs \<Rightarrow> (case f (dk_files d) of Inl e \<Rightarrow> E e (d\<lparr>dk_script := fs\<rparr>) | Inr a \<Rightarrow> P a (d\<lparr>dk_script := fs\<rparr>))
     | IoRefused why # fs \<Rightarrow> E (Io (IoOther why)) (d\<lparr>dk_script := fs\<rparr>)
     | IoTorn why # fs \<Rightarrow> E (Io (IoOther why)) (d\<lparr>dk_script := fs\<rparr>))"
  by (auto simp: ends_def disk_get_def next_io_def split: list.split io_fault.split sum.split)

text \<open>Only a scripted fault makes a call fail for a reason of its own.\<close>

abbreviation faulty :: "disk \<Rightarrow> bool" where
  "faulty d \<equiv> dk_script d \<noteq> []"

lemma ends_get:
  assumes "\<And>a d'. f (dk_files d) = Inr a \<Longrightarrow> dk_files d' = dk_files d \<Longrightarrow> (faulty d' \<longrightarrow> faulty d) \<Longrightarrow> P a d'"
    "\<And>e d'. f (dk_files d) = Inl e \<Longrightarrow> dk_files d' = dk_files d \<Longrightarrow> (faulty d' \<longrightarrow> faulty d) \<Longrightarrow> E e d'"
    "\<And>why d'. faulty d \<Longrightarrow> dk_files d' = dk_files d \<Longrightarrow> E (Io (IoOther why)) d'"
  shows "ends (disk_get f) P E d"
  using assms(1,2) [of _ d] assms(1,2) [of _ "d\<lparr>dk_script := tl (dk_script d)\<rparr>"]
    assms(3) [of "d\<lparr>dk_script := tl (dk_script d)\<rparr>"]
  by (cases "dk_script d") (auto simp: ends_disk_get split: io_fault.split sum.split)

lemma ends_do:
  assumes "\<And>m d'. f (dk_files d) = Some m \<Longrightarrow> dk_files d' = m \<Longrightarrow> (faulty d' \<longrightarrow> faulty d) \<Longrightarrow> P () d'"
    "\<And>m why d'. f (dk_files d) = Some m \<Longrightarrow> faulty d \<Longrightarrow> dk_files d' = m \<Longrightarrow> E (Io (IoOther why)) d'"
    "\<And>d'. f (dk_files d) = None \<Longrightarrow> dk_files d' = dk_files d \<Longrightarrow> (faulty d' \<longrightarrow> faulty d) \<Longrightarrow> E (Io IoNotFound) d'"
    "\<And>why d'. faulty d \<Longrightarrow> dk_files d' = dk_files d \<Longrightarrow> E (Io (IoOther why)) d'"
  shows "ends (disk_do f) P E d"
proof -
  let ?d = "d\<lparr>dk_script := tl (dk_script d)\<rparr>"
  show ?thesis
    using assms(1) [of _ "d\<lparr>dk_files := _\<rparr>"] assms(1) [of _ "?d\<lparr>dk_files := _\<rparr>"] assms(2) [of _ "?d\<lparr>dk_files := _\<rparr>"]
      assms(3) [of d] assms(3) [of ?d] assms(4) [of ?d]
    by (cases "dk_script d") (auto simp: ends_def disk_do_def next_io_def split: io_fault.split option.split)
qed

lemma ends_clean:
  "dk_script d = [] \<Longrightarrow> ends (disk_get f) P E d \<longleftrightarrow> (case f (dk_files d) of Inl e \<Rightarrow> E e d | Inr a \<Rightarrow> P a d)"
  "dk_script d = [] \<Longrightarrow> ends (disk_do g) P E d \<longleftrightarrow>
     (case g (dk_files d) of None \<Rightarrow> E (Io IoNotFound) d | Some m \<Rightarrow> P () (d\<lparr>dk_files := m\<rparr>))"
  by (auto simp: ends_def disk_get_def disk_do_def next_io_def split: sum.split option.split)

end
