(* ===== verification/BoundedDir.thy ===== *)
theory BoundedDir
  imports Bounded "HOL-Library.Product_Lexorder"
begin

text \<open>
  \<open>rust/wa-bounded/src/dir.rs\<close>: a directory with a byte quota, pins, a usage threshold and expiry.
  Payload files and pin markers lie side by side in the root; other subdirectories are not looked at.
\<close>

section \<open>Names and usage\<close>

definition PIN_SUFFIX :: str where "PIN_SUFFIX = lit ''.pin''"
definition TMP_SUFFIX :: str where "TMP_SUFFIX = lit ''.tmp''"
definition MAX_NAME :: nat where "MAX_NAME = 200"

definition dir_valid_name :: "str \<Rightarrow> bool" where
  "dir_valid_name name \<longleftrightarrow> name \<noteq> [] \<and> length (utf8 name) \<le> MAX_NAME \<and> \<not> prefix (lit ''.'') name \<and>
     \<not> sublist (lit ''..'') name \<and> \<not> suffix PIN_SUFFIX name \<and> \<not> suffix TMP_SUFFIX name \<and>
     list_all (\<lambda>b. is_alnum (unat b) \<or> b = 45 \<or> b = 95 \<or> b = 46) (utf8 name)"

record dir_entry =
  en_name :: str
  en_bytes :: nat
  en_ts :: int
  en_pinned :: bool

record dir_usage =
  us_bytes :: nat
  us_quota :: nat
  us_files :: nat
  us_pinned_bytes :: nat
  us_pinned_files :: nat
  us_threshold_pct :: nat

definition remaining :: "dir_usage \<Rightarrow> nat" where
  "remaining u = us_quota u - us_bytes u"

definition over_quota :: "dir_usage \<Rightarrow> bool" where
  "over_quota u \<longleftrightarrow> us_bytes u > us_quota u"

definition usage_pct :: "dir_usage \<Rightarrow> nat" where
  "usage_pct u = (if us_quota u = 0 then (if us_bytes u = 0 then 0 else 100)
     else min (us_bytes u * 100 div us_quota u) u64_max)"

definition over_threshold :: "dir_usage \<Rightarrow> bool" where
  "over_threshold u \<longleftrightarrow> us_quota u > 0 \<and> us_bytes u * 100 \<ge> us_quota u * us_threshold_pct u"

section \<open>The directory\<close>

text \<open>The callback is an observer; the usages it was called with are kept in order.\<close>

record bdir =
  bd_disk :: disk
  bd_quota :: nat
  bd_threshold_pct :: nat
  bd_hooked :: bool
  bd_above :: bool
  bd_fired :: "dir_usage list"

type_synonym 'a dirm = "(bdir, 'a) fm"

definition on_disk :: "(disk, 'a) fm \<Rightarrow> 'a dirm" where
  "on_disk m = b_part bd_disk (\<lambda>k d. d\<lparr>bd_disk := k\<rparr>) m"

definition dir_open :: "disk \<Rightarrow> nat \<Rightarrow> bdir" where
  "dir_open disk quota = \<lparr>bd_disk = disk, bd_quota = quota, bd_threshold_pct = THRESHOLD_PCT,
     bd_hooked = False, bd_above = False, bd_fired = []\<rparr>"

definition with_threshold :: "nat \<Rightarrow> bdir \<Rightarrow> bdir" where
  "with_threshold pct d = d\<lparr>bd_threshold_pct := max 1 (min 100 pct)\<rparr>"

definition on_threshold :: "bdir \<Rightarrow> bdir" where
  "on_threshold d = d\<lparr>bd_hooked := True\<rparr>"

definition pin_marker :: "str \<Rightarrow> str" where
  "pin_marker name = name @ PIN_SUFFIX"

definition is_payload :: "str \<Rightarrow> bool" where
  "is_payload name \<longleftrightarrow> \<not> suffix TMP_SUFFIX name \<and> \<not> suffix PIN_SUFFIX name"

definition entries_of :: "(str, disk_file) btree \<Rightarrow> dir_entry list" where
  "entries_of m = sort_key (\<lambda>e. (en_ts e, en_name e))
     (map (\<lambda>(name, f). \<lparr>en_name = name, en_bytes = length (f_bytes f), en_ts = f_mtime f,
        en_pinned = (bm_get m (pin_marker name) \<noteq> None)\<rparr>)
       (filter (\<lambda>(name, f). is_payload name) m))"

definition dir_entries :: "dir_entry list dirm" where
  "dir_entries = b_then (on_disk fs_list) (\<lambda>m. b_return (entries_of m))"

definition count_entry :: "dir_entry \<Rightarrow> dir_usage \<Rightarrow> dir_usage" where
  "count_entry e u =
    (let u = u\<lparr>us_bytes := sat_add64 (us_bytes u) (en_bytes e), us_files := wrap64 (us_files u + 1)\<rparr>
     in if en_pinned e
        then u\<lparr>us_pinned_bytes := sat_add64 (us_pinned_bytes u) (en_bytes e),
               us_pinned_files := wrap64 (us_pinned_files u + 1)\<rparr>
        else u)"

definition usage_of :: "bdir \<Rightarrow> dir_entry list \<Rightarrow> dir_usage" where
  "usage_of d es = fold count_entry es
     \<lparr>us_bytes = 0, us_quota = bd_quota d, us_files = 0, us_pinned_bytes = 0, us_pinned_files = 0,
      us_threshold_pct = bd_threshold_pct d\<rparr>"

definition dir_usage_now :: "dir_usage dirm" where
  "dir_usage_now = b_then dir_entries (\<lambda>es. b_query (\<lambda>d. usage_of d es))"

definition dir_is_pinned :: "str \<Rightarrow> bdir \<Rightarrow> bool" where
  "dir_is_pinned name d \<longleftrightarrow> dir_valid_name name \<and> fs_is_file (pin_marker name) (bd_disk d)"

definition dir_exists :: "str \<Rightarrow> bdir \<Rightarrow> bool" where
  "dir_exists name d \<longleftrightarrow> dir_valid_name name \<and> fs_is_file name (bd_disk d)"

definition observe_threshold :: "unit dirm" where
  "observe_threshold = b_then dir_usage_now (\<lambda>usage.
     b_modify (\<lambda>d. let over = over_threshold usage \<or> over_quota usage in
       d\<lparr>bd_above := over,
         bd_fired := (if over \<and> \<not> bd_above d \<and> bd_hooked d then bd_fired d @ [usage] else bd_fired d)\<rparr>))"

text \<open>The eviction loop: it answers with what is still in use.\<close>

fun evict :: "nat \<Rightarrow> nat \<Rightarrow> dir_entry list \<Rightarrow> nat \<Rightarrow> nat dirm" where
  "evict quota need [] used = b_return used"
| "evict quota need (victim # es) used =
     (if sat_add64 used need \<le> quota then b_return used
      else b_then (on_disk (fs_remove (en_name victim))) (\<lambda>_.
           b_then (b_ignore (on_disk (fs_remove (pin_marker (en_name victim))))) (\<lambda>_.
           evict quota need es (used - en_bytes victim))))"

definition make_room :: "str \<Rightarrow> nat \<Rightarrow> nat \<Rightarrow> dir_entry list \<Rightarrow> dir_usage \<Rightarrow> nat \<Rightarrow> unit dirm" where
  "make_room name need quota entries usage used =
    (if sat_add64 (us_pinned_bytes usage) need > quota then b_fail (QuotaExceeded need used quota)
     else b_then (evict quota need (filter (\<lambda>e. \<not> en_pinned e \<and> en_name e \<noteq> name) entries) used) (\<lambda>used.
       if sat_add64 used need > quota then b_fail (QuotaExceeded need used quota) else b_return ()))"

definition staging :: "str \<Rightarrow> str \<Rightarrow> str" where
  "staging pid name = lit ''.'' @ name @ lit ''.'' @ pid @ TMP_SUFFIX"

definition put_file :: "str \<Rightarrow> str \<Rightarrow> bytes \<Rightarrow> int \<Rightarrow> unit dirm" where
  "put_file pid name content ts =
     b_then (on_disk (fs_write (staging pid name) content ts)) (\<lambda>_.
     b_then (b_catch (on_disk (fs_rename (staging pid name) name))) (\<lambda>r. case r of
       Inl e \<Rightarrow> b_then (b_ignore (on_disk (fs_remove (staging pid name)))) (\<lambda>_. b_fail e)
     | Inr _ \<Rightarrow> b_return ()))"

definition write_stamped :: "str \<Rightarrow> str \<Rightarrow> bytes \<Rightarrow> int \<Rightarrow> unit dirm" where
  "write_stamped pid name content ts =
    (if \<not> dir_valid_name name then b_fail (BadFileName name)
     else
       b_then (b_query (\<lambda>d. (dir_is_pinned name d, bd_quota d))) (\<lambda>(pinned, quota).
       b_then dir_entries (\<lambda>entries.
       b_then (b_query (\<lambda>d. usage_of d entries)) (\<lambda>usage.
       let need = length content;
           replaced = (case find (\<lambda>e. en_name e = name) entries of Some e \<Rightarrow> en_bytes e | None \<Rightarrow> 0);
           used = us_bytes usage - replaced
       in b_then (if \<not> pinned \<and> sat_add64 used need > quota
                  then make_room name need quota entries usage used else b_return ()) (\<lambda>_.
          b_then (put_file pid name content ts) (\<lambda>_. observe_threshold))))))"

definition dir_write :: "str \<Rightarrow> str \<Rightarrow> bytes \<Rightarrow> int \<Rightarrow> unit dirm" where
  "dir_write pid name content now = write_stamped pid name content now"

definition dir_read :: "str \<Rightarrow> bytes dirm" where
  "dir_read name =
    (if \<not> dir_valid_name name then b_fail (BadFileName name)
     else b_then (b_catch (on_disk (fs_read name))) (\<lambda>r. case r of
         Inr bytes \<Rightarrow> b_return bytes
       | Inl (Io IoNotFound) \<Rightarrow> b_fail (FileNotFound name)
       | Inl e \<Rightarrow> b_fail e))"

definition dir_remove :: "str \<Rightarrow> bool dirm" where
  "dir_remove name =
    (if \<not> dir_valid_name name then b_fail (BadFileName name)
     else
       b_then (b_ignore (on_disk (fs_remove (pin_marker name)))) (\<lambda>_.
       b_then (b_catch (on_disk (fs_remove name))) (\<lambda>r. case r of
         Inr _ \<Rightarrow> b_then observe_threshold (\<lambda>_. b_return True)
       | Inl (Io IoNotFound) \<Rightarrow> b_then observe_threshold (\<lambda>_. b_return False)
       | Inl e \<Rightarrow> b_fail e)))"

text \<open>\<open>fs::write\<close> of an empty marker, whose time stamp nobody reads.\<close>

definition dir_pin :: "str \<Rightarrow> int \<Rightarrow> unit dirm" where
  "dir_pin name ts =
    (if \<not> dir_valid_name name then b_fail (BadFileName name)
     else b_then (b_query (dir_exists name)) (\<lambda>there.
       if \<not> there then b_fail (FileNotFound name)
       else on_disk (fs_write (pin_marker name) [] ts)))"

definition dir_unpin :: "str \<Rightarrow> unit dirm" where
  "dir_unpin name =
    (if \<not> dir_valid_name name then b_fail (BadFileName name)
     else b_then (b_catch (on_disk (fs_remove (pin_marker name)))) (\<lambda>r. case r of
         Inr _ \<Rightarrow> b_return ()
       | Inl (Io IoNotFound) \<Rightarrow> b_return ()
       | Inl e \<Rightarrow> b_fail e))"

fun expire_loop :: "nat \<Rightarrow> int \<Rightarrow> dir_entry list \<Rightarrow> str list \<Rightarrow> str list dirm" where
  "expire_loop max_age now [] gone = b_return gone"
| "expire_loop max_age now (e # es) gone =
     (if en_pinned e then expire_loop max_age now es gone
      else if age now (en_ts e) \<ge> max_age
      then b_then (on_disk (fs_remove (en_name e))) (\<lambda>_. expire_loop max_age now es (gone @ [en_name e]))
      else expire_loop max_age now es gone)"

definition dir_expire :: "nat \<Rightarrow> int \<Rightarrow> str list dirm" where
  "dir_expire max_age now =
     b_then dir_entries (\<lambda>entries.
     b_then (expire_loop max_age now entries []) (\<lambda>gone.
     if gone \<noteq> [] then b_then observe_threshold (\<lambda>_. b_return gone) else b_return gone))"

end
