(* ===== verification/BoundedBlob.thy ===== *)
theory BoundedBlob
  imports Bounded
begin

text \<open>
  \<open>rust/wa-bounded/src/blob.rs\<close>: the content-addressed blobs with their persistent reference counts.
  Files are keyed by their path below the root; \<open>sha\<close> is SHA-256, \<open>clock\<close> the reading the file system
  stamps a new file with.  Creating a directory is a call that changes no file.
\<close>

section \<open>Keys\<close>

definition hex_nibble :: "byte \<Rightarrow> nat option" where
  "hex_nibble b = (let c = unat b in
     if 48 \<le> c \<and> c \<le> 57 then Some (c - 48)
     else if 97 \<le> c \<and> c \<le> 102 then Some (c - 97 + 10)
     else if 65 \<le> c \<and> c \<le> 70 then Some (c - 65 + 10)
     else None)"

fun hex_pairs :: "bytes \<Rightarrow> bytes option" where
  "hex_pairs [] = Some []"
| "hex_pairs (h # l # bs) = (case hex_nibble h of None \<Rightarrow> None | Some hi \<Rightarrow>
     (case hex_nibble l of None \<Rightarrow> None | Some lo \<Rightarrow> map_option (\<lambda>r. of_nat (hi * 16 + lo) # r) (hex_pairs bs)))"
| "hex_pairs [h] = None"

definition key_from_hex :: "str \<Rightarrow> bytes option" where
  "key_from_hex text = (if length (utf8 text) \<noteq> 64 then None else hex_pairs (utf8 text))"

definition key_short :: "bytes \<Rightarrow> str" where
  "key_short key = take 16 (hex key)"

definition key_from_str :: "str \<Rightarrow> bounded_error + bytes" where
  "key_from_str s = (case key_from_hex s of Some k \<Rightarrow> Inr k | None \<Rightarrow> Inl (BadFileName s))"

record blob_ref =
  br_key :: bytes
  br_len :: nat

record gc_report =
  gc_scanned :: nat
  gc_removed :: "bytes list"
  gc_bytes_freed :: nat
  gc_kept :: nat
  gc_unreadable :: nat

section \<open>The store\<close>

record bstore =
  bs_disk :: disk
  bs_refs :: "(bytes, nat) btree"

type_synonym 'a blobm = "(bstore, 'a) fm"

definition in_store :: "(disk, 'a) fm \<Rightarrow> 'a blobm" where
  "in_store m = b_part bs_disk (\<lambda>k s. s\<lparr>bs_disk := k\<rparr>) m"

definition REFS_FILE :: str where "REFS_FILE = lit ''refs.idx''"
definition REFS_HEADER :: str where "REFS_HEADER = lit ''# wa-bounded blob refs v1''"
definition BLOB_PIN :: str where "BLOB_PIN = lit ''.pin''"
definition BLOB_TMP :: str where "BLOB_TMP = lit ''.tmp''"

definition blob_path :: "bytes \<Rightarrow> str" where
  "blob_path key = take 2 (hex key) @ lit ''/'' @ hex key"

definition blob_pin_path :: "bytes \<Rightarrow> str" where
  "blob_pin_path key = blob_path key @ BLOB_PIN"

definition make_dir :: "(disk, unit) fm" where
  "make_dir = disk_do Some"

text \<open>Write a staging file and rename it; a rename that fails removes the staging file.\<close>

definition replace_file :: "str \<Rightarrow> str \<Rightarrow> bytes \<Rightarrow> int \<Rightarrow> (disk, unit) fm" where
  "replace_file tmp path content clock =
     b_then (fs_write tmp content clock) (\<lambda>_.
     b_then (b_catch (fs_rename tmp path)) (\<lambda>r. case r of
       Inl e \<Rightarrow> b_then (b_ignore (fs_remove tmp)) (\<lambda>_. b_fail e)
     | Inr _ \<Rightarrow> b_return ()))"

definition blob_put :: "(bytes \<Rightarrow> bytes) \<Rightarrow> int \<Rightarrow> bytes \<Rightarrow> blob_ref blobm" where
  "blob_put sha clock content =
    (let key = sha content; path = blob_path key in
     b_then (b_query (\<lambda>s. fs_is_file path (bs_disk s))) (\<lambda>there.
     b_then (if there then b_return ()
             else b_then (in_store make_dir) (\<lambda>_. in_store (replace_file (path @ BLOB_TMP) path content clock))) (\<lambda>_.
     b_return \<lparr>br_key = key, br_len = length content\<rparr>)))"

definition blob_get :: "bytes \<Rightarrow> bytes option blobm" where
  "blob_get key = b_then (b_catch (in_store (fs_read (blob_path key)))) (\<lambda>r. case r of
       Inr content \<Rightarrow> b_return (Some content)
     | Inl (Io IoNotFound) \<Rightarrow> b_return None
     | Inl e \<Rightarrow> b_fail e)"

definition blob_has :: "bytes \<Rightarrow> bstore \<Rightarrow> bool" where
  "blob_has key s \<longleftrightarrow> fs_is_file (blob_path key) (bs_disk s)"

definition refs_text :: "(bytes, nat) btree \<Rightarrow> str" where
  "refs_text refs = REFS_HEADER @ [10] @ concat (map (\<lambda>(key, count). hex key @ [32] @ dec count @ [10]) refs)"

definition flush_refs :: "int \<Rightarrow> unit blobm" where
  "flush_refs clock = b_then (b_query (\<lambda>s. refs_text (bs_refs s))) (\<lambda>text.
     in_store (replace_file (REFS_FILE @ BLOB_TMP) REFS_FILE (utf8 text) clock))"

definition refcount :: "bytes \<Rightarrow> bstore \<Rightarrow> nat" where
  "refcount key s = (case bm_get (bs_refs s) key of Some n \<Rightarrow> n | None \<Rightarrow> 0)"

definition blob_add_ref :: "int \<Rightarrow> bytes \<Rightarrow> nat blobm" where
  "blob_add_ref clock key =
     b_then (b_query (blob_has key)) (\<lambda>there.
     if \<not> there then b_fail (BlobMissing key)
     else
       b_then (b_query (\<lambda>s. sat_add32 (refcount key s) 1)) (\<lambda>count.
       b_then (b_modify (\<lambda>s. s\<lparr>bs_refs := bm_insert key count (bs_refs s)\<rparr>)) (\<lambda>_.
       b_then (flush_refs clock) (\<lambda>_. b_return count))))"

definition blob_release :: "int \<Rightarrow> bytes \<Rightarrow> nat blobm" where
  "blob_release clock key =
     b_then (b_query (\<lambda>s. refcount key s - 1)) (\<lambda>count.
     b_then (b_modify (\<lambda>s. s\<lparr>bs_refs := (if count = 0 then bm_remove key (bs_refs s)
                                        else bm_insert key count (bs_refs s))\<rparr>)) (\<lambda>_.
     b_then (flush_refs clock) (\<lambda>_. b_return count)))"

definition blob_pin :: "int \<Rightarrow> bytes \<Rightarrow> unit blobm" where
  "blob_pin clock key =
     b_then (b_query (blob_has key)) (\<lambda>there.
     if \<not> there then b_fail (BlobMissing key) else in_store (fs_write (blob_pin_path key) [] clock))"

definition blob_unpin :: "bytes \<Rightarrow> unit blobm" where
  "blob_unpin key = b_then (b_catch (in_store (fs_remove (blob_pin_path key)))) (\<lambda>r. case r of
       Inr _ \<Rightarrow> b_return ()
     | Inl (Io IoNotFound) \<Rightarrow> b_return ()
     | Inl e \<Rightarrow> b_fail e)"

definition blob_is_pinned :: "bytes \<Rightarrow> bstore \<Rightarrow> bool" where
  "blob_is_pinned key s \<longleftrightarrow> fs_is_file (blob_pin_path key) (bs_disk s)"

text \<open>The two levels of \<open>read\_dir\<close> as one listing.\<close>

definition keys_of :: "(str, disk_file) btree \<Rightarrow> bytes list" where
  "keys_of m = sort (List.map_filter (\<lambda>(path, f). case split_on 47 path of
       [shard, name] \<Rightarrow> if suffix BLOB_PIN name \<or> suffix BLOB_TMP name then None else key_from_hex name
     | _ \<Rightarrow> None) m)"

definition blob_keys :: "bytes list blobm" where
  "blob_keys = b_then (in_store fs_list) (\<lambda>m. b_return (keys_of m))"

definition blob_len :: "nat blobm" where
  "blob_len = b_then blob_keys (\<lambda>ks. b_return (length ks))"

definition blob_is_empty :: "bool blobm" where
  "blob_is_empty = b_then blob_len (\<lambda>n. b_return (n = 0))"

definition fs_metadata :: "str \<Rightarrow> (disk, disk_file) fm" where
  "fs_metadata path = disk_get (\<lambda>m. case bm_get m path of None \<Rightarrow> Inl (Io IoNotFound) | Some f \<Rightarrow> Inr f)"

fun total_loop :: "bytes list \<Rightarrow> nat \<Rightarrow> nat blobm" where
  "total_loop [] acc = b_return acc"
| "total_loop (key # ks) acc =
     b_then (b_catch (in_store (fs_metadata (blob_path key)))) (\<lambda>r.
     total_loop ks (case r of Inr f \<Rightarrow> sat_add64 acc (length (f_bytes f)) | Inl _ \<Rightarrow> acc))"

definition blob_total_bytes :: "nat blobm" where
  "blob_total_bytes = b_then blob_keys (\<lambda>ks. total_loop ks 0)"

section \<open>Collection\<close>

fun gc_loop :: "int \<Rightarrow> nat \<Rightarrow> bytes list \<Rightarrow> gc_report \<Rightarrow> gc_report blobm" where
  "gc_loop now ttl [] rep = b_return rep"
| "gc_loop now ttl (key # ks) rep =
    (let rep = rep\<lparr>gc_scanned := gc_scanned rep + 1\<rparr> in
     b_then (b_query (\<lambda>s. blob_is_pinned key s \<or> refcount key s > 0)) (\<lambda>held.
     if held then gc_loop now ttl ks (rep\<lparr>gc_kept := gc_kept rep + 1\<rparr>)
     else
       b_then (b_catch (in_store (fs_metadata (blob_path key)))) (\<lambda>meta. case meta of
         Inl _ \<Rightarrow> gc_loop now ttl ks (rep\<lparr>gc_unreadable := gc_unreadable rep + 1\<rparr>)
       | Inr f \<Rightarrow>
           if age now (f_mtime f) \<ge> ttl then
             b_then (b_catch (in_store (fs_remove (blob_path key)))) (\<lambda>r. case r of
               Inr _ \<Rightarrow> gc_loop now ttl ks (rep\<lparr>gc_removed := gc_removed rep @ [key],
                 gc_bytes_freed := sat_add64 (gc_bytes_freed rep) (length (f_bytes f))\<rparr>)
             | Inl (Io IoNotFound) \<Rightarrow> gc_loop now ttl ks rep
             | Inl e \<Rightarrow> b_fail e)
           else gc_loop now ttl ks (rep\<lparr>gc_kept := gc_kept rep + 1\<rparr>))))"

definition gc_start :: gc_report where
  "gc_start = \<lparr>gc_scanned = 0, gc_removed = [], gc_bytes_freed = 0, gc_kept = 0, gc_unreadable = 0\<rparr>"

definition blob_gc :: "int \<Rightarrow> int \<Rightarrow> nat \<Rightarrow> gc_report blobm" where
  "blob_gc clock now ttl =
     b_then blob_keys (\<lambda>ks.
     b_then (gc_loop now ttl ks gc_start) (\<lambda>rep.
     b_then (b_modify (\<lambda>s. s\<lparr>bs_refs := filter (\<lambda>(key, n). blob_has key s) (bs_refs s)\<rparr>)) (\<lambda>_.
     b_then (flush_refs clock) (\<lambda>_. b_return rep))))"

section \<open>Opening\<close>

text \<open>\<open>str::lines\<close>, \<open>split\_whitespace\<close> and \<open>parse::<u32>\<close>.\<close>

definition chomp :: "str \<Rightarrow> str" where
  "chomp l = (if l \<noteq> [] \<and> last l = 13 then butlast l else l)"

definition str_lines :: "str \<Rightarrow> str list" where
  "str_lines s = (let ls = split_on 10 s in map chomp (if last ls = [] then butlast ls else ls))"

fun words :: "str \<Rightarrow> str list" where
  "words [] = []"
| "words (c # s) =
     (if is_whitespace c then words s
      else case s of
          [] \<Rightarrow> [[c]]
        | d # _ \<Rightarrow> if is_whitespace d then [c] # words s
                  else (c # hd (words s)) # tl (words s))"

abbreviation parse_u32 :: "str \<Rightarrow> nat option" where
  "parse_u32 \<equiv> parse_nat u32_max"

definition read_line :: "str \<Rightarrow> (bytes, nat) btree \<Rightarrow> (bytes, nat) btree" where
  "read_line line out =
    (let line = trim line in
     if line = [] \<or> prefix (lit ''#'') line then out
     else case words line of
         [key, count] \<Rightarrow>
           (case (key_from_hex key, parse_u32 count) of
              (Some k, Some n) \<Rightarrow> if n > 0 then bm_insert k n out else out
            | _ \<Rightarrow> out)
       | _ \<Rightarrow> out)"

definition read_refs :: "(disk, (bytes, nat) btree) fm" where
  "read_refs = b_then (b_catch (fs_read REFS_FILE)) (\<lambda>r. case r of
       Inl (Io IoNotFound) \<Rightarrow> b_return []
     | Inl e \<Rightarrow> b_fail e
     | Inr content \<Rightarrow>
         (case from_utf8 content of
            None \<Rightarrow> b_fail (Io (IoOther (lit ''invalid data'')))
          | Some text \<Rightarrow> b_return (fold read_line (str_lines text) [])))"

definition blob_open :: "(disk, bstore) fm" where
  "blob_open = b_then make_dir (\<lambda>_. b_then read_refs (\<lambda>refs. b_query (\<lambda>k. \<lparr>bs_disk = k, bs_refs = refs\<rparr>)))"

end
