(* ===== verification/BoundedRing.thy ===== *)
theory BoundedRing
  imports BoundedBlob
begin

text \<open>
  \<open>rust/wa-bounded/src/ring.rs\<close>: the in-memory ring of host-call records, bounded by bytes and by age,
  with its oversized payloads in a blob store.
\<close>

definition RECORD_OVERHEAD :: nat where "RECORD_OVERHEAD = 96"

datatype payload = EmptyPayload | Inline bytes bytes | DigestOnly bytes nat | BlobPayload blob_ref

fun payload_digest :: "payload \<Rightarrow> bytes option" where
  "payload_digest EmptyPayload = None"
| "payload_digest (Inline sha bs) = Some sha"
| "payload_digest (DigestOnly sha n) = Some sha"
| "payload_digest (BlobPayload r) = Some (br_key r)"

fun payload_len :: "payload \<Rightarrow> nat" where
  "payload_len EmptyPayload = 0"
| "payload_len (Inline sha bs) = length bs"
| "payload_len (DigestOnly sha n) = n"
| "payload_len (BlobPayload r) = br_len r"

definition payload_is_empty :: "payload \<Rightarrow> bool" where
  "payload_is_empty p \<longleftrightarrow> p = EmptyPayload"

fun inline_bytes :: "payload \<Rightarrow> bytes option" where
  "inline_bytes (Inline sha bs) = Some bs"
| "inline_bytes _ = None"

fun payload_blob :: "payload \<Rightarrow> blob_ref option" where
  "payload_blob (BlobPayload r) = Some r"
| "payload_blob _ = None"

fun payload_accounted :: "payload \<Rightarrow> nat" where
  "payload_accounted EmptyPayload = 0"
| "payload_accounted (Inline sha bs) = length bs"
| "payload_accounted (DigestOnly sha n) = 32"
| "payload_accounted (BlobPayload r) = 32"

record call_record =
  rc_seq :: nat
  rc_ts :: int
  rc_interface :: str
  rc_function :: str
  rc_args :: payload
  rc_result :: payload
  rc_duration :: nat

definition accounted_len :: "call_record \<Rightarrow> nat" where
  "accounted_len r = sat_add64 (sat_add64 (sat_add64 (sat_add64 RECORD_OVERHEAD (length (utf8 (rc_interface r))))
     (length (utf8 (rc_function r)))) (payload_accounted (rc_args r))) (payload_accounted (rc_result r))"

record new_record =
  nr_interface :: str
  nr_function :: str
  nr_args :: bytes
  nr_result :: "bytes option"
  nr_duration :: nat
  nr_ts :: int

record ring_config =
  cf_max_bytes :: nat
  cf_max_age :: nat
  cf_blob_threshold :: nat
  cf_keep_args :: bool

definition ring_config_default :: ring_config where
  "ring_config_default = \<lparr>cf_max_bytes = RING_MAX_BYTES, cf_max_age = RING_MAX_AGE,
     cf_blob_threshold = BLOB_THRESHOLD_BYTES, cf_keep_args = True\<rparr>"

record ring =
  rg_cfg :: ring_config
  rg_records :: "call_record list"
  rg_bytes :: nat
  rg_next_seq :: nat
  rg_blobs :: "bstore option"

type_synonym 'a ringm = "(ring, 'a) fm"

definition ring_new :: "ring_config \<Rightarrow> ring" where
  "ring_new cfg = \<lparr>rg_cfg = cfg, rg_records = [], rg_bytes = 0, rg_next_seq = 0, rg_blobs = None\<rparr>"

definition ring_with_blobs :: "ring_config \<Rightarrow> bstore \<Rightarrow> ring" where
  "ring_with_blobs cfg store = \<lparr>rg_cfg = cfg, rg_records = [], rg_bytes = 0, rg_next_seq = 0, rg_blobs = Some store\<rparr>"

definition newest_ts :: "ring \<Rightarrow> int option" where
  "newest_ts r = (if rg_records r = [] then None else Some (rc_ts (last (rg_records r))))"

definition oldest_ts :: "ring \<Rightarrow> int option" where
  "oldest_ts r = (case rg_records r of [] \<Rightarrow> None | x # _ \<Rightarrow> Some (rc_ts x))"

definition field_ok :: "str \<Rightarrow> bool" where
  "field_ok field \<longleftrightarrow> field \<noteq> [] \<and> length (utf8 field) \<le> 128 \<and>
     list_all (\<lambda>b. 33 \<le> unat b \<and> unat b \<le> 126) (utf8 field)"

text \<open>A call of the ring's own store, when it has one.\<close>

definition with_store :: "'a blobm \<Rightarrow> 'a ringm" where
  "with_store m = b_part (\<lambda>r. the (rg_blobs r)) (\<lambda>s r. r\<lparr>rg_blobs := Some s\<rparr>) m"

definition encode_payload :: "(bytes \<Rightarrow> bytes) \<Rightarrow> int \<Rightarrow> bytes \<Rightarrow> bool \<Rightarrow> payload ringm" where
  "encode_payload sha clock content keep =
    (let digest = sha content in
     if \<not> keep then b_return (DigestOnly digest (length content))
     else b_then (b_query (\<lambda>r. (cf_blob_threshold (rg_cfg r), rg_blobs r \<noteq> None))) (\<lambda>(threshold, stored).
       if length content > threshold then
         (if stored then
            b_then (with_store (blob_put sha clock content)) (\<lambda>blob.
            b_then (with_store (blob_add_ref clock (br_key blob))) (\<lambda>_. b_return (BlobPayload blob)))
          else b_return (DigestOnly digest (length content)))
       else b_return (Inline digest content)))"

fun release_payloads :: "int \<Rightarrow> payload list \<Rightarrow> unit ringm" where
  "release_payloads clock [] = b_return ()"
| "release_payloads clock (p # ps) =
     (case payload_blob p of
        None \<Rightarrow> release_payloads clock ps
      | Some blob \<Rightarrow> b_then (b_ignore (with_store (blob_release clock (br_key blob)))) (\<lambda>_. release_payloads clock ps))"

definition drop_front :: "int \<Rightarrow> call_record option ringm" where
  "drop_front clock = b_then (b_query rg_records) (\<lambda>rs. case rs of
       [] \<Rightarrow> b_return None
     | x # rest \<Rightarrow>
         b_then (b_modify (\<lambda>r. r\<lparr>rg_records := rest, rg_bytes := rg_bytes r - accounted_len x\<rparr>)) (\<lambda>_.
         b_then (b_query (\<lambda>r. rg_blobs r \<noteq> None)) (\<lambda>stored.
         b_then (if stored then release_payloads clock [rc_args x, rc_result x] else b_return ()) (\<lambda>_.
         b_return (Some x)))))"

text \<open>The loops run at most once per record.\<close>

fun expire_records :: "int \<Rightarrow> int \<Rightarrow> call_record list \<Rightarrow> nat \<Rightarrow> nat ringm" where
  "expire_records clock now [] dropped = b_return dropped"
| "expire_records clock now (front # rs) dropped =
     b_then (b_query (\<lambda>r. cf_max_age (rg_cfg r))) (\<lambda>max_age.
     if age now (rc_ts front) < max_age then b_return dropped
     else b_then (drop_front clock) (\<lambda>_. expire_records clock now rs (dropped + 1)))"

definition ring_expire :: "int \<Rightarrow> int \<Rightarrow> nat ringm" where
  "ring_expire clock now = b_then (b_query rg_records) (\<lambda>rs. expire_records clock now rs 0)"

fun shrink :: "int \<Rightarrow> call_record list \<Rightarrow> unit ringm" where
  "shrink clock [] = b_return ()"
| "shrink clock (front # rs) =
     b_then (b_query (\<lambda>r. rg_bytes r > cf_max_bytes (rg_cfg r) \<and> rs \<noteq> [])) (\<lambda>more.
     if more then b_then (drop_front clock) (\<lambda>_. shrink clock rs) else b_return ())"

definition ring_push :: "(bytes \<Rightarrow> bytes) \<Rightarrow> int \<Rightarrow> new_record \<Rightarrow> nat ringm" where
  "ring_push sha clock call =
    (if \<not> field_ok (nr_interface call) then b_fail (BadField (lit ''interface''))
     else if \<not> field_ok (nr_function call) then b_fail (BadField (lit ''function''))
     else
       b_then (b_query (\<lambda>r. cf_keep_args (rg_cfg r))) (\<lambda>keep.
       b_then (encode_payload sha clock (nr_args call) keep) (\<lambda>args.
       b_then (case nr_result call of Some content \<Rightarrow> encode_payload sha clock content True | None \<Rightarrow> b_return EmptyPayload) (\<lambda>res.
       b_then (b_query rg_next_seq) (\<lambda>seq.
       let x = \<lparr>rc_seq = seq, rc_ts = nr_ts call, rc_interface = nr_interface call, rc_function = nr_function call,
             rc_args = args, rc_result = res, rc_duration = nr_duration call\<rparr>
       in b_then (b_modify (\<lambda>r. r\<lparr>rg_next_seq := sat_add64 seq 1, rg_bytes := sat_add64 (rg_bytes r) (accounted_len x),
               rg_records := rg_records r @ [x]\<rparr>)) (\<lambda>_.
          b_then (ring_expire clock (nr_ts call)) (\<lambda>_.
          b_then (b_query rg_records) (\<lambda>rs.
          b_then (shrink clock rs) (\<lambda>_. b_return seq)))))))))"

fun clear_records :: "int \<Rightarrow> call_record list \<Rightarrow> unit ringm" where
  "clear_records clock [] = b_return ()"
| "clear_records clock (x # rs) = b_then (drop_front clock) (\<lambda>_. clear_records clock rs)"

definition ring_clear :: "int \<Rightarrow> unit ringm" where
  "ring_clear clock = b_then (b_query rg_records) (clear_records clock)"

definition referenced_blobs :: "call_record list \<Rightarrow> bytes list" where
  "referenced_blobs rs = remdups_adj (sort (List.map_filter (\<lambda>p. map_option br_key (payload_blob p))
     (concat (map (\<lambda>r. [rc_args r, rc_result r]) rs))))"

end
