(* ===== verification/BoundedReplay.thy ===== *)
theory BoundedReplay
  imports BoundedDir BoundedRing
begin

text \<open>
  \<open>rust/wa-bounded/src/replay.rs\<close>: saving the ring into one file and reading it back.  \<open>zc\<close> and \<open>zd\<close>
  are zstd's compression and decompression, which may fail; a cursor is a position in the bytes.
\<close>

definition REPLAY_MAGIC :: bytes where "REPLAY_MAGIC = utf8 (lit ''WA-REPLY'')"
definition FORMAT_VERSION :: nat where "FORMAT_VERSION = 1"
definition FLAG_KNOWN :: nat where "FLAG_KNOWN = 0"

datatype trigger = ErrorTrigger | TimeoutTrigger | CrashTrigger | TranscriptionTrigger | ManualTrigger | OtherTrigger str

fun trigger_as_str :: "trigger \<Rightarrow> str" where
  "trigger_as_str ErrorTrigger = lit ''error''"
| "trigger_as_str TimeoutTrigger = lit ''timeout''"
| "trigger_as_str CrashTrigger = lit ''crash''"
| "trigger_as_str TranscriptionTrigger = lit ''transcription''"
| "trigger_as_str ManualTrigger = lit ''manual''"
| "trigger_as_str (OtherTrigger s) = s"

definition trigger_parse :: "str \<Rightarrow> trigger" where
  "trigger_parse s =
    (if s = lit ''error'' then ErrorTrigger
     else if s = lit ''timeout'' then TimeoutTrigger
     else if s = lit ''crash'' then CrashTrigger
     else if s = lit ''transcription'' then TranscriptionTrigger
     else if s = lit ''manual'' then ManualTrigger
     else OtherTrigger s)"

record save_options =
  so_trigger :: trigger
  so_label :: str
  so_pin :: bool

definition save_options_default :: save_options where
  "save_options_default = \<lparr>so_trigger = ManualTrigger, so_label = lit ''replay'', so_pin = False\<rparr>"

record saved_replay =
  sv_name :: str
  sv_bytes :: nat
  sv_records :: nat
  sv_pinned :: bool
  sv_missing :: "bytes list"

section \<open>Writing\<close>

definition millis :: "int \<Rightarrow> nat" where
  "millis ts = min (nat ts div 1000000) u64_max"

definition from_millis :: "nat \<Rightarrow> int" where
  "from_millis ms = int (ms * 1000000)"

definition duration_millis :: "nat \<Rightarrow> nat" where
  "duration_millis d = min (d div 1000000) u64_max"

definition put_text :: "str \<Rightarrow> bounded_error + bytes" where
  "put_text text = (if length (utf8 text) > 65535 then Inl (BadField (lit ''string too long for the v1 format''))
     else Inr (le 2 (length (utf8 text)) @ utf8 text))"

fun put_payload :: "payload \<Rightarrow> bytes" where
  "put_payload EmptyPayload = [0]"
| "put_payload (Inline digest content) = 1 # le 4 (length content mod 4294967296) @ content"
| "put_payload (DigestOnly digest n) = 2 # digest @ le 8 n"
| "put_payload (BlobPayload blob) = 3 # br_key blob @ le 8 (br_len blob)"

definition encode_record :: "call_record \<Rightarrow> bounded_error + bytes" where
  "encode_record r =
     res_bind (put_text (rc_interface r)) (\<lambda>interface.
     res_bind (put_text (rc_function r)) (\<lambda>function.
     Inr (le 8 (rc_seq r) @ le 8 (millis (rc_ts r)) @ le 4 (min (rc_duration r div 1000) u32_max) @
       interface @ function @ put_payload (rc_args r) @ put_payload (rc_result r))))"

fun encode_records :: "call_record list \<Rightarrow> bounded_error + bytes" where
  "encode_records [] = Inr []"
| "encode_records (r # rs) = res_bind (encode_record r) (\<lambda>b. res_bind (encode_records rs) (\<lambda>bs. Inr (b @ bs)))"

definition record_len_of_blob :: "call_record list \<Rightarrow> bytes \<Rightarrow> nat" where
  "record_len_of_blob rs key =
    (case find (\<lambda>b. br_key b = key) (List.map_filter payload_blob (concat (map (\<lambda>r. [rc_args r, rc_result r]) rs))) of
       Some b \<Rightarrow> br_len b | None \<Rightarrow> 0)"

fun to_lower :: "rchar \<Rightarrow> rchar" where
  "to_lower c = (if 65 \<le> c \<and> c \<le> 90 then c + 32 else c)"

fun sanitize_loop :: "str \<Rightarrow> str \<Rightarrow> bool \<Rightarrow> str" where
  "sanitize_loop [] out last_dash = out"
| "sanitize_loop (ch # s) out last_dash =
     (let c = to_lower ch in
      if is_alnum c then sanitize_loop s (out @ [c]) False
      else if \<not> last_dash \<and> out \<noteq> [] then sanitize_loop s (out @ [45]) True
      else sanitize_loop s out last_dash)"

definition sanitize_name :: "str \<Rightarrow> str" where
  "sanitize_name text = take 40 (rev (dropWhile (\<lambda>c. c = 45) (rev (sanitize_loop (take 64 text) [] False))))"

definition name_stem :: "save_options \<Rightarrow> nat \<Rightarrow> str" where
  "name_stem opts created_ms =
    (let label = sanitize_name (so_label opts);
         label = (if label = [] then lit ''replay'' else label);
         trigger = sanitize_name (trigger_as_str (so_trigger opts));
         trigger = (if trigger = [] then lit ''other'' else trigger)
     in label @ lit ''.'' @ trigger @ lit ''.'' @ dec created_ms)"

text \<open>The loop tries one name more than there are files.\<close>

fun free_name :: "nat \<Rightarrow> bdir \<Rightarrow> str \<Rightarrow> nat \<Rightarrow> str option" where
  "free_name 0 d stem n = None"
| "free_name (Suc fuel) d stem n =
     (let name = (if n = 1 then stem @ lit ''.wrz'' else stem @ lit ''-'' @ dec n @ lit ''.wrz'')
      in if dir_exists name d then free_name fuel d stem (n + 1) else Some name)"

definition file_name :: "bdir \<Rightarrow> save_options \<Rightarrow> nat \<Rightarrow> str option" where
  "file_name d opts created_ms =
     free_name (Suc (length (dk_files (bd_disk d)))) d (name_stem opts created_ms) 1"

text \<open>A saver works on the ring and the directory.\<close>

type_synonym 'a savem = "(ring \<times> bdir, 'a) fm"

definition on_ring :: "'a ringm \<Rightarrow> 'a savem" where
  "on_ring m = b_part fst (\<lambda>r s. (r, snd s)) m"

definition on_dir :: "'a dirm \<Rightarrow> 'a savem" where
  "on_dir m = b_part snd (\<lambda>d s. (fst s, d)) m"

fun take_refs :: "int \<Rightarrow> call_record list \<Rightarrow> bytes list \<Rightarrow> blob_ref list \<Rightarrow> bytes list \<Rightarrow> (blob_ref list \<times> bytes list) savem" where
  "take_refs clock rs [] blobs missing = b_return (blobs, missing)"
| "take_refs clock rs (key # ks) blobs missing =
    (let blobs = blobs @ [\<lparr>br_key = key, br_len = record_len_of_blob rs key\<rparr>] in
     b_then (b_query (\<lambda>s. case rg_blobs (fst s) of Some store \<Rightarrow> blob_has key store | None \<Rightarrow> False)) (\<lambda>there.
     if there
     then b_then (on_ring (with_store (blob_add_ref clock key))) (\<lambda>_. take_refs clock rs ks blobs missing)
     else take_refs clock rs ks blobs (missing @ [key])))"

definition header_bytes :: "ring_config \<Rightarrow> nat \<Rightarrow> nat \<Rightarrow> nat \<Rightarrow> bytes \<Rightarrow> bytes \<Rightarrow> bytes \<Rightarrow> blob_ref list \<Rightarrow> bytes" where
  "header_bytes cfg created_ms records body_len body_sha trigger label blobs =
     REPLAY_MAGIC @ le 2 FORMAT_VERSION @ le 2 FLAG_KNOWN @ le 8 created_ms @ le 8 records @
     le 8 body_len @ body_sha @ le 8 (duration_millis (cf_max_age cfg)) @ le 8 (cf_max_bytes cfg) @
     le 8 (cf_blob_threshold cfg) @ [if cf_keep_args cfg then 1 else 0] @ trigger @ label @
     le 4 (wrap32 (length blobs)) @ concat (map (\<lambda>b. br_key b @ le 8 (br_len b)) blobs)"

definition replay_save :: "(bytes \<Rightarrow> bytes) \<Rightarrow> (bytes \<Rightarrow> str + bytes) \<Rightarrow> str \<Rightarrow> int \<Rightarrow> save_options \<Rightarrow> int \<Rightarrow> saved_replay savem" where
  "replay_save sha zc pid clock opts now =
     b_then (b_query (\<lambda>s. (rg_records (fst s), rg_cfg (fst s)))) (\<lambda>(rs, cfg).
     b_then (b_result (encode_records rs)) (\<lambda>body.
     b_then (take_refs clock rs (referenced_blobs rs) [] []) (\<lambda>(blobs, missing).
     b_then (b_result (case zc body of Inl why \<Rightarrow> Inl (Io (IoOther why)) | Inr z \<Rightarrow> Inr z)) (\<lambda>compressed.
     b_then (b_result (put_text (trigger_as_str (so_trigger opts)))) (\<lambda>trigger.
     b_then (b_result (put_text (so_label opts))) (\<lambda>label.
     let header = header_bytes cfg (millis now) (length rs) (length body) (sha body) trigger label blobs @ compressed
     in b_then (b_query (\<lambda>s. the (file_name (snd s) opts (millis now)))) (\<lambda>name.
        b_then (on_dir (write_stamped pid name header now)) (\<lambda>_.
        b_then (if so_pin opts then on_dir (dir_pin name clock) else b_return ()) (\<lambda>_.
        b_return \<lparr>sv_name = name, sv_bytes = length header, sv_records = length rs, sv_pinned = so_pin opts,
          sv_missing = missing\<rparr>)))))))))"

section \<open>Reading\<close>

type_synonym 'a cur = "bytes \<Rightarrow> nat \<Rightarrow> bounded_error + ('a \<times> nat)"

definition cu_return :: "'a \<Rightarrow> 'a cur" where
  "cu_return a bs pos = Inr (a, pos)"

definition cu_fail :: "corruption \<Rightarrow> 'a cur" where
  "cu_fail e bs pos = Inl (CorruptReplay e)"

definition cu_bind :: "'a cur \<Rightarrow> ('a \<Rightarrow> 'b cur) \<Rightarrow> 'b cur" where
  "cu_bind p f bs pos = (case p bs pos of Inl e \<Rightarrow> Inl e | Inr (a, pos) \<Rightarrow> f a bs pos)"

definition cu_take :: "nat \<Rightarrow> bytes cur" where
  "cu_take n bs pos =
    (if pos + n > u64_max then Inl (CorruptReplay LengthOverflow)
     else if pos + n > length bs then Inl (CorruptReplay (TruncatedAt pos n))
     else Inr (take n (drop pos bs), pos + n))"

definition cu_int :: "nat \<Rightarrow> nat cur" where
  "cu_int n = cu_bind (cu_take n) (\<lambda>b. cu_return (of_le b))"

definition cu_text :: "nat \<Rightarrow> str cur" where
  "cu_text n = cu_bind (cu_take n) (\<lambda>b. case from_utf8 b of Some s \<Rightarrow> cu_return s | None \<Rightarrow> cu_fail NotUtf8)"

definition cu_str :: "str cur" where
  "cu_str = cu_bind (cu_int 2) cu_text"

record replay_header =
  hd_version :: nat
  hd_flags :: nat
  hd_created :: int
  hd_records :: nat
  hd_body_len :: nat
  hd_body_sha :: bytes
  hd_trigger :: trigger
  hd_label :: str
  hd_blobs :: "blob_ref list"
  hd_ring :: ring_config

definition cu_blob :: "blob_ref cur" where
  "cu_blob = cu_bind (cu_take 32) (\<lambda>key. cu_bind (cu_int 8) (\<lambda>n. cu_return \<lparr>br_key = key, br_len = n\<rparr>))"

fun cu_blobs :: "nat \<Rightarrow> blob_ref list cur" where
  "cu_blobs 0 = cu_return []"
| "cu_blobs (Suc n) = cu_bind cu_blob (\<lambda>b. cu_bind (cu_blobs n) (\<lambda>bs. cu_return (b # bs)))"

definition cu_version :: "nat cur" where
  "cu_version = cu_bind (cu_int 2) (\<lambda>version.
     if version > FORMAT_VERSION then (\<lambda>bs pos. Inl (UnsupportedVersion version))
     else if version < FORMAT_VERSION then cu_fail (NoReader version)
     else cu_return version)"

text \<open>No flag is known, so any set bit is refused.\<close>

definition cu_flags :: "nat cur" where
  "cu_flags = cu_bind (cu_int 2) (\<lambda>flags. if flags \<noteq> FLAG_KNOWN then cu_fail (UnknownFlags flags) else cu_return flags)"

definition cu_blob_table :: "blob_ref list cur" where
  "cu_blob_table = cu_bind (cu_int 4) (\<lambda>n bs pos.
     if sat_mul64 n 40 > length bs - pos then Inl (CorruptReplay BlobTableTooLarge) else cu_blobs n bs pos)"

definition read_header :: "replay_header cur" where
  "read_header =
     cu_bind (cu_take 8) (\<lambda>magic. if magic \<noteq> REPLAY_MAGIC then cu_fail BadReplayMagic else
     cu_bind cu_version (\<lambda>version.
     cu_bind cu_flags (\<lambda>flags.
     cu_bind (cu_int 8) (\<lambda>created.
     cu_bind (cu_int 8) (\<lambda>records.
     cu_bind (cu_int 8) (\<lambda>body_len.
     cu_bind (cu_take 32) (\<lambda>body_sha.
     cu_bind (cu_int 8) (\<lambda>max_age.
     cu_bind (cu_int 8) (\<lambda>max_bytes.
     cu_bind (cu_int 8) (\<lambda>threshold.
     cu_bind (cu_int 1) (\<lambda>keep.
     cu_bind cu_str (\<lambda>trigger.
     cu_bind cu_str (\<lambda>label.
     cu_bind cu_blob_table (\<lambda>blobs.
     cu_return \<lparr>hd_version = version, hd_flags = flags, hd_created = from_millis created, hd_records = records,
       hd_body_len = body_len, hd_body_sha = body_sha, hd_trigger = trigger_parse trigger, hd_label = label,
       hd_blobs = blobs, hd_ring = \<lparr>cf_max_bytes = max_bytes, cf_max_age = max_age * 1000000,
         cf_blob_threshold = threshold, cf_keep_args = (keep \<noteq> 0)\<rparr>\<rparr>))))))))))))))"

definition parse_payload :: "(bytes \<Rightarrow> bytes) \<Rightarrow> payload cur" where
  "parse_payload sha = cu_bind (cu_take 1) (\<lambda>b. let tag = hd b in
     if tag = 0 then cu_return EmptyPayload
     else if tag = 1 then cu_bind (cu_int 4) (\<lambda>n. cu_bind (cu_take n) (\<lambda>content. cu_return (Inline (sha content) content)))
     else if tag = 2 then cu_bind (cu_take 32) (\<lambda>digest. cu_bind (cu_int 8) (\<lambda>n. cu_return (DigestOnly digest n)))
     else if tag = 3 then cu_bind cu_blob (\<lambda>blob. cu_return (BlobPayload blob))
     else cu_fail (UnknownPayloadTag tag))"

definition parse_record :: "(bytes \<Rightarrow> bytes) \<Rightarrow> call_record cur" where
  "parse_record sha =
     cu_bind (cu_int 8) (\<lambda>seq.
     cu_bind (cu_int 8) (\<lambda>ts.
     cu_bind (cu_int 4) (\<lambda>duration.
     cu_bind cu_str (\<lambda>interface.
     cu_bind cu_str (\<lambda>function.
     cu_bind (parse_payload sha) (\<lambda>args.
     cu_bind (parse_payload sha) (\<lambda>res.
     cu_return \<lparr>rc_seq = seq, rc_ts = from_millis ts, rc_interface = interface, rc_function = function,
       rc_args = args, rc_result = res, rc_duration = duration * 1000\<rparr>)))))))"

record replay_reader =
  rd_header :: replay_header
  rd_body :: bytes
  rd_pos :: nat
  rd_read :: nat
  rd_failed :: bool

definition reader_from_bytes :: "(bytes \<Rightarrow> bytes) \<Rightarrow> (bytes \<Rightarrow> str + bytes) \<Rightarrow> bytes \<Rightarrow> bounded_error + replay_reader" where
  "reader_from_bytes sha zd bs =
     res_bind (read_header bs 0) (\<lambda>(header, consumed).
     if drop consumed bs = [] then Inl (CorruptReplay BodyEmpty)
     else case zd (drop consumed bs) of
       Inl why \<Rightarrow> Inl (CorruptReplay (ZstdFailed why))
     | Inr body \<Rightarrow>
         if length body \<noteq> hd_body_len header then Inl (CorruptReplay (BodyLength (length body) (hd_body_len header)))
         else if sha body \<noteq> hd_body_sha header then Inl (CorruptReplay BodyDigest)
         else Inr \<lparr>rd_header = header, rd_body = body, rd_pos = 0, rd_read = 0, rd_failed = False\<rparr>)"

definition reader_remaining :: "replay_reader \<Rightarrow> nat" where
  "reader_remaining rd = hd_records (rd_header rd) - rd_read rd"

text \<open>Every record is parsed from the rest of the body, where positions count from zero again.\<close>

definition next_record :: "(bytes \<Rightarrow> bytes) \<Rightarrow> replay_reader \<Rightarrow> (bounded_error + call_record option) \<times> replay_reader" where
  "next_record sha rd =
    (if rd_failed rd \<or> rd_read rd \<ge> hd_records (rd_header rd) then (Inr None, rd)
     else case parse_record sha (drop (rd_pos rd) (rd_body rd)) 0 of
       Inr (r, n) \<Rightarrow> (Inr (Some r), rd\<lparr>rd_pos := rd_pos rd + n, rd_read := rd_read rd + 1\<rparr>)
     | Inl e \<Rightarrow> (Inl e, rd\<lparr>rd_failed := True\<rparr>))"

text \<open>The reader as an iterator: an error is its last item.\<close>

definition reader_next :: "(bytes \<Rightarrow> bytes) \<Rightarrow> replay_reader \<Rightarrow> (bounded_error + call_record) option \<times> replay_reader" where
  "reader_next sha rd = (case next_record sha rd of
       (Inr (Some r), rd) \<Rightarrow> (Some (Inr r), rd)
     | (Inr None, rd) \<Rightarrow> (None, rd)
     | (Inl e, rd) \<Rightarrow> (Some (Inl e), rd))"

record replay =
  rp_header :: replay_header
  rp_records :: "call_record list"

text \<open>At most as many records as the header says.\<close>

fun read_all :: "(bytes \<Rightarrow> bytes) \<Rightarrow> nat \<Rightarrow> replay_reader \<Rightarrow> bounded_error + call_record list" where
  "read_all sha 0 rd = Inr []"
| "read_all sha (Suc fuel) rd = (case next_record sha rd of
       (Inl e, rd) \<Rightarrow> Inl e
     | (Inr None, rd) \<Rightarrow> Inr []
     | (Inr (Some r), rd) \<Rightarrow> res_bind (read_all sha fuel rd) (\<lambda>rs. Inr (r # rs)))"

definition replay_load :: "(bytes \<Rightarrow> bytes) \<Rightarrow> (bytes \<Rightarrow> str + bytes) \<Rightarrow> bytes \<Rightarrow> bounded_error + replay" where
  "replay_load sha zd bs = res_bind (reader_from_bytes sha zd bs) (\<lambda>rd.
     res_bind (read_all sha (Suc (reader_remaining rd)) rd) (\<lambda>rs. Inr \<lparr>rp_header = rd_header rd, rp_records = rs\<rparr>))"

definition replay_verify :: "replay \<Rightarrow> bounded_error + unit" where
  "replay_verify rp =
    (if length (rp_records rp) \<noteq> hd_records (rp_header rp)
     then Inl (CorruptReplay (RecordCount (length (rp_records rp)) (hd_records (rp_header rp))))
     else try_all (\<lambda>(seq, p). case payload_blob p of
         None \<Rightarrow> Inr ()
       | Some blob \<Rightarrow> if list_ex (\<lambda>b. br_key b = br_key blob) (hd_blobs (rp_header rp)) then Inr ()
                     else Inl (CorruptReplay (UndeclaredBlob seq (br_key blob))))
       (concat (map (\<lambda>r. [(rc_seq r, rc_args r), (rc_seq r, rc_result r)]) (rp_records rp))))"

fun verify_loop :: "(bytes \<Rightarrow> bytes) \<Rightarrow> blob_ref list \<Rightarrow> bytes list \<Rightarrow> bytes list blobm" where
  "verify_loop sha [] bad = b_return bad"
| "verify_loop sha (blob # bs) bad = b_then (blob_get (br_key blob)) (\<lambda>r. case r of
       Some content \<Rightarrow> if sha content = br_key blob then verify_loop sha bs bad else verify_loop sha bs (bad @ [br_key blob])
     | None \<Rightarrow> verify_loop sha bs (bad @ [br_key blob]))"

definition verify_blobs :: "(bytes \<Rightarrow> bytes) \<Rightarrow> replay \<Rightarrow> bytes list blobm" where
  "verify_blobs sha rp = verify_loop sha (hd_blobs (rp_header rp)) []"

definition resolve_payload :: "(bytes \<Rightarrow> bytes) \<Rightarrow> payload \<Rightarrow> bytes option blobm" where
  "resolve_payload sha p = (case p of
       EmptyPayload \<Rightarrow> b_return None
     | DigestOnly _ _ \<Rightarrow> b_return None
     | Inline _ content \<Rightarrow> b_return (Some content)
     | BlobPayload blob \<Rightarrow> b_then (blob_get (br_key blob)) (\<lambda>r. case r of
           Some content \<Rightarrow> if sha content \<noteq> br_key blob then b_fail (CorruptReplay (BlobMismatch (br_key blob)))
                          else b_return (Some content)
         | None \<Rightarrow> b_fail (BlobMissing (br_key blob))))"

fun release_blobs :: "int \<Rightarrow> blob_ref list \<Rightarrow> unit blobm" where
  "release_blobs clock [] = b_return ()"
| "release_blobs clock (blob # bs) = b_then (blob_release clock (br_key blob)) (\<lambda>_. release_blobs clock bs)"

end
