(* ===== verification/BoundedDirLaws.thy ===== *)
theory BoundedDirLaws
  imports BoundedDir "HOL-Library.Multiset"
begin

text \<open>
  Laws of the bounded directory: what is counted, what eviction removes, and what a write leaves,
  whatever fails on the way.
\<close>

section \<open>Counting\<close>

abbreviation dir_files :: "bdir \<Rightarrow> (str, disk_file) btree" where
  "dir_files d \<equiv> dk_files (bd_disk d)"

definition same_dir :: "bdir \<Rightarrow> bdir \<Rightarrow> bool" where
  "same_dir d d' \<longleftrightarrow> bd_quota d' = bd_quota d \<and> bd_threshold_pct d' = bd_threshold_pct d \<and>
     (faulty (bd_disk d') \<longrightarrow> faulty (bd_disk d))"

definition charged :: "str \<Rightarrow> disk_file \<Rightarrow> nat" where
  "charged n f = (if is_payload n then length (f_bytes f) else 0)"

definition payload_total :: "(str, disk_file) btree \<Rightarrow> nat" where
  "payload_total m = sum_list (map (\<lambda>(n, f). charged n f) m)"

definition charged_at :: "(str, disk_file) btree \<Rightarrow> str \<Rightarrow> nat" where
  "charged_at m n = (case bm_get m n of None \<Rightarrow> 0 | Some f \<Rightarrow> charged n f)"

lemma total_insert: "bm_wf m \<Longrightarrow> payload_total (bm_insert n f m) + charged_at m n = payload_total m + charged n f"
proof (induction n f m rule: bm_insert.induct)
  case (2 k v a b m)
  have "bm_get m k = None" if "k < a \<or> k = a"
    using that 2(2) by (force simp: map_of_eq_None_iff)
  then show ?case using 2 by (auto simp: payload_total_def charged_at_def split: option.split)
qed (simp add: payload_total_def charged_at_def)

lemma total_remove: "bm_wf m \<Longrightarrow> payload_total (bm_remove n m) + charged_at m n = payload_total m"
proof (induction m)
  case (Cons e m)
  obtain a b where e: "e = (a, b)" by fastforce
  show ?case
  proof (cases "a = n")
    case True
    then have no: "n \<notin> fst ` set m" using Cons.prems e by auto
    then have "bm_remove n m = m" unfolding bm_remove_def by (intro filter_True) auto
    then show ?thesis using True e by (simp add: payload_total_def charged_at_def bm_remove_def)
  next
    case False
    then show ?thesis using Cons e by (simp add: payload_total_def charged_at_def bm_remove_def)
  qed
qed (simp add: payload_total_def charged_at_def bm_remove_def)

lemma charged_at_le: "bm_wf m \<Longrightarrow> charged_at m n \<le> payload_total m"
  using total_remove [of m n] by simp

lemma sum_sort_key: "sum_list (map f (sort_key k xs)) = (sum_list (map f xs) :: nat)"
  by (metis mset_map mset_sort sum_mset_sum_list)

lemma sum_payload: "sum_list (map en_bytes (entries_of m)) = payload_total m"
proof -
  have "sum_list (map en_bytes (map (\<lambda>(name, f). \<lparr>en_name = name, en_bytes = length (f_bytes f), en_ts = f_mtime f,
      en_pinned = p name\<rparr>) (filter (\<lambda>(n, f). is_payload n) xs))) = payload_total xs" for p xs
    by (induction xs) (auto simp: charged_def payload_total_def)
  then show ?thesis unfolding entries_of_def sum_sort_key .
qed

lemma set_entries: "set (entries_of m) = {\<lparr>en_name = n, en_bytes = length (f_bytes f), en_ts = f_mtime f,
    en_pinned = (bm_get m (pin_marker n) \<noteq> None)\<rparr> | n f. (n, f) \<in> set m \<and> is_payload n}"
  by (force simp: entries_of_def)

lemma entry_file:
  assumes "bm_wf m" "e \<in> set (entries_of m)"
  obtains f where "bm_get m (en_name e) = Some f" "en_bytes e = length (f_bytes f)" "en_ts e = f_mtime f"
    "en_pinned e \<longleftrightarrow> bm_get m (pin_marker (en_name e)) \<noteq> None" "is_payload (en_name e)"
  using assms by (auto simp: set_entries bm_get_in)

lemma entries_distinct: "bm_wf m \<Longrightarrow> distinct (map en_name (entries_of m))"
proof -
  assume wf: "bm_wf m"
  have "distinct (map fst (filter (\<lambda>(n, f). is_payload n) m))" by (rule bm_wf_distinct [OF bm_wf_filter [OF wf]])
  then have "distinct (map en_name (map (\<lambda>(name, f). \<lparr>en_name = name, en_bytes = length (f_bytes f), en_ts = f_mtime f,
      en_pinned = (bm_get m (pin_marker name) \<noteq> None)\<rparr>) (filter (\<lambda>(n, f). is_payload n) m)))"
    by (simp add: comp_def case_prod_beta)
  then show ?thesis
    unfolding entries_of_def distinct_map by (simp add: distinct_map)
qed

lemma entries_sorted: "sorted (map (\<lambda>e. (en_ts e, en_name e)) (entries_of m))"
  by (simp add: entries_of_def)

text \<open>The usage, when the sum does not saturate.\<close>

lemma usage_fold:
  assumes "us_bytes u + sum_list (map en_bytes es) \<le> u64_max" "us_pinned_bytes u \<le> us_bytes u"
  shows "us_bytes (fold count_entry es u) = us_bytes u + sum_list (map en_bytes es) \<and>
    us_pinned_bytes (fold count_entry es u) = us_pinned_bytes u + sum_list (map en_bytes (filter en_pinned es))"
  using assms
proof (induction es arbitrary: u)
  case (Cons e es)
  have v: "us_bytes (count_entry e u) = us_bytes u + en_bytes e"
    "us_pinned_bytes (count_entry e u) = us_pinned_bytes u + (if en_pinned e then en_bytes e else 0)"
    using Cons.prems by (simp_all add: count_entry_def Let_def sat_add64_def)
  have "us_bytes (count_entry e u) + sum_list (map en_bytes es) \<le> u64_max" "us_pinned_bytes (count_entry e u) \<le> us_bytes (count_entry e u)"
    using Cons.prems unfolding v by auto
  from Cons.IH [OF this] show ?case unfolding v by simp
qed simp

lemma usage_sums:
  assumes "sum_list (map en_bytes es) \<le> u64_max"
  shows "us_bytes (usage_of d es) = sum_list (map en_bytes es)"
    "us_pinned_bytes (usage_of d es) = sum_list (map en_bytes (filter en_pinned es))"
  using assms
    usage_fold [of "\<lparr>us_bytes = 0, us_quota = bd_quota d, us_files = 0, us_pinned_bytes = 0, us_pinned_files = 0,
      us_threshold_pct = bd_threshold_pct d\<rparr>" es]
  by (simp_all add: usage_of_def)

section \<open>Calls of the directory\<close>

lemma ends_dir_do:
  assumes "\<And>m d'. f (dir_files d) = Some m \<Longrightarrow> dir_files d' = m \<Longrightarrow> same_dir d d' \<Longrightarrow> P () d'"
    "\<And>m why d'. f (dir_files d) = Some m \<Longrightarrow> dir_files d' = m \<Longrightarrow> same_dir d d' \<Longrightarrow> faulty (bd_disk d) \<Longrightarrow> E (Io (IoOther why)) d'"
    "\<And>d'. f (dir_files d) = None \<Longrightarrow> dir_files d' = dir_files d \<Longrightarrow> same_dir d d' \<Longrightarrow> E (Io IoNotFound) d'"
    "\<And>why d'. dir_files d' = dir_files d \<Longrightarrow> same_dir d d' \<Longrightarrow> faulty (bd_disk d) \<Longrightarrow> E (Io (IoOther why)) d'"
  shows "ends (on_disk (disk_do f)) P E d"
  unfolding on_disk_def ends_simps
  by (rule ends_do; rule assms; (assumption | simp add: same_dir_def))

lemma ends_dir_get:
  assumes "\<And>a d'. f (dir_files d) = Inr a \<Longrightarrow> dir_files d' = dir_files d \<Longrightarrow> same_dir d d' \<Longrightarrow> P a d'"
    "\<And>e d'. f (dir_files d) = Inl e \<Longrightarrow> dir_files d' = dir_files d \<Longrightarrow> same_dir d d' \<Longrightarrow> E e d'"
    "\<And>why d'. dir_files d' = dir_files d \<Longrightarrow> same_dir d d' \<Longrightarrow> faulty (bd_disk d) \<Longrightarrow> E (Io (IoOther why)) d'"
  shows "ends (on_disk (disk_get f)) P E d"
  unfolding on_disk_def ends_simps
  by (rule ends_get; rule assms; (assumption | simp add: same_dir_def))

lemma same_dir_refl [simp]: "same_dir d d"
  by (simp add: same_dir_def)

lemma faulty_back: "same_dir d d' \<Longrightarrow> faulty (bd_disk d') \<Longrightarrow> faulty (bd_disk d)"
  by (simp add: same_dir_def)

lemma same_dir_trans: "same_dir a b \<Longrightarrow> same_dir b c \<Longrightarrow> same_dir a c"
  by (simp add: same_dir_def)

lemma ends_entries:
  assumes "\<And>d'. dir_files d' = dir_files d \<Longrightarrow> same_dir d d' \<Longrightarrow> P (entries_of (dir_files d)) d'"
    "\<And>why d'. dir_files d' = dir_files d \<Longrightarrow> same_dir d d' \<Longrightarrow> faulty (bd_disk d) \<Longrightarrow> E (Io (IoOther why)) d'"
  shows "ends dir_entries P E d"
  unfolding dir_entries_def fs_list_def ends_simps by (rule ends_dir_get) (auto intro: assms)

lemma ends_observe:
  assumes "\<And>d'. dir_files d' = dir_files d \<Longrightarrow> same_dir d d' \<Longrightarrow> P () d'"
    "\<And>why d'. dir_files d' = dir_files d \<Longrightarrow> same_dir d d' \<Longrightarrow> faulty (bd_disk d) \<Longrightarrow> E (Io (IoOther why)) d'"
  shows "ends observe_threshold P E d"
  unfolding observe_threshold_def dir_usage_now_def ends_simps
  by (rule ends_entries) (auto simp: Let_def same_dir_def intro!: assms)

section \<open>Eviction\<close>

abbreviation drop_files :: "dir_entry list \<Rightarrow> (str, disk_file) btree \<Rightarrow> (str, disk_file) btree" where
  "drop_files es m \<equiv> fold bm_remove (map en_name es) m"

definition victims_of :: "(str, disk_file) btree \<Rightarrow> dir_entry list \<Rightarrow> bool" where
  "victims_of m es \<longleftrightarrow> distinct (map en_name es) \<and> (\<forall>e \<in> set es. charged_at m (en_name e) = en_bytes e \<and>
     bm_get m (en_name e) \<noteq> None \<and> bm_get m (pin_marker (en_name e)) = None)"

lemma victims_step: "victims_of m (e # es) \<Longrightarrow> victims_of (bm_remove (en_name e) m) es"
  by (auto simp: victims_of_def charged_at_def) (metis imageI)+

text \<open>A prefix of the candidates goes, no longer than it has to be.\<close>

definition evicts :: "nat \<Rightarrow> nat \<Rightarrow> dir_entry list \<Rightarrow> nat \<Rightarrow> nat \<Rightarrow> bool" where
  "evicts quota need es used k \<longleftrightarrow> k \<le> length es \<and>
     (\<forall>j < k. sat_add64 (used - sum_list (map en_bytes (take j es))) need > quota)"

lemma evict_ends:
  assumes "victims_of (dir_files d) es"
    "\<And>k d'. evicts quota need es used k \<Longrightarrow>
       k = length es \<or> sat_add64 (used - sum_list (map en_bytes (take k es))) need \<le> quota \<Longrightarrow>
       dir_files d' = drop_files (take k es) (dir_files d) \<Longrightarrow> same_dir d d' \<Longrightarrow>
       P (used - sum_list (map en_bytes (take k es))) d'"
    "\<And>k why d'. k \<le> length es \<Longrightarrow> dir_files d' = drop_files (take k es) (dir_files d) \<Longrightarrow> same_dir d d' \<Longrightarrow>
       faulty (bd_disk d) \<Longrightarrow> E (Io (IoOther why)) d'"
  shows "ends (evict quota need es used) P E d"
  using assms
proof (induction quota need es used arbitrary: d P E rule: evict.induct)
  case (1 quota need used)
  then show ?case using 1(2) [of 0] by (simp add: ends_simps evicts_def)
next
  case (2 quota need victim es used)
  let ?n = "en_name victim"
  show ?case
  proof (cases "sat_add64 used need \<le> quota")
    case True
    then show ?thesis using 2(3) [of 0] by (simp add: ends_simps evicts_def)
  next
    case False
    have there: "bm_get (dir_files d) ?n \<noteq> None" and pin: "bm_get (dir_files d) (pin_marker ?n) = None"
      using 2(2) by (auto simp: victims_of_def)
    have rest: "ends (evict quota need es (used - en_bytes victim)) P E d'"
      if d': "dir_files d' = bm_remove ?n (dir_files d)" "same_dir d d'" for d'
    proof (rule 2(1) [OF False])
      show "victims_of (dir_files d') es" unfolding d' by (rule victims_step [OF 2(2)])
      show "P (used - en_bytes victim - sum_list (map en_bytes (take k es))) d''"
        if k: "evicts quota need es (used - en_bytes victim) k"
          "k = length es \<or> sat_add64 (used - en_bytes victim - sum_list (map en_bytes (take k es))) need \<le> quota"
          "dir_files d'' = drop_files (take k es) (dir_files d')" "same_dir d' d''" for k d''
      proof -
        have "evicts quota need (victim # es) used (Suc k)"
          using k(1) False unfolding evicts_def by (auto simp: less_Suc_eq_0_disj)
        then show ?thesis
          using 2(3) [of "Suc k" d''] k d' same_dir_trans [OF d'(2) k(4)] by simp
      qed
      show "E (Io (IoOther why)) d''"
        if "k \<le> length es" "dir_files d'' = drop_files (take k es) (dir_files d')" "same_dir d' d''"
          "faulty (bd_disk d')" for k why d''
        using 2(4) [of "Suc k" d''] that d' same_dir_trans [OF d'(2) that(3)] by (simp add: same_dir_def)
    qed
    show ?thesis
      unfolding evict.simps if_not_P [OF False] ends_then fs_remove_def
    proof (rule ends_dir_do)
      fix m d1
      assume m: "(if bm_get (dir_files d) ?n = None then None else Some (bm_remove ?n (dir_files d))) = Some m"
        "dir_files d1 = m" "same_dir d d1"
      then have f: "dir_files d1 = bm_remove ?n (dir_files d)" using there by simp
      then have none: "bm_get (dir_files d1) (pin_marker ?n) = None" using pin by simp
      show "ends (b_ignore (on_disk (disk_do (\<lambda>m. if bm_get m (pin_marker ?n) = None then None else Some (bm_remove (pin_marker ?n) m)))))
          (\<lambda>_. ends (evict quota need es (used - en_bytes victim)) P E) E d1"
        unfolding ends_simps
      proof (rule ends_dir_do)
        have next_one: "ends (evict quota need es (used - en_bytes victim)) P E d2"
          if "dir_files d2 = dir_files d1" "same_dir d1 d2" for d2
          using rest [of d2] that f same_dir_trans [OF m(3) that(2)] by simp
        show "ends (evict quota need es (used - en_bytes victim)) P E d2"
          if "dir_files d2 = dir_files d1" "same_dir d1 d2" for d2
          using that by (rule next_one)
        then show "ends (evict quota need es (used - en_bytes victim)) P E d2"
          if "dir_files d2 = dir_files d1" "same_dir d1 d2" for d2
          using that .
      qed (simp_all add: none)
    next
      show "E (Io (IoOther why)) d1" if "dir_files d1 = dir_files d" "same_dir d d1" "faulty (bd_disk d)" for why d1
        using 2(4) [of 0 d1] that by simp
      show "E (Io (IoOther why)) d1"
        if "(if bm_get (dir_files d) ?n = None then None else Some (bm_remove ?n (dir_files d))) = Some m"
          "dir_files d1 = m" "same_dir d d1" "faulty (bd_disk d)" for m why d1
        using 2(4) [of 1 d1] that there by auto
    qed (use there in auto)
  qed
qed

section \<open>Writing\<close>

definition pinned_total :: "(str, disk_file) btree \<Rightarrow> nat" where
  "pinned_total m = sum_list (map en_bytes (filter en_pinned (entries_of m)))"

definition candidates :: "(str, disk_file) btree \<Rightarrow> str \<Rightarrow> dir_entry list" where
  "candidates m name = filter (\<lambda>e. \<not> en_pinned e \<and> en_name e \<noteq> name) (entries_of m)"

lemma candidates_victims: "bm_wf m \<Longrightarrow> victims_of m (candidates m name)"
proof -
  assume wf: "bm_wf m"
  have "distinct (map en_name (candidates m name))"
    unfolding candidates_def by (rule distinct_map_filter [OF entries_distinct [OF wf]])
  moreover have "charged_at m (en_name e) = en_bytes e \<and> bm_get m (en_name e) \<noteq> None \<and> bm_get m (pin_marker (en_name e)) = None"
    if "e \<in> set (candidates m name)" for e
  proof -
    from that have e: "e \<in> set (entries_of m)" "\<not> en_pinned e" by (auto simp: candidates_def)
    obtain f where "bm_get m (en_name e) = Some f" "en_bytes e = length (f_bytes f)"
      "en_pinned e \<longleftrightarrow> bm_get m (pin_marker (en_name e)) \<noteq> None" "is_payload (en_name e)"
      by (rule entry_file [OF wf e(1)])
    then show ?thesis using e(2) by (simp add: charged_at_def charged_def)
  qed
  ultimately show ?thesis by (auto simp: victims_of_def)
qed

lemma drop_files_get: "bm_get (drop_files es m) n = (if n \<in> en_name ` set es then None else bm_get m n)"
  by (induction es arbitrary: m) auto

lemma drop_files_wf: "bm_wf m \<Longrightarrow> bm_wf (drop_files es m)"
  by (induction es arbitrary: m) simp_all

lemma drop_files_total: "bm_wf m \<Longrightarrow> victims_of m es \<Longrightarrow>
    payload_total (drop_files es m) + sum_list (map en_bytes es) = payload_total m"
proof (induction es arbitrary: m)
  case (Cons e es)
  have "payload_total (bm_remove (en_name e) m) + en_bytes e = payload_total m"
    using total_remove [OF Cons.prems(1), of "en_name e"] Cons.prems(2) by (simp add: victims_of_def)
  moreover have "payload_total (drop_files es (bm_remove (en_name e) m)) + sum_list (map en_bytes es) =
      payload_total (bm_remove (en_name e) m)"
    using Cons.IH [of "bm_remove (en_name e) m"] Cons.prems(1) victims_step [OF Cons.prems(2)] by simp
  ultimately show ?case by simp
qed simp

lemma victims_take: "victims_of m es \<Longrightarrow> victims_of m (take k es)"
  using distinct_take [of "map en_name es" k] by (auto simp: victims_of_def take_map dest: in_set_takeD)

lemma valid_payload: "dir_valid_name name \<Longrightarrow> is_payload name"
  by (simp add: dir_valid_name_def is_payload_def)

lemma staging_no_payload: "\<not> is_payload (staging pid name)"
  by (simp add: is_payload_def staging_def suffix_def)

lemma find_charged:
  assumes "bm_wf m" "is_payload name"
  shows "(case find (\<lambda>e. en_name e = name) (entries_of m) of Some e \<Rightarrow> en_bytes e | None \<Rightarrow> 0) = charged_at m name"
proof (cases "find (\<lambda>e. en_name e = name) (entries_of m)")
  case None
  have "bm_get m name = None"
  proof (rule ccontr)
    assume "bm_get m name \<noteq> None"
    then obtain f where "(name, f) \<in> set m" using bm_get_in [OF assms(1)] by auto
    then have "\<lparr>en_name = name, en_bytes = length (f_bytes f), en_ts = f_mtime f,
        en_pinned = (bm_get m (pin_marker name) \<noteq> None)\<rparr> \<in> set (entries_of m)"
      unfolding set_entries using assms(2) by blast
    then have "\<exists>e \<in> set (entries_of m). en_name e = name" by force
    with None show False by (auto simp: find_None_iff)
  qed
  then show ?thesis using None by (simp add: charged_at_def)
next
  case (Some e)
  then have e: "e \<in> set (entries_of m)" "en_name e = name" by (auto simp: find_Some_iff)
  obtain f where "bm_get m (en_name e) = Some f" "en_bytes e = length (f_bytes f)"
    by (rule entry_file [OF assms(1) e(1)])
  then show ?thesis using e(2) Some assms(2) by (simp add: charged_at_def charged_def)
qed

text \<open>Everything is pinned, a candidate, or the old version of the file itself.\<close>

lemma sum_parts: "sum_list (map f (filter p es)) + sum_list (map f (filter (\<lambda>e. \<not> p e \<and> q e) es)) +
    sum_list (map f (filter (\<lambda>e. \<not> p e \<and> \<not> q e) es)) = (sum_list (map f es) :: nat)"
  by (induction es) auto

lemma candidates_sum:
  assumes "bm_wf m" "is_payload name" "bm_get m (pin_marker name) = None"
  shows "sum_list (map en_bytes (filter en_pinned (entries_of m))) + sum_list (map en_bytes (candidates m name)) +
    charged_at m name = payload_total m"
proof -
  have "sum_list (map en_bytes (filter (\<lambda>e. \<not> en_pinned e \<and> \<not> en_name e \<noteq> name) es)) =
      (case find (\<lambda>e. en_name e = name) es of Some e \<Rightarrow> en_bytes e | None \<Rightarrow> 0)"
    if "distinct (map en_name es)" "\<And>e. e \<in> set es \<Longrightarrow> en_name e = name \<Longrightarrow> \<not> en_pinned e" for es
    using that
  proof (induction es)
    case (Cons e es)
    show ?case
    proof (cases "en_name e = name")
      case True
      then have "filter (\<lambda>e. \<not> en_pinned e \<and> \<not> en_name e \<noteq> name) es = []"
        using Cons.prems(1) by (auto simp: filter_empty_conv) (metis imageI)
      then show ?thesis using True Cons.prems(2) [of e] by simp
    qed (use Cons in auto)
  qed simp
  note own = this [OF entries_distinct [OF assms(1)]]
  have "\<not> en_pinned e" if e: "e \<in> set (entries_of m)" "en_name e = name" for e
    using entry_file [OF assms(1) e(1)] e(2) assms(3) by metis
  from own [OF this] find_charged [OF assms(1,2)] show ?thesis
    using sum_parts [of en_bytes en_pinned "entries_of m" "\<lambda>e. en_name e \<noteq> name"]
    by (simp add: candidates_def sum_payload)
qed

lemma ends_put_file:
  assumes "\<And>d'. dir_files d' = bm_insert name \<lparr>f_bytes = content, f_mtime = ts\<rparr>
      (bm_remove (staging pid name) (bm_insert (staging pid name) \<lparr>f_bytes = content, f_mtime = ts\<rparr> (dir_files d))) \<Longrightarrow>
      same_dir d d' \<Longrightarrow> P () d'"
    "\<And>why d'. (\<forall>n. n \<noteq> name \<and> n \<noteq> staging pid name \<longrightarrow> bm_get (dir_files d') n = bm_get (dir_files d) n) \<Longrightarrow>
      same_dir d d' \<Longrightarrow> faulty (bd_disk d) \<Longrightarrow> E (Io (IoOther why)) d'"
  shows "ends (put_file pid name content ts) P E d"
  unfolding put_file_def ends_then fs_write_def
proof (rule ends_dir_do, goal_cases)
  case (1 m d1)
  let ?F = "\<lparr>f_bytes = content, f_mtime = ts\<rparr>" and ?s = "staging pid name"
  have d1: "dir_files d1 = bm_insert ?s ?F (dir_files d)" using 1 by simp
  have failed: "ends (b_ignore (on_disk (fs_remove ?s))) (\<lambda>_. ends (b_fail (Io (IoOther why)) :: unit dirm) P E) E d2"
    if "\<forall>n. n \<noteq> name \<and> n \<noteq> ?s \<longrightarrow> bm_get (dir_files d2) n = bm_get (dir_files d) n" "same_dir d d2" "faulty (bd_disk d)"
      for why d2
    unfolding ends_simps fs_remove_def
  proof (rule ends_dir_do, goal_cases)
    case (1 m d3)
    then have "dir_files d3 = bm_remove ?s (dir_files d2)" by (simp split: if_splits)
    then show ?case using that(1,3) 1(3) by (intro assms(2) same_dir_trans [OF that(2)]) simp_all
  next
    case (2 m why' d3)
    then have "dir_files d3 = bm_remove ?s (dir_files d2)" by (simp split: if_splits)
    then show ?case using that(1,3) 2(3) by (intro assms(2) same_dir_trans [OF that(2)]) simp_all
  next
    case (3 d3)
    then show ?case using that by (intro assms(2) same_dir_trans [OF that(2)]) auto
  next
    case (4 why d3)
    then show ?case using that by (intro assms(2) same_dir_trans [OF that(2)]) auto
  qed
  show ?case
    unfolding ends_catch fs_rename_def
  proof (rule ends_dir_do, goal_cases)
    case (1 m d2)
    then have "dir_files d2 = bm_insert name ?F (bm_remove ?s (bm_insert ?s ?F (dir_files d)))" by (simp add: d1)
    then have "P () d2" using same_dir_trans [OF \<open>same_dir d d1\<close> 1(3)] by (rule assms(1))
    then show ?case by (simp add: ends_simps)
  next
    case (2 m why d2)
    then have "dir_files d2 = bm_insert name ?F (bm_remove ?s (bm_insert ?s ?F (dir_files d)))" by (simp add: d1)
    then have "\<forall>n. n \<noteq> name \<and> n \<noteq> ?s \<longrightarrow> bm_get (dir_files d2) n = bm_get (dir_files d) n" by simp
    then show ?case
      unfolding sum.case ends_then using same_dir_trans [OF \<open>same_dir d d1\<close> 2(3)] faulty_back [OF \<open>same_dir d d1\<close> 2(4)]
      by (rule failed)
  next
    case (3 d2)
    then show ?case using d1 by simp
  next
    case (4 why d2)
    then have "\<forall>n. n \<noteq> name \<and> n \<noteq> ?s \<longrightarrow> bm_get (dir_files d2) n = bm_get (dir_files d) n" by (simp add: d1)
    then show ?case
      unfolding sum.case ends_then using same_dir_trans [OF \<open>same_dir d d1\<close> 4(2)] faulty_back [OF \<open>same_dir d d1\<close> 4(3)]
      by (rule failed)
  qed
next
  case (2 m why d1)
  then show ?case by (intro assms(2)) auto
next
  case (3 d1)
  then show ?case by simp
next
  case (4 why d1)
  then show ?case by (intro assms(2)) auto
qed

text \<open>What a write may leave behind: the first \<open>k\<close> candidates are gone, the rest is as it was, except
  for the file itself and its staging file.\<close>

definition written :: "str \<Rightarrow> str \<Rightarrow> bdir \<Rightarrow> nat \<Rightarrow> bdir \<Rightarrow> bool" where
  "written pid name d k d' \<longleftrightarrow> k \<le> length (candidates (dir_files d) name) \<and>
     (\<forall>n. n \<noteq> name \<and> n \<noteq> staging pid name \<longrightarrow> bm_get (dir_files d') n =
        (if n \<in> en_name ` set (take k (candidates (dir_files d) name)) then None else bm_get (dir_files d) n))"

definition in_use :: "bdir \<Rightarrow> str \<Rightarrow> nat" where
  "in_use d name = payload_total (dir_files d) - charged_at (dir_files d) name"

lemma write_ends:
  assumes wf: "bm_wf (dir_files d)" and fits: "payload_total (dir_files d) + length content \<le> u64_max"
    and P: "\<And>k d'. written pid name d k d' \<Longrightarrow> same_dir d d' \<Longrightarrow>
      bm_get (dir_files d') name = Some \<lparr>f_bytes = content, f_mtime = ts\<rparr> \<Longrightarrow>
      dir_is_pinned name d \<and> k = 0 \<or> payload_total (dir_files d') \<le> bd_quota d \<and>
        evicts (bd_quota d) (length content) (candidates (dir_files d) name) (in_use d name) k \<Longrightarrow> P () d'"
    and Q: "\<And>d' n u q. dir_files d' = dir_files d \<Longrightarrow> \<not> dir_is_pinned name d \<Longrightarrow>
      pinned_total (dir_files d) + length content > bd_quota d \<Longrightarrow> E (QuotaExceeded n u q) d'"
    and E: "\<And>k why d'. written pid name d k d' \<Longrightarrow> faulty (bd_disk d) \<Longrightarrow> E (Io (IoOther why)) d'"
    and name: "dir_valid_name name"
  shows "ends (write_stamped pid name content ts) P E d"
proof -
  let ?m = "dir_files d" and ?cs = "candidates (dir_files d) name" and ?es = "entries_of (dir_files d)" and ?need = "length content"
  let ?F = "\<lparr>f_bytes = content, f_mtime = ts\<rparr>"
  have pay: "is_payload name" by (rule valid_payload [OF name])
  have total: "sum_list (map en_bytes ?es) \<le> u64_max" using fits by (simp add: sum_payload)
  have vic: "victims_of ?m ?cs" by (rule candidates_victims [OF wf])
  have no_change: "written pid name d 0 d'" if "dir_files d' = dir_files d" for d'
    using that by (simp add: written_def)
  have own: "name \<notin> en_name ` set ?cs" by (auto simp: candidates_def)
  have finish: "ends (put_file pid name content ts) (\<lambda>_. ends observe_threshold P E) E d1"
    if d1: "dir_files d1 = drop_files (take k ?cs) ?m" "same_dir d d1" "k \<le> length ?cs"
      and room: "dir_is_pinned name d \<and> k = 0 \<or>
        payload_total ?m - charged_at ?m name - sum_list (map en_bytes (take k ?cs)) + ?need \<le> bd_quota d \<and>
        evicts (bd_quota d) ?need ?cs (in_use d name) k" for d1 k
  proof (rule ends_put_file)
    fix d2
    let ?s = "staging pid name"
    assume d2: "dir_files d2 = bm_insert name ?F (bm_remove ?s (bm_insert ?s ?F (dir_files d1)))" "same_dir d1 d2"
    have w: "written pid name d k d2"
      using d1(3) unfolding written_def d2(1) d1(1) by (simp add: drop_files_get)
    have wf1: "bm_wf (dir_files d1)" unfolding d1(1) by (rule drop_files_wf [OF wf])
    have s: "charged_at m ?s = 0" "charged ?s f = 0" for m f
      using staging_no_payload by (auto simp: charged_at_def charged_def split: option.split)
    have "payload_total (bm_remove ?s (bm_insert ?s ?F (dir_files d1))) = payload_total (dir_files d1)"
      using total_insert [OF wf1, of ?s ?F] total_remove [of "bm_insert ?s ?F (dir_files d1)" ?s] wf1 by (simp add: s)
    moreover have ns: "name \<noteq> ?s" using pay staging_no_payload by metis
    then have "charged_at (bm_remove ?s (bm_insert ?s ?F (dir_files d1))) name = charged_at ?m name"
      using own by (auto simp: charged_at_def d1(1) drop_files_get dest: in_set_takeD)
    ultimately have "payload_total (dir_files d2) + charged_at ?m name = payload_total (dir_files d1) + ?need"
      using total_insert [of "bm_remove ?s (bm_insert ?s ?F (dir_files d1))" name ?F] wf1 pay unfolding d2(1)
      by (simp add: charged_def)
    moreover have "payload_total (dir_files d1) + sum_list (map en_bytes (take k ?cs)) = payload_total ?m"
      unfolding d1(1) by (rule drop_files_total [OF wf victims_take [OF vic]])
    ultimately have small: "payload_total (dir_files d2) \<le> bd_quota d"
      if "payload_total ?m - charged_at ?m name - sum_list (map en_bytes (take k ?cs)) + ?need \<le> bd_quota d"
      using that by linarith
    show "ends observe_threshold P E d2"
    proof (rule ends_observe)
      fix d3
      assume d3: "dir_files d3 = dir_files d2" "same_dir d2 d3"
      show "P () d3"
      proof (rule P)
        show "written pid name d k d3" using w d3(1) by (simp add: written_def)
        show "same_dir d d3" using same_dir_trans [OF d1(2)] same_dir_trans [OF d2(2) d3(2)] by simp
        show "bm_get (dir_files d3) name = Some ?F" by (simp add: d3(1) d2(1))
        show "dir_is_pinned name d \<and> k = 0 \<or> payload_total (dir_files d3) \<le> bd_quota d \<and>
          evicts (bd_quota d) ?need ?cs (in_use d name) k"
          using room small d3(1) by auto
      qed
    next
      show "E (Io (IoOther why)) d3" if "dir_files d3 = dir_files d2" "faulty (bd_disk d2)" for why d3
        using w that faulty_back [OF d1(2) faulty_back [OF d2(2)]] by (intro E [of k]) (simp_all add: written_def)
    qed
  next
    show "E (Io (IoOther why)) d2"
      if "\<forall>n. n \<noteq> name \<and> n \<noteq> staging pid name \<longrightarrow> bm_get (dir_files d2) n = bm_get (dir_files d1) n"
        "faulty (bd_disk d1)" for why d2
      using that d1(3) faulty_back [OF d1(2)] by (intro E [of k]) (simp_all add: written_def d1(1) drop_files_get)
  qed
  have used: "us_bytes (usage_of d1 ?es) - (case find (\<lambda>e. en_name e = name) ?es of Some e \<Rightarrow> en_bytes e | None \<Rightarrow> 0) = in_use d name" for d1
    using usage_sums(1) [OF total, of d1] find_charged [OF wf pay] by (simp add: in_use_def sum_payload)
  have pinned: "us_pinned_bytes (usage_of d1 ?es) = sum_list (map en_bytes (filter en_pinned ?es))" for d1
    by (rule usage_sums(2) [OF total])
  show ?thesis
    unfolding write_stamped_def if_not_P [OF iffD2 [OF not_not name]] ends_simps case_prod_conv
  proof (rule ends_entries, goal_cases)
    case d1: (1 d1)
    have none: "ends (put_file pid name content ts) (\<lambda>_. ends observe_threshold P E) E d1"
      if "dir_is_pinned name d \<or> sat_add64 (in_use d name) ?need \<le> bd_quota d"
      by (rule finish [of d1 0]) (use that d1 fits in \<open>auto simp: evicts_def in_use_def sat_add64_def\<close>)
    have evicting: "ends (make_room name ?need (bd_quota d) ?es (usage_of d1 ?es) (in_use d name))
        (\<lambda>_. ends (put_file pid name content ts) (\<lambda>_. ends observe_threshold P E) E) E d1"
      if np: "\<not> dir_is_pinned name d" and full: "\<not> sat_add64 (in_use d name) ?need \<le> bd_quota d"
    proof -
      have unpinned: "bm_get ?m (pin_marker name) = None"
        using np name by (simp add: dir_is_pinned_def fs_is_file_def)
      note parts = candidates_sum [OF wf pay unpinned]
      have le: "in_use d name + ?need \<le> u64_max" using fits by (simp add: in_use_def)
      show ?thesis
      proof (cases "sat_add64 (us_pinned_bytes (usage_of d1 ?es)) ?need > bd_quota d")
        case True
        have "pinned_total ?m + ?need \<le> u64_max" using parts fits unfolding pinned_total_def by linarith
        then have "pinned_total ?m + ?need > bd_quota d" using True unfolding pinned pinned_total_def by (simp add: sat_add64_def)
        then show ?thesis unfolding make_room_def using True d1 np by (simp add: ends_simps Q)
      next
        case False
        have floor: "in_use d name - sum_list (map en_bytes ?cs) + ?need \<le> bd_quota d"
        proof -
          have "sum_list (map en_bytes (filter en_pinned ?es)) + ?need \<le> u64_max" using parts fits by linarith
          then have "sum_list (map en_bytes (filter en_pinned ?es)) + ?need \<le> bd_quota d"
            using False unfolding pinned by (simp add: sat_add64_def)
          then show ?thesis using parts unfolding in_use_def by linarith
        qed
        show ?thesis
          unfolding make_room_def if_not_P [OF False] ends_then candidates_def [symmetric]
        proof (rule evict_ends)
          show "victims_of (dir_files d1) ?cs" using vic d1(1) by simp
        next
          fix k d2
          assume k: "evicts (bd_quota d) ?need ?cs (in_use d name) k"
            "k = length ?cs \<or> sat_add64 (in_use d name - sum_list (map en_bytes (take k ?cs))) ?need \<le> bd_quota d"
            "dir_files d2 = drop_files (take k ?cs) (dir_files d1)" "same_dir d1 d2"
          have enough: "in_use d name - sum_list (map en_bytes (take k ?cs)) + ?need \<le> bd_quota d"
            using k(2) floor le by (auto simp: sat_add64_def)
          then have "sat_add64 (in_use d name - sum_list (map en_bytes (take k ?cs))) ?need \<le> bd_quota d"
            by (simp add: sat_add64_def)
          moreover have "ends (put_file pid name content ts) (\<lambda>_. ends observe_threshold P E) E d2"
            by (rule finish [of d2 k])
               (use k d1 enough same_dir_trans [OF d1(2) k(4)] in \<open>auto simp: evicts_def in_use_def\<close>)
          ultimately show "ends (if sat_add64 (in_use d name - sum_list (map en_bytes (take k ?cs))) ?need > bd_quota d
              then b_fail (QuotaExceeded ?need (in_use d name - sum_list (map en_bytes (take k ?cs))) (bd_quota d)) else b_return ())
            (\<lambda>_. ends (put_file pid name content ts) (\<lambda>_. ends observe_threshold P E) E) E d2"
            by (simp add: ends_simps)
        next
          fix k why d2
          assume "k \<le> length ?cs" "dir_files d2 = drop_files (take k ?cs) (dir_files d1)" "faulty (bd_disk d1)"
          then show "E (Io (IoOther why)) d2"
            using faulty_back [OF d1(2)] by (intro E [of k]) (simp_all add: written_def drop_files_get d1(1))
        qed
      qed
    qed
    show ?case
      unfolding Let_def ends_then used
      using none evicting by (simp add: ends_simps not_le)
  next
    case (2 why d1)
    show ?case by (rule E [OF no_change [OF 2(1)] 2(3)])
  qed
qed

section \<open>Expiry\<close>

definition old_files :: "nat \<Rightarrow> int \<Rightarrow> dir_entry list \<Rightarrow> dir_entry list" where
  "old_files max_age now es = filter (\<lambda>e. \<not> en_pinned e \<and> age now (en_ts e) \<ge> max_age) es"

lemma expire_loop_ends:
  assumes "distinct (map en_name es)" "\<And>e. e \<in> set es \<Longrightarrow> bm_get (dir_files d) (en_name e) \<noteq> None"
    "\<And>d'. dir_files d' = drop_files (old_files max_age now es) (dir_files d) \<Longrightarrow> same_dir d d' \<Longrightarrow>
       P (gone @ map en_name (old_files max_age now es)) d'"
    "\<And>k why d'. dir_files d' = drop_files (take k (old_files max_age now es)) (dir_files d) \<Longrightarrow>
       faulty (bd_disk d) \<Longrightarrow> E (Io (IoOther why)) d'"
  shows "ends (expire_loop max_age now es gone) P E d"
  using assms
proof (induction max_age now es gone arbitrary: d P E rule: expire_loop.induct)
  case (1 max_age now gone)
  then show ?case by (simp add: ends_simps old_files_def)
next
  case step: (2 max_age now e es gone)
  let ?n = "en_name e"
  have there: "bm_get (dir_files d) ?n \<noteq> None" using step(5) by simp
  show ?case
  proof (cases "\<not> en_pinned e \<and> age now (en_ts e) \<ge> max_age")
    case False
    then have same: "old_files max_age now (e # es) = old_files max_age now es" by (auto simp: old_files_def)
    have "ends (expire_loop max_age now es gone) P E d"
      using False step(4-7) unfolding same by (cases "en_pinned e"; intro step(1,3)) auto
    then show ?thesis using False by auto
  next
    case True
    then have old: "old_files max_age now (e # es) = e # old_files max_age now es" by (simp add: old_files_def)
    show ?thesis
      unfolding expire_loop.simps if_not_P [OF conjunct1 [OF True]] if_P [OF conjunct2 [OF True]] ends_then fs_remove_def
    proof (rule ends_dir_do, goal_cases)
      case (1 m d1)
      then have d1: "dir_files d1 = bm_remove ?n (dir_files d)" using there by simp
      show ?case
      proof (rule step(2), goal_cases)
        case (4 e')
        then show ?case using step(4,5) by (auto simp: d1) (metis imageI)
      next
        case (5 d2)
        then show ?case using step(6) [where d' = d2] same_dir_trans [OF \<open>same_dir d d1\<close> 5(2)] by (simp add: old d1)
      next
        case (6 d2 k why)
        then show ?case using step(7) [where d' = d2 and k = "Suc k" and why = why] faulty_back [OF \<open>same_dir d d1\<close>] by (simp add: old d1)
      qed (use True step(4) in auto)
    next
      case (2 m why d1)
      then show ?case using there step(7) [where d' = d1 and k = 1 and why = why] by (simp add: old)
    next
      case (3 d1)
      then show ?case using there by simp
    next
      case (4 why d1)
      then show ?case using step(7) [where d' = d1 and k = 0 and why = why] by simp
    qed
  qed
qed

lemma expire_ends:
  assumes wf: "bm_wf (dir_files d)"
    and P: "\<And>d'. dir_files d' = drop_files (old_files max_age now (entries_of (dir_files d))) (dir_files d) \<Longrightarrow>
       same_dir d d' \<Longrightarrow> P (map en_name (old_files max_age now (entries_of (dir_files d)))) d'"
    and E: "\<And>k why d'. dir_files d' = drop_files (take k (old_files max_age now (entries_of (dir_files d)))) (dir_files d) \<Longrightarrow>
       faulty (bd_disk d) \<Longrightarrow> E (Io (IoOther why)) d'"
  shows "ends (dir_expire max_age now) P E d"
proof -
  let ?old = "old_files max_age now (entries_of (dir_files d))"
  show ?thesis
    unfolding dir_expire_def ends_simps
  proof (rule ends_entries, goal_cases)
    case (1 d1)
    show ?case
    proof (rule expire_loop_ends [OF entries_distinct [OF wf]], goal_cases)
      case (1 e)
      then show ?case using entry_file [OF wf 1] \<open>dir_files d1 = dir_files d\<close> by (metis option.distinct(1))
    next
      case (2 d2)
      then have d2: "dir_files d2 = drop_files ?old (dir_files d)" "same_dir d d2"
        using \<open>dir_files d1 = dir_files d\<close> same_dir_trans [OF \<open>same_dir d d1\<close>] by simp_all
      have "ends observe_threshold (\<lambda>_. P (map en_name ?old)) E d2"
      proof (rule ends_observe, goal_cases)
        case (1 d3)
        then show ?case using d2 same_dir_trans [OF d2(2)] by (intro P) simp_all
      next
        case (2 why d3)
        then show ?case using d2 faulty_back [OF d2(2)] by (intro E [of _ "length ?old"]) simp_all
      qed
      then show ?case using P [OF d2] by (cases "?old = []") (simp_all add: ends_simps)
    next
      case (3 k why d2)
      then show ?case using \<open>dir_files d1 = dir_files d\<close> faulty_back [OF \<open>same_dir d d1\<close>] by (intro E [of _ k]) simp_all
    qed
  next
    case (2 why d1)
    then show ?case by (intro E [of _ 0]) simp_all
  qed
qed

end
