(* ===== verification/BoundedBlobLaws.thy ===== *)
theory BoundedBlobLaws
  imports BoundedRing
begin

text \<open>
  Laws of the blob store, whatever fails: no call but collection removes a blob, a stored blob is
  the content of its key, and collection removes only blobs nothing holds.
\<close>

section \<open>Paths\<close>

lemma hex_char_inj: "a < 16 \<Longrightarrow> b < 16 \<Longrightarrow> hex_char a = hex_char b \<longleftrightarrow> a = b"
proof -
  have "distinct (lit ''0123456789abcdef'')" "length (lit ''0123456789abcdef'') = 16" by (simp_all add: lit_def)
  then show "a < 16 \<Longrightarrow> b < 16 \<Longrightarrow> hex_char a = hex_char b \<longleftrightarrow> a = b"
    unfolding hex_char_def by (simp only: nth_eq_iff_index_eq)
qed

lemma hex_Cons [simp]: "hex (b # bs) = hex_char (unat b div 16) # hex_char (unat b mod 16) # hex bs"
  by (simp add: hex_def)

lemma hex_Nil [simp]: "hex [] = []"
  by (simp add: hex_def)

lemma length_hex [simp]: "length (hex bs) = 2 * length bs"
  by (induction bs) simp_all

lemma hex_inj: "hex a = hex b \<longleftrightarrow> a = b"
proof (induction a arbitrary: b)
  case Nil
  then show ?case by (cases b) simp_all
next
  case (Cons x a)
  show ?case
  proof (cases b)
    case (Cons y b')
    have "unat x div 16 < 16" "unat y div 16 < 16" using unat_byte_lt [of x] unat_byte_lt [of y] by linarith+
    then have "hex_char (unat x div 16) = hex_char (unat y div 16) \<and> hex_char (unat x mod 16) = hex_char (unat y mod 16)
        \<longleftrightarrow> unat x div 16 = unat y div 16 \<and> unat x mod 16 = unat y mod 16"
      by (simp add: hex_char_inj)
    also have "\<dots> \<longleftrightarrow> unat x = unat y" by (metis div_mult_mod_eq)
    also have "\<dots> \<longleftrightarrow> x = y" by (simp add: word_unat_eq_iff)
    finally show ?thesis using Cons.IH [of b'] Cons by auto
  qed simp
qed

abbreviation is_key :: "bytes \<Rightarrow> bool" where
  "is_key key \<equiv> length key = 32"

lemma length_blob_path: "is_key key \<Longrightarrow> length (blob_path key) = 67"
  by (simp add: blob_path_def lit_def)

lemma blob_path_inj: "is_key a \<Longrightarrow> is_key b \<Longrightarrow> blob_path a = blob_path b \<longleftrightarrow> a = b"
proof
  assume k: "is_key a" "is_key b" and "blob_path a = blob_path b"
  then have "drop 3 (blob_path a) = drop 3 (blob_path b)" by simp
  then have "hex a = hex b" using k by (simp add: blob_path_def lit_def)
  then show "a = b" by (simp only: hex_inj)
qed simp

lemma blob_path_apart:
  assumes "is_key key"
  shows "blob_path key \<noteq> REFS_FILE" "blob_path key \<noteq> REFS_FILE @ BLOB_TMP"
    "is_key k \<Longrightarrow> blob_path key \<noteq> blob_path k @ BLOB_TMP" "is_key k \<Longrightarrow> blob_path key \<noteq> blob_pin_path k"
proof -
  have "length (blob_path key) = 67" using assms by (rule length_blob_path)
  moreover have "length REFS_FILE = 8" "length (REFS_FILE @ BLOB_TMP) = 12" by (simp_all add: REFS_FILE_def BLOB_TMP_def lit_def)
  moreover have "length (blob_path k @ BLOB_TMP) = 71" "length (blob_pin_path k) = 71" if "is_key k"
    using length_blob_path [OF that] by (simp_all add: BLOB_TMP_def BLOB_PIN_def blob_pin_path_def lit_def)
  ultimately show "blob_path key \<noteq> REFS_FILE" "blob_path key \<noteq> REFS_FILE @ BLOB_TMP"
    "is_key k \<Longrightarrow> blob_path key \<noteq> blob_path k @ BLOB_TMP" "is_key k \<Longrightarrow> blob_path key \<noteq> blob_pin_path k"
    by auto
qed

section \<open>Calls of the store\<close>

abbreviation blob_files :: "bstore \<Rightarrow> (str, disk_file) btree" where
  "blob_files s \<equiv> dk_files (bs_disk s)"

lemma ends_store_do:
  assumes "\<And>m s'. f (blob_files s) = Some m \<Longrightarrow> blob_files s' = m \<Longrightarrow> bs_refs s' = bs_refs s \<Longrightarrow> P () s'"
    "\<And>m e s'. f (blob_files s) = Some m \<Longrightarrow> blob_files s' = m \<Longrightarrow> bs_refs s' = bs_refs s \<Longrightarrow> E e s'"
    "\<And>e s'. blob_files s' = blob_files s \<Longrightarrow> bs_refs s' = bs_refs s \<Longrightarrow> E e s'"
  shows "ends (in_store (disk_do f)) P E s"
  unfolding in_store_def ends_simps
  by (rule ends_do; rule assms; (assumption | simp))

lemma ends_store_get:
  assumes "\<And>a s'. f (blob_files s) = Inr a \<Longrightarrow> blob_files s' = blob_files s \<Longrightarrow> bs_refs s' = bs_refs s \<Longrightarrow> P a s'"
    "\<And>e s'. blob_files s' = blob_files s \<Longrightarrow> bs_refs s' = bs_refs s \<Longrightarrow> E e s'"
  shows "ends (in_store (disk_get f)) P E s"
  unfolding in_store_def ends_simps
  by (rule ends_get; rule assms; (assumption | simp))

text \<open>What replacing a file may leave.\<close>

definition touched :: "str \<Rightarrow> str \<Rightarrow> disk_file \<Rightarrow> (str, disk_file) btree \<Rightarrow> (str, disk_file) btree \<Rightarrow> bool" where
  "touched tmp path f m m' \<longleftrightarrow> (\<forall>n. n \<noteq> tmp \<and> n \<noteq> path \<longrightarrow> bm_get m' n = bm_get m n) \<and>
     (bm_get m' path = bm_get m path \<or> bm_get m' path = Some f) \<and> (bm_wf m \<longrightarrow> bm_wf m')"

lemma in_store_then: "in_store (b_then m f) = b_then (in_store m) (\<lambda>a. in_store (f a))"
  by (auto simp: in_store_def b_defs fun_eq_iff split: prod.split sum.split)

lemma in_store_simps:
  "in_store (b_return a) = b_return a" "in_store (b_fail e) = b_fail e"
  by (simp_all add: in_store_def b_defs fun_eq_iff)

lemma in_store_catch: "in_store (b_catch m) = b_catch (in_store m)"
  by (auto simp: in_store_def b_defs fun_eq_iff split: prod.split sum.split)

lemma in_store_ignore: "in_store (b_ignore m) = b_ignore (in_store m)"
  by (auto simp: in_store_def b_defs fun_eq_iff split: prod.split sum.split)

lemma ends_replace:
  assumes neq: "tmp \<noteq> path"
    and P: "\<And>s'. touched tmp path \<lparr>f_bytes = content, f_mtime = clock\<rparr> (blob_files s) (blob_files s') \<Longrightarrow>
      bm_get (blob_files s') path = Some \<lparr>f_bytes = content, f_mtime = clock\<rparr> \<Longrightarrow> bs_refs s' = bs_refs s \<Longrightarrow> P () s'"
    and E: "\<And>e s'. touched tmp path \<lparr>f_bytes = content, f_mtime = clock\<rparr> (blob_files s) (blob_files s') \<Longrightarrow>
      bs_refs s' = bs_refs s \<Longrightarrow> E e s'"
  shows "ends (in_store (replace_file tmp path content clock)) P E s"
  unfolding replace_file_def in_store_then in_store_catch ends_then fs_write_def
proof (rule ends_store_do, goal_cases)
  case (1 m s1)
  let ?F = "\<lparr>f_bytes = content, f_mtime = clock\<rparr>"
  have s1: "blob_files s1 = bm_insert tmp ?F (blob_files s)" "bs_refs s1 = bs_refs s" using 1 by simp_all
  have failed: "ends (in_store (b_then (b_ignore (fs_remove tmp)) (\<lambda>_. b_fail e))) P E s2"
    if "touched tmp path ?F (blob_files s) (blob_files s2)" "bs_refs s2 = bs_refs s" for e s2
    unfolding in_store_then in_store_ignore in_store_simps ends_simps fs_remove_def
  proof (rule ends_store_do, goal_cases)
    case (1 m s3)
    then have m: "blob_files s3 = bm_remove tmp (blob_files s2)" by (simp split: if_splits)
    show ?case using that 1(3) neq by (intro E) (auto simp: touched_def m)
  next
    case (2 m e s3)
    then have m: "blob_files s3 = bm_remove tmp (blob_files s2)" by (simp split: if_splits)
    show ?case using that 2(3) neq by (intro E) (auto simp: touched_def m)
  next
    case (3 e s3)
    then show ?case using that by (intro E) simp_all
  qed
  show ?case
    unfolding ends_catch fs_rename_def
  proof (rule ends_store_do, goal_cases)
    case (1 m s2)
    then have m: "blob_files s2 = bm_insert path ?F (bm_remove tmp (bm_insert tmp ?F (blob_files s)))" by (simp add: s1)
    have "P () s2" by (rule P) (use 1(3) s1 neq in \<open>simp_all add: m touched_def\<close>)
    then show ?case by (simp add: in_store_simps ends_simps)
  next
    case (2 m e s2)
    then have m: "blob_files s2 = bm_insert path ?F (bm_remove tmp (bm_insert tmp ?F (blob_files s)))" by (simp add: s1)
    show ?case unfolding sum.case by (rule failed) (use 2(3) s1 neq in \<open>simp_all add: m touched_def\<close>)
  next
    case (3 e s2)
    then show ?case unfolding sum.case by (intro failed) (use s1 in \<open>simp_all add: touched_def\<close>)
  qed
next
  case (2 m e s1)
  then show ?case by (intro E) (auto simp: touched_def)
next
  case (3 e s1)
  then show ?case by (intro E) (auto simp: touched_def)
qed

section \<open>What a store keeps\<close>

definition store_inv :: "(bytes \<Rightarrow> bytes) \<Rightarrow> bstore \<Rightarrow> bool" where
  "store_inv sha s \<longleftrightarrow> bm_wf (blob_files s) \<and>
     (\<forall>key f. is_key key \<longrightarrow> bm_get (blob_files s) (blob_path key) = Some f \<longrightarrow> sha (f_bytes f) = key)"

definition blobs_kept :: "bstore \<Rightarrow> bstore \<Rightarrow> bool" where
  "blobs_kept s s' \<longleftrightarrow> (\<forall>key. is_key key \<longrightarrow> blob_has key s \<longrightarrow>
     bm_get (blob_files s') (blob_path key) = bm_get (blob_files s) (blob_path key))"

lemma blobs_kept_refl [simp]: "blobs_kept s s"
  by (simp add: blobs_kept_def)

lemma blobs_kept_trans: "blobs_kept a b \<Longrightarrow> blobs_kept b c \<Longrightarrow> blobs_kept a c"
  unfolding blobs_kept_def blob_has_def fs_is_file_def by auto

lemma blobs_kept_has: "blobs_kept s s' \<Longrightarrow> is_key key \<Longrightarrow> blob_has key s \<Longrightarrow> blob_has key s'"
  by (auto simp: blobs_kept_def blob_has_def fs_is_file_def)

text \<open>A change outside the blobs.\<close>

lemma kept_outside:
  assumes "store_inv sha s" "touched tmp path f (blob_files s) (blob_files s')"
    "\<And>key. is_key key \<Longrightarrow> blob_path key \<noteq> tmp \<and> blob_path key \<noteq> path"
  shows "store_inv sha s'" "blobs_kept s s'"
proof -
  have "bm_get (blob_files s') (blob_path key) = bm_get (blob_files s) (blob_path key)" if "is_key key" for key
    using assms(2,3) that by (simp add: touched_def)
  then show "store_inv sha s'" "blobs_kept s s'"
    using assms(1,2) by (auto simp: store_inv_def blobs_kept_def touched_def)
qed

lemma flush_ends:
  assumes "store_inv sha s"
    and "\<And>s'. store_inv sha s' \<Longrightarrow> blobs_kept s s' \<Longrightarrow> bs_refs s' = bs_refs s \<Longrightarrow> P () s'"
    and "\<And>e s'. store_inv sha s' \<Longrightarrow> blobs_kept s s' \<Longrightarrow> bs_refs s' = bs_refs s \<Longrightarrow> E e s'"
  shows "ends (flush_refs clock) P E s"
  unfolding flush_refs_def ends_simps
proof (rule ends_replace)
  show "REFS_FILE @ BLOB_TMP \<noteq> REFS_FILE" by (simp add: BLOB_TMP_def lit_def)
qed (use kept_outside [OF assms(1)] blob_path_apart(1,2) assms(2,3) in blast)+

lemma put_ends:
  assumes "store_inv sha s" "\<And>x. is_key (sha x)"
    and "\<And>s'. store_inv sha s' \<Longrightarrow> blobs_kept s s' \<Longrightarrow> bs_refs s' = bs_refs s \<Longrightarrow> blob_has (sha content) s' \<Longrightarrow>
      P \<lparr>br_key = sha content, br_len = length content\<rparr> s'"
    and "\<And>e s'. store_inv sha s' \<Longrightarrow> blobs_kept s s' \<Longrightarrow> bs_refs s' = bs_refs s \<Longrightarrow> E e s'"
  shows "ends (blob_put sha clock content) P E s"
proof (cases "blob_has (sha content) s")
  case True
  then have "fs_is_file (blob_path (sha content)) (bs_disk s)" by (simp add: blob_has_def)
  then show ?thesis unfolding blob_put_def Let_def ends_simps using assms(1,3) True by (simp add: ends_simps)
next
  case False
  let ?p = "blob_path (sha content)" and ?F = "\<lparr>f_bytes = content, f_mtime = clock\<rparr>"
  note key = assms(2) [of content]
  have tmp: "?p @ BLOB_TMP \<noteq> ?p" by (simp add: BLOB_TMP_def lit_def)
  have none: "bm_get (blob_files s) ?p = None" using False by (simp add: blob_has_def fs_is_file_def)
  have ok: "store_inv sha s' \<and> blobs_kept s s'" if t: "touched (?p @ BLOB_TMP) ?p ?F (blob_files s) (blob_files s')" for s'
  proof -
    have same: "bm_get (blob_files s') (blob_path k) = bm_get (blob_files s) (blob_path k)" if "is_key k" "k \<noteq> sha content" for k
      using t blob_path_apart(3) [OF that(1) key] blob_path_inj [OF that(1) key] that(2) by (simp add: touched_def)
    have "sha (f_bytes f) = k" if "is_key k" "bm_get (blob_files s') (blob_path k) = Some f" for k f
    proof (cases "k = sha content")
      case True
      then show ?thesis using t that(2) none by (auto simp: touched_def)
    next
      case False
      then show ?thesis using same [OF that(1) False] that assms(1) by (simp add: store_inv_def)
    qed
    moreover have "blobs_kept s s'"
      unfolding blobs_kept_def
    proof (intro allI impI)
      fix k assume "is_key k" "blob_has k s"
      then show "bm_get (blob_files s') (blob_path k) = bm_get (blob_files s) (blob_path k)"
        using same [of k] False by auto
    qed
    ultimately show ?thesis using t assms(1) by (simp add: store_inv_def touched_def)
  qed
  have "\<not> fs_is_file ?p (bs_disk s)" using False by (simp add: blob_has_def)
  then show ?thesis
    unfolding blob_put_def Let_def ends_simps if_not_P [OF \<open>\<not> fs_is_file ?p (bs_disk s)\<close>] make_dir_def
  proof (intro ends_store_do, goal_cases)
    case (1 m s1)
    then have s1: "blob_files s1 = blob_files s" "bs_refs s1 = bs_refs s" by simp_all
    show ?case
    proof (rule ends_replace [OF tmp], goal_cases)
      case (1 s2)
      have "store_inv sha s2 \<and> blobs_kept s s2" using ok [of s2] 1(1) s1 by simp
      then show ?case using 1 s1 by (simp add: blob_has_def fs_is_file_def assms(3) ends_simps)
    next
      case (2 e s2)
      have "store_inv sha s2 \<and> blobs_kept s s2" using ok [of s2] 2(1) s1 by simp
      then show ?case using 2 s1 by (simp add: assms(4))
    qed
  next
    case (2 m e s1)
    then show ?case using assms(1) by (intro assms(4)) (simp_all add: store_inv_def blobs_kept_def)
  next
    case (3 e s1)
    then show ?case using assms(1) by (intro assms(4)) (simp_all add: store_inv_def blobs_kept_def)
  qed
qed

lemma refs_inv [simp]: "store_inv sha (s\<lparr>bs_refs := r\<rparr>) = store_inv sha s"
    "blobs_kept (s\<lparr>bs_refs := r\<rparr>) s' = blobs_kept s s'" "blobs_kept s (s'\<lparr>bs_refs := r\<rparr>) = blobs_kept s s'"
    "blob_has k (s\<lparr>bs_refs := r\<rparr>) = blob_has k s"
  by (simp_all add: store_inv_def blobs_kept_def blob_has_def)

lemma refcount_set: "refcount k (s\<lparr>bs_refs := bm_insert key n (bs_refs s)\<rparr>) = (if k = key then n else refcount k s)"
    "refcount k (s\<lparr>bs_refs := bm_remove key (bs_refs s)\<rparr>) = (if k = key then 0 else refcount k s)"
  by (simp_all add: refcount_def)

lemma refcount_cong: "bs_refs s' = bs_refs s \<Longrightarrow> refcount k s' = refcount k s"
  by (simp add: refcount_def)

text \<open>A reference taken is counted, even if the index could not be written; one given back too.\<close>

lemma add_ref_ends:
  assumes "store_inv sha s"
    and "\<And>s'. store_inv sha s' \<Longrightarrow> blobs_kept s s' \<Longrightarrow> blob_has key s' \<Longrightarrow>
      (\<And>k. refcount k s' = (if k = key then sat_add32 (refcount key s) 1 else refcount k s)) \<Longrightarrow> is_key key \<Longrightarrow>
      P (sat_add32 (refcount key s) 1) s'"
    and "\<And>e s'. store_inv sha s' \<Longrightarrow> blobs_kept s s' \<Longrightarrow> (\<And>k. min u32_max (refcount k s) \<le> refcount k s') \<Longrightarrow> E e s'"
    and "is_key key"
  shows "ends (blob_add_ref clock key) P E s"
proof (cases "blob_has key s")
  case True
  let ?n = "sat_add32 (refcount key s) 1"
  let ?s = "s\<lparr>bs_refs := bm_insert key ?n (bs_refs s)\<rparr>"
  have inv: "store_inv sha ?s" using assms(1) by simp
  show ?thesis
    unfolding blob_add_ref_def ends_simps if_not_P [OF iffD2 [OF not_not True]]
  proof (rule flush_ends [OF inv], goal_cases)
    case (1 s')
    have "P ?n s'"
    proof (rule assms(2))
      show "blobs_kept s s'" using 1(2) by simp
      show "blob_has key s'" using blobs_kept_has [OF \<open>blobs_kept s s'\<close> assms(4) True] .
      show "refcount k s' = (if k = key then ?n else refcount k s)" for k
        using refcount_cong [OF 1(3), of k] by (simp add: refcount_set)
    qed (use 1 assms(4) in auto)
    then show ?case by (simp add: ends_simps)
  next
    case (2 e s')
    show ?case
    proof (rule assms(3))
      show "blobs_kept s s'" using 2(2) by simp
      show "min u32_max (refcount k s) \<le> refcount k s'" for k
        using refcount_cong [OF 2(3), of k] by (cases "k = key") (auto simp: refcount_set sat_add32_def min_def)
    qed (use 2 in auto)
  qed
next
  case False
  then show ?thesis
    unfolding blob_add_ref_def ends_simps using assms(1,3) by (simp add: ends_simps)
qed

lemma release_ends:
  assumes "store_inv sha s"
    and "\<And>r s'. store_inv sha s' \<Longrightarrow> blobs_kept s s' \<Longrightarrow>
      (\<And>k. refcount k s' = (if k = key then refcount key s - 1 else refcount k s)) \<Longrightarrow> P r s'"
    and "\<And>e s'. store_inv sha s' \<Longrightarrow> blobs_kept s s' \<Longrightarrow>
      (\<And>k. refcount k s' = (if k = key then refcount key s - 1 else refcount k s)) \<Longrightarrow> E e s'"
  shows "ends (blob_release clock key) P E s"
proof -
  let ?n = "refcount key s - 1"
  let ?s = "s\<lparr>bs_refs := (if ?n = 0 then bm_remove key (bs_refs s) else bm_insert key ?n (bs_refs s))\<rparr>"
  have inv: "store_inv sha ?s" using assms(1) by simp
  have count: "refcount k ?s = (if k = key then ?n else refcount k s)" for k by (simp add: refcount_set)
  show ?thesis
    unfolding blob_release_def ends_simps
  proof (rule flush_ends [OF inv], goal_cases)
    case (1 s')
    have "refcount k s' = (if k = key then ?n else refcount k s)" for k
      using refcount_cong [OF 1(3), of k] count by simp
    then have "P ?n s'" using 1 by (intro assms(2)) auto
    then show ?case by (simp add: ends_simps)
  next
    case (2 e s')
    have "refcount k s' = (if k = key then ?n else refcount k s)" for k
      using refcount_cong [OF 2(3), of k] count by simp
    then show ?case using 2 by (intro assms(3)) auto
  qed
qed

section \<open>Collection\<close>

lemma hex_pairs_length: "hex_pairs bs = Some k \<Longrightarrow> length bs = 2 * length k"
  by (induction bs arbitrary: k rule: hex_pairs.induct) (auto split: option.splits)

lemma key_from_hex_key: "key_from_hex text = Some k \<Longrightarrow> is_key k"
  by (auto simp: key_from_hex_def dest: hex_pairs_length split: if_splits)

lemma keys_of_keys: "k \<in> set (keys_of m) \<Longrightarrow> is_key k"
  by (auto simp: keys_of_def map_filter_def split: list.splits if_splits intro: key_from_hex_key)

text \<open>A blob may go when nothing counts on it, nothing pins it and it is old.\<close>

definition garbage :: "int \<Rightarrow> nat \<Rightarrow> bstore \<Rightarrow> bytes \<Rightarrow> bool" where
  "garbage now ttl s key \<longleftrightarrow> refcount key s = 0 \<and> \<not> blob_is_pinned key s \<and>
     (case bm_get (blob_files s) (blob_path key) of Some f \<Rightarrow> age now (f_mtime f) \<ge> ttl | None \<Rightarrow> False)"

definition collected :: "int \<Rightarrow> nat \<Rightarrow> bstore \<Rightarrow> bstore \<Rightarrow> bool" where
  "collected now ttl s s' \<longleftrightarrow> bm_wf (blob_files s') \<and> (\<forall>key. is_key key \<longrightarrow>
     blob_is_pinned key s' = blob_is_pinned key s \<and>
     (bm_get (blob_files s') (blob_path key) = bm_get (blob_files s) (blob_path key) \<or>
      bm_get (blob_files s') (blob_path key) = None \<and> garbage now ttl s key))"

lemma collected_refl: "bm_wf (blob_files s) \<Longrightarrow> blob_files s' = blob_files s \<Longrightarrow> collected now ttl s s'"
  by (simp add: collected_def blob_is_pinned_def fs_is_file_def)

lemma collected_trans:
  assumes "collected now ttl a b" "bs_refs b = bs_refs a" "collected now ttl b c"
  shows "collected now ttl a c"
  using assms unfolding collected_def garbage_def refcount_def by (metis option.simps(4))

lemma gc_loop_ends:
  assumes "bm_wf (blob_files s)" "\<forall>k \<in> set ks. is_key k"
    "\<And>rep s'. collected now ttl s s' \<Longrightarrow> bs_refs s' = bs_refs s \<Longrightarrow> P rep s'"
    "\<And>e s'. collected now ttl s s' \<Longrightarrow> bs_refs s' = bs_refs s \<Longrightarrow> E e s'"
  shows "ends (gc_loop now ttl ks rep) P E s"
  using assms
proof (induction ks arbitrary: s rep P E)
  case Nil
  then show ?case by (simp add: ends_simps collected_refl)
next
  case (Cons key ks)
  have key: "is_key key" using Cons.prems(2) by simp
  have rest: "ends (gc_loop now ttl ks rep) P E s'"
    if "collected now ttl s s'" "bs_refs s' = bs_refs s" for s' rep
  proof (rule Cons.IH, goal_cases)
    case 1
    then show ?case using that(1) by (simp add: collected_def)
  next
    case 2
    then show ?case using Cons.prems(2) by simp
  next
    case (3 rep s'')
    then show ?case using that collected_trans [OF that 3(1)] by (intro Cons.prems(3)) simp_all
  next
    case (4 e s'')
    then show ?case using that collected_trans [OF that 4(1)] by (intro Cons.prems(4)) simp_all
  qed
  have same: "ends (gc_loop now ttl ks rep) P E s'" if "blob_files s' = blob_files s" "bs_refs s' = bs_refs s" for s' rep
    using rest collected_refl [OF Cons.prems(1) that(1)] that(2) by blast
  show ?case
  proof (cases "blob_is_pinned key s \<or> refcount key s > 0")
    case True
    then show ?thesis by (simp add: ends_simps Let_def same)
  next
    case False
    show ?thesis
      unfolding gc_loop.simps Let_def ends_simps if_not_P [OF False] fs_metadata_def
    proof (rule ends_store_get, goal_cases)
      case (2 e s1)
      then show ?case by (simp add: ends_simps same)
    next
      case (1 f s1)
      then have f: "bm_get (blob_files s) (blob_path key) = Some f" by (simp split: option.splits)
      have gone: "collected now ttl s s2"
        if "age now (f_mtime f) \<ge> ttl" "blob_files s2 = bm_remove (blob_path key) (blob_files s)" for s2
      proof -
        have "garbage now ttl s key" using False f that(1) by (simp add: garbage_def)
        moreover have "blob_is_pinned k s2 = blob_is_pinned k s" if "is_key k" for k
          using blob_path_apart(4) [OF key that] \<open>blob_files s2 = _\<close> by (auto simp: blob_is_pinned_def fs_is_file_def)
        moreover have "bm_get (blob_files s2) (blob_path k) = (if k = key then None else bm_get (blob_files s) (blob_path k))"
          if "is_key k" for k using blob_path_inj [OF that key] \<open>blob_files s2 = _\<close> by auto
        ultimately show ?thesis using Cons.prems(1) that(2) by (auto simp: collected_def)
      qed
      show ?case
      proof (cases "age now (f_mtime f) \<ge> ttl")
        case False
        then show ?thesis using 1 by (simp add: ends_simps same)
      next
        case old: True
        show ?thesis
          unfolding sum.case if_P [OF old] ends_simps fs_remove_def
        proof (rule ends_store_do, goal_cases)
          case m: (1 m s2)
          then have "blob_files s2 = bm_remove (blob_path key) (blob_files s)" using 1(2) by (simp split: if_splits)
          then show ?case using m(3) 1(3) gone [OF old] by (auto intro!: rest)
        next
          case m: (2 m e s2)
          then have s2: "blob_files s2 = bm_remove (blob_path key) (blob_files s)" using 1(2) by (simp split: if_splits)
          then show ?case using m(3) 1(3) gone [OF old s2]
            by (auto split: bounded_error.split io_error.split simp: ends_simps intro!: rest Cons.prems(4))
        next
          case m: (3 e s2)
          then have s2: "blob_files s2 = blob_files s" using 1(2) by simp
          then show ?case using m(2) 1(3) collected_refl [OF Cons.prems(1) s2]
            by (auto split: bounded_error.split io_error.split simp: ends_simps intro!: same Cons.prems(4))
        qed
      qed
    qed
  qed
qed

lemma bm_get_filter_key: "bm_get (filter (\<lambda>(k, v). p k) m) k = (if p k then bm_get m k else None)"
  by (induction m) auto

lemma gc_ends:
  assumes inv: "store_inv sha s"
    and P: "\<And>rep s'. store_inv sha s' \<Longrightarrow> (\<And>key. is_key key \<Longrightarrow> blob_has key s \<Longrightarrow> garbage now ttl s key \<or>
      bm_get (blob_files s') (blob_path key) = bm_get (blob_files s) (blob_path key) \<and> refcount key s' = refcount key s) \<Longrightarrow>
      P rep s'"
    and E: "\<And>e s'. store_inv sha s' \<Longrightarrow> (\<And>key. is_key key \<Longrightarrow> blob_has key s \<Longrightarrow> garbage now ttl s key \<or>
      bm_get (blob_files s') (blob_path key) = bm_get (blob_files s) (blob_path key) \<and> refcount key s' = refcount key s) \<Longrightarrow>
      E e s'"
  shows "ends (blob_gc clock now ttl) P E s"
proof -
  have wf: "bm_wf (blob_files s)" using inv by (simp add: store_inv_def)
  have kept: "store_inv sha s1" if "collected now ttl s s1" for s1
    using that inv unfolding store_inv_def collected_def by (metis option.distinct(1))
  have same: "store_inv sha s1" if "blob_files s1 = blob_files s" for s1
    using that inv by (simp add: store_inv_def)
  show ?thesis
    unfolding blob_gc_def blob_keys_def fs_list_def ends_simps
  proof (rule ends_store_get, goal_cases)
    case (2 e s1)
    then show ?case by (intro E same) (simp_all add: refcount_def)
  next
    case (1 m s1)
    then have s1: "bm_wf (blob_files s1)" "collected now ttl s s1"
      using wf collected_refl [OF wf, of s1] by simp_all
    show ?case
    proof (rule gc_loop_ends [OF s1(1)], goal_cases)
      case 1
      then show ?case using keys_of_keys by blast
    next
      case (3 e s2)
      then have s2: "collected now ttl s s2" using collected_trans [OF s1(2)] \<open>bs_refs s1 = bs_refs s\<close> by simp
      show ?case
      proof (rule E [OF kept [OF s2]])
        fix key assume "is_key key"
        then have "garbage now ttl s key \<or> bm_get (blob_files s2) (blob_path key) = bm_get (blob_files s) (blob_path key)"
          using s2 unfolding collected_def by blast
        moreover have "refcount key s2 = refcount key s" using 3(2) \<open>bs_refs s1 = bs_refs s\<close> by (simp add: refcount_def)
        ultimately show "garbage now ttl s key \<or> bm_get (blob_files s2) (blob_path key) =
            bm_get (blob_files s) (blob_path key) \<and> refcount key s2 = refcount key s" by blast
      qed
    next
      case (2 rep s2)
      then have s2: "collected now ttl s s2" "bs_refs s2 = bs_refs s"
        using collected_trans [OF s1(2)] \<open>bs_refs s1 = bs_refs s\<close> by simp_all
      let ?s = "s2\<lparr>bs_refs := filter (\<lambda>(key, n). blob_has key s2) (bs_refs s2)\<rparr>"
      have inv2: "store_inv sha ?s" using kept [OF s2(1)] by simp
      have all: "garbage now ttl s key \<or>
          bm_get (blob_files s') (blob_path key) = bm_get (blob_files s) (blob_path key) \<and> refcount key s' = refcount key s"
        if "blobs_kept ?s s'" "bs_refs s' = bs_refs ?s" "is_key key" "blob_has key s" for s' key
      proof (cases "blob_has key s2")
        case True
        then have "bm_get (blob_files s') (blob_path key) = bm_get (blob_files s2) (blob_path key)"
          using that(1,3) by (simp add: blobs_kept_def)
        moreover have "refcount key s' = refcount key s"
          using that(2) True s2(2) by (simp add: refcount_def bm_get_filter_key)
        ultimately show ?thesis using s2(1) that(3) by (auto simp: collected_def)
      next
        case False
        then show ?thesis using s2(1) that(3,4) by (force simp: collected_def blob_has_def fs_is_file_def)
      qed
      show ?case
      proof (rule flush_ends [OF inv2], goal_cases)
        case (1 s')
        then show ?case using all [OF 1(2,3)] by (simp add: ends_simps P)
      next
        case (2 e s')
        then show ?case using all [OF 2(2,3)] by (intro E) simp_all
      qed
    qed
  qed
qed

end
