(* ===== verification/BoundedRingLaws.thy ===== *)
theory BoundedRingLaws imports BoundedBlobLaws begin

text \<open>
  Laws of the ring: every blob a record points at is counted and stored, whatever fails, and the
  records are the newest ones within the caps.
\<close>

section \<open>References held\<close>

definition payload_keys :: "payload list \<Rightarrow> bytes list" where
  "payload_keys ps = List.map_filter (\<lambda>p. map_option br_key (payload_blob p)) ps"

definition record_payloads :: "call_record list \<Rightarrow> payload list" where
  "record_payloads rs = concat (map (\<lambda>r. [rc_args r, rc_result r]) rs)"

abbreviation held_keys :: "call_record list \<Rightarrow> bytes list" where
  "held_keys rs \<equiv> payload_keys (record_payloads rs)"

lemma payload_keys_simps [simp]:
  "payload_keys [] = []"
  "payload_keys (p # ps) = (case payload_blob p of None \<Rightarrow> payload_keys ps | Some b \<Rightarrow> br_key b # payload_keys ps)"
  "payload_keys (ps @ qs) = payload_keys ps @ payload_keys qs"
  by (auto simp: payload_keys_def map_filter_def split: option.split)

lemma record_payloads_simps [simp]:
  "record_payloads [] = []" "record_payloads (r # rs) = rc_args r # rc_result r # record_payloads rs"
  "record_payloads (rs @ qs) = record_payloads rs @ record_payloads qs"
  by (simp_all add: record_payloads_def)

lemma length_payload_keys: "length (payload_keys ps) \<le> length ps"
  by (induction ps) (auto split: option.split)

lemma length_record_payloads: "length (record_payloads rs) = 2 * length rs"
  by (induction rs) auto

definition refs_ok :: "(bytes \<Rightarrow> bytes) \<Rightarrow> bytes list \<Rightarrow> bstore option \<Rightarrow> bool" where
  "refs_ok sha ks so \<longleftrightarrow> (case so of
       None \<Rightarrow> ks = []
     | Some s \<Rightarrow> store_inv sha s \<and> (\<forall>k. count_list ks k \<le> refcount k s) \<and> (\<forall>k \<in> set ks. is_key k \<and> blob_has k s))"

definition same_ring :: "ring \<Rightarrow> ring \<Rightarrow> bool" where
  "same_ring r r' \<longleftrightarrow> rg_cfg r' = rg_cfg r \<and> rg_next_seq r' = rg_next_seq r"

abbreviation total_len :: "call_record list \<Rightarrow> nat" where
  "total_len rs \<equiv> sum_list (map accounted_len rs)"

text \<open>The ring holds these records, and counts them right.\<close>

definition holds :: "(bytes \<Rightarrow> bytes) \<Rightarrow> call_record list \<Rightarrow> ring \<Rightarrow> bool" where
  "holds sha rs r \<longleftrightarrow> rg_records r = rs \<and> rg_bytes r = total_len rs \<and> refs_ok sha (held_keys rs) (rg_blobs r)"

section \<open>Calls of the store\<close>

lemma ends_with_store:
  assumes "rg_blobs r = Some s"
    "ends m (\<lambda>a s'. P a (r\<lparr>rg_blobs := Some s'\<rparr>)) (\<lambda>e s'. E e (r\<lparr>rg_blobs := Some s'\<rparr>)) s"
  shows "ends (with_store m) P E r"
  using assms by (simp add: with_store_def ends_simps)

lemma release_payloads_ends:
  assumes "refs_ok sha (payload_keys ps @ ks) (rg_blobs r)" "rg_blobs r \<noteq> None \<or> payload_keys ps = []"
    "\<And>so. refs_ok sha ks so \<Longrightarrow> (so = None \<longleftrightarrow> rg_blobs r = None) \<Longrightarrow> P () (r\<lparr>rg_blobs := so\<rparr>)"
  shows "ends (release_payloads clock ps) P E r"
  using assms
proof (induction ps arbitrary: r P E)
  case Nil
  then show ?case using Nil(3) [of "rg_blobs r"] by (simp add: ends_simps)
next
  case (Cons p ps)
  show ?case
  proof (cases "payload_blob p")
    case None
    then show ?thesis using Cons by simp
  next
    case (Some b)
    then obtain s where s: "rg_blobs r = Some s" using Cons.prems(2) by auto
    note ok = Cons.prems(1) [unfolded s refs_ok_def option.case]
    have next_one: "ends (release_payloads clock ps) P E (r\<lparr>rg_blobs := Some s'\<rparr>)"
      if s': "store_inv sha s'" "blobs_kept s s'"
        "\<And>k. refcount k s' = (if k = br_key b then refcount (br_key b) s - 1 else refcount k s)" for s'
    proof (rule Cons.IH)
      have "count_list (payload_keys ps @ ks) k \<le> refcount k s'" for k
        using ok Some s'(3) [of k] by (cases "k = br_key b") (auto dest: spec [where x = k])
      then show "refs_ok sha (payload_keys ps @ ks) (rg_blobs (r\<lparr>rg_blobs := Some s'\<rparr>))"
        using ok s'(1) blobs_kept_has [OF s'(2)] Some by (auto simp: refs_ok_def)
      show "P () (r\<lparr>rg_blobs := Some s', rg_blobs := so\<rparr>)"
        if "refs_ok sha ks so" "(so = None) = (rg_blobs (r\<lparr>rg_blobs := Some s'\<rparr>) = None)" for so
        using Cons.prems(3) [OF that(1)] that(2) s by simp
    qed simp
    show ?thesis
      unfolding release_payloads.simps Some option.case ends_simps
      by (rule ends_with_store [OF s]; rule release_ends; (rule next_one)?) (use ok in simp_all)
  qed
qed

text \<open>Storing a payload takes the reference it needs.\<close>

definition pay_ok :: "nat \<Rightarrow> payload \<Rightarrow> bool" where
  "pay_ok threshold p \<longleftrightarrow> payload_accounted p \<le> max 32 threshold"

lemma encode_ends:
  assumes key: "\<And>x. is_key (sha x)" and ok: "refs_ok sha ks (rg_blobs r)" and few: "length ks < u32_max"
    and P: "\<And>p so. refs_ok sha (ks @ payload_keys [p]) so \<Longrightarrow> pay_ok (cf_blob_threshold (rg_cfg r)) p \<Longrightarrow>
      (so = None \<longleftrightarrow> rg_blobs r = None) \<Longrightarrow> P p (r\<lparr>rg_blobs := so\<rparr>)"
    and E: "\<And>e so. refs_ok sha ks so \<Longrightarrow> (so = None \<longleftrightarrow> rg_blobs r = None) \<Longrightarrow> E e (r\<lparr>rg_blobs := so\<rparr>)"
  shows "ends (encode_payload sha clock content keep) P E r"
proof -
  have same: "P p r" if "payload_blob p = None" "pay_ok (cf_blob_threshold (rg_cfg r)) p" for p
    using P [of p "rg_blobs r"] that ok by simp
  show ?thesis
  proof (cases "keep \<and> length content > cf_blob_threshold (rg_cfg r) \<and> rg_blobs r \<noteq> None")
    case False
    then show ?thesis
      by (auto simp: encode_payload_def Let_def ends_simps pay_ok_def intro!: same)
  next
    case True
    then obtain s where s: "rg_blobs r = Some s" by auto
    note ok_s = ok [unfolded s refs_ok_def option.case]
    have few_k: "count_list ks k < u32_max" for k using few count_le_length [of ks k] by simp
    have step: "refs_ok sha ks (Some s')"
      if "store_inv sha s'" "blobs_kept s s'" "\<And>k. min u32_max (refcount k s) \<le> refcount k s'" for s'
    proof -
      have "count_list ks k \<le> refcount k s'" for k
      proof (rule le_trans [OF min.boundedI that(3)])
        show "count_list ks k \<le> u32_max" using few_k [of k] by (rule less_imp_le)
        show "count_list ks k \<le> refcount k s" using ok_s by blast
      qed
      then show ?thesis using that(1) blobs_kept_has [OF that(2)] ok_s by (auto simp: refs_ok_def)
    qed
    have fail: "E e (r\<lparr>rg_blobs := Some s'\<rparr>)"
      if "store_inv sha s'" "blobs_kept s s'" "\<And>k. min u32_max (refcount k s) \<le> refcount k s'" for e s'
      using step [OF that] s by (intro E) simp_all
    let ?k = "sha content" and ?b = "\<lparr>br_key = sha content, br_len = length content\<rparr>"
    have stored: "ends (with_store (blob_add_ref clock (br_key ?b))) (\<lambda>_. P (BlobPayload ?b)) E (r\<lparr>rg_blobs := Some s1\<rparr>)"
      if s1: "store_inv sha s1" "blobs_kept s s1" "bs_refs s1 = bs_refs s" for s1
    proof (rule ends_with_store, simp, rule add_ref_ends [OF s1(1)], goal_cases)
      case (1 s2)
      have kept: "blobs_kept s s2" by (rule blobs_kept_trans [OF s1(2) 1(2)])
      have "count_list (ks @ [?k]) k \<le> refcount k s2" for k
      proof (cases "k = ?k")
        case True
        have "count_list ks k + 1 \<le> min (refcount k s + 1) u32_max"
          using few_k [of k] ok_s by (intro min.boundedI) (simp_all del: min.bounded_iff)
        then show ?thesis using True 1(4) [of k] s1(3) by (simp add: sat_add32_def refcount_def)
      next
        case False
        then show ?thesis using 1(4) [of k] s1(3) ok_s by (simp add: refcount_def)
      qed
      then have "refs_ok sha (ks @ payload_keys [BlobPayload ?b]) (Some s2)"
        using 1(1,3,5) blobs_kept_has [OF kept] ok_s by (auto simp: refs_ok_def)
      then show ?case using P [of "BlobPayload ?b" "Some s2"] s by (simp add: pay_ok_def)
    next
      case (2 e s2)
      have "refcount k s1 = refcount k s" for k using s1(3) by (simp add: refcount_def)
      then show ?case using fail [OF 2(1) blobs_kept_trans [OF s1(2) 2(2)]] 2(3) by simp
    next
      case 3
      then show ?case using key by simp
    qed
    have "ends (with_store (blob_put sha clock content))
        (\<lambda>b. ends (with_store (blob_add_ref clock (br_key b))) (\<lambda>_. P (BlobPayload b)) E) E r"
    proof (rule ends_with_store [OF s], rule put_ends [OF conjunct1 [OF ok_s] key], goal_cases)
      case (1 s1)
      show ?case by (rule stored [OF 1(1-3)])
    next
      case (2 e s1)
      then show ?case by (intro fail) (simp_all add: refcount_def)
    qed
    then show ?thesis using True by (simp add: encode_payload_def Let_def ends_simps)
  qed
qed

section \<open>Dropping the oldest\<close>

lemma same_ring_trans: "same_ring a b \<Longrightarrow> same_ring b c \<Longrightarrow> same_ring a c"
  by (simp add: same_ring_def)

lemma same_ring_refl [simp]: "same_ring r r"
  by (simp add: same_ring_def)

lemma drop_front_ends:
  assumes "holds sha (x # rest) r" "\<And>r'. holds sha rest r' \<Longrightarrow> same_ring r r' \<Longrightarrow> P (Some x) r'"
  shows "ends (drop_front clock) P E r"
proof -
  let ?r = "r\<lparr>rg_records := rest, rg_bytes := rg_bytes r - accounted_len x\<rparr>"
  have r: "rg_records r = x # rest" "rg_bytes r = accounted_len x + total_len rest"
    and refs: "refs_ok sha (payload_keys [rc_args x, rc_result x] @ held_keys rest) (rg_blobs r)"
    using assms(1) by (auto simp: holds_def split: option.splits)
  have goal: "P (Some x) (?r\<lparr>rg_blobs := so\<rparr>)" if "refs_ok sha (held_keys rest) so" for so
    using that r by (intro assms(2)) (simp_all add: holds_def same_ring_def)
  show ?thesis
  proof (cases "rg_blobs r")
    case None
    then have "refs_ok sha (held_keys rest) (rg_blobs r)" using refs by (simp add: refs_ok_def)
    from goal [OF this] have "P (Some x) ?r" using None by (cases r) simp
    then show ?thesis using None r(1) by (simp add: drop_front_def ends_simps)
  next
    case (Some s)
    have "ends (release_payloads clock [rc_args x, rc_result x]) (\<lambda>_. P (Some x)) E ?r"
      by (rule release_payloads_ends [where sha = sha and ks = "held_keys rest"]) (use refs Some goal in simp_all)
    then show ?thesis using Some r(1) by (simp add: drop_front_def ends_simps del: release_payloads.simps)
  qed
qed

abbreviation too_old :: "ring \<Rightarrow> int \<Rightarrow> call_record \<Rightarrow> bool" where
  "too_old r now x \<equiv> age now (rc_ts x) \<ge> cf_max_age (rg_cfg r)"

lemma expire_records_ends:
  assumes "holds sha rs r" "\<And>n r'. holds sha (dropWhile (too_old r now) rs) r' \<Longrightarrow> same_ring r r' \<Longrightarrow> P n r'"
  shows "ends (expire_records clock now rs n) P E r"
  using assms
proof (induction rs arbitrary: r n P)
  case (Cons x rs)
  show ?case
  proof (cases "too_old r now x")
    case True
    have "ends (drop_front clock) (\<lambda>_. ends (expire_records clock now rs (n + 1)) P E) E r"
    proof (rule drop_front_ends [OF Cons.prems(1)], rule Cons.IH)
      fix r' n r'' assume r': "same_ring r r'" "holds sha (dropWhile (too_old r' now) rs) r''" "same_ring r' r''"
      then show "P n r''"
        using True same_ring_trans [OF r'(1,3)] by (intro Cons.prems(2)) (simp_all add: same_ring_def)
    qed
    then show ?thesis using True by (simp add: ends_simps)
  next
    case False
    then show ?thesis using Cons.prems by (simp add: ends_simps)
  qed
qed (simp add: ends_simps)

lemma expire_ring_ends:
  assumes "holds sha rs r" "\<And>n r'. holds sha (dropWhile (too_old r now) rs) r' \<Longrightarrow> same_ring r r' \<Longrightarrow> P n r'"
  shows "ends (ring_expire clock now) P E r"
proof -
  have "rg_records r = rs" using assms(1) by (simp add: holds_def)
  then show ?thesis using expire_records_ends [OF assms] by (simp add: ring_expire_def ends_simps)
qed

text \<open>No more goes than has to, and never the last one.\<close>

definition newest_within :: "nat \<Rightarrow> call_record list \<Rightarrow> call_record list \<Rightarrow> bool" where
  "newest_within most rs out \<longleftrightarrow> (\<exists>k. out = drop k rs \<and> (rs \<noteq> [] \<longrightarrow> out \<noteq> []) \<and>
     (total_len out \<le> most \<or> length out = 1) \<and> (\<forall>j < k. total_len (drop j rs) > most))"

lemma newest_within_step: "newest_within most rs out \<Longrightarrow> rs \<noteq> [] \<Longrightarrow> total_len (x # rs) > most \<Longrightarrow> newest_within most (x # rs) out"
  unfolding newest_within_def
proof (elim exE conjE)
  fix k assume "rs \<noteq> []" "total_len (x # rs) > most" "out = drop k rs" "rs \<noteq> [] \<longrightarrow> out \<noteq> []"
    "total_len out \<le> most \<or> length out = 1" "\<forall>j < k. total_len (drop j rs) > most"
  then show "\<exists>k. out = drop k (x # rs) \<and> (x # rs \<noteq> [] \<longrightarrow> out \<noteq> []) \<and>
      (total_len out \<le> most \<or> length out = 1) \<and> (\<forall>j < k. total_len (drop j (x # rs)) > most)"
    by (intro exI [of _ "Suc k"]) (auto simp: less_Suc_eq_0_disj)
qed

lemma newest_within_stop: "total_len rs \<le> most \<or> length rs = 1 \<Longrightarrow> newest_within most rs rs"
  unfolding newest_within_def by (intro exI [of _ 0]) auto

lemma shrink_ends:
  assumes "holds sha rs r" "\<And>out r'. holds sha out r' \<Longrightarrow> same_ring r r' \<Longrightarrow>
    newest_within (cf_max_bytes (rg_cfg r)) rs out \<Longrightarrow> P () r'"
  shows "ends (shrink clock rs) P E r"
  using assms
proof (induction rs arbitrary: r P)
  case Nil
  then show ?case using newest_within_stop [of "[]"] by (simp add: ends_simps)
next
  case (Cons x rs)
  have bytes: "rg_bytes r = total_len (x # rs)" using Cons.prems(1) by (simp add: holds_def)
  show ?case
  proof (cases "rg_bytes r > cf_max_bytes (rg_cfg r) \<and> rs \<noteq> []")
    case True
    have "ends (drop_front clock) (\<lambda>_. ends (shrink clock rs) P E) E r"
    proof (rule drop_front_ends [OF Cons.prems(1)], rule Cons.IH)
      fix r' out r''
      assume r': "same_ring r r'" "same_ring r' r''" "holds sha out r''" "newest_within (cf_max_bytes (rg_cfg r')) rs out"
      then have "newest_within (cf_max_bytes (rg_cfg r)) (x # rs) out"
        using newest_within_step True bytes by (simp add: same_ring_def)
      then show "P () r''" using Cons.prems(2) [OF r'(3) same_ring_trans [OF r'(1,2)]] by simp
    qed
    then show ?thesis using True by (simp add: ends_simps)
  next
    case False
    then have "newest_within (cf_max_bytes (rg_cfg r)) (x # rs) (x # rs)"
      using bytes by (intro newest_within_stop) auto
    from Cons.prems(2) [OF Cons.prems(1) same_ring_refl this] show ?thesis using False by (auto simp: ends_simps)
  qed
qed

lemma clear_ends:
  assumes "holds sha rs r" "\<And>r'. holds sha [] r' \<Longrightarrow> same_ring r r' \<Longrightarrow> P () r'"
  shows "ends (clear_records clock rs) P E r"
  using assms
proof (induction rs arbitrary: r P)
  case (Cons x rs)
  have "ends (drop_front clock) (\<lambda>_. ends (clear_records clock rs) P E) E r"
    by (rule drop_front_ends [OF Cons.prems(1)], rule Cons.IH)
       (use Cons.prems(2) same_ring_trans in blast)+
  then show ?case by (simp add: ends_simps)
qed (simp add: ends_simps)

section \<open>The invariant of the ring\<close>

text \<open>Caps small enough for the counters: far above the crate's defaults.\<close>

definition cfg_ok :: "ring_config \<Rightarrow> bool" where
  "cfg_ok cfg \<longleftrightarrow> cf_max_bytes cfg \<le> 2 ^ 37 \<and> cf_blob_threshold cfg \<le> 2 ^ 40"

definition record_ok :: "nat \<Rightarrow> call_record \<Rightarrow> bool" where
  "record_ok threshold x \<longleftrightarrow> field_ok (rc_interface x) \<and> field_ok (rc_function x) \<and>
     pay_ok threshold (rc_args x) \<and> pay_ok threshold (rc_result x)"

definition ring_inv :: "(bytes \<Rightarrow> bytes) \<Rightarrow> ring \<Rightarrow> bool" where
  "ring_inv sha r \<longleftrightarrow> cfg_ok (rg_cfg r) \<and> holds sha (rg_records r) r \<and>
     (rg_bytes r \<le> cf_max_bytes (rg_cfg r) \<or> length (rg_records r) = 1) \<and>
     (\<forall>x \<in> set (rg_records r). record_ok (cf_blob_threshold (rg_cfg r)) x)"

lemma accounted_bounds:
  assumes "record_ok threshold x" "threshold \<le> 2 ^ 40"
  shows "96 \<le> accounted_len x" "accounted_len x \<le> 352 + 2 * 2 ^ 40"
    "accounted_len x = 96 + length (utf8 (rc_interface x)) + length (utf8 (rc_function x)) +
       payload_accounted (rc_args x) + payload_accounted (rc_result x)"
proof -
  have small: "payload_accounted (rc_args x) \<le> 2 ^ 40" "payload_accounted (rc_result x) \<le> 2 ^ 40"
    "length (utf8 (rc_interface x)) \<le> 128" "length (utf8 (rc_function x)) \<le> 128"
    using assms by (auto simp: record_ok_def pay_ok_def field_ok_def max_def split: if_splits)
  have no: "sat_add64 a b = a + b" if "a + b \<le> 352 + 2 * 2 ^ 40" for a b
    using that by (simp add: sat_add64_def std_simps)
  show e: "accounted_len x = 96 + length (utf8 (rc_interface x)) + length (utf8 (rc_function x)) +
       payload_accounted (rc_args x) + payload_accounted (rc_result x)"
    using small unfolding accounted_len_def RECORD_OVERHEAD_def by (simp add: no)
  show "96 \<le> accounted_len x" "accounted_len x \<le> 352 + 2 * 2 ^ 40" unfolding e using small by linarith+
qed

lemma total_len_ge: "(\<And>x. x \<in> set rs \<Longrightarrow> 96 \<le> accounted_len x) \<Longrightarrow> 96 * length rs \<le> total_len rs"
proof (induction rs)
  case (Cons x rs)
  from Cons.prems [of x] Cons.IH Cons.prems show ?case by force
qed simp

lemma inv_small:
  assumes "ring_inv sha r"
  shows "2 * length (rg_records r) + 1 < u32_max" "total_len (rg_records r) \<le> 2 ^ 42"
proof -
  have cfg: "cf_max_bytes (rg_cfg r) \<le> 2 ^ 37" "cf_blob_threshold (rg_cfg r) \<le> 2 ^ 40"
    and ok: "\<And>x. x \<in> set (rg_records r) \<Longrightarrow> record_ok (cf_blob_threshold (rg_cfg r)) x"
    and bytes: "rg_bytes r = total_len (rg_records r)"
    and fits: "rg_bytes r \<le> cf_max_bytes (rg_cfg r) \<or> length (rg_records r) = 1"
    using assms by (auto simp: ring_inv_def cfg_ok_def holds_def)
  have len: "96 * length (rg_records r) \<le> total_len (rg_records r)"
    by (rule total_len_ge) (rule accounted_bounds(1) [OF ok cfg(2)])
  show "2 * length (rg_records r) + 1 < u32_max"
    using fits len bytes cfg(1) by (auto simp: std_simps)
  show "total_len (rg_records r) \<le> 2 ^ 42"
  proof (cases "length (rg_records r) = 1")
    case True
    then obtain x where x: "rg_records r = [x]" by (cases "rg_records r") auto
    then show ?thesis using accounted_bounds(2) [OF ok cfg(2), of x] by simp
  next
    case False
    then show ?thesis using fits bytes cfg(1) by simp
  qed
qed

lemma refs_ok_front: "refs_ok sha (ks @ ls) so \<Longrightarrow> refs_ok sha ks so"
  by (auto simp: refs_ok_def split: option.splits intro: le_trans [OF le_add1])

lemma newest_within_set: "newest_within most rs out \<Longrightarrow> set out \<subseteq> set rs"
  by (auto simp: newest_within_def dest: in_set_dropD)

text \<open>What a push that returns leaves: the new record at the end of the old ones, the records that have
  become too old gone, then the oldest ones until the rest fits.\<close>

definition pushed :: "new_record \<Rightarrow> ring \<Rightarrow> call_record \<Rightarrow> ring \<Rightarrow> bool" where
  "pushed call r x r' \<longleftrightarrow> rc_seq x = rg_next_seq r \<and> rc_ts x = nr_ts call \<and> rc_interface x = nr_interface call \<and>
     rc_function x = nr_function call \<and> rc_duration x = nr_duration call \<and>
     rg_cfg r' = rg_cfg r \<and> rg_next_seq r' = sat_add64 (rg_next_seq r) 1 \<and>
     newest_within (cf_max_bytes (rg_cfg r)) (dropWhile (too_old r (nr_ts call)) (rg_records r @ [x])) (rg_records r')"

lemma ring_inv_blobs:
  "ring_inv sha r \<Longrightarrow> refs_ok sha (held_keys (rg_records r)) so \<Longrightarrow> ring_inv sha (r\<lparr>rg_blobs := so\<rparr>)"
  by (auto simp: ring_inv_def holds_def)

lemma append_ends:
  assumes inv: "ring_inv sha r" and refs: "refs_ok sha (held_keys (rg_records r @ [x])) so"
    and x: "record_ok (cf_blob_threshold (rg_cfg r)) x" "rc_seq x = rg_next_seq r" "rc_ts x = nr_ts call"
      "rc_interface x = nr_interface call" "rc_function x = nr_function call" "rc_duration x = nr_duration call"
    and P: "\<And>r'. ring_inv sha r' \<Longrightarrow> pushed call r x r' \<Longrightarrow> P r'"
  shows "ends (ring_expire clock (nr_ts call)) (\<lambda>_. ends (b_query rg_records) (\<lambda>rs. ends (shrink clock rs) (\<lambda>_. P) E) E) E
    (r\<lparr>rg_blobs := so, rg_next_seq := sat_add64 (rg_next_seq r) 1, rg_bytes := sat_add64 (rg_bytes r) (accounted_len x),
       rg_records := rg_records r @ [x]\<rparr>)"
    (is "ends _ _ _ ?r")
proof (rule expire_ring_ends)
  have cfg: "cfg_ok (rg_cfg r)" using inv by (simp add: ring_inv_def)
  have "rg_bytes r + accounted_len x \<le> u64_max"
    using inv_small(2) [OF inv] accounted_bounds(2) [OF x(1)] cfg inv by (simp add: cfg_ok_def ring_inv_def holds_def std_simps)
  then show "holds sha (rg_records r @ [x]) ?r"
    using inv refs by (simp add: holds_def ring_inv_def sat_add64_def)
next
  fix n r1
  let ?kept = "dropWhile (too_old ?r (nr_ts call)) (rg_records r @ [x])"
  assume r1: "holds sha ?kept r1" "same_ring ?r r1"
  have "ends (shrink clock ?kept) (\<lambda>_. P) E r1"
  proof (rule shrink_ends [OF r1(1)], rule P)
    fix out r2
    assume r2: "holds sha out r2" "same_ring r1 r2" "newest_within (cf_max_bytes (rg_cfg r1)) ?kept out"
    have cfgs: "rg_cfg r1 = rg_cfg r" "rg_cfg r2 = rg_cfg r" "rg_next_seq r2 = sat_add64 (rg_next_seq r) 1"
      using r1(2) r2(2) by (simp_all add: same_ring_def)
    have recs: "rg_records r2 = out" "rg_bytes r2 = total_len out" using r2(1) by (simp_all add: holds_def)
    have "set out \<subseteq> insert x (set (rg_records r))"
      using newest_within_set [OF r2(3)] set_dropWhileD [of _ "too_old ?r (nr_ts call)" "rg_records r @ [x]"] by fastforce
    moreover have "total_len out \<le> cf_max_bytes (rg_cfg r) \<or> length out = 1"
      using r2(3) by (auto simp: newest_within_def cfgs)
    ultimately show "ring_inv sha r2"
      using inv x(1) r2(1) by (auto simp: ring_inv_def recs cfgs)
    show "pushed call r x r2" using r2(3) x by (simp add: pushed_def recs cfgs)
  qed
  then show "ends (b_query rg_records) (\<lambda>rs. ends (shrink clock rs) (\<lambda>_. P) E) E r1"
    using r1(1) by (simp add: ends_simps holds_def)
qed

lemma push_ends:
  assumes key: "\<And>x. is_key (sha x)" and inv: "ring_inv sha r"
    and P: "\<And>x r'. ring_inv sha r' \<Longrightarrow> pushed call r x r' \<Longrightarrow> P (rg_next_seq r) r'"
    and E: "\<And>e r'. ring_inv sha r' \<Longrightarrow> rg_records r' = rg_records r \<Longrightarrow> same_ring r r' \<Longrightarrow> E e r'"
  shows "ends (ring_push sha clock call) P E r"
proof (cases "field_ok (nr_interface call) \<and> field_ok (nr_function call)")
  case False
  then show ?thesis using inv by (auto simp: ring_push_def ends_simps intro: E)
next
  case fields: True
  let ?ks = "held_keys (rg_records r)"
  have refs: "refs_ok sha ?ks (rg_blobs r)" using inv by (simp add: ring_inv_def holds_def)
  have few: "length ?ks + 1 < u32_max"
    using inv_small(1) [OF inv] length_payload_keys [of "record_payloads (rg_records r)"]
    by (simp only: length_record_payloads)
  have fail: "E e (r\<lparr>rg_blobs := so\<rparr>)" if "refs_ok sha ?ks so" for e so
    using ring_inv_blobs [OF inv that] by (intro E) (simp_all add: same_ring_def)
  let ?x = "\<lambda>args res. \<lparr>rc_seq = rg_next_seq r, rc_ts = nr_ts call, rc_interface = nr_interface call,
      rc_function = nr_function call, rc_args = args, rc_result = res, rc_duration = nr_duration call\<rparr>"
  let ?tail = "\<lambda>args res seq. let x = \<lparr>rc_seq = seq, rc_ts = nr_ts call, rc_interface = nr_interface call,
      rc_function = nr_function call, rc_args = args, rc_result = res, rc_duration = nr_duration call\<rparr>
    in b_then (b_modify (\<lambda>r. r\<lparr>rg_next_seq := sat_add64 seq 1, rg_bytes := sat_add64 (rg_bytes r) (accounted_len x),
               rg_records := rg_records r @ [x]\<rparr>)) (\<lambda>_.
          b_then (ring_expire clock (nr_ts call)) (\<lambda>_.
          b_then (b_query rg_records) (\<lambda>rs.
          b_then (shrink clock rs) (\<lambda>_. b_return seq))))"
  have last: "ends (b_then (b_query rg_next_seq) (?tail args res)) P E (r\<lparr>rg_blobs := so\<rparr>)"
    if "refs_ok sha (?ks @ payload_keys [args, res]) so" "pay_ok (cf_blob_threshold (rg_cfg r)) args"
      "pay_ok (cf_blob_threshold (rg_cfg r)) res" for args res so
  proof -
    have "refs_ok sha (held_keys (rg_records r @ [?x args res])) so" using that(1) by simp
    from append_ends [OF inv this, where call = call and P = "P (rg_next_seq r)" and E = E and clock = clock] fields that(2,3) P
    show ?thesis by (simp add: ends_simps Let_def record_ok_def)
  qed
  let ?res = "\<lambda>args. b_then (case nr_result call of Some content \<Rightarrow> encode_payload sha clock content True
      | None \<Rightarrow> b_return EmptyPayload) (\<lambda>res. b_then (b_query rg_next_seq) (?tail args res))"
  have result: "ends (?res args) P E (r\<lparr>rg_blobs := so\<rparr>)"
    if args: "refs_ok sha (?ks @ payload_keys [args]) so" "pay_ok (cf_blob_threshold (rg_cfg r)) args" for args so
  proof (cases "nr_result call")
    case None
    have "payload_keys [args, EmptyPayload] = payload_keys [args]" by (simp split: option.split)
    then have "ends (b_then (b_query rg_next_seq) (?tail args EmptyPayload)) P E (r\<lparr>rg_blobs := so\<rparr>)"
      using args by (intro last) (simp_all only: pay_ok_def payload_accounted.simps)
    then show ?thesis by (simp only: None option.case ends_then [of "b_return _"] ends_return)
  next
    case (Some content)
    have less: "length (?ks @ payload_keys [args]) < u32_max" using few by (simp split: option.split)
    have "ends (encode_payload sha clock content True) (\<lambda>res. ends (b_then (b_query rg_next_seq) (?tail args res)) P E) E
        (r\<lparr>rg_blobs := so\<rparr>)"
    proof (rule encode_ends [OF key _ less], goal_cases)
      case 1
      then show ?case using args(1) by simp
    next
      case (2 res so')
      have keys: "payload_keys [args] @ payload_keys [res] = payload_keys [args, res]" by (simp split: option.split)
      have over: "r\<lparr>rg_blobs := so\<rparr>\<lparr>rg_blobs := so'\<rparr> = r\<lparr>rg_blobs := so'\<rparr>" by simp
      have "refs_ok sha (?ks @ payload_keys [args, res]) so'" using 2(1) by (simp only: append_assoc keys)
      then show ?case unfolding over by (rule last [OF _ args(2)]) (use 2(2) in simp)
    next
      case (3 e so')
      then show ?case using fail [OF refs_ok_front] by simp
    qed
    then show ?thesis using Some by (simp add: ends_then [of "encode_payload _ _ _ _"])
  qed
  have "ends (encode_payload sha clock (nr_args call) (cf_keep_args (rg_cfg r))) (\<lambda>args. ends (?res args) P E) E r"
  proof (rule encode_ends [OF key refs])
    show "length ?ks < u32_max" using few by simp
  qed (use result fail in \<open>auto simp del: payload_keys_simps\<close>)
  then show ?thesis using fields unfolding ring_push_def by (simp add: ends_then [of "b_query _"] ends_query ends_then [of "encode_payload _ _ _ _"])
qed

section \<open>Runs\<close>

text \<open>What may happen to a ring with a store: its own operations, a collection, others taking references of
  their own, and a disk that starts or stops failing.\<close>

datatype ring_event = RPush int new_record | RExpire int int | RClear int | RCollect int int nat
  | RTake int bytes | RFaults "io_fault list"

fun ring_event_do :: "(bytes \<Rightarrow> bytes) \<Rightarrow> ring_event \<Rightarrow> ring \<Rightarrow> ring" where
  "ring_event_do sha (RPush clock call) r = snd (ring_push sha clock call r)"
| "ring_event_do sha (RExpire clock now) r = snd (ring_expire clock now r)"
| "ring_event_do sha (RClear clock) r = snd (ring_clear clock r)"
| "ring_event_do sha (RCollect clock now ttl) r = (if rg_blobs r = None then r else snd (with_store (blob_gc clock now ttl) r))"
| "ring_event_do sha (RTake clock key) r =
     (if rg_blobs r = None \<or> length key \<noteq> 32 then r else snd (with_store (blob_add_ref clock key) r))"
| "ring_event_do sha (RFaults fs) r =
     r\<lparr>rg_blobs := map_option (\<lambda>s. s\<lparr>bs_disk := (bs_disk s)\<lparr>dk_script := fs\<rparr>\<rparr>) (rg_blobs r)\<rparr>"

abbreviation ring_run :: "(bytes \<Rightarrow> bytes) \<Rightarrow> ring_event list \<Rightarrow> ring \<Rightarrow> ring" where
  "ring_run sha evs r \<equiv> fold (ring_event_do sha) evs r"

lemma ring_inv_suffix:
  assumes "ring_inv sha r" "holds sha rs r'" "same_ring r r'" "set rs \<subseteq> set (rg_records r)"
    "total_len rs \<le> cf_max_bytes (rg_cfg r) \<or> length rs = 1"
  shows "ring_inv sha r'"
  using assms unfolding ring_inv_def holds_def same_ring_def by auto

lemma dropWhile_fits:
  assumes "total_len rs \<le> n \<or> length rs = 1"
  shows "total_len (dropWhile p rs) \<le> n \<or> length (dropWhile p rs) = 1"
proof -
  have "total_len (dropWhile p rs) \<le> total_len rs" by (induction rs) auto
  moreover have "length rs = 1 \<Longrightarrow> dropWhile p rs = [] \<or> length (dropWhile p rs) = 1" by (cases rs) auto
  ultimately show ?thesis
  proof (cases "dropWhile p rs = []")
    case True
    then show ?thesis by (simp only: list.map sum_list.Nil le0 simp_thms)
  next
    case False
    then show ?thesis using assms \<open>total_len (dropWhile p rs) \<le> total_len rs\<close>
        \<open>length rs = 1 \<Longrightarrow> dropWhile p rs = [] \<or> length (dropWhile p rs) = 1\<close> by linarith
  qed
qed

lemma refs_ok_kept:
  assumes "refs_ok sha ks (Some s)" "store_inv sha s'" "\<And>k. min u32_max (count_list ks k) \<le> refcount k s'"
    "\<And>k. k \<in> set ks \<Longrightarrow> blob_has k s'" "length ks < u32_max"
  shows "refs_ok sha ks (Some s')"
proof -
  have "count_list ks k \<le> refcount k s'" for k
    using assms(3) [of k] assms(5) count_le_length [of ks k] by (simp add: min_def split: if_splits)
  then show ?thesis using assms by (simp add: refs_ok_def)
qed

abbreviation still_ring :: "(bytes \<Rightarrow> bytes) \<Rightarrow> ring \<Rightarrow> ring \<Rightarrow> bool" where
  "still_ring sha r r' \<equiv> ring_inv sha r' \<and> rg_cfg r' = rg_cfg r"

lemma ring_event_inv:
  assumes key: "\<And>x. is_key (sha x)" and inv: "ring_inv sha r"
  shows "still_ring sha r (ring_event_do sha ev r)"
proof (cases ev)
  case (RPush clock call)
  have "ends (ring_push sha clock call) (\<lambda>_. still_ring sha r) (\<lambda>_. still_ring sha r) r" 
    by (rule push_ends [OF key inv]) (simp_all add: pushed_def same_ring_def)
  then show ?thesis unfolding RPush ring_event_do.simps by (rule ends_snd)
next
  case (RExpire clock now)
  have "ends (ring_expire clock now) (\<lambda>_. still_ring sha r) (\<lambda>_. still_ring sha r) r"
  proof (rule expire_ring_ends)
    show "holds sha (rg_records r) r" using inv by (simp add: ring_inv_def)
    fix n r' assume r': "holds sha (dropWhile (too_old r now) (rg_records r)) r'" "same_ring r r'"
    have "ring_inv sha r'"
    proof (rule ring_inv_suffix [OF inv r'])
      show "set (dropWhile (too_old r now) (rg_records r)) \<subseteq> set (rg_records r)" using set_dropWhileD by fast
      show "total_len (dropWhile (too_old r now) (rg_records r)) \<le> cf_max_bytes (rg_cfg r) \<or>
          length (dropWhile (too_old r now) (rg_records r)) = 1"
        by (rule dropWhile_fits) (use inv in \<open>auto simp: ring_inv_def holds_def\<close>)
    qed
    then show "still_ring sha r r'" using r'(2) by (simp add: same_ring_def)
  qed
  then show ?thesis unfolding RExpire ring_event_do.simps by (rule ends_snd)
next
  case (RClear clock)
  have "ends (clear_records clock (rg_records r)) (\<lambda>_. still_ring sha r) (\<lambda>_. still_ring sha r) r"
    by (rule clear_ends [where sha = sha]) (use inv ring_inv_suffix [OF inv, of "[]"] in \<open>auto simp: ring_inv_def same_ring_def\<close>)
  then have "ends (ring_clear clock) (\<lambda>_. still_ring sha r) (\<lambda>_. still_ring sha r) r" by (simp add: ring_clear_def ends_simps)
  then show ?thesis unfolding RClear ring_event_do.simps by (rule ends_snd)
next
  case (RFaults fs)
  have [simp]: "refcount k (s\<lparr>bs_disk := d\<rparr>) = refcount k s" for k s d by (simp add: refcount_def)
  have "refs_ok sha (held_keys (rg_records r)) (rg_blobs r)" using inv by (simp add: ring_inv_def holds_def)
  then show ?thesis
    unfolding RFaults ring_event_do.simps
    by (intro conjI ring_inv_blobs [OF inv])
       (auto simp: refs_ok_def store_inv_def blob_has_def fs_is_file_def split: option.split)
next
  case (RCollect clock now ttl)
  show ?thesis
  proof (cases "rg_blobs r")
    case (Some s)
    let ?ks = "held_keys (rg_records r)"
    have ok: "refs_ok sha ?ks (Some s)" using inv Some by (simp add: ring_inv_def holds_def)
    have few: "length ?ks < u32_max"
      using inv_small(1) [OF inv] length_payload_keys [of "record_payloads (rg_records r)"]
      by (simp only: length_record_payloads)
    have fine: "still_ring sha r (r\<lparr>rg_blobs := Some s'\<rparr>)"
      if s': "store_inv sha s'" "\<And>k. is_key k \<Longrightarrow> blob_has k s \<Longrightarrow> garbage now ttl s k \<or>
        bm_get (blob_files s') (blob_path k) = bm_get (blob_files s) (blob_path k) \<and> refcount k s' = refcount k s" for s'
    proof (intro conjI ring_inv_blobs [OF inv refs_ok_kept [OF ok s'(1) _ _ few]])
      have held: "refcount k s' = refcount k s \<and> blob_has k s'" if "k \<in> set ?ks" for k
      proof -
        have k: "is_key k" "blob_has k s" "count_list ?ks k \<le> refcount k s" using ok that by (auto simp: refs_ok_def)
        then have "\<not> garbage now ttl s k" using that by (auto simp: garbage_def count_list_0_iff)
        then show ?thesis using s'(2) [OF k(1,2)] k(2) by (auto simp: blob_has_def fs_is_file_def)
      qed
      show "min u32_max (count_list ?ks k) \<le> refcount k s'" for k
      proof (cases "k \<in> set ?ks")
        case True
        then show ?thesis using held [OF True] ok by (auto simp: refs_ok_def intro: le_trans [OF min.cobounded2])
      next
        case False
        then show ?thesis by (simp add: count_list_0_iff)
      qed
      show "k \<in> set ?ks \<Longrightarrow> blob_has k s'" for k using held by blast
    qed simp
    have "ends (with_store (blob_gc clock now ttl)) (\<lambda>_. still_ring sha r) (\<lambda>_. still_ring sha r) r"
      by (rule ends_with_store [OF Some]; rule gc_ends [where sha = sha and now = now and ttl = ttl]; (rule fine)?)
         (use ok in \<open>auto simp: refs_ok_def\<close>)
    then show ?thesis using Some unfolding RCollect by (simp add: ends_snd [where Q = "still_ring sha r"])
  qed (use inv RCollect in simp)
next
  case (RTake clock key)
  show ?thesis
  proof (cases "rg_blobs r")
    case (Some s)
    let ?ks = "held_keys (rg_records r)"
    have ok: "refs_ok sha ?ks (Some s)" using inv Some by (simp add: ring_inv_def holds_def)
    have few: "length ?ks < u32_max"
      using inv_small(1) [OF inv] length_payload_keys [of "record_payloads (rg_records r)"]
      by (simp only: length_record_payloads)
    have fine: "still_ring sha r (r\<lparr>rg_blobs := Some s'\<rparr>)"
      if s': "store_inv sha s'" "blobs_kept s s'" "\<And>k. min u32_max (refcount k s) \<le> refcount k s'" for s'
    proof (intro conjI ring_inv_blobs [OF inv refs_ok_kept [OF ok s'(1) _ _ few]])
      have "count_list ?ks k \<le> refcount k s" for k using ok by (simp add: refs_ok_def)
      then show "min u32_max (count_list ?ks k) \<le> refcount k s'" for k
        using le_trans [OF min.mono [OF order_refl] s'(3)] by blast
      show "k \<in> set ?ks \<Longrightarrow> blob_has k s'" for k using ok blobs_kept_has [OF s'(2)] by (auto simp: refs_ok_def)
    qed simp
    have "ends (with_store (blob_add_ref clock key)) (\<lambda>_. still_ring sha r) (\<lambda>_. still_ring sha r) r" if "is_key key"
    proof (rule ends_with_store [OF Some]; rule add_ref_ends [where sha = sha, OF _ _ _ that], goal_cases)
      case 1
      then show ?case using ok by (simp add: refs_ok_def)
    next
      case (2 s')
      then show ?case by (intro fine) (auto simp: sat_add32_def min_def)
    next
      case (3 e s')
      then show ?case by (intro fine) simp_all
    qed
    then show ?thesis using Some inv unfolding RTake by (simp add: ends_snd [where Q = "still_ring sha r"])
  qed (use inv RTake in simp)
qed

lemma ring_run_inv:
  assumes "\<And>x. is_key (sha x)" "ring_inv sha r"
  shows "ring_inv sha (ring_run sha evs r)" "rg_cfg (ring_run sha evs r) = rg_cfg r"
proof -
  have "still_ring sha r (ring_run sha evs r)"
    using assms(2)
  proof (induction evs arbitrary: r)
    case (Cons ev evs)
    have "still_ring sha r (ring_event_do sha ev r)" using Cons.prems assms(1) by (intro ring_event_inv)
    then show ?case using Cons.IH [of "ring_event_do sha ev r"] by simp
  qed simp
  then show "ring_inv sha (ring_run sha evs r)" "rg_cfg (ring_run sha evs r) = rg_cfg r" by simp_all
qed

lemma ring_start_inv: "cfg_ok cfg \<Longrightarrow> store_inv sha s \<Longrightarrow> ring_inv sha (ring_with_blobs cfg s)"
  by (simp add: ring_inv_def holds_def ring_with_blobs_def refs_ok_def)

end
