(* ===== verification/BoundedReplayLaws.thy ===== *)
theory BoundedReplayLaws imports BoundedReplay BoundedDirLaws BoundedRingLaws begin

text \<open>
  Laws of the replay files: what the writers put down the cursor reads back, piece by piece, and every
  save finds a name no file has.
\<close>

section \<open>Reading back\<close>

definition creads :: "'a cur \<Rightarrow> bytes \<Rightarrow> 'a \<Rightarrow> bool" where
  "creads p out v \<longleftrightarrow> (\<forall>pre rest. length pre + length out \<le> u64_max \<longrightarrow>
     p (pre @ out @ rest) (length pre) = Inr (v, length pre + length out))"

named_theorems creads_rules \<open>what a cursor reads back\<close>

lemma creadsD: "creads p out v \<Longrightarrow> length out \<le> u64_max \<Longrightarrow> p (out @ rest) 0 = Inr (v, length out)"
  unfolding creads_def by (drule spec [where x = "[]"]) simp

lemma creads_return: "creads (cu_return v) [] v"
  by (simp add: creads_def cu_return_def)

lemma creads_bind: "creads p a v \<Longrightarrow> creads (f v) b w \<Longrightarrow> creads (cu_bind p f) (a @ b) w"
  unfolding creads_def cu_bind_def
proof (intro allI impI)
  fix pre rest :: bytes
  assume p: "\<forall>pre rest. length pre + length a \<le> u64_max \<longrightarrow> p (pre @ a @ rest) (length pre) = Inr (v, length pre + length a)"
    and f: "\<forall>pre rest. length pre + length b \<le> u64_max \<longrightarrow> f v (pre @ b @ rest) (length pre) = Inr (w, length pre + length b)"
    and fits: "length pre + length (a @ b) \<le> u64_max"
  from p fits have "p (pre @ a @ b @ rest) (length pre) = Inr (v, length pre + length a)" by simp
  moreover from f [rule_format, of "pre @ a" rest] fits
  have "f v (pre @ a @ b @ rest) (length pre + length a) = Inr (w, length pre + length (a @ b))" by (simp add: add.assoc)
  ultimately show "(case p (pre @ (a @ b) @ rest) (length pre) of Inl e \<Rightarrow> Inl e | Inr (c, pos) \<Rightarrow> f c (pre @ (a @ b) @ rest) pos)
      = Inr (w, length pre + length (a @ b))"
    by simp
qed

lemma creads_map: "creads p out v \<Longrightarrow> f v = cu_return w \<Longrightarrow> creads (cu_bind p f) out w"
  using creads_bind [of p out v f "[]" w] creads_return [of w] by simp

lemma creads_take: "length out = n \<Longrightarrow> creads (cu_take n) out out"
  by (auto simp: creads_def cu_take_def)

lemma creads_int: "v < 256 ^ n \<Longrightarrow> creads (cu_int n) (le n v) v"
  unfolding cu_int_def by (rule creads_map [OF creads_take]) (simp_all add: le_def of_le_def of_be_be)

lemma creads_u64: "v \<le> u64_max \<Longrightarrow> creads (cu_int 8) (le 8 v) v"
  by (rule creads_int) simp

lemma creads_u32: "v \<le> u32_max \<Longrightarrow> creads (cu_int 4) (le 4 v) v"
  by (rule creads_int) simp

lemma creads_byte: "creads (cu_int 1) [b] (unat b)"
  unfolding cu_int_def by (rule creads_map [OF creads_take]) (simp_all add: of_le_def of_be_def)

lemma creads_str:
  assumes "put_text s = Inr out" "valid_str s"
  shows "creads cu_str out s"
proof -
  have out: "out = le 2 (length (utf8 s)) @ utf8 s" and len: "length (utf8 s) < 256 ^ 2"
    using assms(1) by (auto simp: put_text_def split: if_splits)
  have "creads (cu_text (length (utf8 s))) (utf8 s) s"
    unfolding cu_text_def by (rule creads_map [OF creads_take]) (simp_all add: from_utf8_utf8 [OF assms(2)])
  then show ?thesis unfolding cu_str_def out by (rule creads_bind [OF creads_int [OF len]])
qed

definition blob_ok :: "blob_ref \<Rightarrow> bool" where
  "blob_ok b \<longleftrightarrow> length (br_key b) = 32 \<and> br_len b \<le> u64_max"

lemma creads_blob: "blob_ok b \<Longrightarrow> creads cu_blob (br_key b @ le 8 (br_len b)) b"
  unfolding cu_blob_def blob_ok_def
  by (cases b; intro creads_bind [OF creads_take] creads_map [OF creads_u64]) simp_all

lemma creads_blobs: "list_all blob_ok bs \<Longrightarrow> creads (cu_blobs (length bs)) (concat (map (\<lambda>b. br_key b @ le 8 (br_len b)) bs)) bs"
proof (induction bs)
  case (Cons b bs)
  then have "creads (cu_bind cu_blob (\<lambda>b. cu_bind (cu_blobs (length bs)) (\<lambda>bs. cu_return (b # bs))))
      ((br_key b @ le 8 (br_len b)) @ concat (map (\<lambda>b. br_key b @ le 8 (br_len b)) bs)) (b # bs)"
    by (intro creads_bind [OF creads_blob] creads_map [OF Cons.IH]) simp_all
  then show ?case by simp
qed (simp add: creads_return)

section \<open>Records\<close>

definition payload_storable :: "payload \<Rightarrow> bool" where
  "payload_storable p \<longleftrightarrow> (case p of
       EmptyPayload \<Rightarrow> True
     | Inline digest content \<Rightarrow> length content \<le> u32_max
     | DigestOnly digest n \<Rightarrow> length digest = 32 \<and> n \<le> u64_max
     | BlobPayload b \<Rightarrow> blob_ok b)"

text \<open>The digest of an inline payload is not stored but computed again.\<close>

definition payload_stored :: "(bytes \<Rightarrow> bytes) \<Rightarrow> payload \<Rightarrow> payload" where
  "payload_stored sha p = (case p of Inline digest content \<Rightarrow> Inline (sha content) content | _ \<Rightarrow> p)"

lemma creads_payload:
  assumes "payload_storable p"
  shows "creads (parse_payload sha) (put_payload p) (payload_stored sha p)"
proof -
  have tag: "creads (cu_bind (cu_take 1) f) (b # out) v" if "creads (f [b]) out v" for f b out and v :: 'b
    using creads_bind [of "cu_take 1" "[b]" "[b]" f out v] creads_take [of "[b]" 1] that by simp
  show ?thesis
  proof (cases p)
    case EmptyPayload
    show ?thesis unfolding parse_payload_def Let_def EmptyPayload put_payload.simps
      by (intro tag) (simp add: creads_return payload_stored_def)
  next
    case (Inline digest content)
    have "creads (cu_bind (cu_int 4) (\<lambda>n. cu_bind (cu_take n) (\<lambda>content. cu_return (Inline (sha content) content))))
      (le 4 (length content mod 4294967296) @ content) (Inline (sha content) content)"
      using assms Inline by (intro creads_bind [OF creads_u32] creads_map [OF creads_take]) (simp_all add: payload_storable_def)
    then show ?thesis unfolding parse_payload_def Let_def Inline put_payload.simps
      by (intro tag) (simp add: payload_stored_def)
  next
    case (DigestOnly digest n)
    have "creads (cu_bind (cu_take 32) (\<lambda>digest. cu_bind (cu_int 8) (\<lambda>n. cu_return (DigestOnly digest n))))
      (digest @ le 8 n) (DigestOnly digest n)"
      using assms DigestOnly by (intro creads_bind [OF creads_take] creads_map [OF creads_u64]) (simp_all add: payload_storable_def)
    then show ?thesis unfolding parse_payload_def Let_def DigestOnly put_payload.simps
      by (intro tag) (simp add: payload_stored_def)
  next
    case (BlobPayload b)
    have "creads (cu_bind cu_blob (\<lambda>blob. cu_return (BlobPayload blob))) (br_key b @ le 8 (br_len b)) (BlobPayload b)"
      using assms BlobPayload by (intro creads_map [OF creads_blob]) (simp_all add: payload_storable_def)
    then show ?thesis unfolding parse_payload_def Let_def BlobPayload put_payload.simps
      by (intro tag) (simp add: payload_stored_def)
  qed
qed

definition record_storable :: "call_record \<Rightarrow> bool" where
  "record_storable r \<longleftrightarrow> rc_seq r \<le> u64_max \<and> valid_str (rc_interface r) \<and> valid_str (rc_function r) \<and>
     payload_storable (rc_args r) \<and> payload_storable (rc_result r)"

text \<open>Time stamps are kept to the millisecond, durations to the microsecond.\<close>

definition record_stored :: "(bytes \<Rightarrow> bytes) \<Rightarrow> call_record \<Rightarrow> call_record" where
  "record_stored sha r = r\<lparr>rc_ts := from_millis (millis (rc_ts r)), rc_duration := min (rc_duration r div 1000) u32_max * 1000,
     rc_args := payload_stored sha (rc_args r), rc_result := payload_stored sha (rc_result r)\<rparr>"

lemma millis_le: "millis ts \<le> u64_max"
  by (simp add: millis_def)

lemma creads_record:
  assumes "encode_record r = Inr out" "record_storable r"
  shows "creads (parse_record sha) out (record_stored sha r)"
proof -
  obtain i f where parts: "put_text (rc_interface r) = Inr i" "put_text (rc_function r) = Inr f"
    and out: "out = le 8 (rc_seq r) @ le 8 (millis (rc_ts r)) @ le 4 (min (rc_duration r div 1000) u32_max) @
      i @ f @ put_payload (rc_args r) @ put_payload (rc_result r)"
    using assms(1) by (auto simp: encode_record_def res_bind_def split: sum.splits)
  note ok = assms(2) [unfolded record_storable_def]
  show ?thesis
    unfolding parse_record_def out
    using ok by (intro creads_bind [OF creads_u64] creads_bind [OF creads_u32] creads_bind [OF creads_str [OF parts(1)]]
        creads_bind [OF creads_str [OF parts(2)]] creads_bind [OF creads_payload] creads_map [OF creads_payload])
      (simp_all add: millis_le record_stored_def, cases r, simp)
qed

section \<open>The header\<close>

definition stored_config :: "ring_config \<Rightarrow> ring_config" where
  "stored_config cfg = cfg\<lparr>cf_max_age := duration_millis (cf_max_age cfg) * 1000000\<rparr>"

definition stored_header :: "ring_config \<Rightarrow> nat \<Rightarrow> nat \<Rightarrow> nat \<Rightarrow> bytes \<Rightarrow> str \<Rightarrow> str \<Rightarrow> blob_ref list \<Rightarrow> replay_header" where
  "stored_header cfg created records body_len body_sha trigger label blobs =
     \<lparr>hd_version = 1, hd_flags = 0, hd_created = from_millis created, hd_records = records, hd_body_len = body_len,
      hd_body_sha = body_sha, hd_trigger = trigger_parse trigger, hd_label = label, hd_blobs = blobs,
      hd_ring = stored_config cfg\<rparr>"

lemma creads_version: "creads cu_version (le 2 FORMAT_VERSION) 1"
  unfolding cu_version_def by (rule creads_map [OF creads_int]) (simp_all add: FORMAT_VERSION_def)

lemma creads_flags: "creads cu_flags (le 2 FLAG_KNOWN) 0"
  unfolding cu_flags_def by (rule creads_map [OF creads_int]) (simp_all add: FLAG_KNOWN_def)

lemma length_blob_table: "list_all blob_ok bs \<Longrightarrow> length (concat (map (\<lambda>b. br_key b @ le 8 (br_len b)) bs)) = 40 * length bs"
  by (induction bs) (simp_all add: blob_ok_def)

lemma creads_blob_table:
  assumes "list_all blob_ok bs" "length bs \<le> u32_max"
  shows "creads cu_blob_table (le 4 (wrap32 (length bs)) @ concat (map (\<lambda>b. br_key b @ le 8 (br_len b)) bs)) bs"
  unfolding cu_blob_table_def
proof (rule creads_bind)
  show "creads (cu_int 4) (le 4 (wrap32 (length bs))) (length bs)"
    using creads_u32 [OF assms(2)] assms(2) by (simp add: wrap32_id)
  let ?t = "concat (map (\<lambda>b. br_key b @ le 8 (br_len b)) bs)"
  show "creads (\<lambda>x pos. if sat_mul64 (length bs) 40 > length x - pos then Inl (CorruptReplay BlobTableTooLarge)
      else cu_blobs (length bs) x pos) ?t bs"
    using creads_blobs [OF assms(1)] length_blob_table [OF assms(1)] assms(2) by (simp add: creads_def sat_mul64_def)
qed

lemma creads_header:
  assumes "put_text trigger = Inr tr" "put_text label = Inr la" "valid_str trigger" "valid_str label"
    "list_all blob_ok blobs" "length blobs \<le> u32_max" "length body_sha = 32" "created \<le> u64_max" "records \<le> u64_max"
    "body_len \<le> u64_max" "cf_max_bytes cfg \<le> u64_max" "cf_blob_threshold cfg \<le> u64_max"
  shows "creads read_header (header_bytes cfg created records body_len body_sha tr la blobs)
    (stored_header cfg created records body_len body_sha trigger label blobs)"
proof -
  have age: "duration_millis (cf_max_age cfg) \<le> u64_max" by (simp add: duration_millis_def)
  have magic: "length REPLAY_MAGIC = 8" by (simp add: REPLAY_MAGIC_def lit_def utf8_def utf8_char_def)
  show ?thesis
    unfolding read_header_def header_bytes_def
    apply (rule creads_bind [OF creads_take [OF magic]])
    unfolding if_not_P [OF iffD2 [OF not_not refl]]
    by (intro creads_bind [OF creads_version] creads_bind [OF creads_flags] creads_bind [OF creads_u64]
        creads_bind [OF creads_take [OF assms(7)]] creads_bind [OF creads_byte] creads_bind [OF creads_str [OF assms(1,3)]]
        creads_bind [OF creads_str [OF assms(2,4)]] creads_map [OF creads_blob_table [OF assms(5,6)]] assms age)
       (cases cfg, simp add: stored_header_def stored_config_def)
qed

section \<open>Loading\<close>

lemma read_all_back:
  assumes "encode_records rs = Inr out" "list_all record_storable rs" "length out \<le> u64_max"
    "rd_body rd = pre @ out" "rd_pos rd = length pre" "\<not> rd_failed rd" "hd_records (rd_header rd) = rd_read rd + length rs"
  shows "read_all sha (Suc (length rs)) rd = Inr (map (record_stored sha) rs)"
  using assms
proof (induction rs arbitrary: out pre rd)
  case Nil
  then show ?case by (simp add: next_record_def)
next
  case (Cons r rs)
  obtain b bs where parts: "encode_record r = Inr b" "encode_records rs = Inr bs" "out = b @ bs"
    using Cons.prems(1) by (auto simp: res_bind_def split: sum.splits)
  have "creads (parse_record sha) b (record_stored sha r)"
    using Cons.prems(2) parts(1) by (intro creads_record) simp_all
  then have "parse_record sha (b @ bs) 0 = Inr (record_stored sha r, length b)"
    by (rule creadsD) (use Cons.prems(3) parts(3) in simp)
  then have step: "next_record sha rd =
      (Inr (Some (record_stored sha r)), rd\<lparr>rd_pos := rd_pos rd + length b, rd_read := rd_read rd + 1\<rparr>)"
    using Cons.prems(4-7) parts(3) by (simp add: next_record_def)
  have "read_all sha (Suc (length rs)) (rd\<lparr>rd_pos := rd_pos rd + length b, rd_read := rd_read rd + 1\<rparr>) =
      Inr (map (record_stored sha) rs)"
    by (rule Cons.IH [OF parts(2), of _ "pre @ b"]) (use Cons.prems parts(3) in simp_all)
  then show ?case using step by (simp add: res_bind_def)
qed

lemma load_saved:
  assumes rs: "encode_records rs = Inr body" "list_all record_storable rs" "length rs \<le> u64_max" "length body \<le> u64_max"
    and head: "put_text trigger = Inr tr" "put_text label = Inr la" "valid_str trigger" "valid_str label"
      "list_all blob_ok blobs" "length blobs \<le> u32_max" "length (sha body) = 32" "created \<le> u64_max"
      "cf_max_bytes cfg \<le> u64_max" "cf_blob_threshold cfg \<le> u64_max"
    and z: "zd z = Inr body" "z \<noteq> []"
    and fits: "length (header_bytes cfg created (length rs) (length body) (sha body) tr la blobs) \<le> u64_max"
  shows "replay_load sha zd (header_bytes cfg created (length rs) (length body) (sha body) tr la blobs @ z) =
    Inr \<lparr>rp_header = stored_header cfg created (length rs) (length body) (sha body) trigger label blobs,
         rp_records = map (record_stored sha) rs\<rparr>"
proof -
  let ?h = "header_bytes cfg created (length rs) (length body) (sha body) tr la blobs"
    and ?H = "stored_header cfg created (length rs) (length body) (sha body) trigger label blobs"
  have "read_header (?h @ z) 0 = Inr (?H, length ?h)"
    by (rule creadsD [OF creads_header fits]) (use rs head in simp_all)
  then have "reader_from_bytes sha zd (?h @ z) =
      Inr \<lparr>rd_header = ?H, rd_body = body, rd_pos = 0, rd_read = 0, rd_failed = False\<rparr>"
    using z by (simp add: reader_from_bytes_def res_bind_def stored_header_def)
  moreover have "read_all sha (Suc (length rs)) \<lparr>rd_header = ?H, rd_body = body, rd_pos = 0, rd_read = 0, rd_failed = False\<rparr> =
      Inr (map (record_stored sha) rs)"
    by (rule read_all_back [OF rs(1,2,4), where pre = "[]"]) (simp_all add: stored_header_def)
  ultimately show ?thesis
    unfolding replay_load_def by (simp add: reader_remaining_def res_bind_def stored_header_def del: read_all.simps)
qed

section \<open>Names\<close>

definition nth_name :: "str \<Rightarrow> nat \<Rightarrow> str" where
  "nth_name stem n = (if n = 1 then stem @ lit ''.wrz'' else stem @ lit ''-'' @ dec n @ lit ''.wrz'')"

lemma nth_name_inj: "nth_name stem a = nth_name stem b \<longleftrightarrow> a = b"
  by (auto simp: nth_name_def lit_def dec_inj)

lemma free_name_step: "free_name (Suc fuel) d stem n =
    (if dir_exists (nth_name stem n) d then free_name fuel d stem (n + 1) else Some (nth_name stem n))"
  by (simp add: nth_name_def Let_def)

declare free_name.simps(2) [simp del]

lemma free_name_Some: "free_name fuel d stem n = Some name \<Longrightarrow> \<not> dir_exists name d \<and> (\<exists>m < n + fuel. name = nth_name stem m)"
proof (induction fuel arbitrary: n)
  case (Suc fuel)
  show ?case
  proof (cases "dir_exists (nth_name stem n) d")
    case True
    then show ?thesis using Suc.IH [of "n + 1"] Suc.prems by (simp add: free_name_step)
  next
    case False
    then have "name = nth_name stem n" using Suc.prems by (simp add: free_name_step)
    then show ?thesis using False by (intro conjI exI [of _ n]) simp_all
  qed
qed simp

lemma free_name_None: "free_name fuel d stem n = None \<Longrightarrow> n \<le> m \<Longrightarrow> m < n + fuel \<Longrightarrow> dir_exists (nth_name stem m) d"
proof (induction fuel arbitrary: n)
  case (Suc fuel)
  then show ?case by (cases "m = n") (auto simp: free_name_step split: if_splits)
qed simp

lemma file_name_free: "\<exists>name. file_name d opts ms = Some name \<and> \<not> dir_exists name d \<and>
    (\<exists>m \<le> Suc (length (dk_files (bd_disk d))). name = nth_name (name_stem opts ms) m)"
proof (cases "file_name d opts ms")
  case None
  let ?n = "length (dk_files (bd_disk d))" and ?f = "nth_name (name_stem opts ms)"
  have "?f ` {1..?n + 1} \<subseteq> fst ` set (dk_files (bd_disk d))"
  proof
    fix x assume "x \<in> ?f ` {1..?n + 1}"
    then obtain m where "x = ?f m" "1 \<le> m" "m < 1 + Suc ?n" by auto
    then have "dir_exists x d" using free_name_None [OF None [unfolded file_name_def]] by simp
    then show "x \<in> fst ` set (dk_files (bd_disk d))"
      by (auto simp: dir_exists_def fs_is_file_def dest!: map_of_SomeD intro: rev_image_eqI)
  qed
  then have "card (?f ` {1..?n + 1}) \<le> card (fst ` set (dk_files (bd_disk d)))" by (rule card_mono [rotated]) simp
  also have "\<dots> \<le> ?n" using card_image_le [of "set (dk_files (bd_disk d))" fst] card_length [of "dk_files (bd_disk d)"] by simp
  finally show ?thesis by (simp add: card_image inj_on_def nth_name_inj)
next
  case (Some name)
  from free_name_Some [OF this [unfolded file_name_def]] Some show ?thesis by (auto simp: less_Suc_eq_le)
qed

definition name_char :: "rchar \<Rightarrow> bool" where
  "name_char c \<longleftrightarrow> is_alnum c \<or> c = 45"

lemma sanitize_chars: "list_all name_char out \<Longrightarrow> list_all name_char (sanitize_loop s out ld)"
  by (induction s out ld rule: sanitize_loop.induct) (auto simp: Let_def name_char_def)

lemma sanitize_name_ok: "list_all name_char (sanitize_name s) \<and> length (sanitize_name s) \<le> 40"
proof -
  have "list_all name_char (take n xs)" "list_all name_char (rev (dropWhile p (rev xs)))" if "list_all name_char xs" for n p xs
    using that by (auto simp: list_all_iff dest: in_set_takeD set_dropWhileD)
  then show ?thesis unfolding sanitize_name_def using sanitize_chars [of "[]"] by simp
qed

lemma dec_chars: "list_all name_char (dec n) \<and> dec n \<noteq> []"
proof (induction n rule: dec.induct)
  case (1 n)
  have digit: "name_char (48 + k)" if "k < 10" for k using that by (simp add: name_char_def is_alnum_def)
  show ?case using 1 digit [of n] digit [of "n mod 10"] by (subst (1 2) dec.simps) auto
qed

lemma dec_length: "n < 10 ^ k \<Longrightarrow> 0 < k \<Longrightarrow> length (dec n) \<le> k"
proof (induction n arbitrary: k rule: dec.induct)
  case (1 n)
  show ?case
  proof (cases "n < 10")
    case False
    then obtain j where k: "k = Suc j" "0 < j" using 1(2,3) by (cases k; cases "k - 1") auto
    have "n div 10 < 10 ^ j" using 1(2) k by (simp add: less_mult_imp_div_less mult.commute)
    then show ?thesis using 1(1) [OF False, of j] k False by (subst dec.simps) simp
  qed (use 1(3) in \<open>subst dec.simps, simp\<close>)
qed

lemma sublist_dots: "46 \<notin> set a \<Longrightarrow> sublist [46, 46] (a @ 46 # r) \<Longrightarrow> prefix [46 :: nat] r \<or> sublist [46, 46] r"
  by (induction a) (auto simp: sublist_Cons_right)

lemma no_dots: "46 \<notin> set a \<Longrightarrow> \<not> sublist [46, 46 :: nat] a"
  by (auto simp: sublist_def)

lemma dots_apart: "46 \<notin> set a \<Longrightarrow> r \<noteq> [] \<Longrightarrow> hd r \<noteq> (46 :: nat) \<Longrightarrow> \<not> sublist [46, 46] r \<Longrightarrow> \<not> sublist [46, 46] (a @ 46 # r)"
  using sublist_dots [of a r] by (cases r) auto

lemma name_char_facts: "name_char c \<Longrightarrow> c < 128 \<and> c \<noteq> 46"
  by (auto simp: name_char_def is_alnum_def)

lemma pieces_no_dots: "list_all name_char s \<Longrightarrow> 46 \<notin> set s"
  using name_char_facts by (auto simp: list_all_iff)

lemma name_stem_pieces: "\<exists>a b. name_stem opts ms = a @ [46] @ b @ [46] @ dec ms \<and> list_all name_char a \<and> list_all name_char b \<and>
    a \<noteq> [] \<and> b \<noteq> [] \<and> length a \<le> 40 \<and> length b \<le> 40"
proof -
  have d: "list_all name_char (lit ''replay'')" "list_all name_char (lit ''other'')" "length (lit ''replay'') = 6" "length (lit ''other'') = 5"
    "lit ''replay'' \<noteq> []" "lit ''other'' \<noteq> []" "lit ''.'' = [46]"
    by (simp_all add: lit_def name_char_def is_alnum_def)
  show ?thesis
    unfolding name_stem_def Let_def d(7)
    using sanitize_name_ok [of "so_label opts"] sanitize_name_ok [of "trigger_as_str (so_trigger opts)"] d
    by (intro exI conjI) (rule refl, auto)
qed

lemma valid_nth_name:
  assumes "ms \<le> u64_max" "m \<le> u64_max"
  shows "dir_valid_name (nth_name (name_stem opts ms) m)"
proof -
  obtain a b where stem: "name_stem opts ms = a @ [46] @ b @ [46] @ dec ms" and ok: "list_all name_char a" "list_all name_char b"
    "a \<noteq> []" "b \<noteq> []" "length a \<le> 40" "length b \<le> 40"
    using name_stem_pieces by blast
  let ?c = "dec ms @ (if m = 1 then [] else [45] @ dec m)"
  let ?w = "[119, 114, 122] :: str"
  have name: "nth_name (name_stem opts ms) m = a @ 46 # b @ 46 # ?c @ 46 # ?w"
    by (simp add: nth_name_def stem lit_def)
  have c: "list_all name_char ?c" "?c \<noteq> []" "length ?c \<le> 41"
    using dec_chars [of ms] dec_chars [of m] dec_length [of ms 20] dec_length [of m 20] assms
    by (auto simp: name_char_def)
  have chars: "\<forall>x \<in> set (nth_name (name_stem opts ms) m). name_char x \<or> x = 46"
    unfolding name using ok c(1) by (auto simp: list_all_iff name_char_def is_alnum_def)
  have ascii: "ascii (nth_name (name_stem opts ms) m)" using chars name_char_facts by (auto simp: ascii_def)
  have nodot: "46 \<notin> set a" "46 \<notin> set b" "46 \<notin> set ?c" using pieces_no_dots ok c by auto
  have "\<not> sublist [46, 46] (?c @ 46 # ?w)" by (rule dots_apart [OF nodot(3)]) (simp_all add: no_dots)
  moreover have "hd (?c @ 46 # ?w) \<noteq> 46" using c(2) nodot(3) hd_in_set [OF c(2)] by (metis hd_append2)
  ultimately have "\<not> sublist [46, 46] (b @ 46 # ?c @ 46 # ?w)" by (intro dots_apart [OF nodot(2)]) simp_all
  moreover have "hd (b @ 46 # ?c @ 46 # ?w) \<noteq> 46" using ok(4) nodot(2) by (cases b) auto
  ultimately have dots: "\<not> sublist [46, 46] (nth_name (name_stem opts ms) m)"
    unfolding name by (intro dots_apart [OF nodot(1)]) simp_all
  have len: "length (nth_name (name_stem opts ms) m) \<le> 200"
    unfolding name using ok(5,6) c(3) by simp
  have ends: "\<not> suffix PIN_SUFFIX (nth_name (name_stem opts ms) m)" "\<not> suffix TMP_SUFFIX (nth_name (name_stem opts ms) m)"
    unfolding name PIN_SUFFIX_def TMP_SUFFIX_def by (auto simp: lit_def suffix_def append_eq_append_conv2 dest!: arg_cong [where f = rev])
  have front: "nth_name (name_stem opts ms) m \<noteq> []" "\<not> prefix [46] (nth_name (name_stem opts ms) m)"
    unfolding name using ok(3) nodot(1) by (cases a, auto)+
  have "is_alnum (unat (of_nat x :: byte)) \<or> of_nat x = (45 :: byte) \<or> of_nat x = (95 :: byte) \<or> of_nat x = (46 :: byte)"
    if "x \<in> set (nth_name (name_stem opts ms) m)" for x
    using chars that ascii by (auto simp: name_char_def ascii_def unat_ascii)
  then show ?thesis
    using dots len ends front ascii
    by (simp add: dir_valid_name_def MAX_NAME_def utf8_ascii lit_def list_all_iff)
qed

section \<open>Saving\<close>

text \<open>A write that returns wrote, whatever happened before.\<close>

lemma write_content:
  "ends (write_stamped pid name content ts)
     (\<lambda>_ d'. bm_get (dir_files d') name = Some \<lparr>f_bytes = content, f_mtime = ts\<rparr> \<and> dir_valid_name name) (\<lambda>_ _. True) d"
proof (cases "dir_valid_name name")
  case True
  have put: "ends (b_then (put_file pid name content ts) (\<lambda>_. observe_threshold))
     (\<lambda>_ d'. bm_get (dir_files d') name = Some \<lparr>f_bytes = content, f_mtime = ts\<rparr> \<and> dir_valid_name name) (\<lambda>_ _. True) d'" for d'
    unfolding ends_then by (rule ends_put_file) (simp_all add: ends_observe True)
  show ?thesis
    unfolding write_stamped_def if_not_P [OF iffD2 [OF not_not True]] Let_def
    apply (rule ends_step)
    subgoal for a
      apply (cases a)
      apply (simp only: case_prod_conv)
      apply (rule ends_step, rule ends_step, rule ends_step, rule put)
      done
    done
qed (simp add: write_stamped_def ends_simps)

lemma take_refs_ends:
  assumes "\<And>ms s'. snd s' = snd s \<Longrightarrow> P (blobs @ map (\<lambda>k. \<lparr>br_key = k, br_len = record_len_of_blob rs k\<rparr>) ks, ms) s'"
  shows "ends (take_refs clock rs ks blobs missing) P (\<lambda>_ _. True) s"
  using assms
proof (induction ks arbitrary: blobs missing s P)
  case Nil
  then show ?case by (simp add: ends_simps)
next
  case (Cons key ks)
  have next_one: "ends (take_refs clock rs ks (blobs @ [\<lparr>br_key = key, br_len = record_len_of_blob rs key\<rparr>]) ms) P (\<lambda>_ _. True) s'"
    if "snd s' = snd s" for ms s'
    using Cons.prems that by (intro Cons.IH) simp
  show ?case
    unfolding take_refs.simps Let_def ends_simps on_ring_def
    using next_one by (auto intro!: ends_any simp: ends_simps)
qed

lemma pin_ends:
  assumes "bm_get (dir_files d) name = Some f"
  shows "ends (dir_pin name clock) (\<lambda>_ d'. bm_get (dir_files d') name = Some f) (\<lambda>_ _. True) d"
proof -
  have "name \<noteq> pin_marker name" by (simp add: pin_marker_def PIN_SUFFIX_def lit_def)
  then show ?thesis
    using assms unfolding dir_pin_def ends_simps fs_write_def
    by (auto intro!: ends_dir_do) (drule sym, simp)
qed

lemma write_and_pin:
  "ends (b_then (on_dir (write_stamped pid name file now)) (\<lambda>_.
       b_then (if pin then on_dir (dir_pin name clock) else b_return ()) (\<lambda>_. b_return saved)))
     (\<lambda>v s'. v = saved \<and> bm_get (dir_files (snd s')) name = Some \<lparr>f_bytes = file, f_mtime = now\<rparr>) (\<lambda>_ _. True) s"
proof (cases s)
  case (Pair r d)
  show ?thesis
    unfolding Pair ends_simps on_dir_def snd_conv fst_conv
    by (rule ends_mono [OF write_content]) (auto simp: ends_simps intro!: ends_mono [OF pin_ends])
qed

text \<open>The parts of the file a save wrote.\<close>

definition saved_as :: "(bytes \<Rightarrow> bytes) \<Rightarrow> (bytes \<Rightarrow> str + bytes) \<Rightarrow> save_options \<Rightarrow> int \<Rightarrow> ring \<Rightarrow> bytes \<Rightarrow> bool" where
  "saved_as sha zc opts now r file \<longleftrightarrow> (\<exists>body z tr la. encode_records (rg_records r) = Inr body \<and> zc body = Inr z \<and>
     put_text (trigger_as_str (so_trigger opts)) = Inr tr \<and> put_text (so_label opts) = Inr la \<and>
     file = header_bytes (rg_cfg r) (millis now) (length (rg_records r)) (length body) (sha body) tr la
       (map (\<lambda>k. \<lparr>br_key = k, br_len = record_len_of_blob (rg_records r) k\<rparr>) (referenced_blobs (rg_records r))) @ z)"

lemma save_ends:
  "ends (replay_save sha zc pid clock opts now)
     (\<lambda>saved s'. Some (sv_name saved) = file_name d opts (millis now) \<and>
        (\<exists>f. bm_get (dir_files (snd s')) (sv_name saved) = Some f \<and> saved_as sha zc opts now r (f_bytes f)))
     (\<lambda>_ _. True) (r, d)"
proof -
  obtain name where name: "file_name d opts (millis now) = Some name" using file_name_free by blast
  show ?thesis
    unfolding replay_save_def
    apply (simp only: ends_then [of "b_query _"] ends_query case_prod_conv fst_conv)
    apply (rule ends_result_step)
    apply (simp only: ends_then [of "take_refs _ _ _ _ _"])
    apply (rule take_refs_ends)
    apply (simp only: case_prod_conv append_Nil)
    apply (rule ends_result_step, rule ends_result_step, rule ends_result_step)
    apply (simp only: Let_def ends_then [of "b_query _"] ends_query snd_conv name option.sel)
    apply (rule ends_mono [OF write_and_pin])
     apply (fastforce simp: saved_as_def split: sum.splits)
    apply simp
    done
qed

section \<open>Saved and loaded\<close>

lemma length_put_text: "put_text s = Inr out \<Longrightarrow> length out \<le> 65537"
  by (auto simp: put_text_def split: if_splits)

lemma length_put_payload: "payload_storable p \<Longrightarrow> length (put_payload p) \<le> 4294967300"
  by (cases p) (auto simp: payload_storable_def blob_ok_def)

lemma length_encode_record:
  assumes "encode_record r = Inr out" "record_storable r"
  shows "length out \<le> 8590065694"
proof -
  obtain i f where parts: "put_text (rc_interface r) = Inr i" "put_text (rc_function r) = Inr f"
    and out: "out = le 8 (rc_seq r) @ le 8 (millis (rc_ts r)) @ le 4 (min (rc_duration r div 1000) u32_max) @
      i @ f @ put_payload (rc_args r) @ put_payload (rc_result r)"
    using assms(1) by (auto simp: encode_record_def res_bind_def split: sum.splits)
  show ?thesis
    using length_put_text [OF parts(1)] length_put_text [OF parts(2)] length_put_payload [of "rc_args r"]
      length_put_payload [of "rc_result r"] assms(2) unfolding out record_storable_def by simp
qed

lemma length_encode_records:
  "encode_records rs = Inr out \<Longrightarrow> list_all record_storable rs \<Longrightarrow> length out \<le> 8590065694 * length rs"
proof (induction rs arbitrary: out)
  case (Cons r rs)
  obtain b bs where parts: "encode_record r = Inr b" "encode_records rs = Inr bs" "out = b @ bs"
    using Cons.prems(1) by (auto simp: res_bind_def split: sum.splits)
  show ?case using length_encode_record [OF parts(1)] Cons.IH [OF parts(2)] Cons.prems(2) parts(3) by simp
qed simp

lemma length_header:
  assumes "put_text t = Inr tr" "put_text l = Inr la" "length sh = 32" "list_all blob_ok blobs"
  shows "length (header_bytes cfg c n m sh tr la blobs) \<le> 200000 + 40 * length blobs"
  using length_put_text [OF assms(1)] length_put_text [OF assms(2)] assms(3) length_blob_table [OF assms(4)]
  by (simp add: header_bytes_def REPLAY_MAGIC_def lit_def utf8_def utf8_char_def)

text \<open>The blob table of a file names the blobs of its records.\<close>

lemma referenced_blobs_alt: "referenced_blobs rs = remdups_adj (sort (held_keys rs))"
  by (simp add: referenced_blobs_def payload_keys_def record_payloads_def)

lemma length_remdups_adj_le: "length (remdups_adj xs) \<le> length xs"
  by (induction xs rule: remdups_adj.induct) auto

lemma referenced_set: "set (referenced_blobs rs) = set (held_keys rs)" "length (referenced_blobs rs) \<le> 2 * length rs"
proof -
  show "set (referenced_blobs rs) = set (held_keys rs)" by (simp add: referenced_blobs_alt)
  have "length (referenced_blobs rs) \<le> length (held_keys rs)"
    unfolding referenced_blobs_alt using length_remdups_adj_le [of "sort (held_keys rs)"] by simp
  also have "\<dots> \<le> 2 * length rs" using length_payload_keys [of "record_payloads rs"] by (simp add: length_record_payloads)
  finally show "length (referenced_blobs rs) \<le> 2 * length rs" .
qed

lemma payload_blob_iff: "payload_blob p = Some b \<longleftrightarrow> p = BlobPayload b"
  by (cases p) auto

lemma held_payload: "k \<in> set (held_keys rs) \<Longrightarrow> \<exists>b. BlobPayload b \<in> set (record_payloads rs) \<and> br_key b = k"
proof -
  assume "k \<in> set (held_keys rs)"
  then obtain p b where "p \<in> set (record_payloads rs)" "payload_blob p = Some b" "br_key b = k"
    by (auto simp: payload_keys_def map_filter_def split: option.splits)
  then show ?thesis by (auto simp: payload_blob_iff)
qed

lemma storable_payloads: "list_all record_storable rs \<Longrightarrow> p \<in> set (record_payloads rs) \<Longrightarrow> payload_storable p"
  by (induction rs) (auto simp: record_storable_def)

lemma blob_table_ok:
  assumes "list_all record_storable rs"
  shows "list_all blob_ok (map (\<lambda>k. \<lparr>br_key = k, br_len = record_len_of_blob rs k\<rparr>) (referenced_blobs rs))"
proof -
  have "blob_ok \<lparr>br_key = k, br_len = record_len_of_blob rs k\<rparr>" if k: "k \<in> set (held_keys rs)" for k
  proof -
    obtain b where b: "BlobPayload b \<in> set (record_payloads rs)" "br_key b = k" using held_payload [OF k] by blast
    then have "length k = 32" using storable_payloads [OF assms b(1)] by (auto simp: payload_storable_def blob_ok_def)
    moreover have "record_len_of_blob rs k \<le> u64_max"
    proof (cases "find (\<lambda>b. br_key b = k) (List.map_filter payload_blob (record_payloads rs))")
      case None
      then show ?thesis by (simp add: record_len_of_blob_def record_payloads_def)
    next
      case (Some c)
      then have "c \<in> set (List.map_filter payload_blob (record_payloads rs))" by (auto simp: find_Some_iff)
      then obtain p where p: "p \<in> set (record_payloads rs)" "payload_blob p = Some c"
        by (auto simp: map_filter_def split: option.splits)
      then have "p = BlobPayload c" by (simp add: payload_blob_iff)
      then have "blob_ok c" using storable_payloads [OF assms p(1)] by (simp add: payload_storable_def)
      then show ?thesis using Some by (simp add: record_len_of_blob_def record_payloads_def blob_ok_def)
    qed
    ultimately show ?thesis by (simp add: blob_ok_def)
  qed
  then show ?thesis by (simp add: list_all_iff referenced_set)
qed

lemma stored_blob [simp]: "payload_blob (payload_stored sha p) = payload_blob p"
  by (cases p) (simp_all add: payload_stored_def)

lemma verify_saved:
  assumes "hd_records h = length rs" "map br_key (hd_blobs h) = referenced_blobs rs"
  shows "replay_verify \<lparr>rp_header = h, rp_records = map (record_stored sha) rs\<rparr> = Inr ()"
proof -
  have keys: "br_key ` set (hd_blobs h) = set (held_keys rs)" using assms(2) referenced_set(1) by (metis set_map)
  have "\<exists>b' \<in> set (hd_blobs h). br_key b' = br_key b" if "p \<in> set (record_payloads rs)" "payload_blob p = Some b" for p b
  proof -
    have "br_key b \<in> set (held_keys rs)" using that by (force simp: payload_keys_def map_filter_def)
    then show ?thesis unfolding keys [symmetric] by auto
  qed
  then show ?thesis
    using assms(1) unfolding replay_verify_def
    by (fastforce simp: try_all_Inr record_payloads_def record_stored_def list_ex_iff split: option.splits)
qed

lemma load_back:
  assumes saved: "saved_as sha zc opts now r file" and sha: "\<And>x. length (sha x) = 32"
    and zstd: "\<And>b z. zc b = Inr z \<Longrightarrow> zd z = Inr b \<and> z \<noteq> []"
    and ok: "list_all record_storable (rg_records r)" "length (rg_records r) \<le> 2 ^ 30"
      "cf_max_bytes (rg_cfg r) \<le> u64_max" "cf_blob_threshold (rg_cfg r) \<le> u64_max"
      "valid_str (so_label opts)" "valid_str (trigger_as_str (so_trigger opts))"
  shows "\<exists>rp. replay_load sha zd file = Inr rp \<and> rp_records rp = map (record_stored sha) (rg_records r) \<and>
    hd_label (rp_header rp) = so_label opts \<and> hd_trigger (rp_header rp) = trigger_parse (trigger_as_str (so_trigger opts)) \<and>
    hd_created (rp_header rp) = from_millis (millis now) \<and> hd_ring (rp_header rp) = stored_config (rg_cfg r) \<and>
    map br_key (hd_blobs (rp_header rp)) = referenced_blobs (rg_records r) \<and> replay_verify rp = Inr ()"
proof -
  let ?rs = "rg_records r"
  let ?bs = "map (\<lambda>k. \<lparr>br_key = k, br_len = record_len_of_blob ?rs k\<rparr>) (referenced_blobs ?rs)"
  obtain body z tr la where parts: "encode_records ?rs = Inr body" "zc body = Inr z"
    "put_text (trigger_as_str (so_trigger opts)) = Inr tr" "put_text (so_label opts) = Inr la"
    and f: "file = header_bytes (rg_cfg r) (millis now) (length ?rs) (length body) (sha body) tr la ?bs @ z"
    using saved by (auto simp: saved_as_def)
  let ?H = "stored_header (rg_cfg r) (millis now) (length ?rs) (length body) (sha body)
    (trigger_as_str (so_trigger opts)) (so_label opts) ?bs"
  have table: "list_all blob_ok ?bs" by (rule blob_table_ok [OF ok(1)])
  have n: "length ?bs \<le> 2 * length ?rs" using referenced_set(2) by simp
  have body: "length body \<le> u64_max" using length_encode_records [OF parts(1) ok(1)] ok(2) by simp
  have head: "length (header_bytes (rg_cfg r) (millis now) (length ?rs) (length body) (sha body) tr la ?bs) \<le> u64_max"
    by (rule le_trans [OF length_header [OF parts(3,4) sha table]]) (use n ok(2) in simp)
  have "replay_load sha zd file = Inr \<lparr>rp_header = ?H, rp_records = map (record_stored sha) ?rs\<rparr>"
    unfolding f
    by (rule load_saved [where sha = sha, OF parts(1) ok(1) _ body parts(3,4) ok(6,5) table _ sha [of body] millis_le [of now] ok(3,4) _ _ head])
       (use zstd [OF parts(2)] ok(2) n in simp_all)
  moreover have "replay_verify \<lparr>rp_header = ?H, rp_records = map (record_stored sha) ?rs\<rparr> = Inr ()"
    by (rule verify_saved) (simp_all add: stored_header_def comp_def)
  ultimately show ?thesis by (simp add: stored_header_def comp_def)
qed

end
