(* ===== verification/BoundedProperties.thy ===== *)
theory BoundedProperties imports BoundedReplayLaws begin

text \<open>
  What the bounded directory, the blob store, the ring and the replay files promise, each with an
  instance at a concrete state.
\<close>

section \<open>The bounded directory\<close>


definition sample_dir :: bdir where
  "sample_dir = (dir_open \<lparr>dk_files = [(lit ''a.wrz'', \<lparr>f_bytes = [1, 2, 3], f_mtime = 5\<rparr>),
     (lit ''b.wrz'', \<lparr>f_bytes = [4, 5], f_mtime = 9\<rparr>), (lit ''b.wrz.pin'', \<lparr>f_bytes = [], f_mtime = 9\<rparr>)],
     dk_script = []\<rparr> 5)"


text \<open>Expiry removes exactly the unpinned files that are old enough, oldest first, and reports them; on a
  failing disk it may stop early, having removed the first few of them.\<close>

theorem expiry_exact:
  assumes "bm_wf (dir_files d)"
  shows "case dir_expire max_age now d of
      (Inr gone, d') \<Rightarrow> gone = map en_name (old_files max_age now (entries_of (dir_files d))) \<and>
        dir_files d' = drop_files (old_files max_age now (entries_of (dir_files d))) (dir_files d)
    | (Inl e, d') \<Rightarrow> faulty (bd_disk d) \<and>
        (\<exists>k. dir_files d' = drop_files (take k (old_files max_age now (entries_of (dir_files d)))) (dir_files d))"
proof -
  have "ends (dir_expire max_age now)
    (\<lambda>gone d'. gone = map en_name (old_files max_age now (entries_of (dir_files d))) \<and>
        dir_files d' = drop_files (old_files max_age now (entries_of (dir_files d))) (dir_files d))
    (\<lambda>e d'. faulty (bd_disk d) \<and>
        (\<exists>k. dir_files d' = drop_files (take k (old_files max_age now (entries_of (dir_files d)))) (dir_files d))) d"
    by (rule expire_ends [OF assms]) auto
  then show ?thesis by (simp add: ends_def split: prod.splits sum.splits)
qed

section \<open>The ring and its blobs\<close>

text \<open>C24.  After any sequence of events, on any disk, the ring counts its bytes exactly and is within its cap
  unless it holds a single record; the next push either fails and leaves the records alone, or appends
  its record and then drops from the old end what is too old, and no more than the cap takes.\<close>

theorem ring_keeps_newest:
  assumes "\<And>x. length (sha x) = 32" "cfg_ok cfg" "store_inv sha store"
    "r = ring_run sha events (ring_with_blobs cfg store)"
  shows "rg_bytes r = sum_list (map accounted_len (rg_records r)) \<and>
    (rg_bytes r \<le> cf_max_bytes cfg \<or> length (rg_records r) = 1) \<and>
    (case ring_push sha clock call r of
       (Inr seq, r') \<Rightarrow> seq = rg_next_seq r \<and> (\<exists>x. pushed call r x r')
     | (Inl e, r') \<Rightarrow> rg_records r' = rg_records r)"
proof -
  have inv: "ring_inv sha r" unfolding assms(4) by (intro ring_run_inv ring_start_inv assms(1-3))
  have cfg: "rg_cfg r = cfg" unfolding assms(4) ring_run_inv(2) [OF assms(1) ring_start_inv [OF assms(2,3)]]
    by (simp add: ring_with_blobs_def)
  have "ends (ring_push sha clock call) (\<lambda>seq r'. seq = rg_next_seq r \<and> (\<exists>x. pushed call r x r'))
      (\<lambda>e r'. rg_records r' = rg_records r) r"
    by (rule push_ends [OF assms(1) inv]) auto
  then show ?thesis
    using inv cfg by (auto simp: ends_def ring_inv_def holds_def split: prod.splits sum.splits)
qed

definition sample_sha :: "bytes \<Rightarrow> bytes" where
  "sample_sha x = take 32 (x @ replicate 32 0)"

definition sample_config :: ring_config where
  "sample_config = \<lparr>cf_max_bytes = 300, cf_max_age = 1000, cf_blob_threshold = 2, cf_keep_args = True\<rparr>"

definition sample_call :: "bytes \<Rightarrow> int \<Rightarrow> new_record" where
  "sample_call args ts = \<lparr>nr_interface = lit ''wa:kv'', nr_function = lit ''get'', nr_args = args, nr_result = Some [1],
     nr_duration = 7, nr_ts = ts\<rparr>"

definition empty_store :: "io_fault list \<Rightarrow> bstore" where
  "empty_store fs = \<lparr>bs_disk = \<lparr>dk_files = [], dk_script = fs\<rparr>, bs_refs = []\<rparr>"

abbreviation sample_start :: ring where
  "sample_start \<equiv> ring_with_blobs sample_config (empty_store [])"

abbreviation sample_push :: ring_event where
  "sample_push \<equiv> RPush 3 (sample_call [7, 8, 9] 3)"

abbreviation sample_events :: "ring_event list" where
  "sample_events \<equiv> [sample_push, RCollect 900 900 10, RFaults []]"

lemma sample_ring_ok: "length (sample_sha x) = 32" "cfg_ok sample_config" "store_inv sample_sha (empty_store fs)"
  by (simp_all add: sample_sha_def cfg_ok_def sample_config_def store_inv_def empty_store_def)

lemmas store_eval = blob_put_def blob_add_ref_def replace_file_def flush_refs_def in_store_def disk_defs b_defs
  blob_has_def fs_is_file_def make_dir_def Let_def with_store_def refcount_def sat_add32_def

lemmas ring_eval = ring_push_def encode_payload_def ring_expire_def ring_with_blobs_def age_def
  empty_store_def sample_call_def sample_config_def

lemma sample_fields: "field_ok (lit ''wa:kv'')" "field_ok (lit ''get'')"
  by code_simp+

lemma sample_pushed:
  "rg_records (ring_event_do sample_sha sample_push sample_start) \<noteq> []"
  "payload_blob (rc_args (hd (rg_records (ring_event_do sample_sha sample_push sample_start)))) \<noteq> None"
  "rg_blobs (ring_event_do sample_sha sample_push sample_start) \<noteq> None"
  by (simp_all add: store_eval ring_eval sample_fields)+

lemma collect_records: "rg_blobs r \<noteq> None \<Longrightarrow> rg_records (ring_event_do sha (RCollect clock now ttl) r) = rg_records r \<and>
    rg_blobs (ring_event_do sha (RCollect clock now ttl) r) \<noteq> None"
  by (auto simp: with_store_def b_part_def split: prod.split)

lemma sample_events_facts:
  "rg_records (ring_run sample_sha sample_events sample_start) =
     rg_records (ring_event_do sample_sha sample_push sample_start)"
  "\<exists>s. rg_blobs (ring_run sample_sha sample_events sample_start) = Some s \<and> \<not> faulty (bs_disk s)"
  using collect_records [OF sample_pushed(3), of sample_sha 900 900 10] by (auto simp del: ring_event_do.simps(1,4))

text \<open>C23.  After any sequence of events, on any disk and whatever was collected, the payload of a recorded call
  that was moved out of the ring can still be resolved to a content with the recorded digest.\<close>

theorem recorded_payload_resolvable:
  assumes "\<And>x. length (sha x) = 32" "cfg_ok cfg" "store_inv sha store"
    "r = ring_run sha events (ring_with_blobs cfg store)" "rg_blobs r = Some s"
    "x \<in> set (rg_records r)" "p = rc_args x \<or> p = rc_result x" "payload_blob p = Some b"
  shows "\<exists>f. bm_get (dk_files (bs_disk s)) (blob_path (br_key b)) = Some f \<and> sha (f_bytes f) = br_key b \<and>
    (\<not> faulty (bs_disk s) \<longrightarrow> resolve_payload sha p s = (Inr (Some (f_bytes f)), s))"
proof -
  have "ring_inv sha r" unfolding assms(4) by (intro ring_run_inv ring_start_inv assms(1-3))
  then have ok: "refs_ok sha (held_keys (rg_records r)) (Some s)"
    using assms(5) by (simp add: ring_inv_def holds_def)
  have "p \<in> set (record_payloads (rg_records r))" using assms(6,7) by (auto simp: record_payloads_def)
  then have "br_key b \<in> set (held_keys (rg_records r))" using assms(8) by (force simp: payload_keys_def map_filter_def)
  then have b: "is_key (br_key b)" "blob_has (br_key b) s" and inv: "store_inv sha s" using ok by (auto simp: refs_ok_def)
  then obtain f where f: "bm_get (blob_files s) (blob_path (br_key b)) = Some f" "sha (f_bytes f) = br_key b"
    by (auto simp: blob_has_def fs_is_file_def store_inv_def)
  have "p = BlobPayload b" using assms(8) by (cases p) simp_all
  then have "resolve_payload sha p s = (Inr (Some (f_bytes f)), s)" if "\<not> faulty (bs_disk s)"
    using f that by (simp add: resolve_payload_def blob_get_def b_defs in_store_def disk_defs)
  then show ?thesis using f by blast
qed

theorem recorded_payload_resolvable_witness:
  "\<exists>x \<in> set (rg_records (ring_run sample_sha sample_events sample_start)). \<exists>b s content. payload_blob (rc_args x) = Some b \<and>
     rg_blobs (ring_run sample_sha sample_events sample_start) = Some s \<and>
     resolve_payload sample_sha (rc_args x) s = (Inr (Some content), s)"
proof -
  let ?r = "ring_run sample_sha sample_events sample_start"
  obtain s b where r: "rg_blobs ?r = Some s" "\<not> faulty (bs_disk s)" "payload_blob (rc_args (hd (rg_records ?r))) = Some b"
    "hd (rg_records ?r) \<in> set (rg_records ?r)"
    using sample_events_facts sample_pushed by (metis hd_in_set not_None_eq)
  show ?thesis
    using recorded_payload_resolvable [OF sample_ring_ok refl r(1,4) disjI1 [OF refl] r(3)] r by blast
qed

theorem ring_keeps_newest_witness:
  "rg_bytes (ring_run sample_sha sample_events sample_start) \<le> cf_max_bytes sample_config \<or>
   length (rg_records (ring_run sample_sha sample_events sample_start)) = 1"
  by (rule conjunct1 [OF conjunct2 [OF ring_keeps_newest [OF sample_ring_ok refl]]])

theorem expiry_exact_witness:
  "case dir_expire 2 8 sample_dir of
      (Inr gone, d') \<Rightarrow> gone = map en_name (old_files 2 8 (entries_of (dir_files sample_dir))) \<and>
        dir_files d' = drop_files (old_files 2 8 (entries_of (dir_files sample_dir))) (dir_files sample_dir)
    | (Inl e, d') \<Rightarrow> faulty (bd_disk sample_dir) \<and>
        (\<exists>k. dir_files d' = drop_files (take k (old_files 2 8 (entries_of (dir_files sample_dir)))) (dir_files sample_dir))"
  by (rule expiry_exact) (simp add: sample_dir_def dir_open_def lit_def less_list_code)

section \<open>Replay files\<close>

text \<open>C25.  A save picks a valid name no file has; when it returns, the file under that name loads back to the
  records of the ring (times to the millisecond, durations to the microsecond), the label, the trigger
  and the caps it was saved with, names every blob its records refer to, and passes its own verification.\<close>

theorem replay_roundtrip:
  assumes "\<And>x. length (sha x) = 32" "\<And>b z. zc b = Inr z \<Longrightarrow> zd z = Inr b \<and> z \<noteq> []"
    "list_all record_storable (rg_records r)" "length (rg_records r) \<le> 2 ^ 30"
    "cf_max_bytes (rg_cfg r) \<le> u64_max" "cf_blob_threshold (rg_cfg r) \<le> u64_max"
    "valid_str (so_label opts)" "valid_str (trigger_as_str (so_trigger opts))" "length (dir_files d) < u64_max"
  shows "(\<exists>name. file_name d opts (millis now) = Some name \<and> dir_valid_name name \<and> \<not> dir_exists name d) \<and>
    (case replay_save sha zc pid clock opts now (r, d) of
       (Inr saved, (_, d')) \<Rightarrow> \<not> dir_exists (sv_name saved) d \<and>
         (\<exists>f rp. bm_get (dir_files d') (sv_name saved) = Some f \<and> replay_load sha zd (f_bytes f) = Inr rp \<and>
            rp_records rp = map (record_stored sha) (rg_records r) \<and> hd_label (rp_header rp) = so_label opts \<and>
            hd_trigger (rp_header rp) = trigger_parse (trigger_as_str (so_trigger opts)) \<and>
            hd_ring (rp_header rp) = stored_config (rg_cfg r) \<and>
            map br_key (hd_blobs (rp_header rp)) = referenced_blobs (rg_records r) \<and> replay_verify rp = Inr ())
     | (Inl e, _) \<Rightarrow> True)"
proof -
  obtain name m where name: "file_name d opts (millis now) = Some name" "\<not> dir_exists name d"
    "m \<le> Suc (length (dir_files d))" "name = nth_name (name_stem opts (millis now)) m"
    using file_name_free by blast
  have valid: "dir_valid_name name"
    unfolding name(4) by (rule valid_nth_name [OF millis_le]) (use name(3) assms(9) in simp)
  have "ends (replay_save sha zc pid clock opts now)
     (\<lambda>saved s'. Some (sv_name saved) = file_name d opts (millis now) \<and>
        (\<exists>f. bm_get (dir_files (snd s')) (sv_name saved) = Some f \<and> saved_as sha zc opts now r (f_bytes f)))
     (\<lambda>_ _. True) (r, d)"
    by (rule save_ends)
  then show ?thesis
    using name(1,2) valid load_back [OF _ assms(1-8)]
    by (fastforce simp: ends_def split: prod.splits sum.splits)
qed

theorem replay_roundtrip_witness:
  "\<exists>name. file_name sample_dir save_options_default (millis 5000000) = Some name \<and> dir_valid_name name \<and>
     \<not> dir_exists name sample_dir"
proof -
  let ?r = "sample_start\<lparr>rg_records := [\<lparr>rc_seq = 0, rc_ts = 3, rc_interface = lit ''wa:kv'', rc_function = lit ''get'',
    rc_args = Inline (sample_sha [7]) [7], rc_result = EmptyPayload, rc_duration = 7\<rparr>], rg_bytes := 107\<rparr>"
  have "list_all record_storable (rg_records ?r)"
    by (simp add: record_storable_def payload_storable_def valid_str_def valid_char_def lit_def)
  moreover have "valid_str (so_label save_options_default)" "valid_str (trigger_as_str (so_trigger save_options_default))"
    by (simp_all add: save_options_default_def valid_str_def valid_char_def lit_def)
  moreover have "length (dir_files sample_dir) < u64_max" by (simp add: sample_dir_def dir_open_def)
  ultimately show ?thesis
    using replay_roundtrip [of sample_sha "\<lambda>b. Inr (40 # b)" "\<lambda>z. Inr (tl z)" ?r save_options_default sample_dir 5000000]
    by (simp add: sample_ring_ok ring_with_blobs_def sample_config_def)
qed

end
