(* ===== verification/StateKv.thy ===== *)
theory StateKv
  imports StoreWp Text
begin

text \<open>
  \<open>rust/wa-state/src/lib.rs\<close> and \<open>kv.rs\<close>: the errors, the size limits, the paged store interface, the
  in-memory store with its write budget, the view a component gets of its namespace, and programs
  over a store whose every call may fail.
\<close>

section \<open>Errors\<close>

datatype direction = Up | Down

text \<open>The reasons the sources spell out as messages.\<close>

datatype bad_state = BadComponentId str | BadComponentVersion str | BadPin | NoSchemaVersion | MetaNotUtf8 str
  | MetaMissing str | MetaNotNumber str | SchemaTooBig | MetaMalformed | MetaNotSemver | VersionZero
  | JournalNoMagic | JournalCount | JournalReserved | JournalRepeats | JournalTag byte | JournalTrailing | JournalTruncated
  | JournalParse | StepFromZero | StepUnnamed | StepTwice | EntryReserved | HeaderWrong

datatype format_reason = BadFileMagic | NoFileMagic | ZstdBroken str | NoRoomForFooter | HeadPastEnd | HeadParse
  | UnknownFormat nat | SchemaZero | EntryTruncated | NoFooter | CountsWrong

datatype limit_kind = LimKey | LimValue | LimBatch | LimJournal | LimJournalKey | LimJournalValue | LimSnapshot
  | LimPayload | LimChangeList

datatype inconsistency = StepGone nat nat | PendingMissing | VersionOff nat nat nat

datatype component_error = StoreFailed kv_error | FormatError format_reason | CorruptState bad_state
  | ChecksumMismatch bytes bytes | SchemaVersionMismatch nat nat | OwnerMismatch str str | ComponentMismatch str str
  | DowngradeRefused nat nat | NoMigrationPath nat nat nat direction | ReservedKey | Uninitialised nat | NotEmpty nat
  | LimitExceeded limit_kind nat nat | JournalInconsistent inconsistency | Injected

definition MAX_KEY_BYTES :: nat where "MAX_KEY_BYTES = 4096"
definition MAX_VALUE_BYTES :: nat where "MAX_VALUE_BYTES = 16 * 1024 * 1024"

definition check_size :: "bytes \<Rightarrow> bytes option \<Rightarrow> component_error + unit" where
  "check_size key v =
    (if length key > MAX_KEY_BYTES then Inl (LimitExceeded LimKey MAX_KEY_BYTES (length key))
     else case v of
       Some v \<Rightarrow> if length v > MAX_VALUE_BYTES then Inl (LimitExceeded LimValue MAX_VALUE_BYTES (length v)) else Inr ()
     | None \<Rightarrow> Inr ())"

definition RESERVED_PREFIX :: bytes where "RESERVED_PREFIX = utf8 (lit ''__wa/'')"

definition is_reserved :: "bytes \<Rightarrow> bool" where
  "is_reserved key \<longleftrightarrow> prefix RESERVED_PREFIX key"

section \<open>What the trait provides\<close>

text \<open>\<open>scan\_page\<close> and \<open>del\_prefix\<close> of a store that has only the four calls.\<close>

definition trait_scan_page :: "('s \<Rightarrow> bytes \<Rightarrow> ('e + (bytes, bytes) btree) \<times> 's) \<Rightarrow> 's \<Rightarrow> bytes \<Rightarrow> bytes option \<Rightarrow> nat
    \<Rightarrow> ('e + (bytes, bytes) btree) \<times> 's" where
  "trait_scan_page scan s p cursor limit =
    (if limit = 0 then (Inr [], s)
     else case scan s p of
       (Inl e, s) \<Rightarrow> (Inl e, s)
     | (Inr es, s) \<Rightarrow> (Inr (take limit (filter (\<lambda>(key, _). case cursor of Some c \<Rightarrow> \<not> key \<le> c | None \<Rightarrow> True) es)), s))"

fun trait_del_loop :: "('s \<Rightarrow> bytes \<Rightarrow> ('e + unit) \<times> 's) \<Rightarrow> bytes list \<Rightarrow> nat \<Rightarrow> 's \<Rightarrow> ('e + nat) \<times> 's" where
  "trait_del_loop del [] removed s = (Inr removed, s)"
| "trait_del_loop del (key # ks) removed s = (case del s key of
       (Inl e, s) \<Rightarrow> (Inl e, s)
     | (Inr _, s) \<Rightarrow> trait_del_loop del ks (removed + 1) s)"

definition trait_del_prefix :: "('s \<Rightarrow> bytes \<Rightarrow> ('e + unit) \<times> 's) \<Rightarrow> ('s \<Rightarrow> bytes \<Rightarrow> ('e + (bytes, bytes) btree) \<times> 's) \<Rightarrow> 's \<Rightarrow> bytes
    \<Rightarrow> ('e + nat) \<times> 's" where
  "trait_del_prefix del scan s p = (case scan s p of
       (Inl e, s) \<Rightarrow> (Inl e, s)
     | (Inr es, s) \<Rightarrow> trait_del_loop del (map fst es) 0 s)"

section \<open>The in-memory store with a write budget\<close>

record mem_kv =
  mk_entries :: "(bytes, bytes) btree"
  mk_writes :: nat
  mk_budget :: "nat option"

definition mem_new :: mem_kv where
  "mem_new = \<lparr>mk_entries = [], mk_writes = 0, mk_budget = None\<rparr>"

definition mem_from_entries :: "(bytes \<times> bytes) list \<Rightarrow> mem_kv" where
  "mem_from_entries es = \<lparr>mk_entries = fold (\<lambda>(k, v). bm_insert k v) es [], mk_writes = 0, mk_budget = None\<rparr>"

definition set_write_budget :: "nat option \<Rightarrow> mem_kv \<Rightarrow> mem_kv" where
  "set_write_budget budget s = s\<lparr>mk_budget := budget\<rparr>"

definition mem_mutating :: "mem_kv \<Rightarrow> (component_error + unit) \<times> mem_kv" where
  "mem_mutating s = (if (case mk_budget s of Some budget \<Rightarrow> mk_writes s \<ge> budget | None \<Rightarrow> False) then (Inl Injected, s)
     else (Inr (), s\<lparr>mk_writes := wrap64 (mk_writes s + 1)\<rparr>))"

definition mem_get :: "mem_kv \<Rightarrow> bytes \<Rightarrow> (component_error + bytes option) \<times> mem_kv" where
  "mem_get s key = (Inr (bm_get (mk_entries s) key), s)"

definition mem_put :: "mem_kv \<Rightarrow> bytes \<Rightarrow> bytes \<Rightarrow> (component_error + unit) \<times> mem_kv" where
  "mem_put s key v = (case mem_mutating s of
       (Inl e, s) \<Rightarrow> (Inl e, s)
     | (Inr _, s) \<Rightarrow> (Inr (), s\<lparr>mk_entries := bm_insert key v (mk_entries s)\<rparr>))"

definition mem_del :: "mem_kv \<Rightarrow> bytes \<Rightarrow> (component_error + unit) \<times> mem_kv" where
  "mem_del s key = (case mem_mutating s of
       (Inl e, s) \<Rightarrow> (Inl e, s)
     | (Inr _, s) \<Rightarrow> (Inr (), s\<lparr>mk_entries := bm_remove key (mk_entries s)\<rparr>))"

definition mem_scan_prefix :: "mem_kv \<Rightarrow> bytes \<Rightarrow> (component_error + (bytes, bytes) btree) \<times> mem_kv" where
  "mem_scan_prefix s p = (Inr (bm_scan p (mk_entries s)), s)"

text \<open>The range from an included or excluded bound, while the prefix holds.\<close>

definition mem_scan_page :: "mem_kv \<Rightarrow> bytes \<Rightarrow> bytes option \<Rightarrow> nat \<Rightarrow> (component_error + (bytes, bytes) btree) \<times> mem_kv" where
  "mem_scan_page s p cursor limit =
    (if limit = 0 then (Inr [], s)
     else let before = (case cursor of
            Some c \<Rightarrow> if c \<ge> p then (\<lambda>key. key \<le> c) else (\<lambda>key. key < p)
          | None \<Rightarrow> (\<lambda>key. key < p))
     in (Inr (take limit (takeWhile (\<lambda>(key, _). prefix p key) (dropWhile (\<lambda>(key, _). before key) (mk_entries s)))), s))"

fun mem_del_loop :: "bytes list \<Rightarrow> mem_kv \<Rightarrow> (component_error + unit) \<times> mem_kv" where
  "mem_del_loop [] s = (Inr (), s)"
| "mem_del_loop (key # ks) s = (case mem_mutating s of
       (Inl e, s) \<Rightarrow> (Inl e, s)
     | (Inr _, s) \<Rightarrow> mem_del_loop ks (s\<lparr>mk_entries := bm_remove key (mk_entries s)\<rparr>))"

definition mem_del_prefix :: "mem_kv \<Rightarrow> bytes \<Rightarrow> (component_error + nat) \<times> mem_kv" where
  "mem_del_prefix s p = (let ks = map fst (bm_scan p (mk_entries s)) in
     case mem_del_loop ks s of (Inl e, s) \<Rightarrow> (Inl e, s) | (Inr _, s) \<Rightarrow> (Inr (length ks), s))"

section \<open>The component's view\<close>

definition user_get :: "('s \<Rightarrow> bytes \<Rightarrow> (component_error + bytes option) \<times> 's) \<Rightarrow> 's \<Rightarrow> bytes \<Rightarrow> (component_error + bytes option) \<times> 's" where
  "user_get get s key = (if is_reserved key then (Inr None, s) else get s key)"

definition user_put :: "('s \<Rightarrow> bytes \<Rightarrow> bytes \<Rightarrow> (component_error + unit) \<times> 's) \<Rightarrow> 's \<Rightarrow> bytes \<Rightarrow> bytes \<Rightarrow> (component_error + unit) \<times> 's" where
  "user_put put s key v =
    (if is_reserved key then (Inl ReservedKey, s)
     else case check_size key (Some v) of Inl e \<Rightarrow> (Inl e, s) | Inr _ \<Rightarrow> put s key v)"

definition user_del :: "('s \<Rightarrow> bytes \<Rightarrow> (component_error + unit) \<times> 's) \<Rightarrow> 's \<Rightarrow> bytes \<Rightarrow> (component_error + unit) \<times> 's" where
  "user_del del s key = (if is_reserved key then (Inl ReservedKey, s) else del s key)"

abbreviation user_part :: "(bytes, bytes) btree \<Rightarrow> (bytes, bytes) btree" where
  "user_part m \<equiv> filter (\<lambda>(key, _). \<not> is_reserved key) m"

definition user_scan_prefix :: "('s \<Rightarrow> bytes \<Rightarrow> (component_error + (bytes, bytes) btree) \<times> 's) \<Rightarrow> 's \<Rightarrow> bytes
    \<Rightarrow> (component_error + (bytes, bytes) btree) \<times> 's" where
  "user_scan_prefix scan s p = (case scan s p of
       (Inl e, s) \<Rightarrow> (Inl e, s)
     | (Inr es, s) \<Rightarrow> (Inr (user_part es), s))"

definition user_del_prefix :: "('s \<Rightarrow> bytes \<Rightarrow> (component_error + unit) \<times> 's) \<Rightarrow> ('s \<Rightarrow> bytes \<Rightarrow> (component_error + (bytes, bytes) btree) \<times> 's)
    \<Rightarrow> 's \<Rightarrow> bytes \<Rightarrow> (component_error + nat) \<times> 's" where
  "user_del_prefix del scan s p = (case user_scan_prefix scan s p of
       (Inl e, s) \<Rightarrow> (Inl e, s)
     | (Inr es, s) \<Rightarrow> trait_del_loop del (map fst es) 0 s)"

section \<open>Programs over a store that may fail\<close>

type_synonym 'a sm = "(kv, component_error, 'a) prog"

abbreviation s_lift :: "(kv \<Rightarrow> (kv_error + 'a) \<times> kv) \<Rightarrow> 'a sm" where
  "s_lift \<equiv> lift_kv StoreFailed"

definition s_get :: "bytes \<Rightarrow> bytes option sm" where
  "s_get key = s_lift (\<lambda>s. kv_get s key)"

definition s_put :: "bytes \<Rightarrow> bytes \<Rightarrow> unit sm" where
  "s_put key v = s_lift (\<lambda>s. kv_put s key v)"

definition s_del :: "bytes \<Rightarrow> unit sm" where
  "s_del key = s_lift (\<lambda>s. kv_del s key)"

definition s_scan :: "bytes \<Rightarrow> (bytes, bytes) btree sm" where
  "s_scan p = s_lift (\<lambda>s. kv_scan s p)"

definition s_scan_page :: "bytes \<Rightarrow> bytes option \<Rightarrow> nat \<Rightarrow> (bytes, bytes) btree sm" where
  "s_scan_page p cursor limit = s_lift (\<lambda>s. trait_scan_page kv_scan s p cursor limit)"

lemmas store_prog_defs = lift_kv_def s_get_def s_put_def s_del_def s_scan_def s_scan_page_def trait_scan_page_def kv_defs

section \<open>Interfaces\<close>

text \<open>The store with a budget is an ordered store; a budget that runs out is a failed call.\<close>

interpretation budgeted: ordered_kv mem_get mem_put mem_del mem_scan_prefix mk_entries "\<lambda>s. bm_wf (mk_entries s)"
  by unfold_locales
     (auto simp: mem_get_def mem_put_def mem_del_def mem_scan_prefix_def mem_mutating_def split: if_splits)

text \<open>The page of the memory store is the page the trait's default computes.\<close>

lemma page_override:
  assumes "bm_wf (mk_entries s)"
  shows "mem_scan_page s p cursor limit = trait_scan_page mem_scan_prefix s p cursor limit"
proof -
  have walk: "takeWhile (\<lambda>(key, _). prefix p key) (dropWhile (\<lambda>(key, _). P key) m) =
      filter (\<lambda>(key, _). \<not> P key \<and> prefix p key) m"
    if wf: "bm_wf m" and down: "\<And>a b. a < b \<Longrightarrow> P b \<Longrightarrow> P a" and low: "\<And>a. \<not> P a \<Longrightarrow> p \<le> a" for P and m :: "(bytes, bytes) btree"
    using wf
  proof (induction m)
    case (Cons e m)
    obtain a b where e: "e = (a, b)" by fastforce
    show ?case
    proof (cases "P a")
      case True
      then show ?thesis using Cons e by simp
    next
      case False
      have up: "\<forall>x \<in> set m. \<not> P (fst x) \<and> a < fst x" using Cons.prems e False down by force
      then have "dropWhile (\<lambda>(key, _). P key) m = m" by (cases m) auto
      moreover have "filter (\<lambda>(key, _). \<not> P key \<and> prefix p key) m = []" if outside: "\<not> prefix p a"
      proof -
        have "\<not> prefix p (fst x)" if "x \<in> set m" for x
          using prefix_between [OF low [OF False], of "fst x"] up that outside by force
        then show ?thesis by (auto simp: filter_empty_conv)
      qed
      ultimately show ?thesis using Cons e False by simp
    qed
  qed simp
  have scan: "bm_scan p (mk_entries s) = filter (\<lambda>(key, _). prefix p key) (mk_entries s)"
    using bm_scan_filter [OF assms, of p] by (simp add: case_prod_unfold)
  show ?thesis
  proof (cases cursor)
    case None
    have "takeWhile (\<lambda>(key, _). prefix p key) (dropWhile (\<lambda>(key, _). key < p) (mk_entries s)) = bm_scan p (mk_entries s)"
      by (simp add: bm_scan_def case_prod_unfold)
    then show ?thesis using None by (simp add: mem_scan_page_def trait_scan_page_def mem_scan_prefix_def)
  next
    case (Some c)
    show ?thesis
    proof (cases "c \<ge> p")
      case True
      have "takeWhile (\<lambda>(key, _). prefix p key) (dropWhile (\<lambda>(key, _). key \<le> c) (mk_entries s)) =
          filter (\<lambda>(key, _). \<not> key \<le> c) (bm_scan p (mk_entries s))"
        using walk [OF assms, of "\<lambda>key. key \<le> c"] True
        by (simp add: scan conj_commute case_prod_unfold)
      then show ?thesis using Some True by (simp add: mem_scan_page_def trait_scan_page_def mem_scan_prefix_def)
    next
      case False
      have "filter (\<lambda>(key, _). \<not> key \<le> c) (bm_scan p (mk_entries s)) = bm_scan p (mk_entries s)"
        using False set_bm_scan [OF assms, of p] prefix_le [of p] by (force simp: filter_id_conv)
      moreover have "takeWhile (\<lambda>(key, _). prefix p key) (dropWhile (\<lambda>(key, _). key < p) (mk_entries s)) = bm_scan p (mk_entries s)"
        by (simp add: bm_scan_def case_prod_unfold)
      ultimately show ?thesis using Some False by (simp add: mem_scan_page_def trait_scan_page_def mem_scan_prefix_def)
    qed
  qed
qed

end
