(* ===== verification/StateMeta.thy ===== *)
theory StateMeta
  imports StateKv
begin

text \<open>
  \<open>rust/wa-state/src/meta.rs\<close>: the identity of a component, the reserved keys of a namespace, and
  reading, writing and opening its metadata.
\<close>

section \<open>Identities\<close>

record component_info =
  ci_id :: str
  ci_version :: str
  ci_sha256 :: str

definition ident :: "str \<Rightarrow> bool" where
  "ident s \<longleftrightarrow> s \<noteq> [] \<and> length (utf8 s) \<le> 100 \<and> list_all (\<lambda>c. is_alnum c \<or> c = 45 \<or> c = 95 \<or> c = 46) s"

abbreviation is_ascii_digit :: "rchar \<Rightarrow> bool" where
  "is_ascii_digit c \<equiv> 48 \<le> c \<and> c \<le> 57"

text \<open>\<open>find(['-', '+'])\<close> splits the core from the suffix.\<close>

definition is_semver :: "str \<Rightarrow> bool" where
  "is_semver s =
    (let core = takeWhile (\<lambda>c. c \<noteq> 45 \<and> c \<noteq> 43) s;
         rest = dropWhile (\<lambda>c. c \<noteq> 45 \<and> c \<noteq> 43) s;
         numbers = split_on 46 core in
     length numbers = 3 \<and> list_all (\<lambda>n. n \<noteq> [] \<and> list_all is_ascii_digit n) numbers \<and>
     (case rest of
        [] \<Rightarrow> True
      | _ # ext \<Rightarrow> ext \<noteq> [] \<and> list_all (\<lambda>c. is_alnum c \<or> c = 46 \<or> c = 45) ext))"

definition is_sha256 :: "str \<Rightarrow> bool" where
  "is_sha256 s \<longleftrightarrow> length (utf8 s) = 64 \<and> list_all (\<lambda>c. is_ascii_digit c \<or> 97 \<le> c \<and> c \<le> 102) s"

definition validate_info :: "component_info \<Rightarrow> component_error + unit" where
  "validate_info info =
    (if \<not> ident (ci_id info) then Inl (CorruptState (BadComponentId (ci_id info)))
     else if \<not> is_semver (ci_version info) then Inl (CorruptState (BadComponentVersion (ci_version info)))
     else if \<not> is_sha256 (ci_sha256 info) then Inl (CorruptState BadPin)
     else Inr ())"

definition component_info_new :: "str \<Rightarrow> str \<Rightarrow> str \<Rightarrow> component_error + component_info" where
  "component_info_new i version sha256 =
    (let info = \<lparr>ci_id = i, ci_version = version, ci_sha256 = sha256\<rparr> in
     res_bind (validate_info info) (\<lambda>_. Inr info))"

section \<open>The reserved keys\<close>

definition KEY_SCHEMA_VERSION :: bytes where "KEY_SCHEMA_VERSION = utf8 (lit ''__wa/meta/schema'')"
definition KEY_COMPONENT :: bytes where "KEY_COMPONENT = utf8 (lit ''__wa/meta/component'')"
definition KEY_COMPONENT_VERSION :: bytes where "KEY_COMPONENT_VERSION = utf8 (lit ''__wa/meta/component-version'')"
definition KEY_LAST_MIGRATED_BY :: bytes where "KEY_LAST_MIGRATED_BY = utf8 (lit ''__wa/meta/last-migrated-by'')"
definition KEY_LAST_MIGRATED_AT :: bytes where "KEY_LAST_MIGRATED_AT = utf8 (lit ''__wa/meta/last-migrated-at'')"
definition KEY_CREATED_AT :: bytes where "KEY_CREATED_AT = utf8 (lit ''__wa/meta/created-at'')"
definition KEY_UPDATED_AT :: bytes where "KEY_UPDATED_AT = utf8 (lit ''__wa/meta/updated-at'')"
definition KEY_JOURNAL :: bytes where "KEY_JOURNAL = utf8 (lit ''__wa/meta/migration/journal'')"
definition KEY_PENDING :: bytes where "KEY_PENDING = utf8 (lit ''__wa/meta/migration/pending'')"

lemmas meta_keys = KEY_SCHEMA_VERSION_def KEY_COMPONENT_def KEY_COMPONENT_VERSION_def KEY_LAST_MIGRATED_BY_def
  KEY_LAST_MIGRATED_AT_def KEY_CREATED_AT_def KEY_UPDATED_AT_def KEY_JOURNAL_def KEY_PENDING_def

definition text_key :: "bytes \<Rightarrow> str" where
  "text_key key =
    (if key = KEY_SCHEMA_VERSION then lit ''schema''
     else if key = KEY_COMPONENT then lit ''component''
     else if key = KEY_COMPONENT_VERSION then lit ''component-version''
     else if key = KEY_LAST_MIGRATED_BY then lit ''last-migrated-by''
     else if key = KEY_LAST_MIGRATED_AT then lit ''last-migrated-at''
     else if key = KEY_CREATED_AT then lit ''created-at''
     else if key = KEY_UPDATED_AT then lit ''updated-at''
     else lit ''key'')"

section \<open>The metadata of a namespace\<close>

record meta =
  mt_schema_version :: nat
  mt_component :: str
  mt_component_version :: str
  mt_last_migrated_by :: str
  mt_created_at_ms :: nat
  mt_last_migrated_at_ms :: nat

definition meta_text :: "bytes \<Rightarrow> str sm" where
  "meta_text key = b_then (s_get key) (\<lambda>r. case r of
       Some bs \<Rightarrow> (case from_utf8 bs of
           Some s \<Rightarrow> b_return s
         | None \<Rightarrow> b_fail (CorruptState (MetaNotUtf8 (text_key key))))
     | None \<Rightarrow> b_fail (CorruptState (MetaMissing (text_key key))))"

definition meta_number :: "bytes \<Rightarrow> nat sm" where
  "meta_number key = b_then (meta_text key) (\<lambda>raw. case parse_nat u64_max raw of
       Some n \<Rightarrow> b_return n
     | None \<Rightarrow> b_fail (CorruptState (MetaNotNumber (text_key key))))"

definition meta_read :: "meta option sm" where
  "meta_read =
     b_then (s_get KEY_SCHEMA_VERSION) (\<lambda>schema.
     if schema = None then
       b_then (s_get KEY_COMPONENT) (\<lambda>component.
       if component \<noteq> None then b_fail (CorruptState NoSchemaVersion) else b_return None)
     else
       b_then (meta_number KEY_SCHEMA_VERSION) (\<lambda>version.
       if version > u32_max then b_fail (CorruptState SchemaTooBig)
       else
         b_then (meta_text KEY_COMPONENT) (\<lambda>component.
         b_then (meta_text KEY_COMPONENT_VERSION) (\<lambda>component_version.
         b_then (meta_text KEY_LAST_MIGRATED_BY) (\<lambda>migrated_by.
         b_then (meta_number KEY_CREATED_AT) (\<lambda>created_at.
         b_then (meta_number KEY_LAST_MIGRATED_AT) (\<lambda>migrated_at.
         if \<not> ident component \<or> \<not> is_sha256 migrated_by then b_fail (CorruptState MetaMalformed)
         else if \<not> is_semver component_version then b_fail (CorruptState MetaNotSemver)
         else b_return (Some \<lparr>mt_schema_version = version, mt_component = component,
           mt_component_version = component_version, mt_last_migrated_by = migrated_by,
           mt_created_at_ms = created_at, mt_last_migrated_at_ms = migrated_at\<rparr>))))))))"

definition put_number :: "bytes \<Rightarrow> nat \<Rightarrow> unit sm" where
  "put_number key n = s_put key (utf8 (dec n))"

definition meta_write :: "meta \<Rightarrow> nat \<Rightarrow> unit sm" where
  "meta_write meta now_ms =
     b_then (put_number KEY_SCHEMA_VERSION (mt_schema_version meta)) (\<lambda>_.
     b_then (s_put KEY_COMPONENT (utf8 (mt_component meta))) (\<lambda>_.
     b_then (s_put KEY_COMPONENT_VERSION (utf8 (mt_component_version meta))) (\<lambda>_.
     b_then (s_put KEY_LAST_MIGRATED_BY (utf8 (mt_last_migrated_by meta))) (\<lambda>_.
     b_then (put_number KEY_LAST_MIGRATED_AT (mt_last_migrated_at_ms meta)) (\<lambda>_.
     b_then (put_number KEY_CREATED_AT (mt_created_at_ms meta)) (\<lambda>_.
     put_number KEY_UPDATED_AT now_ms))))))"

definition set_schema_version :: "nat \<Rightarrow> nat \<Rightarrow> unit sm" where
  "set_schema_version version now_ms =
     b_then (put_number KEY_SCHEMA_VERSION version) (\<lambda>_. put_number KEY_UPDATED_AT now_ms)"

definition user_keys :: "bytes list sm" where
  "user_keys = b_then (s_scan []) (\<lambda>es. b_return (filter (\<lambda>key. \<not> is_reserved key) (map fst es)))"

definition state_open :: "component_info \<Rightarrow> nat \<Rightarrow> nat \<Rightarrow> meta sm" where
  "state_open info initial_version now_ms =
     b_then (b_result (validate_info info)) (\<lambda>_.
     if initial_version = 0 then b_fail (CorruptState VersionZero)
     else
       b_then meta_read (\<lambda>found. case found of
         Some meta \<Rightarrow>
           if mt_component meta \<noteq> ci_id info then b_fail (OwnerMismatch (ci_id info) (mt_component meta))
           else if mt_component_version meta \<noteq> ci_version info then
             b_then (s_put KEY_COMPONENT_VERSION (utf8 (ci_version info))) (\<lambda>_.
             b_then (put_number KEY_UPDATED_AT now_ms) (\<lambda>_.
             b_return (meta\<lparr>mt_component_version := ci_version info\<rparr>)))
           else b_return meta
       | None \<Rightarrow>
           b_then user_keys (\<lambda>ks.
           if length ks > 0 then b_fail (Uninitialised (length ks))
           else
             let meta = \<lparr>mt_schema_version = initial_version, mt_component = ci_id info,
               mt_component_version = ci_version info, mt_last_migrated_by = ci_sha256 info,
               mt_created_at_ms = now_ms, mt_last_migrated_at_ms = now_ms\<rparr> in
             b_then (meta_write meta now_ms) (\<lambda>_. b_return meta))))"

end
