(* ===== verification/StateBatch.thy ===== *)
theory StateBatch
  imports StateMeta Bytes
begin

text \<open>
  \<open>rust/wa-state/src/batch.rs\<close>: the batch a migration step works on, the difference of two batches, and
  the binary list of changes a migration journals.
\<close>

section \<open>Batches\<close>

text \<open>The operations that change a batch are programs over it: a failure leaves what was done so far.\<close>

type_synonym batch = "(bytes, bytes) btree"
type_synonym 'a batchm = "(batch, component_error, 'a) prog"

definition batch_new :: batch where
  "batch_new = []"

definition batch_insert :: "bytes \<Rightarrow> bytes \<Rightarrow> bytes option batchm" where
  "batch_insert key v =
    (if is_reserved key then b_fail ReservedKey
     else
       b_then (b_result (check_size key (Some v))) (\<lambda>_.
       b_then (b_query (\<lambda>b. bm_get b key)) (\<lambda>old.
       b_then (b_modify (bm_insert key v)) (\<lambda>_. b_return old))))"

definition batch_remove :: "bytes \<Rightarrow> bytes option batchm" where
  "batch_remove key =
     b_then (b_query (\<lambda>b. bm_get b key)) (\<lambda>old.
     b_then (b_modify (bm_remove key)) (\<lambda>_. b_return old))"

fun batch_insert_all :: "(bytes \<times> bytes) list \<Rightarrow> unit batchm" where
  "batch_insert_all [] = b_return ()"
| "batch_insert_all ((key, v) # es) = b_then (batch_insert key v) (\<lambda>_. batch_insert_all es)"

definition batch_from_entries :: "(bytes \<times> bytes) list \<Rightarrow> component_error + batch" where
  "batch_from_entries es = (case batch_insert_all es batch_new of
       (Inl e, _) \<Rightarrow> Inl e
     | (Inr _, b) \<Rightarrow> Inr b)"

fun batch_load_loop :: "nat \<Rightarrow> (bytes \<times> bytes) list \<Rightarrow> nat \<Rightarrow> unit batchm" where
  "batch_load_loop max_bytes [] acc = b_return ()"
| "batch_load_loop max_bytes ((key, v) # es) acc =
    (if is_reserved key then batch_load_loop max_bytes es acc
     else
       let acc = acc + length key + length v in
       if acc > max_bytes then b_fail (LimitExceeded LimBatch max_bytes acc)
       else b_then (batch_insert key v) (\<lambda>_. batch_load_loop max_bytes es acc))"

definition batch_load :: "nat \<Rightarrow> batch sm" where
  "batch_load max_bytes =
     b_then (s_scan []) (\<lambda>es. case batch_load_loop max_bytes es 0 batch_new of
       (Inl e, _) \<Rightarrow> b_fail e
     | (Inr _, b) \<Rightarrow> b_return b)"

definition batch_bytes :: "batch \<Rightarrow> nat" where
  "batch_bytes b = (\<Sum>(key, v)\<leftarrow>b. length key + length v)"

definition batch_contains_key :: "batch \<Rightarrow> bytes \<Rightarrow> bool" where
  "batch_contains_key b key \<longleftrightarrow> bm_get b key \<noteq> None"

definition batch_prefix :: "batch \<Rightarrow> bytes \<Rightarrow> (bytes, bytes) btree" where
  "batch_prefix b p = bm_scan p b"

fun batch_move_loop :: "(bytes \<times> bytes \<times> bytes) list \<Rightarrow> unit batchm" where
  "batch_move_loop [] = b_return ()"
| "batch_move_loop ((old, new, v) # moves) =
     b_then (b_modify (bm_remove old)) (\<lambda>_.
     b_then (b_result (check_size new (Some v))) (\<lambda>_.
     b_then (b_modify (bm_insert new v)) (\<lambda>_. batch_move_loop moves)))"

definition rename_prefix :: "bytes \<Rightarrow> bytes \<Rightarrow> nat batchm" where
  "rename_prefix src dst =
    (if is_reserved src \<or> is_reserved dst then b_fail ReservedKey
     else
       b_then (b_query (\<lambda>b. map (\<lambda>(key, v). (key, dst @ drop (length src) key, v)) (batch_prefix b src))) (\<lambda>moves.
       b_then (batch_move_loop moves) (\<lambda>_. b_return (length moves))))"

section \<open>Differences\<close>

record change_counts =
  cc_added :: nat
  cc_removed :: nat
  cc_changed :: nat
  cc_unchanged :: nat

definition counts_zero :: change_counts where
  "counts_zero = \<lparr>cc_added = 0, cc_removed = 0, cc_changed = 0, cc_unchanged = 0\<rparr>"

definition counts_total :: "change_counts \<Rightarrow> nat" where
  "counts_total c = cc_added c + cc_removed c + cc_changed c"

definition counts_is_empty :: "change_counts \<Rightarrow> bool" where
  "counts_is_empty c \<longleftrightarrow> counts_total c = 0"

definition counts_add :: "change_counts \<Rightarrow> change_counts \<Rightarrow> change_counts" where
  "counts_add c d = \<lparr>cc_added = cc_added c + cc_added d, cc_removed = cc_removed c + cc_removed d,
     cc_changed = cc_changed c + cc_changed d, cc_unchanged = cc_unchanged c + cc_unchanged d\<rparr>"

datatype change = Put bytes bytes | Del bytes

fun change_key :: "change \<Rightarrow> bytes" where
  "change_key (Put key v) = key"
| "change_key (Del key) = key"

definition diff_put :: "batch \<Rightarrow> bytes \<times> bytes \<Rightarrow> change_counts \<times> change list \<Rightarrow> change_counts \<times> change list" where
  "diff_put before = (\<lambda>(key, v) (counts, changes). case bm_get before key of
       None \<Rightarrow> (counts\<lparr>cc_added := cc_added counts + 1\<rparr>, changes @ [Put key v])
     | Some old \<Rightarrow>
         if old \<noteq> v then (counts\<lparr>cc_changed := cc_changed counts + 1\<rparr>, changes @ [Put key v])
         else (counts\<lparr>cc_unchanged := cc_unchanged counts + 1\<rparr>, changes))"

definition diff_del :: "batch \<Rightarrow> bytes \<times> bytes \<Rightarrow> change_counts \<times> change list \<Rightarrow> change_counts \<times> change list" where
  "diff_del after = (\<lambda>(key, v) (counts, changes).
     if \<not> batch_contains_key after key
     then (counts\<lparr>cc_removed := cc_removed counts + 1\<rparr>, changes @ [Del key])
     else (counts, changes))"

definition diff :: "batch \<Rightarrow> batch \<Rightarrow> change_counts \<times> change list" where
  "diff before after = fold (diff_del after) before (fold (diff_put before) after (counts_zero, []))"

section \<open>The journal's encoding\<close>

definition ENCODING_MAGIC :: bytes where "ENCODING_MAGIC = utf8 (lit ''WC1'') @ [0]"
definition MAX_JOURNAL_BYTES :: nat where "MAX_JOURNAL_BYTES = 512 * 1024 * 1024"

definition put_sized :: "bytes \<Rightarrow> bytes" where
  "put_sized bs = le 4 (length bs) @ bs"

fun encode_change :: "change \<Rightarrow> bytes" where
  "encode_change (Put key v) = 1 # put_sized key @ put_sized v"
| "encode_change (Del key) = 2 # put_sized key"

definition encode_changes :: "change list \<Rightarrow> bytes" where
  "encode_changes changes = ENCODING_MAGIC @ le 4 (length changes) @ concat (map encode_change changes)"

text \<open>The position in the buffer is the rest still to be read.\<close>

definition journal_take :: "nat \<Rightarrow> bytes \<Rightarrow> component_error + (bytes \<times> bytes)" where
  "journal_take n bs = (if n \<le> length bs then Inr (take n bs, drop n bs) else Inl (CorruptState JournalTruncated))"

definition journal_length :: "bytes \<Rightarrow> component_error + (nat \<times> bytes)" where
  "journal_length bs = res_bind (journal_take 4 bs) (\<lambda>(n, bs). Inr (of_le n, bs))"

definition journal_sized :: "bytes \<Rightarrow> component_error + (bytes \<times> bytes)" where
  "journal_sized bs = res_bind (journal_length bs) (\<lambda>(n, bs). journal_take n bs)"

definition decode_change :: "bytes set \<Rightarrow> bytes \<Rightarrow> component_error + (change \<times> bytes)" where
  "decode_change seen bs =
     res_bind (journal_take 1 bs) (\<lambda>(tag, bs).
     res_bind (journal_sized bs) (\<lambda>(key, bs).
     if length key > MAX_KEY_BYTES then Inl (LimitExceeded LimJournalKey MAX_KEY_BYTES (length key))
     else if is_reserved key then Inl (CorruptState JournalReserved)
     else if key \<in> seen then Inl (CorruptState JournalRepeats)
     else if hd tag = 1 then
       res_bind (journal_sized bs) (\<lambda>(v, bs).
       if length v > MAX_VALUE_BYTES then Inl (LimitExceeded LimJournalValue MAX_VALUE_BYTES (length v))
       else Inr (Put key v, bs))
     else if hd tag = 2 then Inr (Del key, bs)
     else Inl (CorruptState (JournalTag (hd tag)))))"

fun decode_loop :: "nat \<Rightarrow> bytes set \<Rightarrow> change list \<Rightarrow> bytes \<Rightarrow> component_error + (change list \<times> bytes)" where
  "decode_loop 0 seen changes bs = Inr (changes, bs)"
| "decode_loop (Suc n) seen changes bs =
     res_bind (decode_change seen bs) (\<lambda>(c, bs). decode_loop n (insert (change_key c) seen) (changes @ [c]) bs)"

definition decode_changes :: "bytes \<Rightarrow> component_error + change list" where
  "decode_changes bs =
    (if length bs > MAX_JOURNAL_BYTES then Inl (LimitExceeded LimJournal MAX_JOURNAL_BYTES (length bs))
     else if length bs < 8 \<or> take 4 bs \<noteq> ENCODING_MAGIC then Inl (CorruptState JournalNoMagic)
     else
       let count = of_le (take 4 (drop 4 bs)) in
       if count > (length bs - 8) div 5 then Inl (CorruptState JournalCount)
       else
         res_bind (decode_loop count {} [] (drop 8 bs)) (\<lambda>(changes, rest).
         if rest \<noteq> [] then Inl (CorruptState JournalTrailing) else Inr changes))"

definition validate_changes :: "change list \<Rightarrow> component_error + unit" where
  "validate_changes changes = try_all (\<lambda>c. case c of
       Put key v \<Rightarrow> check_size key (Some v)
     | Del key \<Rightarrow> check_size key None) changes"

end
