(* ===== verification/StateSnapshot.thy ===== *)
theory StateSnapshot
  imports StateBatch
begin

text \<open>
  \<open>rust/wa-state/src/snapshot.rs\<close>: taking, writing, verifying and importing a snapshot of a namespace.
  Parameters: \<open>sha\<close> is SHA-256, \<open>enc\_head\<close> and \<open>dec\_head\<close> are \<open>serde\_json\<close> on the header, \<open>zc\<close> is the
  zstd encoder at a level, \<open>zd\<close> the decoder: what it yields, and the error it stops with if any.  A
  writer is the bytes written to it so far.
\<close>

section \<open>Headers\<close>

definition SNAPSHOT_MAGIC :: bytes where "SNAPSHOT_MAGIC = utf8 (lit ''WASTATE1'')"
definition SNAPSHOT_FORMAT :: nat where "SNAPSHOT_FORMAT = 1"
definition FOOTER_TAG :: bytes where "FOOTER_TAG = utf8 (lit ''WST1'')"
definition FOOTER_LEN :: nat where "FOOTER_LEN = 4 + 8 + 8 + 32"
definition DEFAULT_MAX_BYTES :: nat where "DEFAULT_MAX_BYTES = 512 * 1024 * 1024"

record head =
  hd_format :: nat
  hd_schema_version :: nat
  hd_component :: str
  hd_component_version :: str
  hd_component_sha256 :: str
  hd_created_at_ms :: nat

record snapshot_header =
  sh_format :: nat
  sh_schema_version :: nat
  sh_component :: str
  sh_component_version :: str
  sh_component_sha256 :: str
  sh_created_at_ms :: nat
  sh_entries :: nat
  sh_bytes :: nat
  sh_sha256 :: str

record component_snapshot =
  sn_header :: snapshot_header
  sn_entries :: "(bytes \<times> bytes) list"

record export_options =
  eo_level :: int
  eo_page :: nat
  eo_max_bytes :: nat

definition export_default :: export_options where
  "export_default = \<lparr>eo_level = 3, eo_page = 512, eo_max_bytes = DEFAULT_MAX_BYTES\<rparr>"

record import_options =
  io_expect_component :: "str option"
  io_replace :: bool
  io_expect_version :: "nat option"
  io_expect_sha256 :: "str option"
  io_max_bytes :: nat

definition import_default :: import_options where
  "import_default = \<lparr>io_expect_component = None, io_replace = False, io_expect_version = None,
     io_expect_sha256 = None, io_max_bytes = DEFAULT_MAX_BYTES\<rparr>"

definition head_new :: "nat \<Rightarrow> str \<Rightarrow> str \<Rightarrow> str \<Rightarrow> nat \<Rightarrow> component_error + head" where
  "head_new schema_version component component_version component_sha256 created_at_ms =
    (if schema_version = 0 then Inl (CorruptState VersionZero)
     else
       res_bind (component_info_new component component_version component_sha256) (\<lambda>_.
       Inr \<lparr>hd_format = SNAPSHOT_FORMAT, hd_schema_version = schema_version, hd_component = component,
         hd_component_version = component_version, hd_component_sha256 = component_sha256,
         hd_created_at_ms = created_at_ms\<rparr>))"

definition head_from_header :: "snapshot_header \<Rightarrow> component_error + head" where
  "head_from_header h =
    (if sh_format h \<noteq> SNAPSHOT_FORMAT then Inl (FormatError (UnknownFormat (sh_format h)))
     else head_new (sh_schema_version h) (sh_component h) (sh_component_version h) (sh_component_sha256 h)
       (sh_created_at_ms h))"

section \<open>The payload writer\<close>

text \<open>What was hashed, what was written, and the counts.\<close>

record payload_writer =
  pl_hashed :: bytes
  pl_out :: bytes
  pl_entries :: nat
  pl_bytes :: nat

definition write_hashed :: "bytes \<Rightarrow> payload_writer \<Rightarrow> payload_writer" where
  "write_hashed bs p = p\<lparr>pl_hashed := pl_hashed p @ bs, pl_out := pl_out p @ bs\<rparr>"

definition payload_begin :: "(head \<Rightarrow> bytes) \<Rightarrow> head \<Rightarrow> payload_writer" where
  "payload_begin enc_head head =
    (let json = enc_head head in
     write_hashed json (write_hashed (le 4 (length json))
       \<lparr>pl_hashed = [], pl_out = [], pl_entries = 0, pl_bytes = 0\<rparr>))"

definition payload_entry :: "nat \<Rightarrow> bytes \<Rightarrow> bytes \<Rightarrow> payload_writer \<Rightarrow> component_error + payload_writer" where
  "payload_entry max_bytes key v p =
    (if is_reserved key then Inl (CorruptState EntryReserved)
     else
       res_bind (check_size key (Some v)) (\<lambda>_.
       let added = length key + length v in
       if sat_add64 (pl_bytes p) added > max_bytes then Inl (LimitExceeded LimSnapshot max_bytes (pl_bytes p + added))
       else Inr (write_hashed v (write_hashed (le 4 (length v)) (write_hashed key (write_hashed (le 4 (length key))
         (p\<lparr>pl_entries := pl_entries p + 1, pl_bytes := pl_bytes p + added\<rparr>)))))))"

fun payload_all :: "nat \<Rightarrow> (bytes \<times> bytes) list \<Rightarrow> payload_writer \<Rightarrow> component_error + payload_writer" where
  "payload_all max_bytes [] p = Inr p"
| "payload_all max_bytes ((key, v) # es) p = res_bind (payload_entry max_bytes key v p) (payload_all max_bytes es)"

definition payload_finish :: "(bytes \<Rightarrow> bytes) \<Rightarrow> payload_writer \<Rightarrow> (nat \<times> nat \<times> bytes) \<times> bytes" where
  "payload_finish sha p =
    (let digest = sha (pl_hashed p) in
     ((pl_entries p, pl_bytes p, digest), pl_out p @ FOOTER_TAG @ le 8 (pl_entries p) @ le 8 (pl_bytes p) @ digest))"

text \<open>The header a finished payload is published under.\<close>

definition header_of :: "head \<Rightarrow> nat \<times> nat \<times> bytes \<Rightarrow> snapshot_header" where
  "header_of head = (\<lambda>(count, total_bytes, digest).
     \<lparr>sh_format = SNAPSHOT_FORMAT, sh_schema_version = hd_schema_version head, sh_component = hd_component head,
      sh_component_version = hd_component_version head, sh_component_sha256 = hd_component_sha256 head,
      sh_created_at_ms = hd_created_at_ms head, sh_entries = count, sh_bytes = total_bytes, sh_sha256 = hex digest\<rparr>)"

section \<open>Reading a namespace page by page\<close>

text \<open>The loop of \<open>take\<close> and of \<open>export\<close>; the second component collects the entries.\<close>

fun page_entries :: "nat \<Rightarrow> (bytes \<times> bytes) list \<Rightarrow> payload_writer \<times> (bytes \<times> bytes) list
    \<Rightarrow> component_error + (payload_writer \<times> (bytes \<times> bytes) list)" where
  "page_entries max_bytes [] acc = Inr acc"
| "page_entries max_bytes ((key, v) # es) (p, seen) =
    (if is_reserved key then page_entries max_bytes es (p, seen)
     else res_bind (payload_entry max_bytes key v p) (\<lambda>p. page_entries max_bytes es (p, seen @ [(key, v)])))"

abbreviation beyond :: "bytes option \<Rightarrow> bytes \<Rightarrow> bool" where
  "beyond cursor key \<equiv> (case cursor of Some c \<Rightarrow> \<not> key \<le> c | None \<Rightarrow> True)"

lemma bm_scan_all [simp]: "bm_scan [] m = m"
  by (cases m) (simp_all add: bm_scan_def)

lemma scan_page_result:
  assumes "s_scan_page [] cursor limit s = (Inr es, s')" "limit > 0"
  shows "es = take limit (filter (\<lambda>(key, _). beyond cursor key) (entries s))" "entries s' = entries s"
  using assms
  by (auto simp: store_prog_defs split: sum.splits prod.splits list.splits fault.splits)

lemma beyond_fewer:
  assumes "es = take n (filter (\<lambda>(key, _). beyond cursor key) m)" "es \<noteq> []"
  shows "length (filter (\<lambda>(key, _). beyond (Some (fst (last es))) key) m) < length (filter (\<lambda>(key, _). beyond cursor key) m)"
proof -
  have l: "last es \<in> set (filter (\<lambda>(key, _). beyond cursor key) m)"
    using assms last_in_set [of es] by (metis in_set_takeD)
  then have b: "beyond cursor (fst (last es))" by (simp add: case_prod_unfold)
  have "filter (\<lambda>(key, _). beyond (Some (fst (last es))) key) m =
      filter (\<lambda>(key, _). beyond (Some (fst (last es))) key) (filter (\<lambda>(key, _). beyond cursor key) m)"
    using b by (auto intro!: filter_cong split: option.splits)
  moreover have "length (filter (\<lambda>(key, _). beyond (Some (fst (last es))) key) (filter (\<lambda>(key, _). beyond cursor key) m))
      < length (filter (\<lambda>(key, _). beyond cursor key) m)"
    by (rule length_filter_less [OF l]) (simp add: case_prod_beta)
  ultimately show ?thesis by simp
qed

function read_pages :: "nat \<Rightarrow> nat \<Rightarrow> bytes option \<Rightarrow> payload_writer \<times> (bytes \<times> bytes) list \<Rightarrow> (payload_writer \<times> (bytes \<times> bytes) list) sm" where
  "read_pages page max_bytes cursor acc s =
    (case s_scan_page [] cursor (max page 1) s of
       (Inl e, s') \<Rightarrow> (Inl e, s')
     | (Inr es, s') \<Rightarrow>
         if es = [] then (Inr acc, s')
         else case page_entries max_bytes es acc of
             Inl e \<Rightarrow> (Inl e, s')
           | Inr acc \<Rightarrow> read_pages page max_bytes (Some (fst (last es))) acc s')"
  by pat_completeness auto
termination
proof (relation "measure (\<lambda>(_, _, cursor, _, s). length (filter (\<lambda>(key, _). beyond cursor key) (entries s)))", goal_cases)
  case (2 page max_bytes cursor acc s p s' es acc')
  then have run: "s_scan_page [] cursor (max page 1) s = (Inr es, s')" by simp
  show ?case
    using beyond_fewer [OF scan_page_result(1) [OF run]] scan_page_result(2) [OF run] 2 by simp
qed simp

declare read_pages.simps [simp del]

section \<open>Taking and writing\<close>

definition snapshot_take :: "(bytes \<Rightarrow> bytes) \<Rightarrow> (head \<Rightarrow> bytes) \<Rightarrow> meta \<Rightarrow> nat \<Rightarrow> nat \<Rightarrow> component_snapshot sm" where
  "snapshot_take sha enc_head meta now_ms max_bytes =
     b_then (b_result (head_new (mt_schema_version meta) (mt_component meta) (mt_component_version meta)
       (mt_last_migrated_by meta) now_ms)) (\<lambda>head.
     b_then (read_pages 512 max_bytes None (payload_begin enc_head head, [])) (\<lambda>(p, es).
     b_return \<lparr>sn_header = header_of head (fst (payload_finish sha p)), sn_entries = es\<rparr>))"

definition snapshot_batch :: "component_snapshot \<Rightarrow> component_error + batch" where
  "snapshot_batch sn = batch_from_entries (sn_entries sn)"

definition check_header :: "(bytes \<Rightarrow> bytes) \<Rightarrow> (head \<Rightarrow> bytes) \<Rightarrow> component_snapshot \<Rightarrow> component_error + unit" where
  "check_header sha enc_head sn =
     res_bind (head_from_header (sn_header sn)) (\<lambda>head.
     res_bind (payload_all DEFAULT_MAX_BYTES (sn_entries sn) (payload_begin enc_head head)) (\<lambda>p.
     let (count, total_bytes, digest) = fst (payload_finish sha p) in
     if count \<noteq> sh_entries (sn_header sn) \<or> total_bytes \<noteq> sh_bytes (sn_header sn) \<or> hex digest \<noteq> sh_sha256 (sn_header sn)
     then Inl (CorruptState HeaderWrong) else Inr ()))"

definition snapshot_write :: "(bytes \<Rightarrow> bytes) \<Rightarrow> (head \<Rightarrow> bytes) \<Rightarrow> (int \<Rightarrow> bytes \<Rightarrow> bytes) \<Rightarrow> int \<Rightarrow> component_snapshot
    \<Rightarrow> component_error + bytes" where
  "snapshot_write sha enc_head zc level sn =
     res_bind (check_header sha enc_head sn) (\<lambda>_.
     res_bind (head_from_header (sn_header sn)) (\<lambda>head.
     res_bind (payload_all DEFAULT_MAX_BYTES (sn_entries sn) (payload_begin enc_head head)) (\<lambda>p.
     Inr (SNAPSHOT_MAGIC @ zc level (snd (payload_finish sha p))))))"

definition snapshot_export :: "(bytes \<Rightarrow> bytes) \<Rightarrow> (head \<Rightarrow> bytes) \<Rightarrow> (int \<Rightarrow> bytes \<Rightarrow> bytes) \<Rightarrow> meta \<Rightarrow> nat \<Rightarrow> export_options
    \<Rightarrow> (snapshot_header \<times> bytes) sm" where
  "snapshot_export sha enc_head zc meta now_ms opts =
     b_then (b_result (head_new (mt_schema_version meta) (mt_component meta) (mt_component_version meta)
       (mt_last_migrated_by meta) now_ms)) (\<lambda>head.
     b_then (read_pages (eo_page opts) (eo_max_bytes opts) None (payload_begin enc_head head, [])) (\<lambda>(p, es).
     let (counts, out) = payload_finish sha p in
     b_return (header_of head counts, SNAPSHOT_MAGIC @ zc (eo_level opts) out)))"

section \<open>Reading and importing\<close>

definition stream_take :: "nat \<Rightarrow> bytes \<Rightarrow> component_error + (bytes \<times> bytes)" where
  "stream_take n bs = (if n \<le> length bs then Inr (take n bs, drop n bs) else Inl (FormatError EntryTruncated))"

definition stream_length :: "bytes \<Rightarrow> component_error + (nat \<times> bytes)" where
  "stream_length bs = res_bind (stream_take 4 bs) (\<lambda>(n, bs). Inr (of_le n, bs))"

definition read_entry :: "bytes \<Rightarrow> component_error + ((bytes \<times> bytes) \<times> bytes)" where
  "read_entry bs =
     res_bind (stream_length bs) (\<lambda>(key_len, bs).
     res_bind (stream_take key_len bs) (\<lambda>(key, bs).
     res_bind (stream_length bs) (\<lambda>(value_len, bs).
     res_bind (stream_take value_len bs) (\<lambda>(v, bs).
     if is_reserved key then Inl (CorruptState EntryReserved)
     else res_bind (check_size key (Some v)) (\<lambda>_. Inr ((key, v), bs))))))"

lemma read_entry_shorter: "read_entry bs = Inr (e, rest) \<Longrightarrow> length rest < length bs"
  by (auto simp: read_entry_def stream_length_def stream_take_def res_bind_Inr split: if_splits)

function read_entries :: "bytes \<Rightarrow> component_error + (bytes \<times> bytes) list" where
  "read_entries bs =
    (if bs = [] then Inr []
     else case read_entry bs of
         Inl e \<Rightarrow> Inl e
       | Inr (e, rest) \<Rightarrow> res_bind (read_entries rest) (\<lambda>es. Inr (e # es)))"
  by pat_completeness auto
termination
  by (relation "measure length") (auto dest: read_entry_shorter)

declare read_entries.simps [simp del]

definition entries_bytes :: "(bytes \<times> bytes) list \<Rightarrow> nat" where
  "entries_bytes es = (\<Sum>(key, v)\<leftarrow>es. length key + length v)"

definition read_payload :: "(bytes \<Rightarrow> bytes) \<Rightarrow> (bytes \<Rightarrow> head option) \<Rightarrow> bytes
    \<Rightarrow> component_error + (head \<times> (bytes \<times> bytes) list \<times> snapshot_header)" where
  "read_payload sha dec_head pay =
    (if length pay < FOOTER_LEN then Inl (FormatError NoRoomForFooter)
     else
       let foot_start = length pay - FOOTER_LEN;
           head_end = 4 + of_le (take 4 pay);
           foot = drop foot_start pay in
       if head_end > foot_start then Inl (FormatError HeadPastEnd)
       else case dec_head (drop 4 (take head_end pay)) of
           None \<Rightarrow> Inl (FormatError HeadParse)
         | Some head \<Rightarrow>
             if hd_format head \<noteq> SNAPSHOT_FORMAT then Inl (FormatError (UnknownFormat (hd_format head)))
             else
               res_bind (component_info_new (hd_component head) (hd_component_version head) (hd_component_sha256 head)) (\<lambda>_.
               if hd_schema_version head = 0 then Inl (FormatError SchemaZero)
               else
                 res_bind (read_entries (drop head_end (take foot_start pay))) (\<lambda>es.
                 if take 4 foot \<noteq> FOOTER_TAG then Inl (FormatError NoFooter)
                 else
                   let footer_entries = of_le (take 8 (drop 4 foot));
                       footer_bytes = of_le (take 8 (drop 12 foot));
                       recorded = take 32 (drop 20 foot);
                       computed = sha (take foot_start pay) in
                   if computed \<noteq> recorded then Inl (ChecksumMismatch recorded computed)
                   else if footer_entries \<noteq> length es \<or> footer_bytes \<noteq> entries_bytes es
                   then Inl (FormatError CountsWrong)
                   else Inr (head, es, header_of head (footer_entries, footer_bytes, recorded)))))"

definition read_snapshot :: "(bytes \<Rightarrow> bytes) \<Rightarrow> (bytes \<Rightarrow> head option) \<Rightarrow> (bytes \<Rightarrow> bytes \<times> str option) \<Rightarrow> bytes \<Rightarrow> nat
    \<Rightarrow> component_error + (head \<times> (bytes \<times> bytes) list \<times> snapshot_header)" where
  "read_snapshot sha dec_head zd input max_bytes =
    (if length input < 8 then Inl (FormatError NoFileMagic)
     else if take 8 input \<noteq> SNAPSHOT_MAGIC then Inl (FormatError BadFileMagic)
     else
       let (decoded, err) = zd (drop 8 input);
           most = sat_add64 max_bytes 1;
           pay = take most decoded in
       case (if length decoded < most then err else None) of
         Some why \<Rightarrow> Inl (FormatError (ZstdBroken why))
       | None \<Rightarrow>
           if length pay > max_bytes then Inl (LimitExceeded LimPayload max_bytes (length pay))
           else read_payload sha dec_head pay)"

definition snapshot_verify :: "(bytes \<Rightarrow> bytes) \<Rightarrow> (bytes \<Rightarrow> head option) \<Rightarrow> (bytes \<Rightarrow> bytes \<times> str option) \<Rightarrow> bytes
    \<Rightarrow> import_options \<Rightarrow> component_error + snapshot_header" where
  "snapshot_verify sha dec_head zd input opts =
     res_bind (read_snapshot sha dec_head zd input (io_max_bytes opts)) (\<lambda>(head, es, header). Inr header)"

fun del_all :: "bytes list \<Rightarrow> unit sm" where
  "del_all [] = b_return ()"
| "del_all (key # ks) = b_then (s_del key) (\<lambda>_. del_all ks)"

fun put_all :: "(bytes \<times> bytes) list \<Rightarrow> unit sm" where
  "put_all [] = b_return ()"
| "put_all ((key, v) # es) = b_then (s_put key v) (\<lambda>_. put_all es)"

text \<open>One optional requirement on the header.\<close>

definition expect :: "'a option \<Rightarrow> 'a \<Rightarrow> ('a \<Rightarrow> 'a \<Rightarrow> component_error) \<Rightarrow> component_error + unit" where
  "expect expected found err = (case expected of
       Some want \<Rightarrow> if found \<noteq> want then Inl (err want found) else Inr ()
     | None \<Rightarrow> Inr ())"

definition snapshot_import :: "(bytes \<Rightarrow> bytes) \<Rightarrow> (bytes \<Rightarrow> head option) \<Rightarrow> (bytes \<Rightarrow> bytes \<times> str option) \<Rightarrow> bytes
    \<Rightarrow> nat \<Rightarrow> import_options \<Rightarrow> snapshot_header sm" where
  "snapshot_import sha dec_head zd input now_ms opts =
     b_then (b_result (read_snapshot sha dec_head zd input (io_max_bytes opts))) (\<lambda>(head, es, header).
     b_then (b_result (expect (io_expect_component opts) (sh_component header) OwnerMismatch)) (\<lambda>_.
     b_then (b_result (expect (io_expect_version opts) (sh_schema_version header) SchemaVersionMismatch)) (\<lambda>_.
     b_then (b_result (expect (io_expect_sha256 opts) (sh_component_sha256 header) ComponentMismatch)) (\<lambda>_.
     b_then user_keys (\<lambda>existing.
     b_then (if existing = [] then b_return ()
             else if \<not> io_replace opts then b_fail (NotEmpty (length existing))
             else
               b_then (del_all existing) (\<lambda>_.
               b_then (s_del KEY_JOURNAL) (\<lambda>_. s_del KEY_PENDING))) (\<lambda>_.
     b_then (put_all es) (\<lambda>_.
     b_then (meta_write \<lparr>mt_schema_version = hd_schema_version head, mt_component = hd_component head,
         mt_component_version = hd_component_version head, mt_last_migrated_by = hd_component_sha256 head,
         mt_created_at_ms = hd_created_at_ms head, mt_last_migrated_at_ms = now_ms\<rparr> now_ms) (\<lambda>_.
     b_return header))))))))"

end
