(* ===== verification/StateMigrate.thy ===== *)
theory StateMigrate
  imports StateSnapshot
begin

text \<open>
  \<open>rust/wa-state/src/migrate.rs\<close>: the registry of steps and the plan, the crash journal, the dry run and
  the migration.  The parameters of the formats are one record: SHA-256, the snapshot header's JSON and
  the journal's JSON.  A step function is a program over the batch, the snapshot sink a function that
  accepts or refuses.
\<close>

section \<open>Steps and plans\<close>

record migration_step =
  sp_from :: nat
  sp_name :: str
  sp_up :: "unit batchm"
  sp_down :: "unit batchm option"

definition step_new :: "nat \<Rightarrow> str \<Rightarrow> unit batchm \<Rightarrow> migration_step" where
  "step_new v name up = \<lparr>sp_from = v, sp_name = name, sp_up = up, sp_down = None\<rparr>"

definition step_down :: "migration_step \<Rightarrow> unit batchm \<Rightarrow> migration_step" where
  "step_down st down = st\<lparr>sp_down := Some down\<rparr>"

definition step_to :: "migration_step \<Rightarrow> nat" where
  "step_to st = wrap32 (sp_from st + 1)"

definition has_down :: "migration_step \<Rightarrow> bool" where
  "has_down st \<longleftrightarrow> sp_down st \<noteq> None"

definition apply_up :: "migration_step \<Rightarrow> unit batchm" where
  "apply_up st = sp_up st"

definition apply_down :: "migration_step \<Rightarrow> unit batchm" where
  "apply_down st = (case sp_down st of
       Some down \<Rightarrow> down
     | None \<Rightarrow> b_fail (NoMigrationPath (step_to st) (sp_from st) (sp_from st) Down))"

type_synonym registry = "(nat, migration_step) btree"

fun registry_loop :: "migration_step list \<Rightarrow> registry \<Rightarrow> component_error + registry" where
  "registry_loop [] m = Inr m"
| "registry_loop (st # sts) m =
    (if sp_from st = 0 then Inl (CorruptState StepFromZero)
     else if trim (sp_name st) = [] then Inl (CorruptState StepUnnamed)
     else if bm_get m (sp_from st) \<noteq> None then Inl (CorruptState StepTwice)
     else registry_loop sts (bm_insert (sp_from st) st m))"

definition registry_new :: "migration_step list \<Rightarrow> component_error + registry" where
  "registry_new sts = registry_loop sts []"

definition registry_latest :: "registry \<Rightarrow> nat option" where
  "registry_latest reg = (if reg = [] then None else Some (Max (set (map (step_to \<circ> snd) reg))))"

definition registry_step :: "registry \<Rightarrow> nat \<Rightarrow> migration_step option" where
  "registry_step reg v = bm_get reg v"

record planned_step =
  pn_step :: migration_step
  pn_direction :: direction

fun plan_up :: "registry \<Rightarrow> nat \<Rightarrow> nat \<Rightarrow> nat list \<Rightarrow> component_error + planned_step list" where
  "plan_up reg src dst [] = Inr []"
| "plan_up reg src dst (v # vs) = (case bm_get reg v of
       None \<Rightarrow> Inl (NoMigrationPath src dst v Up)
     | Some st \<Rightarrow> res_bind (plan_up reg src dst vs) (\<lambda>ps. Inr (\<lparr>pn_step = st, pn_direction = Up\<rparr> # ps)))"

fun plan_down :: "registry \<Rightarrow> nat \<Rightarrow> nat \<Rightarrow> nat list \<Rightarrow> component_error + planned_step list" where
  "plan_down reg src dst [] = Inr []"
| "plan_down reg src dst (v # vs) = (case bm_get reg v of
       None \<Rightarrow> Inl (NoMigrationPath src dst v Down)
     | Some st \<Rightarrow>
         if \<not> has_down st then Inl (NoMigrationPath src dst v Down)
         else res_bind (plan_down reg src dst vs) (\<lambda>ps. Inr (\<lparr>pn_step = st, pn_direction = Down\<rparr> # ps)))"

definition migration_plan :: "registry \<Rightarrow> nat \<Rightarrow> nat \<Rightarrow> bool \<Rightarrow> component_error + planned_step list" where
  "migration_plan reg src dst allow_downgrade =
    (if src = dst then Inr []
     else if src < dst then plan_up reg src dst [src..<dst]
     else if \<not> allow_downgrade then Inl (DowngradeRefused src dst)
     else plan_down reg src dst (rev [dst..<src]))"

definition planned_from :: "planned_step \<Rightarrow> nat" where
  "planned_from p = (case pn_direction p of Up \<Rightarrow> sp_from (pn_step p) | Down \<Rightarrow> step_to (pn_step p))"

definition planned_to :: "planned_step \<Rightarrow> nat" where
  "planned_to p = (case pn_direction p of Up \<Rightarrow> step_to (pn_step p) | Down \<Rightarrow> sp_from (pn_step p))"

definition planned_apply :: "planned_step \<Rightarrow> unit batchm" where
  "planned_apply p = (case pn_direction p of Up \<Rightarrow> apply_up (pn_step p) | Down \<Rightarrow> apply_down (pn_step p))"

text \<open>\<open>let mut next = batch.clone(); planned.apply(\&mut next)?\<close>\<close>

definition next_batch :: "planned_step \<Rightarrow> batch \<Rightarrow> component_error + batch" where
  "next_batch p b = (case planned_apply p b of (Inl e, _) \<Rightarrow> Inl e | (Inr _, next) \<Rightarrow> Inr next)"

section \<open>The journal\<close>

record pending_step =
  ps_from :: nat
  ps_to :: nat
  ps_name :: str
  ps_direction :: direction
  ps_applied :: nat

record journal =
  jn_from :: nat
  jn_target :: nat
  jn_done_upto :: nat
  jn_started_at_ms :: nat
  jn_attempts :: nat
  jn_component :: str
  jn_pending_step :: "pending_step option"

definition MAX_JOURNAL_JSON :: nat where "MAX_JOURNAL_JSON = 4 * 1024 * 1024"

record formats =
  ft_sha :: "bytes \<Rightarrow> bytes"
  ft_head :: "head \<Rightarrow> bytes"
  ft_journal :: "journal \<Rightarrow> bytes"
  ft_read_journal :: "bytes \<Rightarrow> journal option"

definition read_journal :: "formats \<Rightarrow> journal option sm" where
  "read_journal ft = b_then (s_get KEY_JOURNAL) (\<lambda>r. case r of
       None \<Rightarrow> b_return None
     | Some raw \<Rightarrow>
         if length raw > MAX_JOURNAL_JSON then b_fail (LimitExceeded LimJournal MAX_JOURNAL_JSON (length raw))
         else case ft_read_journal ft raw of
             Some j \<Rightarrow> b_return (Some j)
           | None \<Rightarrow> b_fail (CorruptState JournalParse))"

definition write_journal :: "formats \<Rightarrow> journal \<Rightarrow> unit sm" where
  "write_journal ft j = s_put KEY_JOURNAL (ft_journal ft j)"

definition clear_journal :: "unit sm" where
  "clear_journal = b_then (s_del KEY_JOURNAL) (\<lambda>_. s_del KEY_PENDING)"

definition set_applied :: "nat \<Rightarrow> journal \<Rightarrow> journal" where
  "set_applied n j = j\<lparr>jn_pending_step := map_option (\<lambda>p. p\<lparr>ps_applied := n\<rparr>) (jn_pending_step j)\<rparr>"

section \<open>Options and reports\<close>

record migrate_options =
  op_allow_downgrade :: bool
  op_checkpoint_every :: nat
  op_max_batch_bytes :: nat
  op_max_journal_bytes :: nat

definition migrate_default :: migrate_options where
  "migrate_default = \<lparr>op_allow_downgrade = False, op_checkpoint_every = 32,
     op_max_batch_bytes = 256 * 1024 * 1024, op_max_journal_bytes = 256 * 1024 * 1024\<rparr>"

record step_report =
  sr_from :: nat
  sr_to :: nat
  sr_name :: str
  sr_counts :: change_counts
  sr_resumed :: bool

record migration_report =
  mr_from :: nat
  mr_target :: nat
  mr_final_version :: nat
  mr_steps :: "step_report list"
  mr_totals :: change_counts
  mr_resumed :: bool
  mr_dry_run :: bool
  mr_snapshot :: "component_snapshot option"

definition report_new :: "nat \<Rightarrow> nat \<Rightarrow> bool \<Rightarrow> component_snapshot option \<Rightarrow> migration_report" where
  "report_new v target dry_run sn = \<lparr>mr_from = v, mr_target = target, mr_final_version = v, mr_steps = [],
     mr_totals = counts_zero, mr_resumed = False, mr_dry_run = dry_run, mr_snapshot = sn\<rparr>"

definition report_step :: "nat \<Rightarrow> nat \<Rightarrow> str \<Rightarrow> change_counts \<Rightarrow> bool \<Rightarrow> migration_report \<Rightarrow> migration_report" where
  "report_step v w name counts resumed r =
     r\<lparr>mr_steps := mr_steps r @ [\<lparr>sr_from = v, sr_to = w, sr_name = name, sr_counts = counts, sr_resumed = resumed\<rparr>],
       mr_totals := counts_add (mr_totals r) counts\<rparr>"

record migrator =
  mg_registry :: registry
  mg_info :: component_info
  mg_options :: migrate_options

definition migrator_new :: "registry \<Rightarrow> component_info \<Rightarrow> migrator" where
  "migrator_new reg info = \<lparr>mg_registry = reg, mg_info = info, mg_options = migrate_default\<rparr>"

definition migrator_options :: "migrate_options \<Rightarrow> migrator \<Rightarrow> migrator" where
  "migrator_options opts mg = mg\<lparr>mg_options := opts\<rparr>"

definition open_meta :: "migrator \<Rightarrow> meta sm" where
  "open_meta mg =
     b_then (b_result (validate_info (mg_info mg))) (\<lambda>_.
     b_then meta_read (\<lambda>found. case found of
       None \<Rightarrow> b_fail (Uninitialised 0)
     | Some meta \<Rightarrow>
         if mt_component meta \<noteq> ci_id (mg_info mg)
         then b_fail (OwnerMismatch (ci_id (mg_info mg)) (mt_component meta))
         else b_return meta))"

section \<open>Applying changes\<close>

fun apply_to_batch :: "change list \<Rightarrow> change_counts \<Rightarrow> change_counts batchm" where
  "apply_to_batch [] counts = b_return counts"
| "apply_to_batch (Put key v # cs) counts =
     b_then (b_query (\<lambda>b. bm_get b key)) (\<lambda>old. case old of
       None \<Rightarrow> b_then (batch_insert key v) (\<lambda>_. apply_to_batch cs (counts\<lparr>cc_added := cc_added counts + 1\<rparr>))
     | Some was \<Rightarrow>
         if was \<noteq> v then b_then (batch_insert key v) (\<lambda>_. apply_to_batch cs (counts\<lparr>cc_changed := cc_changed counts + 1\<rparr>))
         else apply_to_batch cs (counts\<lparr>cc_unchanged := cc_unchanged counts + 1\<rparr>))"
| "apply_to_batch (Del key # cs) counts =
     b_then (batch_remove key) (\<lambda>old.
     apply_to_batch cs (if old \<noteq> None then counts\<lparr>cc_removed := cc_removed counts + 1\<rparr> else counts))"

definition write_change :: "change \<Rightarrow> unit sm" where
  "write_change c = (case c of Put key v \<Rightarrow> s_put key v | Del key \<Rightarrow> s_del key)"

text \<open>The loop over \<open>changes[index..]\<close> of a list of \<open>all\<close> changes.\<close>

fun apply_changes :: "formats \<Rightarrow> migrate_options \<Rightarrow> nat \<Rightarrow> journal \<Rightarrow> nat \<Rightarrow> change list \<Rightarrow> unit sm" where
  "apply_changes ft opts all j index [] = b_return ()"
| "apply_changes ft opts all j index (c # cs) =
     b_then (write_change c) (\<lambda>_.
     let done = index + 1;
         checkpoint = (op_checkpoint_every opts = 0 \<or> done mod op_checkpoint_every opts = 0 \<or> done = all) in
     if checkpoint \<and> done < all
     then b_then (write_journal ft (set_applied done j)) (\<lambda>_. apply_changes ft opts all (set_applied done j) done cs)
     else apply_changes ft opts all j done cs)"

section \<open>The dry run\<close>

fun dry_run_loop :: "planned_step list \<Rightarrow> batch \<Rightarrow> nat \<Rightarrow> migration_report \<Rightarrow> component_error + (nat \<times> migration_report)" where
  "dry_run_loop [] b v r = Inr (v, r)"
| "dry_run_loop (p # ps) b v r =
     res_bind (next_batch p b) (\<lambda>next.
     dry_run_loop ps next (planned_to p)
       (report_step (planned_from p) (planned_to p) (sp_name (pn_step p)) (fst (diff b next)) False r))"

text \<open>The changes a journal's step has pending.\<close>

definition pending_changes :: "change list sm" where
  "pending_changes = b_then (s_get KEY_PENDING) (\<lambda>raw. case raw of
       Some raw \<Rightarrow> b_result (decode_changes raw)
     | None \<Rightarrow> b_fail (JournalInconsistent PendingMissing))"

definition apply_rest :: "change list \<Rightarrow> nat \<Rightarrow> batch \<Rightarrow> component_error + (change_counts \<times> batch)" where
  "apply_rest changes applied b = (case apply_to_batch (drop applied changes) counts_zero b of
       (Inl e, _) \<Rightarrow> Inl e
     | (Inr counts, b) \<Rightarrow> Inr (counts, b))"

definition dry_run_resume :: "nat \<Rightarrow> journal option \<Rightarrow> batch \<Rightarrow> migration_report \<Rightarrow> (nat \<times> batch \<times> migration_report) sm" where
  "dry_run_resume v found b r = (case found of
       None \<Rightarrow> b_return (v, b, r)
     | Some j \<Rightarrow> (case jn_pending_step j of
         None \<Rightarrow> b_return (v, b, r)
       | Some pending \<Rightarrow>
           let r = r\<lparr>mr_resumed := True\<rparr> in
           if v = ps_from pending then
             b_then pending_changes (\<lambda>changes.
             b_then (b_result (apply_rest changes (min (ps_applied pending) (length changes)) b)) (\<lambda>(counts, b).
             b_return (ps_to pending, b,
               report_step (ps_from pending) (ps_to pending) (ps_name pending) counts True r)))
           else b_return (v, b, r)))"

definition dry_run :: "formats \<Rightarrow> migrator \<Rightarrow> nat \<Rightarrow> migration_report sm" where
  "dry_run ft mg target =
     b_then (open_meta mg) (\<lambda>meta.
     b_then (batch_load (op_max_batch_bytes (mg_options mg))) (\<lambda>b.
     b_then (read_journal ft) (\<lambda>found.
     b_then (dry_run_resume (mt_schema_version meta) found b
       (report_new (mt_schema_version meta) target True None)) (\<lambda>(v, b, r).
     b_then (b_result (migration_plan (mg_registry mg) v target (op_allow_downgrade (mg_options mg)))) (\<lambda>ps.
     b_then (b_result (dry_run_loop ps b v r)) (\<lambda>(v, r).
     b_return (r\<lparr>mr_final_version := v\<rparr>)))))))"

section \<open>The migration\<close>

text \<open>Replay a journaled step from the first change not known to be applied.\<close>

definition replay_step :: "formats \<Rightarrow> migrator \<Rightarrow> journal \<Rightarrow> pending_step \<Rightarrow> migration_step \<Rightarrow> change list \<Rightarrow> nat \<Rightarrow> batch
    \<Rightarrow> migration_report \<Rightarrow> (nat \<times> batch \<times> migration_report) sm" where
  "replay_step ft mg j pending st changes now_ms b r =
    (let applied = min (ps_applied pending) (length changes) in
     b_then (b_result (apply_rest changes applied b)) (\<lambda>(counts, b).
     let replay = (set_applied applied j)\<lparr>jn_attempts := sat_add32 (jn_attempts j) 1\<rparr> in
     b_then (write_journal ft replay) (\<lambda>_.
     b_then (apply_changes ft (mg_options mg) (length changes) replay applied (drop applied changes)) (\<lambda>_.
     b_then (set_schema_version (ps_to pending) now_ms) (\<lambda>_.
     b_then clear_journal (\<lambda>_.
     b_return (ps_to pending, b,
       report_step (ps_from pending) (ps_to pending) (sp_name st) counts True r)))))))"

definition resume :: "formats \<Rightarrow> migrator \<Rightarrow> journal \<Rightarrow> pending_step \<Rightarrow> nat \<Rightarrow> batch \<Rightarrow> migration_report
    \<Rightarrow> (nat \<times> batch \<times> migration_report) sm" where
  "resume ft mg j pending now_ms b r =
     (case registry_step (mg_registry mg) (ps_from pending) of
        None \<Rightarrow> b_fail (JournalInconsistent (StepGone (ps_from pending) (ps_to pending)))
      | Some st \<Rightarrow>
          if step_to st \<noteq> ps_to pending then b_fail (JournalInconsistent (StepGone (ps_from pending) (ps_to pending)))
          else
            b_then pending_changes (\<lambda>changes.
            b_then meta_read (\<lambda>found. case found of
              None \<Rightarrow> b_fail (Uninitialised 0)
            | Some meta \<Rightarrow>
                if mt_schema_version meta = ps_to pending then
                  b_then clear_journal (\<lambda>_. b_return (mt_schema_version meta, b, r))
                else if mt_schema_version meta \<noteq> ps_from pending then
                  b_fail (JournalInconsistent (VersionOff (mt_schema_version meta) (ps_from pending) (ps_to pending)))
                else
                  replay_step ft mg j pending st changes now_ms b r)))"

text \<open>The journal a step starts with.\<close>

definition step_journal :: "migrator \<Rightarrow> nat \<Rightarrow> nat \<Rightarrow> nat \<Rightarrow> planned_step \<Rightarrow> journal" where
  "step_journal mg v target now_ms p =
     \<lparr>jn_from = v, jn_target = target, jn_done_upto = v, jn_started_at_ms = now_ms, jn_attempts = 1,
      jn_component = ci_id (mg_info mg),
      jn_pending_step = Some \<lparr>ps_from = v, ps_to = planned_to p, ps_name = sp_name (pn_step p),
        ps_direction = pn_direction p, ps_applied = 0\<rparr>\<rparr>"

text \<open>Journal a step's changes and apply them.\<close>

definition perform_step :: "formats \<Rightarrow> migrator \<Rightarrow> journal \<Rightarrow> change list \<Rightarrow> unit sm" where
  "perform_step ft mg j changes =
     b_then (b_result (validate_changes changes)) (\<lambda>_.
     let encoded = encode_changes changes in
     if length encoded > op_max_journal_bytes (mg_options mg)
     then b_fail (LimitExceeded LimChangeList (op_max_journal_bytes (mg_options mg)) (length encoded))
     else
       b_then (s_put KEY_PENDING encoded) (\<lambda>_.
       b_then (write_journal ft j) (\<lambda>_.
       apply_changes ft (mg_options mg) (length changes) j 0 changes)))"

fun migrate_loop :: "formats \<Rightarrow> migrator \<Rightarrow> nat \<Rightarrow> nat \<Rightarrow> planned_step list \<Rightarrow> batch \<Rightarrow> nat \<Rightarrow> migration_report
    \<Rightarrow> (nat \<times> migration_report) sm" where
  "migrate_loop ft mg target now_ms [] b v r = b_return (v, r)"
| "migrate_loop ft mg target now_ms (p # ps) b v r =
     b_then (b_result (next_batch p b)) (\<lambda>next.
     let (counts, changes) = diff b next in
     b_then (if changes = [] then b_return () else perform_step ft mg (step_journal mg v target now_ms p) changes) (\<lambda>_.
     b_then (set_schema_version (planned_to p) now_ms) (\<lambda>_.
     b_then (if changes = [] then b_return () else clear_journal) (\<lambda>_.
     migrate_loop ft mg target now_ms ps next (planned_to p)
       (report_step (planned_from p) (planned_to p) (sp_name (pn_step p)) counts False r)))))"

text \<open>Finish, or drop, what an earlier run left behind.\<close>

definition settle_journal :: "formats \<Rightarrow> migrator \<Rightarrow> nat \<Rightarrow> nat \<Rightarrow> batch \<Rightarrow> migration_report \<Rightarrow> (nat \<times> batch \<times> migration_report) sm" where
  "settle_journal ft mg v now_ms b r =
     b_then (read_journal ft) (\<lambda>found.
     b_then (case found of
         None \<Rightarrow> b_return (v, b, r)
       | Some j \<Rightarrow> (case jn_pending_step j of
           Some pending \<Rightarrow>
             b_then (resume ft mg j pending now_ms b r) (\<lambda>(v, b, r). b_return (v, b, r\<lparr>mr_resumed := True\<rparr>))
         | None \<Rightarrow> b_then clear_journal (\<lambda>_. b_return (v, b, r)))) (\<lambda>at_rest.
     b_then (s_get KEY_PENDING) (\<lambda>stray.
     b_then (if stray = None then b_return ()
             else b_then (read_journal ft) (\<lambda>found. if found = None then s_del KEY_PENDING else b_return ())) (\<lambda>_.
     b_return at_rest))))"

definition migrate :: "formats \<Rightarrow> migrator \<Rightarrow> (meta \<Rightarrow> component_snapshot \<Rightarrow> component_error + unit) \<Rightarrow> nat \<Rightarrow> nat \<Rightarrow> migration_report sm" where
  "migrate ft mg sink target now_ms =
     b_then (open_meta mg) (\<lambda>meta.
     if target = 0 then b_fail (CorruptState VersionZero)
     else
       b_then (b_result (migration_plan (mg_registry mg) (mt_schema_version meta) target (op_allow_downgrade (mg_options mg)))) (\<lambda>_.
       b_then (snapshot_take (ft_sha ft) (ft_head ft) meta now_ms (op_max_batch_bytes (mg_options mg))) (\<lambda>sn.
       b_then (b_result (sink meta sn)) (\<lambda>_.
       b_then (b_result (snapshot_batch sn)) (\<lambda>b.
       b_then (settle_journal ft mg (mt_schema_version meta) now_ms b
         (report_new (mt_schema_version meta) target False (Some sn))) (\<lambda>(v, b, r).
       b_then (b_result (migration_plan (mg_registry mg) v target (op_allow_downgrade (mg_options mg)))) (\<lambda>ps.
       b_then (migrate_loop ft mg target now_ms ps b v r) (\<lambda>(v, r).
       b_then (if mr_steps r = [] then b_return ()
               else meta_write (meta\<lparr>mt_schema_version := v, mt_last_migrated_by := ci_sha256 (mg_info mg),
                 mt_last_migrated_at_ms := now_ms, mt_component_version := ci_version (mg_info mg)\<rparr>) now_ms) (\<lambda>_.
       b_return (r\<lparr>mr_final_version := v\<rparr>))))))))))"

end
