(* ===== verification/StateBatchLaws.thy ===== *)
theory StateBatchLaws
  imports StateBatch
begin

text \<open>
  Batches and changes: what a list of changes does to a map, that a difference leads from one batch to
  the other, that applying the rest of a list again repairs an interrupted application, and that the
  binary list is read back.
\<close>

section \<open>What a list of changes does\<close>

fun apply_change :: "change \<Rightarrow> batch \<Rightarrow> batch" where
  "apply_change (Put key v) m = bm_insert key v m"
| "apply_change (Del key) m = bm_remove key m"

definition apply_all :: "change list \<Rightarrow> batch \<Rightarrow> batch" where
  "apply_all cs m = fold apply_change cs m"

fun change_value :: "change \<Rightarrow> bytes option" where
  "change_value (Put key v) = Some v"
| "change_value (Del key) = None"

text \<open>The value a list leaves under a key, if it touches the key.\<close>

fun net_effect :: "change list \<Rightarrow> bytes \<Rightarrow> bytes option option" where
  "net_effect [] key = None"
| "net_effect (c # cs) key = (case net_effect cs key of
       Some r \<Rightarrow> Some r
     | None \<Rightarrow> if change_key c = key then Some (change_value c) else None)"

lemma apply_all_simps [simp]:
  "apply_all [] m = m" "apply_all (c # cs) m = apply_all cs (apply_change c m)"
  "apply_all (cs @ ds) m = apply_all ds (apply_all cs m)"
  by (simp_all add: apply_all_def)

lemma get_apply_change: "bm_get (apply_change c m) key = (if change_key c = key then change_value c else bm_get m key)"
  by (cases c) auto

lemma get_apply_all: "bm_get (apply_all cs m) key = (case net_effect cs key of None \<Rightarrow> bm_get m key | Some r \<Rightarrow> r)"
  by (induction cs arbitrary: m) (auto simp: get_apply_change split: option.split)

lemma wf_apply_all [simp]: "bm_wf m \<Longrightarrow> bm_wf (apply_all cs m)"
proof (induction cs arbitrary: m)
  case (Cons c cs)
  then show ?case by (cases c) simp_all
qed simp

lemma net_effect_append: "net_effect (cs @ ds) key = (case net_effect ds key of Some r \<Rightarrow> Some r | None \<Rightarrow> net_effect cs key)"
  by (induction cs) (auto split: option.split)

lemma net_effect_None: "net_effect cs key = None \<longleftrightarrow> key \<notin> change_key ` set cs"
  by (induction cs) (auto split: option.split)

text \<open>An application that stopped after \<open>n\<close> changes is finished by the changes from any \<open>a \<le> n\<close> on.\<close>

lemma apply_resume:
  assumes "a \<le> n" "bm_wf m"
  shows "apply_all (drop a cs) (apply_all (take n cs) m) = apply_all cs m"
proof (rule bm_ext)
  obtain mid where mid: "take n cs = take a cs @ mid" "drop a cs = mid @ drop n cs"
  proof -
    have "take n cs = take a cs @ take (n - a) (drop a cs)"
      using assms(1) by (metis le_add_diff_inverse take_add)
    moreover have "drop a cs = take (n - a) (drop a cs) @ drop n cs"
      using assms(1) by (metis append_take_drop_id drop_drop le_add_diff_inverse2)
    ultimately show ?thesis by (rule that)
  qed
  show "bm_get (apply_all (drop a cs) (apply_all (take n cs) m)) = bm_get (apply_all cs m)"
  proof
    fix key
    have "cs = take a cs @ mid @ drop n cs" using mid by (metis append_take_drop_id)
    then have "net_effect cs key = net_effect (take a cs @ mid @ drop n cs) key" by simp
    then show "bm_get (apply_all (drop a cs) (apply_all (take n cs) m)) key = bm_get (apply_all cs m) key"
      unfolding get_apply_all mid by (auto simp: net_effect_append split: option.split)
  qed
qed (use assms in simp_all)

section \<open>Differences\<close>

lemma diff_puts:
  "snd (fold (diff_put before) es (counts, changes)) =
    changes @ map (\<lambda>(key, v). Put key v) (filter (\<lambda>(key, v). bm_get before key \<noteq> Some v) es)"
proof (induction es arbitrary: counts changes)
  case (Cons e es)
  then show ?case by (cases e) (auto simp: diff_put_def split: option.split)
qed simp

lemma diff_dels:
  "snd (fold (diff_del after) es (counts, changes)) =
    changes @ map (\<lambda>(key, v). Del key) (filter (\<lambda>(key, v). bm_get after key = None) es)"
proof (induction es arbitrary: counts changes)
  case (Cons e es)
  then show ?case by (cases e) (auto simp: diff_del_def batch_contains_key_def)
qed simp

lemma diff_changes:
  "snd (diff before after) = map (\<lambda>(key, v). Put key v) (filter (\<lambda>(key, v). bm_get before key \<noteq> Some v) after)
     @ map (\<lambda>(key, v). Del key) (filter (\<lambda>(key, v). bm_get after key = None) before)"
proof -
  obtain counts changes where puts: "fold (diff_put before) after (counts_zero, []) = (counts, changes)" by fastforce
  then have "changes = map (\<lambda>(key, v). Put key v) (filter (\<lambda>(key, v). bm_get before key \<noteq> Some v) after)"
    using diff_puts [of before after counts_zero "[]"] by simp
  then show ?thesis by (simp add: diff_def puts diff_dels)
qed

lemma diff_keys: "bm_wf before \<Longrightarrow> bm_wf after \<Longrightarrow> distinct (map change_key (snd (diff before after)))"
proof -
  assume wf: "bm_wf before" "bm_wf after"
  have p: "map change_key (map (\<lambda>(key, v). Put key v) (filter P es)) = map fst (filter P es)" for P es
    by (induction es) auto
  have d: "map change_key (map (\<lambda>(key, v). Del key) (filter P es)) = map fst (filter P es)" for P and es :: batch
    by (induction es) auto
  show ?thesis
    unfolding diff_changes map_append p d
    using bm_wf_distinct [OF bm_wf_filter [OF wf(1)]] bm_wf_distinct [OF bm_wf_filter [OF wf(2)]]
    by (auto simp: map_of_eq_None_iff) force
qed

lemma net_effect_distinct:
  "distinct (map change_key cs) \<Longrightarrow> c \<in> set cs \<Longrightarrow> net_effect cs (change_key c) = Some (change_value c)"
proof (induction cs)
  case (Cons d cs)
  then show ?case
  proof (cases "c = d")
    case True
    then have "net_effect cs (change_key c) = None" using Cons.prems by (simp add: net_effect_None)
    then show ?thesis using True by simp
  qed simp
qed simp

text \<open>Applied to the batch it starts from, a difference gives the other batch.\<close>

lemma diff_apply:
  assumes "bm_wf before" "bm_wf after"
  shows "apply_all (snd (diff before after)) before = after"
proof (rule bm_ext)
  let ?cs = "snd (diff before after)"
  note keys = diff_keys [OF assms]
  show "bm_get (apply_all ?cs before) = bm_get after"
  proof
    fix key
    show "bm_get (apply_all ?cs before) key = bm_get after key"
    proof (cases "bm_get after key")
      case (Some v)
      show ?thesis
      proof (cases "bm_get before key = Some v")
        case True
        then have "net_effect ?cs key = None"
          using Some assms by (auto simp: net_effect_None diff_changes simp flip: bm_get_in)
        then show ?thesis using True Some by (simp add: get_apply_all)
      next
        case False
        then have "Put key v \<in> set ?cs"
          using Some assms(2) by (force simp: diff_changes bm_get_in)
        from net_effect_distinct [OF keys this] show ?thesis using Some by (simp add: get_apply_all)
      qed
    next
      case None
      show ?thesis
      proof (cases "bm_get before key")
        case n: None
        then have "net_effect ?cs key = None"
          using None by (auto simp: net_effect_None diff_changes map_of_eq_None_iff dest: map_of_SomeD) (metis fst_conv image_eqI)+
        then show ?thesis using None n by (simp add: get_apply_all)
      next
        case (Some v)
        then have "Del key \<in> set ?cs"
          using None by (force simp: diff_changes dest: map_of_SomeD)
        from net_effect_distinct [OF keys this] show ?thesis using None by (simp add: get_apply_all)
      qed
    qed
  qed
qed (use assms in simp_all)

lemma diff_none: "bm_wf before \<Longrightarrow> bm_wf after \<Longrightarrow> snd (diff before after) = [] \<Longrightarrow> after = before"
  using diff_apply [of before after] by simp

section \<open>The encoding\<close>

text \<open>What \<open>decode\_changes\<close> accepts in a change, and \<open>validate\_changes\<close> in a list.\<close>

definition change_ok :: "change \<Rightarrow> bool" where
  "change_ok c \<longleftrightarrow> length (change_key c) \<le> MAX_KEY_BYTES \<and> \<not> is_reserved (change_key c) \<and>
     (case change_value c of Some v \<Rightarrow> length v \<le> MAX_VALUE_BYTES | None \<Rightarrow> True)"

lemma validate_ok: "list_all change_ok cs \<Longrightarrow> validate_changes cs = Inr ()"
  unfolding validate_changes_def try_all_Inr list_all_iff change_ok_def
  by (auto simp: check_size_def not_less split: change.splits)

lemma journal_sized_put: "length bs \<le> u32_max \<Longrightarrow> journal_sized (put_sized bs @ rest) = Inr (bs, rest)"
  by (simp add: journal_sized_def journal_length_def journal_take_def put_sized_def of_le_le)

lemma decode_encode_change:
  assumes "change_ok c" "change_key c \<notin> seen"
  shows "decode_change seen (encode_change c @ rest) = Inr (c, rest)"
  using assms
  by (cases c)
     (auto simp: change_ok_def decode_change_def journal_take_def journal_sized_put MAX_KEY_BYTES_def MAX_VALUE_BYTES_def)

lemma decode_loop_encode:
  assumes "list_all change_ok cs" "distinct (map change_key cs)" "\<forall>c \<in> set cs. change_key c \<notin> seen"
  shows "decode_loop (length cs) seen done (concat (map encode_change cs) @ rest) = Inr (done @ cs, rest)"
  using assms
proof (induction cs arbitrary: seen "done")
  case (Cons c cs)
  have "decode_change seen (encode_change c @ concat (map encode_change cs) @ rest) = Inr (c, concat (map encode_change cs) @ rest)"
    using Cons.prems by (intro decode_encode_change) simp_all
  moreover have "decode_loop (length cs) (insert (change_key c) seen) (done @ [c]) (concat (map encode_change cs) @ rest)
      = Inr ((done @ [c]) @ cs, rest)"
    using Cons.prems by (intro Cons.IH) (auto simp: image_iff)
  ultimately show ?case by simp
qed simp

lemma length_encode_change: "5 \<le> length (encode_change c)"
  by (cases c) (simp_all add: put_sized_def)

lemma length_encode_all: "5 * length cs \<le> length (concat (map encode_change cs))"
proof (induction cs)
  case (Cons c cs)
  then show ?case using length_encode_change [of c] by simp
qed simp

lemma length_ENCODING_MAGIC [simp]: "length ENCODING_MAGIC = 4"
  by (simp add: ENCODING_MAGIC_def lit_def utf8_char_def)

text \<open>A journaled list is read back.\<close>

lemma decode_encode_changes:
  assumes "list_all change_ok cs" "distinct (map change_key cs)" "length (encode_changes cs) \<le> MAX_JOURNAL_BYTES"
  shows "decode_changes (encode_changes cs) = Inr cs"
proof -
  have all: "length (encode_changes cs) = 8 + length (concat (map encode_change cs))"
    by (simp add: encode_changes_def)
  then have n: "length cs < 256 ^ 4" "length cs \<le> (length (encode_changes cs) - 8) div 5"
    using length_encode_all [of cs] assms(3) by (simp_all add: MAX_JOURNAL_BYTES_def)
  have parts: "take 4 (encode_changes cs) = ENCODING_MAGIC" "drop 8 (encode_changes cs) = concat (map encode_change cs)"
    "take 4 (drop 4 (encode_changes cs)) = le 4 (length cs)"
    by (simp_all add: encode_changes_def)
  have count: "of_le (le 4 (length cs)) = length cs" by (rule of_le_le [OF n(1)])
  have loop: "decode_loop (length cs) {} [] (concat (map encode_change cs)) = Inr (cs, [])"
    using decode_loop_encode [of cs "{}" "[]" "[]"] assms(1,2) by simp
  show ?thesis
    unfolding decode_changes_def parts Let_def count
    using n(2) assms(3) loop by (simp add: all)
qed

text \<open>Whatever is read back from bytes is acceptable and names each key once.\<close>

lemma decode_change_ok: "decode_change seen bs = Inr (c, rest) \<Longrightarrow> change_ok c \<and> change_key c \<notin> seen"
  by (auto simp: decode_change_def res_bind_Inr change_ok_def split: if_splits)

lemma decode_loop_ok:
  assumes "decode_loop n seen done bs = Inr (cs, rest)" "list_all change_ok done" "distinct (map change_key done)"
    "change_key ` set done \<subseteq> seen"
  shows "list_all change_ok cs \<and> distinct (map change_key cs) \<and> length cs = length done + n"
  using assms
proof (induction n arbitrary: seen "done" bs)
  case (Suc n)
  then obtain c bs' where c: "decode_change seen bs = Inr (c, bs')"
    and loop: "decode_loop n (insert (change_key c) seen) (done @ [c]) bs' = Inr (cs, rest)"
    by (auto simp: res_bind_Inr)
  from decode_change_ok [OF c] Suc.prems show ?case
    using Suc.IH [OF loop] by auto
qed simp

lemma decode_changes_ok:
  assumes "decode_changes bs = Inr cs"
  shows "list_all change_ok cs" "distinct (map change_key cs)"
  using assms decode_loop_ok [of _ "{}" "[]" "drop 8 bs" cs]
  by (fastforce simp: decode_changes_def Let_def res_bind_Inr split: if_splits)+

section \<open>Batches\<close>

text \<open>What holds of every batch built by \<open>insert\<close> alone.\<close>

definition entry_ok :: "bytes \<times> bytes \<Rightarrow> bool" where
  "entry_ok e \<longleftrightarrow> \<not> is_reserved (fst e) \<and> length (fst e) \<le> MAX_KEY_BYTES \<and> length (snd e) \<le> MAX_VALUE_BYTES"

definition batch_ok :: "batch \<Rightarrow> bool" where
  "batch_ok b \<longleftrightarrow> bm_wf b \<and> (\<forall>e \<in> set b. entry_ok e)"

lemma batch_ok_wf [simp]: "batch_ok b \<Longrightarrow> bm_wf b"
  by (simp add: batch_ok_def)

lemma ends_insert [ends_simps]:
  "ends (batch_insert key v) P E b =
    (if is_reserved key then E ReservedKey b
     else case check_size key (Some v) of Inl e \<Rightarrow> E e b | Inr _ \<Rightarrow> P (bm_get b key) (bm_insert key v b))"
  by (simp add: batch_insert_def ends_simps split: sum.split)

lemma ends_remove [ends_simps]: "ends (batch_remove key) P E b = P (bm_get b key) (bm_remove key b)"
  by (simp add: batch_remove_def ends_simps)

lemma check_size_Inr: "check_size key (Some v) = Inr () \<longleftrightarrow> length key \<le> MAX_KEY_BYTES \<and> length v \<le> MAX_VALUE_BYTES"
  by (auto simp: check_size_def)

lemma insert_run: "entry_ok (key, v) \<Longrightarrow> batch_insert key v b = (Inr (bm_get b key), bm_insert key v b)"
  by (auto simp: entry_ok_def batch_insert_def b_defs b_result_def check_size_Inr [symmetric])

lemma batch_ok_insert: "batch_ok b \<Longrightarrow> entry_ok (key, v) \<Longrightarrow> batch_ok (bm_insert key v b)"
  by (auto simp: batch_ok_def set_bm_insert)

lemma batch_ok_remove: "batch_ok b \<Longrightarrow> batch_ok (bm_remove key b)"
  by (auto simp: batch_ok_def)

lemma insert_all_run:
  "\<forall>e \<in> set es. entry_ok e \<Longrightarrow> batch_insert_all es b = (Inr (), fold (\<lambda>(key, v). bm_insert key v) es b)"
  by (induction es arbitrary: b) (auto simp: b_defs insert_run)

lemma fold_insert_append:
  "bm_wf (b @ es) \<Longrightarrow> fold (\<lambda>(key, v). bm_insert key v) es b = b @ es"
proof (induction es arbitrary: b)
  case (Cons e es)
  have "bm_insert (fst e) (snd e) b = b @ [e]"
    using Cons.prems by (induction b) (auto simp: bm_wf_def)
  then show ?case using Cons.IH [of "b @ [e]"] Cons.prems by (simp add: case_prod_unfold)
qed simp

text \<open>An ordered list of acceptable entries is its own batch.\<close>

lemma from_entries_ok: "batch_ok es \<Longrightarrow> batch_from_entries es = Inr es"
  unfolding batch_from_entries_def batch_new_def batch_ok_def
  using insert_all_run [of es "[]"] fold_insert_append [of "[]" es] by simp

end
