(* ===== verification/StateLaws.thy ===== *)
theory StateLaws
  imports StateMigrate StateBatchLaws
begin

text \<open>
  Weakest preconditions of the store calls, of reading the metadata and of taking a snapshot.
\<close>

section \<open>The store calls\<close>

lemma swp_get [wp_simps]: "wp F (s_get k) Q E en \<longleftrightarrow> Q (bm_get en k) en \<and> (F \<longrightarrow> (\<forall>w. E (StoreFailed w) en))"
  by (simp add: s_get_def kv_get_def wp_read)

lemma swp_scan [wp_simps]: "wp F (s_scan k) Q E en \<longleftrightarrow> Q (bm_scan k en) en \<and> (F \<longrightarrow> (\<forall>w. E (StoreFailed w) en))"
  by (simp add: s_scan_def kv_scan_def wp_read)

lemma swp_put [wp_simps]: "wp F (s_put k v) Q E en \<longleftrightarrow>
    Q () (bm_insert k v en) \<and> (F \<longrightarrow> (\<forall>w. E (StoreFailed w) en \<and> E (StoreFailed w) (bm_insert k v en)))"
  by (simp add: s_put_def kv_put_def wp_write)

lemma swp_del [wp_simps]: "wp F (s_del k) Q E en \<longleftrightarrow>
    Q () (bm_remove k en) \<and> (F \<longrightarrow> (\<forall>w. E (StoreFailed w) en \<and> E (StoreFailed w) (bm_remove k en)))"
  by (simp add: s_del_def kv_del_def wp_write)

lemma swp_put_number [wp_simps]: "wp F (put_number k n) Q E en \<longleftrightarrow>
    Q () (bm_insert k (utf8 (dec n)) en) \<and>
    (F \<longrightarrow> (\<forall>w. E (StoreFailed w) en \<and> E (StoreFailed w) (bm_insert k (utf8 (dec n)) en)))"
  by (simp add: put_number_def swp_put)

lemma scan_page_read:
  "limit > 0 \<Longrightarrow> (\<lambda>s. trait_scan_page kv_scan s p cursor limit) =
     kv_read (\<lambda>m. take limit (filter (\<lambda>(key, _). beyond cursor key) (bm_scan p m)))"
  by (auto simp: fun_eq_iff trait_scan_page_def kv_defs split: list.split fault.split)

lemma swp_scan_page: "limit > 0 \<Longrightarrow> wp F (s_scan_page p cursor limit) Q E en \<longleftrightarrow>
    Q (take limit (filter (\<lambda>(key, _). beyond cursor key) (bm_scan p en))) en \<and> (F \<longrightarrow> (\<forall>w. E (StoreFailed w) en))"
  by (simp add: s_scan_page_def scan_page_read wp_read)

text \<open>Steps that read, and steps that compute.\<close>

lemma wp_step_result:
  "(\<And>a. r = Inr a \<Longrightarrow> wp F (f a) Q E en) \<Longrightarrow> (\<And>e. r = Inl e \<Longrightarrow> E e en) \<Longrightarrow> wp F (b_then (b_result r) f) Q E en"
  by (rule wp_then) (simp add: wp_result split: sum.split)

lemma wp_step_get:
  "wp F (f (bm_get en k)) Q E en \<Longrightarrow> (\<And>w. F \<Longrightarrow> E (StoreFailed w) en) \<Longrightarrow> wp F (b_then (s_get k) f) Q E en"
  by (rule wp_then) (simp add: swp_get)

lemma wp_step_put:
  "wp F (f ()) Q E (bm_insert k v en) \<Longrightarrow> (\<And>w. F \<Longrightarrow> E (StoreFailed w) en \<and> E (StoreFailed w) (bm_insert k v en)) \<Longrightarrow>
   wp F (b_then (s_put k v) f) Q E en"
  by (rule wp_then) (simp add: swp_put)

lemma wp_step_del:
  "wp F (f ()) Q E (bm_remove k en) \<Longrightarrow> (\<And>w. F \<Longrightarrow> E (StoreFailed w) en \<and> E (StoreFailed w) (bm_remove k en)) \<Longrightarrow>
   wp F (b_then (s_del k) f) Q E en"
  by (rule wp_then) (simp add: swp_del)

lemma wp_step_if:
  "(c \<Longrightarrow> wp F (b_then m f) Q E en) \<Longrightarrow> (\<not> c \<Longrightarrow> wp F (b_then n f) Q E en) \<Longrightarrow> wp F (b_then (if c then m else n) f) Q E en"
  by simp

lemma then_assoc: "b_then (b_then m f) g = b_then m (\<lambda>a. b_then (f a) g)"
  by (auto simp: fun_eq_iff b_then_def split: prod.split sum.split)

lemma return_then [simp]: "b_then (b_return a) f = f a"
  by (simp add: fun_eq_iff b_defs)

section \<open>Identities\<close>

lemma is_sha256_ascii: "is_sha256 s \<Longrightarrow> ascii s"
  by (auto simp: is_sha256_def list_all_iff ascii_def)

lemma ident_ascii: "ident s \<Longrightarrow> ascii s"
  by (auto simp: ident_def list_all_iff ascii_def dest: is_alnum_ascii)

lemma is_semver_ascii:
  assumes "is_semver s"
  shows "ascii s"
proof -
  let ?core = "takeWhile (\<lambda>c. c \<noteq> 45 \<and> c \<noteq> 43) s" and ?rest = "dropWhile (\<lambda>c. c \<noteq> 45 \<and> c \<noteq> 43) s"
  have nums: "\<forall>n \<in> set (split_on 46 ?core). \<forall>c \<in> set n. c < 128"
    using assms by (fastforce simp: is_semver_def list_all_iff Let_def)
  have "c < 128" if "c \<in> set ?core" for c
  proof (cases "c = 46")
    case False
    then have "c \<in> \<Union> (set ` set (split_on 46 ?core))" using that by (simp add: set_split_on)
    then show ?thesis using nums by auto
  qed simp
  moreover have "c < 128" if "c \<in> set ?rest" for c
  proof (cases ?rest)
    case (Cons d ext)
    have "d = 45 \<or> d = 43" using Cons hd_dropWhile [of "\<lambda>c. c \<noteq> 45 \<and> c \<noteq> 43" s] by auto
    moreover have "\<forall>c \<in> set ext. c < 128"
      using assms Cons by (auto simp: is_semver_def Let_def list_all_iff dest: is_alnum_ascii)
    ultimately show ?thesis using that Cons by auto
  next
    case Nil
    show ?thesis using that unfolding Nil by simp
  qed
  moreover have "set s = set ?core \<union> set ?rest" by (metis set_append takeWhile_dropWhile_id)
  ultimately show ?thesis unfolding ascii_def by blast
qed

lemmas identity_valid = ascii_valid [OF is_sha256_ascii] ascii_valid [OF ident_ascii] ascii_valid [OF is_semver_ascii]
  ascii_valid [OF dec_ascii]

section \<open>The metadata in the store\<close>

text \<open>A namespace whose metadata is whole, is owned by \<open>owner\<close> and says version \<open>v\<close>.\<close>

definition meta_at :: "str \<Rightarrow> nat \<Rightarrow> store \<Rightarrow> bool" where
  "meta_at owner v en \<longleftrightarrow> ident owner \<and> 1 \<le> v \<and> v \<le> u32_max
     \<and> bm_get en KEY_SCHEMA_VERSION = Some (utf8 (dec v)) \<and> bm_get en KEY_COMPONENT = Some (utf8 owner)
     \<and> (\<exists>cv. is_semver cv \<and> bm_get en KEY_COMPONENT_VERSION = Some (utf8 cv))
     \<and> (\<exists>pin. is_sha256 pin \<and> bm_get en KEY_LAST_MIGRATED_BY = Some (utf8 pin))
     \<and> (\<exists>n \<le> u64_max. bm_get en KEY_CREATED_AT = Some (utf8 (dec n)))
     \<and> (\<exists>n \<le> u64_max. bm_get en KEY_LAST_MIGRATED_AT = Some (utf8 (dec n)))"

definition meta_ok :: "str \<Rightarrow> nat \<Rightarrow> meta \<Rightarrow> bool" where
  "meta_ok owner v meta \<longleftrightarrow> ident owner \<and> 1 \<le> v \<and> v \<le> u32_max \<and> mt_component meta = owner \<and> mt_schema_version meta = v
     \<and> is_semver (mt_component_version meta) \<and> is_sha256 (mt_last_migrated_by meta)
     \<and> mt_created_at_ms meta \<le> u64_max \<and> mt_last_migrated_at_ms meta \<le> u64_max"

lemma meta_atE:
  assumes "meta_at owner v en"
  obtains meta where "meta_ok owner v meta"
    "bm_get en KEY_SCHEMA_VERSION = Some (utf8 (dec v))" "bm_get en KEY_COMPONENT = Some (utf8 owner)"
    "bm_get en KEY_COMPONENT_VERSION = Some (utf8 (mt_component_version meta))"
    "bm_get en KEY_LAST_MIGRATED_BY = Some (utf8 (mt_last_migrated_by meta))"
    "bm_get en KEY_CREATED_AT = Some (utf8 (dec (mt_created_at_ms meta)))"
    "bm_get en KEY_LAST_MIGRATED_AT = Some (utf8 (dec (mt_last_migrated_at_ms meta)))"
proof -
  obtain cv pin c l where w: "is_semver cv" "bm_get en KEY_COMPONENT_VERSION = Some (utf8 cv)"
    "is_sha256 pin" "bm_get en KEY_LAST_MIGRATED_BY = Some (utf8 pin)"
    "c \<le> u64_max" "bm_get en KEY_CREATED_AT = Some (utf8 (dec c))"
    "l \<le> u64_max" "bm_get en KEY_LAST_MIGRATED_AT = Some (utf8 (dec l))"
    using assms unfolding meta_at_def by blast
  show ?thesis
    by (rule that [of "\<lparr>mt_schema_version = v, mt_component = owner, mt_component_version = cv,
         mt_last_migrated_by = pin, mt_created_at_ms = c, mt_last_migrated_at_ms = l\<rparr>"])
      (use w assms in \<open>simp_all add: meta_ok_def meta_at_def\<close>)
qed

lemma wp_meta_text:
  assumes "bm_get en k = Some (utf8 s)" "valid_str s"
  shows "Q s en \<Longrightarrow> (\<And>w. F \<Longrightarrow> E (StoreFailed w) en) \<Longrightarrow> wp F (meta_text k) Q E en"
  unfolding meta_text_def using assms by (intro wp_step_get) (simp_all add: wp_simps from_utf8_utf8)

lemma wp_meta_number:
  assumes "bm_get en k = Some (utf8 (dec n))" "n \<le> u64_max"
  shows "Q n en \<Longrightarrow> (\<And>w. F \<Longrightarrow> E (StoreFailed w) en) \<Longrightarrow> wp F (meta_number k) Q E en"
  unfolding meta_number_def using assms
  by (intro wp_then wp_meta_text [where s = "dec n"]) (simp_all add: wp_simps parse_dec identity_valid)

text \<open>A namespace that holds exactly the metadata \<open>meta\<close>.\<close>

definition meta_stored :: "meta \<Rightarrow> store \<Rightarrow> bool" where
  "meta_stored meta en \<longleftrightarrow>
     bm_get en KEY_SCHEMA_VERSION = Some (utf8 (dec (mt_schema_version meta)))
     \<and> bm_get en KEY_COMPONENT = Some (utf8 (mt_component meta))
     \<and> bm_get en KEY_COMPONENT_VERSION = Some (utf8 (mt_component_version meta))
     \<and> bm_get en KEY_LAST_MIGRATED_BY = Some (utf8 (mt_last_migrated_by meta))
     \<and> bm_get en KEY_CREATED_AT = Some (utf8 (dec (mt_created_at_ms meta)))
     \<and> bm_get en KEY_LAST_MIGRATED_AT = Some (utf8 (dec (mt_last_migrated_at_ms meta)))"

lemma meta_stored_at: "meta_stored meta en \<Longrightarrow> meta_ok owner v meta \<Longrightarrow> meta_at owner v en"
  by (auto simp: meta_stored_def meta_ok_def meta_at_def)

lemma wp_meta_stored:
  assumes "meta_stored m en" "meta_ok owner v m" "Q (Some m) en" "\<And>w. F \<Longrightarrow> E (StoreFailed w) en"
  shows "wp F meta_read Q E en"
proof -
  note m = assms(1) [unfolded meta_stored_def] and ok = assms(2) [unfolded meta_ok_def]
  have v: "mt_schema_version m \<le> u64_max" using ok by simp
  have all: "\<lparr>mt_schema_version = v, mt_component = owner, mt_component_version = mt_component_version m,
      mt_last_migrated_by = mt_last_migrated_by m, mt_created_at_ms = mt_created_at_ms m,
      mt_last_migrated_at_ms = mt_last_migrated_at_ms m\<rparr> = m"
    using ok by (cases m) simp
  show ?thesis
    unfolding meta_read_def
    apply (rule wp_step_get)
     apply (simp only: m option.distinct if_False)
     apply (rule wp_then, rule wp_meta_number [OF m [THEN conjunct1] v])
      apply (rule wp_conseq [where Q = Q and E = E])
        apply (simp only: if_not_P [of "v > u32_max"] not_less ok)
        apply (rule wp_then, rule wp_meta_text [where s = "mt_component m"])
           apply (simp add: m)
          apply (simp add: identity_valid ok)
         apply (rule wp_then, rule wp_meta_text [where s = "mt_component_version m"])
            apply (simp add: m)
           apply (simp add: identity_valid ok)
          apply (rule wp_then, rule wp_meta_text [where s = "mt_last_migrated_by m"])
             apply (simp add: m)
            apply (simp add: identity_valid ok)
           apply (rule wp_then, rule wp_meta_number [where n = "mt_created_at_ms m"])
              apply (simp add: m)
             apply (simp add: ok)
            apply (rule wp_then, rule wp_meta_number [where n = "mt_last_migrated_at_ms m"])
               apply (simp add: m)
              apply (simp add: ok)
             apply (use ok assms(3) in \<open>simp_all add: wp_simps assms(4) all\<close>)
    done
qed

lemma wp_meta_read:
  assumes "meta_at owner v en" "\<And>meta. meta_ok owner v meta \<Longrightarrow> Q (Some meta) en" "\<And>w. F \<Longrightarrow> E (StoreFailed w) en"
  shows "wp F meta_read Q E en"
proof -
  obtain m where m: "meta_ok owner v m" "meta_stored m en"
    using assms(1) by (rule meta_atE) (auto simp: meta_stored_def meta_ok_def)
  show ?thesis using m(2,1) by (rule wp_meta_stored) (use m assms in auto)
qed

section \<open>Keys\<close>

definition reserved_keys :: "bytes list" where
  "reserved_keys = [KEY_SCHEMA_VERSION, KEY_COMPONENT, KEY_COMPONENT_VERSION, KEY_LAST_MIGRATED_BY, KEY_LAST_MIGRATED_AT,
     KEY_CREATED_AT, KEY_UPDATED_AT, KEY_JOURNAL, KEY_PENDING]"

lemma reserved_keys_distinct: "distinct reserved_keys" "distinct (rev reserved_keys)" "list_all is_reserved reserved_keys"
proof -
  show d: "distinct reserved_keys" by code_simp
  show "distinct (rev reserved_keys)" using d by simp
  show "list_all is_reserved reserved_keys" by code_simp
qed

lemmas key_simps [simp] = reserved_keys_distinct [unfolded reserved_keys_def, simplified]

lemma user_key_other [simp]: "\<not> is_reserved key \<Longrightarrow> is_reserved key' \<Longrightarrow> key = key' \<longleftrightarrow> False"
  "\<not> is_reserved key \<Longrightarrow> is_reserved key' \<Longrightarrow> key' = key \<longleftrightarrow> False"
  by auto

lemma user_part_fst: "user_part m = filter (\<lambda>e. \<not> is_reserved (fst e)) m"
  by (simp add: case_prod_unfold)

lemma user_part_insert: "bm_wf m \<Longrightarrow>
    user_part (bm_insert key v m) = (if is_reserved key then user_part m else bm_insert key v (user_part m))"
  by (rule bm_ext) (auto simp: user_part_fst bm_get_filter fun_eq_iff split: option.split)

lemma user_part_remove: "bm_wf m \<Longrightarrow>
    user_part (bm_remove key m) = (if is_reserved key then user_part m else bm_remove key (user_part m))"
  by (rule bm_ext) (auto simp: user_part_fst bm_get_filter fun_eq_iff split: option.split)

text \<open>Writes that leave the metadata alone.\<close>

lemma meta_at_cong:
  assumes "meta_at owner v en" "\<forall>key \<in> {KEY_SCHEMA_VERSION, KEY_COMPONENT, KEY_COMPONENT_VERSION, KEY_LAST_MIGRATED_BY,
    KEY_CREATED_AT, KEY_LAST_MIGRATED_AT}. bm_get en' key = bm_get en key"
  shows "meta_at owner v en'"
  using assms unfolding meta_at_def by simp

lemma meta_at_other:
  assumes "meta_at owner v en" "key \<in> {KEY_UPDATED_AT, KEY_JOURNAL, KEY_PENDING} \<or> \<not> is_reserved key"
  shows "meta_at owner v (bm_insert key x en)" "meta_at owner v (bm_remove key en)"
  using assms by (auto intro!: meta_at_cong [OF assms(1)])

lemma meta_at_schema: "meta_at owner v en \<Longrightarrow> 1 \<le> w \<Longrightarrow> w \<le> u32_max \<Longrightarrow>
    meta_at owner w (bm_insert KEY_SCHEMA_VERSION (utf8 (dec w)) en)"
  by (simp add: meta_at_def)

lemma meta_at_write:
  assumes "meta_at owner v en"
  shows "meta_at owner v (bm_insert KEY_SCHEMA_VERSION (utf8 (dec v)) en)"
    "meta_at owner v (bm_insert KEY_COMPONENT (utf8 owner) en)"
    "is_semver cv \<Longrightarrow> meta_at owner v (bm_insert KEY_COMPONENT_VERSION (utf8 cv) en)"
    "is_sha256 pin \<Longrightarrow> meta_at owner v (bm_insert KEY_LAST_MIGRATED_BY (utf8 pin) en)"
    "n \<le> u64_max \<Longrightarrow> meta_at owner v (bm_insert KEY_LAST_MIGRATED_AT (utf8 (dec n)) en)"
    "n \<le> u64_max \<Longrightarrow> meta_at owner v (bm_insert KEY_CREATED_AT (utf8 (dec n)) en)"
  using assms by (auto simp: meta_at_def)

section \<open>Reading a namespace\<close>

text \<open>What a list of entries adds to a payload.\<close>

definition entry_bytes :: "bytes \<times> bytes \<Rightarrow> bytes" where
  "entry_bytes e = put_sized (fst e) @ put_sized (snd e)"

definition payload_plus :: "(bytes \<times> bytes) list \<Rightarrow> payload_writer \<Rightarrow> payload_writer" where
  "payload_plus es p = \<lparr>pl_hashed = pl_hashed p @ concat (map entry_bytes es), pl_out = pl_out p @ concat (map entry_bytes es),
     pl_entries = pl_entries p + length es, pl_bytes = pl_bytes p + entries_bytes es\<rparr>"

lemma entries_bytes_simps [simp]:
  "entries_bytes [] = 0" "entries_bytes (e # es) = length (fst e) + length (snd e) + entries_bytes es"
  "entries_bytes (es @ fs) = entries_bytes es + entries_bytes fs"
  by (simp_all add: entries_bytes_def case_prod_unfold)

lemma payload_plus_simps [simp]:
  "payload_plus [] p = p" "payload_plus es (payload_plus fs p) = payload_plus (fs @ es) p"
  "pl_bytes (payload_plus es p) = pl_bytes p + entries_bytes es"
  by (simp_all add: payload_plus_def)

lemma payload_entry_run:
  assumes "entry_ok e" "pl_bytes p + entries_bytes [e] \<le> max_bytes" "max_bytes \<le> u64_max"
  shows "payload_entry max_bytes (fst e) (snd e) p = Inr (payload_plus [e] p)"
  using assms
  by (auto simp: payload_entry_def entry_ok_def check_size_def write_hashed_def sat_add64_def Let_def payload_plus_def
      entry_bytes_def put_sized_def)

lemma payload_all_run:
  assumes "\<forall>e \<in> set es. entry_ok e" "pl_bytes p + entries_bytes es \<le> max_bytes" "max_bytes \<le> u64_max"
  shows "payload_all max_bytes es p = Inr (payload_plus es p)"
  using assms
proof (induction es arbitrary: p)
  case (Cons e es)
  then show ?case using payload_entry_run [of e p max_bytes] by (cases e) simp
qed simp

lemma page_entries_all:
  "page_entries max_bytes es (p, seen) = res_bind (payload_all max_bytes (user_part es) p) (\<lambda>p. Inr (p, seen @ user_part es))"
proof (induction es arbitrary: p seen)
  case (Cons e es)
  then show ?case by (cases e; cases "payload_entry max_bytes (fst e) (snd e) p") simp_all
qed simp

lemma page_entries_run:
  assumes "\<forall>e \<in> set (user_part es). entry_ok e" "pl_bytes p + entries_bytes (user_part es) \<le> max_bytes" "max_bytes \<le> u64_max"
  shows "page_entries max_bytes es (p, seen) = Inr (payload_plus (user_part es) p, seen @ user_part es)"
  using payload_all_run [OF assms] by (simp add: page_entries_all)

lemma read_pages_step: "read_pages page max_bytes cursor acc =
    b_then (s_scan_page [] cursor (max page 1)) (\<lambda>es.
      if es = [] then b_return acc
      else b_then (b_result (page_entries max_bytes es acc)) (\<lambda>acc. read_pages page max_bytes (Some (fst (last es))) acc))"
  by (auto simp: fun_eq_iff read_pages.simps [of page] b_defs b_result_def split: prod.split sum.split)

lemma split_page:
  assumes "bm_wf m" "es = take n (filter (\<lambda>(key, _). beyond cursor key) m)" "es \<noteq> []"
  shows "filter (\<lambda>(key, _). beyond cursor key) m = es @ filter (\<lambda>(key, _). beyond (Some (fst (last es))) key) m"
proof -
  let ?all = "filter (\<lambda>(key, _). beyond cursor key) m"
  have all: "?all = es @ drop n ?all" using assms(2) by simp
  have wf: "bm_wf ?all" using assms(1) by simp
  have l: "last es \<in> set ?all" using assms(2,3) last_in_set [of es] by (metis in_set_takeD)
  have b: "beyond cursor (fst (last es))" using l by (simp add: case_prod_unfold)
  have "filter (\<lambda>(key, _). beyond (Some (fst (last es))) key) m =
      filter (\<lambda>(key, _). beyond (Some (fst (last es))) key) ?all"
    using b by (auto intro!: filter_cong split: option.splits)
  also have "\<dots> = drop n ?all"
  proof -
    have sorted: "sorted_wrt (\<lambda>x y. fst x < fst y) (es @ drop n ?all)"
      using wf all unfolding bm_wf_def sorted_wrt_map by simp
    obtain us l where es: "es = us @ [l]" using assms(3) by (metis append_butlast_last_id)
    have "fst x \<le> fst (last es)" if "x \<in> set es" for x
      using sorted that unfolding es by (auto simp: sorted_wrt_append)
    then have none: "filter (\<lambda>(key, _). beyond (Some (fst (last es))) key) es = []"
      by (auto simp: filter_empty_conv)
    have "\<forall>y \<in> set (drop n ?all). fst (last es) < fst y"
      using sorted last_in_set [OF assms(3)] by (auto simp: sorted_wrt_append)
    then have every: "filter (\<lambda>(key, _). beyond (Some (fst (last es))) key) (drop n ?all) = drop n ?all"
      by (intro filter_True) (auto simp: not_le)
    show ?thesis by (subst all) (simp only: filter_append none every append_Nil)
  qed
  finally show ?thesis using all by simp
qed

lemma wp_read_pages:
  assumes "bm_wf en" "\<forall>e \<in> set (user_part en). entry_ok e" "entries_bytes (user_part en) \<le> max_bytes" "max_bytes \<le> u64_max"
    and "pl_bytes p0 = 0"
    and "seen @ user_part (filter (\<lambda>(key, _). beyond cursor key) en) = user_part en"
    and "Q (payload_plus (user_part en) p0, user_part en) en" "\<And>w. F \<Longrightarrow> E (StoreFailed w) en"
  shows "wp F (read_pages page max_bytes cursor (payload_plus seen p0, seen)) Q E en"
  using assms(6)
proof (induction "length (filter (\<lambda>(key, _). beyond cursor key) en)" arbitrary: cursor seen rule: less_induct)
  case less
  let ?es = "take (max page 1) (filter (\<lambda>(key, _). beyond cursor key) en)"
  have pos: "0 < max page 1" by simp
  show ?case

  proof (subst read_pages_step, rule wp_then, unfold swp_scan_page [OF pos] bm_scan_all, intro conjI impI allI)
    show "wp F (if ?es = [] then b_return (payload_plus seen p0, seen)
        else b_then (b_result (page_entries max_bytes ?es (payload_plus seen p0, seen)))
        (read_pages page max_bytes (Some (fst (last ?es))))) Q E en"
    proof (cases "?es = []")
      case True
      then have "filter (\<lambda>(key, _). beyond cursor key) en = []" by (simp add: max_def split: if_splits)
      then have "seen = user_part en" using less.prems by simp
      then show ?thesis using True assms(7) by (simp add: wp_return)
    next
      case False
      note split = split_page [OF assms(1) refl False]
      have part: "user_part en = seen @ user_part ?es @ user_part (filter (\<lambda>(key, _). beyond (Some (fst (last ?es))) key) en)"
        using less.prems split by (metis filter_append)
      then have room: "pl_bytes (payload_plus seen p0) + entries_bytes (user_part ?es) \<le> max_bytes"
          "\<forall>e \<in> set (user_part ?es). entry_ok e"
        using assms(2,3,5) by (auto simp: part)
      note run = page_entries_run [OF room(2,1) assms(4), of seen]
      have "wp F (read_pages page max_bytes (Some (fst (last ?es))) (payload_plus (seen @ user_part ?es) p0, seen @ user_part ?es)) Q E en"
        by (rule less.hyps [OF beyond_fewer [OF refl False]]) (use part in simp_all)
      then show ?thesis unfolding if_not_P [OF False] run by (intro wp_step_result) simp_all
    qed
  qed (use assms(8) in simp)
qed

lemma wp_snapshot_take:
  assumes "bm_wf en" "batch_ok (user_part en)" "entries_bytes (user_part en) \<le> max_bytes" "max_bytes \<le> u64_max"
    "meta_ok owner v meta" "\<And>sn. sn_entries sn = user_part en \<Longrightarrow> Q sn en" "\<And>w. F \<Longrightarrow> E (StoreFailed w) en"
  shows "wp F (snapshot_take sha enc meta now max_bytes) Q E en"
  unfolding snapshot_take_def
proof (rule wp_step_result, goal_cases)
  case (1 head)
  show ?case
    by (rule wp_then, rule wp_read_pages [where seen = "[]", unfolded payload_plus_simps(1)])
       (use assms in \<open>simp_all add: wp_return batch_ok_def payload_begin_def write_hashed_def Let_def\<close>)
next
  case 2
  then show ?case
    using assms(5) by (auto simp: meta_ok_def head_new_def component_info_new_def validate_info_def)
qed

end
