(* ===== verification/StateStages.thy ===== *)
theory StateStages
  imports StateLaws
begin

text \<open>
  What a store holds between two calls of a migration: the stages a crash can leave it in, the path of
  versions and batches the steps describe, and that every stage is either finished or left as another one.
\<close>

section \<open>The path\<close>

definition up :: "migration_step \<Rightarrow> planned_step" where
  "up st = \<lparr>pn_step = st, pn_direction = Up\<rparr>"

text \<open>The steps from version \<open>v\<close> on, \<open>n\<close> of them, run in memory.\<close>

fun climb :: "registry \<Rightarrow> nat \<Rightarrow> nat \<Rightarrow> batch \<Rightarrow> component_error + batch" where
  "climb reg v 0 b = Inr b"
| "climb reg v (Suc n) b = (case bm_get reg v of
       None \<Rightarrow> Inl (NoMigrationPath v (v + Suc n) v Up)
     | Some st \<Rightarrow> res_bind (next_batch (up st) b) (climb reg (v + 1) n))"

text \<open>What the engine asks of a step: acceptable entries before and after, a list of changes it is
  willing to journal, and room for every batch an interrupted application can leave.\<close>

definition step_fits :: "migrate_options \<Rightarrow> batch \<Rightarrow> change list \<Rightarrow> bool" where
  "step_fits opts b cs \<longleftrightarrow> length (encode_changes cs) \<le> op_max_journal_bytes opts \<and>
     length (encode_changes cs) \<le> MAX_JOURNAL_BYTES \<and>
     list_all (\<lambda>k. entries_bytes (apply_all (take k cs) b) \<le> op_max_batch_bytes opts) [0..<Suc (length cs)]"

fun ready :: "migrate_options \<Rightarrow> registry \<Rightarrow> nat \<Rightarrow> nat \<Rightarrow> batch \<Rightarrow> bool" where
  "ready opts reg v 0 b \<longleftrightarrow> batch_ok b \<and> entries_bytes b \<le> op_max_batch_bytes opts"
| "ready opts reg v (Suc n) b \<longleftrightarrow> batch_ok b \<and> entries_bytes b \<le> op_max_batch_bytes opts \<and>
     (case bm_get reg v of
        None \<Rightarrow> False
      | Some st \<Rightarrow> sp_from st = v \<and> (case next_batch (up st) b of
            Inl _ \<Rightarrow> False
          | Inr next \<Rightarrow> step_fits opts b (snd (diff b next)) \<and> ready opts reg (v + 1) n next))"

definition on_path :: "migrator \<Rightarrow> nat \<Rightarrow> batch \<Rightarrow> nat \<Rightarrow> batch \<Rightarrow> bool" where
  "on_path mg target goal v b \<longleftrightarrow> 1 \<le> v \<and> v \<le> target \<and> target \<le> u32_max \<and>
     op_max_batch_bytes (mg_options mg) \<le> u64_max \<and>
     ready (mg_options mg) (mg_registry mg) v (target - v) b \<and> climb (mg_registry mg) v (target - v) b = Inr goal"

lemma on_path_ok:
  assumes "on_path mg target goal v b"
  shows "batch_ok b" "entries_bytes b \<le> op_max_batch_bytes (mg_options mg)" "1 \<le> v" "v \<le> target" "v \<le> u32_max"
    "op_max_batch_bytes (mg_options mg) \<le> u64_max"
  using assms by (cases "target - v"; simp add: on_path_def)+

lemma on_path_end: "on_path mg target goal target b \<Longrightarrow> b = goal"
  by (simp add: on_path_def)

text \<open>A step of the path, with its list of changes.\<close>

definition path_step :: "migrator \<Rightarrow> nat \<Rightarrow> batch \<Rightarrow> migration_step \<Rightarrow> batch \<Rightarrow> change list \<Rightarrow> bool" where
  "path_step mg v b st next cs \<longleftrightarrow> bm_get (mg_registry mg) v = Some st \<and> sp_from st = v \<and> step_to st = v + 1 \<and>
     next_batch (up st) b = Inr next \<and> cs = snd (diff b next) \<and>
     batch_ok b \<and> batch_ok next \<and> step_fits (mg_options mg) b cs"

lemma on_path_next:
  assumes "on_path mg target goal v b" "v < target"
  obtains st nb where "path_step mg v b st nb (snd (diff b nb))" "on_path mg target goal (v + 1) nb"
proof -
  obtain n where n: "target - v = Suc n" "target - (v + 1) = n" using assms(2) by (metis Suc_diff_Suc Suc_eq_plus1)
  have r: "ready (mg_options mg) (mg_registry mg) v (Suc n) b" "climb (mg_registry mg) v (Suc n) b = Inr goal"
    using assms(1) n by (simp_all add: on_path_def)
  then obtain st nb where s: "bm_get (mg_registry mg) v = Some st" "sp_from st = v" "next_batch (up st) b = Inr nb"
      "batch_ok b" "step_fits (mg_options mg) b (snd (diff b nb))" "ready (mg_options mg) (mg_registry mg) (v + 1) n nb"
      "climb (mg_registry mg) (v + 1) n nb = Inr goal"
    by (auto split: option.splits sum.splits)
  have "batch_ok nb" using s(6) by (cases n) simp_all
  moreover have "step_to st = v + 1" using s(2) assms by (simp add: step_to_def on_path_def wrap32_id)
  ultimately have "path_step mg v b st nb (snd (diff b nb))" using s by (simp add: path_step_def)
  moreover have "on_path mg target goal (v + 1) nb" using s assms n by (simp add: on_path_def)
  ultimately show ?thesis by (rule that)
qed

lemma diff_ok: "batch_ok b \<Longrightarrow> batch_ok next \<Longrightarrow> list_all change_ok (snd (diff b next))"
  by (fastforce simp: list_all_iff diff_changes batch_ok_def entry_ok_def change_ok_def)

lemma path_step_changes:
  assumes "path_step mg v b st next cs"
  shows "list_all change_ok cs" "distinct (map change_key cs)" "apply_all cs b = next"
    "decode_changes (encode_changes cs) = Inr cs" "length (encode_changes cs) \<le> op_max_journal_bytes (mg_options mg)"
    "k \<le> length cs \<Longrightarrow> entries_bytes (apply_all (take k cs) b) \<le> op_max_batch_bytes (mg_options mg)"
proof -
  note s = assms [unfolded path_step_def]
  show ok: "list_all change_ok cs" using s by (simp add: diff_ok)
  show d: "distinct (map change_key cs)" using s by (simp add: diff_keys)
  show "apply_all cs b = next" using s by (simp add: diff_apply)
  show "decode_changes (encode_changes cs) = Inr cs"
    by (rule decode_encode_changes [OF ok d]) (use s step_fits_def in blast)
  show "length (encode_changes cs) \<le> op_max_journal_bytes (mg_options mg)" using s step_fits_def by blast
  show "k \<le> length cs \<Longrightarrow> entries_bytes (apply_all (take k cs) b) \<le> op_max_batch_bytes (mg_options mg)"
    using s unfolding step_fits_def list_all_iff by (metis atLeastLessThan_iff le_imp_less_Suc le0 set_upt)
qed

lemma batch_ok_apply: "batch_ok b \<Longrightarrow> list_all change_ok cs \<Longrightarrow> batch_ok (apply_all cs b)"
proof (induction cs arbitrary: b)
  case (Cons c cs)
  then show ?case
    by (cases c) (auto intro!: Cons.IH batch_ok_insert batch_ok_remove simp: change_ok_def entry_ok_def)
qed simp

section \<open>The journal\<close>

definition step_names :: "registry \<Rightarrow> str set" where
  "step_names reg = (\<lambda>e. sp_name (snd e)) ` set reg"

text \<open>A journal this migrator writes; one that is written is read back.\<close>

definition journal_fits :: "migrator \<Rightarrow> journal \<Rightarrow> bool" where
  "journal_fits mg j \<longleftrightarrow> jn_from j \<le> u32_max \<and> jn_target j \<le> u32_max \<and> jn_done_upto j \<le> u32_max \<and>
     jn_started_at_ms j \<le> u64_max \<and> jn_attempts j \<le> u32_max \<and> jn_component j = ci_id (mg_info mg) \<and>
     (case jn_pending_step j of None \<Rightarrow> False | Some p \<Rightarrow> ps_from p \<le> u32_max \<and> ps_to p \<le> u32_max \<and> ps_direction p = Up \<and>
        ps_applied p \<le> u64_max \<and> ps_name p \<in> step_names (mg_registry mg))"

definition journal_codec :: "formats \<Rightarrow> migrator \<Rightarrow> bool" where
  "journal_codec ft mg \<longleftrightarrow> (\<forall>j. journal_fits mg j \<longrightarrow>
     ft_read_journal ft (ft_journal ft j) = Some j \<and> length (ft_journal ft j) \<le> MAX_JOURNAL_JSON)"

lemma wp_read_journal:
  assumes "journal_codec ft mg" "journal_fits mg j" "bm_get en KEY_JOURNAL = Some (ft_journal ft j)"
    "Q (Some j) en" "\<And>w. F \<Longrightarrow> E (StoreFailed w) en"
  shows "wp F (read_journal ft) Q E en"
  using assms(1) [unfolded journal_codec_def, rule_format, OF assms(2)] assms(3-)
  unfolding read_journal_def by (intro wp_step_get) (simp_all add: wp_return)

lemma wp_no_journal:
  assumes "bm_get en KEY_JOURNAL = None" "Q None en" "\<And>w. F \<Longrightarrow> E (StoreFailed w) en"
  shows "wp F (read_journal ft) Q E en"
  using assms unfolding read_journal_def by (intro wp_step_get) (simp_all add: wp_return)

section \<open>Stages\<close>

text \<open>The journal \<open>j\<close> names the step from \<open>v\<close>, of which no more than \<open>m\<close> changes are counted as applied.\<close>

definition journal_of :: "migrator \<Rightarrow> nat \<Rightarrow> nat \<Rightarrow> journal \<Rightarrow> bool" where
  "journal_of mg v m j \<longleftrightarrow> journal_fits mg j \<and>
     (case jn_pending_step j of None \<Rightarrow> False | Some p \<Rightarrow> ps_from p = v \<and> ps_to p = v + 1 \<and> ps_applied p \<le> m)"

definition clean :: "migrator \<Rightarrow> nat \<Rightarrow> batch \<Rightarrow> store \<Rightarrow> bool" where
  "clean mg v b en \<longleftrightarrow> bm_wf en \<and> meta_at (ci_id (mg_info mg)) v en \<and> user_part en = b \<and> bm_get en KEY_JOURNAL = None"

definition journaled :: "formats \<Rightarrow> migrator \<Rightarrow> nat \<Rightarrow> batch \<Rightarrow> change list \<Rightarrow> journal \<Rightarrow> store \<Rightarrow> bool" where
  "journaled ft mg v b cs j en \<longleftrightarrow> bm_wf en \<and> meta_at (ci_id (mg_info mg)) v en \<and> user_part en = b \<and>
     bm_get en KEY_JOURNAL = Some (ft_journal ft j) \<and> bm_get en KEY_PENDING = Some (encode_changes cs)"

definition recoverable :: "formats \<Rightarrow> migrator \<Rightarrow> nat \<Rightarrow> batch \<Rightarrow> store \<Rightarrow> bool" where
  "recoverable ft mg target goal en \<longleftrightarrow> (\<exists>v b. on_path mg target goal v b \<and>
     (clean mg v b en
      \<or> (\<exists>st next cs j m. v < target \<and> path_step mg v b st next cs \<and> on_path mg target goal (v + 1) next \<and>
           m \<le> length cs \<and> journal_of mg v m j \<and>
           (journaled ft mg v (apply_all (take m cs) b) cs j en \<or> journaled ft mg (v + 1) next cs j en))))"

lemma recoverable_clean: "on_path mg target goal v b \<Longrightarrow> clean mg v b en \<Longrightarrow> recoverable ft mg target goal en"
  by (auto simp: recoverable_def)

lemma recoverable_step:
  assumes "on_path mg target goal v b" "v < target" "path_step mg v b st next cs" "on_path mg target goal (v + 1) next"
    "journal_of mg v m j" "m \<le> length cs"
    "journaled ft mg v (apply_all (take m cs) b) cs j en \<or> journaled ft mg (v + 1) next cs j en"
  shows "recoverable ft mg target goal en"
  using assms unfolding recoverable_def by blast

section \<open>Applying the changes of a step\<close>

text \<open>A change that is applied already is not seen a second time.\<close>

lemma apply_again:
  assumes "distinct (map change_key cs)" "i < m" "m \<le> length cs" "bm_wf b"
  shows "apply_change (cs ! i) (apply_all (take m cs) b) = apply_all (take m cs) b"
proof (rule bm_ext)
  have "cs ! i \<in> set (take m cs)" using assms by (metis in_set_conv_nth length_take min.absorb2 nth_take)
  moreover have "distinct (map change_key (take m cs))" using assms(1) by (simp flip: take_map)
  ultimately have "net_effect (take m cs) (change_key (cs ! i)) = Some (change_value (cs ! i))"
    by (intro net_effect_distinct)
  then show "bm_get (apply_change (cs ! i) (apply_all (take m cs) b)) = bm_get (apply_all (take m cs) b)"
    by (auto simp: fun_eq_iff get_apply_change get_apply_all)
  show "bm_wf (apply_change (cs ! i) (apply_all (take m cs) b))" using assms(4) by (cases "cs ! i") simp_all
qed (use assms in simp)

lemma apply_next:
  assumes "distinct (map change_key cs)" "i \<le> m" "i < length cs" "m \<le> length cs" "bm_wf b"
  shows "apply_change (cs ! i) (apply_all (take m cs) b) = apply_all (take (max m (Suc i)) cs) b"
proof (cases "i < m")
  case True
  then show ?thesis using apply_again [OF assms(1) True assms(4,5)] True by (simp add: max_absorb1)
next
  case False
  then have "m = i" using assms(2) by simp
  then show ?thesis using assms(3) by (simp add: take_Suc_conv_app_nth max_def)
qed

lemma journaled_change:
  assumes "journaled ft mg v b cs j en" "change_ok c"
  shows "wp F (write_change c) (\<lambda>_. journaled ft mg v (apply_change c b) cs j)
    (\<lambda>e en. F \<and> (journaled ft mg v b cs j en \<or> journaled ft mg v (apply_change c b) cs j en)) en"
  using assms
  by (cases c) (auto simp: write_change_def wp_simps journaled_def change_ok_def user_part_insert user_part_remove meta_at_other)

lemma journaled_rewrite:
  assumes "journaled ft mg v b cs j en"
  shows "wp F (write_journal ft j') (\<lambda>_. journaled ft mg v b cs j')
    (\<lambda>e en. F \<and> (journaled ft mg v b cs j en \<or> journaled ft mg v b cs j' en)) en"
  using assms
  by (auto simp: write_journal_def wp_simps journaled_def user_part_insert meta_at_other)

lemma journal_of_applied:
  "journal_of mg v m j \<Longrightarrow> n \<le> m \<Longrightarrow> n \<le> u64_max \<Longrightarrow> journal_of mg v m (set_applied n j)"
  by (auto simp: journal_of_def journal_fits_def set_applied_def split: option.splits)

lemma journal_of_mono: "journal_of mg v m j \<Longrightarrow> m \<le> n \<Longrightarrow> journal_of mg v n j"
  by (auto simp: journal_of_def split: option.splits)

text \<open>From index \<open>i\<close> on, over a store that holds the first \<open>m \<ge> i\<close> changes.\<close>

lemma wp_apply_changes:
  assumes path: "on_path mg target goal v b" "v < target" "path_step mg v b st nb cs" "on_path mg target goal (v + 1) nb"
    and small: "length cs \<le> u64_max"
    and now: "i \<le> m" "m \<le> length cs" "journal_of mg v m j" "journaled ft mg v (apply_all (take m cs) b) cs j en"
    and Q: "\<And>j en. journal_of mg v (length cs) j \<Longrightarrow> journaled ft mg v nb cs j en \<Longrightarrow> Q () en"
    and E: "\<And>e en. F \<Longrightarrow> recoverable ft mg target goal en \<Longrightarrow> E e en"
  shows "wp F (apply_changes ft opts (length cs) j i (drop i cs)) Q E en"
  using now
proof (induction "length cs - i" arbitrary: i m j en)
  case 0
  then have "drop i cs = []" "take m cs = cs" "m = length cs" by simp_all
  then show ?case using 0 path_step_changes(3) [OF path(3)] Q by (simp add: wp_return)
next
  case (Suc k)
  then have i: "i < length cs" by simp
  define m' where "m' = max m (Suc i)"
  have m': "m \<le> m'" "Suc i \<le> m'" "m' \<le> length cs" using Suc.prems i by (simp_all add: m'_def)
  have c: "change_ok (cs ! i)" using path_step_changes(1) [OF path(3)] i by (simp add: list_all_iff)
  have wf: "bm_wf b" using on_path_ok(1) [OF path(1)] by simp
  have eq: "apply_change (cs ! i) (apply_all (take m cs) b) = apply_all (take m' cs) b"
    using apply_next [OF path_step_changes(2) [OF path(3)] Suc.prems(1) i Suc.prems(2) wf] by (simp add: m'_def)
  have rec: "recoverable ft mg target goal en" if "journaled ft mg v (apply_all (take n cs) b) cs j' en"
      "journal_of mg v n j'" "n \<le> length cs" for n j' en
    using recoverable_step [OF path] that by blast
  note of' = journal_of_mono [OF Suc.prems(3) m'(1)]
  have go: "wp F (apply_changes ft opts (length cs) j' (Suc i) (drop (Suc i) cs)) Q E en'"
    if "journaled ft mg v (apply_all (take m' cs) b) cs j' en'" "journal_of mg v m' j'" for j' en'
    by (rule Suc.hyps(1)) (use that m' Suc.hyps(2) in simp_all)
  have step: "wp F (b_then (write_journal ft (set_applied (Suc i) j)) (\<lambda>_. apply_changes ft opts (length cs)
        (set_applied (Suc i) j) (Suc i) (drop (Suc i) cs))) Q E en'"
    if now': "journaled ft mg v (apply_all (take m' cs) b) cs j en'" for en'
  proof -
    have sa: "journal_of mg v m' (set_applied (Suc i) j)"
      using journal_of_applied [OF of' m'(2)] m' small by simp
    show ?thesis
      by (rule wp_then, rule wp_conseq [OF journaled_rewrite [OF now']])
         (use go sa rec of' m' E in blast)+
  qed
  have drop: "drop i cs = cs ! i # drop (Suc i) cs" using i by (simp add: Cons_nth_drop_Suc)
  show ?case
    unfolding drop apply_changes.simps Let_def
    by (rule wp_then, rule wp_conseq [OF journaled_change [OF Suc.prems(4) c]])
       (use go step rec of' Suc.prems m' E in \<open>auto simp: eq\<close>)
qed

section \<open>Committing and clearing\<close>

definition at_rest :: "migrator \<Rightarrow> nat \<Rightarrow> batch \<Rightarrow> store \<Rightarrow> bool" where
  "at_rest mg v b en \<longleftrightarrow> clean mg v b en \<and> bm_get en KEY_PENDING = None"

lemma wp_clear_journal:
  assumes "journaled ft mg v b cs j en"
  shows "wp F clear_journal (\<lambda>_. at_rest mg v b) (\<lambda>e en. F \<and> (journaled ft mg v b cs j en \<or> clean mg v b en)) en"
  unfolding clear_journal_def using assms
  by (intro wp_step_del) (auto simp: wp_simps journaled_def at_rest_def clean_def user_part_remove meta_at_other)

lemma wp_commit:
  assumes "journaled ft mg v b cs j en" "1 \<le> w" "w \<le> u32_max"
  shows "wp F (set_schema_version w now) (\<lambda>_. journaled ft mg w b cs j)
    (\<lambda>e en. F \<and> (journaled ft mg v b cs j en \<or> journaled ft mg w b cs j en)) en"
  unfolding set_schema_version_def using assms
  by (intro wp_then) (auto simp: wp_simps journaled_def user_part_insert meta_at_other meta_at_schema)

lemma wp_commit_clean:
  assumes "at_rest mg v b en" "1 \<le> w" "w \<le> u32_max"
  shows "wp F (set_schema_version w now) (\<lambda>_. at_rest mg w b) (\<lambda>e en. F \<and> (clean mg v b en \<or> clean mg w b en)) en"
  unfolding set_schema_version_def using assms
  by (intro wp_then) (auto simp: wp_simps at_rest_def clean_def user_part_insert meta_at_other meta_at_schema)

text \<open>The end of a step: the version moves, then the journal goes.\<close>

lemma wp_finish_step:
  assumes path: "on_path mg target goal v b" "v < target" "path_step mg v b st nb cs" "on_path mg target goal (v + 1) nb"
    and now: "journal_of mg v (length cs) j" "journaled ft mg v nb cs j en"
    and Q: "\<And>en. at_rest mg (v + 1) nb en \<Longrightarrow> wp F (f ()) Q E en"
    and E: "\<And>e en. F \<Longrightarrow> recoverable ft mg target goal en \<Longrightarrow> E e en"
  shows "wp F (b_then (set_schema_version (v + 1) now) (\<lambda>_. b_then clear_journal f)) Q E en"
proof -
  have w: "1 \<le> v + 1" "v + 1 \<le> u32_max" using on_path_ok(3,5) [OF path(4)] by simp_all
  have nb: "nb = apply_all (take (length cs) cs) b" using path_step_changes(3) [OF path(3)] by simp
  have rec: "recoverable ft mg target goal en'" if "journaled ft mg v nb cs j en' \<or> journaled ft mg (v + 1) nb cs j en'" for en'
    using recoverable_step [OF path now(1) order.refl] that nb by metis
  have cl: "wp F (b_then clear_journal f) Q E en'" if "journaled ft mg (v + 1) nb cs j en'" for en'
    by (rule wp_then, rule wp_conseq [OF wp_clear_journal [OF that]])
       (use Q E rec recoverable_clean [OF path(4)] in auto)
  show ?thesis
    by (rule wp_then, rule wp_conseq [OF wp_commit [OF now(2) w]]) (use cl E rec in auto)
qed

section \<open>The loop over the plan\<close>

definition path_plan :: "registry \<Rightarrow> nat \<Rightarrow> nat \<Rightarrow> planned_step list" where
  "path_plan reg v target = map (\<lambda>w. up (the (bm_get reg w))) [v..<target]"

lemma plan_up_path:
  "on_path mg target goal v b \<Longrightarrow> plan_up (mg_registry mg) src dst [v..<target] = Inr (path_plan (mg_registry mg) v target)"
proof (induction "target - v" arbitrary: v b)
  case 0
  then show ?case by (simp add: path_plan_def)
next
  case (Suc n)
  then have less: "v < target" by simp
  obtain st nb where s: "path_step mg v b st nb (snd (diff b nb))" and rest: "on_path mg target goal (v + 1) nb"
    using on_path_next [OF Suc.prems less] .
  have "plan_up (mg_registry mg) src dst [v + 1..<target] = Inr (path_plan (mg_registry mg) (v + 1) target)"
    by (rule Suc.hyps(1) [OF _ rest]) (use Suc.hyps(2) in simp)
  then show ?case using s less by (simp add: path_step_def upt_rec [of v] path_plan_def up_def)
qed

lemma plan_path:
  assumes "on_path mg target goal v b"
  shows "migration_plan (mg_registry mg) v target allow = Inr (path_plan (mg_registry mg) v target)"
  using plan_up_path [OF assms] on_path_ok(4) [OF assms] by (auto simp: migration_plan_def path_plan_def)

lemma path_plan_next:
  assumes "path_step mg v b st nb cs" "v < target"
  shows "path_plan (mg_registry mg) v target = up st # path_plan (mg_registry mg) (v + 1) target"
    "planned_to (up st) = v + 1" "planned_from (up st) = v"
  using assms by (simp_all add: path_step_def upt_rec [of v] path_plan_def planned_to_def planned_from_def up_def)

lemma step_journal_of:
  assumes "path_step mg v b st nb cs" "v < target" "target \<le> u32_max" "now \<le> u64_max"
  shows "journal_of mg v 0 (step_journal mg v target now (up st))"
proof -
  have "sp_name st \<in> step_names (mg_registry mg)"
    using assms(1) by (force simp: path_step_def step_names_def dest: map_of_SomeD)
  moreover have "planned_to (up st) = v + 1" using path_plan_next(2) [OF assms(1,2)] .
  ultimately show ?thesis
    using assms by (simp add: journal_of_def journal_fits_def step_journal_def up_def)
qed

lemma wp_perform_step:
  assumes path: "on_path mg target goal v b" "v < target" "path_step mg v b st nb cs" "on_path mg target goal (v + 1) nb"
    and now: "clean mg v b en" "journal_of mg v 0 j"
    and Q: "\<And>j en. journal_of mg v (length cs) j \<Longrightarrow> journaled ft mg v nb cs j en \<Longrightarrow> Q () en"
    and E: "\<And>e en. F \<Longrightarrow> recoverable ft mg target goal en \<Longrightarrow> E e en"
  shows "wp F (perform_step ft mg j cs) Q E en"
proof -
  note c = path_step_changes [OF path(3)]
  have "length (encode_changes cs) \<le> MAX_JOURNAL_BYTES" using path(3) path_step_def step_fits_def by blast
  then have small: "length cs \<le> u64_max"
    using length_encode_all [of cs] by (simp add: encode_changes_def MAX_JOURNAL_BYTES_def)
  let ?en1 = "bm_insert KEY_PENDING (encode_changes cs) en"
  let ?en2 = "bm_insert KEY_JOURNAL (ft_journal ft j) ?en1"
  have en1: "clean mg v b ?en1" and en2: "journaled ft mg v b cs j ?en2"
    using now(1) by (simp_all add: clean_def journaled_def user_part_insert meta_at_other)
  have ap: "wp F (apply_changes ft (mg_options mg) (length cs) j 0 cs) Q E ?en2"
    using wp_apply_changes [OF path small, of 0 0 j ft ?en2 Q F E "mg_options mg"] now(2) en2 Q E by simp
  have rec: "recoverable ft mg target goal ?en2"
    using recoverable_step [OF path now(2)] en2 by simp
  show ?thesis
    unfolding perform_step_def validate_ok [OF c(1)] Let_def
  proof (rule wp_step_result)
    show "wp F (if length (encode_changes cs) > op_max_journal_bytes (mg_options mg)
        then b_fail (LimitExceeded LimChangeList (op_max_journal_bytes (mg_options mg)) (length (encode_changes cs)))
        else b_then (s_put KEY_PENDING (encode_changes cs)) (\<lambda>_. b_then (write_journal ft j)
          (\<lambda>_. apply_changes ft (mg_options mg) (length cs) j 0 cs))) Q E en"
      unfolding write_journal_def using c(5)
      by (simp, intro wp_step_put ap conjI E rec recoverable_clean [OF path(1)] en1 now(1))
  qed simp
qed

lemma wp_migrate_loop:
  assumes "on_path mg target goal v b" "at_rest mg v b en" "now \<le> u64_max"
    and Q: "\<And>r' en. at_rest mg target goal en \<Longrightarrow>
      dry_run_loop (path_plan (mg_registry mg) v target) b v r = Inr (target, r') \<Longrightarrow> Q (target, r') en"
    and E: "\<And>e en. F \<Longrightarrow> recoverable ft mg target goal en \<Longrightarrow> E e en"
  shows "wp F (migrate_loop ft mg target now (path_plan (mg_registry mg) v target) b v r) Q E en"
  using assms(1,2) Q
proof (induction "target - v" arbitrary: v b r en)
  case 0
  then have "v = target" "b = goal" using on_path_ok(4) [OF 0(2)] on_path_end by fastforce+
  then show ?case using 0 by (simp add: path_plan_def wp_return)
next
  case (Suc n)
  then have less: "v < target" by simp
  obtain st nb where s: "path_step mg v b st nb (snd (diff b nb))" and rest: "on_path mg target goal (v + 1) nb"
    using on_path_next [OF Suc.prems(1) less] .
  obtain counts cs where d: "diff b nb = (counts, cs)" by fastforce
  with s have s: "path_step mg v b st nb cs" by simp
  have t: "target \<le> u32_max" using Suc.prems(1) by (simp add: on_path_def)
  have jo: "journal_of mg v 0 (step_journal mg v target now (up st))" by (rule step_journal_of [OF s less t assms(3)])
  let ?r = "report_step v (v + 1) (sp_name (pn_step (up st))) counts False r"
  have cl: "clean mg v b en" using Suc.prems(2) by (simp add: at_rest_def)
  have nx: "next_batch (up st) b = Inr nb" using s by (simp add: path_step_def)
  have dry: "dry_run_loop (path_plan (mg_registry mg) v target) b v r =
      dry_run_loop (path_plan (mg_registry mg) (v + 1) target) nb (v + 1) ?r"
    using path_plan_next [OF s less] nx d by simp
  have IH: "wp F (migrate_loop ft mg target now (path_plan (mg_registry mg) (v + 1) target) nb (v + 1) ?r) Q E en"
    if "at_rest mg (v + 1) nb en" for en
    by (rule Suc.hyps(1) [OF _ rest that]) (use Suc.hyps(2) Suc.prems(3) dry in simp_all)
  show ?case
    unfolding path_plan_next [OF s less] migrate_loop.simps nx
  proof (rule wp_step_result, goal_cases)
    case (1 a)
    then have a: "a = nb" by simp
    show ?case
      unfolding a d Let_def prod.case
    proof (cases "cs = []")
      case True
      have nb: "nb = b" using s diff_none [of b nb] True by (simp add: path_step_def)
      have w: "1 \<le> v + 1" "v + 1 \<le> u32_max" using on_path_ok(3,5) [OF rest] by simp_all
      show "wp F (b_then (if cs = [] then b_return () else perform_step ft mg (step_journal mg v target now (up st)) cs) (\<lambda>_.
          b_then (set_schema_version (v + 1) now) (\<lambda>_. b_then (if cs = [] then b_return () else clear_journal) (\<lambda>_.
          migrate_loop ft mg target now (path_plan (mg_registry mg) (v + 1) target) nb (v + 1) ?r)))) Q E en"
        unfolding if_P [OF True] return_then
        by (rule wp_then, rule wp_conseq [OF wp_commit_clean [OF Suc.prems(2) w]])
           (use IH E recoverable_clean [OF Suc.prems(1)] recoverable_clean [OF rest] nb in auto)
    next
      case False
      show "wp F (b_then (if cs = [] then b_return () else perform_step ft mg (step_journal mg v target now (up st)) cs) (\<lambda>_.
          b_then (set_schema_version (v + 1) now) (\<lambda>_. b_then (if cs = [] then b_return () else clear_journal) (\<lambda>_.
          migrate_loop ft mg target now (path_plan (mg_registry mg) (v + 1) target) nb (v + 1) ?r)))) Q E en"
        unfolding if_not_P [OF False]
        by (rule wp_then, rule wp_perform_step [OF Suc.prems(1) less s rest cl jo])
           (rule wp_finish_step [OF Suc.prems(1) less s rest], assumption+, rule IH, assumption, (rule E; assumption)+)
    qed
  qed simp
qed

end
