(* ===== verification/StateCrash.thy ===== *)
theory StateCrash
  imports StateStages
begin

text \<open>
  What a later run makes of a store an earlier one left behind: it resumes the journaled step, walks the
  rest of the path and ends at_rest at the target, or fails in a recoverable store again.
\<close>

section \<open>Resuming\<close>

lemma apply_to_batch_run:
  assumes "list_all change_ok cs" "bm_wf b"
  shows "\<exists>n. apply_to_batch cs counts b = (Inr n, apply_all cs b)"
  using assms
proof (induction cs arbitrary: counts b)
  case (Cons c cs)
  show ?case
  proof (cases c)
    case (Put key v)
    have ok: "entry_ok (key, v)" using Cons.prems(1) Put by (simp add: change_ok_def entry_ok_def)
    have same: "bm_insert key v b = b" if "bm_get b key = Some v"
      by (rule bm_ext) (use Cons.prems(2) that in \<open>auto simp: fun_eq_iff\<close>)
    show ?thesis
      using Cons.IH [of "bm_insert key v b"] Cons.prems Put insert_run [OF ok] same
      by (cases "bm_get b key") (auto simp: b_defs)
  next
    case (Del key)
    then show ?thesis using Cons.IH [of "bm_remove key b"] Cons.prems by (auto simp: b_defs batch_remove_def)
  qed
qed (simp add: b_defs)

lemma apply_rest_run:
  assumes "path_step mg v b st nb cs" "a \<le> m"
  shows "\<exists>n. apply_rest cs a (apply_all (take m cs) b) = Inr (n, nb)"
proof -
  have wf: "bm_wf b" using assms(1) by (simp add: path_step_def)
  have "list_all change_ok (drop a cs)"
    using path_step_changes(1) [OF assms(1)] by (auto simp: list_all_iff dest: in_set_dropD)
  then obtain n where "apply_to_batch (drop a cs) counts_zero (apply_all (take m cs) b) =
      (Inr n, apply_all (drop a cs) (apply_all (take m cs) b))"
    using apply_to_batch_run wf wf_apply_all by blast
  then show ?thesis
    using apply_resume [OF assms(2) wf, of cs] path_step_changes(3) [OF assms(1)] by (simp add: apply_rest_def)
qed

lemma wp_pending_changes:
  assumes "journaled ft mg w x cs j en" "decode_changes (encode_changes cs) = Inr cs" "Q cs en"
    "\<And>w. F \<Longrightarrow> E (StoreFailed w) en"
  shows "wp F pending_changes Q E en"
  unfolding pending_changes_def using assms by (intro wp_step_get) (simp_all add: journaled_def wp_simps)

text \<open>A step that was interrupted is replayed from the journal.\<close>

lemma wp_replay_step:
  assumes path: "on_path mg target goal v b" "v < target" "path_step mg v b st nb cs" "on_path mg target goal (v + 1) nb"
    and now: "journal_of mg v m j" "m \<le> length cs" "jn_pending_step j = Some p"
      "journaled ft mg v (apply_all (take m cs) b) cs j en"
    and Q: "\<And>r en. at_rest mg (v + 1) nb en \<Longrightarrow> Q (v + 1, nb, r) en"
    and E: "\<And>e en. F \<Longrightarrow> recoverable ft mg target goal en \<Longrightarrow> E e en"
  shows "wp F (replay_step ft mg j p st cs now (apply_all (take m cs) b) r) Q E en"
proof -
  have "length (encode_changes cs) \<le> MAX_JOURNAL_BYTES" using path(3) path_step_def step_fits_def by blast
  then have small: "length cs \<le> u64_max"
    using length_encode_all [of cs] by (simp add: encode_changes_def MAX_JOURNAL_BYTES_def)
  have rec: "recoverable ft mg target goal en'" if "journaled ft mg v (apply_all (take m cs) b) cs j' en'"
      "journal_of mg v m j'" for j' en'
    using recoverable_step [OF path that(2) now(2)] that(1) by blast
  define a where "a = ps_applied p"
  have p: "ps_to p = v + 1" "a \<le> m" "min (ps_applied p) (length cs) = a"
    using now(1-3) by (simp_all add: journal_of_def a_def)
  obtain n where n: "apply_rest cs a (apply_all (take m cs) b) = Inr (n, nb)"
    using apply_rest_run [OF path(3) p(2)] by blast
  define replay where "replay = (set_applied a j)\<lparr>jn_attempts := sat_add32 (jn_attempts j) 1\<rparr>"
  have jr: "journal_of mg v m replay"
    using now p small by (simp add: replay_def journal_of_def journal_fits_def set_applied_def sat_add32_def)
  let ?r = "report_step (ps_from p) (v + 1) (sp_name st) n True r"
  have ends: "wp F (b_then (set_schema_version (v + 1) now) (\<lambda>_. b_then clear_journal (\<lambda>_. b_return (v + 1, nb, ?r)))) Q E en'"
    if "journal_of mg v (length cs) j'" "journaled ft mg v nb cs j' en'" for j' en'
    by (rule wp_finish_step [OF path that]) (use Q E in \<open>simp_all add: wp_return\<close>)
  have ap: "wp F (b_then (apply_changes ft (mg_options mg) (length cs) replay a (drop a cs)) (\<lambda>_.
      b_then (set_schema_version (v + 1) now) (\<lambda>_. b_then clear_journal (\<lambda>_. b_return (v + 1, nb, ?r))))) Q E en'"
    if "journaled ft mg v (apply_all (take m cs) b) cs replay en'" for en'
    by (rule wp_then, rule wp_apply_changes [OF path small p(2) now(2) jr that]) (use ends E in blast)+
  have "wp F (b_then (write_journal ft replay) (\<lambda>_. b_then (apply_changes ft (mg_options mg) (length cs) replay a (drop a cs)) (\<lambda>_.
      b_then (set_schema_version (v + 1) now) (\<lambda>_. b_then clear_journal (\<lambda>_. b_return (v + 1, nb, ?r)))))) Q E en"
    by (rule wp_then, rule wp_conseq [OF journaled_rewrite [OF now(4)]]) (use ap E rec now(1) jr in blast)+
  then show ?thesis
    unfolding replay_step_def p(1,3) Let_def replay_def n by (auto intro!: wp_step_result)
qed

lemma wp_resume:
  assumes path: "on_path mg target goal v b" "v < target" "path_step mg v b st nb cs" "on_path mg target goal (v + 1) nb"
    and now: "journal_of mg v m j" "m \<le> length cs" "jn_pending_step j = Some p"
    and at: "w = v \<and> B = apply_all (take m cs) b \<or> w = v + 1 \<and> B = nb" "journaled ft mg w B cs j en"
    and Q: "\<And>r en. at_rest mg (v + 1) nb en \<Longrightarrow> Q (v + 1, nb, r) en"
    and E: "\<And>e en. F \<Longrightarrow> recoverable ft mg target goal en \<Longrightarrow> E e en"
  shows "wp F (resume ft mg j p now B r) Q E en"
proof -
  have p: "ps_from p = v" "ps_to p = v + 1" using now(1,3) by (simp_all add: journal_of_def)
  have st: "bm_get (mg_registry mg) v = Some st" "step_to st = v + 1" using path(3) by (simp_all add: path_step_def)
  have rec: "recoverable ft mg target goal en'" if "journaled ft mg w B cs j en'" for en'
    using recoverable_step [OF path now(1,2)] that at(1) by blast
  have met: "meta_at (ci_id (mg_info mg)) w en" using at(2) by (simp add: journaled_def)
  have clear: "wp F (b_then clear_journal (\<lambda>_. b_return (v + 1, nb, r))) Q E en" if "w = v + 1"
  proof (rule wp_then, rule wp_conseq [OF wp_clear_journal [OF at(2)]])
    show "wp F (b_return (v + 1, nb, r)) Q E en'" if "at_rest mg w B en'" for en'
      using that \<open>w = v + 1\<close> at(1) Q by (auto simp: wp_return)
    show "E e en'" if "F \<and> (journaled ft mg w B cs j en' \<or> clean mg w B en')" for e en'
      using that \<open>w = v + 1\<close> at(1) E rec recoverable_clean [OF path(4)] by auto
  qed
  have replay: "wp F (replay_step ft mg j p st cs now B r) Q E en" if "w = v"
  proof -
    have B: "B = apply_all (take m cs) b" and j: "journaled ft mg v (apply_all (take m cs) b) cs j en"
      using that at by auto
    show ?thesis unfolding B by (rule wp_replay_step [OF path now j]) (rule Q, assumption, (rule E; assumption))
  qed
  have "wp F (case Some meta of None \<Rightarrow> b_fail (Uninitialised 0) | Some meta \<Rightarrow>
      if mt_schema_version meta = v + 1 then b_then clear_journal (\<lambda>_. b_return (mt_schema_version meta, B, r))
      else if mt_schema_version meta \<noteq> v then b_fail (JournalInconsistent (VersionOff (mt_schema_version meta) v (v + 1)))
      else replay_step ft mg j p st cs now B r) Q E en" if "meta_ok (ci_id (mg_info mg)) w meta" for meta
    using that at(1) clear replay by (auto simp: meta_ok_def)
  then show ?thesis
    unfolding resume_def registry_step_def p st option.case if_not_P [OF not_not [THEN iffD2, OF refl]]
    using rec [OF at(2)] E
    by (intro wp_then wp_pending_changes [OF at(2) path_step_changes(4) [OF path(3)]] wp_meta_read [OF met]) auto
qed

section \<open>A whole run\<close>

lemma utf8_dec_inj: "utf8 (dec a) = utf8 (dec b) \<longleftrightarrow> a = b"
  using utf8_inj [of "dec a" "dec b"] by (auto simp: identity_valid dec_inj)

lemma meta_at_unique: "meta_at owner v en \<Longrightarrow> meta_at owner w en \<Longrightarrow> v = w"
  by (auto simp: meta_at_def utf8_dec_inj)

text \<open>The version and the batch a run starts from.\<close>

lemma recoverable_start:
  assumes "recoverable ft mg target goal en"
  obtains v b where "on_path mg target goal v b" "meta_at (ci_id (mg_info mg)) v en" "bm_wf en" "batch_ok (user_part en)"
    "entries_bytes (user_part en) \<le> op_max_batch_bytes (mg_options mg)"
proof -
  obtain v b where path: "on_path mg target goal v b" and c: "clean mg v b en \<or> (\<exists>st nb cs j m. path_step mg v b st nb cs \<and>
      on_path mg target goal (v + 1) nb \<and> m \<le> length cs \<and>
      (journaled ft mg v (apply_all (take m cs) b) cs j en \<or> journaled ft mg (v + 1) nb cs j en))"
    using assms unfolding recoverable_def by blast
  from c show ?thesis
  proof (elim disjE exE conjE)
    assume "clean mg v b en"
    then show ?thesis using that [OF path] on_path_ok [OF path] by (simp add: clean_def)
  next
    fix st nb cs j m
    assume s: "path_step mg v b st nb cs" "m \<le> length cs" "journaled ft mg v (apply_all (take m cs) b) cs j en"
    have "list_all change_ok (take m cs)"
      using path_step_changes(1) [OF s(1)] by (auto simp: list_all_iff dest: in_set_takeD)
    then have "batch_ok (apply_all (take m cs) b)" using batch_ok_apply on_path_ok(1) [OF path] by blast
    then show ?thesis using that [OF path] s(3) path_step_changes(6) [OF s(1,2)] by (simp add: journaled_def)
  next
    fix st nb cs j m
    assume "on_path mg target goal (v + 1) nb" "journaled ft mg (v + 1) nb cs j en"
    then show ?thesis using that [of "v + 1" nb] on_path_ok(1,2) by (simp add: journaled_def)
  qed
qed

text \<open>After the journal is at_rest the store is at a version of the path, with nothing in flight.\<close>

lemma wp_settle_journal:
  assumes "journal_codec ft mg" "recoverable ft mg target goal en" "meta_at (ci_id (mg_info mg)) w en"
    and Q: "\<And>v b r' en'. on_path mg target goal v b \<Longrightarrow> at_rest mg v b en' \<Longrightarrow>
      (bm_get en KEY_JOURNAL = None \<Longrightarrow> v = w \<and> b = user_part en \<and> r' = r) \<Longrightarrow> Q (v, b, r') en'"
    and E: "\<And>e en. F \<Longrightarrow> recoverable ft mg target goal en \<Longrightarrow> E e en"
  shows "wp F (settle_journal ft mg w now (user_part en) r) Q E en"
proof -
  let ?tail = "\<lambda>s. b_then (s_get KEY_PENDING) (\<lambda>stray. b_then (if stray = None then b_return ()
      else b_then (read_journal ft) (\<lambda>found. if found = None then s_del KEY_PENDING else b_return ())) (\<lambda>_. b_return s))"
  have tail: "wp F (?tail (v, b, r')) Q E en'" if path: "on_path mg target goal v b" and cl: "clean mg v b en'"
    and same: "bm_get en KEY_JOURNAL = None \<Longrightarrow> v = w \<and> b = user_part en \<and> r' = r" for v b r' en'
  proof (rule wp_step_get)
    have rec: "recoverable ft mg target goal en'" using recoverable_clean [OF path cl] .
    show "E (StoreFailed e) en'" if "F" for e using E [OF that rec] .
    show "wp F (b_then (if bm_get en' KEY_PENDING = None then b_return ()
      else b_then (read_journal ft) (\<lambda>found. if found = None then s_del KEY_PENDING else b_return ())) (\<lambda>_. b_return (v, b, r'))) Q E en'"
    proof (cases "bm_get en' KEY_PENDING = None")
      case True
      then show ?thesis using Q [OF path _ same] cl by (simp add: wp_return at_rest_def)
    next
      case False
      have cl': "clean mg v b (bm_remove KEY_PENDING en')" "at_rest mg v b (bm_remove KEY_PENDING en')"
        using cl by (simp_all add: clean_def at_rest_def user_part_remove meta_at_other)
      have "wp F (s_del KEY_PENDING) (\<lambda>_. wp F (b_return (v, b, r')) Q E) E en'"
        using Q [OF path cl'(2) same] E rec recoverable_clean [OF path cl'(1)] by (simp add: wp_simps)
      moreover have "bm_get en' KEY_JOURNAL = None" using cl by (simp add: clean_def)
      ultimately have "wp F (b_then (read_journal ft) (\<lambda>found. if found = None then s_del KEY_PENDING else b_return ()))
          (\<lambda>_. wp F (b_return (v, b, r')) Q E) E en'"
        by (intro wp_then wp_no_journal) (use E rec in simp_all)
      then show ?thesis unfolding if_not_P [OF False] by (rule wp_then)
    qed
  qed
  obtain v b where path: "on_path mg target goal v b" and c: "clean mg v b en \<or> (\<exists>st nb cs j m. v < target \<and> path_step mg v b st nb cs \<and>
      on_path mg target goal (v + 1) nb \<and> m \<le> length cs \<and> journal_of mg v m j \<and>
      (journaled ft mg v (apply_all (take m cs) b) cs j en \<or> journaled ft mg (v + 1) nb cs j en))"
    using assms(2) unfolding recoverable_def by blast
  note ends = E [OF _ assms(2)]
  from c show ?thesis
  proof (elim disjE[where P = "clean mg v b en"] exE conjE)
    assume cl: "clean mg v b en"
    have w: "w = v" and b: "user_part en = b" using cl meta_at_unique assms(3) by (auto simp: clean_def)
    show ?thesis
      unfolding settle_journal_def
      by (rule wp_then, rule wp_no_journal) (use cl tail [OF path cl, of r] w b ends in \<open>simp_all add: clean_def\<close>)
  next
    fix st nb cs j m
    assume less: "v < target" and s: "path_step mg v b st nb cs" and path': "on_path mg target goal (v + 1) nb"
      and m: "m \<le> length cs" and j: "journal_of mg v m j"
      and at: "journaled ft mg v (apply_all (take m cs) b) cs j en \<or> journaled ft mg (v + 1) nb cs j en"
    obtain p where p: "jn_pending_step j = Some p" using j by (auto simp: journal_of_def split: option.splits)
    have at': "w = v \<and> user_part en = apply_all (take m cs) b \<or> w = v + 1 \<and> user_part en = nb"
      "journaled ft mg w (user_part en) cs j en"
      using at assms(3) meta_at_unique by (auto simp: journaled_def)
    have some: "bm_get en KEY_JOURNAL \<noteq> None" using at'(2) by (simp add: journaled_def)
    have res: "wp F (resume ft mg j p now (user_part en) r) (\<lambda>s. wp F (?tail (case s of (v, b, r) \<Rightarrow> (v, b, r\<lparr>mr_resumed := True\<rparr>))) Q E) E en"
      by (rule wp_resume [OF path less s path' j m p at']) (use tail [OF path'] E some in \<open>auto simp: at_rest_def\<close>)
    have "wp F (b_then (b_then (resume ft mg j p now (user_part en) r) (\<lambda>(v, b, r). b_return (v, b, r\<lparr>mr_resumed := True\<rparr>))) ?tail) Q E en"
      unfolding then_assoc by (rule wp_then, rule wp_conseq [OF res]) (auto split: prod.splits)
    then show ?thesis
      unfolding settle_journal_def
      by (intro wp_then [OF wp_read_journal [OF assms(1)]]) 
         (use j at'(2) p ends in \<open>auto simp: journal_of_def journaled_def split: option.splits\<close>)
  qed
qed

text \<open>The metadata written at the end keeps the store at_rest.\<close>

lemma wp_meta_write:
  assumes "at_rest mg v b en" "meta_ok (ci_id (mg_info mg)) v meta"
    and Q: "\<And>en. at_rest mg v b en \<Longrightarrow> Q () en"
    and E: "\<And>e en. F \<Longrightarrow> clean mg v b en \<Longrightarrow> E e en"
  shows "wp F (meta_write meta now) Q E en"
proof -
  have put: "at_rest mg v b (bm_insert key x en)"
    if "at_rest mg v b en" "meta_at (ci_id (mg_info mg)) v (bm_insert key x en)"
      "key \<in> {KEY_SCHEMA_VERSION, KEY_COMPONENT, KEY_COMPONENT_VERSION, KEY_LAST_MIGRATED_BY, KEY_LAST_MIGRATED_AT,
        KEY_CREATED_AT, KEY_UPDATED_AT}" for key x en
    using that by (auto simp: at_rest_def clean_def user_part_insert)
  note m = assms(2) [unfolded meta_ok_def]
  have at: "meta_at (ci_id (mg_info mg)) v en" if "at_rest mg v b en" for en using that by (simp add: at_rest_def clean_def)
  have ks: "at_rest mg v b (bm_insert KEY_SCHEMA_VERSION (utf8 (dec (mt_schema_version meta))) en)"
    "at_rest mg v b (bm_insert KEY_COMPONENT (utf8 (mt_component meta)) en)"
    "at_rest mg v b (bm_insert KEY_COMPONENT_VERSION (utf8 (mt_component_version meta)) en)"
    "at_rest mg v b (bm_insert KEY_LAST_MIGRATED_BY (utf8 (mt_last_migrated_by meta)) en)"
    "at_rest mg v b (bm_insert KEY_LAST_MIGRATED_AT (utf8 (dec (mt_last_migrated_at_ms meta))) en)"
    "at_rest mg v b (bm_insert KEY_CREATED_AT (utf8 (dec (mt_created_at_ms meta))) en)"
    "at_rest mg v b (bm_insert KEY_UPDATED_AT (utf8 (dec now)) en)" if s: "at_rest mg v b en" for en
    using put [OF s] meta_at_write [OF at [OF s]] meta_at_other(1) [OF at [OF s]] m by simp_all
  have step: "wp F (b_then (s_put key x) f) Q E en"
    if "\<And>en. at_rest mg v b en \<Longrightarrow> at_rest mg v b (bm_insert key x en)" "\<And>en. at_rest mg v b en \<Longrightarrow> wp F (f ()) Q E en"
      "at_rest mg v b en" for key x f en
    by (rule wp_step_put) (use that E in \<open>auto simp: at_rest_def\<close>)
  have last: "wp F (s_put KEY_UPDATED_AT (utf8 (dec now))) Q E en" if "at_rest mg v b en" for en
    using ks(7) [OF that] Q E that by (auto simp: wp_simps at_rest_def)
  show ?thesis
    unfolding meta_write_def put_number_def
    by (intro step [OF ks(1)] step [OF ks(2)] step [OF ks(3)] step [OF ks(4)] step [OF ks(5)] step [OF ks(6)] last assms(1))
qed

lemma on_path_goal: "on_path mg target goal w c \<Longrightarrow> on_path mg target goal target goal"
proof (induction "target - w" arbitrary: w c)
  case 0
  then have "w = target" using on_path_ok(4) by fastforce
  then show ?case using 0 on_path_end by blast
next
  case (Suc n)
  then have "w < target" by simp
  then obtain st nb where "on_path mg target goal (w + 1) nb" using on_path_next [OF Suc.prems] by blast
  then show ?case using Suc.hyps(1) [of "w + 1" nb] Suc.hyps(2) by simp
qed

text \<open>The report of a run from a store without a journal is that of the steps alone.\<close>

definition reported :: "migrator \<Rightarrow> nat \<Rightarrow> store \<Rightarrow> migration_report \<Rightarrow> bool" where
  "reported mg target en rep \<longleftrightarrow> (\<forall>v. clean mg v (user_part en) en \<longrightarrow> (\<exists>sn r. rep = r\<lparr>mr_final_version := target\<rparr> \<and>
     dry_run_loop (path_plan (mg_registry mg) v target) (user_part en) v (report_new v target False (Some sn)) = Inr (target, r)))"

lemma reportedI:
  assumes "dry_run_loop (path_plan (mg_registry mg) w target) c w r = Inr (target, r')" "meta_at (ci_id (mg_info mg)) v en"
    "bm_get en KEY_JOURNAL = None \<Longrightarrow> w = v \<and> c = user_part en \<and> r = report_new v target False (Some sn)"
  shows "reported mg target en (r'\<lparr>mr_final_version := target\<rparr>)"
  unfolding reported_def
proof (intro allI impI)
  fix v'
  assume c: "clean mg v' (user_part en) en"
  then have "v' = v" using meta_at_unique [OF _ assms(2)] unfolding clean_def by blast
  then show "\<exists>sn r. r'\<lparr>mr_final_version := target\<rparr> = r\<lparr>mr_final_version := target\<rparr> \<and>
     dry_run_loop (path_plan (mg_registry mg) v' target) (user_part en) v' (report_new v' target False (Some sn)) = Inr (target, r)"
    using assms(1,3) c by (intro exI [of _ sn] exI [of _ r']) (simp add: clean_def)
qed

text \<open>A run from any stage ends at the target, or fails in one of the stages again.\<close>

lemma wp_migrate:
  assumes codec: "journal_codec ft mg" and info: "validate_info (mg_info mg) = Inr ()" and now: "now \<le> u64_max"
    and rec: "recoverable ft mg target goal en"
    and sink: "\<And>meta sn e. sink meta sn = Inl e \<Longrightarrow> F"
    and Q: "\<And>rep en'. mr_final_version rep = target \<Longrightarrow> at_rest mg target goal en' \<Longrightarrow> reported mg target en rep \<Longrightarrow> Q rep en'"
    and E: "\<And>e en. F \<Longrightarrow> recoverable ft mg target goal en \<Longrightarrow> E e en"
  shows "wp F (migrate ft mg sink target now) Q E en"
proof -
  obtain v b where path: "on_path mg target goal v b" and met: "meta_at (ci_id (mg_info mg)) v en" and wf: "bm_wf en"
    and ok: "batch_ok (user_part en)" and room: "entries_bytes (user_part en) \<le> op_max_batch_bytes (mg_options mg)"
    using recoverable_start [OF rec] .
  note ends = E [OF _ rec]
  have t: "target \<noteq> 0" using on_path_ok(3,4) [OF path] by simp
  have i: "is_semver (ci_version (mg_info mg))" "is_sha256 (ci_sha256 (mg_info mg))"
    using info by (auto simp: validate_info_def split: if_splits)
  have finish: "wp F (b_then (if mr_steps r = [] then b_return ()
      else meta_write (meta\<lparr>mt_schema_version := target, mt_last_migrated_by := ci_sha256 (mg_info mg),
        mt_last_migrated_at_ms := now, mt_component_version := ci_version (mg_info mg)\<rparr>) now)
      (\<lambda>_. b_return (r\<lparr>mr_final_version := target\<rparr>))) Q E en'"
    if s: "at_rest mg target goal en'" and p: "on_path mg target goal target goal" and m: "meta_ok (ci_id (mg_info mg)) v meta"
      and d: "reported mg target en (r\<lparr>mr_final_version := target\<rparr>)" for r en' meta
  proof (cases "mr_steps r = []")
    case True
    then show ?thesis using Q [OF _ s d] by (simp add: wp_return)
  next
    case False
    have "meta_ok (ci_id (mg_info mg)) target (meta\<lparr>mt_schema_version := target, mt_last_migrated_by := ci_sha256 (mg_info mg),
        mt_last_migrated_at_ms := now, mt_component_version := ci_version (mg_info mg)\<rparr>)"
      using m i now on_path_ok(3,5) [OF p] by (simp add: meta_ok_def)
    then show ?thesis
      unfolding if_not_P [OF False]
      by (intro wp_then wp_meta_write [OF s]) (use Q [OF _ _ d] E recoverable_clean [OF p] in \<open>auto simp: wp_return\<close>)
  qed
  let ?after = "\<lambda>meta (v, b, r). b_then (b_result (migration_plan (mg_registry mg) v target (op_allow_downgrade (mg_options mg)))) (\<lambda>ps.
      b_then (migrate_loop ft mg target now ps b v r) (\<lambda>(v, r).
      b_then (if mr_steps r = [] then b_return ()
        else meta_write (meta\<lparr>mt_schema_version := v, mt_last_migrated_by := ci_sha256 (mg_info mg),
          mt_last_migrated_at_ms := now, mt_component_version := ci_version (mg_info mg)\<rparr>) now)
      (\<lambda>_. b_return (r\<lparr>mr_final_version := v\<rparr>))))"
  have loop: "wp F (?after meta (w, c, r)) Q E en'"
    if p: "on_path mg target goal w c" and s: "at_rest mg w c en'" and m: "meta_ok (ci_id (mg_info mg)) v meta"
      and r: "bm_get en KEY_JOURNAL = None \<Longrightarrow> w = v \<and> c = user_part en \<and> r = report_new v target False (Some sn)"
    for w c r en' meta sn
    unfolding plan_path [OF p] prod.case
    by (intro wp_step_result wp_then)
       (auto intro!: wp_migrate_loop [OF p s now] finish [OF _ on_path_goal [OF p] m] reportedI [OF _ met r] E)
  have settle: "wp F (b_then (settle_journal ft mg v now (user_part en) (report_new v target False (Some sn))) (?after meta)) Q E en"
    if m: "meta_ok (ci_id (mg_info mg)) v meta" for meta sn
    by (rule wp_then, rule wp_settle_journal [OF codec rec met]) (rule loop [OF _ _ m], assumption+, (rule E; assumption))
  have taken: "wp F (b_then (b_result (sink meta sn)) (\<lambda>_. b_then (b_result (snapshot_batch sn)) (\<lambda>b.
      b_then (settle_journal ft mg v now b (report_new v target False (Some sn))) (?after meta)))) Q E en"
    if "meta_ok (ci_id (mg_info mg)) v meta" "sn_entries sn = user_part en" for meta sn
    using settle [OF that(1), of sn] that(2) sink ends from_entries_ok [OF ok]
    by (intro wp_step_result) (auto simp: snapshot_batch_def)
  show ?thesis
    unfolding migrate_def open_meta_def then_assoc info
  proof (rule wp_step_result, rule wp_then, rule wp_meta_read [OF met], goal_cases)
    case (1 _ meta)
    have m: "mt_component meta = ci_id (mg_info mg)" "mt_schema_version meta = v" using 1 by (simp_all add: meta_ok_def)
    show ?case
      unfolding option.case m(1) if_not_P [OF not_not [THEN iffD2, OF refl]] return_then if_not_P [OF t] m(2) plan_path [OF path]
      by (rule wp_step_result, rule wp_then, rule wp_snapshot_take [OF wf ok room on_path_ok(6) [OF path] 1(2)])
         (use taken [OF 1(2)] ends m in auto)
  qed (use ends in auto)
qed

end
