(* ===== verification/StateView.thy ===== *)
theory StateView
  imports StateLaws
begin

text \<open>
  The view a component gets of its namespace: it is a store of its own, and nothing the component calls
  through it touches the reserved keys.
\<close>

section \<open>The component's view is a store\<close>

lemma user_part_get: "bm_wf m \<Longrightarrow> bm_get (user_part m) key = (if is_reserved key then None else bm_get m key)"
  by (auto simp: user_part_fst bm_get_filter split: option.split)

lemma user_part_scan: "bm_wf m \<Longrightarrow> user_part (bm_scan p m) = bm_scan p (user_part m)"
  by (simp add: bm_scan_filter conj_commute)

lemma user_ordered:
  assumes "ordered_kv get put del scan view ok"
  shows "ordered_kv (user_get get) (user_put put) (user_del del) (user_scan_prefix scan) (\<lambda>s. user_part (view s)) ok"
proof -
  note laws = ordered_kv.view_wf [OF assms] ordered_kv.get_state [OF assms] ordered_kv.get_value [OF assms]
    ordered_kv.put_ok [OF assms] ordered_kv.put_done [OF assms] ordered_kv.del_ok [OF assms]
    ordered_kv.del_done [OF assms] ordered_kv.scan_state [OF assms] ordered_kv.scan_value [OF assms]
  show ?thesis
  proof (unfold_locales, goal_cases)
    case (6 s k v)
    then show ?case
      using ordered_kv.put_failed [OF assms 6, of k v] laws(1) [OF 6]
      by (auto simp: user_put_def user_part_insert split: sum.split)
  next
    case (9 s k)
    then show ?case
      using ordered_kv.del_failed [OF assms 9, of k] laws(1) [OF 9]
      by (auto simp: user_del_def user_part_remove)
  next
    case (10 s p)
    then show ?case
      using laws(8) [OF 10, of p] by (auto simp: user_scan_prefix_def split: prod.split sum.split)
  next
    case (11 s p es)
    then show ?case
      using laws(9) [of s p] laws(1) [of s] by (auto simp: user_scan_prefix_def user_part_scan split: prod.splits sum.splits)
  qed (use laws in \<open>auto simp: user_get_def user_put_def user_del_def user_scan_prefix_def user_part_get user_part_insert
      user_part_remove split: prod.splits sum.splits if_splits\<close>)
qed

interpretation user_view: ordered_kv "user_get mem_get" "user_put mem_put" "user_del mem_del" "user_scan_prefix mem_scan_prefix"
    "\<lambda>s. user_part (mk_entries s)" "\<lambda>s. bm_wf (mk_entries s)"
  by (rule user_ordered [OF budgeted.ordered_kv_axioms])

text \<open>Whatever the component calls, the reserved keys stay as they are.\<close>

abbreviation reserved_part :: "(bytes, bytes) btree \<Rightarrow> (bytes, bytes) btree" where
  "reserved_part m \<equiv> filter (\<lambda>e. is_reserved (fst e)) m"

lemma reserved_part_insert: "bm_wf m \<Longrightarrow> \<not> is_reserved key \<Longrightarrow> reserved_part (bm_insert key v m) = reserved_part m"
  by (rule filter_bm_insert_out [of is_reserved]) simp_all

lemma reserved_part_remove: "\<not> is_reserved key \<Longrightarrow> reserved_part (bm_remove key m) = reserved_part m"
  by (auto simp: bm_remove_def intro!: filter_cong)

lemma reserved_part_del:
  assumes "bm_wf (mk_entries s)" "\<not> is_reserved key"
  shows "reserved_part (mk_entries (snd (mem_del s key))) = reserved_part (mk_entries s)"
proof -
  have "mk_entries (snd (mem_del s key)) = mk_entries s \<or> mk_entries (snd (mem_del s key)) = bm_remove key (mk_entries s)"
    using budgeted.del_failed [OF assms(1), of key] by (simp only: insert_iff empty_iff simp_thms)
  then show ?thesis by (elim disjE) (simp_all only: reserved_part_remove [OF assms(2)])
qed

lemma reserved_part_put:
  assumes "bm_wf (mk_entries s)" "\<not> is_reserved key"
  shows "reserved_part (mk_entries (snd (mem_put s key v))) = reserved_part (mk_entries s)"
proof -
  have "mk_entries (snd (mem_put s key v)) = mk_entries s \<or> mk_entries (snd (mem_put s key v)) = bm_insert key v (mk_entries s)"
    using budgeted.put_failed [OF assms(1), of key v] by (simp only: insert_iff empty_iff simp_thms)
  then show ?thesis by (elim disjE) (simp_all only: reserved_part_insert [OF assms])
qed

lemma user_del_loop:
  assumes "\<forall>key \<in> set ks. \<not> is_reserved key" "bm_wf (mk_entries s)"
  shows "reserved_part (mk_entries (snd (trait_del_loop mem_del ks n s))) = reserved_part (mk_entries s)"
  using assms
proof (induction ks arbitrary: n s)
  case (Cons key ks)
  obtain r s' where d: "mem_del s key = (r, s')" by fastforce
  have "bm_wf (mk_entries s')" using budgeted.del_ok [OF Cons.prems(2), of key] d by simp
  then have IH: "reserved_part (mk_entries (snd (trait_del_loop mem_del ks n s'))) = reserved_part (mk_entries s')" for n
    using Cons.prems(1) by (intro Cons.IH) simp_all
  have "\<not> is_reserved key" using Cons.prems(1) by simp
  from reserved_part_del [OF Cons.prems(2) this] have "reserved_part (mk_entries s') = reserved_part (mk_entries s)"
    unfolding d snd_conv .
  then show ?case using IH by (cases r) (simp_all only: trait_del_loop.simps d prod.case sum.case snd_conv)
qed simp

datatype user_call = UserGet bytes | UserPut bytes bytes | UserDel bytes | UserScan bytes | UserDelPrefix bytes

fun user_does :: "mem_kv \<Rightarrow> user_call \<Rightarrow> mem_kv" where
  "user_does s (UserGet key) = snd (user_get mem_get s key)"
| "user_does s (UserPut key v) = snd (user_put mem_put s key v)"
| "user_does s (UserDel key) = snd (user_del mem_del s key)"
| "user_does s (UserScan p) = snd (user_scan_prefix mem_scan_prefix s p)"
| "user_does s (UserDelPrefix p) = snd (user_del_prefix mem_del mem_scan_prefix s p)"

lemma trait_del_loop_wf: "bm_wf (mk_entries s) \<Longrightarrow> bm_wf (mk_entries (snd (trait_del_loop mem_del ks n s)))"
proof (induction ks arbitrary: n s)
  case (Cons key ks)
  obtain r s' where d: "mem_del s key = (r, s')" by fastforce
  then have "bm_wf (mk_entries s')" using budgeted.del_ok [OF Cons.prems, of key] by simp
  then show ?case using Cons.IH [of s'] d by (cases r) simp_all
qed simp

lemma user_does_kept:
  assumes "bm_wf (mk_entries s)"
  shows "bm_wf (mk_entries (user_does s c)) \<and> reserved_part (mk_entries (user_does s c)) = reserved_part (mk_entries s)"
proof (cases c)
  case (UserPut key v)
  then show ?thesis
    using assms budgeted.put_ok [OF assms, of key v] reserved_part_put [OF assms, of key v]
    by (simp add: user_put_def split: sum.split)
next
  case (UserDel key)
  then show ?thesis
    using assms budgeted.del_ok [OF assms, of key] reserved_part_del [OF assms, of key] by (simp add: user_del_def)
next
  case (UserDelPrefix p)
  have u: "\<forall>key \<in> set (map fst (user_part es)). \<not> is_reserved key" for es by auto
  show ?thesis
    using UserDelPrefix assms user_del_loop [OF u assms] trait_del_loop_wf [OF assms]
    by (simp add: user_del_prefix_def user_scan_prefix_def mem_scan_prefix_def)
qed (use assms in \<open>auto simp: user_get_def mem_get_def user_scan_prefix_def mem_scan_prefix_def\<close>)

end
