(* ===== verification/StateReads.thy ===== *)
theory StateReads
  imports StateLaws
begin

text \<open>
  Programs that only read: whatever the store answers, it keeps its entries; and programs that can only
  fail, once a journal is in the way.
\<close>

section \<open>Programs that only read\<close>

definition reads_only :: "(kv, 'e, 'a) prog \<Rightarrow> bool" where
  "reads_only m \<longleftrightarrow> (\<forall>s. entries (snd (m s)) = entries s)"

named_theorems reads_intros \<open>programs that only read, call by call\<close>

lemma reads_value [reads_intros]: "reads_only (b_return a)"
  by (simp add: reads_only_def b_return_def)

lemma reads_fail [reads_intros]: "reads_only (b_fail e)"
  by (simp add: reads_only_def b_fail_def)

lemma reads_result [reads_intros]: "reads_only (b_result r)"
  by (simp add: reads_only_def b_result_def)

lemma reads_then [reads_intros]:
  assumes "reads_only m" "\<And>a. reads_only (f a)"
  shows "reads_only (b_then m f)"
  unfolding reads_only_def
proof
  fix s
  obtain r s' where m: "m s = (r, s')" by fastforce
  then have "entries s' = entries s" using assms(1) by (metis reads_only_def snd_conv)
  then show "entries (snd (b_then m f s)) = entries s"
    using assms(2) m by (cases r) (simp_all add: b_then_def reads_only_def)
qed

lemma reads_if [reads_intros]: "reads_only m \<Longrightarrow> reads_only n \<Longrightarrow> reads_only (if c then m else n)"
  by simp

lemma reads_option [reads_intros]:
  "reads_only m \<Longrightarrow> (\<And>a. reads_only (f a)) \<Longrightarrow> reads_only (case x of None \<Rightarrow> m | Some a \<Rightarrow> f a)"
  by (cases x) simp_all

lemma reads_pair [reads_intros]: "(\<And>a b. reads_only (f a b)) \<Longrightarrow> reads_only (case x of (a, b) \<Rightarrow> f a b)"
  by (cases x) simp

lemma reads_batch_result [reads_intros]:
  "(\<And>e. reads_only (f e)) \<Longrightarrow> (\<And>b. reads_only (g b)) \<Longrightarrow> reads_only (case x of (Inl e, _) \<Rightarrow> f e | (Inr _, b) \<Rightarrow> g b)"
  by (auto split: prod.split sum.split)

lemma reads_lift: "reads_only (lift_kv err (kv_read f))"
  by (auto simp: reads_only_def lift_kv_def kv_defs split: list.split fault.split)

lemma reads_get [reads_intros]: "reads_only (s_get key)"
  using reads_lift by (simp add: s_get_def kv_get_def)

lemma reads_scan [reads_intros]: "reads_only (s_scan p)"
  using reads_lift by (simp add: s_scan_def kv_scan_def)

lemma reads_pages [reads_intros]: "reads_only (read_pages page max_bytes cursor acc)"
proof -
  have "entries (snd (read_pages page max_bytes cursor acc s)) = entries s" for s
  proof (induction page max_bytes cursor acc s rule: read_pages.induct)
    case (1 page max_bytes cursor acc s)
    have "reads_only (s_scan_page [] cursor (max page 1))"
      using reads_lift by (simp add: s_scan_page_def scan_page_read)
    then have "entries (snd (s_scan_page [] cursor (max page 1) s)) = entries s" by (simp add: reads_only_def)
    with 1 show ?case by (subst read_pages.simps) (auto split: prod.split sum.split)
  qed
  then show ?thesis by (simp add: reads_only_def)
qed

lemma reads_meta [reads_intros]: "reads_only (meta_text key)" "reads_only (meta_number key)" "reads_only meta_read"
proof -
  show t: "reads_only (meta_text key)" for key unfolding meta_text_def by (intro reads_intros)
  show n: "reads_only (meta_number key)" for key unfolding meta_number_def by (intro reads_intros t)
  show "reads_only meta_read" unfolding meta_read_def by (intro reads_intros t n)
qed

lemma reads_open_meta [reads_intros]: "reads_only (open_meta mg)"
  unfolding open_meta_def by (intro reads_intros)

lemma reads_snapshot [reads_intros]: "reads_only (snapshot_take sha enc meta now max_bytes)"
  unfolding snapshot_take_def by (intro reads_intros)

lemma reads_load [reads_intros]: "reads_only (batch_load max_bytes)"
  unfolding batch_load_def by (intro reads_intros)

lemma reads_journal [reads_intros]: "reads_only (read_journal ft)"
  unfolding read_journal_def by (intro reads_intros)

lemma reads_pending [reads_intros]: "reads_only pending_changes"
  unfolding pending_changes_def by (intro reads_intros)

lemma reads_dry_run: "reads_only (dry_run ft mg target)"
  unfolding dry_run_def dry_run_resume_def Let_def by (intro reads_intros)

section \<open>Programs that can only fail\<close>

text \<open>From every store whose entries satisfy \<open>P\<close> the program stops with an error and has written nothing.\<close>

definition stuck :: "(store \<Rightarrow> bool) \<Rightarrow> (kv, 'e, 'a) prog \<Rightarrow> bool" where
  "stuck P m \<longleftrightarrow> (\<forall>s. P (entries s) \<longrightarrow> (\<exists>e s'. m s = (Inl e, s') \<and> entries s' = entries s))"

lemma stuck_fail: "stuck P (b_fail e)"
  by (simp add: stuck_def b_fail_def)

lemma stuck_if: "stuck P m \<Longrightarrow> stuck P n \<Longrightarrow> stuck P (if c then m else n)"
  by simp

lemma stuck_first: "stuck P m \<Longrightarrow> stuck P (b_then m f)"
  by (fastforce simp: stuck_def b_then_def)

lemma stuck_then:
  assumes "reads_only m" "\<And>a. stuck P (f a)"
  shows "stuck P (b_then m f)"
  unfolding stuck_def
proof (intro allI impI)
  fix s :: kv
  assume P: "P (entries s)"
  obtain r s' where m: "m s = (r, s')" by fastforce
  then have s': "entries s' = entries s" using assms(1) by (metis reads_only_def snd_conv)
  show "\<exists>e s'. b_then m f s = (Inl e, s') \<and> entries s' = entries s"
  proof (cases r)
    case (Inl e)
    then show ?thesis using m s' by (simp add: b_then_def)
  next
    case (Inr a)
    have "P (entries s')" using P s' by simp
    then show ?thesis using m s' Inr assms(2) [of a, unfolded stuck_def, rule_format, of s'] by (simp add: b_then_def)
  qed
qed

lemma stuck_journal:
  assumes "\<And>en. P en \<Longrightarrow> bm_get en KEY_JOURNAL = Some raw" "ft_read_journal ft raw = Some j" "stuck P (f (Some j))"
  shows "stuck P (b_then (read_journal ft) f)"
proof -
  have get: "b_then (s_get KEY_JOURNAL) g s = (case s_get KEY_JOURNAL s of (Inl e, s) \<Rightarrow> (Inl e, s) | (Inr _, s) \<Rightarrow> g (Some raw) s)"
    if "P (entries s)" for g :: "bytes option \<Rightarrow> 'a sm" and s
    using assms(1) [OF that] by (auto simp: b_then_def store_prog_defs split: list.split fault.split)
  have kept: "entries (snd (s_get KEY_JOURNAL s)) = entries s" for s using reads_get by (simp add: reads_only_def)
  show ?thesis
    unfolding stuck_def read_journal_def then_assoc
  proof (intro allI impI)
    fix s :: kv
    assume P: "P (entries s)"
    obtain r s' where r: "s_get KEY_JOURNAL s = (r, s')" by fastforce
    then have s': "entries s' = entries s" using kept [of s] by simp
    have "P (entries s')" using P s' by simp
    then have "\<exists>e s2. f (Some j) s' = (Inl e, s2) \<and> entries s2 = entries s"
      using assms(3) [unfolded stuck_def, rule_format, of s'] s' by simp
    then show "\<exists>e s'. b_then (s_get KEY_JOURNAL) (\<lambda>a. b_then (case a of None \<Rightarrow> b_return None
        | Some raw \<Rightarrow> if MAX_JOURNAL_JSON < length raw then b_fail (LimitExceeded LimJournal MAX_JOURNAL_JSON (length raw))
            else case ft_read_journal ft raw of None \<Rightarrow> b_fail (CorruptState JournalParse) | Some j \<Rightarrow> b_return (Some j)) f) s = (Inl e, s')
        \<and> entries s' = entries s"
      unfolding get [OF P] r using assms(2) s' by (cases r) (auto simp: b_then_def b_fail_def b_return_def)
  qed
qed

text \<open>A journal that names a step the registry has not stops every migration.\<close>

lemma stuck_resume:
  assumes "\<forall>st. bm_get (mg_registry mg) (ps_from p) = Some st \<longrightarrow> step_to st \<noteq> ps_to p"
  shows "stuck P (resume ft mg j p now b r)"
  using assms by (auto simp: resume_def registry_step_def stuck_fail split: option.split)

lemma stuck_migrate:
  assumes "\<And>en. P en \<Longrightarrow> bm_get en KEY_JOURNAL = Some raw" "ft_read_journal ft raw = Some j" "jn_pending_step j = Some p"
    "\<forall>st. bm_get (mg_registry mg) (ps_from p) = Some st \<longrightarrow> step_to st \<noteq> ps_to p"
  shows "stuck P (migrate ft mg sink target now)"
proof -
  have settle: "stuck P (settle_journal ft mg v now b r)" for v b r
    unfolding settle_journal_def
    by (rule stuck_journal [OF assms(1,2)], assumption)
       (simp add: assms(3) stuck_first [OF stuck_first [OF stuck_resume [OF assms(4)]]])
  show ?thesis
    unfolding migrate_def by (intro stuck_then stuck_if stuck_fail reads_intros stuck_first [OF settle])
qed

end
