(* ===== verification/StateSnapshotLaws.thy ===== *)
theory StateSnapshotLaws
  imports StateView
begin

text \<open>
  A snapshot is read back as it was written: the entries, the payload with its header and footer, the
  file; and an import leaves exactly the snapshot's entries and its metadata.
\<close>

section \<open>Entries\<close>

lemma read_entry_bytes: "entry_ok e \<Longrightarrow> read_entry (entry_bytes e @ rest) = Inr (e, rest)"
  by (auto simp: read_entry_def entry_bytes_def put_sized_def stream_length_def stream_take_def of_le_le entry_ok_def
      check_size_def MAX_KEY_BYTES_def MAX_VALUE_BYTES_def)

lemma entry_bytes_nonempty [simp]: "entry_bytes e \<noteq> []"
  by (simp add: entry_bytes_def put_sized_def length_0_conv [symmetric] del: length_0_conv)

lemma read_entries_bytes: "\<forall>e \<in> set es. entry_ok e \<Longrightarrow> read_entries (concat (map entry_bytes es)) = Inr es"
proof (induction es)
  case (Cons e es)
  then show ?case
    using read_entry_bytes [of e "concat (map entry_bytes es)"] by (subst read_entries.simps) simp
qed (simp add: read_entries.simps)

section \<open>The payload\<close>

text \<open>The bytes a snapshot of \<open>es\<close> under \<open>head\<close> is written as, before compression.\<close>

definition body :: "(head \<Rightarrow> bytes) \<Rightarrow> head \<Rightarrow> (bytes \<times> bytes) list \<Rightarrow> bytes" where
  "body enc_head head es = put_sized (enc_head head) @ concat (map entry_bytes es)"

definition file_payload :: "(bytes \<Rightarrow> bytes) \<Rightarrow> (head \<Rightarrow> bytes) \<Rightarrow> head \<Rightarrow> (bytes \<times> bytes) list \<Rightarrow> bytes" where
  "file_payload sha enc_head head es =
     body enc_head head es @ FOOTER_TAG @ le 8 (length es) @ le 8 (entries_bytes es) @ sha (body enc_head head es)"

lemma payload_finish_plus:
  "payload_finish sha (payload_plus es (payload_begin enc_head head)) =
    ((length es, entries_bytes es, sha (body enc_head head es)), file_payload sha enc_head head es)"
  by (simp add: payload_finish_def payload_plus_def payload_begin_def write_hashed_def Let_def file_payload_def body_def put_sized_def)

lemma length_FOOTER_TAG [simp]: "length FOOTER_TAG = 4"
  by (simp add: FOOTER_TAG_def lit_def utf8_char_def)

definition head_ok :: "head \<Rightarrow> bool" where
  "head_ok h \<longleftrightarrow> hd_format h = SNAPSHOT_FORMAT \<and> hd_schema_version h \<noteq> 0 \<and>
     (\<exists>info. component_info_new (hd_component h) (hd_component_version h) (hd_component_sha256 h) = Inr info)"

lemma read_payload_file:
  assumes "head_ok h" "dec_head (enc_head h) = Some h" "length (enc_head h) \<le> u32_max" "\<And>bs. length (sha bs) = 32"
    "\<forall>e \<in> set es. entry_ok e" "length es \<le> u64_max" "entries_bytes es \<le> u64_max"
  shows "read_payload sha dec_head (file_payload sha enc_head h es) =
     Inr (h, es, header_of h (length es, entries_bytes es, sha (body enc_head h es)))"
proof -
  let ?b = "body enc_head h es" and ?f = "file_payload sha enc_head h es"
  let ?foot = "FOOTER_TAG @ le 8 (length es) @ le 8 (entries_bytes es) @ sha ?b"
  have f: "?f = ?b @ ?foot" by (simp add: file_payload_def)
  have lens: "length ?foot = FOOTER_LEN" by (simp add: FOOTER_LEN_def assms(4))
  have start: "length ?f - FOOTER_LEN = length ?b" "\<not> length ?f < FOOTER_LEN" using lens f by simp_all
  have hl: "of_le (take 4 ?f) = length (enc_head h)"
    using assms(3) by (simp add: f body_def put_sized_def of_le_le)
  have bl: "length ?b = 4 + length (enc_head h) + length (concat (map entry_bytes es))" by (simp add: body_def put_sized_def)
  have head: "drop 4 (take (4 + length (enc_head h)) ?f) = enc_head h" by (simp add: f body_def put_sized_def)
  have ents: "drop (4 + length (enc_head h)) ?b = concat (map entry_bytes es)" by (simp add: body_def put_sized_def)
  have foot: "drop (length ?b) ?f = ?foot" "take (length ?b) ?f = ?b" by (simp_all add: f)
  have parts: "take 4 ?foot = FOOTER_TAG" "of_le (take 8 (drop 4 ?foot)) = length es"
    "of_le (take 8 (drop 12 ?foot)) = entries_bytes es" "take 32 (drop 20 ?foot) = sha ?b"
    using assms(4,6,7) by (simp_all add: of_le_le)
  obtain info where info: "component_info_new (hd_component h) (hd_component_version h) (hd_component_sha256 h) = Inr info"
    using assms(1) by (auto simp: head_ok_def)
  have "\<not> 4 + length (enc_head h) > length ?b" using bl by simp
  then show ?thesis
    unfolding read_payload_def Let_def start(1) if_not_P [OF start(2)] hl head foot ents parts assms(2) option.case info
      res_bind_simps read_entries_bytes [OF assms(5)]
    using assms(1) by (simp add: head_ok_def header_of_def)
qed

lemma length_SNAPSHOT_MAGIC [simp]: "length SNAPSHOT_MAGIC = 8"
  by (simp add: SNAPSHOT_MAGIC_def lit_def utf8_char_def)

lemma read_snapshot_file:
  assumes "zd (zc level (file_payload sha enc_head h es)) = (file_payload sha enc_head h es, None)"
    "length (file_payload sha enc_head h es) \<le> max_bytes" "max_bytes \<le> u64_max"
  shows "read_snapshot sha dec_head zd (SNAPSHOT_MAGIC @ zc level (file_payload sha enc_head h es)) max_bytes =
    read_payload sha dec_head (file_payload sha enc_head h es)"
  using assms by (auto simp: read_snapshot_def Let_def sat_add64_def min_def)

lemma head_new_ok: "head_new v c cv pin now = Inr h \<Longrightarrow> head_ok h"
  by (auto simp: head_new_def head_ok_def res_bind_Inr split: if_splits)

lemma read_exported:
  assumes "head_new v c cv pin now = Inr h" "dec_head (enc_head h) = Some h" "length (enc_head h) \<le> u32_max"
    "\<forall>bs. length (sha bs) = 32" "\<forall>level bs. zd (zc level bs) = (bs, None)" "batch_ok es" "length es \<le> u64_max"
    "entries_bytes es \<le> u64_max" "length (file_payload sha enc_head h es) \<le> max_bytes" "max_bytes \<le> u64_max"
  shows "read_snapshot sha dec_head zd (SNAPSHOT_MAGIC @ zc level (file_payload sha enc_head h es)) max_bytes =
    Inr (h, es, header_of h (length es, entries_bytes es, sha (body enc_head h es)))"
proof -
  have "\<forall>e \<in> set es. entry_ok e" using assms(6) unfolding batch_ok_def by blast
  moreover have "read_snapshot sha dec_head zd (SNAPSHOT_MAGIC @ zc level (file_payload sha enc_head h es)) max_bytes =
      read_payload sha dec_head (file_payload sha enc_head h es)"
    by (rule read_snapshot_file [OF _ assms(9,10)]) (simp only: assms(5))
  ultimately show ?thesis
    using read_payload_file [of h dec_head enc_head sha es] head_new_ok [OF assms(1)] assms(2,3,4,7,8) by simp
qed

section \<open>Export\<close>

lemma wp_export:
  assumes "bm_wf en" "batch_ok (user_part en)" "entries_bytes (user_part en) \<le> eo_max_bytes opts" "eo_max_bytes opts \<le> u64_max"
    "head_new (mt_schema_version meta) (mt_component meta) (mt_component_version meta) (mt_last_migrated_by meta) now = Inr h"
    "Q (header_of h (length (user_part en), entries_bytes (user_part en), sha (body enc_head h (user_part en))),
        SNAPSHOT_MAGIC @ zc (eo_level opts) (file_payload sha enc_head h (user_part en))) en"
    "\<And>w. F \<Longrightarrow> E (StoreFailed w) en"
  shows "wp F (snapshot_export sha enc_head zc meta now opts) Q E en"
  unfolding snapshot_export_def assms(5)
proof (rule wp_step_result, goal_cases)
  case (1 head)
  have p0: "pl_bytes (payload_begin enc_head head) = 0" by (simp add: payload_begin_def write_hashed_def Let_def)
  have "wp F (b_return (header_of h (length (user_part en), entries_bytes (user_part en), sha (body enc_head h (user_part en))),
        SNAPSHOT_MAGIC @ zc (eo_level opts) (file_payload sha enc_head h (user_part en)))) Q E en"
    using assms(6) by (simp add: wp_return)
  then show ?case
    using 1 assms p0
    by (intro wp_then wp_read_pages [where seen = "[]", unfolded payload_plus_simps(1)])
       (simp_all add: batch_ok_def payload_finish_plus)
qed simp

section \<open>Import\<close>

lemma user_keys_part: "filter (\<lambda>key. \<not> is_reserved key) (map fst m) = map fst (user_part m)"
  by (induction m) auto

lemma wp_put_all:
  assumes "bm_wf en" "\<forall>e \<in> set es. \<not> is_reserved (fst e)"
    "\<And>en'. bm_wf en' \<Longrightarrow> user_part en' = fold (\<lambda>(key, v). bm_insert key v) es (user_part en) \<Longrightarrow>
      (\<forall>key. is_reserved key \<longrightarrow> bm_get en' key = bm_get en key) \<Longrightarrow> Q () en'"
  shows "wp False (put_all es) Q E en"
  using assms
proof (induction es arbitrary: en)
  case (Cons e es)
  obtain key v where e: "e = (key, v)" by fastforce
  have "wp False (put_all es) Q E (bm_insert key v en)"
    by (rule Cons.IH) (use Cons.prems e in \<open>auto simp: user_part_insert\<close>)
  then show ?case unfolding e put_all.simps by (rule wp_step_put) simp
qed (simp add: wp_return)

lemma wp_del_all:
  assumes "bm_wf en" "\<forall>key \<in> set ks. \<not> is_reserved key"
    "\<And>en'. bm_wf en' \<Longrightarrow> user_part en' = fold bm_remove ks (user_part en) \<Longrightarrow> Q () en'"
  shows "wp False (del_all ks) Q E en"
  using assms
proof (induction ks arbitrary: en)
  case (Cons key ks)
  have part: "bm_wf (bm_remove key en)" "user_part (bm_remove key en) = bm_remove key (user_part en)"
    using Cons.prems(1,2) by (simp_all add: user_part_remove)
  have "wp False (del_all ks) Q E (bm_remove key en)"
    by (rule Cons.IH [OF part(1)]) (use Cons.prems(2) in simp, rule Cons.prems(3), simp_all only: part(2) fold_simps)
  then show ?case unfolding del_all.simps by (rule wp_step_del) simp
qed (simp add: wp_return)

lemma fold_remove_all: "fold bm_remove (map fst m) m = ([] :: (bytes, bytes) btree)"
proof -
  have "fold bm_remove ks m' = filter (\<lambda>e. fst e \<notin> set ks) m'" for ks and m' :: "(bytes, bytes) btree"
    by (induction ks arbitrary: m') (auto simp: bm_remove_def intro!: filter_cong)
  from this [of "map fst m" m] show ?thesis by (auto simp: filter_empty_conv)
qed

text \<open>What an import writes last.\<close>

lemma wp_meta_fresh:
  assumes "bm_wf en"
    "\<And>en'. bm_wf en' \<Longrightarrow> user_part en' = user_part en \<Longrightarrow> meta_stored meta en' \<Longrightarrow>
      bm_get en' KEY_UPDATED_AT = Some (utf8 (dec now)) \<Longrightarrow> Q () en'"
  shows "wp False (meta_write meta now) Q E en"
  unfolding meta_write_def put_number_def
  using assms(1)
  by (intro wp_step_put) (auto simp: swp_put user_part_insert meta_stored_def intro!: assms(2))

lemma result_then: "b_then (b_result (Inr a)) f = f a"
  by (simp add: fun_eq_iff b_result_def b_then_def)

text \<open>An accepted file replaces the component's entries and the metadata.\<close>

lemma wp_import:
  assumes "bm_wf en" "read_snapshot sha dec_head zd input (io_max_bytes opts) = Inr (h, es, header)"
    "expect (io_expect_component opts) (sh_component header) OwnerMismatch = Inr ()"
    "expect (io_expect_version opts) (sh_schema_version header) SchemaVersionMismatch = Inr ()"
    "expect (io_expect_sha256 opts) (sh_component_sha256 header) ComponentMismatch = Inr ()"
    "user_part en = [] \<or> io_replace opts" "batch_ok es"
    and Q: "\<And>en'. bm_wf en' \<Longrightarrow> user_part en' = es \<Longrightarrow> meta_stored \<lparr>mt_schema_version = hd_schema_version h,
       mt_component = hd_component h, mt_component_version = hd_component_version h, mt_last_migrated_by = hd_component_sha256 h,
       mt_created_at_ms = hd_created_at_ms h, mt_last_migrated_at_ms = now\<rparr> en' \<Longrightarrow>
       bm_get en' KEY_UPDATED_AT = Some (utf8 (dec now)) \<Longrightarrow> Q header en'"
  shows "wp False (snapshot_import sha dec_head zd input now opts) Q E en"
proof -
  let ?m = "\<lparr>mt_schema_version = hd_schema_version h, mt_component = hd_component h,
       mt_component_version = hd_component_version h, mt_last_migrated_by = hd_component_sha256 h,
       mt_created_at_ms = hd_created_at_ms h, mt_last_migrated_at_ms = now\<rparr>"
  let ?rest = "\<lambda>_. b_then (put_all es) (\<lambda>_. b_then (meta_write ?m now) (\<lambda>_. b_return header))"
  have rest: "wp False (?rest x) Q E en'" if "bm_wf en'" "user_part en' = []" for x en'
  proof (rule wp_then, rule wp_put_all [OF that(1)])
    show "\<forall>e \<in> set es. \<not> is_reserved (fst e)" using assms(7) by (simp add: batch_ok_def entry_ok_def)
    fix en2
    assume e: "bm_wf en2" "user_part en2 = fold (\<lambda>(key, v). bm_insert key v) es (user_part en')"
    have es: "user_part en2 = es"
      using e(2) that(2) fold_insert_append [of "[]" es] assms(7) by simp
    show "wp False (b_then (meta_write ?m now) (\<lambda>_. b_return header)) Q E en2"
      by (rule wp_then, rule wp_meta_fresh [OF e(1)]) (use Q es in \<open>simp add: wp_return\<close>)
  qed
  have clear: "wp False (b_then (if map fst (user_part en) = [] then b_return ()
      else if \<not> io_replace opts then b_fail (NotEmpty (length (map fst (user_part en))))
      else b_then (del_all (map fst (user_part en))) (\<lambda>_. b_then (s_del KEY_JOURNAL) (\<lambda>_. s_del KEY_PENDING))) ?rest) Q E en"
  proof (cases "user_part en = []")
    case True
    then show ?thesis using rest assms(1) by simp
  next
    case False
    have "wp False (b_then (del_all (map fst (user_part en))) (\<lambda>_. b_then (s_del KEY_JOURNAL) (\<lambda>_. s_del KEY_PENDING)))
        (\<lambda>a. wp False (?rest a) Q E) E en"
    proof (rule wp_then, rule wp_del_all [OF assms(1)])
      show "\<forall>key \<in> set (map fst (user_part en)). \<not> is_reserved key" by auto
      fix en'
      assume e: "bm_wf en'" "user_part en' = fold bm_remove (map fst (user_part en)) (user_part en)"
      then have "user_part en' = []" by (simp only: fold_remove_all)
      then show "wp False (b_then (s_del KEY_JOURNAL) (\<lambda>_. s_del KEY_PENDING)) (\<lambda>a. wp False (?rest a) Q E) E en'"
        using e(1) by (intro wp_step_del) (simp_all add: wp_simps rest user_part_remove)
    qed
    then show ?thesis using False assms(6) by (simp add: wp_then)
  qed
  have uk: "wp False (b_then user_keys f) Q E en" if "wp False (f (map fst (user_part en))) Q E en" for f
    unfolding user_keys_def then_assoc by (rule wp_then) (simp add: swp_scan user_keys_part that)
  show ?thesis
    unfolding snapshot_import_def assms(2) result_then prod.case assms(3-5) by (rule uk) (rule clear)
qed

end
