(* ===== verification/StateProperties.thy ===== *)
theory StateProperties
  imports StateCrash StateView StateReads StateSnapshotLaws
begin

text \<open>
  The properties of the component state, with their witnesses: a small registry of two steps, a JSON
  stand-in that writes a journal as a list of numerals, and a compression that does nothing.
\<close>

section \<open>Samples\<close>

text \<open>Lists of numbers as comma-separated numerals.\<close>

definition join_nats :: "nat list \<Rightarrow> bytes" where
  "join_nats ns = utf8 (join_with 44 (map dec ns))"

definition split_nats :: "bytes \<Rightarrow> nat list option" where
  "split_nats bs = map_option (\<lambda>s. map dec_value (split_on 44 s)) (from_utf8 bs)"

lemma dec_free: "44 \<notin> set (dec n)"
  using dec_digits [of n] by force

lemma join_ascii: "ascii (join_with 44 (map dec ns))"
proof (induction ns)
  case (Cons n ns)
  then show ?case using dec_ascii [of n] by (cases ns) (auto simp: ascii_def)
qed (simp add: ascii_def)

lemma split_join_nats: "ns \<noteq> [] \<Longrightarrow> split_nats (join_nats ns) = Some ns"
  by (simp add: split_nats_def join_nats_def from_utf8_utf8 ascii_valid join_ascii split_join dec_free dec_value_dec comp_def)

lemma length_join_nats: "\<forall>n \<in> set ns. n \<le> u64_max \<Longrightarrow> length (join_nats ns) \<le> 21 * length ns"
proof -
  assume small: "\<forall>n \<in> set ns. n \<le> u64_max"
  have "length (join_with 44 (map dec ns)) \<le> 21 * length ns" using small
  proof (induction ns)
    case (Cons n ns)
    have "length (dec n) \<le> Suc 19" using Cons.prems by (intro length_dec) simp
    then show ?case using Cons by (cases ns) auto
  qed simp
  then show ?thesis using join_ascii [of ns] by (simp add: join_nats_def length_utf8_ascii)
qed

definition journal_text :: "journal \<Rightarrow> bytes" where
  "journal_text j = (case jn_pending_step j of
       None \<Rightarrow> []
     | Some p \<Rightarrow> join_nats ([jn_from j, jn_target j, jn_done_upto j, jn_started_at_ms j, jn_attempts j, ps_from p, ps_to p,
         ps_applied p, length (jn_component j)] @ jn_component j @ ps_name p))"

definition journal_parse :: "bytes \<Rightarrow> journal option" where
  "journal_parse bs = (case split_nats bs of
       Some (a # b # c # d # e # f # g # h # n # rest) \<Rightarrow>
         Some \<lparr>jn_from = a, jn_target = b, jn_done_upto = c, jn_started_at_ms = d, jn_attempts = e,
           jn_component = take n rest,
           jn_pending_step = Some \<lparr>ps_from = f, ps_to = g, ps_name = drop n rest, ps_direction = Up, ps_applied = h\<rparr>\<rparr>
     | _ \<Rightarrow> None)"

definition head_text :: "head \<Rightarrow> bytes" where
  "head_text h = join_nats ([hd_format h, hd_schema_version h, hd_created_at_ms h, length (hd_component h),
     length (hd_component_version h)] @ hd_component h @ hd_component_version h @ hd_component_sha256 h)"

definition head_parse :: "bytes \<Rightarrow> head option" where
  "head_parse bs = (case split_nats bs of
       Some (a # b # c # m # n # rest) \<Rightarrow>
         Some \<lparr>hd_format = a, hd_schema_version = b, hd_component = take m rest,
           hd_component_version = take n (drop m rest), hd_component_sha256 = drop n (drop m rest), hd_created_at_ms = c\<rparr>
     | _ \<Rightarrow> None)"

definition sample_digest :: "bytes \<Rightarrow> bytes" where
  "sample_digest bs = replicate 32 (of_nat (length bs))"

definition sample_formats :: formats where
  "sample_formats = \<lparr>ft_sha = sample_digest, ft_head = head_text, ft_journal = journal_text, ft_read_journal = journal_parse\<rparr>"

definition sample_info :: component_info where
  "sample_info = \<lparr>ci_id = lit ''demo'', ci_version = lit ''1.0.0'', ci_sha256 = replicate 64 97\<rparr>"

text \<open>Version 1 gains a key, version 2 moves a prefix.\<close>

definition sample_add :: migration_step where
  "sample_add = step_down (step_new 1 (lit ''add'') (b_then (batch_insert (utf8 (lit ''b'')) [2]) (\<lambda>_. b_return ())))
     (b_then (batch_remove (utf8 (lit ''b''))) (\<lambda>_. b_return ()))"

definition sample_move :: migration_step where
  "sample_move = step_new 2 (lit ''move'') (b_then (rename_prefix (utf8 (lit ''a'')) (utf8 (lit ''c''))) (\<lambda>_. b_return ()))"

definition sample_registry :: registry where
  "sample_registry = [(1, sample_add), (2, sample_move)]"

definition sample_migrator :: migrator where
  "sample_migrator = migrator_new sample_registry sample_info"

definition sample_batch :: batch where
  "sample_batch = [(utf8 (lit ''a/x''), [1])]"

definition sample_goal :: batch where
  "sample_goal = [(utf8 (lit ''b''), [2]), (utf8 (lit ''c/x''), [1])]"

text \<open>A namespace as \<open>open\<close> leaves it at version 1, with one key.\<close>

definition sample_namespace :: store where
  "sample_namespace = bm_insert (utf8 (lit ''a/x'')) [1] (bm_insert KEY_SCHEMA_VERSION (utf8 (dec 1))
     (bm_insert KEY_COMPONENT (utf8 (lit ''demo'')) (bm_insert KEY_COMPONENT_VERSION (utf8 (lit ''1.0.0''))
     (bm_insert KEY_LAST_MIGRATED_BY (utf8 (replicate 64 97)) (bm_insert KEY_LAST_MIGRATED_AT (utf8 (dec 0))
     (bm_insert KEY_CREATED_AT (utf8 (dec 0)) []))))))"

lemma sample_codec: "journal_codec sample_formats sample_migrator"
  unfolding journal_codec_def
proof (intro allI impI)
  fix j
  assume fits: "journal_fits sample_migrator j"
  obtain p where p: "jn_pending_step j = Some p" using fits by (auto simp: journal_fits_def split: option.splits)
  have comp: "jn_component j = lit ''demo''"
    using fits by (simp add: journal_fits_def sample_migrator_def migrator_new_def sample_info_def)
  have name: "ps_name p = lit ''add'' \<or> ps_name p = lit ''move''"
    using fits p by (auto simp: journal_fits_def sample_migrator_def migrator_new_def sample_registry_def step_names_def
        sample_add_def sample_move_def step_new_def step_down_def)
  let ?ns = "[jn_from j, jn_target j, jn_done_upto j, jn_started_at_ms j, jn_attempts j, ps_from p, ps_to p,
         ps_applied p, length (jn_component j)] @ jn_component j @ ps_name p"
  have written: "journal_text j = join_nats ?ns" by (simp add: journal_text_def p)
  have ne: "?ns \<noteq> []" by simp
  have "ps_direction p = Up" using fits p by (simp add: journal_fits_def)
  then have "journal_parse (journal_text j) = Some j"
    using p unfolding written journal_parse_def split_join_nats [OF ne] by (cases j; cases p) simp
  moreover have "length (journal_text j) \<le> MAX_JOURNAL_JSON"
  proof -
    have "\<forall>n \<in> set ?ns. n \<le> u64_max"
      using fits p name unfolding comp by (auto simp: journal_fits_def lit_def)
    from length_join_nats [OF this] have "length (journal_text j) \<le> 21 * length ?ns" unfolding written .
    also have "\<dots> \<le> 21 * 17" using comp name by (auto simp: lit_def)
    finally show ?thesis by (simp add: MAX_JOURNAL_JSON_def)
  qed
  ultimately show "ft_read_journal sample_formats (ft_journal sample_formats j) = Some j \<and>
      length (ft_journal sample_formats j) \<le> MAX_JOURNAL_JSON"
    by (simp add: sample_formats_def)
qed

lemma sample_info_ok: "validate_info sample_info = Inr ()"
proof -
  have "is_sha256 (replicate 64 97)"
    using length_utf8_ascii [of "replicate 64 97"] by (simp add: is_sha256_def list_all_iff ascii_def)
  moreover have "ident (lit ''demo'')" "is_semver (lit ''1.0.0'')"
    by (simp_all add: ident_def is_semver_def lit_def utf8_char_def is_alnum_def)
  ultimately show ?thesis by (simp add: validate_info_def sample_info_def)
qed

lemma sample_keys:
  "utf8 (lit ''b'') = [98]" "utf8 (lit ''a/x'') = [97, 47, 120]" "utf8 (lit ''c/x'') = [99, 47, 120]" "utf8 (lit ''a'') = [97]"
  "utf8 (lit ''c'') = [99]" "RESERVED_PREFIX = [95, 95, 119, 97, 47]"
  by (simp_all add: lit_def utf8_char_def RESERVED_PREFIX_def)

lemmas sample_eval = sample_migrator_def migrator_new_def sample_add_def sample_move_def sample_batch_def sample_goal_def
  step_new_def step_down_def up_def planned_apply_def apply_up_def next_batch_def sample_keys b_defs b_result_def
  batch_insert_def is_reserved_def check_size_def MAX_KEY_BYTES_def MAX_VALUE_BYTES_def rename_prefix_def batch_prefix_def
  bm_scan_def bm_remove_def batch_ok_def entry_ok_def step_fits_def diff_changes encode_changes_def put_sized_def
  migrate_default_def MAX_JOURNAL_BYTES_def

lemma sample_steps:
  "sp_from sample_add = 1" "sp_from sample_move = 2"
  "next_batch (up sample_add) sample_batch = Inr [([97, 47, 120], [1]), ([98], [2])]"
  "next_batch (up sample_move) [([97, 47, 120], [1]), ([98], [2])] = Inr sample_goal"
  by (simp_all add: sample_eval)

lemma sample_batches: "batch_ok sample_batch" "batch_ok [([97, 47, 120], [1]), ([98], [2])]" "batch_ok sample_goal"
  by (simp_all add: sample_eval)

lemma sample_fits:
  "step_fits migrate_default sample_batch (snd (diff sample_batch [([97, 47, 120], [1]), ([98], [2])]))"
  "step_fits migrate_default [([97, 47, 120], [1]), ([98], [2])] (snd (diff [([97, 47, 120], [1]), ([98], [2])] sample_goal))"
  by (simp_all add: sample_eval upt_rec)

lemma sample_path: "on_path sample_migrator 3 sample_goal 1 sample_batch"
proof -
  have two: "3 - 1 = Suc (Suc 0)" by simp
  have small: "entries_bytes sample_batch \<le> 268435456" "entries_bytes [([97, 47, 120], [1]), ([98], [2 :: byte])] \<le> 268435456"
    "entries_bytes sample_goal \<le> 268435456"
    by (simp_all add: sample_batch_def sample_goal_def sample_keys)
  have "op_max_batch_bytes migrate_default = 268435456" by (simp add: migrate_default_def)
  with small have "ready migrate_default sample_registry 1 (Suc (Suc 0)) sample_batch"
    using sample_steps sample_batches sample_fits by (simp add: sample_registry_def)
  moreover have "climb sample_registry 1 (Suc (Suc 0)) sample_batch = Inr sample_goal"
    using sample_steps by (simp add: sample_registry_def)
  ultimately show ?thesis
    unfolding on_path_def two by (simp add: sample_migrator_def migrator_new_def migrate_default_def)
qed


lemma sample_identity: "ident (lit ''demo'')" "is_semver (lit ''1.0.0'')" "is_sha256 (replicate 64 97)"
  using sample_info_ok by (simp_all add: validate_info_def sample_info_def split: if_splits)

lemma sample_clean: "clean sample_migrator 1 sample_batch sample_namespace"
proof -
  have u: "\<not> is_reserved (utf8 (lit ''a/x''))" by (simp add: sample_keys is_reserved_def)
  have "user_part sample_namespace = sample_batch"
    unfolding sample_namespace_def sample_batch_def by (simp add: user_part_insert u del: bm_insert.simps) simp
  moreover have "meta_at (lit ''demo'') 1 sample_namespace"
    unfolding sample_namespace_def meta_at_def using sample_identity u by (auto intro: exI [of _ "0 :: nat"] simp del: bm_insert.simps)
  ultimately show ?thesis
    using u by (simp add: clean_def sample_migrator_def migrator_new_def sample_info_def sample_namespace_def del: bm_insert.simps)
qed

section \<open>Migrations\<close>

text \<open>Runs that may crash: each with its clock, its script of faults and its snapshot sink.\<close>

type_synonym run = "nat \<times> fault list \<times> (meta \<Rightarrow> component_snapshot \<Rightarrow> component_error + unit)"

definition after_run :: "formats \<Rightarrow> migrator \<Rightarrow> nat \<Rightarrow> run \<Rightarrow> store \<Rightarrow> store" where
  "after_run ft mg target = (\<lambda>(now, faults, sink) en.
     entries (snd (migrate ft mg sink target now \<lparr>entries = en, script = faults\<rparr>)))"

lemma wp_kept: "wp True m (\<lambda>_. P) (\<lambda>_. P) en \<Longrightarrow> P (entries (snd (m \<lparr>entries = en, script = sc\<rparr>)))"
  by (cases "m \<lparr>entries = en, script = sc\<rparr>") (auto simp: wp_def split: prod.splits sum.splits)

lemma after_run_recoverable:
  assumes "journal_codec ft mg" "validate_info (mg_info mg) = Inr ()" "fst r \<le> u64_max" "recoverable ft mg target goal en"
  shows "recoverable ft mg target goal (after_run ft mg target r en)"
proof -
  obtain now sc sink where r: "r = (now, sc, sink)" using prod_cases3 by blast
  have "wp True (migrate ft mg sink target now) (\<lambda>_. recoverable ft mg target goal) (\<lambda>_. recoverable ft mg target goal) en"
  proof (rule wp_migrate [OF assms(1,2) _ assms(4)])
    show "recoverable ft mg target goal en'" if "at_rest mg target goal en'" for en'
      using that recoverable_clean [of mg target goal target goal en' ft] assms(4) on_path_goal
      by (auto simp: recoverable_def at_rest_def)
  qed (use assms(3) r in auto)
  then show ?thesis by (simp add: after_run_def r wp_kept)
qed

text \<open>C26.  Crash safety of upgrades: start from a namespace at a version of the path, run the migration any
  number of times with arbitrary faults in the store (each call may be refused, or done and then
  reported as failed) and arbitrary snapshot sinks, and then once without: the last run succeeds and
  leaves exactly the entries the steps compute in memory, at the target version, with no journal and no
  pending list.  No step is skipped, repeated or applied to a half-changed batch.\<close>

theorem migration_crash_safe:
  assumes "journal_codec ft mg" "validate_info (mg_info mg) = Inr ()"
    and "on_path mg target goal v b" "clean mg v b en"
    and "\<forall>r \<in> set runs. fst r \<le> u64_max" "now \<le> u64_max" "\<forall>meta sn. sink meta sn = Inr ()"
  shows "\<exists>rep s. migrate ft mg sink target now \<lparr>entries = fold (after_run ft mg target) runs en, script = []\<rparr> = (Inr rep, s) \<and>
     mr_final_version rep = target \<and> at_rest mg target goal (entries s)"
proof -
  have rec: "recoverable ft mg target goal (fold (after_run ft mg target) runs en)"
    using recoverable_clean [OF assms(3,4), of ft] assms(5)
  proof (induction runs arbitrary: en)
    case (Cons r runs)
    then show ?case using after_run_recoverable [OF assms(1,2), of r target goal en] by simp
  qed simp
  have "wp False (migrate ft mg sink target now) (\<lambda>rep en. mr_final_version rep = target \<and> at_rest mg target goal en) (\<lambda>_ _. False)
      (fold (after_run ft mg target) runs en)"
    by (rule wp_migrate [OF assms(1,2,6) rec]) (use assms(7) in auto)
  then show ?thesis by (auto simp: wp_def split: prod.splits sum.splits)
qed

theorem migration_crash_safe_witness:
  "\<exists>rep s. migrate sample_formats sample_migrator (\<lambda>_ _. Inr ()) 3 5
       \<lparr>entries = fold (after_run sample_formats sample_migrator 3)
          [(1, replicate 16 Works @ [Torn []], \<lambda>_ _. Inr ()), (2, replicate 18 Works @ [Refused []], \<lambda>_ _. Inr ())] sample_namespace,
        script = []\<rparr> = (Inr rep, s) \<and>
     mr_final_version rep = 3 \<and> at_rest sample_migrator 3 sample_goal (entries s)"
  by (rule migration_crash_safe [OF sample_codec _ sample_path sample_clean])
     (use sample_info_ok in \<open>simp_all add: sample_migrator_def migrator_new_def\<close>)

section \<open>The journal\<close>

text \<open>C27.  The journal of a step is enough to finish it: the binary list of the differences between two
  batches is read back as exactly the list that was written, and applying that list from any index up to
  the number of changes already applied gives the second batch, whatever was applied before.\<close>

theorem journal_replays:
  assumes "batch_ok before" "batch_ok after" "length (encode_changes (snd (diff before after))) \<le> MAX_JOURNAL_BYTES"
  shows "decode_changes (encode_changes (snd (diff before after))) = Inr (snd (diff before after)) \<and>
    (\<forall>applied i. i \<le> applied \<longrightarrow>
       apply_all (drop i (snd (diff before after))) (apply_all (take applied (snd (diff before after))) before) = after)"
proof
  show "decode_changes (encode_changes (snd (diff before after))) = Inr (snd (diff before after))"
    using assms by (intro decode_encode_changes diff_ok diff_keys) simp_all
  show "\<forall>applied i. i \<le> applied \<longrightarrow>
       apply_all (drop i (snd (diff before after))) (apply_all (take applied (snd (diff before after))) before) = after"
    using apply_resume [of _ _ before "snd (diff before after)"] diff_apply [of before after] assms(1,2) by simp
qed

theorem journal_replays_witness:
  "decode_changes (encode_changes (snd (diff sample_batch sample_goal))) = Inr (snd (diff sample_batch sample_goal)) \<and>
    snd (diff sample_batch sample_goal) \<noteq> [] \<and>
    apply_all (drop 0 (snd (diff sample_batch sample_goal))) (apply_all (take 1 (snd (diff sample_batch sample_goal))) sample_batch) =
      sample_goal \<and>
    apply_all (drop 1 (snd (diff sample_batch sample_goal))) (apply_all (take 1 (snd (diff sample_batch sample_goal))) sample_batch) =
      sample_goal"
proof -
  have "length (encode_changes (snd (diff sample_batch sample_goal))) \<le> MAX_JOURNAL_BYTES" by (simp add: sample_eval)
  note replay = journal_replays [OF sample_batches(1,3) this]
  have "snd (diff sample_batch sample_goal) \<noteq> []" by (simp add: sample_eval)
  with replay [THEN conjunct1] show ?thesis
    by (intro conjI) (assumption | rule replay [THEN conjunct2, rule_format], simp)+
qed

text \<open>C31.  A crash inside a downgrade cannot be repaired by the engine: \<open>resume\<close> looks the journaled step up
  under the version it comes from and wants it to lead to the version it goes to, which holds of
  upgrades only.  With the journal of a downgrade step in the store every later migration fails,
  whatever the target and the sink, and leaves the store as it is.\<close>

theorem downgrade_crash_stuck:
  assumes "\<forall>v st. bm_get (mg_registry mg) v = Some st \<longrightarrow> sp_from st = v" "jn_pending_step j = Some p"
    and "ps_to p < ps_from p" "ps_from p < u32_max"
    and "bm_get (entries s) KEY_JOURNAL = Some raw" "ft_read_journal ft raw = Some j"
  shows "\<exists>e s'. migrate ft mg sink target now s = (Inl e, s') \<and> entries s' = entries s"
proof -
  have "step_to st \<noteq> ps_to p" if "bm_get (mg_registry mg) (ps_from p) = Some st" for st
    using assms(1,3,4) that by (auto simp: step_to_def wrap32_id)
  then have "stuck (\<lambda>en. bm_get en KEY_JOURNAL = Some raw) (migrate ft mg sink target now)"
    by (intro stuck_migrate [where raw = raw and j = j and p = p]) (use assms in auto)
  then show ?thesis using assms(5) by (simp add: stuck_def)
qed

definition sample_down_journal :: journal where
  "sample_down_journal = \<lparr>jn_from = 2, jn_target = 1, jn_done_upto = 2, jn_started_at_ms = 5, jn_attempts = 1,
     jn_component = lit ''demo'', jn_pending_step = Some \<lparr>ps_from = 2, ps_to = 1, ps_name = lit ''add'',
       ps_direction = Down, ps_applied = 0\<rparr>\<rparr>"

definition sample_down_formats :: formats where
  "sample_down_formats = sample_formats\<lparr>ft_journal := (\<lambda>_. [0]), ft_read_journal := (\<lambda>_. Some sample_down_journal)\<rparr>"

text \<open>The journal is the one the engine writes when it goes down from version 2.\<close>

lemma sample_down_written:
  "step_journal sample_migrator 2 1 5 \<lparr>pn_step = sample_add, pn_direction = Down\<rparr> = sample_down_journal"
  by (simp add: step_journal_def sample_down_journal_def planned_to_def sample_steps sample_migrator_def migrator_new_def
      sample_info_def) (simp add: sample_add_def step_down_def step_new_def)

theorem downgrade_crash_stuck_witness:
  "\<exists>e s'. migrate sample_down_formats sample_migrator (\<lambda>_ _. Inr ()) 3 9
       \<lparr>entries = bm_insert KEY_JOURNAL [0] sample_namespace, script = []\<rparr> = (Inl e, s') \<and>
     entries s' = bm_insert KEY_JOURNAL [0] sample_namespace"
proof -
  have "\<forall>v st. bm_get (mg_registry sample_migrator) v = Some st \<longrightarrow> sp_from st = v"
    by (auto simp: sample_migrator_def migrator_new_def sample_registry_def sample_steps)
  from downgrade_crash_stuck [OF this, of sample_down_journal "\<lparr>ps_from = 2, ps_to = 1, ps_name = lit ''add'',
      ps_direction = Down, ps_applied = 0\<rparr>" "\<lparr>entries = bm_insert KEY_JOURNAL [0] sample_namespace, script = []\<rparr>" "[0]"
      sample_down_formats "\<lambda>_ _. Inr ()" 3 9]
  show ?thesis by (simp add: sample_down_journal_def sample_down_formats_def)
qed

text \<open>A step can write the reserved keys although \<open>insert\<close> refuses them: \<open>rename\_prefix\<close> checks the two
  prefixes and not the keys it makes, so a prefix that is only the beginning of the reserved one is
  accepted and the moved key is a key of the host.\<close>

theorem rename_forges_reserved:
  assumes "\<not> is_reserved src" "\<not> is_reserved dst" "is_reserved (dst @ rest)"
    and "length (dst @ rest) \<le> MAX_KEY_BYTES" "length v \<le> MAX_VALUE_BYTES"
  shows "rename_prefix src dst [(src @ rest, v)] = (Inr 1, [(dst @ rest, v)])"
proof -
  have "\<not> src @ rest < src" using prefix_le [of src "src @ rest"] by (simp add: not_less)
  then have "bm_scan src [(src @ rest, v)] = [(src @ rest, v)]" by (simp add: bm_scan_def)
  then show ?thesis
    using assms by (simp add: rename_prefix_def b_defs b_result_def batch_prefix_def check_size_def bm_remove_def)
qed

theorem rename_forges_reserved_witness:
  "rename_prefix (utf8 (lit ''a/'')) (utf8 (lit ''__w'')) [(utf8 (lit ''a/'') @ utf8 (lit ''a/meta/schema''), [57])] =
     (Inr 1, [(utf8 (lit ''__w'') @ utf8 (lit ''a/meta/schema''), [57])])"
  by (rule rename_forges_reserved)
     (simp_all add: is_reserved_def RESERVED_PREFIX_def lit_def utf8_char_def MAX_KEY_BYTES_def MAX_VALUE_BYTES_def)

section \<open>The dry run\<close>

lemma dry_run_loop_frame:
  "dry_run_loop ps b v r = Inr (w, r') \<Longrightarrow>
   dry_run_loop ps b v (r\<lparr>mr_dry_run := x, mr_snapshot := y\<rparr>) = Inr (w, r'\<lparr>mr_dry_run := x, mr_snapshot := y\<rparr>)"
proof (induction ps arbitrary: b v r)
  case (Cons p ps)
  have f: "report_step a c n k f (r\<lparr>mr_dry_run := x, mr_snapshot := y\<rparr>) = (report_step a c n k f r)\<lparr>mr_dry_run := x, mr_snapshot := y\<rparr>"
    for a c n k f by (simp add: report_step_def)
  show ?case using Cons by (auto simp: res_bind_Inr f)
qed simp

lemma load_loop_run:
  assumes "\<forall>e \<in> set (user_part es). entry_ok e" "n + entries_bytes (user_part es) \<le> max_bytes"
  shows "batch_load_loop max_bytes es n b = (Inr (), fold (\<lambda>(key, v). bm_insert key v) (user_part es) b)"
  using assms
proof (induction es arbitrary: n b)
  case (Cons e es)
  then show ?case by (cases e) (auto simp: Let_def b_then_def b_return_def insert_run)
qed (simp add: b_return_def)

lemma wp_dry_run:
  assumes "clean mg v b en" "on_path mg target goal v b" "validate_info (mg_info mg) = Inr ()"
    "dry_run_loop (path_plan (mg_registry mg) v target) b v (report_new v target True None) = Inr (target, r)"
  shows "wp False (dry_run ft mg target) (\<lambda>rep _. rep = r\<lparr>mr_final_version := target\<rparr>) (\<lambda>_ _. False) en"
proof -
  have met: "meta_at (ci_id (mg_info mg)) v en" and part: "user_part en = b" and none: "bm_get en KEY_JOURNAL = None"
    using assms(1) by (simp_all add: clean_def)
  note ok = on_path_ok [OF assms(2)]
  have load: "batch_load_loop (op_max_batch_bytes (mg_options mg)) en 0 batch_new = (Inr (), b)"
    using load_loop_run [of en 0 "op_max_batch_bytes (mg_options mg)" "[]"] ok(1,2) part fold_insert_append [of "[]" b]
    by (simp add: batch_ok_def batch_new_def)
  have rest: "wp False (b_then (batch_load (op_max_batch_bytes (mg_options mg))) (\<lambda>b. b_then (read_journal ft) (\<lambda>found.
      b_then (dry_run_resume v found b (report_new v target True None)) (\<lambda>(v, b, r).
      b_then (b_result (migration_plan (mg_registry mg) v target (op_allow_downgrade (mg_options mg)))) (\<lambda>ps.
      b_then (b_result (dry_run_loop ps b v r)) (\<lambda>(v, r). b_return (r\<lparr>mr_final_version := v\<rparr>)))))))
      (\<lambda>rep _. rep = r\<lparr>mr_final_version := target\<rparr>) (\<lambda>_ _. False) en"
    unfolding batch_load_def then_assoc
  proof (rule wp_then, simp add: swp_scan load, rule wp_then, rule wp_no_journal [OF none])
    show "wp False (b_then (dry_run_resume v None b (report_new v target True None)) (\<lambda>(v, b, r).
      b_then (b_result (migration_plan (mg_registry mg) v target (op_allow_downgrade (mg_options mg)))) (\<lambda>ps.
      b_then (b_result (dry_run_loop ps b v r)) (\<lambda>(v, r). b_return (r\<lparr>mr_final_version := v\<rparr>)))))
      (\<lambda>rep _. rep = r\<lparr>mr_final_version := target\<rparr>) (\<lambda>_ _. False) en"
      unfolding dry_run_resume_def option.case return_then prod.case plan_path [OF assms(2)] result_then assms(4)
      by (simp add: wp_return)
  qed simp
  show ?thesis
    unfolding dry_run_def open_meta_def then_assoc assms(3) result_then
    by (rule wp_then, rule wp_meta_read [OF met]) (use rest in \<open>auto simp: meta_ok_def\<close>)
qed

text \<open>C30.  A dry run writes nothing, and from a namespace with no migration in flight it reports exactly the
  steps, the counts and the version the real run then reports and reaches.\<close>

theorem dry_run_predicts:
  assumes "journal_codec ft mg" "validate_info (mg_info mg) = Inr ()" "on_path mg target goal v (user_part en)"
    and "clean mg v (user_part en) en" "now \<le> u64_max" "\<forall>meta sn. sink meta sn = Inr ()"
  shows "\<exists>rep rep' s s'. dry_run ft mg target \<lparr>entries = en, script = []\<rparr> = (Inr rep', s') \<and> entries s' = en \<and>
     migrate ft mg sink target now \<lparr>entries = en, script = []\<rparr> = (Inr rep, s) \<and>
     mr_from rep' = mr_from rep \<and> mr_target rep' = mr_target rep \<and> mr_steps rep' = mr_steps rep \<and>
     mr_totals rep' = mr_totals rep \<and> mr_final_version rep' = mr_final_version rep \<and> at_rest mg target goal (entries s)"
proof -
  have rec: "recoverable ft mg target goal en" by (rule recoverable_clean [OF assms(3,4)])
  have "wp False (migrate ft mg sink target now) (\<lambda>rep en'. reported mg target en rep \<and> at_rest mg target goal en') (\<lambda>_ _. False) en"
    by (rule wp_migrate [OF assms(1,2,5) rec]) (use assms(6) in auto)
  then obtain rep s where m: "migrate ft mg sink target now \<lparr>entries = en, script = []\<rparr> = (Inr rep, s)"
    "reported mg target en rep" "at_rest mg target goal (entries s)"
    by (auto simp: wp_def split: prod.splits sum.splits)
  then obtain sn r where r: "rep = r\<lparr>mr_final_version := target\<rparr>"
    "dry_run_loop (path_plan (mg_registry mg) v target) (user_part en) v (report_new v target False (Some sn)) = Inr (target, r)"
    using assms(4) unfolding reported_def by blast
  have new: "(report_new v target False (Some sn))\<lparr>mr_dry_run := True, mr_snapshot := None\<rparr> = report_new v target True None"
    by (simp add: report_new_def)
  note dry = dry_run_loop_frame [OF r(2), where x = True and y = None, unfolded new]
  let ?rep = "r\<lparr>mr_dry_run := True, mr_snapshot := None, mr_final_version := target\<rparr>"
  have "wp False (dry_run ft mg target) (\<lambda>rep _. rep = ?rep) (\<lambda>_ _. False) en"
    by (rule wp_dry_run [OF assms(4,3,2) dry])
  then obtain s' where d: "dry_run ft mg target \<lparr>entries = en, script = []\<rparr> = (Inr ?rep, s')"
    by (auto simp: wp_def split: prod.splits sum.splits)
  moreover have "entries s' = en" using reads_dry_run [of ft mg target, unfolded reads_only_def, rule_format, of "\<lparr>entries = en, script = []\<rparr>"] d by simp
  ultimately show ?thesis using m r(1) by auto
qed

theorem dry_run_predicts_witness:
  "\<exists>rep rep' s s'. dry_run sample_formats sample_migrator 3 \<lparr>entries = sample_namespace, script = []\<rparr> = (Inr rep', s') \<and>
     entries s' = sample_namespace \<and>
     migrate sample_formats sample_migrator (\<lambda>_ _. Inr ()) 3 7 \<lparr>entries = sample_namespace, script = []\<rparr> = (Inr rep, s) \<and>
     mr_from rep' = mr_from rep \<and> mr_target rep' = mr_target rep \<and> mr_steps rep' = mr_steps rep \<and>
     mr_totals rep' = mr_totals rep \<and> mr_final_version rep' = mr_final_version rep \<and>
     at_rest sample_migrator 3 sample_goal (entries s)"
proof -
  have part: "user_part sample_namespace = sample_batch" using sample_clean by (simp add: clean_def)
  show ?thesis
    by (rule dry_run_predicts [OF sample_codec _ sample_path [folded part] sample_clean [folded part]])
       (use sample_info_ok in \<open>simp_all add: sample_migrator_def migrator_new_def\<close>)
qed

section \<open>Snapshots\<close>

lemma wp_returns:
  assumes "wp False m P (\<lambda>_ _. False) (entries s)" "script s = []"
  obtains r s' where "m s = (Inr r, s')" "P r (entries s')"
proof -
  have "\<lparr>entries = entries s, script = []\<rparr> = s" using assms(2) by simp
  then show ?thesis using assms(1) that unfolding wp_def by (auto split: prod.splits sum.splits)
qed

lemma meta_stored_reads:
  assumes "meta_stored m en" "meta_ok owner v m"
  shows "fst (meta_read \<lparr>entries = en, script = []\<rparr>) = Inr (Some m)"
proof -
  have "wp False meta_read (\<lambda>r _. r = Some m) (\<lambda>_ _. False) (entries \<lparr>entries = en, script = []\<rparr>)"
    by (rule wp_meta_stored [OF _ assms(2)]) (simp_all add: assms(1))
  then show ?thesis by (rule wp_returns) simp_all
qed

text \<open>C29.  A namespace survives the move to another node: \<open>export\<close> leaves it as it is, and what it writes is
  accepted by \<open>verify\<close> with the header \<open>export\<close> announced, which names the component, its version, its pin,
  the schema version and the time of the export.  Importing it into an empty namespace (or with \<open>replace\<close>)
  gives exactly the component's entries and exactly its metadata: the same owner, schema version, component
  version and pin, created at the time of the export and migrated at the time of the import, as the
  metadata is stored and as it is read.\<close>

theorem state_snapshot_roundtrip:
  assumes "bm_wf (entries s)" "script s = []" "bm_wf (entries t)" "script t = []" "meta_ok owner v meta"
    and "batch_ok (user_part (entries s))" "entries_bytes (user_part (entries s)) \<le> eo_max_bytes eopts" "eo_max_bytes eopts \<le> u64_max"
    and "length (user_part (entries s)) \<le> u64_max" "\<forall>bs. length (sha bs) = 32" "\<forall>level bs. zd (zc level bs) = (bs, None)"
    and "head_new (mt_schema_version meta) (mt_component meta) (mt_component_version meta) (mt_last_migrated_by meta) now = Inr h"
    and "dec_head (enc_head h) = Some h" "length (enc_head h) \<le> u32_max"
    and "length (file_payload sha enc_head h (user_part (entries s))) \<le> io_max_bytes iopts" "io_max_bytes iopts \<le> u64_max"
    and "io_expect_component iopts \<in> {None, Some owner}" "io_expect_version iopts \<in> {None, Some v}"
    and "io_expect_sha256 iopts \<in> {None, Some (mt_last_migrated_by meta)}"
    and "user_part (entries t) = [] \<or> io_replace iopts" "now \<le> u64_max" "later \<le> u64_max"
  defines "moved \<equiv> meta\<lparr>mt_created_at_ms := now, mt_last_migrated_at_ms := later\<rparr>"
  shows "\<exists>header out s' t'. snapshot_export sha enc_head zc meta now eopts s = (Inr (header, out), s') \<and> entries s' = entries s \<and>
     sh_component header = owner \<and> sh_schema_version header = v \<and> sh_component_version header = mt_component_version meta \<and>
     sh_component_sha256 header = mt_last_migrated_by meta \<and> sh_created_at_ms header = now \<and>
     sh_entries header = length (user_part (entries s)) \<and>
     snapshot_verify sha dec_head zd out iopts = Inr header \<and>
     snapshot_import sha dec_head zd out later iopts t = (Inr header, t') \<and>
     user_part (entries t') = user_part (entries s) \<and> meta_at owner v (entries t') \<and>
     meta_stored moved (entries t') \<and> bm_get (entries t') KEY_UPDATED_AT = Some (utf8 (dec later)) \<and>
     fst (meta_read \<lparr>entries = entries t', script = []\<rparr>) = Inr (Some moved)"
proof -
  let ?es = "user_part (entries s)"
  let ?header = "header_of h (length ?es, entries_bytes ?es, sha (body enc_head h ?es))"
  let ?out = "SNAPSHOT_MAGIC @ zc (eo_level eopts) (file_payload sha enc_head h ?es)"
  have h: "hd_schema_version h = v" "hd_component h = owner" "hd_component_version h = mt_component_version meta"
    "hd_component_sha256 h = mt_last_migrated_by meta" "hd_created_at_ms h = now"
    using assms(5,12) by (auto simp: head_new_def res_bind_Inr meta_ok_def split: if_splits)
  have "wp False (snapshot_export sha enc_head zc meta now eopts) (\<lambda>r en. r = (?header, ?out) \<and> en = entries s) (\<lambda>_ _. False) (entries s)"
    by (rule wp_export [OF assms(1,6,7,8,12)]) simp_all
  then obtain s' where export: "snapshot_export sha enc_head zc meta now eopts s = (Inr (?header, ?out), s')" "entries s' = entries s"
    using assms(2) by (rule wp_returns) blast
  have read: "read_snapshot sha dec_head zd ?out (io_max_bytes iopts) = Inr (h, ?es, ?header)"
    by (rule read_exported) (rule assms order.trans [OF assms(7,8)])+
  have sh: "sh_component ?header = owner" "sh_schema_version ?header = v" "sh_component_sha256 ?header = mt_last_migrated_by meta"
    "sh_component_version ?header = mt_component_version meta" "sh_created_at_ms ?header = now" "sh_entries ?header = length ?es"
    by (simp_all add: header_of_def h)
  have moved: "\<lparr>mt_schema_version = hd_schema_version h, mt_component = hd_component h, mt_component_version = hd_component_version h,
      mt_last_migrated_by = hd_component_sha256 h, mt_created_at_ms = hd_created_at_ms h, mt_last_migrated_at_ms = later\<rparr> = moved"
    using assms(5) by (cases meta) (simp add: moved_def h meta_ok_def)
  have "wp False (snapshot_import sha dec_head zd ?out later iopts) (\<lambda>r en. r = ?header \<and> user_part en = ?es \<and>
      meta_stored moved en \<and> bm_get en KEY_UPDATED_AT = Some (utf8 (dec later))) (\<lambda>_ _. False) (entries t)"
  proof (rule wp_import [OF assms(3) read _ _ _ assms(20,6)])
    show "expect (io_expect_component iopts) (sh_component ?header) OwnerMismatch = Inr ()"
      "expect (io_expect_version iopts) (sh_schema_version ?header) SchemaVersionMismatch = Inr ()"
      "expect (io_expect_sha256 iopts) (sh_component_sha256 ?header) ComponentMismatch = Inr ()"
      unfolding sh using assms(17-19) by (auto simp: expect_def)
  qed (simp add: moved)
  then obtain t' where t': "snapshot_import sha dec_head zd ?out later iopts t = (Inr ?header, t')"
    "user_part (entries t') = ?es" "meta_stored moved (entries t')" "bm_get (entries t') KEY_UPDATED_AT = Some (utf8 (dec later))"
    using assms(4) by (rule wp_returns) blast
  have ok: "meta_ok owner v moved" using assms(5,21,22) by (simp add: moved_def meta_ok_def)
  have "snapshot_verify sha dec_head zd ?out iopts = Inr ?header" by (simp add: snapshot_verify_def read)
  with export sh t' meta_stored_at [OF t'(3) ok] meta_stored_reads [OF t'(3) ok] show ?thesis by blast
qed

lemma head_parse_text: "head_parse (head_text h) = Some h"
proof -
  let ?ns = "[hd_format h, hd_schema_version h, hd_created_at_ms h, length (hd_component h), length (hd_component_version h)]
    @ hd_component h @ hd_component_version h @ hd_component_sha256 h"
  have ne: "?ns \<noteq> []" by simp
  show ?thesis unfolding head_text_def head_parse_def split_join_nats [OF ne] by (cases h) simp
qed

definition sample_meta :: meta where
  "sample_meta = \<lparr>mt_schema_version = 1, mt_component = lit ''demo'', mt_component_version = lit ''1.0.0'',
     mt_last_migrated_by = replicate 64 97, mt_created_at_ms = 0, mt_last_migrated_at_ms = 0\<rparr>"

definition sample_head :: head where
  "sample_head = \<lparr>hd_format = 1, hd_schema_version = 1, hd_component = lit ''demo'', hd_component_version = lit ''1.0.0'',
     hd_component_sha256 = replicate 64 97, hd_created_at_ms = 5\<rparr>"

lemma sample_head_length: "length (head_text sample_head) \<le> 21 * 78"
proof -
  have "length (head_text sample_head) \<le> 21 * length ([1, 1, 5, length (lit ''demo''), length (lit ''1.0.0'')] @ lit ''demo'' @ lit ''1.0.0'' @ replicate 64 97)"
    unfolding head_text_def sample_head_def head.simps by (rule length_join_nats) (simp add: lit_def)
  then show ?thesis by (simp add: lit_def)
qed

lemma sample_head_new:
  "head_new (mt_schema_version sample_meta) (mt_component sample_meta) (mt_component_version sample_meta)
     (mt_last_migrated_by sample_meta) 5 = Inr sample_head"
  using sample_info_ok
  by (simp add: head_new_def component_info_new_def sample_meta_def sample_head_def sample_info_def SNAPSHOT_FORMAT_def Let_def)

theorem state_snapshot_roundtrip_witness:
  "\<exists>header out s' t'. snapshot_export sample_digest head_text (\<lambda>_ bs. bs) sample_meta 5 export_default
       \<lparr>entries = sample_namespace, script = []\<rparr> = (Inr (header, out), s') \<and>
     snapshot_verify sample_digest head_parse (\<lambda>bs. (bs, None)) out import_default = Inr header \<and>
     snapshot_import sample_digest head_parse (\<lambda>bs. (bs, None)) out 9 import_default \<lparr>entries = [], script = []\<rparr> = (Inr header, t') \<and>
     user_part (entries t') = sample_batch \<and> meta_at (lit ''demo'') 1 (entries t') \<and>
     fst (meta_read \<lparr>entries = entries t', script = []\<rparr>) = Inr (Some \<lparr>mt_schema_version = 1, mt_component = lit ''demo'',
       mt_component_version = lit ''1.0.0'', mt_last_migrated_by = replicate 64 97, mt_created_at_ms = 5, mt_last_migrated_at_ms = 9\<rparr>)"
proof -
  have part: "user_part sample_namespace = sample_batch" and wf: "bm_wf sample_namespace" using sample_clean by (simp_all add: clean_def)
  have payload: "length (file_payload sample_digest head_text sample_head sample_batch) \<le> DEFAULT_MAX_BYTES"
    using sample_head_length
    by (simp add: file_payload_def body_def put_sized_def sample_batch_def sample_keys entry_bytes_def sample_digest_def DEFAULT_MAX_BYTES_def)
  have moved: "sample_meta\<lparr>mt_created_at_ms := 5, mt_last_migrated_at_ms := 9\<rparr> = \<lparr>mt_schema_version = 1, mt_component = lit ''demo'',
      mt_component_version = lit ''1.0.0'', mt_last_migrated_by = replicate 64 97, mt_created_at_ms = 5, mt_last_migrated_at_ms = 9\<rparr>"
    by (simp add: sample_meta_def)
  have "\<exists>header out s' t'. snapshot_export sample_digest head_text (\<lambda>_ bs. bs) sample_meta 5 export_default
       \<lparr>entries = sample_namespace, script = []\<rparr> = (Inr (header, out), s') \<and>
     entries s' = entries \<lparr>entries = sample_namespace, script = []\<rparr> \<and>
     sh_component header = lit ''demo'' \<and> sh_schema_version header = 1 \<and> sh_component_version header = mt_component_version sample_meta \<and>
     sh_component_sha256 header = mt_last_migrated_by sample_meta \<and> sh_created_at_ms header = 5 \<and>
     sh_entries header = length (user_part (entries \<lparr>entries = sample_namespace, script = []\<rparr>)) \<and>
     snapshot_verify sample_digest head_parse (\<lambda>bs. (bs, None)) out import_default = Inr header \<and>
     snapshot_import sample_digest head_parse (\<lambda>bs. (bs, None)) out 9 import_default \<lparr>entries = [], script = []\<rparr> = (Inr header, t') \<and>
     user_part (entries t') = user_part (entries \<lparr>entries = sample_namespace, script = []\<rparr>) \<and> meta_at (lit ''demo'') 1 (entries t') \<and>
     meta_stored (sample_meta\<lparr>mt_created_at_ms := 5, mt_last_migrated_at_ms := 9\<rparr>) (entries t') \<and>
     bm_get (entries t') KEY_UPDATED_AT = Some (utf8 (dec 9)) \<and>
     fst (meta_read \<lparr>entries = entries t', script = []\<rparr>) = Inr (Some (sample_meta\<lparr>mt_created_at_ms := 5, mt_last_migrated_at_ms := 9\<rparr>))"
    by (rule state_snapshot_roundtrip [where h = sample_head and meta = sample_meta])
       (use wf sample_head_new head_parse_text sample_batches(1) payload sample_identity sample_head_length in
         \<open>simp_all add: part sample_meta_def meta_ok_def export_default_def import_default_def sample_digest_def DEFAULT_MAX_BYTES_def
           sample_batch_def sample_keys\<close>)
  then show ?thesis unfolding moved by (simp add: part) blast
qed

section \<open>The component's view\<close>

text \<open>C28.  A component cannot touch the host's keys: whatever calls it makes through its view, the reserved
  entries of the store stay as they were, byte for byte, also when the write budget runs out in the
  middle of a \<open>del\_prefix\<close>.\<close>

theorem view_keeps_reserved:
  assumes "bm_wf (mk_entries s)"
  shows "reserved_part (mk_entries (fold (\<lambda>c s. user_does s c) calls s)) = reserved_part (mk_entries s) \<and>
    bm_wf (mk_entries (fold (\<lambda>c s. user_does s c) calls s))"
  using assms
proof (induction calls arbitrary: s)
  case (Cons c calls)
  then show ?case using user_does_kept [OF Cons.prems, of c] by (simp only: fold_simps)
qed simp

theorem view_keeps_reserved_witness:
  "reserved_part (mk_entries (fold (\<lambda>c s. user_does s c) [UserPut (utf8 (lit ''__wa/meta/schema'')) [57], UserDelPrefix []]
       \<lparr>mk_entries = sample_namespace, mk_writes = 0, mk_budget = Some 1\<rparr>)) =
     reserved_part (mk_entries \<lparr>mk_entries = sample_namespace, mk_writes = 0, mk_budget = Some 1\<rparr>) \<and>
   bm_wf (mk_entries (fold (\<lambda>c s. user_does s c) [UserPut (utf8 (lit ''__wa/meta/schema'')) [57], UserDelPrefix []]
       \<lparr>mk_entries = sample_namespace, mk_writes = 0, mk_budget = Some 1\<rparr>))"
  by (rule view_keeps_reserved) (use sample_clean in \<open>simp add: clean_def\<close>)

end
