(* ===== verification/WatchdogJson.thy ===== *)
theory WatchdogJson
  imports Text
begin

text \<open>
  \<open>wa-watchdog/src/json.rs\<close>: writing flat JSON objects, and reading one top-level field of a text.
  The scanners of the source walk bytes by index; here an index is the rest of the text, as characters:
  every byte they look for is ASCII and no byte of a longer character is, and the two bytes skipped
  after a backslash are the backslash and (the first byte of) the next character.  A slice between
  two positions is what is left of the first text without the second.
\<close>

section \<open>Writing\<close>

datatype json = JStr str | JInt int | JUInt nat | JBool bool | JNull | JRaw str

definition hex4 :: "nat \<Rightarrow> str" where
  "hex4 n = map hex_char [n div 4096 mod 16, n div 256 mod 16, n div 16 mod 16, n mod 16]"

definition quote_char :: "rchar \<Rightarrow> str" where
  "quote_char c =
    (if c = 34 then [92, 34]
     else if c = 92 then [92, 92]
     else if c = 10 then [92, 110]
     else if c = 13 then [92, 114]
     else if c = 9 then [92, 116]
     else if c = 8 then [92, 98]
     else if c = 12 then [92, 102]
     else if c < 32 then [92, 117] @ hex4 c
     else [c])"

definition quote :: "str \<Rightarrow> str" where
  "quote s = [34] @ concat (map quote_char s) @ [34]"

text \<open>\<open>i64::to\_string\<close>\<close>

definition dec_int :: "int \<Rightarrow> str" where
  "dec_int i = (if i < 0 then 45 # dec (nat (- i)) else dec (nat i))"

fun render_json :: "json \<Rightarrow> str" where
  "render_json (JStr s) = quote s"
| "render_json (JInt i) = dec_int i"
| "render_json (JUInt n) = dec n"
| "render_json (JBool b) = (if b then lit ''true'' else lit ''false'')"
| "render_json JNull = lit ''null''"
| "render_json (JRaw s) = s"

definition json_pair :: "str \<times> json \<Rightarrow> str" where
  "json_pair = (\<lambda>(key, v). quote key @ [58] @ render_json v)"

definition json_object :: "(str \<times> json) list \<Rightarrow> str" where
  "json_object ps = [123] @ join_with 44 (map json_pair ps) @ [125]"

section \<open>Skipping\<close>

definition json_ws :: "rchar \<Rightarrow> bool" where
  "json_ws c \<longleftrightarrow> c = 32 \<or> c = 9 \<or> c = 10 \<or> c = 13"

definition skip_ws :: "str \<Rightarrow> str" where
  "skip_ws s = dropWhile json_ws s"

text \<open>Past the closing quote of a string, from after the opening one.\<close>

fun skip_string :: "str \<Rightarrow> str option" where
  "skip_string [] = None"
| "skip_string (c # s) =
    (if c = 92 then (case s of [] \<Rightarrow> None | _ # s \<Rightarrow> skip_string s)
     else if c = 34 then Some s
     else skip_string s)"

lemma skip_string_shorter: "skip_string s = Some r \<Longrightarrow> length r < length s"
  by (induction s rule: skip_string.induct) (force split: if_splits list.splits)+

text \<open>Past the bracket that closes the first one; the depth counts brackets of both kinds, only the last
  is compared with the first.\<close>

function skip_nested :: "rchar \<Rightarrow> nat \<Rightarrow> str \<Rightarrow> str option" where
  "skip_nested close depth s = (case s of
     [] \<Rightarrow> None
   | c # r \<Rightarrow>
       if c = 34 then (case skip_string r of None \<Rightarrow> None | Some r \<Rightarrow> skip_nested close depth r)
       else if c = 123 \<or> c = 91 then skip_nested close (depth + 1) r
       else if c = 125 \<or> c = 93 then
         (if depth - 1 = 0 then (if c = close then Some r else None) else skip_nested close (depth - 1) r)
       else skip_nested close depth r)"
  by pat_completeness auto
termination
  by (relation "measure (\<lambda>(_, _, s). length s)") (auto dest: skip_string_shorter)

declare skip_nested.simps [simp del]

definition json_stop :: "rchar \<Rightarrow> bool" where
  "json_stop c \<longleftrightarrow> c = 44 \<or> c = 125 \<or> c = 93 \<or> json_ws c"

definition skip_value :: "str \<Rightarrow> str option" where
  "skip_value s = (case skip_ws s of
     [] \<Rightarrow> None
   | c # r \<Rightarrow>
       if c = 34 then skip_string r
       else if c = 123 \<or> c = 91 then skip_nested (if c = 123 then 125 else 93) 0 (c # r)
       else if json_stop c then None
       else Some (dropWhile (\<lambda>c. \<not> json_stop c) r))"

section \<open>Reading a field\<close>

text \<open>\<open>from\_str\_radix(s, 16)\<close>: an optional plus, then digits of either case, of a value that fits.\<close>

definition json_hex_digit :: "rchar \<Rightarrow> nat option" where
  "json_hex_digit c =
    (if 48 \<le> c \<and> c \<le> 57 then Some (c - 48)
     else if 97 \<le> c \<and> c \<le> 102 then Some (c - 87)
     else if 65 \<le> c \<and> c \<le> 70 then Some (c - 55)
     else None)"

definition hex_value :: "str \<Rightarrow> nat" where
  "hex_value s = foldl (\<lambda>n c. n * 16 + the (json_hex_digit c)) 0 s"

definition parse_hex :: "nat \<Rightarrow> str \<Rightarrow> nat option" where
  "parse_hex most s =
    (let ds = (case s of c # r \<Rightarrow> if c = 43 then r else s | [] \<Rightarrow> []) in
     if ds = [] \<or> \<not> list_all (\<lambda>c. json_hex_digit c \<noteq> None) ds \<or> hex_value ds > most then None else Some (hex_value ds))"

definition cons_char :: "rchar \<Rightarrow> str option \<Rightarrow> str option" where
  "cons_char c = map_option (\<lambda>s. c # s)"

fun unescape :: "str \<Rightarrow> str option" where
  "unescape [] = Some []"
| "unescape (c # s) =
    (if c \<noteq> 92 then cons_char c (unescape s)
     else case s of
         [] \<Rightarrow> None
       | e # r \<Rightarrow>
           if e = 34 then cons_char 34 (unescape r)
           else if e = 92 then cons_char 92 (unescape r)
           else if e = 47 then cons_char 47 (unescape r)
           else if e = 110 then cons_char 10 (unescape r)
           else if e = 114 then cons_char 13 (unescape r)
           else if e = 116 then cons_char 9 (unescape r)
           else if e = 98 then cons_char 8 (unescape r)
           else if e = 102 then cons_char 12 (unescape r)
           else if e = 117 then (case parse_hex u32_max (take 4 r) of
               None \<Rightarrow> None
             | Some code \<Rightarrow> if valid_char code then cons_char code (unescape (drop 4 r)) else None)
           else None)"

text \<open>\<open>strip\_prefix(c)\<close> and \<open>strip\_suffix(c)\<close> one after the other.\<close>

definition strip_ends :: "rchar \<Rightarrow> rchar \<Rightarrow> str \<Rightarrow> str option" where
  "strip_ends a b s = (case s of
     [] \<Rightarrow> None
   | c # r \<Rightarrow> if c = a \<and> r \<noteq> [] \<and> last r = b then Some (butlast r) else None)"

definition unquote :: "str \<Rightarrow> str option" where
  "unquote literal = (case strip_ends 34 34 (trim literal) of None \<Rightarrow> None | Some inner \<Rightarrow> unescape inner)"

definition slice :: "str \<Rightarrow> str \<Rightarrow> str" where
  "slice s r = take (length s - length r) s"

lemma skip_ws_le: "length (skip_ws s) \<le> length s"
  by (simp add: skip_ws_def length_dropWhile_le)

lemma skip_nested_le: "skip_nested close depth s = Some r \<Longrightarrow> length r < length s"
proof (induction s arbitrary: depth r rule: length_induct)
  case (1 s)
  have ih: "skip_nested close d t = Some r \<Longrightarrow> length t < length s \<Longrightarrow> length r < length s" for d t
    using 1(1) by (metis less_trans)
  from 1(2) show ?case
    by (subst (asm) skip_nested.simps)
      (auto split: list.splits if_splits option.splits dest!: ih dest: skip_string_shorter)
qed

lemma skip_value_shorter: "skip_value s = Some r \<Longrightarrow> length r < length s"
proof -
  assume v: "skip_value s = Some r"
  then obtain c t where s: "skip_ws s = c # t" by (auto simp: skip_value_def split: list.splits)
  then have "length r < length (c # t)"
    using v length_dropWhile_le [of "\<lambda>c. \<not> json_stop c" t]
    by (auto simp: skip_value_def less_Suc_eq_le split: if_splits dest: skip_string_shorter skip_nested_le)
  with s skip_ws_le [of s] show ?thesis by simp
qed

function field_loop :: "str \<Rightarrow> str \<Rightarrow> str option" where
  "field_loop key s = (case skip_ws s of
     [] \<Rightarrow> None
   | c # r \<Rightarrow>
       if c \<noteq> 34 then None
       else case skip_value (c # r) of None \<Rightarrow> None | Some after \<Rightarrow>
         (case unquote (slice (c # r) after) of None \<Rightarrow> None | Some name \<Rightarrow>
         (case skip_ws after of [] \<Rightarrow> None | colon # t \<Rightarrow>
           if colon \<noteq> 58 then None
           else let v = skip_ws t in
             case skip_value v of None \<Rightarrow> None | Some rest \<Rightarrow>
               if name = key then Some (slice v rest)
               else (case skip_ws rest of [] \<Rightarrow> None | comma # u \<Rightarrow>
                 if comma = 44 then field_loop key u else None))))"
  by pat_completeness auto
termination
proof (relation "measure (\<lambda>(_, s). length s)", goal_cases)
  case (2 key s c r after name colon t v rest comma u)
  then have "length (c # r) \<le> length s" "length (colon # t) \<le> length after" "length v \<le> length t" "length (comma # u) \<le> length rest"
    by (metis skip_ws_le)+
  moreover have "length rest < length v" "length after < length (c # r)"
    using 2 skip_value_shorter by blast+
  ultimately show ?case by simp
qed simp

declare field_loop.simps [simp del]

definition json_field :: "str \<Rightarrow> str \<Rightarrow> str option" where
  "json_field s key = (case skip_ws s of [] \<Rightarrow> None | c # r \<Rightarrow> if c = 123 then field_loop key r else None)"

definition field_str :: "str \<Rightarrow> str \<Rightarrow> str option" where
  "field_str s key = (case json_field s key of None \<Rightarrow> None | Some v \<Rightarrow> unquote v)"

definition field_bool :: "str \<Rightarrow> str \<Rightarrow> bool option" where
  "field_bool s key = (case json_field s key of None \<Rightarrow> None | Some v \<Rightarrow>
     if trim v = lit ''true'' then Some True else if trim v = lit ''false'' then Some False else None)"

definition field_u64 :: "str \<Rightarrow> str \<Rightarrow> nat option" where
  "field_u64 s key = (case json_field s key of None \<Rightarrow> None | Some v \<Rightarrow> parse_nat u64_max (trim v))"

end
