(* ===== verification/WatchdogState.thy ===== *)
theory WatchdogState
  imports WatchdogJson
begin

text \<open>
  \<open>wa-watchdog/src/backoff.rs\<close>, \<open>state.rs\<close> and the records of \<open>paths.rs\<close> and \<open>swap.rs\<close>: the delay before
  a restart, the table of the state machine, and what the watchdog leaves on disk with its JSON.
  A path is the text it displays as.
\<close>

section \<open>Backoff\<close>

record backoff =
  bo_base_ms :: nat
  bo_factor :: nat
  bo_max_ms :: nat

definition backoff_new :: "nat \<Rightarrow> nat \<Rightarrow> nat \<Rightarrow> backoff" where
  "backoff_new base factor most = \<lparr>bo_base_ms = base, bo_factor = max factor 1, bo_max_ms = max most base\<rparr>"

fun restart_delay_loop :: "backoff \<Rightarrow> nat \<Rightarrow> nat \<Rightarrow> nat" where
  "restart_delay_loop b 0 delay = min delay (bo_max_ms b)"
| "restart_delay_loop b (Suc n) delay =
    (if delay * bo_factor b > u64_max then bo_max_ms b
     else if delay * bo_factor b \<ge> bo_max_ms b then bo_max_ms b
     else restart_delay_loop b n (delay * bo_factor b))"

definition restart_delay :: "backoff \<Rightarrow> nat \<Rightarrow> nat" where
  "restart_delay b attempt = restart_delay_loop b attempt (bo_base_ms b)"

section \<open>The table\<close>

datatype phase = PhStopped | PhStarting | PhHealthy | PhBackoff | PhSwapping | PhStopping

definition phase_str :: "phase \<Rightarrow> str" where
  "phase_str p = (case p of
     PhStopped \<Rightarrow> lit ''stopped'' | PhStarting \<Rightarrow> lit ''starting'' | PhHealthy \<Rightarrow> lit ''healthy''
   | PhBackoff \<Rightarrow> lit ''backoff'' | PhSwapping \<Rightarrow> lit ''swapping'' | PhStopping \<Rightarrow> lit ''stopping'')"

definition is_running :: "phase \<Rightarrow> bool" where
  "is_running p \<longleftrightarrow> p \<in> {PhStarting, PhHealthy, PhSwapping}"

datatype watch_input = InLaunched | InHealthOk | InStartTimedOut | InExited | InUnhealthy | InSwapRequested
  | InSwapProved | InSwapFailed | InStabilityViolated | InStopRequested | InStopComplete

datatype watch_action = AcNone | AcLaunch | AcMarkHealthy | AcKillAndRestart | AcRestartLater | AcBeginSwap
  | AcSettleSwap | AcRollback | AcRollbackToPrevious | AcKillAndExit | AcExit

fun transition :: "phase \<Rightarrow> watch_input \<Rightarrow> phase \<times> watch_action" where
  "transition PhStopped InLaunched = (PhStarting, AcLaunch)"
| "transition PhBackoff InLaunched = (PhStarting, AcLaunch)"
| "transition PhStarting InLaunched = (PhStarting, AcNone)"
| "transition PhStarting InHealthOk = (PhHealthy, AcMarkHealthy)"
| "transition PhStarting InStartTimedOut = (PhBackoff, AcKillAndRestart)"
| "transition PhStarting InExited = (PhBackoff, AcRestartLater)"
| "transition PhHealthy InHealthOk = (PhHealthy, AcNone)"
| "transition PhHealthy InUnhealthy = (PhBackoff, AcKillAndRestart)"
| "transition PhHealthy InExited = (PhBackoff, AcRestartLater)"
| "transition PhHealthy InStabilityViolated = (PhStarting, AcRollbackToPrevious)"
| "transition PhBackoff InHealthOk = (PhBackoff, AcNone)"
| "transition PhBackoff InStartTimedOut = (PhBackoff, AcNone)"
| "transition PhBackoff InExited = (PhBackoff, AcNone)"
| "transition PhBackoff InUnhealthy = (PhBackoff, AcNone)"
| "transition PhBackoff InSwapRequested = (PhBackoff, AcNone)"
| "transition PhStarting InSwapRequested = (PhSwapping, AcBeginSwap)"
| "transition PhHealthy InSwapRequested = (PhSwapping, AcBeginSwap)"
| "transition PhSwapping InSwapProved = (PhHealthy, AcSettleSwap)"
| "transition PhSwapping InSwapFailed = (PhStarting, AcRollback)"
| "transition PhSwapping InExited = (PhStarting, AcRollback)"
| "transition PhSwapping InHealthOk = (PhSwapping, AcNone)"
| "transition PhSwapping InStartTimedOut = (PhSwapping, AcNone)"
| "transition PhSwapping InUnhealthy = (PhSwapping, AcNone)"
| "transition PhSwapping InStabilityViolated = (PhStarting, AcRollbackToPrevious)"
| "transition PhSwapping InSwapRequested = (PhSwapping, AcNone)"
| "transition p InStopRequested = (case p of
     PhStopped \<Rightarrow> (PhStopped, AcExit)
   | PhBackoff \<Rightarrow> (PhStopping, AcExit)
   | _ \<Rightarrow> (PhStopping, AcKillAndExit))"
| "transition PhStopping InStopComplete = (PhStopped, AcExit)"
| "transition PhStopping _ = (PhStopping, AcNone)"
| "transition PhStopped _ = (PhStopped, AcExit)"
| "transition p _ = (p, AcNone)"

section \<open>Argument lists\<close>

definition json_array :: "str list \<Rightarrow> str" where
  "json_array args = [91] @ join_with 44 (map quote args) @ [93]"

text \<open>The scan of \<open>args\_from\_json\<close>: every string literal of the text; one that does not end is no
  argument, and nothing follows it.\<close>

function args_scan :: "str \<Rightarrow> str list" where
  "args_scan s = (case s of
     [] \<Rightarrow> []
   | c # r \<Rightarrow>
       if c \<noteq> 34 then args_scan r
       else case skip_string r of
           None \<Rightarrow> []
         | Some rest \<Rightarrow> (case unquote (slice (c # r) rest) of None \<Rightarrow> [] | Some a \<Rightarrow> [a]) @ args_scan rest)"
  by pat_completeness auto
termination
  by (relation "measure length") (auto dest: skip_string_shorter)

declare args_scan.simps [simp del]

definition args_from_json :: "str \<Rightarrow> str list" where
  "args_from_json s = (case json_field s (lit ''args'') of
     None \<Rightarrow> []
   | Some raw \<Rightarrow> args_scan (case strip_ends 91 93 (trim raw) of Some inner \<Rightarrow> inner | None \<Rightarrow> []))"

section \<open>Records\<close>

record active_kernel =
  ak_binary :: str
  ak_sha256 :: "str option"
  ak_args :: "str list"

definition json_opt_str :: "str option \<Rightarrow> json" where
  "json_opt_str s = (case s of Some s \<Rightarrow> JStr s | None \<Rightarrow> JNull)"

definition active_to_json :: "active_kernel \<Rightarrow> str" where
  "active_to_json a = json_object [(lit ''binary'', JStr (ak_binary a)), (lit ''sha256'', json_opt_str (ak_sha256 a)),
     (lit ''args'', JRaw (json_array (ak_args a)))]"

definition active_from_json :: "str \<Rightarrow> active_kernel option" where
  "active_from_json s = map_option (\<lambda>b. \<lparr>ak_binary = b, ak_sha256 = field_str s (lit ''sha256''), ak_args = args_from_json s\<rparr>)
     (field_str s (lit ''binary''))"

record swap_request =
  sr_id :: str
  sr_binary :: str
  sr_sha256 :: str
  sr_args :: "str list"
  sr_at_ms :: nat

definition request_to_json :: "swap_request \<Rightarrow> str" where
  "request_to_json r = json_object [(lit ''id'', JStr (sr_id r)), (lit ''binary'', JStr (sr_binary r)),
     (lit ''sha256'', JStr (sr_sha256 r)), (lit ''args'', JRaw (json_array (sr_args r))), (lit ''at_ms'', JUInt (sr_at_ms r))]"

definition unwrap_or :: "'a \<Rightarrow> 'a option \<Rightarrow> 'a" where
  "unwrap_or d v = (case v of Some v \<Rightarrow> v | None \<Rightarrow> d)"

definition request_from_json :: "str \<Rightarrow> swap_request option" where
  "request_from_json s =
    (case field_str s (lit ''id'') of None \<Rightarrow> None | Some i \<Rightarrow>
     case field_str s (lit ''binary'') of None \<Rightarrow> None | Some b \<Rightarrow>
     case field_str s (lit ''sha256'') of None \<Rightarrow> None | Some h \<Rightarrow>
       Some \<lparr>sr_id = i, sr_binary = b, sr_sha256 = h, sr_args = args_from_json s,
             sr_at_ms = unwrap_or 0 (field_u64 s (lit ''at_ms''))\<rparr>)"

record swap_result =
  rs_id :: str
  rs_ok :: bool
  rs_rolled_back :: bool
  rs_previous :: str
  rs_active :: str
  rs_detail :: str
  rs_at_ms :: nat

definition result_to_json :: "swap_result \<Rightarrow> str" where
  "result_to_json r = json_object [(lit ''id'', JStr (rs_id r)), (lit ''ok'', JBool (rs_ok r)),
     (lit ''rolled_back'', JBool (rs_rolled_back r)), (lit ''previous'', JStr (rs_previous r)),
     (lit ''active'', JStr (rs_active r)), (lit ''detail'', JStr (rs_detail r)), (lit ''at_ms'', JUInt (rs_at_ms r))]"

definition result_from_json :: "str \<Rightarrow> swap_result option" where
  "result_from_json s =
    (case field_str s (lit ''id'') of None \<Rightarrow> None | Some i \<Rightarrow>
     case field_bool s (lit ''ok'') of None \<Rightarrow> None | Some good \<Rightarrow>
     case field_str s (lit ''previous'') of None \<Rightarrow> None | Some p \<Rightarrow>
     case field_str s (lit ''active'') of None \<Rightarrow> None | Some a \<Rightarrow>
       Some \<lparr>rs_id = i, rs_ok = good, rs_rolled_back = unwrap_or False (field_bool s (lit ''rolled_back'')),
             rs_previous = p, rs_active = a, rs_detail = unwrap_or [] (field_str s (lit ''detail'')),
             rs_at_ms = unwrap_or 0 (field_u64 s (lit ''at_ms''))\<rparr>)"

text \<open>\<open>SwapSummary\<close> has the fields of \<open>SwapResult\<close> and the same JSON; its reader is more lenient.\<close>

type_synonym swap_summary = swap_result

definition summary_from_json :: "str \<Rightarrow> swap_summary option" where
  "summary_from_json s =
    (case field_str s (lit ''id'') of None \<Rightarrow> None | Some i \<Rightarrow>
     case field_bool s (lit ''ok'') of None \<Rightarrow> None | Some good \<Rightarrow>
       Some \<lparr>rs_id = i, rs_ok = good, rs_rolled_back = unwrap_or False (field_bool s (lit ''rolled_back'')),
             rs_previous = unwrap_or [] (field_str s (lit ''previous'')),
             rs_active = unwrap_or [] (field_str s (lit ''active'')),
             rs_detail = unwrap_or [] (field_str s (lit ''detail'')),
             rs_at_ms = unwrap_or 0 (field_u64 s (lit ''at_ms''))\<rparr>)"

record last_exit =
  le_pid :: nat
  le_code :: "int option"
  le_uptime_ms :: nat
  le_at_ms :: nat

definition exit_to_json :: "last_exit \<Rightarrow> str" where
  "exit_to_json x = json_object [(lit ''pid'', JUInt (le_pid x)),
     (lit ''code'', case le_code x of Some c \<Rightarrow> JInt c | None \<Rightarrow> JNull),
     (lit ''uptime_ms'', JUInt (le_uptime_ms x)), (lit ''at_ms'', JUInt (le_at_ms x))]"

text \<open>\<open>parse::<i32>\<close>\<close>

definition parse_i32 :: "str \<Rightarrow> int option" where
  "parse_i32 s = (case s of
     c # r \<Rightarrow> if c = 45 then (if r \<noteq> [] \<and> hd r = 43 then None else map_option (\<lambda>n. - int n) (parse_nat 2147483648 r))
              else map_option int (parse_nat 2147483647 s)
   | [] \<Rightarrow> None)"

definition exit_from_json :: "str \<Rightarrow> last_exit option" where
  "exit_from_json s = map_option (\<lambda>pid. \<lparr>le_pid = wrap32 pid,
       le_code = (case json_field s (lit ''code'') of Some v \<Rightarrow> parse_i32 (trim v) | None \<Rightarrow> None),
       le_uptime_ms = unwrap_or 0 (field_u64 s (lit ''uptime_ms'')),
       le_at_ms = unwrap_or 0 (field_u64 s (lit ''at_ms''))\<rparr>)
     (field_u64 s (lit ''pid''))"

record status =
  st_state :: str
  st_supervisor_pid :: nat
  st_kernel_pid :: "nat option"
  st_kernel :: "str option"
  st_sha256 :: "str option"
  st_port :: nat
  st_restarts :: nat
  st_attempt :: nat
  st_updated_ms :: nat
  st_last_exit :: "last_exit option"
  st_last_swap :: "swap_summary option"
  st_supervisor_alive :: bool

definition status_to_json :: "status \<Rightarrow> str" where
  "status_to_json s = json_object
    [(lit ''state'', JStr (st_state s)),
     (lit ''supervisor_pid'', JUInt (st_supervisor_pid s)),
     (lit ''supervisor_alive'', JBool (st_supervisor_alive s)),
     (lit ''kernel_pid'', case st_kernel_pid s of Some pid \<Rightarrow> JUInt pid | None \<Rightarrow> JNull),
     (lit ''kernel'', json_opt_str (st_kernel s)),
     (lit ''sha256'', json_opt_str (st_sha256 s)),
     (lit ''port'', JUInt (st_port s)),
     (lit ''restarts'', JUInt (st_restarts s)),
     (lit ''attempt'', JUInt (st_attempt s)),
     (lit ''updated_ms'', JUInt (st_updated_ms s)),
     (lit ''last_exit'', case st_last_exit s of Some x \<Rightarrow> JRaw (exit_to_json x) | None \<Rightarrow> JNull),
     (lit ''last_swap'', case st_last_swap s of Some x \<Rightarrow> JRaw (result_to_json x) | None \<Rightarrow> JNull)]"

definition known_state :: "str \<Rightarrow> str option" where
  "known_state word = (if word \<in> {lit ''stopped'', lit ''starting'', lit ''healthy'', lit ''backoff'', lit ''swapping'', lit ''stopping''}
     then Some word else None)"

definition status_from_json :: "str \<Rightarrow> status option" where
  "status_from_json s =
    (case field_str s (lit ''state'') of None \<Rightarrow> None | Some word \<Rightarrow>
     case known_state word of None \<Rightarrow> None | Some state \<Rightarrow>
     case field_u64 s (lit ''supervisor_pid'') of None \<Rightarrow> None | Some pid \<Rightarrow>
     case field_u64 s (lit ''port'') of None \<Rightarrow> None | Some port \<Rightarrow>
       Some \<lparr>st_state = state, st_supervisor_pid = wrap32 pid,
         st_kernel_pid = map_option wrap32 (field_u64 s (lit ''kernel_pid'')),
         st_kernel = field_str s (lit ''kernel''), st_sha256 = field_str s (lit ''sha256''),
         st_port = port mod 65536,
         st_restarts = unwrap_or 0 (field_u64 s (lit ''restarts'')),
         st_attempt = wrap32 (unwrap_or 0 (field_u64 s (lit ''attempt''))),
         st_updated_ms = unwrap_or 0 (field_u64 s (lit ''updated_ms'')),
         st_last_exit = (case json_field s (lit ''last_exit'') of Some raw \<Rightarrow> exit_from_json raw | None \<Rightarrow> None),
         st_last_swap = (case json_field s (lit ''last_swap'') of Some raw \<Rightarrow> summary_from_json raw | None \<Rightarrow> None),
         st_supervisor_alive = unwrap_or False (field_bool s (lit ''supervisor_alive''))\<rparr>)"

end
