(* ===== verification/WatchdogJsonLaws.thy ===== *)
theory WatchdogJsonLaws
  imports WatchdogJson
begin

text \<open>
  What is written reads back: texts that the scanner skips as one value, wherever they stand, and
  the fields of a written object.
\<close>

section \<open>Texts that are skipped whole\<close>

definition transparent :: "str \<Rightarrow> bool" where
  "transparent t \<longleftrightarrow> (\<forall>close d r. d > 0 \<longrightarrow> skip_nested close d (t @ r) = skip_nested close d r)"

definition json_text :: "str \<Rightarrow> bool" where
  "json_text t \<longleftrightarrow> t \<noteq> [] \<and> \<not> json_ws (hd t) \<and> transparent t \<and>
     (\<forall>r. r \<noteq> [] \<and> json_stop (hd r) \<longrightarrow> skip_value (t @ r) = Some r)"

lemma transparentD: "transparent t \<Longrightarrow> d > 0 \<Longrightarrow> skip_nested close d (t @ r) = skip_nested close d r"
  by (simp add: transparent_def)

lemma transparent_append: "transparent s \<Longrightarrow> transparent t \<Longrightarrow> transparent (s @ t)"
  by (simp add: transparent_def)

lemma transparent_empty: "transparent []"
  by (simp add: transparent_def)

lemma transparent_plain: "\<forall>c \<in> set t. c \<notin> {34, 123, 91, 125, 93} \<Longrightarrow> transparent t"
proof (induction t)
  case (Cons c t)
  then show ?case by (auto simp: transparent_def skip_nested.simps [of _ _ "c # _"])
qed (rule transparent_empty)

lemma transparent_join: "\<forall>t \<in> set ts. transparent t \<Longrightarrow> transparent (join_with 44 ts)"
proof (induction ts)
  case (Cons t ts)
  have "transparent [44]" by (rule transparent_plain) simp
  with Cons transparent_append [of t "[44] @ join_with 44 ts"] transparent_append [of "[44]" "join_with 44 ts"]
  show ?case by (cases ts) auto
qed (simp add: transparent_empty)

lemma hex_char_plain: "n < 16 \<Longrightarrow> hex_char n \<notin> {34, 92}"
proof -
  assume "n < 16"
  then have "n \<in> set [0..<16]" by simp
  moreover have "\<forall>n \<in> set [0..<16]. hex_char n \<notin> {34, 92}" by (simp add: upt_rec hex_char_def lit_def)
  ultimately show ?thesis by blast
qed

lemma skip_string_char: "skip_string (quote_char c @ t) = skip_string t"
  using hex_char_plain by (auto simp: quote_char_def hex4_def)

lemma skip_string_quoted: "skip_string (concat (map quote_char s) @ 34 # r) = Some r"
  by (induction s) (simp_all add: skip_string_char)

lemma json_text_quote: "json_text (quote s)"
proof -
  have "transparent (quote s)"
    by (auto simp: transparent_def quote_def skip_nested.simps [of _ _ "34 # _"] skip_string_quoted)
  then show ?thesis
    by (auto simp: json_text_def quote_def json_ws_def skip_value_def skip_ws_def skip_string_quoted)
qed

definition atom :: "str \<Rightarrow> bool" where
  "atom t \<longleftrightarrow> t \<noteq> [] \<and> (\<forall>c \<in> set t. \<not> json_stop c \<and> c \<notin> {34, 123, 91, 125, 93})"

lemma json_text_atom:
  assumes "atom t"
  shows "json_text t"
proof -
  obtain c s where t: "t = c # s" using assms by (cases t) (auto simp: atom_def)
  have stop: "dropWhile (\<lambda>c. \<not> json_stop c) (s @ r) = r" if "r \<noteq> []" "json_stop (hd r)" for r
  proof -
    have "dropWhile (\<lambda>c. \<not> json_stop c) (s @ r) = dropWhile (\<lambda>c. \<not> json_stop c) r"
      using assms t by (intro dropWhile_append2) (simp add: atom_def)
    then show ?thesis using that by (cases r) auto
  qed
  have "transparent t" using assms by (intro transparent_plain) (simp add: atom_def)
  then show ?thesis
    using assms t stop by (auto simp: json_text_def atom_def skip_value_def skip_ws_def json_stop_def)
qed

lemma atom_dec: "atom (dec n)"
  using dec_digits [of n] by (fastforce simp: atom_def json_stop_def json_ws_def)

lemma json_text_int: "json_text (dec_int i)"
proof (rule json_text_atom)
  show "atom (dec_int i)"
    using atom_dec by (auto simp: dec_int_def atom_def json_stop_def json_ws_def)
qed

lemma json_text_bracket:
  assumes "transparent body" "a = 123 \<and> b = 125 \<or> a = 91 \<and> b = 93"
  shows "json_text ([a] @ body @ [b])"
proof -
  have inner: "skip_nested close d ([a] @ body @ [b] @ r) = (if d = 0 then if b = close then Some r else None else skip_nested close d r)"
    for close d r
  proof -
    have "skip_nested close d ([a] @ body @ [b] @ r) = skip_nested close (d + 1) (body @ b # r)"
      using assms(2) by (auto simp: skip_nested.simps [of _ _ "_ # _"])
    also have "\<dots> = skip_nested close (d + 1) (b # r)" using assms(1) by (intro transparentD) simp_all
    also have "\<dots> = (if d = 0 then if b = close then Some r else None else skip_nested close d r)"
      using assms(2) by (subst skip_nested.simps) auto
    finally show ?thesis .
  qed
  have "skip_value (([a] @ body @ [b]) @ r) = Some r" for r
    using assms(2) inner [of b 0 r] by (auto simp: skip_value_def skip_ws_def json_ws_def)
  moreover have "transparent ([a] @ body @ [b])" using inner by (simp add: transparent_def)
  ultimately show ?thesis using assms(2) by (auto simp: json_text_def json_ws_def)
qed

lemma json_text_transparent: "json_text t \<Longrightarrow> transparent t"
  by (simp add: json_text_def)

section \<open>Strings\<close>

lemma parse_hex4: "c < 32 \<Longrightarrow> parse_hex u32_max (hex4 c) = Some c"
proof -
  assume "c < 32"
  then have "c \<in> set [0..<32]" by simp
  moreover have "\<forall>c \<in> set [0..<32]. parse_hex u32_max (hex4 c) = Some c"
    by (simp add: upt_rec parse_hex_def hex4_def hex_char_def lit_def json_hex_digit_def hex_value_def)
  ultimately show ?thesis by blast
qed

lemma unescape_char: "unescape (quote_char c @ t) = cons_char c (unescape t)"
proof (cases "c < 32 \<and> c \<notin> {10, 13, 9, 8, 12}")
  case True
  then show ?thesis
    using parse_hex4 [of c] by (simp add: quote_char_def) (simp add: hex4_def valid_char_def)
next
  case False
  then show ?thesis by (auto simp: quote_char_def)
qed

lemma unescape_quoted: "unescape (concat (map quote_char s)) = Some s"
  by (induction s) (simp_all add: unescape_char cons_char_def)

lemma trim_fixed: "s \<noteq> [] \<Longrightarrow> \<not> is_whitespace (hd s) \<Longrightarrow> \<not> is_whitespace (last s) \<Longrightarrow> trim s = s"
proof -
  assume s: "s \<noteq> []" "\<not> is_whitespace (hd s)" "\<not> is_whitespace (last s)"
  have keep: "dropWhile is_whitespace t = t" if "t \<noteq> []" "\<not> is_whitespace (hd t)" for t
    using that by (cases t) simp_all
  have "dropWhile is_whitespace (rev s) = rev s" by (rule keep) (simp_all add: s hd_rev)
  then show ?thesis by (simp add: trim_def keep s)
qed

lemma trim_end: "is_whitespace c \<Longrightarrow> trim (s @ [c]) = trim s"
proof -
  assume c: "is_whitespace c"
  have "dropWhile is_whitespace (s @ [c]) = (if dropWhile is_whitespace s = [] then [] else dropWhile is_whitespace s @ [c])"
    using c by (auto simp: dropWhile_append)
  then have "dropWhile is_whitespace (rev (dropWhile is_whitespace (s @ [c]))) = dropWhile is_whitespace (rev (dropWhile is_whitespace s))"
    using c by (cases "dropWhile is_whitespace s = []") (simp_all del: dropWhile_eq_Nil_conv)
  then show ?thesis by (simp add: trim_def)
qed

lemma trim_start: "is_whitespace c \<Longrightarrow> trim (c # s) = trim s"
  by (simp add: trim_def)

lemma unquote_quote [simp]: "unquote (quote s) = Some s"
proof -
  have "trim (quote s) = quote s" by (rule trim_fixed) (simp_all add: quote_def is_whitespace_def)
  then show ?thesis by (simp add: unquote_def strip_ends_def) (simp add: quote_def butlast_append unescape_quoted)
qed

section \<open>Objects\<close>

definition json_value :: "json \<Rightarrow> bool" where
  "json_value v \<longleftrightarrow> json_text (render_json v)"

lemma slice_append [simp]: "slice (s @ r) r = s"
  by (simp add: slice_def)

lemma json_text_value:
  "json_text t \<Longrightarrow> r \<noteq> [] \<Longrightarrow> json_stop (hd r) \<Longrightarrow> skip_value (t @ r) = Some r"
  "json_text t \<Longrightarrow> skip_ws (t @ r) = t @ r"
  by (cases t; auto simp: json_text_def skip_ws_def)+

lemma field_pair:
  assumes "json_value v" "r \<noteq> []" "json_stop (hd r)"
  shows "field_loop key (json_pair (name, v) @ r) =
    (if name = key then Some (render_json v)
     else case skip_ws r of [] \<Rightarrow> None | c # u \<Rightarrow> if c = 44 then field_loop key u else None)"
proof -
  have p: "json_pair (name, v) @ r = quote name @ [58] @ render_json v @ r" by (simp add: json_pair_def)
  have s: "skip_ws (json_pair (name, v) @ r) = json_pair (name, v) @ r"
    unfolding p by (rule json_text_value) (rule json_text_quote)
  have q: "skip_value (quote name @ [58] @ render_json v @ r) = Some ([58] @ render_json v @ r)"
    using skip_string_quoted by (simp add: skip_value_def quote_def skip_ws_def json_ws_def)
  obtain t where t: "json_pair (name, v) @ r = 34 # t" by (simp add: json_pair_def quote_def)
  have q': "skip_value (34 # t) = Some ([58] @ render_json v @ r)" "slice (34 # t) ([58] @ render_json v @ r) = quote name"
    using q t p slice_append [of "quote name" "[58] @ render_json v @ r"] by simp_all
  have "skip_ws (58 # render_json v @ r) = 58 # render_json v @ r" by (simp add: skip_ws_def json_ws_def)
  then show ?thesis
    unfolding field_loop.simps [of key "json_pair (name, v) @ r"] s unfolding t
    using q' json_text_value [OF assms(1) [unfolded json_value_def]] assms(2,3) by (simp add: Let_def)
qed

lemma field_pairs:
  assumes "\<forall>(name, v) \<in> set ps. json_value v"
  shows "field_loop key (join_with 44 (map json_pair ps) @ 125 # r) = map_option render_json (map_of ps key)"
  using assms
proof (induction ps)
  case Nil
  then show ?case by (simp add: field_loop.simps skip_ws_def json_ws_def)
next
  case (Cons p ps)
  obtain name v where p: "p = (name, v)" by fastforce
  have stops: "json_stop 44" "json_stop 125" by (simp_all add: json_stop_def)
  have v: "json_value v" using Cons.prems p by simp
  show ?case
  proof (cases "ps = []")
    case True
    then show ?thesis
      using field_pair [OF v, of "125 # r" key name] stops by (simp add: p skip_ws_def json_ws_def)
  next
    case False
    then have "join_with 44 (map json_pair (p # ps)) @ 125 # r = json_pair (name, v) @ 44 # join_with 44 (map json_pair ps) @ 125 # r"
      by (simp add: p)
    then show ?thesis
      using field_pair [OF v, of "44 # join_with 44 (map json_pair ps) @ 125 # r" key name] stops Cons
      by (simp add: p skip_ws_def json_ws_def)
  qed
qed

lemma field_object:
  assumes "\<forall>(name, v) \<in> set ps. json_value v"
  shows "json_field (json_object ps @ r) key = map_option render_json (map_of ps key)"
  using field_pairs [OF assms, of key r] by (simp add: json_field_def json_object_def skip_ws_def json_ws_def)

lemma json_text_object:
  assumes "\<forall>(name, v) \<in> set ps. json_value v"
  shows "json_text (json_object ps)"
  unfolding json_object_def
proof (rule json_text_bracket)
  have colon: "transparent [58]" by (rule transparent_plain) simp
  have "transparent (json_pair p)" if "p \<in> set ps" for p
  proof -
    obtain name v where p: "p = (name, v)" by fastforce
    with assms that have "json_text (render_json v)" by (auto simp: json_value_def)
    then have "transparent (quote name @ [58] @ render_json v)"
      by (intro transparent_append colon json_text_transparent json_text_quote)
    then show ?thesis by (simp add: p json_pair_def)
  qed
  then show "transparent (join_with 44 (map json_pair ps))" by (intro transparent_join) auto
qed simp

text \<open>Values as the readers see them.\<close>

lemma json_value_simps [simp]:
  "json_value (JStr s)" "json_value (JInt i)" "json_value (JUInt n)" "json_value (JBool b)" "json_value JNull"
  "json_value (JRaw t) \<longleftrightarrow> json_text t"
proof -
  have "atom (lit ''true'')" "atom (lit ''false'')" "atom (lit ''null'')"
    by (simp_all add: atom_def lit_def json_stop_def json_ws_def)
  then show "json_value (JBool b)" "json_value JNull"
    using json_text_atom by (auto simp: json_value_def)
qed (simp_all add: json_value_def json_text_quote json_text_int json_text_atom atom_dec)

lemma trim_dec [simp]: "trim (dec n) = dec n"
proof (rule trim_fixed)
  have "\<not> is_whitespace c" if "c \<in> set (dec n)" for c
    using dec_digits [of n] that by (force simp: is_whitespace_def)
  then show "\<not> is_whitespace (hd (dec n))" "\<not> is_whitespace (last (dec n))"
    using dec_digits [of n] by simp_all
qed (simp add: dec_digits)

end
