(* ===== verification/WatchdogStateLaws.thy ===== *)
theory WatchdogStateLaws
  imports WatchdogState WatchdogJsonLaws
begin

text \<open>
  The laws of the delays and of the records: the closed form of the backoff, and every record read
  back from its own JSON, whatever follows it in the file.
\<close>

section \<open>The delays\<close>

lemma restart_delay_loop_closed:
  assumes "1 \<le> bo_factor b" "bo_max_ms b \<le> u64_max"
  shows "restart_delay_loop b n delay = min (delay * bo_factor b ^ n) (bo_max_ms b)"
proof (induction n arbitrary: delay)
  case (Suc n)
  have grows: "delay * bo_factor b \<le> delay * bo_factor b ^ Suc n" using assms(1) by simp
  show ?case
  proof (cases "bo_max_ms b \<le> delay * bo_factor b")
    case True
    then have "min (delay * bo_factor b ^ Suc n) (bo_max_ms b) = bo_max_ms b"
      using grows by (intro min_absorb2) (rule order_trans)
    with True show ?thesis by simp
  next
    case False
    with Suc assms(2) show ?thesis by (simp add: mult.assoc)
  qed
qed simp

lemma restart_delay_new:
  assumes "most \<le> u64_max" "base \<le> u64_max"
  shows "restart_delay (backoff_new base factor most) n = min (base * max factor 1 ^ n) (max most base)"
  unfolding restart_delay_def using restart_delay_loop_closed [of "backoff_new base factor most" n base] assms
  by (simp add: backoff_new_def)

section \<open>Argument lists\<close>

lemma args_scan_quote: "args_scan (quote a @ r) = a # args_scan r"
proof -
  have "quote a @ r = 34 # concat (map quote_char a) @ 34 # r" by (simp add: quote_def)
  moreover have "slice (34 # concat (map quote_char a) @ 34 # r) r = quote a"
    using slice_append [of "quote a" r] by (simp add: quote_def)
  moreover have "unquote (34 # concat (map quote_char a) @ [34]) = Some a"
    using unquote_quote [of a] by (simp add: quote_def)
  ultimately show ?thesis by (simp add: args_scan.simps [of "_ # _"] skip_string_quoted quote_def)
qed

lemma args_scan_join: "args_scan (join_with 44 (map quote args)) = args"
proof (induction args)
  case (Cons a args)
  have "args_scan (44 # r) = args_scan r" for r by (simp add: args_scan.simps [of "_ # _"])
  with Cons show ?case
    using args_scan_quote [of a "[]"] by (cases "args = []") (simp_all add: args_scan_quote args_scan.simps [of "[]"])
qed (simp add: args_scan.simps)

lemma json_text_array: "json_text (json_array args)"
  unfolding json_array_def
proof (rule json_text_bracket)
  show "transparent (join_with 44 (map quote args))"
    using json_text_transparent [OF json_text_quote] by (intro transparent_join) auto
qed simp

lemma args_scan_array: "args_scan (case strip_ends 91 93 (trim (json_array args)) of Some inner \<Rightarrow> inner | None \<Rightarrow> []) = args"
proof -
  have "trim (json_array args) = json_array args"
    by (rule trim_fixed) (simp_all add: json_array_def is_whitespace_def)
  then show ?thesis by (simp add: strip_ends_def) (simp add: json_array_def butlast_append args_scan_join)
qed

section \<open>Fields of a written record\<close>

lemma trim_lit: "trim (lit ''true'') = lit ''true''" "trim (lit ''false'') = lit ''false''"
  by (simp_all add: trim_fixed lit_def is_whitespace_def)

lemma trim_dec_int [simp]: "trim (dec_int i) = dec_int i"
proof (cases "i < 0")
  case True
  have "dec (nat (- i)) \<noteq> []" "\<forall>c \<in> set (dec (nat (- i))). \<not> is_whitespace c"
    using dec_digits [of "nat (- i)"] by (auto simp: is_whitespace_def)
  then have "\<not> is_whitespace (last (dec (nat (- i))))" by simp
  with True show ?thesis
    using dec_digits [of "nat (- i)"] by (intro trim_fixed) (auto simp: dec_int_def is_whitespace_def)
qed (simp add: dec_int_def)

lemma parse_dec_int: "- 2147483648 \<le> i \<Longrightarrow> i \<le> 2147483647 \<Longrightarrow> parse_i32 (dec_int i) = Some i"
proof (cases "i < 0")
  case True
  assume "- 2147483648 \<le> i"
  with True have "parse_nat 2147483648 (dec (nat (- i))) = Some (nat (- i))" by (intro parse_dec) simp
  moreover have "hd (dec (nat (- i))) \<noteq> 43" using dec_digits [of "nat (- i)"] hd_in_set by fastforce
  ultimately show ?thesis using True by (simp add: parse_i32_def dec_int_def)
next
  case False
  assume "i \<le> 2147483647"
  with False have "parse_nat 2147483647 (dec (nat i)) = Some (nat i)" by (intro parse_dec) simp
  moreover obtain c r where d: "dec (nat i) = c # r" using dec_digits [of "nat i"] by (cases "dec (nat i)") auto
  moreover have "c \<noteq> 45" using dec_digits [of "nat i"] d by fastforce
  ultimately show ?thesis using False by (simp add: parse_i32_def dec_int_def)
qed

lemma unquote_plain: "unquote (lit ''null'') = None"
  by (simp add: unquote_def strip_ends_def lit_def trim_def is_whitespace_def)

lemma null_not_nat: "parse_nat most (trim (lit ''null'')) = None"
  by (simp add: parse_nat_def lit_def trim_def is_whitespace_def)

lemma null_not_i32: "parse_i32 (trim (lit ''null'')) = None"
  by (simp add: parse_i32_def parse_nat_def lit_def trim_def is_whitespace_def)

lemma field_null: "json_field (lit ''null'') key = None"
  by (simp add: json_field_def lit_def skip_ws_def json_ws_def)

lemma lit_inj [simp]: "lit s = lit t \<longleftrightarrow> s = t"
proof -
  have "inj (of_char :: char \<Rightarrow> nat)" by (rule injI) simp
  then show ?thesis unfolding lit_def by (rule inj_map_eq_map)
qed

lemma json_value_records [simp]:
  "json_value (json_opt_str s)" "json_text (json_array args)" "json_text (exit_to_json x)" "json_text (result_to_json r)"
  by (auto simp: json_opt_str_def exit_to_json_def result_to_json_def json_text_array intro!: json_text_object split: option.split)

lemmas reads_back = field_str_def field_bool_def field_u64_def field_object unwrap_or_def trim_lit
  parse_dec wrap32_id unquote_plain

section \<open>Records\<close>

lemma result_reads_back:
  "rs_at_ms r \<le> u64_max \<Longrightarrow> result_from_json (result_to_json r @ t) = Some r"
  "rs_at_ms r \<le> u64_max \<Longrightarrow> summary_from_json (result_to_json r @ t) = Some r"
  by (simp_all add: result_from_json_def summary_from_json_def result_to_json_def reads_back)

lemma active_reads_back: "active_from_json (active_to_json a @ t) = Some a"
  by (cases "ak_sha256 a") (simp_all add: active_from_json_def active_to_json_def args_from_json_def reads_back json_opt_str_def args_scan_array)

lemma request_reads_back: "sr_at_ms r \<le> u64_max \<Longrightarrow> request_from_json (request_to_json r @ t) = Some r"
  by (simp add: request_from_json_def request_to_json_def args_from_json_def reads_back args_scan_array)

definition exit_ok :: "last_exit \<Rightarrow> bool" where
  "exit_ok x \<longleftrightarrow> le_pid x \<le> u32_max \<and> le_uptime_ms x \<le> u64_max \<and> le_at_ms x \<le> u64_max \<and>
     (case le_code x of Some c \<Rightarrow> - 2147483648 \<le> c \<and> c \<le> 2147483647 | None \<Rightarrow> True)"

lemma exit_reads_back: "exit_ok x \<Longrightarrow> exit_from_json (exit_to_json x @ t) = Some x"
  by (cases "le_code x") (simp_all add: exit_ok_def exit_from_json_def exit_to_json_def reads_back parse_dec_int null_not_i32)

definition status_ok :: "status \<Rightarrow> bool" where
  "status_ok s \<longleftrightarrow> known_state (st_state s) = Some (st_state s) \<and> st_supervisor_pid s \<le> u32_max \<and>
     (case st_kernel_pid s of Some pid \<Rightarrow> pid \<le> u32_max | None \<Rightarrow> True) \<and> st_port s \<le> 65535 \<and>
     st_restarts s \<le> u64_max \<and> st_attempt s \<le> u32_max \<and> st_updated_ms s \<le> u64_max \<and>
     (case st_last_exit s of Some x \<Rightarrow> exit_ok x | None \<Rightarrow> True) \<and>
     (case st_last_swap s of Some r \<Rightarrow> rs_at_ms r \<le> u64_max | None \<Rightarrow> True)"

lemma status_reads_back:
  assumes "status_ok s"
  shows "status_from_json (status_to_json s @ t) = Some s"
proof -
  note ok = assms [unfolded status_ok_def]
  have f: "json_field (status_to_json s @ t) key = map_option render_json (map_of
    [(lit ''state'', JStr (st_state s)),
     (lit ''supervisor_pid'', JUInt (st_supervisor_pid s)),
     (lit ''supervisor_alive'', JBool (st_supervisor_alive s)),
     (lit ''kernel_pid'', case st_kernel_pid s of Some pid \<Rightarrow> JUInt pid | None \<Rightarrow> JNull),
     (lit ''kernel'', json_opt_str (st_kernel s)),
     (lit ''sha256'', json_opt_str (st_sha256 s)),
     (lit ''port'', JUInt (st_port s)),
     (lit ''restarts'', JUInt (st_restarts s)),
     (lit ''attempt'', JUInt (st_attempt s)),
     (lit ''updated_ms'', JUInt (st_updated_ms s)),
     (lit ''last_exit'', case st_last_exit s of Some x \<Rightarrow> JRaw (exit_to_json x) | None \<Rightarrow> JNull),
     (lit ''last_swap'', case st_last_swap s of Some x \<Rightarrow> JRaw (result_to_json x) | None \<Rightarrow> JNull)] key)" for key
    unfolding status_to_json_def by (rule field_object) (simp split: option.split)
  have opt: "(case map_option render_json (Some (json_opt_str v)) of None \<Rightarrow> None | Some v \<Rightarrow> unquote v) = v" for v
    by (cases v) (simp_all add: json_opt_str_def unquote_plain)
  have exit: "(case st_last_exit s of Some x \<Rightarrow> exit_ok x | None \<Rightarrow> True) \<Longrightarrow>
    exit_from_json (render_json (case st_last_exit s of Some x \<Rightarrow> JRaw (exit_to_json x) | None \<Rightarrow> JNull)) = st_last_exit s"
    using exit_reads_back [where t = "[]"]
    by (cases "st_last_exit s") (simp_all add: exit_from_json_def field_u64_def field_null)
  have swap: "(case st_last_swap s of Some r \<Rightarrow> rs_at_ms r \<le> u64_max | None \<Rightarrow> True) \<Longrightarrow>
    summary_from_json (render_json (case st_last_swap s of Some x \<Rightarrow> JRaw (result_to_json x) | None \<Rightarrow> JNull)) = st_last_swap s"
    using result_reads_back(2) [where t = "[]"]
    by (cases "st_last_swap s") (simp_all add: summary_from_json_def field_str_def field_null)
  have pid: "(case map_option render_json (Some (case st_kernel_pid s of Some pid \<Rightarrow> JUInt pid | None \<Rightarrow> JNull)) of
      None \<Rightarrow> None | Some v \<Rightarrow> parse_nat u64_max (trim v)) = st_kernel_pid s"
    using ok by (cases "st_kernel_pid s") (simp_all add: parse_dec null_not_nat)
  have small: "map_option wrap32 (st_kernel_pid s) = st_kernel_pid s"
    using ok by (cases "st_kernel_pid s") (simp_all add: wrap32_id)
  show ?thesis
    unfolding status_from_json_def field_str_def field_bool_def field_u64_def f
    using ok exit swap pid opt small by (simp add: reads_back option.map_comp status.equality)
qed

end
