(* ===== verification/WatchdogHealth.thy ===== *)
theory WatchdogHealth
  imports WatchdogJson
begin

text \<open>
  \<open>wa-watchdog/src/health.rs\<close>: one GET of \<open>/health\<close>, from the bytes that arrive to the verdict.  The
  socket is a list of reads.  Sums of indices wrap as \<open>usize\<close> does in a release build, and a slice whose
  end lies before its start panics: \<open>Panicked\<close> is the process that ends there.
\<close>

section \<open>What the standard library does\<close>

datatype 'a outcome = Panicked | Ran 'a

fun on_ran :: "'a outcome \<Rightarrow> ('a \<Rightarrow> 'b outcome) \<Rightarrow> 'b outcome" where
  "on_ran Panicked f = Panicked"
| "on_ran (Ran a) f = f a"

text \<open>\<open>&raw[a..b]\<close>\<close>

definition byte_range :: "bytes \<Rightarrow> nat \<Rightarrow> nat \<Rightarrow> bytes outcome" where
  "byte_range raw a b = (if a \<le> b \<and> b \<le> length raw then Ran (take (b - a) (drop a raw)) else Panicked)"

text \<open>\<open>String::from\_utf8\_lossy\<close>: how many bytes one replacement character stands for, when no character
  can be read.\<close>

definition bad_len :: "bytes \<Rightarrow> nat" where
  "bad_len bs = (case bs of
     b # c # r \<Rightarrow>
       let v = unat b; w = unat c;
           second = (if v = 224 then 160 \<le> w \<and> w \<le> 191 else if v = 237 then 128 \<le> w \<and> w \<le> 159
                     else if v = 240 then 144 \<le> w \<and> w \<le> 191 else if v = 244 then 128 \<le> w \<and> w \<le> 143
                     else 224 \<le> v \<and> v \<le> 244 \<and> 128 \<le> w \<and> w \<le> 191) in
       if \<not> second then 1
       else if v \<ge> 240 \<and> (case r of d # _ \<Rightarrow> 128 \<le> unat d \<and> unat d \<le> 191 | [] \<Rightarrow> False) then 3
       else 2
   | _ \<Rightarrow> 1)"

function utf8_lossy :: "bytes \<Rightarrow> str" where
  "utf8_lossy bs = (if bs = [] then []
     else case utf8_next bs of
         Some (c, rest) \<Rightarrow> c # utf8_lossy rest
       | None \<Rightarrow> 65533 # utf8_lossy (drop (bad_len bs) bs))"
  by pat_completeness auto
termination
  by (relation "measure length")
    (auto dest: utf8_next_shorter simp: bad_len_def Let_def split: list.split)

declare utf8_lossy.simps [simp del]

text \<open>\<open>str::lines\<close>: a line ends with a line feed, with or without a carriage return before it.\<close>

definition strip_cr :: "str \<Rightarrow> str" where
  "strip_cr s = (if s \<noteq> [] \<and> last s = 13 then butlast s else s)"

definition lines :: "str \<Rightarrow> str list" where
  "lines s = (let ps = split_on 10 s in map strip_cr (butlast ps) @ (if last ps = [] then [] else [last ps]))"

text \<open>\<open>split\_whitespace\<close>, \<open>split\_once\<close>, \<open>to\_ascii\_lowercase\<close>\<close>

definition split_ws :: "str \<Rightarrow> str list" where
  "split_ws s = filter (\<lambda>w. w \<noteq> []) (split_on 32 (map (\<lambda>c. if is_whitespace c then 32 else c) s))"

definition split_once :: "rchar \<Rightarrow> str \<Rightarrow> (str \<times> str) option" where
  "split_once c s = (if c \<in> set s then Some (takeWhile (\<lambda>x. x \<noteq> c) s, tl (dropWhile (\<lambda>x. x \<noteq> c) s)) else None)"

definition lower :: "str \<Rightarrow> str" where
  "lower s = map (\<lambda>c. if 65 \<le> c \<and> c \<le> 90 then c + 32 else c) s"

text \<open>\<open>windows(n).position(|w| w == pat)\<close>\<close>

fun position :: "bytes \<Rightarrow> bytes \<Rightarrow> nat option" where
  "position pat [] = None"
| "position pat (b # bs) = (if length pat \<le> length (b # bs) \<and> take (length pat) (b # bs) = pat then Some 0
     else map_option Suc (position pat bs))"

section \<open>The probe\<close>

definition MAX_BODY :: nat where "MAX_BODY = 1024 * 1024"

record probe =
  pb_answered :: bool
  pb_status :: nat
  pb_body :: str
  pb_ok :: "bool option"
  pb_state :: "str option"
  pb_detail :: "str option"

definition probe_silent :: "str \<Rightarrow> probe" where
  "probe_silent detail = \<lparr>pb_answered = False, pb_status = 0, pb_body = [], pb_ok = None, pb_state = None, pb_detail = Some detail\<rparr>"

definition answers :: "probe \<Rightarrow> bool" where
  "answers p \<longleftrightarrow> pb_answered p \<and> pb_status p = 200"

definition probe_ready :: "probe \<Rightarrow> bool" where
  "probe_ready p \<longleftrightarrow> answers p \<and> pb_ok p = Some True"

definition why_not :: "probe \<Rightarrow> str" where
  "why_not p = (case pb_detail p of
     Some detail \<Rightarrow> detail
   | None \<Rightarrow>
       if \<not> pb_answered p then lit ''no answer''
       else if pb_status p \<noteq> 200 then lit ''status '' @ dec (pb_status p)
       else case pb_ok p of
           Some True \<Rightarrow> lit ''ready''
         | Some False \<Rightarrow> lit ''ok:false (state '' @ (case pb_state p of Some s \<Rightarrow> s | None \<Rightarrow> lit ''unknown'') @ lit '')''
         | None \<Rightarrow> lit ''no top-level '' @ [34] @ lit ''ok'' @ [34] @ lit '' in /health'')"

section \<open>Reading a response\<close>

definition header_bounds :: "bytes \<Rightarrow> (nat \<times> nat) option" where
  "header_bounds raw = (case position [13, 10, 13, 10] raw of
     Some i \<Rightarrow> Some (i, i + 4)
   | None \<Rightarrow> map_option (\<lambda>i. (i, i + 2)) (position [10, 10] raw))"

fun header_in :: "str \<Rightarrow> str list \<Rightarrow> str option" where
  "header_in name [] = None"
| "header_in name (l # ls) = (case split_once 58 l of
     None \<Rightarrow> None
   | Some (key, v) \<Rightarrow> if lower (trim key) = lower name then Some (trim v) else header_in name ls)"

definition header_value :: "str \<Rightarrow> str \<Rightarrow> str option" where
  "header_value headers name = header_in name (drop 1 (lines headers))"

definition complete_body :: "bytes \<Rightarrow> bytes option outcome" where
  "complete_body raw = (case header_bounds raw of
     None \<Rightarrow> Ran None
   | Some (header_end, body_start) \<Rightarrow>
       (case header_value (utf8_lossy (take header_end raw)) (lit ''content-length'') of
          None \<Rightarrow> Ran None
        | Some v \<Rightarrow> (case parse_nat u64_max v of
            None \<Rightarrow> Ran None
          | Some n \<Rightarrow>
              if length raw \<ge> wrap64 (body_start + n)
              then on_ran (byte_range raw body_start (wrap64 (body_start + n))) (\<lambda>body. Ran (Some body))
              else Ran None)))"

function decode_chunks :: "bytes \<Rightarrow> nat \<Rightarrow> bytes \<Rightarrow> bytes outcome" where
  "decode_chunks raw index out = (case position [13, 10] (drop index raw) of
     None \<Rightarrow> Ran out
   | Some offset \<Rightarrow>
       let size_text = trim (hd (split_on 59 (utf8_lossy (take offset (drop index raw))))) in
       (case parse_hex u64_max size_text of
          None \<Rightarrow> Ran out
        | Some n \<Rightarrow>
            let i = index + offset + 2 in
            if n = 0 then Ran out
            else let stop = min (wrap64 (i + n)) (length raw) in
              (case byte_range raw i stop of
                 Panicked \<Rightarrow> Panicked
               | Ran chunk \<Rightarrow>
                   let out = out @ chunk;
                       rest = drop stop raw;
                       crlf = (take 2 rest = [13, 10]);
                       bare = (take 1 rest = [10]) in
                   if \<not> crlf \<and> \<not> bare then Ran out
                   else let next_at = stop + (if crlf then 2 else 1) in
                     if next_at \<ge> length raw then Ran out
                     else decode_chunks raw next_at out)))"
  by pat_completeness auto
termination
  by (relation "measure (\<lambda>(raw, index, out). length raw - index)")
    (auto simp: byte_range_def Let_def split: if_splits)

declare decode_chunks.simps [simp del]

definition decode_chunked :: "bytes \<Rightarrow> bytes outcome" where
  "decode_chunked raw = decode_chunks raw 0 []"

definition parse_status :: "str \<Rightarrow> nat option" where
  "parse_status headers = (case lines headers of
     [] \<Rightarrow> None
   | l # _ \<Rightarrow> (case split_ws l of _ # code # _ \<Rightarrow> parse_nat 65535 code | _ \<Rightarrow> None))"

definition is_chunked :: "str \<Rightarrow> bool" where
  "is_chunked headers = (case header_value headers (lit ''transfer-encoding'') of
     Some v \<Rightarrow> sublist (lit ''chunked'') (lower v)
   | None \<Rightarrow> False)"

definition parse_response :: "bytes \<Rightarrow> probe outcome" where
  "parse_response raw = (case header_bounds raw of
     None \<Rightarrow> Ran (probe_silent (lit ''no header terminator''))
   | Some (header_end, body_start) \<Rightarrow>
       let headers = utf8_lossy (take header_end raw) in
       (case parse_status headers of
          None \<Rightarrow> Ran (probe_silent (lit ''no status line''))
        | Some code \<Rightarrow>
            on_ran (if is_chunked headers then decode_chunked (drop body_start raw) else Ran (drop body_start raw)) (\<lambda>body.
            let body = utf8_lossy body in
            Ran \<lparr>pb_answered = True, pb_status = code, pb_body = body, pb_ok = field_bool body (lit ''ok''),
                 pb_state = field_str body (lit ''state''), pb_detail = None\<rparr>)))"

section \<open>The socket\<close>

datatype sock_read = ReadBytes bytes | ReadInterrupted | ReadFailed str

text \<open>An OS error on one line, cut to 120 characters.\<close>

definition short_error :: "str \<Rightarrow> str" where
  "short_error e = take 120 (map (\<lambda>c. if c = 13 \<or> c = 10 then 32 else c) e)"

text \<open>The read loop: what was received, or why nothing was.  A stream that has no more reads is at its end.\<close>

fun read_response :: "bytes \<Rightarrow> sock_read list \<Rightarrow> (str + bytes) outcome" where
  "read_response raw [] = Ran (Inr raw)"
| "read_response raw (ReadInterrupted # rs) = read_response raw rs"
| "read_response raw (ReadFailed e # rs) =
     Ran (if raw = [] then Inl (lit ''read: '' @ short_error e) else Inr raw)"
| "read_response raw (ReadBytes bs # rs) =
     (if bs = [] then Ran (Inr raw)
      else let raw = raw @ bs in
        if length raw > MAX_BODY + 8192 then Ran (Inr raw)
        else on_ran (complete_body raw) (\<lambda>body. if body \<noteq> None then Ran (Inr raw) else read_response raw rs))"

definition probe_socket :: "str + unit \<Rightarrow> str + unit \<Rightarrow> sock_read list \<Rightarrow> probe outcome" where
  "probe_socket connected written reads = (case connected of
     Inl e \<Rightarrow> Ran (probe_silent (lit ''connect: '' @ short_error e))
   | Inr _ \<Rightarrow> (case written of
       Inl e \<Rightarrow> Ran (probe_silent (lit ''write: '' @ short_error e))
     | Inr _ \<Rightarrow> on_ran (read_response [] reads) (\<lambda>r. case r of
         Inl detail \<Rightarrow> Ran (probe_silent detail)
       | Inr raw \<Rightarrow> parse_response raw)))"

end
