(* ===== verification/WatchdogConfig.thy ===== *)
theory WatchdogConfig
  imports WatchdogHealth
begin

text \<open>
  \<open>wa-watchdog/src/config.rs\<close>: the \<open>key = value\<close> file, read and written, and the placeholders of an
  argument list.  A path is its text.
\<close>

section \<open>The configuration\<close>

record watch_config =
  wc_kernel :: "str option"
  wc_kernel_args :: "str list"
  wc_port :: nat
  wc_client_port :: nat
  wc_runtime_home :: "str option"
  wc_db :: "str option"
  wc_work_dir :: "str option"
  wc_start_timeout_ms :: nat
  wc_tick_ms :: nat
  wc_backoff_base_ms :: nat
  wc_backoff_factor :: nat
  wc_backoff_max_ms :: nat
  wc_swap_health_window_ms :: nat
  wc_swap_wait_ms :: nat
  wc_stability_ms :: nat
  wc_rollback_on_early_crash :: bool
  wc_health_miss_limit :: nat
  wc_spare_port :: nat
  wc_env :: "(str \<times> str) list"

definition config_default :: watch_config where
  "config_default = \<lparr>wc_kernel = None,
     wc_kernel_args = [lit ''serve'', lit ''--port'', lit ''{port}'', lit ''--client-port'', lit ''{client_port}''],
     wc_port = 8799, wc_client_port = 8800, wc_runtime_home = None, wc_db = None, wc_work_dir = None,
     wc_start_timeout_ms = 90000, wc_tick_ms = 200, wc_backoff_base_ms = 500, wc_backoff_factor = 2,
     wc_backoff_max_ms = 60000, wc_swap_health_window_ms = 30000, wc_swap_wait_ms = 180000, wc_stability_ms = 60000,
     wc_rollback_on_early_crash = True, wc_health_miss_limit = 0, wc_spare_port = 0, wc_env = []\<rparr>"

section \<open>Reading\<close>

text \<open>The refusals, with the number of the line.\<close>

datatype config_error = NoAssignment nat str | SetTwice nat str | NotANumber nat str str | NotABool nat str
  | EnvWithoutValue nat str | UnknownKey nat str | UnbalancedQuote | NotAPort str nat | TickZero | FactorZero | PortZero

text \<open>The loop of \<open>split\_args\<close>: finished arguments, the current one, and the two flags.\<close>

fun split_args_loop :: "str \<Rightarrow> str list \<Rightarrow> str \<Rightarrow> bool \<Rightarrow> bool \<Rightarrow> config_error + str list" where
  "split_args_loop [] out current quoted started =
     (if quoted then Inl UnbalancedQuote else Inr (if started then out @ [current] else out))"
| "split_args_loop (c # s) out current quoted started =
     (if c = 34 then split_args_loop s out current (\<not> quoted) True
      else if is_whitespace c \<and> \<not> quoted then
        (if started then split_args_loop s (out @ [current]) [] quoted False
         else split_args_loop s out current quoted started)
      else split_args_loop s out (current @ [c]) quoted True)"

definition split_args :: "str \<Rightarrow> config_error + str list" where
  "split_args s = split_args_loop s [] [] False False"

definition port_of :: "str \<Rightarrow> nat \<Rightarrow> config_error + nat" where
  "port_of key v = (if v > 65535 then Inl (NotAPort key v) else Inr v)"

definition number_of :: "nat \<Rightarrow> str \<Rightarrow> str \<Rightarrow> config_error + nat" where
  "number_of n key v = (case parse_nat u64_max v of Some x \<Rightarrow> Inr x | None \<Rightarrow> Inl (NotANumber n key v))"

definition text_of :: "str \<Rightarrow> str" where
  "text_of v = (case strip_ends 34 34 (trim v) of Some inner \<Rightarrow> inner | None \<Rightarrow> trim v)"

definition bool_of :: "nat \<Rightarrow> str \<Rightarrow> config_error + bool" where
  "bool_of n v =
    (if v \<in> {lit ''1'', lit ''true'', lit ''yes''} then Inr True
     else if v \<in> {lit ''0'', lit ''false'', lit ''no''} then Inr False
     else Inl (NotABool n v))"

definition env_of :: "nat \<Rightarrow> str \<Rightarrow> config_error + (str \<times> str)" where
  "env_of n v = (case split_once 61 (text_of v) of
     None \<Rightarrow> Inl (EnvWithoutValue n (text_of v))
   | Some (name, v) \<Rightarrow> Inr (trim name, v))"

definition set_number :: "nat \<Rightarrow> str \<Rightarrow> str \<Rightarrow> (nat \<Rightarrow> watch_config) \<Rightarrow> config_error + watch_config" where
  "set_number n key v f = res_bind (number_of n key v) (\<lambda>x. Inr (f x))"

definition set_port :: "nat \<Rightarrow> str \<Rightarrow> str \<Rightarrow> (nat \<Rightarrow> watch_config) \<Rightarrow> config_error + watch_config" where
  "set_port n key v f = res_bind (number_of n key v) (\<lambda>x. res_bind (port_of key x) (\<lambda>x. Inr (f x)))"

text \<open>The \<open>match\<close> over the keys.\<close>

definition set_key :: "nat \<Rightarrow> str \<Rightarrow> str \<Rightarrow> watch_config \<Rightarrow> config_error + watch_config" where
  "set_key n key v c =
    (if key = lit ''kernel'' then Inr (c\<lparr>wc_kernel := Some (text_of v)\<rparr>)
     else if key = lit ''kernel_args'' then res_bind (split_args v) (\<lambda>args. Inr (c\<lparr>wc_kernel_args := args\<rparr>))
     else if key = lit ''port'' then set_port n key v (\<lambda>x. c\<lparr>wc_port := x\<rparr>)
     else if key = lit ''client_port'' then set_port n key v (\<lambda>x. c\<lparr>wc_client_port := x\<rparr>)
     else if key = lit ''spare_port'' then set_port n key v (\<lambda>x. c\<lparr>wc_spare_port := x\<rparr>)
     else if key = lit ''runtime_home'' then Inr (c\<lparr>wc_runtime_home := Some (text_of v)\<rparr>)
     else if key = lit ''db'' then Inr (c\<lparr>wc_db := Some (text_of v)\<rparr>)
     else if key = lit ''work_dir'' then Inr (c\<lparr>wc_work_dir := Some (text_of v)\<rparr>)
     else if key = lit ''start_timeout_ms'' then set_number n key v (\<lambda>x. c\<lparr>wc_start_timeout_ms := x\<rparr>)
     else if key = lit ''tick_ms'' then set_number n key v (\<lambda>x. c\<lparr>wc_tick_ms := x\<rparr>)
     else if key = lit ''backoff_base_ms'' then set_number n key v (\<lambda>x. c\<lparr>wc_backoff_base_ms := x\<rparr>)
     else if key = lit ''backoff_factor'' then set_number n key v (\<lambda>x. c\<lparr>wc_backoff_factor := wrap32 x\<rparr>)
     else if key = lit ''backoff_max_ms'' then set_number n key v (\<lambda>x. c\<lparr>wc_backoff_max_ms := x\<rparr>)
     else if key = lit ''swap_health_window_ms'' then set_number n key v (\<lambda>x. c\<lparr>wc_swap_health_window_ms := x\<rparr>)
     else if key = lit ''swap_wait_ms'' then set_number n key v (\<lambda>x. c\<lparr>wc_swap_wait_ms := x\<rparr>)
     else if key = lit ''stability_ms'' then set_number n key v (\<lambda>x. c\<lparr>wc_stability_ms := x\<rparr>)
     else if key = lit ''rollback_on_early_crash'' then
       res_bind (bool_of n v) (\<lambda>b. Inr (c\<lparr>wc_rollback_on_early_crash := b\<rparr>))
     else if key = lit ''health_miss_limit'' then set_number n key v (\<lambda>x. c\<lparr>wc_health_miss_limit := wrap32 x\<rparr>)
     else if key = lit ''env'' then res_bind (env_of n v) (\<lambda>e. Inr (c\<lparr>wc_env := wc_env c @ [e]\<rparr>))
     else Inl (UnknownKey n key))"

definition is_comment :: "str \<Rightarrow> bool" where
  "is_comment line \<longleftrightarrow> line = [] \<or> hd line = 35 \<or> hd line = 59"

text \<open>One turn of the loop, on the line's number, the keys seen and the configuration so far.\<close>

definition parse_line :: "nat \<Rightarrow> str \<Rightarrow> str list \<times> watch_config \<Rightarrow> config_error + (str list \<times> watch_config)" where
  "parse_line n raw = (\<lambda>(seen, c).
    let line = trim raw in
    if is_comment line then Inr (seen, c)
    else case split_once 61 line of
        None \<Rightarrow> Inl (NoAssignment n line)
      | Some (key, v) \<Rightarrow>
          let key = trim key; v = trim v in
          if key \<noteq> lit ''env'' \<and> key \<in> set seen then Inl (SetTwice n key)
          else res_bind (set_key n key v c) (\<lambda>c. Inr (if key \<noteq> lit ''env'' then seen @ [key] else seen, c)))"

fun parse_lines :: "nat \<Rightarrow> str list \<Rightarrow> str list \<times> watch_config \<Rightarrow> config_error + (str list \<times> watch_config)" where
  "parse_lines n [] s = Inr s"
| "parse_lines n (l # ls) s = res_bind (parse_line n l s) (parse_lines (Suc n) ls)"

definition config_check :: "watch_config \<Rightarrow> config_error + watch_config" where
  "config_check c =
    (if wc_tick_ms c = 0 then Inl TickZero
     else if wc_backoff_factor c < 1 then Inl FactorZero
     else if wc_port c = 0 \<or> wc_client_port c = 0 then Inl PortZero
     else Inr c)"

definition config_parse :: "str \<Rightarrow> config_error + watch_config" where
  "config_parse s = res_bind (parse_lines 1 (lines s) ([], config_default)) (\<lambda>(seen, c). config_check c)"

section \<open>Writing\<close>

definition config_line :: "string \<Rightarrow> str \<Rightarrow> str" where
  "config_line key v = lit key @ [32, 61, 32] @ v @ [10]"

definition opt_line :: "string \<Rightarrow> str option \<Rightarrow> str" where
  "opt_line key v = (case v of Some v \<Rightarrow> config_line key v | None \<Rightarrow> [])"

definition write_arg :: "str \<Rightarrow> str" where
  "write_arg a = (if list_ex is_whitespace a then [34] @ a @ [34] else a)"

definition config_header :: str where
  "config_header = lit ''# wa-watchdog configuration. Written by `wa-watchdog init`; edit by hand, restart to apply.'' @ [10]"

definition config_render :: "watch_config \<Rightarrow> str" where
  "config_render c = config_header
     @ opt_line ''kernel'' (wc_kernel c)
     @ config_line ''kernel_args'' (join_with 32 (map write_arg (wc_kernel_args c)))
     @ config_line ''port'' (dec (wc_port c))
     @ config_line ''client_port'' (dec (wc_client_port c))
     @ opt_line ''runtime_home'' (wc_runtime_home c)
     @ opt_line ''db'' (wc_db c)
     @ opt_line ''work_dir'' (wc_work_dir c)
     @ config_line ''start_timeout_ms'' (dec (wc_start_timeout_ms c))
     @ config_line ''tick_ms'' (dec (wc_tick_ms c))
     @ config_line ''backoff_base_ms'' (dec (wc_backoff_base_ms c))
     @ config_line ''backoff_factor'' (dec (wc_backoff_factor c))
     @ config_line ''backoff_max_ms'' (dec (wc_backoff_max_ms c))
     @ config_line ''swap_health_window_ms'' (dec (wc_swap_health_window_ms c))
     @ config_line ''swap_wait_ms'' (dec (wc_swap_wait_ms c))
     @ config_line ''stability_ms'' (dec (wc_stability_ms c))
     @ config_line ''rollback_on_early_crash'' (if wc_rollback_on_early_crash c then lit ''true'' else lit ''false'')
     @ config_line ''health_miss_limit'' (dec (wc_health_miss_limit c))
     @ config_line ''spare_port'' (dec (wc_spare_port c))
     @ concat (map (\<lambda>(name, v). config_line ''env'' (name @ [61] @ v)) (wc_env c))"

section \<open>Placeholders\<close>

record launch_view =
  lv_port :: nat
  lv_client_port :: nat
  lv_home :: "str option"
  lv_db :: "str option"

definition service_view :: "watch_config \<Rightarrow> launch_view" where
  "service_view c = \<lparr>lv_port = wc_port c, lv_client_port = wc_client_port c, lv_home = wc_runtime_home c, lv_db = wc_db c\<rparr>"

definition proof_view :: "str \<Rightarrow> nat \<Rightarrow> launch_view" where
  "proof_view scratch port = \<lparr>lv_port = port, lv_client_port = min (port + 1) 65535, lv_home = Some scratch,
     lv_db = Some (scratch @ lit ''/proof.db'')\<rparr>"

text \<open>\<open>str::replace\<close>\<close>

function replace :: "str \<Rightarrow> str \<Rightarrow> str \<Rightarrow> str" where
  "replace pat new s =
    (if s = [] \<or> pat = [] then s
     else if take (length pat) s = pat then new @ replace pat new (drop (length pat) s)
     else hd s # replace pat new (tl s))"
  by pat_completeness auto
termination
  by (relation "measure (\<lambda>(_, _, s). length s)") auto

declare replace.simps [simp del]

datatype resolve_error = HomeNotConfigured | DbNotConfigured

definition place_one :: "str \<Rightarrow> str \<Rightarrow> str \<Rightarrow> str" where
  "place_one pat new s = (if sublist pat s then replace pat new s else s)"

definition resolve_arg :: "watch_config \<Rightarrow> launch_view \<Rightarrow> str \<Rightarrow> resolve_error + str" where
  "resolve_arg c view arg =
    (let s = place_one (lit ''{port}'') (dec (lv_port view)) arg;
         s = place_one (lit ''{client_port}'') (dec (lv_client_port view)) s;
         s = place_one (lit ''{service_port}'') (dec (wc_port c)) s;
         s = place_one (lit ''{service_client_port}'') (dec (wc_client_port c)) s in
     res_bind (if sublist (lit ''{home}'') s then (case lv_home view of
         None \<Rightarrow> Inl HomeNotConfigured
       | Some home \<Rightarrow> Inr (replace (lit ''{home}'') home s)) else Inr s) (\<lambda>s.
     if sublist (lit ''{db}'') s then (case lv_db view of
         None \<Rightarrow> Inl DbNotConfigured
       | Some db \<Rightarrow> Inr (replace (lit ''{db}'') db s)) else Inr s))"

fun res_map :: "('a \<Rightarrow> 'e + 'b) \<Rightarrow> 'a list \<Rightarrow> 'e + 'b list" where
  "res_map f [] = Inr []"
| "res_map f (x # xs) = res_bind (f x) (\<lambda>y. res_bind (res_map f xs) (\<lambda>ys. Inr (y # ys)))"

definition resolve_args :: "watch_config \<Rightarrow> launch_view \<Rightarrow> str list \<Rightarrow> resolve_error + str list" where
  "resolve_args c view args = res_map (resolve_arg c view) args"

end
