(* ===== verification/WatchdogHash.thy ===== *)
theory WatchdogHash
  imports Text Bytes
begin

unbundle bit_operations_syntax

text \<open>
  \<open>wa-watchdog/src/hash.rs\<close>: the streaming SHA-256 the watchdog checks pins with, next to the
  standard's one-shot definition, and the proof that they agree for every way of cutting the input
  into pieces.
\<close>

section \<open>The compression function\<close>

type_synonym u32 = "32 word"

text \<open>The tables of the source, its hexadecimal constants in decimal.\<close>

definition SHA_K :: "u32 list" where
  "SHA_K =
    [1116352408, 1899447441, 3049323471, 3921009573, 961987163, 1508970993, 2453635748, 2870763221,
     3624381080, 310598401, 607225278, 1426881987, 1925078388, 2162078206, 2614888103, 3248222580,
     3835390401, 4022224774, 264347078, 604807628, 770255983, 1249150122, 1555081692, 1996064986,
     2554220882, 2821834349, 2952996808, 3210313671, 3336571891, 3584528711, 113926993, 338241895,
     666307205, 773529912, 1294757372, 1396182291, 1695183700, 1986661051, 2177026350, 2456956037,
     2730485921, 2820302411, 3259730800, 3345764771, 3516065817, 3600352804, 4094571909, 275423344,
     430227734, 506948616, 659060556, 883997877, 958139571, 1322822218, 1537002063, 1747873779,
     1955562222, 2024104815, 2227730452, 2361852424, 2428436474, 2756734187, 3204031479, 3329325298]"

definition SHA_H0 :: "u32 list" where
  "SHA_H0 = [1779033703, 3144134277, 1013904242, 2773480762, 1359893119, 2600822924, 528734635, 1541459225]"

text \<open>The message schedule: sixteen big-endian words, extended one by one to sixty-four.\<close>

definition block_word :: "bytes \<Rightarrow> nat \<Rightarrow> u32" where
  "block_word block i = of_nat (of_be (take 4 (drop (i * 4) block)))"

definition schedule_step :: "u32 list \<Rightarrow> u32 list" where
  "schedule_step w =
    (let i = length w;
         x = w ! (i - 15);
         y = w ! (i - 2);
         s0 = word_rotr 7 x XOR word_rotr 18 x XOR drop_bit 3 x;
         s1 = word_rotr 17 y XOR word_rotr 19 y XOR drop_bit 10 y in
     w @ [w ! (i - 16) + s0 + w ! (i - 7) + s1])"

definition schedule :: "bytes \<Rightarrow> u32 list" where
  "schedule block = (schedule_step ^^ 48) (map (block_word block) [0..<16])"

text \<open>One round on the working variables \<open>a\<close> to \<open>h\<close>.\<close>

type_synonym working = "u32 \<times> u32 \<times> u32 \<times> u32 \<times> u32 \<times> u32 \<times> u32 \<times> u32"

definition sha_round :: "u32 \<Rightarrow> u32 \<Rightarrow> working \<Rightarrow> working" where
  "sha_round k w = (\<lambda>(a, b, c, d, e, f, g, h).
     let s1 = word_rotr 6 e XOR word_rotr 11 e XOR word_rotr 25 e;
         ch = (e AND f) XOR (NOT e AND g);
         t1 = h + s1 + ch + k + w;
         s0 = word_rotr 2 a XOR word_rotr 13 a XOR word_rotr 22 a;
         maj = (a AND b) XOR (a AND c) XOR (b AND c);
         t2 = s0 + maj in
     (t1 + t2, a, b, c, d + t1, e, f, g))"

fun sha_rounds :: "u32 list \<Rightarrow> u32 list \<Rightarrow> working \<Rightarrow> working" where
  "sha_rounds (k # ks) (w # ws) v = sha_rounds ks ws (sha_round k w v)"
| "sha_rounds _ _ v = v"

definition compress :: "bytes \<Rightarrow> u32 list \<Rightarrow> u32 list" where
  "compress block hs =
    (let (a, b, c, d, e, f, g, h) =
           sha_rounds SHA_K (schedule block) (hs ! 0, hs ! 1, hs ! 2, hs ! 3, hs ! 4, hs ! 5, hs ! 6, hs ! 7) in
     [hs ! 0 + a, hs ! 1 + b, hs ! 2 + c, hs ! 3 + d, hs ! 4 + e, hs ! 5 + f, hs ! 6 + g, hs ! 7 + h])"

section \<open>The hasher\<close>

record sha256 =
  sh_h :: "u32 list"
  sh_buf :: bytes
  sh_buf_len :: nat
  sh_len_bits :: nat

definition sha_new :: sha256 where
  "sha_new = \<lparr>sh_h = SHA_H0, sh_buf = replicate 64 0, sh_buf_len = 0, sh_len_bits = 0\<rparr>"

text \<open>\<open>buf[at..at + data.len()].copy\_from\_slice(data)\<close>\<close>

definition copy_slice :: "bytes \<Rightarrow> nat \<Rightarrow> bytes \<Rightarrow> bytes" where
  "copy_slice buf i data = take i buf @ data @ drop (i + length data) buf"

text \<open>The loop over whole blocks.\<close>

fun hash_blocks :: "u32 list \<Rightarrow> bytes \<Rightarrow> u32 list \<times> bytes" where
  "hash_blocks hs rest = (if length rest \<ge> 64 then hash_blocks (compress (take 64 rest) hs) (drop 64 rest) else (hs, rest))"

declare hash_blocks.simps [simp del]

definition sha_fill :: "bytes \<Rightarrow> sha256 \<Rightarrow> sha256 \<times> bytes" where
  "sha_fill rest s =
    (if sh_buf_len s > 0 then
       let n = min (64 - sh_buf_len s) (length rest);
           s = s\<lparr>sh_buf := copy_slice (sh_buf s) (sh_buf_len s) (take n rest), sh_buf_len := sh_buf_len s + n\<rparr>;
           s = (if sh_buf_len s = 64 then s\<lparr>sh_h := compress (sh_buf s) (sh_h s), sh_buf_len := 0\<rparr> else s) in
       (s, drop n rest)
     else (s, rest))"

definition sha_update :: "bytes \<Rightarrow> sha256 \<Rightarrow> sha256" where
  "sha_update data s =
    (let s = s\<lparr>sh_len_bits := wrap64 (sh_len_bits s + wrap64 (length data * 8))\<rparr>;
         (s, rest) = sha_fill data s;
         (hs, rest) = hash_blocks (sh_h s) rest;
         s = s\<lparr>sh_h := hs\<rparr> in
     if rest \<noteq> [] then s\<lparr>sh_buf := copy_slice (sh_buf s) 0 rest, sh_buf_len := length rest\<rparr> else s)"

definition sha_padding :: "nat \<Rightarrow> nat \<Rightarrow> bytes" where
  "sha_padding buf_len bits =
    (let after = (buf_len + 1) mod 64;
         zeros = (if after \<le> 56 then 56 - after else 120 - after) in
     0x80 # replicate zeros 0 @ be 8 bits)"

definition sha_digest :: "u32 list \<Rightarrow> bytes" where
  "sha_digest hs = concat (map (\<lambda>w. be 4 (unat w)) hs)"

definition sha_finish :: "sha256 \<Rightarrow> bytes" where
  "sha_finish s = sha_digest (sh_h (sha_update (sha_padding (sh_buf_len s) (sh_len_bits s)) s))"

definition sha256_of :: "bytes \<Rightarrow> bytes" where
  "sha256_of bs = sha_finish (sha_update bs sha_new)"

definition sha256_hex :: "bytes \<Rightarrow> str" where
  "sha256_hex bs = hex (sha256_of bs)"

text \<open>A file arrives as the reads of it, each of which may fail; an empty one is the end.\<close>

fun sha_reads :: "('e + bytes) list \<Rightarrow> sha256 \<Rightarrow> 'e + sha256" where
  "sha_reads [] s = Inr s"
| "sha_reads (Inl e # rs) s = Inl e"
| "sha_reads (Inr bs # rs) s = (if bs = [] then Inr s else sha_reads rs (sha_update bs s))"

definition sha256_file :: "('e + bytes) list \<Rightarrow> 'e + str" where
  "sha256_file rs = res_bind (sha_reads rs sha_new) (\<lambda>s. Inr (hex (sha_finish s)))"

section \<open>The standard\<close>

text \<open>The padded message cut into blocks and folded.\<close>

definition sha_spec :: "bytes \<Rightarrow> bytes" where
  "sha_spec m = sha_digest (fst (hash_blocks SHA_H0 (m @ sha_padding (length m mod 64) (wrap64 (length m * 8)))))"

text \<open>A hasher holds the state after the whole blocks of what it was given, and the rest in its buffer.\<close>

definition sha_holds :: "bytes \<Rightarrow> sha256 \<Rightarrow> bool" where
  "sha_holds m s \<longleftrightarrow> length (sh_buf s) = 64 \<and> sh_buf_len s < 64 \<and> sh_len_bits s = wrap64 (length m * 8) \<and>
     hash_blocks SHA_H0 m = (sh_h s, take (sh_buf_len s) (sh_buf s))"

section \<open>The hasher computes the standard\<close>

lemma hash_blocks_short [simp]: "length rest < 64 \<Longrightarrow> hash_blocks hs rest = (hs, rest)"
  by (simp add: hash_blocks.simps)

lemma hash_blocks_block: "length b = 64 \<Longrightarrow> hash_blocks hs (b @ r) = hash_blocks (compress b hs) r"
  by (simp add: hash_blocks.simps [of hs "b @ r"])

lemma hash_blocks_append: "hash_blocks hs (xs @ ys) = (case hash_blocks hs xs of (hs', rest) \<Rightarrow> hash_blocks hs' (rest @ ys))"
proof (induction hs xs rule: hash_blocks.induct)
  case (1 hs rest)
  show ?case
  proof (cases "length rest \<ge> 64")
    case True
    then show ?thesis using 1 by (simp add: hash_blocks.simps [of hs])
  qed simp
qed

lemma hash_blocks_rest: "hash_blocks hs xs = (hs', rest) \<Longrightarrow> length rest = length xs mod 64"
proof (induction hs xs arbitrary: hs' rest rule: hash_blocks.induct)
  case (1 hs xs)
  show ?case
  proof (cases "length xs \<ge> 64")
    case True
    then have "hash_blocks (compress (take 64 xs) hs) (drop 64 xs) = (hs', rest)"
      using 1(2) by (simp add: hash_blocks.simps [of hs xs])
    from 1(1) [OF True this] True show ?thesis by (simp add: le_mod_geq)
  next
    case False
    with 1(2) show ?thesis by auto
  qed
qed

lemma length_copy_slice: "i + length d \<le> length b \<Longrightarrow> length (copy_slice b i d) = length b"
  by (simp add: copy_slice_def)

lemma take_copy_slice: "i \<le> length b \<Longrightarrow> take (i + length d) (copy_slice b i d) = take i b @ d"
  by (simp add: copy_slice_def)

text \<open>Filling the buffer absorbs part of the input, or the buffer's block is hashed.\<close>

lemma sha_fill_result:
  assumes "length (sh_buf s) = 64" "sh_buf_len s < 64" "sha_fill d s = (s', rest)"
  shows "length (sh_buf s') = 64 \<and> sh_buf_len s' < 64 \<and> sh_len_bits s' = sh_len_bits s \<and>
    (rest = [] \<or> sh_buf_len s' = 0) \<and>
    hash_blocks (sh_h s) (take (sh_buf_len s) (sh_buf s) @ d) = hash_blocks (sh_h s') (take (sh_buf_len s') (sh_buf s') @ rest)"
proof (cases "sh_buf_len s > 0 \<and> 64 - sh_buf_len s \<le> length d")
  case True
  let ?n = "64 - sh_buf_len s"
  let ?b = "take (sh_buf_len s) (sh_buf s) @ take ?n d"
  have l: "length ?b = 64" using True assms by simp
  have b: "copy_slice (sh_buf s) (sh_buf_len s) (take ?n d) = ?b"
    using True assms by (simp add: copy_slice_def)
  have "hash_blocks (sh_h s) (take (sh_buf_len s) (sh_buf s) @ d) = hash_blocks (sh_h s) (?b @ drop ?n d)" by simp
  also have "\<dots> = hash_blocks (compress ?b (sh_h s)) (drop ?n d)"
    by (rule hash_blocks_block [OF l])
  finally have h: "hash_blocks (sh_h s) (take (sh_buf_len s) (sh_buf s) @ d) = hash_blocks (compress ?b (sh_h s)) (drop ?n d)" .
  have "min ?n (length d) = ?n" "sh_buf_len s + ?n = 64" using True assms(2) by simp_all
  then have "s' = s\<lparr>sh_buf := ?b, sh_h := compress ?b (sh_h s), sh_buf_len := 0\<rparr>" "rest = drop ?n d"
    using True assms(3) by (auto simp: sha_fill_def Let_def b)
  then show ?thesis using h l by simp
next
  case False
  then show ?thesis
    using assms length_copy_slice [of "sh_buf_len s" d "sh_buf s"] take_copy_slice [of "sh_buf_len s" "sh_buf s" d]
    by (auto simp: sha_fill_def Let_def min_def not_le split: if_splits)
qed

lemma wrap64_add_wrap: "wrap64 (wrap64 a + wrap64 b) = wrap64 (a + b)"
  by (simp add: wrap64_def mod_add_eq)

lemma sha_holds_update:
  assumes "sha_holds m s"
  shows "sha_holds (m @ d) (sha_update d s)"
proof -
  let ?s = "s\<lparr>sh_len_bits := wrap64 (sh_len_bits s + wrap64 (length d * 8))\<rparr>"
  obtain t rest where f: "sha_fill d ?s = (t, rest)" by fastforce
  obtain hs r where h: "hash_blocks (sh_h t) rest = (hs, r)" by fastforce
  have inv: "length (sh_buf s) = 64" "sh_buf_len s < 64" "sh_len_bits s = wrap64 (length m * 8)"
    "hash_blocks SHA_H0 m = (sh_h s, take (sh_buf_len s) (sh_buf s))"
    using assms by (simp_all add: sha_holds_def)
  have pre: "length (sh_buf ?s) = 64" "sh_buf_len ?s < 64" using inv(1,2) by simp_all
  have t: "length (sh_buf t) = 64" "sh_buf_len t < 64" "sh_len_bits t = sh_len_bits ?s" "rest = [] \<or> sh_buf_len t = 0"
    "hash_blocks (sh_h s) (take (sh_buf_len s) (sh_buf s) @ d) = hash_blocks (sh_h t) (take (sh_buf_len t) (sh_buf t) @ rest)"
    using sha_fill_result [OF pre f] by simp_all
  have bits: "sh_len_bits t = wrap64 (length (m @ d) * 8)"
    unfolding t(3) using wrap64_add_wrap [of "length m * 8" "length d * 8"] by (simp add: inv(3) add_mult_distrib)
  have whole: "hash_blocks SHA_H0 (m @ d) = hash_blocks (sh_h t) (take (sh_buf_len t) (sh_buf t) @ rest)"
    using hash_blocks_append [of SHA_H0 m d] inv(4) t(5) by simp
  have r: "length r < 64" using hash_blocks_rest [OF h] by simp
  show ?thesis
  proof (cases "r = []")
    case True
    have "hash_blocks (sh_h t) (take (sh_buf_len t) (sh_buf t) @ rest) = (hs, take (sh_buf_len t) (sh_buf t))"
    proof (cases "rest = []")
      case True
      with h t(1,2) show ?thesis by simp
    next
      case False
      with t(4) h \<open>r = []\<close> show ?thesis by simp
    qed
    then show ?thesis
      unfolding sha_update_def Let_def f prod.case h sha_holds_def using whole t(1,2) bits True by simp
  next
    case False
    then have n: "rest \<noteq> []" using h by auto
    then have "hash_blocks (sh_h t) (take (sh_buf_len t) (sh_buf t) @ rest) = (hs, r)" using t(4) h by simp
    then show ?thesis
      unfolding sha_update_def Let_def f prod.case h sha_holds_def
      using whole t(1,2) bits False r length_copy_slice [of 0 r "sh_buf t"] take_copy_slice [of 0 "sh_buf t" r] by simp
  qed
qed

lemma sha_holds_new: "sha_holds [] sha_new"
  by (simp add: sha_holds_def sha_new_def wrap64_def)

lemma sha_holds_fold: "sha_holds m s \<Longrightarrow> sha_holds (m @ concat cs) (fold sha_update cs s)"
proof (induction cs arbitrary: m s)
  case (Cons c cs)
  from Cons.IH [OF sha_holds_update [OF Cons.prems]] show ?case by simp
qed simp

lemma sha_finish_spec:
  assumes "sha_holds m s"
  shows "sha_finish s = sha_spec m"
proof -
  let ?p = "sha_padding (sh_buf_len s) (sh_len_bits s)"
  have len: "sh_buf_len s = length m mod 64"
    using assms hash_blocks_rest [of SHA_H0 m "sh_h s"] by (simp add: sha_holds_def)
  have "sh_h (sha_update ?p s) = fst (hash_blocks SHA_H0 (m @ ?p))"
    using sha_holds_update [OF assms, of ?p] by (simp add: sha_holds_def)
  then show ?thesis using assms by (simp add: sha_finish_def sha_spec_def len sha_holds_def)
qed

lemma sha_digest_length: "length (sha_digest hs) = 4 * length hs"
  by (induction hs) (simp_all add: sha_digest_def)

lemma length_compress [simp]: "length (compress b hs) = 8"
  by (simp add: compress_def split: prod.split)

lemma hash_blocks_length: "length hs = 8 \<Longrightarrow> length (fst (hash_blocks hs xs)) = 8"
proof (induction hs xs rule: hash_blocks.induct)
  case (1 hs xs)
  then show ?case by (cases "length xs \<ge> 64") (simp_all add: hash_blocks.simps [of hs xs])
qed

lemma sha_spec_length: "length (sha_spec m) = 32"
  by (simp add: sha_spec_def sha_digest_length hash_blocks_length SHA_H0_def)

text \<open>Padding ends on a block boundary, as the code asserts.\<close>

lemma sha_padding_aligned: "(length m + length (sha_padding (length m mod 64) bits)) mod 64 = 0"
proof -
  have "(length m + length (sha_padding (length m mod 64) bits)) mod 64
      = (length m mod 64 + length (sha_padding (length m mod 64) bits)) mod 64"
    by (simp add: mod_add_left_eq)
  moreover have "length m mod 64 < 64" by simp
  ultimately show ?thesis
    by (cases "length m mod 64 = 63") (auto simp: sha_padding_def Let_def mod_Suc)
qed

end
