(* ===== verification/WatchdogHome.thy ===== *)
theory WatchdogHome
  imports WatchdogStateLaws WatchdogConfig WatchdogHash Fallible BTree
begin

text \<open>
  \<open>wa-watchdog/src/paths.rs\<close>, and the world the supervisor lives in: the files under its home, the
  kernels it has started, and a script of what every call finds.

  A file name is relative to the home.  A call takes the next observation of the script, first lets
  other programs change files as the observation says, and then answers from it; so anything may happen
  between any two calls.  A script that has run out is the supervisor being killed: the program stops
  there, with whatever it had done.  \<open>sv\_trace\<close> keeps what the supervisor did to the outside, newest
  first.
\<close>

section \<open>The world\<close>

datatype content = Text str | Binary bytes

record observation =
  ob_others :: "(str \<times> content option) list"
  ob_now :: nat
  ob_wall :: nat
  ob_io :: bool
  ob_spawn :: "str + nat"
  ob_exit :: "(int option \<times> str) option"
  ob_probe :: probe
  ob_free :: bool

datatype deed = Spawned nat str | Ended nat | Probed bool | Recorded active_kernel | Answered swap_result

datatype watch_event = EvLaunched nat str nat | EvHealthy nat | EvExited nat "int option" nat nat nat
  | EvStartTimedOut nat nat nat | EvSwapStarted str str str | EvSwapSettled str str | EvSwapRolledBack str str str
  | EvStopRequested "nat option" | EvStopped | EvNote str

record supervisor =
  sv_config :: watch_config
  sv_phase :: phase
  sv_child :: "nat option"
  sv_child_pid :: "nat option"
  sv_child_started :: nat
  sv_attempt :: nat
  sv_restarts :: nat
  sv_restart_at :: nat
  sv_probe_misses :: nat
  sv_last_exit :: "last_exit option"
  sv_last_swap :: "swap_summary option"
  sv_stability :: "(active_kernel \<times> nat) option"
  sv_exited :: bool
  sv_last_status_write :: nat
  sv_events :: "watch_event list"
  sv_pid :: nat
  sv_files :: "(str, content) btree"
  sv_procs :: "(nat \<times> str) list"
  sv_trace :: "deed list"
  sv_script :: "observation list"

type_synonym 'a wm = "(supervisor, unit, 'a) prog"

definition apply_others :: "(str \<times> content option) list \<Rightarrow> (str, content) btree \<Rightarrow> (str, content) btree" where
  "apply_others = fold (\<lambda>(name, c) m. case c of Some c \<Rightarrow> bm_insert name c m | None \<Rightarrow> bm_remove name m)"

definition w_call :: "(observation \<Rightarrow> supervisor \<Rightarrow> 'a \<times> supervisor) \<Rightarrow> 'a wm" where
  "w_call f w = (case sv_script w of
     [] \<Rightarrow> (Inl (), w)
   | ob # obs \<Rightarrow>
       let (a, w) = f ob (w\<lparr>sv_script := obs, sv_files := apply_others (ob_others ob) (sv_files w)\<rparr>) in (Inr a, w))"

definition w_now :: "nat wm" where
  "w_now = w_call (\<lambda>ob w. (ob_now ob, w))"

definition w_wall :: "nat wm" where
  "w_wall = w_call (\<lambda>ob w. (ob_wall ob, w))"

text \<open>\<open>let \_ = call;\<close>: whether the call worked does not matter.\<close>

definition w_drop :: "bool wm \<Rightarrow> unit wm" where
  "w_drop m = b_then m (\<lambda>_. b_return ())"

definition w_event :: "watch_event \<Rightarrow> unit wm" where
  "w_event e = b_modify (\<lambda>w. w\<lparr>sv_events := sv_events w @ [e]\<rparr>)"

definition w_deed :: "deed \<Rightarrow> supervisor \<Rightarrow> supervisor" where
  "w_deed d w = w\<lparr>sv_trace := d # sv_trace w\<rparr>"

section \<open>Files\<close>

text \<open>\<open>read\_to\_string\<close>, \<open>exists\<close>, \<open>remove\_file\<close>, \<open>rename\<close>; each may be refused.\<close>

definition content_text :: "content \<Rightarrow> str option" where
  "content_text c = (case c of Text s \<Rightarrow> Some s | Binary bs \<Rightarrow> from_utf8 bs)"

definition w_read :: "str \<Rightarrow> str option wm" where
  "w_read name = w_call (\<lambda>ob w.
     (if ob_io ob then (case bm_get (sv_files w) name of Some c \<Rightarrow> content_text c | None \<Rightarrow> None) else None, w))"

definition w_exists :: "str \<Rightarrow> bool wm" where
  "w_exists name = w_call (\<lambda>ob w. (ob_io ob \<and> bm_get (sv_files w) name \<noteq> None, w))"

definition w_remove :: "str \<Rightarrow> bool wm" where
  "w_remove name = w_call (\<lambda>ob w.
     if ob_io ob \<and> bm_get (sv_files w) name \<noteq> None then (True, w\<lparr>sv_files := bm_remove name (sv_files w)\<rparr>) else (False, w))"

definition w_rename :: "str \<Rightarrow> str \<Rightarrow> bool wm" where
  "w_rename src dst = w_call (\<lambda>ob w. case bm_get (sv_files w) src of
     Some c \<Rightarrow> if ob_io ob then (True, w\<lparr>sv_files := bm_insert dst c (bm_remove src (sv_files w))\<rparr>) else (False, w)
   | None \<Rightarrow> (False, w))"

definition w_write :: "str \<Rightarrow> str \<Rightarrow> bool wm" where
  "w_write name s = w_call (\<lambda>ob w.
     if ob_io ob then (True, w\<lparr>sv_files := bm_insert name (Text s) (sv_files w)\<rparr>) else (False, w))"

text \<open>\<open>Path::with\_extension\<close> on the last component.\<close>

definition file_stem :: "str \<Rightarrow> str" where
  "file_stem name = (if 46 \<in> set (tl name) then rev (tl (dropWhile (\<lambda>c. c \<noteq> 46) (rev name))) else name)"

definition last_part :: "str \<Rightarrow> str" where
  "last_part path = last (split_on 47 path)"

definition with_extension :: "str \<Rightarrow> str \<Rightarrow> str" where
  "with_extension ext path = take (length path - length (last_part path)) path @ file_stem (last_part path) @ [46] @ ext"

text \<open>\<open>write\_atomic\<close>: beside, then over; the directory and the temporary file are one call.\<close>

definition write_atomic :: "str \<Rightarrow> str \<Rightarrow> bool wm" where
  "write_atomic path s =
     b_then (b_query sv_pid) (\<lambda>pid.
     let temporary = with_extension (lit ''tmp'' @ dec pid) path in
     b_then (w_write temporary s) (\<lambda>good.
     if \<not> good then b_return False
     else b_then (w_rename temporary path) (\<lambda>good.
       if good then b_return True
       else b_then (w_remove temporary) (\<lambda>_. b_return False))))"

section \<open>The home\<close>

definition status_path :: str where "status_path = lit ''status.json''"
definition current_path :: str where "current_path = lit ''current''"
definition current_json_path :: str where "current_json_path = lit ''current.json''"
definition supervisor_pid_path :: str where "supervisor_pid_path = lit ''supervisor.pid''"
definition kernel_pid_path :: str where "kernel_pid_path = lit ''kernel.pid''"
definition stop_flag_path :: str where "stop_flag_path = lit ''stop''"
definition requests_dir :: str where "requests_dir = lit ''requests/''"
definition results_dir :: str where "results_dir = lit ''results/''"

definition read_current :: "active_kernel option wm" where
  "read_current =
     b_then (w_read current_json_path) (\<lambda>s.
     case (case s of Some s \<Rightarrow> active_from_json s | None \<Rightarrow> None) of
       Some a \<Rightarrow> b_return (Some a)
     | None \<Rightarrow>
         b_then (w_read current_path) (\<lambda>s. b_return (case s of
           None \<Rightarrow> None
         | Some s \<Rightarrow> if trim s = [] then None else Some \<lparr>ak_binary = trim s, ak_sha256 = None, ak_args = []\<rparr>)))"

definition write_current :: "active_kernel \<Rightarrow> bool wm" where
  "write_current a =
     b_then (write_atomic current_json_path (active_to_json a @ [10])) (\<lambda>good.
     if \<not> good then b_return False
     else
       b_then (b_modify (w_deed (Recorded a))) (\<lambda>_.
       write_atomic current_path (ak_binary a @ [10])))"

definition write_pid :: "str \<Rightarrow> nat \<Rightarrow> bool wm" where
  "write_pid path pid = write_atomic path (dec pid @ [10])"

definition write_status_file :: "status \<Rightarrow> bool wm" where
  "write_status_file s = write_atomic status_path (status_to_json s @ [10])"

definition stop_requested :: "bool wm" where
  "stop_requested = w_exists stop_flag_path"

text \<open>\<open>Home::ensure\<close>: the directories, which the model has no names for, or the refusal of one.\<close>

definition home_ensure :: "bool wm" where
  "home_ensure = w_call (\<lambda>ob w. (ob_io ob, w))"

definition tail :: "nat \<Rightarrow> str \<Rightarrow> str" where
  "tail n s = join_with 10 (keep_last n (lines s))"

end
