(* ===== verification/Watchdog.thy ===== *)
theory Watchdog
  imports WatchdogHome
begin

text \<open>
  \<open>wa-watchdog/src/supervisor.rs\<close> and the supervisor's half of \<open>swap.rs\<close>: one pass of the loop that
  starts the kernel, restarts it, and switches it.  Every clock reading, probe, process call and file call
  of the source is a call of the world here, in the same order.
\<close>

section \<open>Processes\<close>

text \<open>\<open>proc::spawn\<close>, \<open>try\_wait\<close>, \<open>kill\_and\_wait\<close>, \<open>health::probe\<close>, \<open>wait\_port\_bindable\<close>.\<close>

definition p_spawn :: "str \<Rightarrow> (str + nat) wm" where
  "p_spawn binary = w_call (\<lambda>ob w. case ob_spawn ob of
     Inl e \<Rightarrow> (Inl e, w)
   | Inr pid \<Rightarrow> (Inr pid, w_deed (Spawned pid binary) (w\<lparr>sv_procs := (pid, binary) # sv_procs w\<rparr>)))"

definition reap_process :: "nat \<Rightarrow> supervisor \<Rightarrow> supervisor" where
  "reap_process pid w = w_deed (Ended pid) (w\<lparr>sv_procs := filter (\<lambda>(p, _). p \<noteq> pid) (sv_procs w)\<rparr>)"

definition p_try_wait :: "nat \<Rightarrow> (int option \<times> str) option wm" where
  "p_try_wait pid = w_call (\<lambda>ob w. (ob_exit ob, if ob_exit ob \<noteq> None then reap_process pid w else w))"

definition p_kill :: "nat \<Rightarrow> unit wm" where
  "p_kill pid = w_call (\<lambda>ob w. ((), reap_process pid w))"

definition p_probe :: "probe wm" where
  "p_probe = w_call (\<lambda>ob w. (ob_probe ob, w_deed (Probed (probe_ready (ob_probe ob))) w))"

definition p_wait_port :: "bool wm" where
  "p_wait_port = w_call (\<lambda>ob w. (ob_free ob, w))"

section \<open>The supervisor\<close>

definition supervisor_new :: "watch_config \<Rightarrow> nat \<Rightarrow> nat \<Rightarrow> (str, content) btree \<Rightarrow> observation list \<Rightarrow> supervisor" where
  "supervisor_new c pid now files obs = \<lparr>sv_config = c, sv_phase = PhStopped, sv_child = None, sv_child_pid = None,
     sv_child_started = now, sv_attempt = 0, sv_restarts = 0, sv_restart_at = now, sv_probe_misses = 0,
     sv_last_exit = None, sv_last_swap = None, sv_stability = None, sv_exited = False, sv_last_status_write = now,
     sv_events = [], sv_pid = pid, sv_files = files, sv_procs = [], sv_trace = [], sv_script = obs\<rparr>"

definition configured :: "watch_config \<Rightarrow> active_kernel option" where
  "configured c = map_option (\<lambda>b. \<lparr>ak_binary = b, ak_sha256 = None, ak_args = wc_kernel_args c\<rparr>) (wc_kernel c)"

definition active :: "active_kernel option wm" where
  "active = b_then read_current (\<lambda>a. case a of
     Some a \<Rightarrow> b_return (Some a)
   | None \<Rightarrow> b_query (\<lambda>w. configured (sv_config w)))"

definition sv_backoff :: "supervisor \<Rightarrow> backoff" where
  "sv_backoff w = (let c = sv_config w in backoff_new (wc_backoff_base_ms c) (wc_backoff_factor c) (wc_backoff_max_ms c))"

definition sv_status :: "status wm" where
  "sv_status =
     b_then active (\<lambda>a.
     b_then w_wall (\<lambda>now.
     b_query (\<lambda>w. \<lparr>st_state = phase_str (sv_phase w), st_supervisor_pid = sv_pid w, st_kernel_pid = sv_child_pid w,
       st_kernel = map_option ak_binary a, st_sha256 = (case a of Some a \<Rightarrow> ak_sha256 a | None \<Rightarrow> None),
       st_port = wc_port (sv_config w), st_restarts = sv_restarts w, st_attempt = sv_attempt w, st_updated_ms = now,
       st_last_exit = sv_last_exit w, st_last_swap = sv_last_swap w, st_supervisor_alive = True\<rparr>)))"

definition sv_write_status :: "bool \<Rightarrow> unit wm" where
  "sv_write_status force =
     b_then (if force then b_return True
             else b_then (b_query sv_last_status_write) (\<lambda>before.
               b_then w_now (\<lambda>now. b_return (\<not> now - before < 1000)))) (\<lambda>due.
     if \<not> due then b_return ()
     else
       b_then sv_status (\<lambda>s.
       b_then (write_status_file s) (\<lambda>_.
       b_then w_now (\<lambda>now.
       b_modify (\<lambda>w. w\<lparr>sv_last_status_write := now\<rparr>)))))"

text \<open>The argument list of a launch.\<close>

definition launch_args :: "watch_config \<Rightarrow> launch_view \<Rightarrow> active_kernel \<Rightarrow> resolve_error + str list" where
  "launch_args c view a = resolve_args c view (if ak_args a = [] then wc_kernel_args c else ak_args a)"

datatype launch_error = BadArgs resolve_error | SpawnFailed str str

definition launch_error_text :: "launch_error \<Rightarrow> str" where
  "launch_error_text e = (case e of
     BadArgs HomeNotConfigured \<Rightarrow> lit ''`{home}` is used in kernel_args but `runtime_home` is not configured''
   | BadArgs DbNotConfigured \<Rightarrow> lit ''`{db}` is used in kernel_args but `db` is not configured''
   | SpawnFailed binary e \<Rightarrow> lit ''cannot start '' @ binary @ lit '': '' @ e)"

definition launch :: "active_kernel \<Rightarrow> (launch_error + nat) wm" where
  "launch a =
     b_then (b_query sv_config) (\<lambda>c.
     case launch_args c (service_view c) a of
       Inl e \<Rightarrow> b_return (Inl (BadArgs e))
     | Inr args \<Rightarrow>
         b_then (p_spawn (ak_binary a)) (\<lambda>r. case r of
           Inl e \<Rightarrow> b_return (Inl (SpawnFailed (ak_binary a) e))
         | Inr pid \<Rightarrow>
             b_then (b_modify (\<lambda>w. w\<lparr>sv_child := Some pid, sv_child_pid := Some pid\<rparr>)) (\<lambda>_.
             b_then w_now (\<lambda>now.
             b_then (b_modify (\<lambda>w. w\<lparr>sv_child_started := now, sv_phase := PhStarting, sv_probe_misses := 0\<rparr>)) (\<lambda>_.
             b_return (Inr pid))))))"

text \<open>\<open>stop\_child\<close>: the pid it ended, if there was a child.\<close>

definition stop_child :: "nat option wm" where
  "stop_child =
     b_then (b_query (\<lambda>w. (sv_child w, sv_child_pid w))) (\<lambda>(child, pid). case child of
       None \<Rightarrow> b_return None
     | Some p \<Rightarrow>
         b_then (b_modify (\<lambda>w. w\<lparr>sv_child := None, sv_child_pid := None\<rparr>)) (\<lambda>_.
         b_then (p_kill p) (\<lambda>_.
         b_then (w_remove kernel_pid_path) (\<lambda>_.
         b_return pid))))"

definition lose_child :: "supervisor \<Rightarrow> supervisor" where
  "lose_child w = w\<lparr>sv_child := None, sv_child_pid := None\<rparr>"

text \<open>Schedule a restart: one more attempt, and the delay it gives.\<close>

definition schedule_restart :: "nat wm" where
  "schedule_restart =
     b_then (b_modify (\<lambda>w. w\<lparr>sv_attempt := sat_add32 (sv_attempt w) 1\<rparr>)) (\<lambda>_.
     b_then (b_query (\<lambda>w. restart_delay (sv_backoff w) (sv_attempt w - 1))) (\<lambda>delay.
     b_then w_now (\<lambda>now.
     b_then (b_modify (\<lambda>w. w\<lparr>sv_restart_at := now + delay\<rparr>)) (\<lambda>_.
     b_return delay))))"

section \<open>The swap protocol\<close>

definition request_path :: "str \<Rightarrow> str" where
  "request_path name = requests_dir @ name @ lit ''.json''"

definition write_result :: "swap_result \<Rightarrow> bool wm" where
  "write_result r =
     b_then (write_atomic (results_dir @ rs_id r @ lit ''.json'') (result_to_json r @ [10])) (\<lambda>good.
     b_then (if good then b_modify (w_deed (Answered r)) else b_return ()) (\<lambda>_.
     b_return good))"

text \<open>The files of \<open>requests\<close> that can be read as requests, sorted by id; a directory that cannot be read has
  none.\<close>

definition request_names :: "(str, content) btree \<Rightarrow> str list" where
  "request_names m = filter (\<lambda>n. prefix requests_dir n \<and> 47 \<notin> set (drop (length requests_dir) n) \<and> suffix (lit ''.json'') n) (map fst m)"

definition list_requests :: "str list wm" where
  "list_requests = w_call (\<lambda>ob w. (if ob_io ob then request_names (sv_files w) else [], w))"

fun read_requests :: "str list \<Rightarrow> (str \<times> swap_request) list wm" where
  "read_requests [] = b_return []"
| "read_requests (n # ns) =
     b_then (w_read n) (\<lambda>s.
     b_then (read_requests ns) (\<lambda>found.
     b_return (case s of
         Some s \<Rightarrow> (case request_from_json s of Some r \<Rightarrow> (n, r) # found | None \<Rightarrow> found)
       | None \<Rightarrow> found)))"

definition pending_requests :: "(str \<times> swap_request) list wm" where
  "pending_requests =
     b_then list_requests (\<lambda>ns.
     b_then (read_requests ns) (\<lambda>found.
     b_return (sort_key (\<lambda>(_, r). sr_id r) found)))"

definition claim :: "str \<Rightarrow> str option wm" where
  "claim path = b_then (w_rename path (with_extension (lit ''claimed'') path)) (\<lambda>good.
     b_return (if good then Some (with_extension (lit ''claimed'') path) else None))"

definition rolled_back :: "str \<Rightarrow> active_kernel \<Rightarrow> str \<Rightarrow> nat \<Rightarrow> swap_result" where
  "rolled_back name previous detail now = \<lparr>rs_id = name, rs_ok = False, rs_rolled_back = True,
     rs_previous = ak_binary previous, rs_active = ak_binary previous, rs_detail = detail, rs_at_ms = now\<rparr>"

definition record_rollback :: "str \<Rightarrow> active_kernel \<Rightarrow> unit wm" where
  "record_rollback detail previous =
     b_then (b_query (\<lambda>w. case sv_last_swap w of Some r \<Rightarrow> rs_id r | None \<Rightarrow> lit ''swap'')) (\<lambda>name.
     b_then w_wall (\<lambda>now.
     b_then (b_modify (\<lambda>w. w\<lparr>sv_last_swap := Some (rolled_back name previous detail now)\<rparr>)) (\<lambda>_.
     b_then (w_event (EvSwapRolledBack name (ak_binary previous) detail)) (\<lambda>_.
     b_then w_wall (\<lambda>now.
     w_drop (write_result (rolled_back (name @ lit ''.rollback'') previous detail now)))))))"

text \<open>One turn of the loop that waits for the new kernel: the verdict, or \<open>None\<close> for another turn.\<close>

datatype verdict = Ready | Died str | TimedOut str

definition await_poll :: "nat \<Rightarrow> verdict option wm" where
  "await_poll deadline =
     b_then (b_query sv_child) (\<lambda>child.
     b_then (case child of Some p \<Rightarrow> p_try_wait p | None \<Rightarrow> b_return None) (\<lambda>exit. case exit of
       Some (_, how) \<Rightarrow> b_then (b_modify lose_child) (\<lambda>_. b_return (Some (Died how)))
     | None \<Rightarrow>
         b_then p_probe (\<lambda>p.
         if probe_ready p then b_return (Some Ready)
         else b_then w_now (\<lambda>now. b_return (if now \<ge> deadline then Some (TimedOut (why_not p)) else None)))))"

text \<open>The same for the kernel that is put back: the deadline is looked at first.\<close>

definition restore_poll :: "nat \<Rightarrow> bool option wm" where
  "restore_poll deadline =
     b_then w_now (\<lambda>now.
     if \<not> now < deadline then b_return (Some False)
     else
       b_then (b_query sv_child) (\<lambda>child.
       b_then (case child of Some p \<Rightarrow> p_try_wait p | None \<Rightarrow> b_return None) (\<lambda>exit. case exit of
         Some _ \<Rightarrow> b_then (b_modify lose_child) (\<lambda>_. b_return (Some False))
       | None \<Rightarrow> b_then p_probe (\<lambda>p. b_return (if probe_ready p then Some True else None)))))"

text \<open>The loop around a turn.  Every turn takes an observation, so the script ends every loop; the test of
  its length says no more than that, and is proved to hold of both turns.\<close>

function poll_loop :: "('v option) wm \<Rightarrow> 'v wm" where
  "poll_loop turn w = (case turn w of
     (Inl u, w') \<Rightarrow> (Inl u, w')
   | (Inr (Some v), w') \<Rightarrow> (Inr v, w')
   | (Inr None, w') \<Rightarrow> if length (sv_script w') < length (sv_script w) then poll_loop turn w' else (Inl (), w'))"
  by pat_completeness auto
termination
  by (relation "measure (\<lambda>(_, w). length (sv_script w))") auto

declare poll_loop.simps [simp del]

section \<open>The switch\<close>

definition swap_settled :: "swap_request \<Rightarrow> active_kernel \<Rightarrow> nat \<Rightarrow> nat \<Rightarrow> swap_result" where
  "swap_settled r previous port now = \<lparr>rs_id = sr_id r, rs_ok = True, rs_rolled_back = False,
     rs_previous = ak_binary previous, rs_active = sr_binary r, rs_detail = lit ''proved on :'' @ dec port, rs_at_ms = now\<rparr>"

definition requested_kernel :: "swap_request \<Rightarrow> active_kernel" where
  "requested_kernel r = \<lparr>ak_binary = sr_binary r, ak_sha256 = Some (sr_sha256 r), ak_args = sr_args r\<rparr>"

text \<open>Stop the old kernel, start the new one and wait for it: proved, or why not.\<close>

definition try_kernel :: "active_kernel \<Rightarrow> str option wm" where
  "try_kernel new =
     b_then p_wait_port (\<lambda>freed.
     b_then (b_query sv_config) (\<lambda>c.
     if \<not> freed then b_return (Some (lit ''the previous kernel did not release port '' @ dec (wc_port c) @ lit '' for the new one''))
     else
       b_then (launch new) (\<lambda>r. case r of
         Inl e \<Rightarrow> b_return (Some (launch_error_text e))
       | Inr _ \<Rightarrow>
           b_then w_now (\<lambda>now.
           b_then (poll_loop (await_poll (now + wc_swap_health_window_ms c))) (\<lambda>v. b_return (case v of
             Ready \<Rightarrow> None
           | Died how \<Rightarrow> Some (lit ''the new kernel exited ('' @ how @ lit '') before answering /health'')
           | TimedOut why \<Rightarrow> Some (lit ''the new kernel did not answer /health within '' @
               dec (wc_swap_health_window_ms c) @ lit ''ms ('' @ why @ lit '')'')))))))"

text \<open>\<open>phase\<close>, \<open>attempt\<close> and the pid file of a kernel that serves.\<close>

definition serving :: "unit wm" where
  "serving =
     b_then (b_modify (\<lambda>w. w\<lparr>sv_phase := PhHealthy, sv_attempt := 0\<rparr>)) (\<lambda>_.
     b_then (b_query (\<lambda>w. unwrap_or 0 (sv_child_pid w))) (\<lambda>pid.
     w_drop (write_pid kernel_pid_path pid)))"

text \<open>The window in which an early crash puts the previous kernel back.\<close>

definition open_window :: "active_kernel \<Rightarrow> unit wm" where
  "open_window previous =
     b_then (b_query sv_config) (\<lambda>c.
     if wc_rollback_on_early_crash c \<and> wc_stability_ms c > 0
     then b_then w_now (\<lambda>now. b_modify (\<lambda>w. w\<lparr>sv_stability := Some (previous, now + wc_stability_ms c)\<rparr>))
     else b_modify (\<lambda>w. w\<lparr>sv_stability := None\<rparr>))"

definition report_settled :: "swap_request \<Rightarrow> active_kernel \<Rightarrow> unit wm" where
  "report_settled r previous =
     b_then (b_query (\<lambda>w. wc_port (sv_config w))) (\<lambda>port.
     b_then w_wall (\<lambda>now.
     b_then (b_modify (\<lambda>w. w\<lparr>sv_last_swap := Some (swap_settled r previous port now)\<rparr>)) (\<lambda>_.
     b_then (w_event (EvSwapSettled (sr_id r) (sr_binary r))) (\<lambda>_.
     b_then w_wall (\<lambda>now.
     w_drop (write_result (swap_settled r previous port now)))))))"

definition settle_swap :: "swap_request \<Rightarrow> active_kernel \<Rightarrow> unit wm" where
  "settle_swap r previous =
     b_then (w_drop (write_current (requested_kernel r))) (\<lambda>_.
     b_then serving (\<lambda>_.
     b_then (open_window previous) (\<lambda>_.
     report_settled r previous)))"

text \<open>Put the previous kernel back and wait for it; whether it serves again.\<close>

definition restore_kernel :: "active_kernel \<Rightarrow> bool wm" where
  "restore_kernel previous =
     b_then (launch previous) (\<lambda>l. case l of
       Inl _ \<Rightarrow> b_return False
     | Inr _ \<Rightarrow>
         b_then (b_query sv_config) (\<lambda>c.
         b_then w_now (\<lambda>now. poll_loop (restore_poll (now + wc_start_timeout_ms c)))))"

definition roll_back :: "swap_request \<Rightarrow> active_kernel \<Rightarrow> str \<Rightarrow> unit wm" where
  "roll_back r previous why =
     b_then stop_child (\<lambda>_.
     b_then (w_drop (write_current previous)) (\<lambda>_.
     b_then p_wait_port (\<lambda>_.
     b_then (restore_kernel previous) (\<lambda>restored.
     b_then (if restored then serving
             else b_then (b_modify (\<lambda>w. w\<lparr>sv_phase := PhStarting\<rparr>)) (\<lambda>_.
               b_then w_now (\<lambda>now. b_modify (\<lambda>w. w\<lparr>sv_restart_at := now\<rparr>)))) (\<lambda>_.
     let detail = why @ lit ''; the previous kernel '' @
           (if restored then lit ''is serving again'' else lit ''did not answer either'') in
     b_then (record_rollback detail previous) (\<lambda>_.
     b_then w_wall (\<lambda>now.
     w_drop (write_result (rolled_back (sr_id r) previous detail now)))))))))"

definition begin_swap :: "swap_request \<Rightarrow> active_kernel \<Rightarrow> unit wm" where
  "begin_swap r previous =
     b_then (w_event (EvSwapStarted (sr_id r) (ak_binary previous) (sr_binary r))) (\<lambda>_.
     b_then (b_modify (\<lambda>w. w\<lparr>sv_phase := PhSwapping, sv_stability := None\<rparr>)) (\<lambda>_.
     b_then stop_child (\<lambda>_.
     b_then (try_kernel (requested_kernel r)) (\<lambda>why. case why of
       None \<Rightarrow> settle_swap r previous
     | Some why \<Rightarrow> roll_back r previous why))))"

definition perform_swap :: "swap_request \<Rightarrow> unit wm" where
  "perform_swap r =
     b_then active (\<lambda>found. case found of
       None \<Rightarrow> w_event (EvNote (lit ''swap '' @ sr_id r @ lit '' refused: no kernel is recorded to replace''))
     | Some previous \<Rightarrow>
         b_then (b_query sv_phase) (\<lambda>ph.
         if snd (transition ph InSwapRequested) \<noteq> AcBeginSwap then
           b_then (w_rename (requests_dir @ sr_id r @ lit ''.claimed'') (request_path (sr_id r))) (\<lambda>_.
           w_event (EvNote (lit ''swap '' @ sr_id r @ lit '' waits: the supervisor is '' @ phase_str ph)))
         else
           begin_swap r previous))"

section \<open>One pass\<close>

definition tick_stop :: "unit wm" where
  "tick_stop =
     b_then (b_query (\<lambda>w. fst (transition (sv_phase w) InStopRequested))) (\<lambda>after.
     b_then stop_child (\<lambda>pid.
     b_then (w_event (EvStopRequested pid)) (\<lambda>_.
     b_then (b_modify (\<lambda>w. w\<lparr>sv_phase := after, sv_exited := True\<rparr>)) (\<lambda>_.
     b_then (w_remove stop_flag_path) (\<lambda>_.
     b_then (w_remove supervisor_pid_path) (\<lambda>_.
     b_then (b_modify (\<lambda>w. w\<lparr>sv_phase := PhStopped\<rparr>)) (\<lambda>_.
     b_then (sv_write_status True) (\<lambda>_.
     w_event EvStopped))))))))"

text \<open>The kernel that was swapped in a moment ago has died.\<close>

definition revert_swap :: "nat \<Rightarrow> active_kernel \<Rightarrow> unit wm" where
  "revert_swap uptime previous =
     b_then (b_modify (\<lambda>w. w\<lparr>sv_stability := None\<rparr>)) (\<lambda>_.
     b_then stop_child (\<lambda>_.
     b_then (w_drop (write_current previous)) (\<lambda>_.
     b_then (b_modify (\<lambda>w. w\<lparr>sv_attempt := 0\<rparr>)) (\<lambda>_.
     b_then w_now (\<lambda>now.
     b_then (b_modify (\<lambda>w. w\<lparr>sv_restart_at := now\<rparr>)) (\<lambda>_.
     b_then (record_rollback (lit ''the swapped-in kernel exited after '' @ dec uptime @ lit ''ms (stability window)'') previous) (\<lambda>_.
     b_modify (\<lambda>w. w\<lparr>sv_phase := PhBackoff\<rparr>))))))))"

text \<open>\<open>is\_some\_and(now < settled\_until)\<close>: the clock is read when there is a window.\<close>

definition recent_swap :: "active_kernel option wm" where
  "recent_swap =
     b_then (b_query (\<lambda>w. (sv_stability w, sv_phase w))) (\<lambda>(window, ph). case window of
       None \<Rightarrow> b_return None
     | Some (previous, settled_until) \<Rightarrow> b_then w_now (\<lambda>now.
         b_return (if now < settled_until \<and> ph = PhHealthy then Some previous else None)))"

definition settle_exit :: "nat \<Rightarrow> int option \<Rightarrow> unit wm" where
  "settle_exit pid code =
     b_then (b_query (\<lambda>w. sv_child_started w)) (\<lambda>started.
     b_then (b_modify lose_child) (\<lambda>_.
     b_then w_now (\<lambda>now.
     b_then w_wall (\<lambda>wall.
     b_then (b_modify (\<lambda>w. w\<lparr>sv_last_exit := Some \<lparr>le_pid = pid, le_code = code, le_uptime_ms = now - started, le_at_ms = wall\<rparr>\<rparr>)) (\<lambda>_.
     b_then recent_swap (\<lambda>recent. case recent of
       Some previous \<Rightarrow> revert_swap (now - started) previous
     | None \<Rightarrow>
         b_then (b_modify (\<lambda>w. w\<lparr>sv_phase := fst (transition (sv_phase w) InExited), sv_restarts := sv_restarts w + 1\<rparr>)) (\<lambda>_.
         b_then schedule_restart (\<lambda>delay.
         b_then (b_query sv_restarts) (\<lambda>restarts.
         w_event (EvExited pid code (now - started) delay restarts)))))))))) "

definition tick_exit :: "unit wm" where
  "tick_exit =
     b_then (b_query (\<lambda>w. (sv_phase w, sv_child w, sv_child_pid w))) (\<lambda>(ph, child, pid).
     if ph = PhSwapping then b_return ()
     else case child of
         None \<Rightarrow> b_return ()
       | Some p \<Rightarrow> b_then (p_try_wait p) (\<lambda>exit. case exit of
           None \<Rightarrow> b_return ()
         | Some (code, _) \<Rightarrow> settle_exit (unwrap_or 0 pid) code))"

definition tick_swap :: "unit wm" where
  "tick_swap =
     b_then (b_query (\<lambda>w. (sv_phase w, sv_child w))) (\<lambda>(ph, child).
     if child \<noteq> None \<and> (ph = PhStarting \<or> ph = PhHealthy) then
       b_then pending_requests (\<lambda>found. case found of
         [] \<Rightarrow> b_return ()
       | (path, r) # _ \<Rightarrow>
           b_then (claim path) (\<lambda>claimed. case claimed of
             Some claimed \<Rightarrow> b_then (perform_swap r) (\<lambda>_. w_drop (w_remove claimed))
           | None \<Rightarrow> w_event (EvNote (lit ''swap request '' @ sr_id r @ lit '' is already claimed''))))
     else b_return ())"

text \<open>\<open>adopt\_configured\_kernel\<close>\<close>

definition adopt :: "active_kernel \<Rightarrow> unit wm" where
  "adopt a = b_then read_current (\<lambda>found. if found = None then w_drop (write_current a) else b_return ())"

definition start_kernel :: "unit wm" where
  "start_kernel =
     b_then active (\<lambda>found. case found of
       None \<Rightarrow>
         b_then (b_modify (\<lambda>w. w\<lparr>sv_exited := True\<rparr>)) (\<lambda>_.
         w_event (EvNote (lit ''no kernel is configured: set `kernel` in the config (or run `wa-watchdog init`)'')))
     | Some a \<Rightarrow>
         b_then (adopt a) (\<lambda>_.
         b_then (launch a) (\<lambda>l. case l of
           Inr pid \<Rightarrow> b_then (b_query sv_attempt) (\<lambda>n. w_event (EvLaunched pid (ak_binary a) n))
         | Inl e \<Rightarrow>
             b_then (b_modify (\<lambda>w. w\<lparr>sv_phase := PhBackoff\<rparr>)) (\<lambda>_.
             b_then schedule_restart (\<lambda>delay.
             w_event (EvNote (launch_error_text e @ lit ''; retrying in '' @ dec delay @ lit ''ms'')))))))"

definition tick_start :: "unit wm" where
  "tick_start =
     b_then (b_query id) (\<lambda>w.
     if sv_child w = None \<and> \<not> sv_exited w \<and> sv_phase w \<noteq> PhSwapping then
       b_then w_now (\<lambda>now. if now \<ge> sv_restart_at w then start_kernel else b_return ())
     else b_return ())"

text \<open>Kill a kernel that does not answer and schedule its restart; the pid and the delay.\<close>

definition kill_and_restart :: "(nat \<times> nat) wm" where
  "kill_and_restart =
     b_then stop_child (\<lambda>pid.
     b_then (b_modify (\<lambda>w. w\<lparr>sv_phase := PhBackoff, sv_restarts := sv_restarts w + 1\<rparr>)) (\<lambda>_.
     b_then schedule_restart (\<lambda>delay.
     b_return (unwrap_or 0 pid, delay))))"

definition health_starting :: "unit wm" where
  "health_starting =
     b_then (b_query (\<lambda>w. (sv_child_started w, wc_start_timeout_ms (sv_config w)))) (\<lambda>(started, timeout).
     b_then w_now (\<lambda>now.
     if now - started \<ge> timeout then
       b_then kill_and_restart (\<lambda>(pid, delay). w_event (EvStartTimedOut pid (now - started) delay))
     else
       b_then p_probe (\<lambda>p.
       if \<not> probe_ready p then b_return ()
       else
         b_then (b_query (\<lambda>w. unwrap_or 0 (sv_child_pid w))) (\<lambda>pid.
         b_then (b_modify (\<lambda>w. w\<lparr>sv_phase := PhHealthy, sv_attempt := 0, sv_probe_misses := 0\<rparr>)) (\<lambda>_.
         b_then (w_drop (write_pid kernel_pid_path pid)) (\<lambda>_.
         w_event (EvHealthy pid)))))))"

definition health_watched :: "unit wm" where
  "health_watched =
     b_then p_probe (\<lambda>p.
     if probe_ready p then b_modify (\<lambda>w. w\<lparr>sv_probe_misses := 0\<rparr>)
     else
       b_then (b_modify (\<lambda>w. w\<lparr>sv_probe_misses := sv_probe_misses w + 1\<rparr>)) (\<lambda>_.
       b_then (b_query (\<lambda>w. (sv_probe_misses w, wc_health_miss_limit (sv_config w)))) (\<lambda>(misses, limit).
       if misses < limit then b_return ()
       else
         b_then kill_and_restart (\<lambda>(pid, delay).
         w_event (EvNote (lit ''pid '' @ dec pid @ lit '' missed '' @ dec misses @ lit '' health probes; restarting in '' @
           dec delay @ lit ''ms''))))))"

definition health_settle :: "unit wm" where
  "health_settle =
     b_then (b_query sv_stability) (\<lambda>window. case window of
       None \<Rightarrow> b_return ()
     | Some (_, settled_until) \<Rightarrow> b_then w_now (\<lambda>now.
         if now \<ge> settled_until then b_modify (\<lambda>w. w\<lparr>sv_stability := None\<rparr>) else b_return ()))"

definition tick_health :: "unit wm" where
  "tick_health =
     b_then (b_query (\<lambda>w. (sv_phase w, wc_health_miss_limit (sv_config w)))) (\<lambda>(ph, limit).
     if ph = PhStarting then health_starting
     else if ph = PhHealthy \<and> limit > 0 then health_watched
     else if ph = PhHealthy then health_settle
     else b_return ())"

definition tick :: "watch_event list wm" where
  "tick =
     b_then (b_modify (\<lambda>w. w\<lparr>sv_events := []\<rparr>)) (\<lambda>_.
     b_then stop_requested (\<lambda>stop.
     b_then (b_query sv_exited) (\<lambda>gone.
     if stop \<and> \<not> gone then b_then tick_stop (\<lambda>_. b_query sv_events)
     else
       b_then tick_exit (\<lambda>_.
       b_then tick_swap (\<lambda>_.
       b_then tick_start (\<lambda>_.
       b_then tick_health (\<lambda>_.
       b_then (b_query sv_events) (\<lambda>es.
       b_then (sv_write_status (es \<noteq> [])) (\<lambda>_.
       b_return es)))))))))"

text \<open>\<open>run\<close>: refuse when there is nothing to run or another kernel answers, then pass after pass.\<close>

datatype run_error = NoKernel | PortTaken nat | NoHome | NoPidFile

definition run_checks :: "(run_error + unit) wm" where
  "run_checks =
     b_then active (\<lambda>found.
     if found = None then b_return (Inl NoKernel)
     else
       b_then p_probe (\<lambda>p.
       b_then (b_query (\<lambda>w. (wc_port (sv_config w), sv_pid w))) (\<lambda>(port, pid).
       if answers p then b_return (Inl (PortTaken port))
       else
         b_then home_ensure (\<lambda>there.
         if \<not> there then b_return (Inl NoHome)
         else
         b_then (write_pid supervisor_pid_path pid) (\<lambda>good.
         if \<not> good then b_return (Inl NoPidFile)
         else b_then (b_modify (\<lambda>w. w\<lparr>sv_phase := PhStopped\<rparr>)) (\<lambda>_. b_return (Inr ())))))))"

fun run_ticks :: "nat \<Rightarrow> unit wm" where
  "run_ticks 0 = b_return ()"
| "run_ticks (Suc n) =
     b_then (b_query sv_exited) (\<lambda>gone. if gone then b_return () else b_then tick (\<lambda>_. run_ticks n))"

definition sv_run :: "nat \<Rightarrow> (run_error + unit) wm" where
  "sv_run n = b_then run_checks (\<lambda>r. case r of Inl e \<Rightarrow> b_return (Inl e) | Inr _ \<Rightarrow> b_then (run_ticks n) (\<lambda>_. b_return (Inr ())))"

end
