(* ===== verification/WatchdogRuns.thy ===== *)
theory WatchdogRuns
  imports Watchdog
begin

text \<open>
  A calculus for the supervisor's programs: what they keep wherever they are stopped, what they leave
  alone, and their loops.
\<close>

section \<open>Programs that keep an invariant\<close>

text \<open>\<open>maintains I J m\<close>: from a state in \<open>I\<close> the program returns into \<open>I\<close>, and wherever it is stopped \<open>J\<close> holds.\<close>

definition maintains :: "(supervisor \<Rightarrow> bool) \<Rightarrow> (supervisor \<Rightarrow> bool) \<Rightarrow> 'a wm \<Rightarrow> bool" where
  "maintains I J m \<longleftrightarrow> (\<forall>w. I w \<longrightarrow> ends m (\<lambda>_. I) (\<lambda>_. J) w)"

named_theorems keeps_rules \<open>programs that keep an invariant, construct by construct\<close>

lemma maintainsD: "maintains I J m \<Longrightarrow> I w \<Longrightarrow> ends m (\<lambda>_. I) (\<lambda>_. J) w"
  by (simp add: maintains_def)

lemma ends_keeps: "maintains I J m \<Longrightarrow> I w \<Longrightarrow> (\<And>a w'. I w' \<Longrightarrow> P a w') \<Longrightarrow> (\<And>w'. J w' \<Longrightarrow> E () w') \<Longrightarrow> ends m P E w"
  by (rule ends_mono [OF maintainsD [of I J m w]]) auto

lemma keeps_return [keeps_rules]: "maintains I J (b_return a)"
  by (simp add: maintains_def ends_simps)

lemma keeps_query [keeps_rules]: "maintains I J (b_query f)"
  by (simp add: maintains_def ends_simps)

lemma keeps_modify: "(\<And>w. I w \<Longrightarrow> I (g w)) \<Longrightarrow> maintains I J (b_modify g)"
  by (simp add: maintains_def ends_simps)

lemma keeps_then [keeps_rules]: "maintains I J m \<Longrightarrow> (\<And>a. maintains I J (f a)) \<Longrightarrow> maintains I J (b_then m f)"
  by (auto simp: maintains_def ends_simps elim!: ends_mono)

lemma keeps_if [keeps_rules]: "(c \<Longrightarrow> maintains I J m) \<Longrightarrow> (\<not> c \<Longrightarrow> maintains I J n) \<Longrightarrow> maintains I J (if c then m else n)"
  by simp

lemma keeps_option [keeps_rules]:
  "maintains I J m \<Longrightarrow> (\<And>a. maintains I J (f a)) \<Longrightarrow> maintains I J (case x of None \<Rightarrow> m | Some a \<Rightarrow> f a)"
  by (cases x) simp_all

lemma keeps_sum [keeps_rules]:
  "(\<And>e. maintains I J (f e)) \<Longrightarrow> (\<And>a. maintains I J (g a)) \<Longrightarrow> maintains I J (case x of Inl e \<Rightarrow> f e | Inr a \<Rightarrow> g a)"
  by (cases x) simp_all

lemma keeps_list [keeps_rules]:
  "maintains I J m \<Longrightarrow> (\<And>a b. maintains I J (f a b)) \<Longrightarrow> maintains I J (case x of [] \<Rightarrow> m | a # b \<Rightarrow> f a b)"
  by (cases x) simp_all

lemma keeps_pair [keeps_rules]: "(\<And>a b. maintains I J (f a b)) \<Longrightarrow> maintains I J (case x of (a, b) \<Rightarrow> f a b)"
  by (cases x) simp

lemma keeps_let [keeps_rules]: "(\<And>a. maintains I J (f a)) \<Longrightarrow> maintains I J (let a = x in f a)"
  by simp

lemma keeps_call:
  assumes "\<And>w. I w \<Longrightarrow> J w"
    and "\<And>ob obs w. I w \<Longrightarrow> sv_script w = ob # obs \<Longrightarrow>
      I (snd (f ob (w\<lparr>sv_script := obs, sv_files := apply_others (ob_others ob) (sv_files w)\<rparr>)))"
  shows "maintains I J (w_call f)"
  using assms by (auto simp: maintains_def ends_def w_call_def Let_def split: list.splits prod.splits) (metis snd_conv)

lemma keeps_drop [keeps_rules]: "maintains I J m \<Longrightarrow> maintains I J (w_drop m)"
  unfolding w_drop_def by (intro keeps_rules)

section \<open>What most calls leave alone\<close>

text \<open>\<open>quiet view m\<close>: the program does not change the view, nor does any part of it.\<close>

definition quiet :: "(supervisor \<Rightarrow> 'v) \<Rightarrow> 'a wm \<Rightarrow> bool" where
  "quiet view m \<longleftrightarrow> (\<forall>v. maintains (\<lambda>w. view w = v) (\<lambda>w. view w = v) m)"

named_theorems quiet_rules \<open>programs that leave a view alone\<close>

lemma quiet_keeps:
  assumes "quiet view m" "\<And>v. P v \<Longrightarrow> Q v"
  shows "maintains (\<lambda>w. P (view w)) (\<lambda>w. Q (view w)) m"
  unfolding maintains_def
proof (intro allI impI)
  fix w assume "P (view w)"
  with assms(2) have "Q (view w)" "P (view w)" by simp_all
  then show "ends m (\<lambda>_ w'. P (view w')) (\<lambda>_ w'. Q (view w')) w"
    using assms(1) unfolding quiet_def maintains_def by (force elim!: ends_mono)
qed

lemma quiet_return [quiet_rules]: "quiet view (b_return a)"
  by (simp add: quiet_def keeps_rules)

lemma quiet_query [quiet_rules]: "quiet view (b_query f)"
  by (simp add: quiet_def keeps_rules)

lemma quiet_modify: "(\<And>w. view (g w) = view w) \<Longrightarrow> quiet view (b_modify g)"
  unfolding quiet_def by (intro allI keeps_modify) simp

lemma quiet_then [quiet_rules]: "quiet view m \<Longrightarrow> (\<And>a. quiet view (f a)) \<Longrightarrow> quiet view (b_then m f)"
  unfolding quiet_def by (intro allI keeps_then) simp_all

lemma quiet_drop [quiet_rules]: "quiet view m \<Longrightarrow> quiet view (w_drop m)"
  unfolding quiet_def by (intro allI keeps_drop) simp

lemma quiet_if [quiet_rules]: "(c \<Longrightarrow> quiet view m) \<Longrightarrow> (\<not> c \<Longrightarrow> quiet view n) \<Longrightarrow> quiet view (if c then m else n)"
  by simp

lemma quiet_option [quiet_rules]:
  "quiet view m \<Longrightarrow> (\<And>a. quiet view (f a)) \<Longrightarrow> quiet view (case x of None \<Rightarrow> m | Some a \<Rightarrow> f a)"
  by (cases x) simp_all

lemma quiet_pair [quiet_rules]: "(\<And>a b. quiet view (f a b)) \<Longrightarrow> quiet view (case x of (a, b) \<Rightarrow> f a b)"
  by (cases x) simp

lemma quiet_let [quiet_rules]: "(\<And>a. quiet view (f a)) \<Longrightarrow> quiet view (let a = x in f a)"
  by simp

lemma quiet_call:
  assumes "\<And>ob obs w. view (snd (f ob (w\<lparr>sv_script := obs, sv_files := apply_others (ob_others ob) (sv_files w)\<rparr>))) = view w"
  shows "quiet view (w_call f)"
  unfolding quiet_def by (intro allI keeps_call) (simp_all add: assms)

lemma ends_call: "ends (w_call f) P E w = (case sv_script w of
    [] \<Rightarrow> E () w
  | ob # obs \<Rightarrow> (let (a, w') = f ob (w\<lparr>sv_script := obs, sv_files := apply_others (ob_others ob) (sv_files w)\<rparr>) in P a w'))"
  by (auto simp: ends_def w_call_def Let_def split: list.split prod.split)

lemma poll_loop_ends:
  assumes turn: "\<And>w. I w \<Longrightarrow> ends turn (\<lambda>v w'. case v of None \<Rightarrow> I w' | Some a \<Rightarrow> P a w') E w"
    and stop: "\<And>w. I w \<Longrightarrow> E () w"
  shows "I w \<Longrightarrow> ends (poll_loop turn) P E w"
proof (induction "length (sv_script w)" arbitrary: w rule: less_induct)
  case less
  have t: "ends turn (\<lambda>v w'. case v of None \<Rightarrow> I w' | Some a \<Rightarrow> P a w') E w" by (rule turn) (rule less.prems)
  then show ?case
    unfolding ends_def poll_loop.simps [of turn w]
    by (auto split: prod.splits sum.splits option.splits simp: stop dest: less.hyps [unfolded ends_def])
qed

lemma ends_conj:
  "ends m P E w \<Longrightarrow> ends m P' E' w \<Longrightarrow> ends m (\<lambda>a w. P a w \<and> P' a w) (\<lambda>e w. E e w \<and> E' e w) w"
  by (auto simp: ends_def split: prod.splits sum.splits)

text \<open>Every turn of a loop that asks for another takes an observation, as \<open>poll\_loop\<close> tests.\<close>

lemma polls_consume:
  "ends (await_poll d) (\<lambda>v w'. v = None \<longrightarrow> length (sv_script w') < length (sv_script w)) (\<lambda>_ _. True) w"
  "ends (restore_poll d) (\<lambda>v w'. v = None \<longrightarrow> length (sv_script w') < length (sv_script w)) (\<lambda>_ _. True) w"
  unfolding await_poll_def restore_poll_def p_try_wait_def p_probe_def w_now_def
  by (auto simp: ends_simps ends_call Let_def w_deed_def reap_process_def split: option.split list.split)

section \<open>What every pass maintains\<close>

text \<open>A run is its checks and then passes; what both maintain holds wherever the run is stopped.\<close>

locale supervision =
  fixes between :: "supervisor \<Rightarrow> bool" and within :: "supervisor \<Rightarrow> bool"
  assumes checks: "maintains between within run_checks"
    and pass: "maintains between within tick"
    and weaker: "between w \<Longrightarrow> within w"
begin

lemma passes: "maintains between within (run_ticks n)"
  by (induction n) (auto intro!: keeps_rules pass)

lemma whole_run: "maintains between within (sv_run n)"
  unfolding sv_run_def by (intro keeps_rules checks passes)

lemma stopped_anywhere: "between w \<Longrightarrow> within (snd (sv_run n w))"
  by (rule ends_snd, rule ends_keeps [OF whole_run]) (simp_all add: weaker)

end

end
