(* ===== verification/WatchdogStage.thy ===== *)
theory WatchdogStage
  imports WatchdogRuns
begin

text \<open>
  The client's half of \<open>wa-watchdog/src/swap.rs\<close>: checking a pin, staging the bytes, proving them on a spare
  port, asking for the switch and waiting for its result.  The world is the supervisor's: files others may
  change between any two calls, a script of what calls find, the processes this program has started.
\<close>

section \<open>Pins\<close>

text \<open>\<open>String::len\<close> counts bytes; \<open>char::is\_ascii\_hexdigit\<close>.\<close>

definition is_hex_char :: "rchar \<Rightarrow> bool" where
  "is_hex_char c \<longleftrightarrow> 48 \<le> c \<and> c \<le> 57 \<or> 65 \<le> c \<and> c \<le> 70 \<or> 97 \<le> c \<and> c \<le> 102"

datatype stage_error = BadPin nat | NotAFile str | CannotHash str | PinMismatch str str | NoFileName str
  | CannotCreate str | CannotCopy str | CannotMove str

definition parse_pin :: "str \<Rightarrow> stage_error + str" where
  "parse_pin s = (let pin = lower (trim s) in
     if length (utf8 pin) \<noteq> 64 \<or> \<not> list_all is_hex_char pin then Inl (BadPin (length (utf8 pin))) else Inr pin)"

section \<open>Files as bytes\<close>

definition content_bytes :: "content \<Rightarrow> bytes" where
  "content_bytes c = (case c of Text s \<Rightarrow> utf8 s | Binary bs \<Rightarrow> bs)"

text \<open>The digest of a file, whose reads are one call.\<close>

definition w_digest :: "str \<Rightarrow> str option wm" where
  "w_digest path = w_call (\<lambda>ob w.
     (if ob_io ob then (case bm_get (sv_files w) path of Some c \<Rightarrow> Some (sha256_hex (content_bytes c)) | None \<Rightarrow> None) else None, w))"

definition w_copy :: "str \<Rightarrow> str \<Rightarrow> bool wm" where
  "w_copy src dst = w_call (\<lambda>ob w. case bm_get (sv_files w) src of
     Some c \<Rightarrow> if ob_io ob then (True, w\<lparr>sv_files := bm_insert dst (Binary (content_bytes c)) (sv_files w)\<rparr>) else (False, w)
   | None \<Rightarrow> (False, w))"

definition verify_pin :: "str \<Rightarrow> str \<Rightarrow> (stage_error + unit) wm" where
  "verify_pin path pin =
     b_then (w_exists path) (\<lambda>there.
     if \<not> there then b_return (Inl (NotAFile path))
     else b_then (w_digest path) (\<lambda>d. b_return (case d of
         None \<Rightarrow> Inl (CannotHash path)
       | Some actual \<Rightarrow> if actual = pin then Inr () else Inl (PinMismatch pin actual))))"

section \<open>Staging\<close>

text \<open>\<open>Path::file\_name\<close>: the last component, unless it leads upwards or there is none.\<close>

definition file_name_of :: "str \<Rightarrow> str option" where
  "file_name_of path = (let parts = filter (\<lambda>p. p \<noteq> [] \<and> p \<noteq> [46]) (split_on 47 path) in
     if parts = [] \<or> last parts = [46, 46] then None else Some (last parts))"

definition stage_dir :: "str \<Rightarrow> str" where
  "stage_dir pin = lit ''bin/'' @ take 12 pin @ [47]"

definition stage_temporary :: "str \<Rightarrow> str \<Rightarrow> nat \<Rightarrow> str" where
  "stage_temporary pin name pid = stage_dir pin @ name @ lit ''.staging'' @ dec pid"

text \<open>The copy is checked before it gets its name; a copy that is already there is checked instead.\<close>

definition stage_copy :: "str \<Rightarrow> str \<Rightarrow> str \<Rightarrow> (stage_error + str) wm" where
  "stage_copy binary name pin =
     b_then (b_query sv_pid) (\<lambda>pid.
     let temporary = stage_temporary pin name pid; target = stage_dir pin @ name in
     b_then (w_copy binary temporary) (\<lambda>copied.
     if \<not> copied then b_return (Inl (CannotCopy temporary))
     else
       b_then (verify_pin temporary pin) (\<lambda>r. case r of
         Inl e \<Rightarrow> b_return (Inl e)
       | Inr _ \<Rightarrow>
           b_then (w_rename temporary target) (\<lambda>moved.
           if moved then b_return (Inr target)
           else b_then (w_remove temporary) (\<lambda>_. b_return (Inl (CannotMove target)))))))"

definition stage :: "str \<Rightarrow> str \<Rightarrow> (stage_error + str) wm" where
  "stage binary pin =
    (case file_name_of binary of
       None \<Rightarrow> b_return (Inl (NoFileName binary))
     | Some name \<Rightarrow>
         b_then home_ensure (\<lambda>there.
         if \<not> there then b_return (Inl (CannotCreate (stage_dir pin)))
         else
           b_then (w_exists (stage_dir pin @ name)) (\<lambda>old.
           b_then (if old then w_digest (stage_dir pin @ name) else b_return None) (\<lambda>d.
           if d = Some pin then b_return (Inr (stage_dir pin @ name))
           else stage_copy binary name pin))))"

section \<open>Proving\<close>

record proof_result =
  pf_ok :: bool
  pf_port :: nat
  pf_detail :: str

definition HOME_VAR :: str where "HOME_VAR = lit ''WASM_AGENT_HOME''"

definition proof_env :: "watch_config \<Rightarrow> str \<Rightarrow> (str \<times> str) list" where
  "proof_env c scratch =
     filter (\<lambda>(name, _). name \<noteq> HOME_VAR) ([(HOME_VAR, scratch), (lit ''WASM_AGENT_MANAGED'', lit ''0'')] @ wc_env c)
     @ [(HOME_VAR, scratch)]"

definition PROOF_ENV_REMOVE :: "str list" where
  "PROOF_ENV_REMOVE = [lit ''WASM_AGENT_RENDEZVOUS'', lit ''WASM_AGENT_RELAY'']"

text \<open>What a child sees: the inherited environment without the removed names, then each assignment in turn.\<close>

definition child_env :: "str list \<Rightarrow> (str \<times> str) list \<Rightarrow> (str \<rightharpoonup> str) \<Rightarrow> (str \<rightharpoonup> str)" where
  "child_env removed env inherited = fold (\<lambda>(name, v) m. m(name \<mapsto> v)) env (fold (\<lambda>name m. m(name := None)) removed inherited)"

definition work_free :: "str \<Rightarrow> bool wm" where
  "work_free scratch = w_call (\<lambda>ob w.
     if ob_io ob then (True, w\<lparr>sv_files := filter (\<lambda>(n, _). \<not> prefix (scratch @ [47]) n) (sv_files w)\<rparr>) else (False, w))"

text \<open>One turn: gone, ready, out of time, or the probe to remember.\<close>

datatype proving = ProofExited str probe | ProofReady | ProofLate probe

definition prove_turn :: "nat \<Rightarrow> nat \<Rightarrow> probe \<Rightarrow> (probe + proving) wm" where
  "prove_turn pid deadline before =
     b_then (p_try_wait pid) (\<lambda>exit. case exit of
       Some (_, how) \<Rightarrow> b_return (Inr (ProofExited how before))
     | None \<Rightarrow>
         b_then p_probe (\<lambda>p.
         if probe_ready p then b_return (Inr ProofReady)
         else b_then w_now (\<lambda>now. b_return (if now \<ge> deadline then Inr (ProofLate p) else Inl p))))"

function prove_loop :: "nat \<Rightarrow> nat \<Rightarrow> probe \<Rightarrow> proving wm" where
  "prove_loop pid deadline before w = (case prove_turn pid deadline before w of
     (Inl u, w') \<Rightarrow> (Inl u, w')
   | (Inr (Inr v), w') \<Rightarrow> (Inr v, w')
   | (Inr (Inl p), w') \<Rightarrow>
       if length (sv_script w') < length (sv_script w) then prove_loop pid deadline p w' else (Inl (), w'))"
  by pat_completeness auto
termination
  by (relation "measure (\<lambda>(_, _, _, w). length (sv_script w))") auto

declare prove_loop.simps [simp del]

definition proof_detail :: "nat \<Rightarrow> nat \<Rightarrow> proving \<Rightarrow> str" where
  "proof_detail port window v = (case v of
     ProofReady \<Rightarrow> lit ''answered /health on :'' @ dec port
   | ProofExited how p \<Rightarrow> lit ''exited ('' @ how @ lit '') before answering /health on :'' @ dec port @
       lit ''; the last probe said: '' @ why_not p
   | ProofLate p \<Rightarrow> lit ''did not answer /health on :'' @ dec port @ lit '' within '' @ dec window @ lit ''ms ('' @ why_not p @ lit '')'')"

text \<open>The candidate, once it has been started: waited for, then ended, whatever came of it.\<close>

definition prove_child :: "watch_config \<Rightarrow> nat \<Rightarrow> str \<Rightarrow> nat \<Rightarrow> proof_result wm" where
  "prove_child c port scratch pid =
     b_then w_now (\<lambda>now.
     b_then (prove_loop pid (now + wc_start_timeout_ms c) ((probe_silent [])\<lparr>pb_detail := None\<rparr>)) (\<lambda>v.
     b_then (p_kill pid) (\<lambda>_.
     b_then (work_free scratch) (\<lambda>_.
     b_return \<lparr>pf_ok = (v = ProofReady), pf_port = port, pf_detail = proof_detail port (wc_start_timeout_ms c) v\<rparr>))))"

text \<open>\<open>free\<close> is the answer of the operating system when it is asked for a port.\<close>

definition prove_on :: "watch_config \<Rightarrow> str \<Rightarrow> str \<Rightarrow> nat \<Rightarrow> proof_result wm" where
  "prove_on c binary scratch port =
     (let failed = (\<lambda>detail. b_return \<lparr>pf_ok = False, pf_port = port, pf_detail = detail\<rparr>) in
     b_then (work_free scratch) (\<lambda>_.
     b_then home_ensure (\<lambda>there.
     if \<not> there then failed (lit ''cannot create the proof home '' @ scratch)
     else case resolve_args c (proof_view scratch port) (wc_kernel_args c) of
         Inl e \<Rightarrow> failed (launch_error_text (BadArgs e))
       | Inr _ \<Rightarrow>
           b_then (p_spawn binary) (\<lambda>r. case r of
             Inl e \<Rightarrow> failed (lit ''cannot start the candidate: '' @ e)
           | Inr pid \<Rightarrow> prove_child c port scratch pid))))"

definition prove :: "str + nat \<Rightarrow> watch_config \<Rightarrow> str \<Rightarrow> str \<Rightarrow> proof_result wm" where
  "prove free c binary name =
     (let scratch = lit ''work/proof-'' @ name in
      if wc_spare_port c \<noteq> 0 then prove_on c binary scratch (wc_spare_port c)
      else case free of
          Inl e \<Rightarrow> b_return \<lparr>pf_ok = False, pf_port = 0, pf_detail = lit ''no spare port could be found: '' @ e\<rparr>
        | Inr port \<Rightarrow> prove_on c binary scratch port)"

section \<open>Asking\<close>

definition write_request :: "swap_request \<Rightarrow> str option wm" where
  "write_request r = b_then (write_atomic (request_path (sr_id r)) (request_to_json r @ [10])) (\<lambda>good.
     b_return (if good then Some (request_path (sr_id r)) else None))"

definition wait_turn :: "str \<Rightarrow> nat \<Rightarrow> swap_result option option wm" where
  "wait_turn path deadline =
     b_then (w_read path) (\<lambda>s.
     case (case s of Some s \<Rightarrow> result_from_json s | None \<Rightarrow> None) of
       Some r \<Rightarrow> b_return (Some (Some r))
     | None \<Rightarrow> b_then w_now (\<lambda>now. b_return (if now \<ge> deadline then Some None else None)))"

definition wait_result :: "str \<Rightarrow> nat \<Rightarrow> swap_result option wm" where
  "wait_result name timeout =
     b_then w_now (\<lambda>now. poll_loop (wait_turn (results_dir @ name @ lit ''.json'') (now + timeout)))"

end
