(* ===== verification/WatchdogKernel.thy ===== *)
theory WatchdogKernel
  imports WatchdogRuns
begin

text \<open>
  One kernel at a time: in every state a run can be stopped in, at most one of the processes the
  supervisor has started is alive, and between passes it is the child.
\<close>

section \<open>The processes\<close>

fun live :: "deed list \<Rightarrow> (nat \<times> str) list" where
  "live [] = []"
| "live (Spawned p b # t) = (p, b) # live t"
| "live (Ended p # t) = filter (\<lambda>(q, _). q \<noteq> p) (live t)"
| "live (_ # t) = live t"

text \<open>At every moment of the past at most one process was alive.\<close>

fun never_two :: "deed list \<Rightarrow> bool" where
  "never_two [] \<longleftrightarrow> True"
| "never_two (d # t) \<longleftrightarrow> length (live (d # t)) \<le> 1 \<and> never_two t"

definition procs_view :: "supervisor \<Rightarrow> nat option \<times> nat option \<times> (nat \<times> str) list \<times> (nat \<times> str) list \<times> bool" where
  "procs_view w = (sv_child w, sv_child_pid w, sv_procs w, live (sv_trace w), never_two (sv_trace w))"

definition child_is_process :: "nat option \<times> nat option \<times> (nat \<times> str) list \<times> (nat \<times> str) list \<times> bool \<Rightarrow> bool" where
  "child_is_process = (\<lambda>(child, pid, ps, alive, past). past \<and> ps = alive \<and> pid = child \<and>
     (case child of None \<Rightarrow> ps = [] | Some p \<Rightarrow> map fst ps = [p]))"

definition no_process :: "nat option \<times> nat option \<times> (nat \<times> str) list \<times> (nat \<times> str) list \<times> bool \<Rightarrow> bool" where
  "no_process v \<longleftrightarrow> child_is_process v \<and> fst v = None"

definition at_most_one :: "nat option \<times> nat option \<times> (nat \<times> str) list \<times> (nat \<times> str) list \<times> bool \<Rightarrow> bool" where
  "at_most_one = (\<lambda>(child, pid, ps, alive, past). past \<and> ps = alive \<and> length ps \<le> 1)"

abbreviation one_kernel :: "supervisor \<Rightarrow> bool" where
  "one_kernel w \<equiv> child_is_process (procs_view w)"

abbreviation idle :: "supervisor \<Rightarrow> bool" where
  "idle w \<equiv> no_process (procs_view w)"

abbreviation never_more :: "supervisor \<Rightarrow> bool" where
  "never_more w \<equiv> at_most_one (procs_view w)"

lemma one_kernel_never_more: "child_is_process v \<Longrightarrow> at_most_one v" "no_process v \<Longrightarrow> at_most_one v"
  by (auto simp: child_is_process_def at_most_one_def no_process_def length_Suc_conv split: option.splits prod.splits)

lemma never_two_live: "never_two t \<Longrightarrow> length (live t) \<le> 1"
  by (cases t) auto

text \<open>Every call but those of processes leaves them alone.\<close>

lemmas calls = home_ensure_def w_now_def w_wall_def w_read_def w_exists_def w_remove_def w_rename_def w_write_def list_requests_def p_probe_def
  p_wait_port_def

lemma quiet_calls [quiet_rules]:
  "quiet procs_view w_now" "quiet procs_view w_wall" "quiet procs_view (w_read n)" "quiet procs_view (w_exists n)"
  "quiet procs_view (w_remove n)" "quiet procs_view (w_rename n n')" "quiet procs_view (w_write n s)"
  "quiet procs_view list_requests" "quiet procs_view p_probe" "quiet procs_view p_wait_port" "quiet procs_view home_ensure"
  unfolding calls
  by (rule quiet_call; auto simp: procs_view_def w_deed_def dest: never_two_live split: option.split)+

lemma quiet_event [quiet_rules]: "quiet procs_view (w_event e)"
  unfolding w_event_def by (rule quiet_modify) (simp add: procs_view_def)

lemmas quiet_unfold = procs_view_def w_deed_def

lemma quiet_write_atomic [quiet_rules]: "quiet procs_view (write_atomic p s)"
  unfolding write_atomic_def by (intro quiet_rules)

lemma quiet_read_current [quiet_rules]: "quiet procs_view read_current"
  unfolding read_current_def by (intro quiet_rules)

lemma quiet_write_current [quiet_rules]: "quiet procs_view (write_current a)"
  unfolding write_current_def
  by (intro quiet_rules quiet_modify) (auto simp: quiet_unfold dest: never_two_live)

lemma quiet_write_result [quiet_rules]: "quiet procs_view (write_result r)"
  unfolding write_result_def
  by (intro quiet_rules quiet_modify) (auto simp: quiet_unfold dest: never_two_live)

lemma quiet_active [quiet_rules]: "quiet procs_view active"
  unfolding active_def by (intro quiet_rules)

lemma quiet_write_pid [quiet_rules]: "quiet procs_view (write_pid p n)"
  unfolding write_pid_def by (intro quiet_rules)

lemma quiet_write_status [quiet_rules]: "quiet procs_view (sv_write_status force)"
  unfolding sv_write_status_def sv_status_def write_status_file_def
  by (intro quiet_rules quiet_modify) (simp_all add: quiet_unfold)

lemma quiet_schedule [quiet_rules]: "quiet procs_view schedule_restart"
  unfolding schedule_restart_def by (intro quiet_rules quiet_modify) (simp_all add: quiet_unfold)

lemma quiet_read_requests [quiet_rules]: "quiet procs_view (read_requests ns)"
proof (induction ns)
  case (Cons n ns)
  show ?case unfolding read_requests.simps by (intro quiet_rules Cons)
qed (simp add: quiet_rules)

lemma quiet_pending [quiet_rules]: "quiet procs_view pending_requests"
  unfolding pending_requests_def by (intro quiet_rules)

lemma quiet_claim [quiet_rules]: "quiet procs_view (claim p)"
  unfolding claim_def by (intro quiet_rules)

lemma quiet_record_rollback [quiet_rules]: "quiet procs_view (record_rollback d a)"
  unfolding record_rollback_def by (intro quiet_rules quiet_modify) (simp_all add: quiet_unfold)

lemma quiet_serving [quiet_rules]: "quiet procs_view serving"
  unfolding serving_def by (intro quiet_rules quiet_modify) (simp_all add: quiet_unfold)

lemma quiet_settle_swap [quiet_rules]: "quiet procs_view (settle_swap r a)"
  unfolding settle_swap_def open_window_def report_settled_def by (intro quiet_rules quiet_modify) (simp_all add: quiet_unfold)

lemma quiet_recent [quiet_rules]: "quiet procs_view recent_swap"
  unfolding recent_swap_def by (intro quiet_rules)

lemma quiet_adopt [quiet_rules]: "quiet procs_view (adopt a)"
  unfolding adopt_def by (intro quiet_rules)

lemma quiet_settle [quiet_rules]: "quiet procs_view health_settle"
  unfolding health_settle_def by (intro quiet_rules quiet_modify) (simp_all add: quiet_unfold)

text \<open>So they keep what is said of processes.\<close>

lemma quiet_one: "quiet procs_view m \<Longrightarrow> maintains one_kernel never_more m"
  by (rule quiet_keeps) (simp_all add: one_kernel_never_more)

lemma quiet_idle: "quiet procs_view m \<Longrightarrow> maintains idle never_more m"
  by (rule quiet_keeps) (simp_all add: one_kernel_never_more)

section \<open>Launching and stopping\<close>

lemma idle_one: "idle w \<Longrightarrow> one_kernel w"
  by (simp add: no_process_def)

lemma launch_one:
  assumes "idle w"
  shows "ends (launch a) (\<lambda>r w'. one_kernel w' \<and> (\<forall>e. r = Inl e \<longrightarrow> idle w')) (\<lambda>_. never_more) w"
  using assms unfolding launch_def p_spawn_def w_now_def
  by (auto simp: ends_simps ends_call Let_def procs_view_def no_process_def child_is_process_def at_most_one_def w_deed_def
      split: sum.split list.split prod.split)

lemma stop_child_idle:
  assumes "one_kernel w"
  shows "ends stop_child (\<lambda>_. idle) (\<lambda>_. never_more) w"
  using assms unfolding stop_child_def p_kill_def w_remove_def reap_process_def
  by (auto simp: ends_simps ends_call Let_def procs_view_def no_process_def child_is_process_def at_most_one_def w_deed_def
      map_eq_Cons_conv split: option.split list.split prod.split)

lemma try_wait_lose:
  assumes "one_kernel w" "sv_child w = Some p"
  shows "ends (p_try_wait p) (\<lambda>exit w'. if exit = None then one_kernel w' else idle (lose_child w')) (\<lambda>_. never_more) w"
proof -
  have "never_two (sv_trace w) \<and> sv_procs w = live (sv_trace w) \<and> sv_child_pid w = Some p \<and> map fst (sv_procs w) = [p]"
    using assms(1) unfolding procs_view_def child_is_process_def assms(2) prod.case option.case by blast
  then have one: "map fst (sv_procs w) = [p]" "sv_procs w = live (sv_trace w)" "sv_child_pid w = Some p" "never_two (sv_trace w)"
    by blast+
  then obtain b where "live (sv_trace w) = [(p, b)]" by (cases "live (sv_trace w)") auto
  with one show ?thesis
    using assms(2) unfolding p_try_wait_def reap_process_def lose_child_def
    by (auto simp: ends_call Let_def procs_view_def no_process_def child_is_process_def at_most_one_def w_deed_def
        split: list.split)
qed

section \<open>Programs that start and stop kernels\<close>

text \<open>From an idle supervisor, or from one with a kernel, into one of them.\<close>

definition from_idle :: "'a wm \<Rightarrow> bool" where
  "from_idle m \<longleftrightarrow> (\<forall>w. idle w \<longrightarrow> ends m (\<lambda>_. one_kernel) (\<lambda>_. never_more) w)"

definition to_idle :: "'a wm \<Rightarrow> bool" where
  "to_idle m \<longleftrightarrow> (\<forall>w. one_kernel w \<longrightarrow> ends m (\<lambda>_. idle) (\<lambda>_. never_more) w)"

abbreviation safe :: "'a wm \<Rightarrow> bool" where
  "safe m \<equiv> maintains one_kernel never_more m"

lemma safe_quiet: "quiet procs_view m \<Longrightarrow> safe m"
  by (rule quiet_one)

lemma from_idle_quiet: "quiet procs_view m \<Longrightarrow> (\<And>a. from_idle (f a)) \<Longrightarrow> from_idle (b_then m f)"
  unfolding from_idle_def ends_then by (blast intro: ends_keeps [OF quiet_idle])

lemma from_idle_safe: "safe m \<Longrightarrow> from_idle m"
  using idle_one by (auto simp: from_idle_def maintains_def)

lemma from_idle_then: "from_idle m \<Longrightarrow> (\<And>a. safe (f a)) \<Longrightarrow> from_idle (b_then m f)"
  by (auto simp: from_idle_def ends_then maintains_def elim!: ends_mono)

lemma to_idle_then: "to_idle m \<Longrightarrow> (\<And>a. from_idle (f a)) \<Longrightarrow> safe (b_then m f)"
  by (auto simp: from_idle_def to_idle_def ends_then maintains_def elim!: ends_mono)

lemma from_idle_if: "from_idle m \<Longrightarrow> from_idle n \<Longrightarrow> from_idle (if c then m else n)"
  by simp

lemma to_idle_stop: "to_idle stop_child"
  using stop_child_idle by (simp add: to_idle_def)

lemma from_idle_launch: "from_idle (launch a)"
  unfolding from_idle_def by (blast intro: ends_mono [OF launch_one])

lemma safe_poll: "safe turn \<Longrightarrow> safe (poll_loop turn)"
  unfolding maintains_def
  by (intro allI impI poll_loop_ends [where I = one_kernel])
    (auto elim!: ends_mono simp: one_kernel_never_more split: option.split)

text \<open>A turn that finds the child dead leaves no process.\<close>

lemma safe_wait_child:
  assumes "quiet procs_view rest"
  shows "safe (b_then (b_query sv_child) (\<lambda>child.
     b_then (case child of Some p \<Rightarrow> p_try_wait p | None \<Rightarrow> b_return None) (\<lambda>exit. case exit of
       Some x \<Rightarrow> b_then (b_modify lose_child) (\<lambda>_. b_return (f x))
     | None \<Rightarrow> rest)))"
  unfolding maintains_def
proof (intro allI impI)
  fix w assume one: "one_kernel w"
  show "ends (b_then (b_query sv_child) (\<lambda>child.
     b_then (case child of Some p \<Rightarrow> p_try_wait p | None \<Rightarrow> b_return None) (\<lambda>exit. case exit of
       Some x \<Rightarrow> b_then (b_modify lose_child) (\<lambda>_. b_return (f x))
     | None \<Rightarrow> rest))) (\<lambda>_. one_kernel) (\<lambda>_. never_more) w"
  proof (cases "sv_child w")
    case None
    then show ?thesis using maintainsD [OF safe_quiet [OF assms] one] by (simp add: ends_simps)
  next
    case (Some p)
    show ?thesis
      unfolding ends_then ends_query using Some
      by (auto intro!: ends_mono [OF try_wait_lose [OF one Some]] maintainsD [OF safe_quiet [OF assms]]
          simp: ends_simps idle_one split: option.splits)
  qed
qed

lemma safe_await: "safe (await_poll d)"
  unfolding await_poll_def case_prod_unfold by (rule safe_wait_child) (intro quiet_rules)

lemma safe_restore: "safe (restore_poll d)"
  unfolding restore_poll_def
  by (intro keeps_then safe_quiet quiet_rules keeps_if keeps_return safe_wait_child) 

section \<open>Every pass\<close>

lemma from_idle_try: "from_idle (try_kernel a)"
  unfolding try_kernel_def
  by (intro from_idle_quiet quiet_rules from_idle_if from_idle_then [OF from_idle_launch]
      from_idle_safe [OF keeps_return] keeps_sum keeps_then keeps_return safe_quiet safe_poll safe_await)

lemma from_idle_restore: "from_idle (restore_kernel a)"
  unfolding restore_kernel_def
  by (intro from_idle_then [OF from_idle_launch] keeps_sum keeps_then keeps_return safe_quiet quiet_rules safe_poll safe_restore)

lemma safe_roll_back: "safe (roll_back r a why)"
proof -
  have phase: "quiet procs_view (b_modify (\<lambda>w. w\<lparr>sv_phase := PhStarting\<rparr>))"
    "quiet procs_view (b_modify (\<lambda>w. w\<lparr>sv_restart_at := now\<rparr>))" for now
    by (rule quiet_modify; simp add: quiet_unfold)+
  show ?thesis
    unfolding roll_back_def Let_def
    by (intro to_idle_then [OF to_idle_stop] from_idle_quiet quiet_rules from_idle_then [OF from_idle_restore]
        keeps_then keeps_if safe_quiet phase)
qed

lemma safe_perform_swap: "safe (perform_swap r)"
proof -
  have phase: "quiet procs_view (b_modify (\<lambda>w. w\<lparr>sv_phase := PhSwapping, sv_stability := None\<rparr>))"
    by (rule quiet_modify) (simp add: quiet_unfold)
  show ?thesis
    unfolding perform_swap_def begin_swap_def
    by (intro keeps_then keeps_option keeps_if safe_quiet quiet_rules phase to_idle_then [OF to_idle_stop]
        from_idle_then [OF from_idle_try] safe_roll_back)
qed

lemma safe_tick_swap: "safe tick_swap"
  unfolding tick_swap_def
  by (intro keeps_rules safe_quiet quiet_rules safe_perform_swap)

lemma from_idle_start: "from_idle start_kernel"
proof -
  have fields: "quiet procs_view (b_modify (\<lambda>w. w\<lparr>sv_exited := True\<rparr>))" "quiet procs_view (b_modify (\<lambda>w. w\<lparr>sv_phase := PhBackoff\<rparr>))"
    by (rule quiet_modify; simp add: quiet_unfold)+
  have some: "from_idle (case x of None \<Rightarrow> m | Some a \<Rightarrow> f a)" if "from_idle m" "\<And>a. from_idle (f a)" for x and m :: "unit wm" and f
    using that by (cases x) simp_all
  show ?thesis
    unfolding start_kernel_def
    by (intro from_idle_quiet quiet_rules some from_idle_safe [OF safe_quiet] from_idle_then [OF from_idle_launch]
        keeps_sum keeps_then safe_quiet fields)
qed


lemma from_idle_ends: "from_idle m \<Longrightarrow> idle w \<Longrightarrow> ends m (\<lambda>_. one_kernel) (\<lambda>_. never_more) w"
  by (simp add: from_idle_def)

lemma from_idle_at: "from_idle m \<Longrightarrow> one_kernel w \<Longrightarrow> sv_child w = None \<Longrightarrow> ends m (\<lambda>_. one_kernel) (\<lambda>_. never_more) w"
  by (rule from_idle_ends) (simp_all add: no_process_def, simp add: procs_view_def)

lemma safe_tick_start: "safe tick_start"
  unfolding maintains_def
proof (intro allI impI)
  fix w assume one: "one_kernel w"
  have "from_idle (b_then w_now (\<lambda>now. if now \<ge> sv_restart_at w then start_kernel else b_return ()))"
    by (intro from_idle_quiet quiet_rules from_idle_if from_idle_start from_idle_safe [OF keeps_return])
  with one show "ends tick_start (\<lambda>_. one_kernel) (\<lambda>_. never_more) w"
    unfolding tick_start_def ends_then ends_query by (simp add: ends_simps) (metis ends_then from_idle_at)
qed

lemma safe_kill_and_restart: "safe kill_and_restart"
proof -
  have fields: "quiet procs_view (b_modify (\<lambda>w. w\<lparr>sv_phase := PhBackoff, sv_restarts := sv_restarts w + 1\<rparr>))"
    by (rule quiet_modify) (simp add: quiet_unfold)
  show ?thesis
    unfolding kill_and_restart_def
    by (intro to_idle_then [OF to_idle_stop] from_idle_safe [OF safe_quiet] quiet_rules fields)
qed

lemma safe_tick_health: "safe tick_health"
proof -
  have fields: "quiet procs_view (b_modify (\<lambda>w. w\<lparr>sv_phase := PhHealthy, sv_attempt := 0, sv_probe_misses := 0\<rparr>))"
    "quiet procs_view (b_modify (\<lambda>w. w\<lparr>sv_probe_misses := 0\<rparr>))"
    "quiet procs_view (b_modify (\<lambda>w. w\<lparr>sv_probe_misses := sv_probe_misses w + 1\<rparr>))"
    by (rule quiet_modify; simp add: quiet_unfold)+
  show ?thesis
    unfolding tick_health_def health_starting_def health_watched_def
    by (intro keeps_rules safe_kill_and_restart safe_quiet [OF fields(1)] safe_quiet [OF fields(2)] safe_quiet [OF fields(3)]
        safe_quiet [OF quiet_event] safe_quiet [OF quiet_settle] safe_quiet [OF quiet_write_pid] safe_quiet [OF quiet_calls(1)]
        safe_quiet [OF quiet_calls(9)])
qed

text \<open>What follows an exit starts with the child gone.\<close>

lemma from_idle_revert: "from_idle (revert_swap uptime a)"
proof -
  have fields: "quiet procs_view (b_modify (\<lambda>w. w\<lparr>sv_stability := None\<rparr>))" "quiet procs_view (b_modify (\<lambda>w. w\<lparr>sv_attempt := 0\<rparr>))"
    "quiet procs_view (b_modify (\<lambda>w. w\<lparr>sv_restart_at := now\<rparr>))" "quiet procs_view (b_modify (\<lambda>w. w\<lparr>sv_phase := PhBackoff\<rparr>))" for now
    by (rule quiet_modify; simp add: quiet_unfold)+
  show ?thesis
    unfolding revert_swap_def
    by (intro from_idle_safe to_idle_then [OF to_idle_stop] keeps_then safe_quiet fields quiet_rules)
qed

lemma settle_exit_safe:
  assumes "idle (lose_child w)"
  shows "ends (settle_exit pid code) (\<lambda>_. one_kernel) (\<lambda>_. never_more) w"
proof -
  have fields: "quiet procs_view (b_modify (\<lambda>w. w\<lparr>sv_last_exit := x\<rparr>))"
    "quiet procs_view (b_modify (\<lambda>w. w\<lparr>sv_phase := fst (transition (sv_phase w) InExited), sv_restarts := sv_restarts w + 1\<rparr>))" for x
    by (rule quiet_modify; simp add: quiet_unfold)+
  have some: "from_idle (case x of None \<Rightarrow> m | Some a \<Rightarrow> f a)" if "from_idle m" "\<And>a. from_idle (f a)" for x and m :: "unit wm" and f
    using that by (cases x) simp_all
  have "from_idle (b_then w_now (\<lambda>now.
     b_then w_wall (\<lambda>wall.
     b_then (b_modify (\<lambda>w. w\<lparr>sv_last_exit := Some \<lparr>le_pid = pid, le_code = code, le_uptime_ms = now - started, le_at_ms = wall\<rparr>\<rparr>)) (\<lambda>_.
     b_then recent_swap (\<lambda>recent. case recent of
       Some previous \<Rightarrow> revert_swap (now - started) previous
     | None \<Rightarrow>
         b_then (b_modify (\<lambda>w. w\<lparr>sv_phase := fst (transition (sv_phase w) InExited), sv_restarts := sv_restarts w + 1\<rparr>)) (\<lambda>_.
         b_then schedule_restart (\<lambda>delay.
         b_then (b_query sv_restarts) (\<lambda>restarts.
         w_event (EvExited pid code (now - started) delay restarts)))))))))" for started
    by (intro from_idle_quiet fields quiet_rules some from_idle_revert from_idle_safe [OF safe_quiet])
  from from_idle_ends [OF this assms] show ?thesis
    unfolding settle_exit_def ends_then [of "b_query _"] ends_then [of "b_modify lose_child"] ends_query ends_modify .
qed

lemma safe_tick_exit: "safe tick_exit"
  unfolding maintains_def
proof (intro allI impI)
  fix w assume one: "one_kernel w"
  show "ends tick_exit (\<lambda>_. one_kernel) (\<lambda>_. never_more) w"
  proof (cases "sv_child w")
    case None
    with one show ?thesis by (simp add: tick_exit_def ends_simps)
  next
    case (Some p)
    show ?thesis
      unfolding tick_exit_def ends_then ends_query using one Some
      by (auto simp: ends_simps intro!: ends_mono [OF try_wait_lose [OF one Some]] settle_exit_safe split: option.splits)
  qed
qed

lemma safe_tick_stop: "safe tick_stop"
proof -
  have fields: "quiet procs_view (b_modify (\<lambda>w. w\<lparr>sv_phase := ph, sv_exited := True\<rparr>))"
    "quiet procs_view (b_modify (\<lambda>w. w\<lparr>sv_phase := PhStopped\<rparr>))" for ph
    by (rule quiet_modify; simp add: quiet_unfold)+
  show ?thesis
    unfolding tick_stop_def
    by (intro keeps_then keeps_query to_idle_then [OF to_idle_stop] from_idle_safe [OF safe_quiet] quiet_rules fields)
qed

lemma safe_tick: "safe tick"
proof -
  have fields: "quiet procs_view (b_modify (\<lambda>w. w\<lparr>sv_events := []\<rparr>))"
    by (rule quiet_modify) (simp add: quiet_unfold)
  show ?thesis
    unfolding tick_def stop_requested_def
    by (intro keeps_then keeps_if keeps_query keeps_return safe_tick_stop safe_tick_exit safe_tick_swap safe_tick_start
        safe_tick_health safe_quiet [OF fields] safe_quiet [OF quiet_calls(4)] safe_quiet [OF quiet_write_status])
qed

interpretation kernel_run: supervision one_kernel never_more
proof unfold_locales
  have fields: "quiet procs_view (b_modify (\<lambda>w. w\<lparr>sv_phase := PhStopped\<rparr>))"
    by (rule quiet_modify) (simp add: quiet_unfold)
  show "safe run_checks"
    unfolding run_checks_def by (intro safe_quiet quiet_rules fields)
qed (rule safe_tick one_kernel_never_more, assumption?)+

end
