(* ===== verification/WatchdogRecord.thy ===== *)
theory WatchdogRecord
  imports WatchdogKernel
begin

text \<open>
  The record of the active kernel names only kernels that have served: the one the home or the
  configuration started with, or one that answered ready while it was the process running.
\<close>

section \<open>What is known\<close>

text \<open>The binaries of the processes that answered ready while they ran.\<close>

fun answered :: "deed list \<Rightarrow> str set" where
  "answered [] = {}"
| "answered (Probed good # t) = (if good then snd ` set (live t) else {}) \<union> answered t"
| "answered (_ # t) = answered t"

text \<open>A binary is known if it, or a text it is the trimmed form of, is one of the first ones or has answered.\<close>

definition known :: "str set \<Rightarrow> deed list \<Rightarrow> str \<Rightarrow> bool" where
  "known base t b \<longleftrightarrow> (\<exists>b0 \<in> base \<union> answered t. b = b0 \<or> b = trim b0)"

fun all_known :: "str set \<Rightarrow> deed list \<Rightarrow> bool" where
  "all_known base [] \<longleftrightarrow> True"
| "all_known base (d # t) \<longleftrightarrow> (case d of Recorded a \<Rightarrow> known base t (ak_binary a) | _ \<Rightarrow> True) \<and> all_known base t"

lemma answered_mono: "answered t \<subseteq> answered (d # t)"
  by (cases d) auto

lemma known_mono: "known base t b \<Longrightarrow> known base (d # t) b"
  using answered_mono [of t d] by (auto simp: known_def)

lemma trim_idem: "trim (trim s) = trim s"
proof (cases "trim s = []")
  case True
  have "trim [] = []" by (simp add: trim_def)
  with True show ?thesis by simp
next
  case False
  let ?l = "dropWhile is_whitespace s"
  have t: "trim s = rev (dropWhile is_whitespace (rev ?l))" by (simp add: trim_def)
  have "last (trim s) = hd (dropWhile is_whitespace (rev ?l))"
    using False t by (simp add: last_rev)
  then have last_ok: "\<not> is_whitespace (last (trim s))"
    using False t by (metis hd_dropWhile rev_is_Nil_conv)
  have "?l \<noteq> []"
  proof
    assume "?l = []"
    then have "trim s = []" unfolding t by (simp only: rev.simps dropWhile.simps)
    with False show False by simp
  qed
  then have first_ok: "\<not> is_whitespace (hd ?l)" by (rule hd_dropWhile)
  have "prefix (trim s) ?l"
    unfolding t by (metis prefix_def rev_append rev_rev_ident takeWhile_dropWhile_id)
  then have "hd (trim s) = hd ?l" using False by (auto simp: prefix_def hd_append)
  then show ?thesis using False first_ok last_ok by (intro trim_fixed) simp_all
qed

lemma known_trim: "known base t b \<Longrightarrow> known base t (trim b)"
  by (auto simp: known_def trim_idem)

section \<open>The invariant\<close>

text \<open>The binaries the two files of the record name.\<close>

definition json_names :: "(str, content) btree \<Rightarrow> str set" where
  "json_names m = {ak_binary a | a c s. bm_get m current_json_path = Some c \<and> content_text c = Some s \<and> active_from_json s = Some a}"

definition plain_names :: "(str, content) btree \<Rightarrow> str set" where
  "plain_names m = {trim s | c s. bm_get m current_path = Some c \<and> content_text c = Some s}"

text \<open>No other program writes the record.\<close>

definition polite :: "observation \<Rightarrow> bool" where
  "polite ob \<longleftrightarrow> (\<forall>(name, c) \<in> set (ob_others ob). \<not> prefix (lit ''current'') name)"

definition record_inv :: "str set \<Rightarrow> str set \<Rightarrow> supervisor \<Rightarrow> bool" where
  "record_inv base held w \<longleftrightarrow> (\<forall>ob \<in> set (sv_script w). polite ob) \<and> all_known base (sv_trace w) \<and>
     (\<forall>b \<in> json_names (sv_files w) \<union> plain_names (sv_files w) \<union> held. known base (sv_trace w) b) \<and>
     (\<forall>a until. sv_stability w = Some (a, until) \<longrightarrow> known base (sv_trace w) (ak_binary a)) \<and>
     (\<forall>a. configured (sv_config w) = Some a \<longrightarrow> ak_binary a \<in> base)"

abbreviation keeps_record :: "str set \<Rightarrow> 'a wm \<Rightarrow> bool" where
  "keeps_record base m \<equiv> (\<forall>held. maintains (record_inv base held) (record_inv base held) m)"

lemma others_keep: "\<forall>(name, c) \<in> set ch. name \<noteq> n \<Longrightarrow> bm_get (apply_others ch m) n = bm_get m n"
proof (induction ch arbitrary: m)
  case (Cons x ch)
  obtain name c where x: "x = (name, c)" by fastforce
  with Cons.prems have "name \<noteq> n" by auto
  then have "bm_get (case c of Some c \<Rightarrow> bm_insert name c m | None \<Rightarrow> bm_remove name m) n = bm_get m n"
    by (auto split: option.split)
  with Cons.IH [of "case c of Some c \<Rightarrow> bm_insert name c m | None \<Rightarrow> bm_remove name m"] Cons.prems x
  show ?case by (simp add: apply_others_def)
qed (simp add: apply_others_def)

lemma record_paths: "prefix (lit ''current'') current_path" "prefix (lit ''current'') current_json_path"
  by (simp_all add: current_path_def current_json_path_def lit_def)

lemma polite_others:
  assumes "polite ob"
  shows "json_names (apply_others (ob_others ob) m) = json_names m" "plain_names (apply_others (ob_others ob) m) = plain_names m"
proof -
  have "\<forall>(name, c) \<in> set (ob_others ob). name \<noteq> current_path" "\<forall>(name, c) \<in> set (ob_others ob). name \<noteq> current_json_path"
    using assms record_paths unfolding polite_def by blast+
  then show "json_names (apply_others (ob_others ob) m) = json_names m" "plain_names (apply_others (ob_others ob) m) = plain_names m"
    by (simp_all add: json_names_def plain_names_def others_keep)
qed

text \<open>A step that names nothing new and records nothing.\<close>

lemma record_grows:
  assumes inv: "record_inv base held w"
    and files: "json_names (sv_files w') \<union> plain_names (sv_files w') \<subseteq> json_names (sv_files w) \<union> plain_names (sv_files w) \<union> held"
    and trace: "sv_trace w' = sv_trace w \<or> (\<exists>d. sv_trace w' = d # sv_trace w \<and> (\<forall>a. d = Recorded a \<longrightarrow> ak_binary a \<in> held))"
    and window: "\<forall>a until. sv_stability w' = Some (a, until) \<longrightarrow> (\<exists>u. sv_stability w = Some (a, u)) \<or> ak_binary a \<in> held"
    and rest: "sv_config w' = sv_config w" "set (sv_script w') \<subseteq> set (sv_script w)"
  shows "record_inv base held w'"
proof -
  have more: "known base (sv_trace w) b \<Longrightarrow> known base (sv_trace w') b" for b
    using trace known_mono by fastforce
  have old: "known base (sv_trace w) b" if "b \<in> json_names (sv_files w) \<union> plain_names (sv_files w) \<union> held" for b
    using inv that by (simp add: record_inv_def)
  have "all_known base (sv_trace w')"
    using trace inv old by (auto simp: record_inv_def split: deed.split)
  moreover have "known base (sv_trace w') b" if "b \<in> json_names (sv_files w') \<union> plain_names (sv_files w') \<union> held" for b
    using that files old more by blast
  moreover have "known base (sv_trace w') (ak_binary a)" if "sv_stability w' = Some (a, until)" for a until
    using that window inv old more by (fastforce simp: record_inv_def)
  moreover have "\<forall>ob \<in> set (sv_script w'). polite ob" using rest(2) inv by (auto simp: record_inv_def)
  ultimately show ?thesis using inv rest(1) by (auto simp: record_inv_def)
qed

lemma record_call:
  assumes "\<And>ob w. record_inv base held w \<Longrightarrow> record_inv base held (snd (f ob w))"
  shows "maintains (record_inv base held) (record_inv base held) (w_call f)"
proof (rule keeps_call)
  fix ob obs w
  assume inv: "record_inv base held w" and s: "sv_script w = ob # obs"
  have "polite ob" using inv s by (simp add: record_inv_def)
  then show "record_inv base held (snd (f ob (w\<lparr>sv_script := obs, sv_files := apply_others (ob_others ob) (sv_files w)\<rparr>)))"
    using s by (intro assms record_grows [OF inv]) (auto simp: polite_others)
qed

lemma record_modify:
  assumes "\<And>w. sv_files (g w) = sv_files w" "\<And>w. sv_trace (g w) = sv_trace w" "\<And>w. sv_config (g w) = sv_config w"
    "\<And>w. sv_script (g w) = sv_script w" "\<And>w. sv_stability (g w) = sv_stability w \<or> sv_stability (g w) = None"
  shows "maintains (record_inv base held) (record_inv base held) (b_modify g)"
proof (rule keeps_modify)
  fix w assume inv: "record_inv base held w"
  have "sv_stability (g w) = sv_stability w \<or> sv_stability (g w) = None" by (rule assms)
  with inv show "record_inv base held (g w)"
    by (auto simp: record_inv_def assms(1-4))
qed

section \<open>Calls\<close>

lemma names_insert:
  "name \<noteq> current_json_path \<Longrightarrow> json_names (bm_insert name c m) = json_names m"
  "name \<noteq> current_path \<Longrightarrow> plain_names (bm_insert name c m) = plain_names m"
  "name \<noteq> current_json_path \<Longrightarrow> json_names (bm_remove name m) = json_names m"
  "name \<noteq> current_path \<Longrightarrow> plain_names (bm_remove name m) = plain_names m"
  by (simp_all add: json_names_def plain_names_def)

lemma record_w_calls:
  "maintains (record_inv base held) (record_inv base held) w_now" "maintains (record_inv base held) (record_inv base held) w_wall"
  "maintains (record_inv base held) (record_inv base held) (w_read n)" "maintains (record_inv base held) (record_inv base held) (w_exists n)"
  "maintains (record_inv base held) (record_inv base held) list_requests"
  "maintains (record_inv base held) (record_inv base held) p_wait_port" "maintains (record_inv base held) (record_inv base held) home_ensure"
  unfolding home_ensure_def w_now_def w_wall_def w_read_def w_exists_def list_requests_def p_wait_port_def
  by (rule record_call; simp)+

lemma record_procs: "record_inv base held (w\<lparr>sv_procs := ps\<rparr>) \<longleftrightarrow> record_inv base held w"
  by (simp add: record_inv_def)

lemma record_deed: "record_inv base held w \<Longrightarrow> \<forall>a. d \<noteq> Recorded a \<Longrightarrow> record_inv base held (w_deed d w)"
  by (erule record_grows) (auto simp: w_deed_def)

lemma record_upd:
  assumes "record_inv base held w" "n \<notin> {current_json_path, current_path}"
  shows "record_inv base held (w\<lparr>sv_files := bm_insert n c (sv_files w)\<rparr>)"
    "record_inv base held (w\<lparr>sv_files := bm_remove n (sv_files w)\<rparr>)"
  using assms by (simp_all add: record_inv_def names_insert)

lemma record_processes:
  "maintains (record_inv base held) (record_inv base held) (p_spawn b)" "maintains (record_inv base held) (record_inv base held) (p_try_wait p)"
  "maintains (record_inv base held) (record_inv base held) (p_kill p)" "maintains (record_inv base held) (record_inv base held) p_probe"
  unfolding p_spawn_def p_try_wait_def p_kill_def p_probe_def reap_process_def
  by (rule record_call; auto intro!: record_deed simp: record_procs split: sum.split)+

lemma record_files:
  assumes "n \<notin> {current_json_path, current_path}"
  shows "maintains (record_inv base held) (record_inv base held) (w_write n s)"
    "maintains (record_inv base held) (record_inv base held) (w_remove n)"
    "n' \<notin> {current_json_path, current_path} \<Longrightarrow> maintains (record_inv base held) (record_inv base held) (w_rename n' n)"
proof -
  show "maintains (record_inv base held) (record_inv base held) (w_write n s)"
    "maintains (record_inv base held) (record_inv base held) (w_remove n)"
    unfolding w_write_def w_remove_def using record_upd [OF _ assms] by (auto intro!: record_call)
  assume n': "n' \<notin> {current_json_path, current_path}"
  have "record_inv base held w \<Longrightarrow> record_inv base held (w\<lparr>sv_files := bm_insert n c (bm_remove n' (sv_files w))\<rparr>)" for c w
    using record_upd(1) [OF record_upd(2) [OF _ n'] assms, of base held w c] by simp
  then show "maintains (record_inv base held) (record_inv base held) (w_rename n' n)"
    unfolding w_rename_def by (auto intro!: record_call split: option.split)
qed


section \<open>The record's own calls\<close>

abbreviation rec_keeps :: "str set \<Rightarrow> str set \<Rightarrow> 'a wm \<Rightarrow> bool" where
  "rec_keeps base held m \<equiv> maintains (record_inv base held) (record_inv base held) m"

named_theorems rec_rules \<open>programs that keep the record\<close>

lemmas [rec_rules] = keeps_rules record_w_calls record_processes

text \<open>Names below the directories, and the other files of the home.\<close>

lemma not_record:
  "requests_dir @ n \<notin> {current_json_path, current_path}" "results_dir @ n \<notin> {current_json_path, current_path}"
  "kernel_pid_path \<notin> {current_json_path, current_path}" "supervisor_pid_path \<notin> {current_json_path, current_path}"
  "status_path \<notin> {current_json_path, current_path}" "stop_flag_path \<notin> {current_json_path, current_path}"
  by (auto simp: requests_dir_def results_dir_def kernel_pid_path_def supervisor_pid_path_def status_path_def stop_flag_path_def
      current_json_path_def current_path_def lit_def)

text \<open>A temporary file ends in its process id, which neither file of the record does.\<close>

lemma temporary_name: "with_extension (lit ''tmp'' @ dec pid) path \<notin> {current_json_path, current_path}"
proof -
  have "last (dec pid) \<in> set (dec pid)" using dec_digits [of pid] by simp
  then have "last (with_extension (lit ''tmp'' @ dec pid) path) \<le> 57"
    using dec_digits [of pid] by (auto simp: with_extension_def last_append)
  moreover have "last current_json_path > 57" "last current_path > 57"
    by (simp_all add: current_json_path_def current_path_def lit_def)
  ultimately show ?thesis by auto
qed

lemma rec_write_atomic [rec_rules]: "path \<notin> {current_json_path, current_path} \<Longrightarrow> rec_keeps base held (write_atomic path s)"
  unfolding write_atomic_def Let_def
  by (intro rec_rules record_files temporary_name)

lemma rec_event [rec_rules]: "rec_keeps base held (w_event e)"
  unfolding w_event_def by (rule record_modify) simp_all

lemma rec_read_current [rec_rules]: "rec_keeps base held read_current"
  unfolding read_current_def by (intro rec_rules)

lemma rec_active [rec_rules]: "rec_keeps base held active"
  unfolding active_def by (intro rec_rules)

lemma rec_write_result [rec_rules]: "rec_keeps base held (write_result r)"
proof -
  have "rec_keeps base held (b_modify (w_deed (Answered r)))" by (intro keeps_modify record_deed) simp_all
  then show ?thesis unfolding write_result_def by (intro rec_rules not_record)
qed

lemma rec_write_pid [rec_rules]: "p \<notin> {current_json_path, current_path} \<Longrightarrow> rec_keeps base held (write_pid p n)"
  unfolding write_pid_def by (intro rec_rules)

text \<open>Writing a record of a binary that is held to be known.\<close>

lemma json_names_own: "json_names (bm_insert current_json_path (Text (active_to_json a @ [10])) m) = {ak_binary a}"
  by (auto simp: json_names_def content_text_def active_reads_back)

lemma plain_names_own: "plain_names (bm_insert current_path (Text s) m) = {trim s}"
  by (auto simp: plain_names_def content_text_def)


lemma polite_call:
  assumes "record_inv base held w" "sv_script w = ob # obs"
  shows "record_inv base held (w\<lparr>sv_script := obs, sv_files := apply_others (ob_others ob) (sv_files w)\<rparr>)"
    "prefix (lit ''current'') n \<Longrightarrow> bm_get (apply_others (ob_others ob) (sv_files w)) n = bm_get (sv_files w) n"
proof -
  have p: "polite ob" using assms by (simp add: record_inv_def)
  then show "record_inv base held (w\<lparr>sv_script := obs, sv_files := apply_others (ob_others ob) (sv_files w)\<rparr>)"
    using assms(2) by (intro record_grows [OF assms(1)]) (auto simp: polite_others)
  assume "prefix (lit ''current'') n"
  with p show "bm_get (apply_others (ob_others ob) (sv_files w)) n = bm_get (sv_files w) n"
    by (intro others_keep) (auto simp: polite_def)
qed

lemma write_record:
  assumes path: "prefix (lit ''current'') (with_extension (lit ''tmp'' @ dec (sv_pid w)) path)"
    and names: "\<And>m. json_names (bm_insert path (Text s) m) \<union> plain_names (bm_insert path (Text s) m) \<subseteq> json_names m \<union> plain_names m \<union> held"
    and inv: "record_inv base held w"
  shows "ends (write_atomic path s) (\<lambda>_. record_inv base held) (\<lambda>_. record_inv base held) w"
proof -
  let ?t = "with_extension (lit ''tmp'' @ dec (sv_pid w)) path"
  have staged: "ends (w_write ?t s) (\<lambda>good w'. record_inv base held w' \<and> (good \<longrightarrow> bm_get (sv_files w') ?t = Some (Text s)))
      (\<lambda>_. record_inv base held) w"
  proof (cases "sv_script w")
    case Nil
    then show ?thesis using inv by (simp add: w_write_def ends_call)
  next
    case (Cons ob obs)
    have inv': "record_inv base held (w\<lparr>sv_script := obs, sv_files := apply_others (ob_others ob) (sv_files w)\<rparr>)"
      by (rule polite_call(1) [OF inv Cons])
    have "record_inv base held (w\<lparr>sv_script := obs, sv_files := bm_insert ?t (Text s) (apply_others (ob_others ob) (sv_files w))\<rparr>)"
      using record_upd(1) [OF inv' temporary_name, of "sv_pid w" path "Text s"] by simp
    then show ?thesis using Cons inv' by (simp add: w_write_def ends_call Let_def)
  qed
  have move: "ends (w_rename ?t path) (\<lambda>_. record_inv base held) (\<lambda>_. record_inv base held) v"
    if v: "record_inv base held v" "bm_get (sv_files v) ?t = Some (Text s)" for v
  proof (cases "sv_script v")
    case Nil
    then show ?thesis using v by (simp add: w_rename_def ends_call)
  next
    case (Cons ob obs)
    let ?v = "v\<lparr>sv_script := obs, sv_files := apply_others (ob_others ob) (sv_files v)\<rparr>"
    have inv': "record_inv base held ?v" "bm_get (sv_files ?v) ?t = Some (Text s)"
      using polite_call [OF v(1) Cons] path v(2) by simp_all
    have t: "record_inv base held (?v\<lparr>sv_files := bm_remove ?t (sv_files ?v)\<rparr>)" by (rule record_upd(2) [OF inv'(1) temporary_name])
    have "record_inv base held (?v\<lparr>sv_files := bm_insert path (Text s) (bm_remove ?t (sv_files ?v))\<rparr>)"
      by (rule record_grows [OF t]) (use names in auto)
    then show ?thesis using Cons inv' by (simp add: w_rename_def ends_call Let_def)
  qed
  show ?thesis
    unfolding write_atomic_def Let_def ends_then ends_query
    by (rule ends_mono [OF staged])
      (auto simp: ends_simps intro!: ends_mono [OF move] maintainsD [OF record_files(2) [OF temporary_name]])
qed


lemma record_temporaries:
  "prefix (lit ''current'') (with_extension (lit ''tmp'' @ dec pid) current_json_path)"
  "prefix (lit ''current'') (with_extension (lit ''tmp'' @ dec pid) current_path)"
  by (simp_all add: with_extension_def file_stem_def last_part_def current_json_path_def current_path_def lit_def)

lemma trim_newline: "trim (s @ [10]) = trim s"
  by (rule trim_end) (simp add: is_whitespace_def)

lemma other_names:
  "plain_names (bm_insert current_json_path c m) = plain_names m" "json_names (bm_insert current_path c m) = json_names m"
  by (rule names_insert; simp add: current_json_path_def current_path_def)+

lemma rec_write_current:
  assumes "ak_binary a \<in> held" "trim (ak_binary a) \<in> held"
  shows "rec_keeps base held (write_current a)"
proof -
  have json: "rec_keeps base held (write_atomic current_json_path (active_to_json a @ [10]))"
    unfolding maintains_def by (intro allI impI write_record record_temporaries) (use assms in \<open>auto simp: json_names_own other_names\<close>)
  have plain: "rec_keeps base held (write_atomic current_path (ak_binary a @ [10]))"
    unfolding maintains_def
    by (intro allI impI write_record record_temporaries) (use assms in \<open>auto simp: plain_names_own other_names trim_newline\<close>)
  have deed: "rec_keeps base held (b_modify (w_deed (Recorded a)))"
    by (intro keeps_modify, erule record_grows) (use assms in \<open>auto simp: w_deed_def\<close>)
  show ?thesis unfolding write_current_def by (intro rec_rules json plain deed)
qed

text \<open>What is known may be held.\<close>

abbreviation with_kernel :: "str set \<Rightarrow> str \<Rightarrow> str set" where
  "with_kernel held b \<equiv> held \<union> {b, trim b}"

lemma record_hold: "record_inv base held w \<Longrightarrow> known base (sv_trace w) b \<Longrightarrow> record_inv base (with_kernel held b) w"
  using known_trim by (auto simp: record_inv_def)

lemma record_release:
  "record_inv base (held \<union> extra) w \<Longrightarrow> record_inv base held w"
  "record_inv base (insert a (insert b held)) w \<Longrightarrow> record_inv base held w"
  by (auto simp: record_inv_def)

lemma rec_release:
  assumes "record_inv base (held \<union> extra) w" "rec_keeps base (held \<union> extra) m"
  shows "ends m (\<lambda>_. record_inv base held) (\<lambda>_. record_inv base held) w"
  using assms by (auto simp: maintains_def elim!: ends_mono intro: record_release)

lemma read_current_known:
  assumes "record_inv base held w"
  shows "ends read_current (\<lambda>r w'. record_inv base held w' \<and> (\<forall>a. r = Some a \<longrightarrow> known base (sv_trace w') (ak_binary a)))
    (\<lambda>_. record_inv base held) w"
proof -
  have read: "ends (w_read n) (\<lambda>r w'. record_inv base held w' \<and>
      (\<forall>s. r = Some s \<longrightarrow> (\<exists>c. bm_get (sv_files w') n = Some c \<and> content_text c = Some s))) (\<lambda>_. record_inv base held) w"
    if "record_inv base held w" for n w
    using that polite_call(1) [OF that]
    by (auto simp: w_read_def ends_call Let_def split: list.split option.splits)
  have json: "known base (sv_trace w) (ak_binary a)"
    if "record_inv base held w" "bm_get (sv_files w) current_json_path = Some c" "content_text c = Some s" "active_from_json s = Some a"
    for w c s a
  proof -
    have "ak_binary a \<in> json_names (sv_files w)" using that(2-4) unfolding json_names_def by blast
    then show ?thesis using that(1) by (simp add: record_inv_def)
  qed
  have plain: "known base (sv_trace w) (trim s)"
    if "record_inv base held w" "bm_get (sv_files w) current_path = Some c" "content_text c = Some s" for w c s
  proof -
    have "trim s \<in> plain_names (sv_files w)" using that(2,3) unfolding plain_names_def by blast
    then show ?thesis using that(1) by (simp add: record_inv_def)
  qed
  have bare: "ends (w_read current_path) (\<lambda>r w'. record_inv base held w' \<and>
      (\<forall>a. (case r of None \<Rightarrow> None | Some s \<Rightarrow> if trim s = [] then None else Some \<lparr>ak_binary = trim s, ak_sha256 = None, ak_args = []\<rparr>) = Some a
        \<longrightarrow> known base (sv_trace w') (ak_binary a))) (\<lambda>_. record_inv base held) w" if "record_inv base held w" for w
  proof (rule ends_mono [OF read [OF that, of current_path]])
    fix r w' assume "record_inv base held w' \<and> (\<forall>s. r = Some s \<longrightarrow> (\<exists>c. bm_get (sv_files w') current_path = Some c \<and> content_text c = Some s))"
    with plain [of w'] show "record_inv base held w' \<and>
      (\<forall>a. (case r of None \<Rightarrow> None | Some s \<Rightarrow> if trim s = [] then None else Some \<lparr>ak_binary = trim s, ak_sha256 = None, ak_args = []\<rparr>) = Some a
        \<longrightarrow> known base (sv_trace w') (ak_binary a))"
      by (auto split: option.splits if_splits)
  qed
  show ?thesis
    unfolding read_current_def ends_then
    by (rule ends_mono [OF read [OF assms]])
      (auto simp: ends_simps split: option.splits intro: json intro!: bare)
qed

lemma active_known:
  assumes "record_inv base held w"
  shows "ends active (\<lambda>r w'. record_inv base held w' \<and> (\<forall>a. r = Some a \<longrightarrow> known base (sv_trace w') (ak_binary a)))
    (\<lambda>_. record_inv base held) w"
  unfolding active_def ends_then
  by (rule ends_mono [OF read_current_known [OF assms]])
    (auto simp: ends_simps record_inv_def known_def split: option.split)

lemma active_then:
  assumes "\<And>a. rec_keeps base (with_kernel held (ak_binary a)) (f (Some a))" "rec_keeps base held (f None)"
  shows "rec_keeps base held (b_then active f)"
  unfolding maintains_def ends_then
proof (intro allI impI)
  fix w assume "record_inv base held w"
  from active_known [OF this] show "ends active (\<lambda>r. ends (f r) (\<lambda>_. record_inv base held) (\<lambda>_. record_inv base held)) (\<lambda>_. record_inv base held) w"
  proof (rule ends_mono)
    fix r :: "active_kernel option" and w' assume r: "record_inv base held w' \<and> (\<forall>a. r = Some a \<longrightarrow> known base (sv_trace w') (ak_binary a))"
    show "ends (f r) (\<lambda>_. record_inv base held) (\<lambda>_. record_inv base held) w'"
    proof (cases r)
      case None
      then show ?thesis using r assms(2) by (simp add: maintains_def)
    next
      case (Some a)
      then show ?thesis using r by (auto intro!: rec_release [OF record_hold assms(1)])
    qed
  qed simp
qed


section \<open>Every pass\<close>

lemma rec_launch [rec_rules]: "rec_keeps base held (launch a)"
  unfolding launch_def by (intro rec_rules record_modify) simp_all

lemma rec_stop_child [rec_rules]: "rec_keeps base held stop_child"
  unfolding stop_child_def by (intro rec_rules record_modify record_files not_record) simp_all

lemma rec_write_status [rec_rules]: "rec_keeps base held (sv_write_status force)"
proof -
  have active: "rec_keeps base held active" by (rule rec_rules)
  show ?thesis
    unfolding sv_write_status_def sv_status_def write_status_file_def
    by (intro rec_rules record_modify not_record) simp_all
qed

lemma rec_schedule [rec_rules]: "rec_keeps base held schedule_restart"
  unfolding schedule_restart_def by (intro rec_rules record_modify) simp_all

lemma rec_read_requests [rec_rules]: "rec_keeps base held (read_requests ns)"
proof (induction ns)
  case (Cons n ns)
  show ?case unfolding read_requests.simps by (intro rec_rules Cons)
qed (simp add: rec_rules)

lemma rec_pending [rec_rules]: "rec_keeps base held pending_requests"
  unfolding pending_requests_def by (intro rec_rules)

lemma rec_record_rollback [rec_rules]: "rec_keeps base held (record_rollback d a)"
  unfolding record_rollback_def by (intro rec_rules record_modify) simp_all

lemma rec_serving [rec_rules]: "rec_keeps base held serving"
  unfolding serving_def by (intro rec_rules record_modify not_record) simp_all

lemma rec_recent [rec_rules]: "rec_keeps base held recent_swap"
  unfolding recent_swap_def by (intro rec_rules)

lemma rec_kill_and_restart [rec_rules]: "rec_keeps base held kill_and_restart"
  unfolding kill_and_restart_def by (intro rec_rules record_modify) simp_all

lemma rec_poll:
  assumes "rec_keeps base held turn"
  shows "rec_keeps base held (poll_loop turn)"
  unfolding maintains_def
  by (intro allI impI poll_loop_ends [where I = "record_inv base held"])
    (use assms in \<open>auto simp: maintains_def elim!: ends_mono split: option.split\<close>)

lemma rec_await: "rec_keeps base held (poll_loop (await_poll d))"
  unfolding await_poll_def by (intro rec_poll rec_rules record_modify) (simp_all add: lose_child_def)

lemma rec_restore: "rec_keeps base held (poll_loop (restore_poll d))"
  unfolding restore_poll_def by (intro rec_poll rec_rules record_modify) (simp_all add: lose_child_def)

lemma rec_try: "rec_keeps base held (try_kernel a)"
  unfolding try_kernel_def by (intro rec_rules rec_await)

lemma rec_roll_back:
  assumes "ak_binary a \<in> held" "trim (ak_binary a) \<in> held"
  shows "rec_keeps base held (roll_back r a why)"
  unfolding roll_back_def restore_kernel_def Let_def
  by (intro rec_rules rec_restore rec_write_current [OF assms] record_modify) simp_all

lemma rec_settle_swap:
  assumes "ak_binary a \<in> held" "sr_binary r \<in> held" "trim (sr_binary r) \<in> held"
  shows "rec_keeps base held (settle_swap r a)"
proof -
  have window: "rec_keeps base held (b_modify (\<lambda>w. w\<lparr>sv_stability := Some (a, until)\<rparr>))" for until
    by (intro keeps_modify) (use assms(1) in \<open>auto simp: record_inv_def\<close>)
  show ?thesis
    unfolding settle_swap_def open_window_def report_settled_def
    by (intro rec_rules rec_write_current window record_modify) (simp_all add: requested_kernel_def assms)
qed

text \<open>A candidate that is taken has answered as the process running.\<close>

definition running :: "str \<Rightarrow> supervisor \<Rightarrow> bool" where
  "running b w \<longleftrightarrow> map snd (live (sv_trace w)) = [b]"

lemma launch_running:
  assumes "idle w"
  shows "ends (launch a) (\<lambda>r w'. \<forall>pid. r = Inr pid \<longrightarrow> running (ak_binary a) w') (\<lambda>_ _. True) w"
  using assms unfolding launch_def p_spawn_def w_now_def
  by (auto simp: ends_simps ends_call Let_def procs_view_def no_process_def child_is_process_def w_deed_def running_def
      split: sum.split list.split)

lemma await_answered:
  assumes "running b w"
  shows "ends (poll_loop (await_poll d)) (\<lambda>v w'. v = Ready \<longrightarrow> b \<in> answered (sv_trace w')) (\<lambda>_ _. True) w"
proof (rule poll_loop_ends [where I = "running b"])
  fix w assume runs: "running b w"
  have one: "snd ` set (live (sv_trace w)) = {b}" using runs unfolding running_def by (metis list.set(1,2) list.set_map)
  show "ends (await_poll d) (\<lambda>v w'. case v of None \<Rightarrow> running b w' | Some v \<Rightarrow> v = Ready \<longrightarrow> b \<in> answered (sv_trace w')) (\<lambda>_ _. True) w"
    using runs one unfolding await_poll_def p_try_wait_def p_probe_def w_now_def
    by (auto simp: ends_simps ends_call Let_def w_deed_def running_def lose_child_def split: option.split list.split)
qed (simp_all add: assms)


lemma try_kernel_answered:
  assumes "idle w"
  shows "ends (try_kernel a) (\<lambda>r w'. r = None \<longrightarrow> ak_binary a \<in> answered (sv_trace w')) (\<lambda>_ _. True) w"
proof -
  have call: "ends w_now P (\<lambda>_ _. True) w" if "\<And>now w'. sv_trace w' = sv_trace w \<Longrightarrow> P now w'" for P and w :: supervisor
    using that by (auto simp: w_now_def ends_call Let_def split: list.split)
  have free: "ends p_wait_port (\<lambda>_. idle) (\<lambda>_ _. True) w"
    by (rule ends_keeps [OF quiet_idle assms]) (simp_all add: quiet_rules)
  have wait: "ends (b_then w_now (\<lambda>now. b_then (poll_loop (await_poll (now + n))) (\<lambda>v. b_return (f v))))
      (\<lambda>r w'. r = None \<longrightarrow> ak_binary a \<in> answered (sv_trace w')) (\<lambda>_ _. True) w"
    if "running (ak_binary a) w" "\<And>v. f v = None \<Longrightarrow> v = Ready" for w :: supervisor and n and f :: "verdict \<Rightarrow> str option"
    unfolding ends_then
  proof (rule call)
    fix now :: nat and w' :: supervisor assume t: "sv_trace w' = sv_trace w"
    then have "running (ak_binary a) w'" using that(1) by (simp add: running_def)
    from await_answered [OF this]
    show "ends (poll_loop (await_poll (now + n))) (\<lambda>v. ends (b_return (f v)) (\<lambda>r w'. r = None \<longrightarrow> ak_binary a \<in> answered (sv_trace w')) (\<lambda>_ _. True)) (\<lambda>_ _. True) w'"
      by (rule ends_mono) (use that(2) in \<open>auto simp: ends_simps\<close>)
  qed
  show ?thesis
    unfolding try_kernel_def ends_then [of p_wait_port] ends_then [of "b_query sv_config"] ends_query ends_if
    by (rule ends_mono [OF free])
      (auto simp: ends_simps(1) ends_then [of "launch a"] intro!: ends_mono [OF launch_running] wait split: sum.split verdict.splits)
qed

lemma begin_swap_record:
  assumes "one_kernel w" "record_inv base (with_kernel held (ak_binary previous)) w"
  shows "ends (begin_swap r previous) (\<lambda>_. record_inv base held) (\<lambda>_. record_inv base held) w"
proof -
  have switch: "ends (b_then stop_child (\<lambda>_. b_then (try_kernel (requested_kernel r)) (\<lambda>why. case why of
      None \<Rightarrow> settle_swap r previous | Some why \<Rightarrow> roll_back r previous why))) (\<lambda>_. record_inv base held) (\<lambda>_. record_inv base held) w"
    if one: "one_kernel w" and inv: "record_inv base (with_kernel held (ak_binary previous)) w" for w
  proof -
    let ?held = "with_kernel held (ak_binary previous)"
    have stop: "ends stop_child (\<lambda>_ w'. idle w' \<and> record_inv base ?held w') (\<lambda>_. record_inv base held) w"
      by (rule ends_mono [OF ends_conj [OF stop_child_idle [OF one] maintainsD [OF rec_stop_child inv]]]) (auto intro: record_release)
    have tried: "ends (try_kernel (requested_kernel r))
        (\<lambda>why w'. record_inv base ?held w' \<and> (why = None \<longrightarrow> sr_binary r \<in> answered (sv_trace w'))) (\<lambda>_. record_inv base held) w'"
      if "idle w'" "record_inv base ?held w'" for w'
      by (rule ends_mono [OF ends_conj [OF try_kernel_answered [OF that(1)] maintainsD [OF rec_try that(2)]]])
        (auto simp: requested_kernel_def intro: record_release)
    have settle: "ends (settle_swap r previous) (\<lambda>_. record_inv base held) (\<lambda>_. record_inv base held) w'"
      if "record_inv base ?held w'" "sr_binary r \<in> answered (sv_trace w')" for w'
    proof -
      have "known base (sv_trace w') (sr_binary r)" using that(2) by (auto simp: known_def)
      with that(1) have "record_inv base (held \<union> ({ak_binary previous, trim (ak_binary previous)} \<union> {sr_binary r, trim (sr_binary r)})) w'"
        using record_hold by (simp add: Un_assoc)
      then show ?thesis by (rule rec_release) (rule rec_settle_swap; simp)
    qed
    have undo: "ends (roll_back r previous why) (\<lambda>_. record_inv base held) (\<lambda>_. record_inv base held) w'"
      if "record_inv base ?held w'" for w' why
      by (rule rec_release [OF that]) (rule rec_roll_back; simp)
    show ?thesis
      unfolding ends_then [of stop_child] ends_then [of "try_kernel _"]
      by (rule ends_mono [OF stop])
        (auto intro!: ends_mono [OF tried] settle undo split: option.split)
  qed
  have phase: "procs_view (w\<lparr>sv_events := e, sv_phase := p, sv_stability := None\<rparr>) = procs_view w"
    "record_inv base h w \<Longrightarrow> record_inv base h (w\<lparr>sv_events := e, sv_phase := p, sv_stability := None\<rparr>)"
    for w :: supervisor and e p h
    by (simp_all add: procs_view_def record_inv_def)
  show ?thesis
    unfolding begin_swap_def ends_then [of "w_event _"] ends_then [of "b_modify _"] w_event_def ends_modify
    by (rule switch) (use phase assms in simp_all)
qed

lemma perform_swap_record:
  assumes "one_kernel w" "record_inv base held w"
  shows "ends (perform_swap r) (\<lambda>_. record_inv base held) (\<lambda>_. record_inv base held) w"
proof -
  have refused: "rec_keeps base held (b_then (w_rename (requests_dir @ n) (requests_dir @ n')) (\<lambda>_. w_event e))" for n n' e
    by (intro rec_rules record_files not_record)
  have first: "ends active (\<lambda>r w'. one_kernel w' \<and> record_inv base held w' \<and> (\<forall>a. r = Some a \<longrightarrow> known base (sv_trace w') (ak_binary a)))
      (\<lambda>_. record_inv base held) w"
    by (rule ends_mono [OF ends_conj [OF maintainsD [OF safe_quiet [OF quiet_active] assms(1)] active_known [OF assms(2)]]]) auto
  show ?thesis
    unfolding perform_swap_def ends_then [of active] request_path_def
    by (rule ends_mono [OF first])
      (auto simp: ends_then [of "b_query sv_phase"] ends_query intro: maintainsD [OF rec_event] maintainsD [OF refused] begin_swap_record record_hold
        split: option.split)
qed

section \<open>The rest of a pass\<close>

lemma rec_hold:
  assumes "\<And>held. ak_binary a \<in> held \<Longrightarrow> trim (ak_binary a) \<in> held \<Longrightarrow> rec_keeps base held m"
    and "record_inv base held w" "known base (sv_trace w) (ak_binary a)"
  shows "ends m (\<lambda>_. record_inv base held) (\<lambda>_. record_inv base held) w"
  by (rule rec_release [OF record_hold [OF assms(2,3)] assms(1)]) simp_all

lemma rec_revert_swap:
  assumes "ak_binary a \<in> held" "trim (ak_binary a) \<in> held"
  shows "rec_keeps base held (revert_swap uptime a)"
  unfolding revert_swap_def
  by (intro rec_rules rec_write_current [OF assms] record_modify) simp_all

text \<open>The kernel of a stability window is known.\<close>

lemma recent_known:
  assumes "record_inv base held w"
  shows "ends recent_swap (\<lambda>r w'. record_inv base held w' \<and> (\<forall>a. r = Some a \<longrightarrow> known base (sv_trace w') (ak_binary a)))
    (\<lambda>_. record_inv base held) w"
  using assms polite_call(1) [OF assms]
  by (auto simp: recent_swap_def ends_simps w_now_def ends_call Let_def record_inv_def split: option.splits list.split prod.split)

lemma rec_settle_exit: "rec_keeps base held (settle_exit pid code)"
proof -
  have recent: "rec_keeps base held (b_then recent_swap (\<lambda>recent. case recent of Some a \<Rightarrow> revert_swap u a | None \<Rightarrow> m))"
    if m: "rec_keeps base held m" for u m
    unfolding maintains_def ends_then
  proof (intro allI impI)
    fix w assume inv: "record_inv base held w"
    show "ends recent_swap (\<lambda>r. ends (case r of Some a \<Rightarrow> revert_swap u a | None \<Rightarrow> m) (\<lambda>_. record_inv base held) (\<lambda>_. record_inv base held))
        (\<lambda>_. record_inv base held) w"
      by (rule ends_mono [OF recent_known [OF inv]])
        (auto intro: maintainsD [OF m] rec_hold [OF rec_revert_swap] split: option.split)
  qed
  show ?thesis
    unfolding settle_exit_def
    by (intro rec_rules recent record_modify) (simp_all add: lose_child_def)
qed

lemma rec_tick_exit [rec_rules]: "rec_keeps base held tick_exit"
  unfolding tick_exit_def by (intro rec_rules rec_settle_exit)

lemma claimed_name: "with_extension (lit ''claimed'') path \<notin> {current_json_path, current_path}"
proof -
  have "last (with_extension (lit ''claimed'') path) = 100" by (simp add: with_extension_def lit_def)
  moreover have "last current_json_path \<noteq> 100" "last current_path \<noteq> 100"
    by (simp_all add: current_json_path_def current_path_def lit_def)
  ultimately show ?thesis by auto
qed

text \<open>A request lies below \<open>requests\<close>.\<close>

lemma requests_below:
  "ends pending_requests (\<lambda>found _. \<forall>(path, r) \<in> set found. prefix requests_dir path) (\<lambda>_ _. True) w"
proof -
  have read: "ends (read_requests ns) (\<lambda>found _. \<forall>(path, r) \<in> set found. path \<in> set ns) (\<lambda>_ _. True) w" for ns w
  proof (induction ns arbitrary: w)
    case (Cons n ns)
    have "ends (w_read n) (\<lambda>_ _. True) (\<lambda>_ _. True) w" for w by (simp add: w_read_def ends_call Let_def split: list.split)
    then show ?case
      unfolding read_requests.simps ends_then
      by (rule ends_mono) (auto simp: ends_simps intro!: ends_mono [OF Cons] split: option.splits)
  qed (simp add: ends_simps)
  have "ends list_requests (\<lambda>ns _. \<forall>n \<in> set ns. prefix requests_dir n) (\<lambda>_ _. True) w"
    by (auto simp: list_requests_def ends_call Let_def request_names_def split: list.split)
  then show ?thesis
    unfolding pending_requests_def ends_then
    by (rule ends_mono) (auto simp: ends_simps intro!: ends_mono [OF read])
qed

lemma below_requests: "prefix requests_dir path \<Longrightarrow> path \<notin> {current_json_path, current_path}"
  using not_record(1) by (auto simp: prefix_def)

text \<open>Both invariants at once.\<close>

abbreviation kernel_and_record :: "str set \<Rightarrow> str set \<Rightarrow> supervisor \<Rightarrow> bool" where
  "kernel_and_record base held w \<equiv> one_kernel w \<and> record_inv base held w"

abbreviation both :: "str set \<Rightarrow> str set \<Rightarrow> 'a wm \<Rightarrow> bool" where
  "both base held m \<equiv> maintains (kernel_and_record base held) (\<lambda>w. never_more w \<and> record_inv base held w) m"

lemma bothI: "safe m \<Longrightarrow> rec_keeps base held m \<Longrightarrow> both base held m"
  unfolding maintains_def
proof (intro allI impI)
  fix w assume "\<forall>w. one_kernel w \<longrightarrow> ends m (\<lambda>_. one_kernel) (\<lambda>_. never_more) w"
    and "\<forall>w. record_inv base held w \<longrightarrow> ends m (\<lambda>_. record_inv base held) (\<lambda>_. record_inv base held) w"
    and "kernel_and_record base held w"
  then show "ends m (\<lambda>_. kernel_and_record base held) (\<lambda>_ w. never_more w \<and> record_inv base held w) w"
    by (intro ends_conj) simp_all
qed

lemma both_perform_swap: "both base held (perform_swap r)"
  unfolding maintains_def
  by (auto intro!: ends_mono [OF ends_conj [OF maintainsD [OF safe_perform_swap] perform_swap_record]])

lemma both_claim:
  assumes "prefix requests_dir path"
  shows "both base held (claim path)" "both base held (w_drop (w_remove (with_extension (lit ''claimed'') path)))"
proof -
  show "both base held (claim path)"
    unfolding claim_def
    by (intro bothI safe_quiet quiet_rules rec_rules record_files claimed_name below_requests assms)
  show "both base held (w_drop (w_remove (with_extension (lit ''claimed'') path)))"
    by (intro bothI safe_quiet quiet_rules rec_rules record_files claimed_name)
qed


lemma both_tick_swap: "both base held tick_swap"
proof -
  have work: "both base held (b_then (claim path) (\<lambda>claimed. case claimed of
      Some claimed \<Rightarrow> b_then (perform_swap r) (\<lambda>_. w_drop (w_remove claimed)) | None \<Rightarrow> w_event e))"
    if "prefix requests_dir path" for path r e
  proof -
    have "both base held (b_then (perform_swap r) (\<lambda>_. w_drop (w_remove (with_extension (lit ''claimed'') path))))"
      by (intro keeps_then both_perform_swap both_claim that)
    moreover have "both base held (w_rename path (with_extension (lit ''claimed'') path))"
      by (intro bothI safe_quiet quiet_rules record_files claimed_name below_requests that)
    moreover have "both base held (w_event e)" by (intro bothI safe_quiet quiet_rules rec_rules)
    ultimately show ?thesis
      unfolding claim_def maintains_def ends_then
      by (auto simp: ends_simps elim!: ends_mono)
  qed
  have some: "both base held pending_requests" by (intro bothI safe_quiet quiet_rules rec_rules)
  show ?thesis
    unfolding maintains_def tick_swap_def ends_then ends_query
  proof (intro allI impI)
    fix w assume w: "kernel_and_record base held w"
    have "ends pending_requests (\<lambda>found w'. (\<forall>(path, r) \<in> set found. prefix requests_dir path) \<and> kernel_and_record base held w')
        (\<lambda>_ w'. never_more w' \<and> record_inv base held w') w"
      by (rule ends_mono [OF ends_conj [OF requests_below maintainsD [OF some w]]]) auto
    then show "ends (case (sv_phase w, sv_child w) of (ph, child) \<Rightarrow> if child \<noteq> None \<and> (ph = PhStarting \<or> ph = PhHealthy) then
       b_then pending_requests (\<lambda>found. case found of
         [] \<Rightarrow> b_return ()
       | (path, r) # _ \<Rightarrow>
           b_then (claim path) (\<lambda>claimed. case claimed of
             Some claimed \<Rightarrow> b_then (perform_swap r) (\<lambda>_. w_drop (w_remove claimed))
           | None \<Rightarrow> w_event (EvNote (lit ''swap request '' @ sr_id r @ lit '' is already claimed''))))
     else b_return ()) (\<lambda>_. kernel_and_record base held) (\<lambda>_ w. never_more w \<and> record_inv base held w) w"
      using w by (auto simp: ends_then [of pending_requests] ends_simps(1) intro!: maintainsD [OF work] elim!: ends_mono split: list.split)
  qed
qed

lemma rec_adopt:
  assumes "ak_binary a \<in> held" "trim (ak_binary a) \<in> held"
  shows "rec_keeps base held (adopt a)"
  unfolding adopt_def by (intro rec_rules rec_write_current [OF assms])

lemma rec_start_kernel [rec_rules]: "rec_keeps base held start_kernel"
  unfolding start_kernel_def
  by (intro active_then) (simp_all, (intro rec_rules rec_adopt record_modify; simp)+)

lemma rec_tick_start: "rec_keeps base held tick_start"
  unfolding tick_start_def by (intro rec_rules)

lemma rec_tick_health: "rec_keeps base held tick_health"
  unfolding tick_health_def health_starting_def health_watched_def health_settle_def
  by (intro rec_rules record_modify not_record; simp)

lemma rec_tick_stop: "rec_keeps base held tick_stop"
  unfolding tick_stop_def by (intro rec_rules record_modify record_files not_record) simp_all

lemma both_tick: "both base held tick"
proof -
  have fields: "rec_keeps base held (b_modify (\<lambda>w. w\<lparr>sv_events := []\<rparr>))" by (rule record_modify) simp_all
  have fields': "safe (b_modify (\<lambda>w. w\<lparr>sv_events := []\<rparr>))" by (intro safe_quiet quiet_modify) (simp add: quiet_unfold)
  show ?thesis
    unfolding tick_def stop_requested_def
    by (intro keeps_then keeps_if keeps_query keeps_return both_tick_swap bothI [OF fields' fields]
        bothI [OF safe_tick_stop rec_tick_stop] bothI [OF safe_tick_exit rec_tick_exit] bothI [OF safe_tick_start rec_tick_start]
        bothI [OF safe_tick_health rec_tick_health] bothI [OF safe_quiet [OF quiet_calls(4)] record_w_calls(4)]
        bothI [OF safe_quiet [OF quiet_write_status] rec_write_status])
qed

interpretation record_run: supervision "kernel_and_record base held" "\<lambda>w. never_more w \<and> record_inv base held w" for base held
proof unfold_locales
  have fields: "rec_keeps base held (b_modify (\<lambda>w. w\<lparr>sv_phase := PhStopped\<rparr>))" by (rule record_modify) simp_all
  have fields': "quiet procs_view (b_modify (\<lambda>w. w\<lparr>sv_phase := PhStopped\<rparr>))" by (rule quiet_modify) (simp add: quiet_unfold)
  show "both base held run_checks"
    unfolding run_checks_def
    by (intro bothI safe_quiet quiet_rules fields' rec_rules not_record fields)
qed (simp_all add: both_tick one_kernel_never_more)

section \<open>A whole run\<close>

text \<open>The kernels the home and the configuration name at the start.\<close>

definition first_kernels :: "watch_config \<Rightarrow> (str, content) btree \<Rightarrow> str set" where
  "first_kernels c files = json_names files \<union> plain_names files \<union> ak_binary ` set_option (configured c)"

lemma first_inv:
  assumes "\<forall>ob \<in> set script. polite ob"
  shows "kernel_and_record (first_kernels c files) {} (supervisor_new c pid now files script)"
proof -
  have "one_kernel (supervisor_new c pid now files script)"
    by (simp add: supervisor_new_def procs_view_def child_is_process_def)
  moreover have "record_inv (first_kernels c files) {} (supervisor_new c pid now files script)"
    using assms by (auto simp: supervisor_new_def record_inv_def known_def first_kernels_def)
  ultimately show ?thesis by simp
qed

lemma run_known:
  assumes "\<forall>ob \<in> set script. polite ob"
  shows "all_known (first_kernels c files) (sv_trace (snd (sv_run n (supervisor_new c pid now files script))))"
  using record_run.stopped_anywhere [OF first_inv [OF assms]] by (simp add: record_inv_def)

end
