(* ===== verification/WatchdogSwap.thy ===== *)
theory WatchdogSwap
  imports WatchdogRecord
begin

text \<open>
  How a switch ends: with the new kernel, proved, or with the previous one put back.
\<close>

section \<open>What a switch leaves alone\<close>

definition swap_view :: "supervisor \<Rightarrow> watch_config \<times> swap_summary option" where
  "swap_view w = (sv_config w, sv_last_swap w)"

named_theorems blame_rules \<open>programs that leave the configuration and the last swap alone\<close>

lemma blame_calls [blame_rules]:
  "quiet swap_view w_now" "quiet swap_view w_wall" "quiet swap_view (w_read n)" "quiet swap_view (w_exists n)"
  "quiet swap_view (w_remove n)" "quiet swap_view (w_rename n n')" "quiet swap_view (w_write n s)"
  "quiet swap_view p_probe" "quiet swap_view p_wait_port" "quiet swap_view (p_spawn b)" "quiet swap_view (p_try_wait p)"
  "quiet swap_view (p_kill p)"
  unfolding calls p_spawn_def p_try_wait_def p_kill_def reap_process_def
  by (rule quiet_call; auto simp: swap_view_def w_deed_def split: option.split sum.split)+

lemma quiet_sum: "(\<And>e. quiet view (f e)) \<Longrightarrow> (\<And>a. quiet view (g a)) \<Longrightarrow> quiet view (case x of Inl e \<Rightarrow> f e | Inr a \<Rightarrow> g a)"
  by (cases x) simp_all

lemmas [blame_rules] = quiet_return quiet_query quiet_then quiet_drop quiet_if quiet_option quiet_pair quiet_let quiet_sum

lemma blame_write_atomic [blame_rules]: "quiet swap_view (write_atomic p s)"
  unfolding write_atomic_def by (intro blame_rules)

lemma blame_programs [blame_rules]:
  "quiet swap_view (write_pid p n)" "quiet swap_view (write_current a)" "quiet swap_view (write_result r)"
  "quiet swap_view stop_child" "quiet swap_view (launch a)"
  unfolding write_pid_def write_current_def write_result_def stop_child_def launch_def
  by (intro blame_rules quiet_modify; simp add: swap_view_def w_deed_def)+

lemma quiet_poll:
  assumes "quiet view turn"
  shows "quiet view (poll_loop turn)"
  unfolding quiet_def maintains_def
proof (intro allI impI)
  fix v w assume "view w = v"
  moreover have "ends turn (\<lambda>r w'. case r of None \<Rightarrow> view w' = v | Some a \<Rightarrow> view w' = v) (\<lambda>_ w'. view w' = v) w" if "view w = v" for w
    using assms that unfolding quiet_def maintains_def by (auto elim!: ends_mono split: option.split)
  ultimately show "ends (poll_loop turn) (\<lambda>_ w. view w = v) (\<lambda>_ w. view w = v) w"
    by (intro poll_loop_ends [where I = "\<lambda>w. view w = v"]) simp_all
qed

lemma blame_polls [blame_rules]: "quiet swap_view (poll_loop (await_poll d))" "quiet swap_view (poll_loop (restore_poll d))"
  unfolding await_poll_def restore_poll_def
  by (intro quiet_poll blame_rules quiet_modify; simp add: swap_view_def lose_child_def)+

lemma blame_kernels [blame_rules]: "quiet swap_view (try_kernel a)" "quiet swap_view (restore_kernel a)" "quiet swap_view serving"
  unfolding try_kernel_def restore_kernel_def serving_def
  by (intro blame_rules quiet_modify; simp add: swap_view_def)+

section \<open>Which process runs\<close>

text \<open>Only a process of one binary, if any.\<close>

definition only :: "str \<Rightarrow> supervisor \<Rightarrow> bool" where
  "only b w \<longleftrightarrow> one_kernel w \<and> snd ` set (sv_procs w) \<subseteq> {b}"

definition serves :: "str \<Rightarrow> supervisor \<Rightarrow> bool" where
  "serves b w \<longleftrightarrow> one_kernel w \<and> map snd (sv_procs w) = [b]"

lemma procs_of_view: "sv_procs w = fst (snd (snd (procs_view w)))"
  by (simp add: procs_view_def)

lemma keeps_only: "quiet procs_view m \<Longrightarrow> maintains (only b) (\<lambda>_. True) m" "quiet procs_view m \<Longrightarrow> maintains (serves b) (\<lambda>_. True) m"
  unfolding only_def serves_def procs_of_view by (rule quiet_keeps; simp)+

lemma idle_only: "idle w \<Longrightarrow> only b w"
  by (auto simp: only_def no_process_def child_is_process_def procs_view_def)

lemma serves_only: "serves b w \<Longrightarrow> only b w"
  by (auto simp: only_def serves_def)

text \<open>How a wait for a kernel ends: it runs, and if the wait was not good it may be gone.\<close>

definition ended :: "bool \<Rightarrow> str \<Rightarrow> supervisor \<Rightarrow> bool" where
  "ended good b w \<longleftrightarrow> (if good then serves b w else only b w)"

lemma serves_ended: "serves b w \<Longrightarrow> ended good b w"
  by (simp add: ended_def serves_only)

lemma idle_ended: "idle w \<Longrightarrow> ended False b w"
  by (simp add: ended_def idle_only)

lemma launch_serves:
  assumes "idle w"
  shows "ends (launch a) (\<lambda>r w'. case r of Inl _ \<Rightarrow> idle w' | Inr _ \<Rightarrow> serves (ak_binary a) w') (\<lambda>_ _. True) w"
  using assms unfolding launch_def p_spawn_def w_now_def
  by (auto simp: ends_simps ends_call Let_def procs_view_def no_process_def child_is_process_def w_deed_def serves_def
      split: sum.split list.split prod.split)

text \<open>A turn of a loop over the running kernel: it still runs, or it is gone.\<close>

lemma turn_serves:
  assumes "serves b w" "quiet procs_view rest"
  shows "ends (b_then (b_query sv_child) (\<lambda>child.
     b_then (case child of Some p \<Rightarrow> p_try_wait p | None \<Rightarrow> b_return None) (\<lambda>exit. case exit of
       Some x \<Rightarrow> b_then (b_modify lose_child) (\<lambda>_. b_return (f x))
     | None \<Rightarrow> rest))) (\<lambda>v w'. serves b w' \<or> idle w' \<and> v \<in> f ` UNIV) (\<lambda>_ _. True) w"
proof -
  have one: "one_kernel w" using assms(1) by (simp add: serves_def)
  obtain p where p: "sv_child w = Some p"
    using assms(1) by (cases "sv_child w") (auto simp: serves_def child_is_process_def procs_view_def)
  have wait: "ends (p_try_wait p) (\<lambda>exit w'. if exit = None then serves b w' else idle (lose_child w')) (\<lambda>_ _. True) w"
    by (rule ends_mono [OF ends_conj [OF try_wait_lose [OF one p], of "\<lambda>exit w'. exit = None \<longrightarrow> sv_procs w' = sv_procs w" "\<lambda>_ _. True"]])
      (use assms(1) in \<open>auto simp: serves_def p_try_wait_def ends_call Let_def split: list.split\<close>)
  have go_on: "ends rest (\<lambda>v w'. serves b w' \<or> idle w' \<and> v \<in> f ` UNIV) (\<lambda>_ _. True) w'" if "serves b w'" for w'
    by (rule ends_mono [OF maintainsD [OF keeps_only(2) [OF assms(2)] that]]) simp_all
  show ?thesis
    unfolding ends_then ends_query using p
    by (auto intro!: ends_mono [OF wait] go_on simp: ends_simps split: option.splits)
qed


lemma await_serves:
  assumes "serves b w"
  shows "ends (poll_loop (await_poll d)) (\<lambda>v w'. ended (v = Ready) b w') (\<lambda>_ _. True) w"
proof (rule poll_loop_ends [where I = "serves b"])
  fix w assume w: "serves b w"
  have rest: "quiet procs_view (b_then p_probe (\<lambda>p. if probe_ready p then b_return (Some Ready)
      else b_then w_now (\<lambda>now. b_return (if now \<ge> d then Some (TimedOut (why_not p)) else None))))"
    by (intro quiet_rules)
  show "ends (await_poll d) (\<lambda>v w'. case v of None \<Rightarrow> serves b w' | Some a \<Rightarrow> ended (a = Ready) b w') (\<lambda>_ _. True) w"
    unfolding await_poll_def case_prod_unfold
    by (rule ends_mono [OF turn_serves [OF w rest]]) (auto simp: idle_ended serves_ended split: option.split)
qed (simp_all add: assms)

lemma restore_serves:
  assumes "serves b w"
  shows "ends (poll_loop (restore_poll d)) (\<lambda>v w'. ended v b w') (\<lambda>_ _. True) w"
proof (rule poll_loop_ends [where I = "serves b"])
  fix w assume w: "serves b w"
  have rest: "quiet procs_view (b_then p_probe (\<lambda>p. b_return (if probe_ready p then Some True else None)))"
    by (intro quiet_rules)
  have turn: "ends (b_then (b_query sv_child) (\<lambda>child.
     b_then (case child of Some p \<Rightarrow> p_try_wait p | None \<Rightarrow> b_return None) (\<lambda>exit. case exit of
       Some x \<Rightarrow> b_then (b_modify lose_child) (\<lambda>_. b_return (Some False))
     | None \<Rightarrow> b_then p_probe (\<lambda>p. b_return (if probe_ready p then Some True else None)))))
     (\<lambda>v w'. case v of None \<Rightarrow> serves b w' | Some a \<Rightarrow> ended a b w') (\<lambda>_ _. True) w" if "serves b w" for w
    by (rule ends_mono [OF turn_serves [OF that rest]]) (auto simp: idle_ended serves_ended split: option.split)
  show "ends (restore_poll d) (\<lambda>v w'. case v of None \<Rightarrow> serves b w' | Some a \<Rightarrow> ended a b w') (\<lambda>_ _. True) w"
    unfolding restore_poll_def ends_then [of w_now]
    by (rule ends_mono [OF maintainsD [OF keeps_only(2) [OF quiet_calls(1)] w]]) (auto simp: ends_simps(1) serves_ended intro!: turn)
qed (simp_all add: assms)

text \<open>A quiet call, or any other that says what it leaves.\<close>

lemma ends_quiet:
  assumes "quiet procs_view m" "serves b w" "\<And>a w'. serves b w' \<Longrightarrow> ends (f a) P (\<lambda>_ _. True) w'"
  shows "ends (b_then m f) P (\<lambda>_ _. True) w"
  unfolding ends_then by (rule ends_keeps [OF keeps_only(2) [OF assms(1)] assms(2)]) (simp_all add: assms(3))

lemma try_kernel_serves:
  assumes "idle w"
  shows "ends (try_kernel a) (\<lambda>r w'. ended (r = None) (ak_binary a) w') (\<lambda>_ _. True) w"
proof -
  have wait: "ends (b_then w_now (\<lambda>now. b_then (poll_loop (await_poll (now + n))) (\<lambda>v. b_return (f v))))
      (\<lambda>r w'. ended (r = None) b w') (\<lambda>_ _. True) w"
    if "serves b w" "\<And>v. f v = None \<longleftrightarrow> v = Ready" for w b n and f :: "verdict \<Rightarrow> str option"
    by (rule ends_quiet [OF quiet_calls(1) that(1)], unfold ends_then)
      (rule ends_mono [OF await_serves]; simp add: ends_simps that(2))
  have free: "ends p_wait_port (\<lambda>_. idle) (\<lambda>_ _. True) w"
    by (rule ends_keeps [OF quiet_idle assms]) (simp_all add: quiet_rules)
  show ?thesis
    unfolding try_kernel_def ends_then [of p_wait_port] ends_then [of "b_query sv_config"] ends_query ends_if
    by (rule ends_mono [OF free])
      (auto simp: ends_simps(1) idle_ended ends_then [of "launch a"] intro!: ends_mono [OF launch_serves] wait split: sum.splits verdict.splits)
qed

lemma restore_kernel_serves:
  assumes "idle w"
  shows "ends (restore_kernel a) (\<lambda>r w'. ended r (ak_binary a) w') (\<lambda>_ _. True) w"
proof -
  have wait: "ends (b_then (b_query sv_config) (\<lambda>c. b_then w_now (\<lambda>now. poll_loop (restore_poll (now + f c)))))
      (\<lambda>r w'. ended r b w') (\<lambda>_ _. True) w" if "serves b w" for w b f
    by (rule ends_quiet [OF quiet_query that], rule ends_quiet [OF quiet_calls(1)], assumption, rule restore_serves)
  show ?thesis
    unfolding restore_kernel_def ends_then [of "launch a"]
    by (rule ends_mono [OF launch_serves [OF assms]]) (auto simp: ends_simps(1) idle_ended intro!: wait split: sum.splits)
qed


section \<open>The outcome\<close>

text \<open>The name a rollback is recorded under: the last swap's, not its own.\<close>

definition blamed :: "supervisor \<Rightarrow> str" where
  "blamed w = (case sv_last_swap w of Some r \<Rightarrow> rs_id r | None \<Rightarrow> lit ''swap'')"

definition switched :: "swap_request \<Rightarrow> active_kernel \<Rightarrow> watch_config \<Rightarrow> supervisor \<Rightarrow> bool" where
  "switched r previous c w \<longleftrightarrow> (\<exists>at. sv_last_swap w = Some (swap_settled r previous (wc_port c) at)) \<and>
     serves (sr_binary r) w \<and> sv_phase w = PhHealthy"

definition undone :: "str \<Rightarrow> active_kernel \<Rightarrow> supervisor \<Rightarrow> bool" where
  "undone name previous w \<longleftrightarrow> (\<exists>detail at. sv_last_swap w = Some (rolled_back name previous detail at)) \<and>
     (if sv_phase w = PhHealthy then serves (ak_binary previous) w else only (ak_binary previous) w \<and> sv_phase w = PhStarting)"

text \<open>Everything the outcome is about, which the files do not touch.\<close>

definition settle_view :: "supervisor \<Rightarrow> watch_config \<times> phase \<times> swap_summary option \<times> (nat option \<times> nat option \<times> (nat \<times> str) list \<times> (nat \<times> str) list \<times> bool)" where
  "settle_view w = (sv_config w, sv_phase w, sv_last_swap w, procs_view w)"

named_theorems still_rules \<open>programs that leave what the outcome is about alone\<close>

lemma still_calls [still_rules]:
  "quiet settle_view w_now" "quiet settle_view w_wall" "quiet settle_view (w_write n s)" "quiet settle_view (w_rename n n')"
  "quiet settle_view (w_remove n)" "quiet settle_view p_wait_port"
  unfolding calls
  by (rule quiet_call; auto simp: settle_view_def procs_view_def split: option.split)+

lemmas [still_rules] = quiet_return quiet_query quiet_then quiet_drop quiet_if quiet_option quiet_let

lemma still_writes [still_rules]:
  "quiet settle_view (write_atomic p s)" "quiet settle_view (write_pid p n)" "quiet settle_view (write_current a)"
  "quiet settle_view (write_result r)" "quiet settle_view (w_event e)"
proof -
  show atomic: "quiet settle_view (write_atomic p s)" for p s
    unfolding write_atomic_def by (intro still_rules)
  show "quiet settle_view (write_pid p n)" "quiet settle_view (write_current a)" "quiet settle_view (write_result r)" "quiet settle_view (w_event e)"
    unfolding write_pid_def write_current_def write_result_def w_event_def
    by (intro still_rules quiet_modify atomic; auto simp: settle_view_def quiet_unfold dest: never_two_live)+
qed

lemma quiet_kept: "quiet view m \<Longrightarrow> maintains (\<lambda>w'. view w' = v) (\<lambda>_. True) m"
  by (rule quiet_keeps) simp_all

lemma ends_still:
  assumes "quiet view m" "\<And>a w'. view w' = view w \<Longrightarrow> ends (f a) P (\<lambda>_ _. True) w'"
  shows "ends (b_then m f) P (\<lambda>_ _. True) w"
  unfolding ends_then
  by (rule ends_keeps [where I = "\<lambda>w'. view w' = view w" and J = "\<lambda>_. True"])
    (use assms in \<open>auto intro: quiet_kept\<close>)

lemma ends_set: "ends (f ()) P (\<lambda>_ _. True) (g w) \<Longrightarrow> ends (b_then (b_modify g) f) P (\<lambda>_ _. True) w"
  by (simp add: ends_simps)

lemma ends_ask: "ends (f (g w)) P (\<lambda>_ _. True) w \<Longrightarrow> ends (b_then (b_query g) f) P (\<lambda>_ _. True) w"
  by (simp add: ends_simps)

lemma ends_kept: "quiet view m \<Longrightarrow> (\<And>w'. view w' = view w \<Longrightarrow> P w') \<Longrightarrow> ends m (\<lambda>_. P) (\<lambda>_ _. True) w"
  by (rule ends_keeps [where I = "\<lambda>w'. view w' = view w" and J = "\<lambda>_. True"])
    (auto intro: quiet_kept)

lemma settle_view_eq:
  "settle_view w = settle_view w' \<longleftrightarrow> sv_config w = sv_config w' \<and> sv_phase w = sv_phase w' \<and> sv_last_swap w = sv_last_swap w' \<and>
    procs_view w = procs_view w'"
  by (simp add: settle_view_def)

lemma view_fields [simp]:
  "procs_view (w\<lparr>sv_phase := ph\<rparr>) = procs_view w" "procs_view (w\<lparr>sv_phase := ph, sv_attempt := n\<rparr>) = procs_view w"
  "procs_view (w\<lparr>sv_last_swap := x\<rparr>) = procs_view w" "procs_view (w\<lparr>sv_stability := z\<rparr>) = procs_view w"
  "procs_view (w\<lparr>sv_restart_at := at\<rparr>) = procs_view w" "procs_view (w\<lparr>sv_events := es\<rparr>) = procs_view w"
  by (simp_all add: procs_view_def)

text \<open>Which process runs is a question to the view.\<close>

lemma serves_view: "procs_view w = procs_view w' \<Longrightarrow> serves b w = serves b w'" "procs_view w = procs_view w' \<Longrightarrow> only b w = only b w'"
  by (simp_all add: serves_def only_def procs_of_view)

lemma serving_serves: "serves b w \<Longrightarrow> ends serving (\<lambda>_ w'. settle_view w' = settle_view (w\<lparr>sv_phase := PhHealthy\<rparr>)) (\<lambda>_ _. True) w"
  unfolding serving_def
  by (rule ends_set, rule ends_ask, rule ends_kept [where view = settle_view]) (simp_all add: still_rules settle_view_eq)

lemma report_settled_ends:
  assumes "serves (sr_binary r) w" "sv_phase w = PhHealthy" "sv_config w = c"
  shows "ends (report_settled r previous) (\<lambda>_. switched r previous c) (\<lambda>_ _. True) w"
  unfolding report_settled_def
  by (rule ends_ask, rule ends_still [OF still_calls(2)], rule ends_set, rule ends_still [OF still_writes(5)],
      rule ends_still [OF still_calls(2)], rule ends_kept [OF quiet_drop [OF still_writes(4)]])
    (use assms in \<open>auto simp: settle_view_eq switched_def dest: serves_view(1)\<close>)

lemma still_window [still_rules]: "quiet settle_view (open_window previous)"
  unfolding open_window_def by (intro still_rules quiet_modify; simp add: settle_view_eq)

lemma settle_swap_settled:
  assumes "serves (sr_binary r) w" "sv_config w = c"
  shows "ends (settle_swap r previous) (\<lambda>_. switched r previous c) (\<lambda>_ _. True) w"
proof -
  have tail: "ends (b_then (open_window previous) (\<lambda>_. report_settled r previous)) (\<lambda>_. switched r previous c) (\<lambda>_ _. True) w'"
    if "settle_view w' = settle_view (w\<lparr>sv_phase := PhHealthy\<rparr>)" for w'
    by (rule ends_still [OF still_window], rule report_settled_ends)
      (use that assms in \<open>auto simp: settle_view_eq dest: serves_view(1)\<close>)
  have serve: "ends (b_then serving (\<lambda>_. b_then (open_window previous) (\<lambda>_. report_settled r previous)))
      (\<lambda>_. switched r previous c) (\<lambda>_ _. True) w'" if w': "settle_view w' = settle_view w" for w'
  proof -
    have "serves (sr_binary r) w'" using w' assms(1) by (auto simp: settle_view_eq dest: serves_view(1))
    from serving_serves [OF this] show ?thesis
      unfolding ends_then [of serving] by (rule ends_mono) (use w' in \<open>auto intro!: tail simp: settle_view_eq\<close>)
  qed
  show ?thesis
    unfolding settle_swap_def by (rule ends_still [OF quiet_drop [OF still_writes(3)]], rule serve)
qed

text \<open>The other way: the new kernel is stopped, the previous one is started.\<close>

lemma record_rollback_ends:
  "ends (record_rollback detail previous) (\<lambda>_ w'. (\<exists>at. sv_last_swap w' = Some (rolled_back (blamed w) previous detail at)) \<and>
     procs_view w' = procs_view w \<and> sv_phase w' = sv_phase w) (\<lambda>_ _. True) w"
  unfolding record_rollback_def
  by (rule ends_ask, rule ends_still [OF still_calls(2)], rule ends_set, rule ends_still [OF still_writes(5)],
      rule ends_still [OF still_calls(2)], rule ends_kept [OF quiet_drop [OF still_writes(4)]])
    (auto simp: settle_view_eq blamed_def)

definition restored_as :: "bool \<Rightarrow> str \<Rightarrow> str \<Rightarrow> supervisor \<Rightarrow> bool" where
  "restored_as good b name w \<longleftrightarrow> blamed w = name \<and>
     (if good then serves b w \<and> sv_phase w = PhHealthy else only b w \<and> sv_phase w = PhStarting)"

lemma report_undone:
  assumes "restored_as good (ak_binary previous) name w"
  shows "ends (b_then (record_rollback detail previous) (\<lambda>_. b_then w_wall (\<lambda>now. w_drop (write_result (f now)))))
    (\<lambda>_. undone name previous) (\<lambda>_ _. True) w"
proof -
  have tail: "ends (b_then w_wall (\<lambda>now. w_drop (write_result (f now)))) (\<lambda>_. undone name previous) (\<lambda>_ _. True) w'"
    if "undone name previous w'" for w'
  proof (rule ends_still [OF still_calls(2)], rule ends_kept [OF quiet_drop [OF still_writes(4)]])
    fix v u assume "settle_view v = settle_view w'" "settle_view u = settle_view v"
    then have "procs_view u = procs_view w'" "sv_phase u = sv_phase w'" "sv_last_swap u = sv_last_swap w'"
      by (simp_all add: settle_view_eq)
    with that show "undone name previous u" using serves_view [of u w'] by (simp add: undone_def)
  qed
  show ?thesis
    unfolding ends_then [of "record_rollback _ _"]
  proof (rule ends_mono [OF record_rollback_ends], rule tail)
    fix w' assume v: "(\<exists>at. sv_last_swap w' = Some (rolled_back (blamed w) previous detail at)) \<and>
      procs_view w' = procs_view w \<and> sv_phase w' = sv_phase w"
    then show "undone name previous w'"
      using assms serves_view [of w' w] by (auto simp: undone_def restored_as_def split: if_splits)
  qed simp
qed

lemma blamed_view: "swap_view w = swap_view w' \<Longrightarrow> blamed w = blamed w'"
  by (simp add: swap_view_def blamed_def)

lemma settle_view_blamed: "settle_view w = settle_view w' \<Longrightarrow> blamed w = blamed w'"
  by (simp add: settle_view_eq blamed_def)

lemma ends_blamed:
  assumes "quiet swap_view m" "blamed w = name" "ends m P (\<lambda>_ _. True) w"
  shows "ends m (\<lambda>a w'. P a w' \<and> blamed w' = name) (\<lambda>_ _. True) w"
proof (rule ends_mono [OF ends_conj [OF assms(3) ends_kept [OF assms(1)]]])
  show "blamed w' = name" if "swap_view w' = swap_view w" for w' using blamed_view [OF that] assms(2) by simp
qed simp_all


lemma resume_ends:
  assumes "ended good b w" "blamed w = name"
  shows "ends (if good then serving else b_then (b_modify (\<lambda>w. w\<lparr>sv_phase := PhStarting\<rparr>)) (\<lambda>_.
      b_then w_now (\<lambda>now. b_modify (\<lambda>w. w\<lparr>sv_restart_at := now\<rparr>)))) (\<lambda>_. restored_as good b name) (\<lambda>_ _. True) w"
proof (cases good)
  case True
  then have s: "serves b w" using assms(1) by (simp add: ended_def)
  have "restored_as True b name w'" if "settle_view w' = settle_view (w\<lparr>sv_phase := PhHealthy\<rparr>)" for w'
    using that s assms(2) serves_view(1) [of w' w b] by (simp add: restored_as_def settle_view_eq blamed_def)
  with True show ?thesis by (simp add: ends_mono [OF serving_serves [OF s]])
next
  case False
  have o: "only b w" using assms(1) False by (simp add: ended_def)
  have "ends (b_then (b_modify (\<lambda>w. w\<lparr>sv_phase := PhStarting\<rparr>)) (\<lambda>_. b_then w_now (\<lambda>now. b_modify (\<lambda>w. w\<lparr>sv_restart_at := now\<rparr>))))
      (\<lambda>_. restored_as False b name) (\<lambda>_ _. True) w"
    by (rule ends_set, rule ends_kept [where view = settle_view])
      (use o assms(2) in \<open>auto intro!: still_rules quiet_modify simp: settle_view_eq restored_as_def blamed_def dest: serves_view(2)\<close>)
  with False show ?thesis by simp
qed

lemma roll_back_undone:
  assumes one: "one_kernel w" and name: "blamed w = name"
  shows "ends (roll_back r previous why) (\<lambda>_. undone name previous) (\<lambda>_ _. True) w"
proof -
  let ?finish = "\<lambda>good. b_then (if good then serving else b_then (b_modify (\<lambda>w. w\<lparr>sv_phase := PhStarting\<rparr>)) (\<lambda>_.
      b_then w_now (\<lambda>now. b_modify (\<lambda>w. w\<lparr>sv_restart_at := now\<rparr>)))) (\<lambda>_.
      let detail = why @ lit ''; the previous kernel '' @ (if good then lit ''is serving again'' else lit ''did not answer either'') in
      b_then (record_rollback detail previous) (\<lambda>_. b_then w_wall (\<lambda>now. w_drop (write_result (rolled_back (sr_id r) previous detail now)))))"
  have rest: "ends (?finish good) (\<lambda>_. undone name previous) (\<lambda>_ _. True) w'"
    if "ended good (ak_binary previous) w'" "blamed w' = name" for good w'
    unfolding Let_def ends_then [of "if good then serving else _"]
    by (rule ends_mono [OF resume_ends [OF that]], rule report_undone) simp_all
  have restore: "ends (b_then (restore_kernel previous) ?finish) (\<lambda>_. undone name previous) (\<lambda>_ _. True) w'"
    if "idle w'" "blamed w' = name" for w'
    unfolding ends_then [of "restore_kernel _"]
    by (rule ends_mono [OF ends_blamed [OF blame_kernels(2) that(2) restore_kernel_serves [OF that(1)]]]) (use rest in auto)
  have quiet: "ends (b_then m (\<lambda>_. n)) (\<lambda>_. undone name previous) (\<lambda>_ _. True) w'"
    if "quiet settle_view m" "idle w'" "blamed w' = name" "\<And>w'. idle w' \<Longrightarrow> blamed w' = name \<Longrightarrow> ends n (\<lambda>_. undone name previous) (\<lambda>_ _. True) w'"
    for m :: "'b wm" and n :: "unit wm" and w'
    by (rule ends_still [OF that(1)], rule that(4)) (use that(2,3) in \<open>auto simp: settle_view_eq blamed_def\<close>)
  have stop: "ends stop_child (\<lambda>_ w'. idle w' \<and> blamed w' = name) (\<lambda>_ _. True) w"
    by (rule ends_blamed [OF blame_programs(4) name]) (rule ends_mono [OF stop_child_idle [OF one]], simp_all)
  show ?thesis
    unfolding roll_back_def ends_then [of stop_child]
  proof (rule ends_mono [OF stop], elim conjE)
    fix w' assume "idle w'" "blamed w' = name"
    then show "ends (b_then (w_drop (write_current previous)) (\<lambda>_. b_then p_wait_port (\<lambda>_. b_then (restore_kernel previous) ?finish)))
        (\<lambda>_. undone name previous) (\<lambda>_ _. True) w'"
      by (intro quiet [OF quiet_drop [OF still_writes(3)]] quiet [OF still_calls(6)] restore)
  qed simp
qed

section \<open>A whole switch\<close>

lemma begin_swap_ends:
  assumes one: "one_kernel w" and name: "blamed w = name" and config: "sv_config w = c"
  shows "ends (begin_swap r previous) (\<lambda>_ w'. switched r previous c w' \<or> undone name previous w') (\<lambda>_ _. True) w"
proof -
  have switch: "ends (b_then stop_child (\<lambda>_. b_then (try_kernel (requested_kernel r)) (\<lambda>why. case why of
      None \<Rightarrow> settle_swap r previous | Some why \<Rightarrow> roll_back r previous why)))
      (\<lambda>_ w'. switched r previous c w' \<or> undone name previous w') (\<lambda>_ _. True) w"
    if w: "one_kernel w" "swap_view w = (c, x)" "blamed w = name" for w :: supervisor and x
  proof -
    have kept: "ends m (\<lambda>a w'. P a w' \<and> blamed w' = name \<and> sv_config w' = c) (\<lambda>_ _. True) v"
      if "quiet swap_view m" "swap_view v = (c, x)" "blamed v = name" "ends m P (\<lambda>_ _. True) v" for m :: "'b wm" and P v
      by (rule ends_mono [OF ends_conj [OF ends_blamed [OF that(1,3,4)] ends_kept [OF that(1), of v "\<lambda>w'. swap_view w' = (c, x)"]]])
        (use that(2) in \<open>auto simp: swap_view_def\<close>)
    have view: "swap_view v = (c, x)" if "sv_config v = c" "sv_last_swap v = x" for v using that by (simp add: swap_view_def)
    have stop: "ends stop_child (\<lambda>_ w'. idle w' \<and> swap_view w' = (c, x) \<and> blamed w' = name) (\<lambda>_ _. True) w"
      by (rule ends_mono [OF ends_conj [OF ends_blamed [OF blame_programs(4) w(3), of "\<lambda>_. idle"] ends_kept [OF blame_programs(4), of w "\<lambda>w'. swap_view w' = (c, x)"]]])
        (use w in \<open>auto intro!: ends_mono [OF stop_child_idle [OF w(1)]]\<close>)
    have tried: "ends (try_kernel (requested_kernel r)) (\<lambda>why w'. ended (why = None) (sr_binary r) w' \<and> blamed w' = name \<and> sv_config w' = c) (\<lambda>_ _. True) v"
      if "idle v" "swap_view v = (c, x)" "blamed v = name" for v
      using kept [OF blame_kernels(1) that(2,3) try_kernel_serves [OF that(1), of "requested_kernel r"]] by (simp add: requested_kernel_def)
    have ends: "ends (case why of None \<Rightarrow> settle_swap r previous | Some why \<Rightarrow> roll_back r previous why)
        (\<lambda>_ w'. switched r previous c w' \<or> undone name previous w') (\<lambda>_ _. True) v"
      if "ended (why = None) (sr_binary r) v" "blamed v = name" "sv_config v = c" for why v
      using that by (cases why) (auto simp: ended_def only_def intro!: ends_mono [OF settle_swap_settled] ends_mono [OF roll_back_undone])
    show ?thesis
      unfolding ends_then [of stop_child] ends_then [of "try_kernel _"]
      by (rule ends_mono [OF stop], rule ends_mono [OF tried], simp_all add: ends)
  qed
  have "ends (b_then stop_child (\<lambda>_. b_then (try_kernel (requested_kernel r)) (\<lambda>why. case why of
      None \<Rightarrow> settle_swap r previous | Some why \<Rightarrow> roll_back r previous why)))
      (\<lambda>_ w'. switched r previous c w' \<or> undone name previous w') (\<lambda>_ _. True)
      (w\<lparr>sv_events := e, sv_phase := PhSwapping, sv_stability := None\<rparr>)" for e
    by (rule switch [where x = "sv_last_swap w"]) (use assms in \<open>simp_all add: swap_view_def blamed_def procs_view_def\<close>)
  then show ?thesis
    unfolding begin_swap_def ends_then [of "w_event _"] ends_then [of "b_modify _"] w_event_def ends_modify .
qed

lemma switched_outcome:
  "switched r previous c w \<Longrightarrow> \<exists>at. sv_last_swap w = Some (swap_settled r previous (wc_port c) at) \<and>
     sv_phase w = PhHealthy \<and> map snd (sv_procs w) = [sr_binary r]"
  by (auto simp: switched_def serves_def)

lemma undone_outcome:
  assumes "undone name previous w"
  shows "\<exists>detail at. sv_last_swap w = Some (rolled_back name previous detail at) \<and>
     (sv_phase w = PhHealthy \<and> map snd (sv_procs w) = [ak_binary previous] \<or>
      sv_phase w = PhStarting \<and> snd ` set (sv_procs w) \<subseteq> {ak_binary previous})"
proof -
  obtain detail at where last: "sv_last_swap w = Some (rolled_back name previous detail at)"
    using assms by (auto simp: undone_def)
  have "sv_phase w = PhHealthy \<and> map snd (sv_procs w) = [ak_binary previous] \<or>
      sv_phase w = PhStarting \<and> snd ` set (sv_procs w) \<subseteq> {ak_binary previous}"
    using assms by (cases "sv_phase w = PhHealthy") (simp_all add: undone_def serves_def only_def)
  with last show ?thesis by (intro exI conjI)
qed

end
