(* ===== verification/WatchdogStageLaws.thy ===== *)
theory WatchdogStageLaws
  imports WatchdogStage WatchdogSwap
begin

text \<open>
  What staging leaves under \<open>bin\<close> wherever it is stopped, and what proving a candidate leaves running.
\<close>

section \<open>The staged files\<close>

abbreviation in_bin :: "str \<Rightarrow> bool" where
  "in_bin n \<equiv> prefix (lit ''bin/'') n"

text \<open>No other program writes under \<open>bin\<close>.\<close>

definition bin_ours :: "observation \<Rightarrow> bool" where
  "bin_ours ob \<longleftrightarrow> (\<forall>(name, c) \<in> set (ob_others ob). \<not> in_bin name)"

definition staged :: "(str \<Rightarrow> content option) \<Rightarrow> supervisor \<Rightarrow> bool" where
  "staged f w \<longleftrightarrow> (\<forall>ob \<in> set (sv_script w). bin_ours ob) \<and> (\<forall>n. in_bin n \<longrightarrow> bm_get (sv_files w) n = f n)"

definition pinned :: "str \<Rightarrow> content option \<Rightarrow> bool" where
  "pinned pin c \<longleftrightarrow> (\<exists>b. c = Some b \<and> sha256_hex (content_bytes b) = pin)"

lemma staged_call:
  assumes "staged f w"
    and "\<And>ob w. staged f w \<Longrightarrow> case g ob w of (a, w') \<Rightarrow> P a w'" "\<And>w. staged f w \<Longrightarrow> E () w"
  shows "ends (w_call g) P E w"
proof (cases "sv_script w")
  case Nil
  then show ?thesis using assms(1,3) by (simp add: ends_call)
next
  case (Cons ob obs)
  have "bin_ours ob" using assms(1) Cons by (simp add: staged_def)
  then have "bm_get (apply_others (ob_others ob) (sv_files w)) n = bm_get (sv_files w) n" if "in_bin n" for n
    using that by (intro others_keep) (auto simp: bin_ours_def)
  then have "staged f (w\<lparr>sv_script := obs, sv_files := apply_others (ob_others ob) (sv_files w)\<rparr>)"
    using assms(1) Cons by (simp add: staged_def)
  from assms(2) [OF this, of ob] Cons show ?thesis by (simp add: ends_call)
qed

lemma staged_calls:
  assumes w: "staged f w"
  shows "ends (w_exists n) (\<lambda>_. staged f) (\<lambda>_. staged f) w" "ends home_ensure (\<lambda>_. staged f) (\<lambda>_. staged f) w"
    "in_bin n \<Longrightarrow> ends (w_digest n) (\<lambda>d w'. staged f w' \<and> (\<forall>x. d = Some x \<longrightarrow> pinned x (f n))) (\<lambda>_. staged f) w"
    "in_bin n \<Longrightarrow> ends (w_copy src n) (\<lambda>b w'. if b then \<exists>c. staged (f(n \<mapsto> c)) w' else staged f w') (\<lambda>_. staged f) w"
    "in_bin n \<Longrightarrow> ends (w_remove n) (\<lambda>_ w'. staged f w' \<or> staged (f(n := None)) w') (\<lambda>_. staged f) w"
    "in_bin n \<Longrightarrow> in_bin n' \<Longrightarrow> n \<noteq> n' \<Longrightarrow>
      ends (w_rename n n') (\<lambda>b w'. if b then staged (f(n := None, n' := f n)) w' \<and> f n \<noteq> None else staged f w') (\<lambda>_. staged f) w"
proof -
  note call = staged_call [OF w]
  show "ends (w_exists n) (\<lambda>_. staged f) (\<lambda>_. staged f) w" "ends home_ensure (\<lambda>_. staged f) (\<lambda>_. staged f) w"
    unfolding w_exists_def home_ensure_def by (rule call; simp)+
  assume n: "in_bin n"
  show "ends (w_digest n) (\<lambda>d w'. staged f w' \<and> (\<forall>x. d = Some x \<longrightarrow> pinned x (f n))) (\<lambda>_. staged f) w"
    unfolding w_digest_def
    by (rule call) (use n in \<open>auto simp: staged_def pinned_def split: option.splits\<close>)
  show "ends (w_copy src n) (\<lambda>b w'. if b then \<exists>c. staged (f(n \<mapsto> c)) w' else staged f w') (\<lambda>_. staged f) w"
    unfolding w_copy_def
    by (rule call) (auto simp: staged_def split: option.splits)
  show "ends (w_remove n) (\<lambda>_ w'. staged f w' \<or> staged (f(n := None)) w') (\<lambda>_. staged f) w"
    unfolding w_remove_def
    by (rule call) (auto simp: staged_def)
  assume n': "in_bin n'" "n \<noteq> n'"
  show "ends (w_rename n n') (\<lambda>b w'. if b then staged (f(n := None, n' := f n)) w' \<and> f n \<noteq> None else staged f w') (\<lambda>_. staged f) w"
    unfolding w_rename_def
    by (rule call) (use n n' in \<open>auto simp: staged_def split: option.splits\<close>)
qed

lemma staged_verify:
  assumes "staged f w" "in_bin n"
  shows "ends (verify_pin n pin) (\<lambda>r w'. staged f w' \<and> (r = Inr () \<longrightarrow> pinned pin (f n))) (\<lambda>_. staged f) w"
  unfolding verify_pin_def ends_then
  by (rule ends_mono [OF staged_calls(1) [OF assms(1)]])
    (auto simp: ends_simps intro!: ends_mono [OF staged_calls(3)] assms(2) split: option.splits if_splits)

text \<open>Only the two files of the staging are touched, and the target is what it was or what the pin says.\<close>

definition target_safe :: "str \<Rightarrow> str \<Rightarrow> str \<Rightarrow> (str \<Rightarrow> content option) \<Rightarrow> supervisor \<Rightarrow> bool" where
  "target_safe pin target temporary f w \<longleftrightarrow> (\<exists>g. staged g w \<and> (\<forall>n. n \<notin> {target, temporary} \<longrightarrow> g n = f n) \<and>
     (g target = f target \<or> pinned pin (g target)))"

lemma safe_kept:
  "staged f w \<Longrightarrow> target_safe pin t t' f w"
  "staged (f(t' := c)) w \<Longrightarrow> t \<noteq> t' \<Longrightarrow> target_safe pin t t' f w"
  "staged (f(t' := c, t := d)) w \<Longrightarrow> pinned pin d \<Longrightarrow> target_safe pin t t' f w"
  by (auto simp: target_safe_def intro: exI [of _ f] exI [of _ "f(t' := c)"] exI [of _ "f(t' := c, t := d)"])

lemma stage_names:
  "in_bin (stage_dir pin @ name)" "in_bin (stage_temporary pin name pid)" "stage_temporary pin name pid \<noteq> stage_dir pin @ name"
  by (simp_all add: stage_dir_def stage_temporary_def lit_def)

lemma stage_copy_safe:
  assumes w: "staged f w" and pid: "sv_pid w = pid"
    and t_def: "t = stage_dir pin @ name" and t'_def: "t' = stage_temporary pin name pid"
  shows "ends (stage_copy binary name pin) (\<lambda>r w'. target_safe pin t t' f w' \<and>
      (\<forall>p. r = Inr p \<longrightarrow> p = t \<and> pinned pin (bm_get (sv_files w') t))) (\<lambda>_. target_safe pin t t' f) w"
proof -
  note bin = stage_names [of pin name, folded t_def] stage_names(2,3) [of pin name pid, folded t_def t'_def]
  have move: "ends (b_then (w_rename t' t) (\<lambda>moved. if moved then b_return (Inr t)
      else b_then (w_remove t') (\<lambda>_. b_return (Inl (CannotMove t)))))
      (\<lambda>r w'. target_safe pin t t' f w' \<and> (\<forall>p. r = Inr p \<longrightarrow> p = t \<and> pinned pin (bm_get (sv_files w') t))) (\<lambda>_. target_safe pin t t' f) w"
    if "staged (f(t' \<mapsto> c)) w" "pinned pin (Some c)" for c w
    unfolding ends_then
  proof (rule ends_mono [OF staged_calls(6) [OF that(1) bin(4,1,5)]])
    fix moved w' assume r: "if moved then staged ((f(t' \<mapsto> c))(t' := None, t := (f(t' \<mapsto> c)) t')) w' \<and> (f(t' \<mapsto> c)) t' \<noteq> None
      else staged (f(t' \<mapsto> c)) w'"
    show "ends (if moved then b_return (Inr t) else b_then (w_remove t') (\<lambda>_. b_return (Inl (CannotMove t))))
      (\<lambda>r w'. target_safe pin t t' f w' \<and> (\<forall>p. r = Inr p \<longrightarrow> p = t \<and> pinned pin (bm_get (sv_files w') t))) (\<lambda>_. target_safe pin t t' f) w'"
    proof (cases moved)
      case True
      then have s: "staged (f(t' := None, t := Some c)) w'" using r by simp
      then have "bm_get (sv_files w') t = Some c" using bin(1) by (simp add: staged_def)
      then show ?thesis using True safe_kept(3) [OF s that(2)] that(2) by (simp add: ends_simps)
    next
      case False
      then have s: "staged (f(t' \<mapsto> c)) w'" using r by simp
      have gone: "target_safe pin t t' f u" if "staged (f(t' \<mapsto> c)) u \<or> staged ((f(t' \<mapsto> c))(t' := None)) u" for u
        using that safe_kept(2) [of f t' _ u t pin] bin(5) by (metis fun_upd_upd)
      show ?thesis
        using False by (auto simp: ends_simps intro!: ends_mono [OF staged_calls(5) [OF s bin(4)]] gone)
    qed
  qed (use safe_kept(2) bin(5) in metis)
  have check: "ends (b_then (verify_pin t' pin) (\<lambda>r. case r of Inl e \<Rightarrow> b_return (Inl e) | Inr _ \<Rightarrow>
      b_then (w_rename t' t) (\<lambda>moved. if moved then b_return (Inr t) else b_then (w_remove t') (\<lambda>_. b_return (Inl (CannotMove t))))))
      (\<lambda>r w'. target_safe pin t t' f w' \<and> (\<forall>p. r = Inr p \<longrightarrow> p = t \<and> pinned pin (bm_get (sv_files w') t))) (\<lambda>_. target_safe pin t t' f) w"
    if "\<exists>c. staged (f(t' \<mapsto> c)) w" for w
  proof -
    from that obtain c where s: "staged (f(t' \<mapsto> c)) w" ..
    show ?thesis
    unfolding ends_then [of "verify_pin _ _"]
    by (rule ends_mono [OF staged_verify [OF s bin(4)]])
      (use safe_kept(2) [of f t' "Some c"] bin(5) in \<open>auto simp: ends_simps(1) intro!: move split: sum.splits\<close>)
  qed
  show ?thesis
    unfolding stage_copy_def Let_def ends_then [of "b_query _"] ends_then [of "w_copy _ _"] ends_query pid t_def [symmetric] t'_def [symmetric]
    by (rule ends_mono [OF staged_calls(4) [OF w bin(4)]])
      (auto simp: ends_simps(1) safe_kept(1) intro!: check split: if_splits)
qed


lemma pid_calls: "quiet sv_pid (w_exists n)" "quiet sv_pid home_ensure" "quiet sv_pid (w_digest n)"
  unfolding w_exists_def home_ensure_def w_digest_def by (rule quiet_call; simp)+

lemma ends_pid:
  assumes "quiet sv_pid m" "sv_pid w = pid" "ends m P E w"
  shows "ends m (\<lambda>a w'. P a w' \<and> sv_pid w' = pid) E w"
  by (rule ends_mono [OF ends_conj [OF assms(3) ends_kept [OF assms(1), of w "\<lambda>w'. sv_pid w' = pid"]]]) (simp_all add: assms(2))

lemma stage_safe:
  assumes w: "staged f w" and pid: "sv_pid w = pid" and name: "file_name_of binary = Some name"
    and t_def: "t = stage_dir pin @ name" and t'_def: "t' = stage_temporary pin name pid"
  shows "ends (stage binary pin) (\<lambda>r w'. target_safe pin t t' f w' \<and>
      (\<forall>p. r = Inr p \<longrightarrow> p = t \<and> pinned pin (bm_get (sv_files w') t))) (\<lambda>_. target_safe pin t t' f) w"
proof -
  have t: "in_bin t" unfolding t_def by (rule stage_names)
  note copy = stage_copy_safe [OF _ _ t_def t'_def]
  have there: "pinned pin (bm_get (sv_files w) t)" if "staged f w" "pinned pin (f t)" for w
    using that t by (simp add: staged_def)
  have digest: "ends (if old then w_digest t else b_return None) (\<lambda>d w'. (staged f w' \<and> (d = Some pin \<longrightarrow> pinned pin (f t))) \<and> sv_pid w' = pid) (\<lambda>_. staged f) w"
    if "staged f w" "sv_pid w = pid" for old w
    using that ends_pid [OF pid_calls(3) that(2) staged_calls(3) [OF that(1) t]]
    by (cases old) (auto simp: ends_simps elim!: ends_mono)
  have start: "ends home_ensure (\<lambda>_ w'. staged f w' \<and> sv_pid w' = pid) (\<lambda>_. staged f) w"
    by (rule ends_pid [OF pid_calls(2) pid staged_calls(2) [OF w]])
  have look: "ends (w_exists t) (\<lambda>_ w'. staged f w' \<and> sv_pid w' = pid) (\<lambda>_. staged f) w'" if "staged f w'" "sv_pid w' = pid" for w'
    by (rule ends_pid [OF pid_calls(1) that(2) staged_calls(1) [OF that(1)]])
  have finish: "ends (if d = Some pin then b_return (Inr t) else stage_copy binary name pin) (\<lambda>r w'. target_safe pin t t' f w' \<and>
      (\<forall>p. r = Inr p \<longrightarrow> p = t \<and> pinned pin (bm_get (sv_files w') t))) (\<lambda>_. target_safe pin t t' f) w'"
    if "staged f w'" "sv_pid w' = pid" "d = Some pin \<longrightarrow> pinned pin (f t)" for d w'
    using that copy [OF that(1,2)] there [OF that(1)] safe_kept(1) [OF that(1)] by (simp add: ends_simps)
  show ?thesis
    unfolding stage_def name option.case t_def [symmetric] ends_then [of home_ensure]
  proof (rule ends_mono [OF start])
    fix ok w' assume s: "staged f w' \<and> sv_pid w' = pid"
    have "ends (b_then (w_exists t) (\<lambda>old. b_then (if old then w_digest t else b_return None) (\<lambda>d.
        if d = Some pin then b_return (Inr t) else stage_copy binary name pin)))
        (\<lambda>r w'. target_safe pin t t' f w' \<and> (\<forall>p. r = Inr p \<longrightarrow> p = t \<and> pinned pin (bm_get (sv_files w') t))) (\<lambda>_. target_safe pin t t' f) w'"
      unfolding ends_then
      by (rule ends_mono [OF look], use s in simp, use s in simp, rule ends_mono [OF digest])
        (simp_all add: finish safe_kept(1))
    then show "ends (if \<not> ok then b_return (Inl (CannotCreate (stage_dir pin))) else
        b_then (w_exists t) (\<lambda>old. b_then (if old then w_digest t else b_return None) (\<lambda>d.
        if d = Some pin then b_return (Inr t) else stage_copy binary name pin)))
        (\<lambda>r w'. target_safe pin t t' f w' \<and> (\<forall>p. r = Inr p \<longrightarrow> p = t \<and> pinned pin (bm_get (sv_files w') t))) (\<lambda>_. target_safe pin t t' f) w'"
      using s safe_kept(1) [of f w'] by (simp add: ends_simps)
  qed (rule safe_kept(1))
qed

section \<open>Pins\<close>

lemma lower_small: "c \<in> set (lower s) \<Longrightarrow> \<not> (65 \<le> c \<and> c \<le> 90)"
  by (auto simp: lower_def)

lemma parse_pin_canonical:
  assumes "parse_pin s = Inr pin"
  shows "length pin = 64 \<and> (\<forall>c \<in> set pin. 48 \<le> c \<and> c \<le> 57 \<or> 97 \<le> c \<and> c \<le> 102)"
proof -
  have p: "pin = lower (trim s)" "length (utf8 pin) = 64" "\<forall>c \<in> set pin. is_hex_char c"
    using assms by (simp_all add: parse_pin_def Let_def list_all_iff split: if_splits)
  have "\<forall>c \<in> set pin. 48 \<le> c \<and> c \<le> 57 \<or> 97 \<le> c \<and> c \<le> 102"
    using p(3) lower_small [of _ "trim s"] unfolding p(1) [symmetric] is_hex_char_def by fastforce
  moreover from this have "ascii pin" by (fastforce simp: ascii_def)
  ultimately show ?thesis using p(2) length_utf8_ascii [of pin] by simp
qed

section \<open>Proving leaves nothing behind\<close>

text \<open>The loop, as for \<open>poll\_loop\<close>.\<close>

lemma prove_loop_ends:
  assumes turn: "\<And>p w. I w \<Longrightarrow> ends (prove_turn pid d p) (\<lambda>v w'. case v of Inl _ \<Rightarrow> I w' | Inr a \<Rightarrow> P a w') E w"
    and stop: "\<And>w. I w \<Longrightarrow> E () w"
  shows "I w \<Longrightarrow> ends (prove_loop pid d p) P E w"
proof (induction "length (sv_script w)" arbitrary: w p rule: less_induct)
  case less
  have t: "ends (prove_turn pid d p) (\<lambda>v w'. case v of Inl _ \<Rightarrow> I w' | Inr a \<Rightarrow> P a w') E w" by (rule turn) (rule less.prems)
  obtain r w' where r: "prove_turn pid d p w = (r, w')" by fastforce
  show ?case
  proof (cases "\<exists>q. r = Inr (Inl q) \<and> length (sv_script w') < length (sv_script w)")
    case True
    then obtain q where q: "r = Inr (Inl q)" "length (sv_script w') < length (sv_script w)" by blast
    have "I w'" using t r q(1) by (simp add: ends_def)
    from less.hyps [OF q(2) this, of q] show ?thesis
      using r q by (simp add: ends_def prove_loop.simps [of pid d p w])
  next
    case False
    then show ?thesis
      using t r stop unfolding ends_def prove_loop.simps [of pid d p w] by (auto split: sum.splits)
  qed
qed

definition candidate :: "nat \<Rightarrow> str \<Rightarrow> supervisor \<Rightarrow> bool" where
  "candidate pid b w \<longleftrightarrow> live (sv_trace w) = [(pid, b)] \<and> sv_procs w = [(pid, b)]"

definition candidate_gone :: "nat \<Rightarrow> str \<Rightarrow> supervisor \<Rightarrow> bool" where
  "candidate_gone pid b w \<longleftrightarrow> live (sv_trace w) = [] \<and> sv_procs w = []"

lemma prove_turn_candidate:
  assumes "candidate pid b w"
  shows "ends (prove_turn pid d p) (\<lambda>v w'. case v of Inl _ \<Rightarrow> candidate pid b w'
      | Inr v \<Rightarrow> (candidate pid b w' \<or> candidate_gone pid b w') \<and> (v = ProofReady \<longrightarrow> b \<in> answered (sv_trace w'))) (\<lambda>_ _. True) w"
  using assms unfolding prove_turn_def p_try_wait_def p_probe_def w_now_def
  by (auto simp: ends_simps ends_call Let_def w_deed_def reap_process_def candidate_def candidate_gone_def split: option.split list.split)

lemma kill_candidate:
  assumes "candidate pid b w \<or> candidate_gone pid b w"
  shows "ends (p_kill pid) (\<lambda>_ w'. candidate_gone pid b w' \<and> answered (sv_trace w') = answered (sv_trace w)) (\<lambda>_ _. True) w"
  using assms unfolding p_kill_def
  by (auto simp: ends_simps ends_call Let_def w_deed_def reap_process_def candidate_def candidate_gone_def split: list.split)

lemma prove_child_ends:
  assumes "candidate pid b w"
  shows "ends (prove_child c port scratch pid) (\<lambda>r w'. candidate_gone pid b w' \<and> (pf_ok r \<longrightarrow> b \<in> answered (sv_trace w'))) (\<lambda>_ _. True) w"
proof -
  let ?P = "\<lambda>v w'. (candidate pid b w' \<or> candidate_gone pid b w') \<and> (v = ProofReady \<longrightarrow> b \<in> answered (sv_trace w'))"
  have now: "ends w_now (\<lambda>_ w'. candidate pid b w') (\<lambda>_ _. True) w"
    using assms by (simp add: w_now_def ends_call candidate_def Let_def split: list.split)
  have loop: "ends (prove_loop pid d p) ?P (\<lambda>_ _. True) w'" if "candidate pid b w'" for d p w'
    by (rule prove_loop_ends [where I = "candidate pid b"]) (use that prove_turn_candidate in auto)
  have clean: "ends (work_free scratch) (\<lambda>_ w'. candidate_gone pid b w' \<and> answered (sv_trace w') = a) (\<lambda>_ _. True) w'"
    if "candidate_gone pid b w'" "answered (sv_trace w') = a" for w' a
    using that by (simp add: work_free_def ends_call candidate_gone_def Let_def split: list.split)
  have finish: "ends (b_then (p_kill pid) (\<lambda>_. b_then (work_free scratch) (\<lambda>_.
      b_return \<lparr>pf_ok = (v = ProofReady), pf_port = port, pf_detail = proof_detail port (wc_start_timeout_ms c) v\<rparr>)))
      (\<lambda>r w'. candidate_gone pid b w' \<and> (pf_ok r \<longrightarrow> b \<in> answered (sv_trace w'))) (\<lambda>_ _. True) w'" if p: "?P v w'" for v w'
    unfolding ends_then
  proof (rule ends_mono [OF kill_candidate [of pid b w']])
    show "candidate pid b w' \<or> candidate_gone pid b w'" using p by blast
    fix u :: unit and x assume x: "candidate_gone pid b x \<and> answered (sv_trace x) = answered (sv_trace w')"
    show "ends (work_free scratch) (\<lambda>_. ends (b_return \<lparr>pf_ok = (v = ProofReady), pf_port = port,
        pf_detail = proof_detail port (wc_start_timeout_ms c) v\<rparr>)
        (\<lambda>r w'. candidate_gone pid b w' \<and> (pf_ok r \<longrightarrow> b \<in> answered (sv_trace w'))) (\<lambda>_ _. True)) (\<lambda>_ _. True) x"
      by (rule ends_mono [OF clean [of x "answered (sv_trace w')"]]) (use x p in \<open>auto simp: ends_simps\<close>)
  qed simp
  show ?thesis
    unfolding prove_child_def ends_then [of w_now] ends_then [of "prove_loop _ _ _"]
    by (rule ends_mono [OF now], rule ends_mono [OF loop]) (simp_all add: finish)
qed

lemma prove_on_ends:
  assumes "live (sv_trace w) = []" "sv_procs w = []"
  shows "ends (prove_on c b scratch port) (\<lambda>r w'. live (sv_trace w') = [] \<and> sv_procs w' = [] \<and>
     (pf_ok r \<longrightarrow> b \<in> answered (sv_trace w'))) (\<lambda>_ _. True) w"
proof -
  have calls: "ends (work_free scratch) (\<lambda>_ w'. live (sv_trace w') = [] \<and> sv_procs w' = []) (\<lambda>_ _. True) w'"
    "ends home_ensure (\<lambda>_ w'. live (sv_trace w') = [] \<and> sv_procs w' = []) (\<lambda>_ _. True) w'"
    "ends (p_spawn b) (\<lambda>r w'. case r of Inl _ \<Rightarrow> live (sv_trace w') = [] \<and> sv_procs w' = [] | Inr pid \<Rightarrow> candidate pid b w') (\<lambda>_ _. True) w'"
    if "live (sv_trace w') = []" "sv_procs w' = []" for w'
    using that by (auto simp: work_free_def home_ensure_def p_spawn_def ends_call Let_def candidate_def w_deed_def split: list.split sum.split)
  have child: "ends (prove_child c port scratch pid) (\<lambda>r w'. live (sv_trace w') = [] \<and> sv_procs w' = [] \<and>
     (pf_ok r \<longrightarrow> b \<in> answered (sv_trace w'))) (\<lambda>_ _. True) w'" if "candidate pid b w'" for pid w'
    by (rule ends_mono [OF prove_child_ends [OF that]]) (simp_all add: candidate_gone_def)
  have start: "ends (b_then (p_spawn b) (\<lambda>r. case r of Inl e \<Rightarrow> b_return \<lparr>pf_ok = False, pf_port = port, pf_detail = g e\<rparr>
      | Inr pid \<Rightarrow> prove_child c port scratch pid)) (\<lambda>r w'. live (sv_trace w') = [] \<and> sv_procs w' = [] \<and>
     (pf_ok r \<longrightarrow> b \<in> answered (sv_trace w'))) (\<lambda>_ _. True) w'" if "live (sv_trace w') = []" "sv_procs w' = []" for g w'
    unfolding ends_then
    by (rule ends_mono [OF calls(3) [OF that]]) (auto simp: ends_simps child split: sum.splits)
  show ?thesis
    unfolding prove_on_def Let_def ends_then [of "work_free _"] ends_then [of home_ensure]
    by (rule ends_mono [OF calls(1) [OF assms]], rule ends_mono [OF calls(2)])
      (auto simp: ends_simps(1) intro!: start split: sum.split)
qed

text \<open>The candidate's home is its own, whatever the configuration sets.\<close>

lemma proof_home: "child_env removed (proof_env c scratch) inherited HOME_VAR = Some scratch"
  by (simp add: child_env_def proof_env_def)

end
