(* ===== verification/WatchdogHealthLaws.thy ===== *)
theory WatchdogHealthLaws
  imports WatchdogHealth
begin

text \<open>
  What the probe makes of a response, however it is cut into reads, and when it panics.
\<close>

section \<open>Finding the end of the headers\<close>

lemma position_take:
  assumes "position pat raw = Some i" "length pat > 0"
  shows "i + length pat \<le> length raw \<and> take (length pat) (drop i raw) = pat"
  using assms
proof (induction raw arbitrary: i)
  case (Cons b bs)
  then show ?case by (cases i) (auto split: if_splits)
qed simp

text \<open>In the beginning of a text a pattern is found where it is in the whole, once it is there.\<close>

lemma position_prefix:
  assumes "position pat raw = Some i" "length pat > 0"
  shows "position pat (take n raw) = (if i + length pat \<le> n then Some i else None)"
  using assms
proof (induction raw arbitrary: i n)
  case (Cons b bs)
  let ?pat = "\<lambda>xs. length pat \<le> length xs \<and> take (length pat) xs = pat"
  show ?case
  proof (cases "?pat (b # bs)")
    case True
    then have "i = 0" using Cons.prems by simp
    show ?thesis
    proof (cases "length pat \<le> n")
      case True
      then obtain m where m: "n = Suc m" using Cons.prems(2) by (cases n) auto
      have "take (length pat) (take n (b # bs)) = pat" "length pat \<le> length (take n (b # bs))"
        using True \<open>?pat (b # bs)\<close> by (simp_all add: min_def)
      then show ?thesis using True \<open>i = 0\<close> m by simp
    next
      case False
      have short: "length xs < length pat \<Longrightarrow> position pat xs = None" for xs by (induction xs) auto
      have "length (take n (b # bs)) < length pat" using False by simp
      from short [OF this] False \<open>i = 0\<close> show ?thesis by simp
    qed
  next
    case False
    then obtain j where j: "i = Suc j" "position pat bs = Some j" using Cons.prems(1) by (auto split: if_splits)
    show ?thesis
    proof (cases n)
      case 0
      then show ?thesis using j by simp
    next
      case (Suc m)
      have "\<not> ?pat (take n (b # bs))"
      proof
        assume p: "?pat (take n (b # bs))"
        then have "length pat \<le> n" "length pat \<le> length (b # bs)" by simp_all
        then have "take (length pat) (take n (b # bs)) = take (length pat) (b # bs)" by (simp add: min_def)
        with p False \<open>length pat \<le> length (b # bs)\<close> show False by metis
      qed
      then show ?thesis using Cons.IH [OF j(2) Cons.prems(2), of m] Suc j(1) by simp
    qed
  qed
qed simp

lemma position_none_prefix: "position pat raw = None \<Longrightarrow> length pat > 0 \<Longrightarrow> position pat (take n raw) = None"
proof (induction raw arbitrary: n)
  case (Cons b bs)
  show ?case
  proof (cases n)
    case (Suc m)
    have "\<not> (length pat \<le> length (take n (b # bs)) \<and> take (length pat) (take n (b # bs)) = pat)"
      using Cons.prems by (auto simp: min_def split: if_splits)
    then show ?thesis using Cons Suc by (auto split: if_splits)
  qed simp
qed simp


lemma position_short: "length xs < length pat \<Longrightarrow> position pat xs = None"
  by (induction xs) auto

text \<open>The headers end with the first empty line, if no bare one comes before it.\<close>

definition head_ends :: "bytes \<Rightarrow> nat \<Rightarrow> bool" where
  "head_ends raw h \<longleftrightarrow> position [13, 10, 13, 10] raw = Some h \<and> position [10, 10] (take (h + 3) raw) = None"

lemma header_bounds_prefix:
  assumes "head_ends raw h"
  shows "header_bounds (take n raw) = (if h + 4 \<le> n then Some (h, h + 4) else None)"
proof (cases "h + 4 \<le> n")
  case True
  then show ?thesis using assms position_prefix [of "[13, 10, 13, 10]" raw h n] by (simp add: head_ends_def header_bounds_def)
next
  case False
  then have "take n raw = take n (take (h + 3) raw)" by (simp add: min_def)
  then have "position [10, 10] (take n raw) = None"
    using assms position_none_prefix [of "[10, 10]" "take (h + 3) raw" n] by (simp add: head_ends_def)
  then show ?thesis
    using False assms position_prefix [of "[13, 10, 13, 10]" raw h n] by (simp add: head_ends_def header_bounds_def)
qed

lemma head_fits: "head_ends raw h \<Longrightarrow> h + 4 \<le> length raw"
  using position_take [of "[13, 10, 13, 10]" raw h] by (simp add: head_ends_def)

section \<open>A promised length\<close>

lemma wrap64_add: "a \<le> u64_max \<Longrightarrow> b \<le> u64_max \<Longrightarrow> wrap64 (a + b) = (if a + b \<le> u64_max then a + b else a + b - (u64_max + 1))"
  by (auto simp: wrap64_def mod_if)

text \<open>The body is there when the promised length is, and a length that wraps makes the slice panic.\<close>

lemma complete_body_exact:
  assumes "header_bounds raw = Some (h, b)" "header_value (utf8_lossy (take h raw)) (lit ''content-length'') = Some v"
    and "parse_nat u64_max v = Some n" "b \<le> length raw" "length raw \<le> u64_max"
  shows "complete_body raw =
    (if b + n \<le> u64_max then Ran (if b + n \<le> length raw then Some (take n (drop b raw)) else None) else Panicked)"
proof -
  have n: "n \<le> u64_max" using assms(3) by (auto simp: parse_nat_def Let_def split: if_splits option.splits)
  have w: "wrap64 (b + n) = (if b + n \<le> u64_max then b + n else b + n - (u64_max + 1))"
    using n assms(4,5) by (intro wrap64_add) simp_all
  show ?thesis
  proof (cases "b + n \<le> u64_max")
    case True
    then show ?thesis using assms w by (simp add: complete_body_def byte_range_def)
  next
    case False
    then have "wrap64 (b + n) < b" using w n by simp
    then show ?thesis using False assms by (simp add: complete_body_def byte_range_def)
  qed
qed

section \<open>A response in pieces\<close>

text \<open>\<open>full_response raw h n\<close>: headers that end at \<open>h\<close> and promise the \<open>n\<close> bytes that follow them.\<close>

definition full_response :: "bytes \<Rightarrow> nat \<Rightarrow> nat \<Rightarrow> bool" where
  "full_response raw h n \<longleftrightarrow> head_ends raw h \<and> length raw = h + 4 + n \<and> length raw \<le> MAX_BODY + 8192 \<and>
     (\<exists>v. header_value (utf8_lossy (take h raw)) (lit ''content-length'') = Some v \<and> parse_nat u64_max v = Some n)"

lemma complete_body_prefix:
  assumes "full_response raw h n" "m \<le> length raw"
  shows "complete_body (take m raw) = Ran (if m = length raw then Some (drop (h + 4) raw) else None)"
proof (cases "h + 4 \<le> m")
  case False
  then show ?thesis
    using assms by (auto simp: complete_body_def full_response_def header_bounds_prefix)
next
  case True
  obtain v where v: "header_value (utf8_lossy (take h raw)) (lit ''content-length'') = Some v" "parse_nat u64_max v = Some n"
    using assms(1) by (auto simp: full_response_def)
  have b: "header_bounds (take m raw) = Some (h, h + 4)"
    using True assms(1) header_bounds_prefix [of raw h m] by (simp add: full_response_def)
  have h: "take h (take m raw) = take h raw" using True by (simp add: min_def)
  have small: "length raw \<le> u64_max" using assms(1) by (simp add: full_response_def MAX_BODY_def)
  have len: "length raw = h + 4 + n" using assms(1) by (simp add: full_response_def)
  have "complete_body (take m raw) = (if h + 4 + n \<le> u64_max
      then Ran (if h + 4 + n \<le> length (take m raw) then Some (take n (drop (h + 4) (take m raw))) else None) else Panicked)"
    by (rule complete_body_exact [OF b _ v(2)]) (use v h True assms small in simp_all)
  then show ?thesis using len small assms(2) True by auto
qed

lemma read_pieces:
  assumes full: "full_response (raw @ concat ps) h n" and "\<forall>p \<in> set ps. p \<noteq> []" "ps \<noteq> []"
  shows "read_response raw (map ReadBytes ps @ rest) = Ran (Inr (raw @ concat ps))"
  using assms
proof (induction ps arbitrary: raw)
  case (Cons p ps)
  let ?all = "raw @ concat (p # ps)"
  have part: "raw @ p = take (length raw + length p) ?all" by simp
  have small: "length (raw @ p) \<le> MAX_BODY + 8192" using Cons.prems(1) by (simp add: full_response_def)
  have body: "complete_body (raw @ p) = Ran (if length raw + length p = length ?all then Some (drop (h + 4) ?all) else None)"
    unfolding part by (rule complete_body_prefix [OF Cons.prems(1)]) simp
  show ?case
  proof (cases "ps = []")
    case True
    then show ?thesis using body small Cons.prems(2) by simp
  next
    case False
    then have "concat ps \<noteq> []" using Cons.prems(2) by auto
    then have "complete_body (raw @ p) = Ran None" using body by simp
    then show ?thesis using small Cons.prems False Cons.IH [of "raw @ p"] by simp
  qed
qed simp

section \<open>Such responses\<close>

lemma lossy_utf8: "valid_str s \<Longrightarrow> utf8_lossy (utf8 s) = s"
  by (induction s) (simp_all add: utf8_lossy.simps [of "[]"] utf8_lossy.simps [of "utf8_char c @ t" for c t] utf8_next_char)

text \<open>An answer with a length and a body.\<close>

definition reply_head :: "str \<Rightarrow> str" where
  "reply_head len = lit ''HTTP/1.1 200 OK'' @ [13, 10] @ lit ''Content-Length: '' @ len"

definition reply :: "str \<Rightarrow> str \<Rightarrow> bytes" where
  "reply len body = utf8 (reply_head len) @ [13, 10, 13, 10] @ utf8 body"

lemma reply_head_length:
  assumes "\<forall>c \<in> set len. 48 \<le> c \<and> c \<le> 57" "len \<noteq> []"
  shows "header_value (reply_head len) (lit ''content-length'') = Some len"
proof -
  have free: "10 \<notin> set len" "13 \<notin> set len" "\<And>c. c \<in> set len \<Longrightarrow> \<not> is_whitespace c"
    using assms(1) by (auto simp: is_whitespace_def)
  have one: "10 \<notin> set (lit ''HTTP/1.1 200 OK'' @ [13])" "10 \<notin> set (lit ''Content-Length: '' @ len)"
    using free by (simp_all add: lit_def)
  have "split_on 10 ((lit ''HTTP/1.1 200 OK'' @ [13]) @ 10 # (lit ''Content-Length: '' @ len)) =
     [lit ''HTTP/1.1 200 OK'' @ [13], lit ''Content-Length: '' @ len]"
    unfolding split_on_append split_on_free [OF one(1)] split_on_free [OF one(2)] by simp
  then have lines: "drop 1 (lines (reply_head len)) = [lit ''Content-Length: '' @ len]"
    using assms(2) by (simp add: lines_def reply_head_def)
  have trim: "trim (32 # len) = len"
  proof -
    have "dropWhile is_whitespace len = len" "dropWhile is_whitespace (rev len) = rev len"
      using free(3) assms(2) by (metis dropWhile_eq_self_iff hd_in_set, metis dropWhile_eq_self_iff hd_in_set set_rev)
    then show ?thesis by (simp add: trim_def is_whitespace_def)
  qed
  have "split_once 58 (lit ''Content-Length: '' @ len) = Some (lit ''Content-Length'', 32 # len)"
    by (simp add: split_once_def lit_def)
  moreover have "lower (trim (lit ''Content-Length'')) = lower (lit ''content-length'')"
    by (simp add: lower_def trim_def lit_def is_whitespace_def)
  ultimately show ?thesis
    by (simp add: header_value_def lines [unfolded One_nat_def] trim)
qed

lemma position_skip:
  assumes "hd pat \<notin> set xs" "pat \<noteq> []"
  shows "position pat (xs @ ys) = map_option ((+) (length xs)) (position pat ys)"
  using assms(1)
proof (induction xs)
  case Nil
  then show ?case by (cases "position pat ys") simp_all
next
  case (Cons x xs)
  obtain p q where p: "pat = p # q" using assms(2) by (cases pat) auto
  have "take (length pat) (x # xs @ ys) \<noteq> pat" using Cons.prems p by auto
  then show ?case using Cons by (cases "position pat ys") auto
qed

lemma position_here: "pat \<noteq> [] \<Longrightarrow> position pat (pat @ ys) = Some 0"
proof -
  assume "pat \<noteq> []"
  then obtain p q where p: "pat = p # q" by (cases pat) auto
  have "position (p # q) (p # q @ ys) = Some 0" by simp
  then show ?thesis using p by simp
qed

text \<open>Two lines of text and an empty one.\<close>

lemma two_lines:
  fixes u v w :: bytes
  assumes "13 \<notin> set u" "10 \<notin> set u" "13 \<notin> set v" "10 \<notin> set v" "v \<noteq> []"
  shows "head_ends (u @ [13, 10] @ v @ [13, 10, 13, 10] @ w) (length u + 2 + length v)"
proof -
  obtain x y where v: "v = x # y" using assms(5) by (cases v) auto
  have x: "x \<noteq> 13" "x \<noteq> 10" using assms(3,4) v by auto
  have "position [13, 10, 13, 10] (v @ [13, 10, 13, 10] @ w) = Some (length v)"
    using position_skip [of "[13, 10, 13, 10]" v "[13, 10, 13, 10] @ w"] assms(3) unfolding position_here [of "[13, 10, 13, 10]" w, OF list.distinct(2)] by simp
  then have "position [13, 10, 13, 10] ([13, 10] @ v @ [13, 10, 13, 10] @ w) = Some (2 + length v)"
    using x v by simp
  then have ends: "position [13, 10, 13, 10] (u @ [13, 10] @ v @ [13, 10, 13, 10] @ w) = Some (length u + 2 + length v)"
    using position_skip [of "[13, 10, 13, 10]" u] assms(1) by simp
  have "position [10, 10] (v @ [13, 10, 13]) = None"
    using position_skip [of "[10, 10]" v "[13, 10, 13]"] assms(4) by simp
  then have "position [10, 10] ([13, 10] @ v @ [13, 10, 13]) = None" using x v by simp
  then have "position [10, 10] (u @ [13, 10] @ v @ [13, 10, 13]) = None"
    using position_skip [of "[10, 10]" u] assms(2) by simp
  moreover have "take (length u + 2 + length v + 3) (u @ [13, 10] @ v @ [13, 10, 13, 10] @ w) = u @ [13, 10] @ v @ [13, 10, 13]"
  proof -
    have "length (u @ [13, 10] @ v @ [13, 10, 13]) = length u + 2 + length v + 3"
      "u @ [13, 10] @ v @ [13, 10, 13, 10] @ w = (u @ [13, 10] @ v @ [13, 10, 13]) @ 10 # w" by simp_all
    then show ?thesis by (metis append_eq_conv_conj)
  qed
  ultimately show ?thesis using ends by (simp add: head_ends_def)
qed

lemma utf8_low: "\<forall>c \<in> set s. c < 128 \<Longrightarrow> utf8 s = map of_nat s"
  by (induction s) (simp_all add: utf8_def utf8_char_def)

lemma utf8_free: "\<forall>c \<in> set s. c < 128 \<and> c \<noteq> x \<Longrightarrow> x < 128 \<Longrightarrow> of_nat x \<notin> set (utf8 s)"
proof -
  assume s: "\<forall>c \<in> set s. c < 128 \<and> c \<noteq> x" and x: "x < 128"
  have "of_nat c \<noteq> (of_nat x :: 8 word)" if "c < 128" "c \<noteq> x" for c
  proof
    assume "of_nat c = (of_nat x :: 8 word)"
    then have "unat (of_nat c :: 8 word) = unat (of_nat x :: 8 word)" by simp
    with that x show False by (simp add: unat_of_nat)
  qed
  then show ?thesis using s utf8_low [of s] by (metis (no_types, lifting) imageE list.set_map)
qed

lemma reply_ends:
  assumes "\<forall>c \<in> set len. 48 \<le> c \<and> c \<le> 57"
  shows "head_ends (reply len body) (length (utf8 (reply_head len)))"
    "utf8_lossy (take (length (utf8 (reply_head len))) (reply len body)) = reply_head len"
proof -
  let ?u = "lit ''HTTP/1.1 200 OK''" and ?v = "lit ''Content-Length: '' @ len"
  have chars: "\<forall>c \<in> set ?u. c < 128 \<and> c \<noteq> 13" "\<forall>c \<in> set ?u. c < 128 \<and> c \<noteq> 10" by (simp_all add: lit_def)
  have chars': "\<forall>c \<in> set ?v. c < 128 \<and> c \<noteq> 13" "\<forall>c \<in> set ?v. c < 128 \<and> c \<noteq> 10"
    using assms by (fastforce simp: lit_def)+
  have free: "13 \<notin> set (utf8 ?u)" "10 \<notin> set (utf8 ?u)" "13 \<notin> set (utf8 ?v)" "10 \<notin> set (utf8 ?v)"
    using utf8_free [OF chars(1)] utf8_free [OF chars(2)] utf8_free [OF chars'(1)] utf8_free [OF chars'(2)] by simp_all
  have head: "utf8 (reply_head len) = utf8 ?u @ [13, 10] @ utf8 ?v"
    by (simp add: reply_head_def utf8_def utf8_char_def)
  have "utf8 ?v \<noteq> []" by (simp add: utf8_def lit_def utf8_char_def)
  from two_lines [OF free this, of "utf8 body"]
  show "head_ends (reply len body) (length (utf8 (reply_head len)))"
    by (simp add: reply_def head)
  have "\<forall>c \<in> set (reply_head len). c < 128"
    using assms by (fastforce simp: reply_head_def lit_def)
  then have "valid_str (reply_head len)" by (fastforce simp: valid_str_def valid_char_def)
  then show "utf8_lossy (take (length (utf8 (reply_head len))) (reply len body)) = reply_head len"
    by (simp add: reply_def lossy_utf8)
qed

text \<open>A response with the length of its body is a whole one.\<close>

lemma reply_full:
  assumes "n = length (utf8 body)" "n \<le> MAX_BODY"
  shows "full_response (reply (dec n) body) (length (utf8 (reply_head (dec n)))) n"
proof -
  have d: "\<forall>c \<in> set (dec n). 48 \<le> c \<and> c \<le> 57" "dec n \<noteq> []" using dec_digits [of n] by auto
  have "length (dec n) \<le> 7" using assms(2) length_dec [of n 6] by (simp add: MAX_BODY_def)
  moreover have "length (utf8 (reply_head (dec n))) = 33 + length (dec n)"
  proof -
    have "\<forall>c \<in> set (reply_head (dec n)). c < 128" using d(1) by (fastforce simp: reply_head_def lit_def)
    then show ?thesis by (simp add: utf8_low) (simp add: reply_head_def lit_def)
  qed
  ultimately have "length (reply (dec n) body) \<le> MAX_BODY + 8192" using assms by (simp add: reply_def)
  moreover have "n \<le> u64_max" using assms(2) by (simp add: MAX_BODY_def)
  ultimately show ?thesis
    using reply_ends [OF d(1), of body] reply_head_length [OF d] parse_dec [of n u64_max] assms
    unfolding full_response_def by (auto simp: reply_def)
qed

lemma reply_bounds:
  assumes "\<forall>c \<in> set len. 48 \<le> c \<and> c \<le> 57"
  shows "header_bounds (reply len body) = Some (length (utf8 (reply_head len)), length (utf8 (reply_head len)) + 4)"
  using header_bounds_prefix [OF reply_ends(1) [OF assms, of body], of "length (reply len body)"]
  by (simp add: reply_def)

end
