(* ===== verification/WatchdogConfigLaws.thy ===== *)
theory WatchdogConfigLaws
  imports WatchdogConfig WatchdogJsonLaws
begin

text \<open>
  A configuration that \<open>render\<close> can write is read back by \<open>parse\<close>: line by line, each of which sets one key.
\<close>

section \<open>Lines\<close>

declare trim_end [simp] trim_start [simp]

lemma lines_written:
  "\<forall>l \<in> set ls. 10 \<notin> set l \<Longrightarrow> lines (concat (map (\<lambda>l. l @ [10]) ls)) = map strip_cr ls"
proof -
  assume free: "\<forall>l \<in> set ls. 10 \<notin> set l"
  have "split_on 10 (concat (map (\<lambda>l. l @ [10]) ls)) = ls @ [[]]"
    using free by (induction ls) (simp_all add: split_on_free)
  then show ?thesis by (simp add: lines_def)
qed

text \<open>A value that stands between its blanks as it is.\<close>

definition trimmed :: "str \<Rightarrow> bool" where
  "trimmed v \<longleftrightarrow> v = [] \<or> \<not> is_whitespace (hd v) \<and> \<not> is_whitespace (last v)"

lemma trimmed_trim: "trimmed v \<Longrightarrow> trim v = v"
  by (cases "v = []") (simp_all add: trimmed_def trim_fixed, simp add: trim_def)

definition key_name :: "str \<Rightarrow> bool" where
  "key_name k \<longleftrightarrow> k \<noteq> [] \<and> (\<forall>c \<in> set k. \<not> is_whitespace c \<and> c \<notin> {61, 35, 59})"

definition assignment :: "str \<times> str \<Rightarrow> str" where
  "assignment kv = fst kv @ [32, 61, 32] @ snd kv"

lemma blank: "is_whitespace 32" "is_whitespace 13" "is_whitespace 10"
  by (simp_all add: is_whitespace_def)

lemma strip_cr_assignment: "trimmed v \<Longrightarrow> strip_cr (assignment (k, v)) = assignment (k, v)"
  using blank by (auto simp: strip_cr_def assignment_def trimmed_def last_append)

lemma split_once_at: "c \<notin> set a \<Longrightarrow> split_once c (a @ c # b) = Some (a, b)"
  by (induction a) (auto simp: split_once_def)

lemma parse_assignment:
  assumes "key_name k" "trimmed v"
  shows "parse_line n (assignment (k, v)) (seen, c) =
    (if k \<noteq> lit ''env'' \<and> k \<in> set seen then Inl (SetTwice n k)
     else res_bind (set_key n k v c) (\<lambda>c. Inr (if k \<noteq> lit ''env'' then seen @ [k] else seen, c)))"
proof -
  have k: "k \<noteq> []" "\<not> is_whitespace (hd k)" "\<not> is_whitespace (last k)" "61 \<notin> set k" "hd k \<notin> {35, 59}"
    using assms(1) by (auto simp: key_name_def)
  let ?rest = "if v = [] then [] else 32 # v"
  have line: "trim (assignment (k, v)) = k @ [32, 61] @ ?rest"
  proof (cases "v = []")
    case True
    then have "assignment (k, v) = (k @ [32, 61]) @ [32]" by (simp add: assignment_def)
    moreover have "trim (k @ [32, 61]) = k @ [32, 61]"
      using k by (intro trim_fixed) (simp_all add: is_whitespace_def)
    ultimately show ?thesis using True trim_end [OF blank(1), of "k @ [32, 61]"] by simp
  next
    case False
    have "trim (k @ [32, 61, 32] @ v) = k @ [32, 61, 32] @ v"
      using k False assms(2) by (intro trim_fixed) (simp_all add: trimmed_def)
    then show ?thesis using False by (simp add: assignment_def)
  qed
  have split: "split_once 61 (k @ [32, 61] @ ?rest) = Some (k @ [32], ?rest)"
    using k(4) split_once_at [of 61 "k @ [32]" ?rest] by simp
  have key: "trim (k @ [32]) = k"
    using blank(1) k trim_fixed [of k] by simp
  have inner: "trim ?rest = v"
    using trimmed_trim [OF assms(2)] blank(1) by auto
  have "\<not> is_comment (k @ [32, 61] @ ?rest)"
    using k by (simp add: is_comment_def)
  then show ?thesis by (simp only: parse_line_def Let_def line split key inner prod.case option.case if_False)
qed

section \<open>A file of assignments\<close>

text \<open>\<open>assigns kvs c c'\<close>: the assignments lead from \<open>c\<close> to \<open>c'\<close>, whatever lines they stand on.\<close>

fun assigns :: "(str \<times> str) list \<Rightarrow> watch_config \<Rightarrow> watch_config \<Rightarrow> bool" where
  "assigns [] c c' \<longleftrightarrow> c = c'"
| "assigns (kv # kvs) c c' \<longleftrightarrow> (\<exists>c1. (\<forall>n. set_key n (fst kv) (snd kv) c = Inr c1) \<and> assigns kvs c1 c')"

lemma reads_append: "assigns kvs c c1 \<Longrightarrow> assigns kvs2 c1 c' \<Longrightarrow> assigns (kvs @ kvs2) c c'"
  by (induction kvs arbitrary: c) auto

definition single_keys :: "(str \<times> str) list \<Rightarrow> str list" where
  "single_keys kvs = filter (\<lambda>k. k \<noteq> lit ''env'') (map fst kvs)"

lemma parse_assignments:
  assumes "\<forall>(k, v) \<in> set kvs. key_name k \<and> trimmed v" "distinct (seen @ single_keys kvs)" "assigns kvs c c'"
  shows "parse_lines n (map assignment kvs) (seen, c) = Inr (seen @ single_keys kvs, c')"
  using assms
proof (induction kvs arbitrary: n seen c)
  case (Cons kv kvs)
  obtain k v where kv: "kv = (k, v)" by fastforce
  obtain c1 where c1: "\<forall>n. set_key n k v c = Inr c1" "assigns kvs c1 c'" using Cons.prems(3) kv by auto
  let ?seen = "if k \<noteq> lit ''env'' then seen @ [k] else seen"
  have fresh: "\<not> (k \<noteq> lit ''env'' \<and> k \<in> set seen)" using Cons.prems(2) kv by (auto simp: single_keys_def)
  have "parse_line n (assignment (k, v)) (seen, c) = Inr (?seen, c1)"
    using parse_assignment [of k v n seen c] Cons.prems(1) kv fresh c1(1) by auto
  moreover have keys: "?seen @ single_keys kvs = seen @ single_keys (kv # kvs)"
    using kv by (simp add: single_keys_def)
  moreover have "distinct (?seen @ single_keys kvs)" unfolding keys by (rule Cons.prems(2))
  ultimately show ?case
    using Cons.IH [of ?seen c1 "Suc n"] Cons.prems(1) c1(2) kv by simp
qed (simp add: single_keys_def)


section \<open>Arguments\<close>

text \<open>What an argument may hold: anything but a quote and a line feed, and at least one character.\<close>

definition writable_arg :: "str \<Rightarrow> bool" where
  "writable_arg a \<longleftrightarrow> a \<noteq> [] \<and> 34 \<notin> set a \<and> 10 \<notin> set a"

lemma split_quoted: "34 \<notin> set a \<Longrightarrow> split_args_loop (a @ s) out cur True st = split_args_loop s out (cur @ a) True (st \<or> a \<noteq> [])"
  by (induction a arbitrary: cur st) simp_all

lemma split_bare:
  "34 \<notin> set a \<Longrightarrow> \<forall>c \<in> set a. \<not> is_whitespace c \<Longrightarrow> split_args_loop (a @ s) out cur False st = split_args_loop s out (cur @ a) False (st \<or> a \<noteq> [])"
  by (induction a arbitrary: cur st) simp_all

lemma split_arg:
  assumes "writable_arg a"
  shows "split_args_loop (write_arg a @ s) out [] False False = split_args_loop s out a False True"
proof (cases "list_ex is_whitespace a")
  case True
  then show ?thesis using assms split_quoted [of a "34 # s" out "[]" True] by (simp add: write_arg_def writable_arg_def)
next
  case False
  then have "\<forall>c \<in> set a. \<not> is_whitespace c" by (simp add: list_ex_iff)
  then show ?thesis using assms split_bare [of a s out "[]" False] False by (simp add: write_arg_def writable_arg_def)
qed

lemma split_args_written:
  assumes "\<forall>a \<in> set args. writable_arg a"
  shows "split_args (join_with 32 (map write_arg args)) = Inr args"
proof -
  have "split_args_loop (join_with 32 (map write_arg args)) out [] False False = Inr (out @ args)"
    if "\<forall>a \<in> set args. writable_arg a" for out and args :: "str list"
    using that
  proof (induction args arbitrary: out)
    case (Cons a args)
    show ?case
    proof (cases "args = []")
      case True
      then show ?thesis using split_arg [of a "[]" out] Cons.prems by simp
    next
      case False
      then show ?thesis
        using split_arg [of a "32 # join_with 32 (map write_arg args)" out] Cons.prems Cons.IH [of "out @ [a]"] blank(1) by simp
    qed
  qed simp
  from this [OF assms] show ?thesis by (simp add: split_args_def)
qed

lemma trimmed_args:
  assumes "\<forall>a \<in> set args. writable_arg a"
  shows "trimmed (join_with 32 (map write_arg args))"
proof -
  have ends: "write_arg a \<noteq> []" "\<not> is_whitespace (hd (write_arg a))" "\<not> is_whitespace (last (write_arg a))" if "writable_arg a" for a
  proof -
    have quote: "\<not> is_whitespace 34" by (simp add: is_whitespace_def)
    have a: "a \<noteq> []" using that by (simp add: writable_arg_def)
    show "write_arg a \<noteq> []" "\<not> is_whitespace (hd (write_arg a))" "\<not> is_whitespace (last (write_arg a))"
      using a quote by (auto simp: write_arg_def list_ex_iff)
  qed
  have "args \<noteq> [] \<Longrightarrow> join_with 32 (map write_arg args) \<noteq> [] \<and> hd (join_with 32 (map write_arg args)) = hd (write_arg (hd args)) \<and>
      last (join_with 32 (map write_arg args)) = last (write_arg (last args))"
    using assms
  proof (induction args)
    case (Cons a args)
    then show ?case using ends(1) [of a] by (cases "args = []") (simp_all add: hd_append last_append)
  qed simp
  then show ?thesis
    using assms ends [of "hd args"] ends [of "last args"] by (cases "args = []") (auto simp: trimmed_def)
qed

section \<open>The keys\<close>

text \<open>A text that is not between quotes of its own.\<close>

definition plain_text :: "str \<Rightarrow> bool" where
  "plain_text v \<longleftrightarrow> trimmed v \<and> strip_ends 34 34 v = None \<and> 10 \<notin> set v"

lemma text_of_plain [simp]: "plain_text v \<Longrightarrow> text_of v = v"
  by (simp add: plain_text_def text_of_def trimmed_trim)

lemma number_of_dec [simp]: "x \<le> u64_max \<Longrightarrow> number_of n key (dec x) = Inr x"
  by (simp add: number_of_def parse_dec)

lemma set_key_texts:
  "plain_text v \<Longrightarrow> set_key n (lit ''kernel'') v c = Inr (c\<lparr>wc_kernel := Some v\<rparr>)"
  "plain_text v \<Longrightarrow> set_key n (lit ''runtime_home'') v c = Inr (c\<lparr>wc_runtime_home := Some v\<rparr>)"
  "plain_text v \<Longrightarrow> set_key n (lit ''db'') v c = Inr (c\<lparr>wc_db := Some v\<rparr>)"
  "plain_text v \<Longrightarrow> set_key n (lit ''work_dir'') v c = Inr (c\<lparr>wc_work_dir := Some v\<rparr>)"
  by (simp_all add: set_key_def lit_def)

lemma set_key_ports:
  "x \<le> 65535 \<Longrightarrow> set_key n (lit ''port'') (dec x) c = Inr (c\<lparr>wc_port := x\<rparr>)"
  "x \<le> 65535 \<Longrightarrow> set_key n (lit ''client_port'') (dec x) c = Inr (c\<lparr>wc_client_port := x\<rparr>)"
  "x \<le> 65535 \<Longrightarrow> set_key n (lit ''spare_port'') (dec x) c = Inr (c\<lparr>wc_spare_port := x\<rparr>)"
  by (simp_all add: set_key_def lit_def set_port_def port_of_def)

lemma set_key_numbers:
  "x \<le> u64_max \<Longrightarrow> set_key n (lit ''start_timeout_ms'') (dec x) c = Inr (c\<lparr>wc_start_timeout_ms := x\<rparr>)"
  "x \<le> u64_max \<Longrightarrow> set_key n (lit ''tick_ms'') (dec x) c = Inr (c\<lparr>wc_tick_ms := x\<rparr>)"
  "x \<le> u64_max \<Longrightarrow> set_key n (lit ''backoff_base_ms'') (dec x) c = Inr (c\<lparr>wc_backoff_base_ms := x\<rparr>)"
  "x \<le> u64_max \<Longrightarrow> set_key n (lit ''backoff_max_ms'') (dec x) c = Inr (c\<lparr>wc_backoff_max_ms := x\<rparr>)"
  "x \<le> u64_max \<Longrightarrow> set_key n (lit ''swap_health_window_ms'') (dec x) c = Inr (c\<lparr>wc_swap_health_window_ms := x\<rparr>)"
  "x \<le> u64_max \<Longrightarrow> set_key n (lit ''swap_wait_ms'') (dec x) c = Inr (c\<lparr>wc_swap_wait_ms := x\<rparr>)"
  "x \<le> u64_max \<Longrightarrow> set_key n (lit ''stability_ms'') (dec x) c = Inr (c\<lparr>wc_stability_ms := x\<rparr>)"
  by (simp_all add: set_key_def lit_def set_number_def)

lemma set_key_others:
  "x \<le> u32_max \<Longrightarrow> set_key n (lit ''backoff_factor'') (dec x) c = Inr (c\<lparr>wc_backoff_factor := x\<rparr>)"
  "x \<le> u32_max \<Longrightarrow> set_key n (lit ''health_miss_limit'') (dec x) c = Inr (c\<lparr>wc_health_miss_limit := x\<rparr>)"
  "set_key n (lit ''rollback_on_early_crash'') (if b then lit ''true'' else lit ''false'') c = Inr (c\<lparr>wc_rollback_on_early_crash := b\<rparr>)"
  "\<forall>a \<in> set args. writable_arg a \<Longrightarrow>
     set_key n (lit ''kernel_args'') (join_with 32 (map write_arg args)) c = Inr (c\<lparr>wc_kernel_args := args\<rparr>)"
  by (simp_all add: set_key_def lit_def set_number_def wrap32_id bool_of_def split_args_written)

text \<open>A variable is its name, a sign of equality and its value.\<close>

definition writable_env :: "str \<times> str \<Rightarrow> bool" where
  "writable_env e \<longleftrightarrow> plain_text (fst e @ 61 # snd e) \<and> trim (fst e) = fst e \<and> 61 \<notin> set (fst e)"

lemma set_key_env: "writable_env e \<Longrightarrow> set_key n (lit ''env'') (fst e @ 61 # snd e) c = Inr (c\<lparr>wc_env := wc_env c @ [e]\<rparr>)"
  by (cases e) (simp add: set_key_def lit_def env_of_def writable_env_def split_once_at)


section \<open>The whole file\<close>

definition opt_setting :: "string \<Rightarrow> str option \<Rightarrow> (str \<times> str) list" where
  "opt_setting key v = (case v of Some v \<Rightarrow> [(lit key, v)] | None \<Rightarrow> [])"

definition fixed_settings :: "watch_config \<Rightarrow> (str \<times> str) list" where
  "fixed_settings c =
     [(lit ''start_timeout_ms'', dec (wc_start_timeout_ms c)), (lit ''tick_ms'', dec (wc_tick_ms c)),
      (lit ''backoff_base_ms'', dec (wc_backoff_base_ms c)), (lit ''backoff_factor'', dec (wc_backoff_factor c)),
      (lit ''backoff_max_ms'', dec (wc_backoff_max_ms c)), (lit ''swap_health_window_ms'', dec (wc_swap_health_window_ms c)),
      (lit ''swap_wait_ms'', dec (wc_swap_wait_ms c)), (lit ''stability_ms'', dec (wc_stability_ms c)),
      (lit ''rollback_on_early_crash'', if wc_rollback_on_early_crash c then lit ''true'' else lit ''false''),
      (lit ''health_miss_limit'', dec (wc_health_miss_limit c)), (lit ''spare_port'', dec (wc_spare_port c))]"

definition env_settings :: "watch_config \<Rightarrow> (str \<times> str) list" where
  "env_settings c = map (\<lambda>e. (lit ''env'', fst e @ 61 # snd e)) (wc_env c)"

definition settings :: "watch_config \<Rightarrow> (str \<times> str) list" where
  "settings c = opt_setting ''kernel'' (wc_kernel c)
     @ [(lit ''kernel_args'', join_with 32 (map write_arg (wc_kernel_args c))), (lit ''port'', dec (wc_port c)),
        (lit ''client_port'', dec (wc_client_port c))]
     @ opt_setting ''runtime_home'' (wc_runtime_home c) @ opt_setting ''db'' (wc_db c) @ opt_setting ''work_dir'' (wc_work_dir c)
     @ fixed_settings c @ env_settings c"

text \<open>What \<open>render\<close> can write down: every number fits its width, no text hides a line or a quote.\<close>

definition writable_config :: "watch_config \<Rightarrow> bool" where
  "writable_config c \<longleftrightarrow> config_check c = Inr c \<and>
     list_all plain_text (List.map_filter id [wc_kernel c, wc_runtime_home c, wc_db c, wc_work_dir c]) \<and>
     list_all writable_arg (wc_kernel_args c) \<and> list_all writable_env (wc_env c) \<and>
     list_all (\<lambda>x. x \<le> 65535) [wc_port c, wc_client_port c, wc_spare_port c] \<and>
     list_all (\<lambda>x. x \<le> u32_max) [wc_backoff_factor c, wc_health_miss_limit c] \<and>
     list_all (\<lambda>x. x \<le> u64_max) [wc_start_timeout_ms c, wc_tick_ms c, wc_backoff_base_ms c, wc_backoff_max_ms c,
       wc_swap_health_window_ms c, wc_swap_wait_ms c, wc_stability_ms c]"

lemma render_settings: "config_render c = concat (map (\<lambda>l. l @ [10]) (butlast config_header # map assignment (settings c)))"
proof -
  have header: "butlast config_header @ [10] = config_header" by (simp add: config_header_def butlast_append)
  have opt: "concat (map (\<lambda>l. l @ [10]) (map assignment (opt_setting key v))) = opt_line key v" for key v
    by (simp add: opt_setting_def opt_line_def config_line_def assignment_def split: option.split)
  have env: "concat (map (\<lambda>l. l @ [10]) (map assignment (env_settings c))) = concat (map (\<lambda>(name, v). config_line ''env'' (name @ [61] @ v)) (wc_env c))"
    by (simp add: env_settings_def config_line_def assignment_def comp_def case_prod_unfold)
  show ?thesis
    unfolding config_render_def settings_def list.map(2) concat.simps map_append concat_append opt env header
    by (simp add: config_line_def assignment_def fixed_settings_def)
qed

lemma reads_opt:
  assumes "\<And>n v. x = Some v \<Longrightarrow> set_key n (lit key) v c = Inr (f (Some v))" "x = None \<Longrightarrow> f None = c"
  shows "assigns (opt_setting key x) c (f x)"
  using assms by (cases x) (auto simp: opt_setting_def)

lemma reads_env: "list_all writable_env es \<Longrightarrow> assigns (map (\<lambda>e. (lit ''env'', fst e @ 61 # snd e)) es) c (c\<lparr>wc_env := wc_env c @ es\<rparr>)"
proof (induction es arbitrary: c)
  case (Cons e es)
  then have "assigns (map (\<lambda>e. (lit ''env'', fst e @ 61 # snd e)) es) (c\<lparr>wc_env := wc_env c @ [e]\<rparr>) (c\<lparr>wc_env := wc_env c @ e # es\<rparr>)"
    using Cons.IH [of "c\<lparr>wc_env := wc_env c @ [e]\<rparr>"] by simp
  then show ?case using Cons.prems by (simp add: set_key_env)
qed simp

text \<open>The keys stand in the order the writer has them, so each assignment adds its field.\<close>

lemma reads_settings:
  assumes "writable_config c"
  shows "assigns (settings c) config_default c"
proof -
  note ok = assms [unfolded writable_config_def]
  have texts: "plain_text v" if "v \<in> {x. Some x \<in> {wc_kernel c, wc_runtime_home c, wc_db c, wc_work_dir c}}" for v
    using ok that by (auto simp: list_all_iff List.map_filter_def split: if_splits)
  have args: "\<forall>a \<in> set (wc_kernel_args c). writable_arg a" using ok by (simp add: list_all_iff)
  let ?c1 = "config_default\<lparr>wc_kernel := wc_kernel c\<rparr>"
  let ?c2 = "?c1\<lparr>wc_kernel_args := wc_kernel_args c, wc_port := wc_port c, wc_client_port := wc_client_port c\<rparr>"
  let ?c3 = "?c2\<lparr>wc_runtime_home := wc_runtime_home c\<rparr>"
  let ?c4 = "?c3\<lparr>wc_db := wc_db c\<rparr>"
  let ?c5 = "?c4\<lparr>wc_work_dir := wc_work_dir c\<rparr>"
  let ?c6 = "c\<lparr>wc_env := []\<rparr>"
  have r1: "assigns (opt_setting ''kernel'' (wc_kernel c)) config_default ?c1"
    by (rule reads_opt [where f = "\<lambda>x. config_default\<lparr>wc_kernel := x\<rparr>"]) (simp_all add: set_key_texts texts config_default_def)
  have r2: "assigns [(lit ''kernel_args'', join_with 32 (map write_arg (wc_kernel_args c))), (lit ''port'', dec (wc_port c)),
        (lit ''client_port'', dec (wc_client_port c))] ?c1 ?c2"
    using ok args by (simp add: set_key_others set_key_ports)
  have r3: "assigns (opt_setting ''runtime_home'' (wc_runtime_home c)) ?c2 ?c3"
    by (rule reads_opt [where f = "\<lambda>x. ?c2\<lparr>wc_runtime_home := x\<rparr>"]) (simp_all add: set_key_texts texts config_default_def)
  have r4: "assigns (opt_setting ''db'' (wc_db c)) ?c3 ?c4"
    by (rule reads_opt [where f = "\<lambda>x. ?c3\<lparr>wc_db := x\<rparr>"]) (simp_all add: set_key_texts texts config_default_def)
  have r5: "assigns (opt_setting ''work_dir'' (wc_work_dir c)) ?c4 ?c5"
    by (rule reads_opt [where f = "\<lambda>x. ?c4\<lparr>wc_work_dir := x\<rparr>"]) (simp_all add: set_key_texts texts config_default_def)
  have r6: "assigns (fixed_settings c) ?c5 ?c6"
    using ok by (simp add: fixed_settings_def set_key_numbers set_key_others set_key_ports config_default_def)
  have r7: "assigns (env_settings c) ?c6 c"
    using reads_env [of "wc_env c" ?c6] ok by (simp add: env_settings_def)
  show ?thesis
    unfolding settings_def
    by (rule reads_append [OF r1 reads_append [OF r2 reads_append [OF r3 reads_append [OF r4 reads_append [OF r5 reads_append [OF r6 r7]]]]]])
qed


lemma dec_plain: "x \<in> set (dec n) \<Longrightarrow> \<not> is_whitespace x \<and> x \<noteq> 10 \<and> x \<noteq> 34"
  using dec_digits [of n] by (force simp: is_whitespace_def)

lemma dec_setting: "trimmed (dec n) \<and> 10 \<notin> set (dec n)"
  using dec_plain [of _ n] hd_in_set [of "dec n"] last_in_set [of "dec n"] by (auto simp: trimmed_def)

lemma args_line: "\<forall>a \<in> set args. writable_arg a \<Longrightarrow> 10 \<notin> set (join_with 32 (map write_arg args))"
proof (induction args)
  case (Cons a args)
  then show ?case by (cases "args = []") (auto simp: write_arg_def writable_arg_def)
qed simp

lemma settings_written:
  assumes "writable_config c" "(k, v) \<in> set (settings c)"
  shows "key_name k \<and> 10 \<notin> set k \<and> trimmed v \<and> 10 \<notin> set v"
proof -
  note ok = assms(1) [unfolded writable_config_def]
  have texts: "plain_text v" if "v \<in> {x. Some x \<in> {wc_kernel c, wc_runtime_home c, wc_db c, wc_work_dir c}}" for v
    using ok that by (auto simp: list_all_iff List.map_filter_def split: if_splits)
  have args: "\<forall>a \<in> set (wc_kernel_args c). writable_arg a" using ok by (simp add: list_all_iff)
  have keys: "key_name (lit ''kernel'') \<and> 10 \<notin> set (lit ''kernel'')" "key_name (lit ''kernel_args'') \<and> 10 \<notin> set (lit ''kernel_args'')"
    "key_name (lit ''port'') \<and> 10 \<notin> set (lit ''port'')" "key_name (lit ''client_port'') \<and> 10 \<notin> set (lit ''client_port'')"
    "key_name (lit ''runtime_home'') \<and> 10 \<notin> set (lit ''runtime_home'')" "key_name (lit ''db'') \<and> 10 \<notin> set (lit ''db'')"
    "key_name (lit ''work_dir'') \<and> 10 \<notin> set (lit ''work_dir'')" "key_name (lit ''env'') \<and> 10 \<notin> set (lit ''env'')"
    by (simp_all add: key_name_def lit_def is_whitespace_def)
  have opt: "key_name k \<and> 10 \<notin> set k \<and> trimmed v \<and> 10 \<notin> set v"
    if "(k, v) \<in> set (opt_setting key x)" "x \<in> {wc_kernel c, wc_runtime_home c, wc_db c, wc_work_dir c}"
      "key_name (lit key) \<and> 10 \<notin> set (lit key)" for key x
    using that texts [of v] by (auto simp: opt_setting_def plain_text_def split: option.splits)
  have flags: "trimmed (lit ''true'') \<and> 10 \<notin> set (lit ''true'')" "trimmed (lit ''false'') \<and> 10 \<notin> set (lit ''false'')"
    by (simp_all add: trimmed_def lit_def is_whitespace_def)
  have envs: "trimmed (fst e @ 61 # snd e) \<and> 10 \<notin> set (fst e @ 61 # snd e)" if "e \<in> set (wc_env c)" for e
    using ok that by (auto simp: list_all_iff writable_env_def plain_text_def)
  have fixed: "\<forall>kv \<in> set (fixed_settings c). key_name (fst kv) \<and> 10 \<notin> set (fst kv)"
    by (simp add: fixed_settings_def key_name_def lit_def is_whitespace_def)
  have "\<forall>kv \<in> set (fixed_settings c). trimmed (snd kv) \<and> 10 \<notin> set (snd kv)"
    by (simp add: fixed_settings_def dec_setting flags)
  note fixed = fixed this
  consider "(k, v) \<in> set (opt_setting ''kernel'' (wc_kernel c))" | "(k, v) = (lit ''kernel_args'', join_with 32 (map write_arg (wc_kernel_args c)))"
    | "(k, v) = (lit ''port'', dec (wc_port c))" | "(k, v) = (lit ''client_port'', dec (wc_client_port c))"
    | "(k, v) \<in> set (opt_setting ''runtime_home'' (wc_runtime_home c))" | "(k, v) \<in> set (opt_setting ''db'' (wc_db c))"
    | "(k, v) \<in> set (opt_setting ''work_dir'' (wc_work_dir c))" | "(k, v) \<in> set (fixed_settings c)"
    | e where "e \<in> set (wc_env c)" "(k, v) = (lit ''env'', fst e @ 61 # snd e)"
    using assms(2) by (auto simp: settings_def env_settings_def)
  then show ?thesis
  proof cases
    case 1
    from opt [OF this _ keys(1)] show ?thesis by simp
  next
    case 2
    then show ?thesis using keys(2) trimmed_args [OF args] args_line [OF args] by simp
  next
    case 3
    then show ?thesis using keys(3) dec_setting by simp
  next
    case 4
    then show ?thesis using keys(4) dec_setting by simp
  next
    case 5
    from opt [OF this _ keys(5)] show ?thesis by simp
  next
    case 6
    from opt [OF this _ keys(6)] show ?thesis by simp
  next
    case 7
    from opt [OF this _ keys(7)] show ?thesis by simp
  next
    case 8
    then show ?thesis using fixed by force
  next
    case 9
    then show ?thesis using keys(8) envs [of e] by simp
  qed
qed

lemma settings_distinct: "distinct (single_keys (settings c))"
  by (cases "wc_kernel c"; cases "wc_runtime_home c"; cases "wc_db c"; cases "wc_work_dir c")
    (simp_all add: settings_def single_keys_def opt_setting_def fixed_settings_def env_settings_def lit_def)

lemma render_parses:
  assumes "writable_config c"
  shows "config_parse (config_render c) = Inr c"
proof -
  have header: "10 \<notin> set (butlast config_header)" "strip_cr (butlast config_header) = butlast config_header"
    "\<And>n s. parse_line n (butlast config_header) s = Inr s"
    by (simp_all add: config_header_def butlast_append strip_cr_def lit_def parse_line_def trim_def is_whitespace_def is_comment_def
        case_prod_unfold)
  have free: "\<forall>l \<in> set (butlast config_header # map assignment (settings c)). 10 \<notin> set l"
    using header(1) settings_written [OF assms] by (fastforce simp: assignment_def)
  have strip: "map strip_cr (map assignment (settings c)) = map assignment (settings c)"
    using settings_written [OF assms] strip_cr_assignment by (fastforce simp: map_idI)
  have "lines (config_render c) = butlast config_header # map assignment (settings c)"
    unfolding render_settings lines_written [OF free] using header(2) strip by simp
  moreover have "parse_lines 2 (map assignment (settings c)) ([], config_default) = Inr ([] @ single_keys (settings c), c)"
    by (rule parse_assignments) (use settings_written [OF assms] settings_distinct reads_settings [OF assms] in auto)
  ultimately show ?thesis
    using assms header(3) by (simp add: config_parse_def writable_config_def numeral_2_eq_2)
qed

end
