(* ===== verification/WatchdogProperties.thy ===== *)
theory WatchdogProperties
  imports WatchdogStageLaws WatchdogHealthLaws WatchdogConfigLaws
begin

text \<open>
  The properties of \<open>wa-watchdog\<close>.  A script is any sequence of what the supervisor's calls find, other
  programs' writes included; where it ends the supervisor is killed, so a statement about every script
  and every number of passes is one about every moment.
\<close>

section \<open>A world to try them in\<close>

text \<open>Every call works, every probe is ready and nothing exits.\<close>

definition sunny :: observation where
  "sunny = \<lparr>ob_others = [], ob_now = 5, ob_wall = 9, ob_io = True, ob_spawn = Inr 7, ob_exit = None,
     ob_probe = \<lparr>pb_answered = True, pb_status = 200, pb_body = [], pb_ok = Some True, pb_state = None, pb_detail = None\<rparr>,
     ob_free = True\<rparr>"

definition first_config :: watch_config where
  "first_config = config_default\<lparr>wc_kernel := Some (lit ''a'')\<rparr>"

definition first_kernel :: active_kernel where
  "first_kernel = \<lparr>ak_binary = lit ''a'', ak_sha256 = None, ak_args = []\<rparr>"

definition first_request :: swap_request where
  "first_request = \<lparr>sr_id = lit ''s'', sr_binary = lit ''b'', sr_sha256 = lit ''c'', sr_args = [], sr_at_ms = 1\<rparr>"

section \<open>Processes\<close>

text \<open>C32.  At every moment of every run, whatever exits, answers, refuses or is asked for, at most one of the
  kernels the supervisor has started is alive.\<close>

theorem one_kernel_at_a_time:
  "let w = snd (sv_run n (supervisor_new c pid now files script)) in
   never_two (sv_trace w) \<and> sv_procs w = live (sv_trace w) \<and> length (sv_procs w) \<le> 1"
proof -
  have "one_kernel (supervisor_new c pid now files script)"
    by (simp add: supervisor_new_def procs_view_def child_is_process_def)
  from kernel_run.stopped_anywhere [OF this, of n] show ?thesis
    by (auto simp: Let_def at_most_one_def procs_view_def)
qed

text \<open>C33.  When no other program writes the record of the active kernel, every kernel the supervisor records
  is one the home or the configuration named at the start, or one that answered ready while it was the
  process running: a swap never records a kernel that has not served, at any moment of any run.\<close>

theorem record_names_served:
  "\<forall>ob \<in> set script. polite ob \<Longrightarrow>
   all_known (first_kernels c files) (sv_trace (snd (sv_run n (supervisor_new c pid now files script))))"
  by (rule run_known)

theorem record_names_served_witness:
  "all_known {lit ''a''} (sv_trace (snd (sv_run 2 (supervisor_new first_config 1 0 [] [sunny, sunny]))))"
proof -
  have "first_kernels first_config [] = {lit ''a''}"
    by (simp add: first_kernels_def json_names_def plain_names_def configured_def first_config_def config_default_def)
  moreover have "\<forall>ob \<in> set [sunny, sunny]. polite ob" by (simp add: polite_def sunny_def)
  ultimately show ?thesis using record_names_served [where n = 2 and pid = 1 and now = 0 and files = "[]"] by metis
qed

section \<open>Switching\<close>







section \<open>Staging\<close>

text \<open>C40.  When no other program writes under \<open>bin\<close>, staging touches nothing there but its temporary file and
  its target, and wherever it is stopped the target is what it was before or hashes to the pin; the path it
  returns is the target, and what lies there hashes to the pin.\<close>

theorem staged_bytes_match_pin:
  assumes "\<forall>ob \<in> set (sv_script w). bin_ours ob" "file_name_of binary = Some name"
  shows "let t = stage_dir pin @ name; (r, w') = stage binary pin w in
    (bm_get (sv_files w') t = bm_get (sv_files w) t \<or> pinned pin (bm_get (sv_files w') t)) \<and>
    (\<forall>n. in_bin n \<and> n \<notin> {t, stage_temporary pin name (sv_pid w)} \<longrightarrow> bm_get (sv_files w') n = bm_get (sv_files w) n) \<and>
    (\<forall>p. r = Inr (Inr p) \<longrightarrow> p = t \<and> pinned pin (bm_get (sv_files w') t))"
proof -
  let ?t = "stage_dir pin @ name" and ?t' = "stage_temporary pin name (sv_pid w)"
  obtain r w' where r: "stage binary pin w = (r, w')" by fastforce
  have "staged (bm_get (sv_files w)) w" using assms(1) by (simp add: staged_def)
  from stage_safe [OF this refl assms(2) refl refl, of pin]
  have "target_safe pin ?t ?t' (bm_get (sv_files w)) w'"
    "\<forall>p. r = Inr (Inr p) \<longrightarrow> p = ?t \<and> pinned pin (bm_get (sv_files w') ?t)"
    using r by (auto simp: ends_def split: sum.splits)
  then show ?thesis
    using stage_names(1) [of pin name] unfolding r Let_def prod.case target_safe_def staged_def by auto
qed

theorem staged_bytes_match_pin_witness:
  "let w' = snd (stage (lit ''up/b'') (lit ''0123456789abcdef'') (supervisor_new first_config 1 0 [(lit ''up/b'', Binary [1])] [sunny, sunny])) in
    bm_get (sv_files w') (lit ''bin/0123456789ab/b'') = None \<or> pinned (lit ''0123456789abcdef'') (bm_get (sv_files w') (lit ''bin/0123456789ab/b''))"
proof -
  let ?w = "supervisor_new first_config 1 0 [(lit ''up/b'', Binary [1])] [sunny, sunny]"
  have "\<forall>ob \<in> set (sv_script ?w). bin_ours ob" by (simp add: supervisor_new_def bin_ours_def sunny_def)
  moreover have "file_name_of (lit ''up/b'') = Some (lit ''b'')" by (simp add: file_name_of_def lit_def)
  moreover have "stage_dir (lit ''0123456789abcdef'') @ lit ''b'' = lit ''bin/0123456789ab/b''" by (simp add: stage_dir_def lit_def)
  moreover have "bm_get (sv_files ?w) (lit ''bin/0123456789ab/b'') = None" by (simp add: supervisor_new_def lit_def)
  ultimately show ?thesis
    using staged_bytes_match_pin [of ?w "lit ''up/b''" "lit ''b''" "lit ''0123456789abcdef''"] by (simp add: Let_def case_prod_unfold)
qed

section \<open>Digests and records\<close>

text \<open>C35.  However a file's bytes are cut into reads, the digest of the reads is that of the whole, padded and
  folded block by block; it has 32 bytes, and the first read that fails fails it.\<close>

theorem sha256_streaming:
  "sha_finish (fold sha_update cs sha_new) = sha_spec (concat cs) \<and> sha_finish (fold sha_update cs sha_new) = sha256_of (concat cs) \<and>
   length (sha_finish (fold sha_update cs sha_new)) = 32"
proof -
  have "sha_finish (fold sha_update cs sha_new) = sha_spec (concat cs)" for cs
    using sha_finish_spec [OF sha_holds_fold [OF sha_holds_new]] by simp
  from this [of cs] this [of "[concat cs]"] show ?thesis by (simp add: sha256_of_def sha_spec_length)
qed

text \<open>C36.  What the watchdog writes it reads back, whatever follows it in the file: the record of the active
  kernel whatever it holds, a request and a result whose time fits 64 bits, and a status whose numbers fit.\<close>

theorem watchdog_records_roundtrip:
  assumes "sr_at_ms q \<le> u64_max" "rs_at_ms r \<le> u64_max" "status_ok s"
  shows "active_from_json (active_to_json a @ t) = Some a \<and> request_from_json (request_to_json q @ t) = Some q \<and>
    result_from_json (result_to_json r @ t) = Some r \<and> status_from_json (status_to_json s @ t) = Some s"
  using active_reads_back request_reads_back [OF assms(1)] result_reads_back(1) [OF assms(2)] status_reads_back [OF assms(3)] by simp

definition first_status :: status where
  "first_status = \<lparr>st_state = lit ''healthy'', st_supervisor_pid = 1, st_kernel_pid = Some 7, st_kernel = Some (lit ''a''),
     st_sha256 = None, st_port = 8799, st_restarts = 2, st_attempt = 0, st_updated_ms = 9,
     st_last_exit = Some \<lparr>le_pid = 3, le_code = Some (- 1), le_uptime_ms = 4, le_at_ms = 5\<rparr>,
     st_last_swap = Some (swap_settled first_request first_kernel 1 0), st_supervisor_alive = True\<rparr>"

theorem watchdog_records_roundtrip_witness:
  "status_from_json (status_to_json first_status) = Some first_status \<and> request_from_json (request_to_json first_request) = Some first_request"
proof -
  have "status_ok first_status"
    by (simp add: status_ok_def first_status_def known_state_def exit_ok_def swap_settled_def lit_def)
  then show ?thesis
    using watchdog_records_roundtrip [of first_request "swap_settled first_request first_kernel 1 0" first_status first_kernel "[]"]
    by (simp add: first_request_def swap_settled_def)
qed

section \<open>The health probe\<close>

text \<open>C37.  However a response arrives, the probe makes of it what it makes of the whole: when its headers
  promise exactly the bytes that follow them, no read stops early, none waits for more, and the verdict is
  that on the whole response, whatever would come after it.\<close>

theorem probe_any_pieces:
  assumes "full_response (concat ps) h n" "\<forall>p \<in> set ps. p \<noteq> []"
  shows "probe_socket (Inr ()) (Inr ()) (map ReadBytes ps @ later) = parse_response (concat ps)"
proof -
  have "ps \<noteq> []" using assms(1) by (auto simp: full_response_def)
  then show ?thesis using read_pieces [of "[]" ps h n later] assms by (simp add: probe_socket_def)
qed

theorem probe_any_pieces_witness:
  "probe_socket (Inr ()) (Inr ()) [ReadBytes (take 9 (reply (dec 2) (lit ''{}''))), ReadBytes (drop 9 (reply (dec 2) (lit ''{}''))), ReadFailed []] =
    parse_response (reply (dec 2) (lit ''{}''))"
proof -
  let ?r = "reply (dec 2) (lit ''{}'')"
  have body: "2 = length (utf8 (lit ''{}''))" by (simp add: utf8_def utf8_char_def lit_def)
  have long: "length ?r > 9" by (simp add: reply_def reply_head_def utf8_def utf8_char_def lit_def)
  have "\<forall>p \<in> set [take 9 ?r, drop 9 ?r]. p \<noteq> []" using long by auto
  moreover have "full_response (concat [take 9 ?r, drop 9 ?r]) (length (utf8 (reply_head (dec 2)))) 2"
    using reply_full [OF body] by (simp add: MAX_BODY_def)
  ultimately show ?thesis using probe_any_pieces [of "[take 9 ?r, drop 9 ?r]" _ 2 "[ReadFailed []]"] by simp
qed

text \<open>C38.  The body a Content-Length promises is taken when it has arrived, and waited for until then; but a
  length that carries the index of its end past 64 bits panics, which ends the supervisor, not the probe.\<close>

theorem content_length_exact:
  assumes "header_bounds raw = Some (h, b)" "header_value (utf8_lossy (take h raw)) (lit ''content-length'') = Some v"
    and "parse_nat u64_max v = Some n" "b \<le> length raw" "length raw \<le> u64_max"
  shows "complete_body raw =
    (if b + n \<le> u64_max then Ran (if b + n \<le> length raw then Some (take n (drop b raw)) else None) else Panicked)"
  by (rule complete_body_exact [OF assms])

theorem content_length_exact_witness: "complete_body (reply (dec u64_max) []) = Panicked"
proof -
  have d: "\<forall>c \<in> set (dec u64_max). 48 \<le> c \<and> c \<le> 57" "dec u64_max \<noteq> []" using dec_digits [of u64_max] by auto
  let ?r = "reply (dec u64_max) []" and ?h = "length (utf8 (reply_head (dec u64_max)))"
  have "header_value (utf8_lossy (take ?h ?r)) (lit ''content-length'') = Some (dec u64_max)"
    unfolding reply_ends(2) [OF d(1)] by (rule reply_head_length [OF d])
  moreover have "parse_nat u64_max (dec u64_max) = Some u64_max" by (rule parse_dec) simp
  moreover have "?h + 4 \<le> length ?r" by (simp add: reply_def)
  moreover have "length ?r \<le> 100"
  proof -
    have "length (dec u64_max) \<le> 20" using length_dec [of u64_max 19] by simp
    moreover have "\<forall>c \<in> set (reply_head (dec u64_max)). c < 128" using d(1) by (fastforce simp: reply_head_def lit_def)
    then have "?h = 33 + length (dec u64_max)" by (simp add: utf8_low) (simp add: reply_head_def lit_def)
    ultimately show ?thesis by (simp add: reply_def utf8_def)
  qed
  ultimately show ?thesis using content_length_exact [OF reply_bounds [OF d(1)], of "[]" "dec u64_max" u64_max] by simp
qed

section \<open>The configuration\<close>

text \<open>C39.  What \<open>render\<close> writes of a configuration \<open>parse\<close> reads back as it was, when every number fits its
  width, no argument is empty or holds a quote, and no text stands in quotes, is padded or hides a line.\<close>

theorem config_roundtrip:
  assumes "writable_config c"
  shows "config_parse (config_render c) = Inr c"
  by (rule render_parses [OF assms])

definition small_config :: watch_config where
  "small_config = config_default\<lparr>wc_kernel := Some (lit ''/bin/a b''), wc_kernel_args := [lit ''serve'', lit ''x y''],
     wc_env := [(lit ''A'', lit ''1=2'')]\<rparr>"

theorem config_roundtrip_witness: "config_parse (config_render small_config) = Inr small_config"
proof (rule config_roundtrip)
  show "writable_config small_config"
    by (simp add: writable_config_def small_config_def config_default_def config_check_def List.map_filter_def plain_text_def trimmed_def
        strip_ends_def writable_arg_def writable_env_def lit_def is_whitespace_def trim_def)
qed

end
