(* ===== verification/Spec2Isabelle.thy ===== *)
theory Spec2Isabelle
  imports GrantProperties QueueProperties BusProperties BoundedProperties StateProperties WatchdogProperties
begin

text \<open>
  \<^bold>\<open>What this is.\<close>  A verification library for the pure cores of the Rust workspace under
  \<open>src/rust/\<close>: the parts of the node that decide, order, store and hand on, below the processes,
  sockets and WebAssembly guests that call them.  Six crates are modelled operation by operation.

  \<^item> \<open>wa-grant-policy\<close> decides whether a component may use a capability: rules by pattern, rate limits,
    daily caps, approvals, an audit record for what is sensitive.
  \<^item> \<open>wa-queue\<close> is the durable work queue of the node: jobs with priorities, leases, retries, dead
    letters, alerts, all kept in an ordered key-value store.
  \<^item> \<open>wa-bus\<close> is the event bus of the node: topics, subscriptions with bounded buffers, retention in a
    key-value store, revocation.
  \<^item> \<open>wa-bounded\<close> keeps what a failure needs to be replayed, within bounds: a ring of recorded host calls,
    a content-addressed blob store, replay files, a directory with a byte quota.
  \<^item> \<open>wa-state\<close> owns what a component keeps between runs: metadata under reserved keys, schema
    migrations that survive a crash in the middle of a step, snapshots that move a namespace.

  \<^item> \<open>wa-watchdog\<close> keeps one kernel process running: it restarts what exits, switches to another binary
    when asked, and puts the previous one back when the new one does not answer.

  The engine is called before a component acts; the queue hands one job to one worker, the bus hands
  one event to every subscriber.  Queue and bus stand on the same store interface (\<open>kv.rs\<close> of either
  crate), which is the locale \<open>ordered_kv\<close>.

  \<^bold>\<open>Shared ground.\<close>  \<open>Prelude\<close> has the machine integers (saturating and wrapping arithmetic of
  \<open>u64\<close>, \<open>u32\<close> and \<open>i64\<close> on \<open>nat\<close> and \<open>int\<close>), characters and UTF-8 (\<open>str\<close> is a list of scalar values,
  \<open>bytes\<close> the encoding), results as sums; \<open>BTree\<close> the standard library's ordered map, with the prefix
  scan; \<open>Bytes\<close> integers as bytes, big- and little-endian; \<open>Text\<close> splitting, decimal and hexadecimal
  numerals.  \<open>Fallible\<close> has the programs that may fail half way (\<open>b_return\<close>, \<open>b_fail\<close>, \<open>b_then\<close>), \<open>StoreWp\<close>
  their weakest preconditions over the scripted store; queue, bounded stores and state share them.

  \<^bold>\<open>Grants.\<close>  \<open>GrantPattern\<close> (\<open>pattern.rs\<close>), \<open>GrantPolicy\<close> (\<open>policy.rs\<close>, \<open>decision.rs\<close>), \<open>GrantBucket\<close>
  (\<open>bucket.rs\<close>), \<open>GrantAudit\<close> (\<open>audit.rs\<close>) and \<open>GrantEngine\<close> (\<open>engine.rs\<close>) hold the definitions, in
  the order of the files; the engine is a record with the fields of the Rust struct, each method a
  function from the engine to a result and the new engine.  \<open>GrantLaws\<close> proves the invariant,
  \<open>Budget\<close> and \<open>GrantBudgets\<close> the bounds on what a run of calls may spend (a locale \<open>spending\<close> of credits,
  interpreted on rate limits, daily caps and approvals), \<open>GrantState\<close> snapshots and restoring;
  \<open>GrantProperties\<close> states the guarantees.

  \<^bold>\<open>The queue.\<close>  \<open>QueueKv\<close> (\<open>kv.rs\<close>, \<open>clock.rs\<close>), \<open>QueueTypes\<close> (\<open>lib.rs\<close>), \<open>QueueCodec\<close> (\<open>codec.rs\<close> and
  the keys), \<open>QueueOps\<close> (\<open>queue.rs\<close>) hold the definitions.  An operation is a function on the store
  (\<open>'a qm\<close>), and every call of the store may fail by a script: refused before it does anything, or
  torn, done but reported as failed.  So an operation that stops half way is a run of the model, and
  a crash is a script that refuses everything from some point on.  \<open>QueueCodecLaws\<close> are the laws of
  the record format and the keys, \<open>QueueWp\<close> weakest preconditions that cover success and failure,
  \<open>QueueInv\<close>, \<open>QueueRel\<close>, \<open>QueueSafe\<close>, \<open>QueueLife\<close> and \<open>QueueRun\<close> prove for every operation that it keeps
  the store in order and moves each job only along the allowed steps; \<open>QueueProperties\<close> states the
  guarantees.

  \<^bold>\<open>The bus.\<close>  \<open>BusTopic\<close> (\<open>topic.rs\<close>), \<open>BusAccess\<close> (\<open>access.rs\<close>), \<open>BusEvent\<close> (\<open>event.rs\<close>) and \<open>Bus\<close>
  (\<open>kv.rs\<close>, \<open>bus.rs\<close>) hold the definitions.  Every critical section of the one mutex is one function;
  a publisher that waits for a full subscriber gives the mutex up between two rounds and is modelled
  round by round (\<open>deliver_round\<close>, \<open>await\<close>), with the other threads free to do anything in between.
  \<open>BusLaws\<close> proves the invariant over the step relation \<open>sys_step\<close> of the bus with its waiting
  publishers, \<open>BusOrder\<close> what flows through a subscription, \<open>BusWaiting\<close> what
  becomes of every subscription over the rounds of a waiting publisher, \<open>BusLog\<close> the retained log as a sorted list;
  \<open>BusProperties\<close> states the guarantees.

  \<^bold>\<open>Bounded stores.\<close>  \<open>Bounded\<close> (\<open>lib.rs\<close>, and what the crate uses of \<open>std::fs\<close>), \<open>BoundedDir\<close> (\<open>dir.rs\<close>),
  \<open>BoundedBlob\<close> (\<open>blob.rs\<close>), \<open>BoundedRing\<close> (\<open>ring.rs\<close>) and \<open>BoundedReplay\<close> (\<open>replay.rs\<close>) hold the
  definitions.  A directory is a map from paths to files, and every call of it may fail by a script,
  refused or torn like the store's.  \<open>ends m P E s\<close> is the calculus: from \<open>s\<close> the program returns into
  \<open>P\<close> or stops into \<open>E\<close>.  \<open>BoundedDirLaws\<close> proves what a write and an expiry leave of the files,
  \<open>BoundedBlobLaws\<close> that no call but collection removes a blob and collection none that is counted
  on, \<open>BoundedRingLaws\<close> the invariant of the ring with its store over every run of events,
  \<open>BoundedReplayLaws\<close> that the readers invert the writers and that every save finds a free name;
  \<open>BoundedProperties\<close> states the guarantees.  The ring and the replay files are proved for caps up to
  \<open>2\<^sup>37\<close> bytes and \<open>2\<^sup>30\<close> records, far above the crate's defaults, so that no counter saturates.

  \<^bold>\<open>Component state.\<close>  \<open>StateKv\<close> (\<open>lib.rs\<close>, \<open>kv.rs\<close>), \<open>StateMeta\<close> (\<open>meta.rs\<close>), \<open>StateBatch\<close> (\<open>batch.rs\<close>),
  \<open>StateSnapshot\<close> (\<open>snapshot.rs\<close>) and \<open>StateMigrate\<close> (\<open>migrate.rs\<close>) hold the definitions.  Operations are
  programs over the scripted store of the queue (\<open>'a sm\<close>), a step is a program over the batch in memory
  (\<open>unit batchm\<close>), a migration a program that journals the difference a step makes before it writes it.
  \<open>StateBatchLaws\<close> proves that the difference of two batches leads from one to the other from any
  index, and that its binary form reads back; \<open>StateLaws\<close> the metadata; \<open>StateStages\<close> names what a crash can
  leave (\<open>recoverable\<close>) along the path of batches the steps compute, \<open>StateCrash\<close> proves that every run keeps
  a recoverable store recoverable and a run without faults brings it to the end of the path;
  \<open>StateView\<close> is the component's view of the store, \<open>StateReads\<close> what only reads, \<open>StateSnapshotLaws\<close>
  that the reader of a snapshot inverts its writer; \<open>StateProperties\<close> states the guarantees.

  \<^bold>\<open>The watchdog.\<close>  \<open>WatchdogHash\<close> (\<open>hash.rs\<close>), \<open>WatchdogJson\<close> (\<open>json.rs\<close>), \<open>WatchdogState\<close> (\<open>backoff.rs\<close>,
  \<open>state.rs\<close>), \<open>WatchdogHealth\<close> (\<open>health.rs\<close>), \<open>WatchdogConfig\<close> (\<open>config.rs\<close>), \<open>WatchdogHome\<close> (\<open>paths.rs\<close>),
  \<open>Watchdog\<close> (\<open>supervisor.rs\<close> and the supervisor's half of \<open>swap.rs\<close>) and \<open>WatchdogStage\<close> (the client's half) hold the definitions.  The supervisor
  is a record with the fields of the Rust struct, the files of its home, the processes it has started
  and the trace of what it did.  Every clock reading, probe, process call and file call takes the next
  observation of a script, which says what the call finds and which files other programs have changed
  by then; where the script ends the supervisor is killed, so a statement about every script is one about
  every moment.  The loops that wait for a kernel (\<open>poll_loop\<close>) end with the script, for each turn takes an
  observation, which \<open>polls_consume\<close> proves.  \<open>WatchdogRuns\<close> is the calculus (\<open>maintains I J m\<close>: from \<open>I\<close> into \<open>I\<close>, and
  \<open>J\<close> wherever the program is stopped) with the locale \<open>supervision\<close> of what every pass maintains;
  \<open>WatchdogKernel\<close> and \<open>WatchdogRecord\<close> interpret it, for the processes and for the record of the
  active kernel; \<open>WatchdogSwap\<close> proves how a switch ends, \<open>WatchdogStageLaws\<close> what staging and proving leave; \<open>WatchdogJsonLaws\<close>, \<open>WatchdogStateLaws\<close> and
  \<open>WatchdogConfigLaws\<close> that the readers invert the writers, \<open>WatchdogHealthLaws\<close> what a response in pieces is read as; \<open>WatchdogProperties\<close> states the guarantees.

  \<^bold>\<open>Interfaces.\<close>  \<open>ordered_kv\<close> (the store; interpreted on the memory stores, on a namespace, on the
  scripted store and on a component's view), \<open>audit_sink\<close> (what takes audit records), \<open>spending\<close> (credits that calls spend),
  \<open>job_relation\<close> and \<open>lease_respecting\<close> (what an operation may do to jobs, and to those under a lease),
  \<open>access_policy\<close> (patterns as sets of topics), \<open>supervision\<close> (what every pass of the watchdog maintains) are locales; each is interpreted on
  the model's own definitions, in the theory that provides them.

  \<^bold>\<open>Parameters.\<close>  SHA-256 (\<open>sha\<close>), zstd (\<open>zc\<close>, \<open>zd\<close>) and the JSON of journals and snapshot heads (\<open>formats\<close>) are arguments; so is what a guest of the library supplies: the
  audit sink, an access policy, a store, the functions of the migration steps, the sink of snapshots.  Clocks are readings handed to each operation, in no
  particular order, so a clock that stands still or steps back is covered.  Counters wrap or saturate
  where the release build of the code does; a property that needs them not to wrap says so.
  Loops are structural recursions over the rows or jobs they walk, the matcher of patterns a
  terminating function; the search for a free file name tries one name more than there are files, which
  is proved enough, the pages of a snapshot are read until the entries beyond the cursor run out; the only loop that may not end is the publisher's wait,
  which takes the list of its wake-ups.

  \<^bold>\<open>Not modelled.\<close>  Display texts, serde and JSON glue, file-backed audit and stores, the operating
  system's clock; and the other crates: what is I/O, network, processes, guests or generated bindings
  (the manifest lists each with its reason), and the pure crates that are still to come
  (\<open>wa-telemetry\<close>, \<open>wa-mesh\<close>, \<open>wa-jobs\<close>, \<open>wa-graph\<close>).  Of the watchdog the commands and what the operating
  system does for it: spawning, ports, sockets.
\<close>

end
